(* ===== verification/Prelude.thy ===== *)
theory Prelude
  imports Main "HOL-Library.Multiset" "HOL-Library.Sublist"
begin

text \<open>
  Shared ground of the development: results that may be errors, the ordered
  key/value stores that stand for JavaScript \<open>Map\<close>s, the queue loop that several
  graph routines of the engine share, and generic facts on lists.

  A JavaScript \<open>Map\<close> enumerates its entries in insertion order and overwriting a key
  keeps its place; it is an association list with distinct keys here, read by
  \<open>map_of\<close>.  A JavaScript \<open>Set\<close> used only through \<open>has\<close> and \<open>add\<close> is a list
  of its elements.
\<close>

named_theorems result_simps \<open>unfolding of results and their binds\<close>
named_theorems store_simps \<open>lookups after updates of ordered stores\<close>

section \<open>Results\<close>

type_synonym ('e, 'a) result = "'e + 'a"

definition bindR :: "('e, 'a) result \<Rightarrow> ('a \<Rightarrow> ('e, 'b) result) \<Rightarrow> ('e, 'b) result" where
  "bindR r f = (case r of Inl e \<Rightarrow> Inl e | Inr a \<Rightarrow> f a)"

lemma bindR_simps [simp, result_simps]:
  "bindR (Inl e) f = Inl e"
  "bindR (Inr a) f = f a"
  by (simp_all add: bindR_def)

lemma bindR_eq_Inr_iff [result_simps]:
  "bindR r f = Inr b \<longleftrightarrow> (\<exists>a. r = Inr a \<and> f a = Inr b)"
  by (cases r) auto

lemma bindR_eq_Inl_iff [result_simps]:
  "bindR r f = Inl e \<longleftrightarrow> r = Inl e \<or> (\<exists>a. r = Inr a \<and> f a = Inl e)"
  by (cases r) auto

lemma bindR_cong [fundef_cong]:
  "r = s \<Longrightarrow> (\<And>a. s = Inr a \<Longrightarrow> f a = g a) \<Longrightarrow> bindR r f = bindR s g"
  by (cases s) auto

definition mapRes :: "('a \<Rightarrow> 'b) \<Rightarrow> ('e, 'a) result \<Rightarrow> ('e, 'b) result" where
  "mapRes f r = bindR r (\<lambda>a. Inr (f a))"

lemma mapRes_simps [simp, result_simps]:
  "mapRes f (Inl e) = Inl e"
  "mapRes f (Inr a) = Inr (f a)"
  by (simp_all add: mapRes_def)

lemma mapRes_eq_Inr_iff [result_simps]:
  "mapRes f r = Inr b \<longleftrightarrow> (\<exists>a. r = Inr a \<and> b = f a)"
  by (cases r) auto

text \<open>Evaluate the members of a list from left to right; the first error wins.\<close>

fun mapR :: "('a \<Rightarrow> ('e, 'b) result) \<Rightarrow> 'a list \<Rightarrow> ('e, 'b list) result" where
  "mapR f [] = Inr []"
| "mapR f (x # xs) = bindR (f x) (\<lambda>y. bindR (mapR f xs) (\<lambda>ys. Inr (y # ys)))"

lemma mapR_cong [fundef_cong]:
  "xs = ys \<Longrightarrow> (\<And>x. x \<in> set ys \<Longrightarrow> f x = g x) \<Longrightarrow> mapR f xs = mapR g ys"
  by (induction xs arbitrary: ys) auto

lemma mapR_length: "mapR f xs = Inr ys \<Longrightarrow> length ys = length xs"
  by (induction xs arbitrary: ys) (auto simp: result_simps)

lemma mapR_Inr_iff:
  "mapR f xs = Inr ys \<longleftrightarrow> list_all2 (\<lambda>x y. f x = Inr y) xs ys"
  by (induction xs arbitrary: ys) (auto simp: result_simps list_all2_Cons1)

lemma mapR_total: "(\<And>x. x \<in> set xs \<Longrightarrow> f x = Inr (g x)) \<Longrightarrow> mapR f xs = Inr (map g xs)"
  by (induction xs) auto

section \<open>Ordered stores\<close>

fun al_set :: "'k \<Rightarrow> 'v \<Rightarrow> ('k \<times> 'v) list \<Rightarrow> ('k \<times> 'v) list" where
  "al_set k v [] = [(k, v)]"
| "al_set k v ((k', v') # m) = (if k' = k then (k, v) # m else (k', v') # al_set k v m)"

fun al_del :: "'k \<Rightarrow> ('k \<times> 'v) list \<Rightarrow> ('k \<times> 'v) list" where
  "al_del k [] = []"
| "al_del k ((k', v') # m) = (if k' = k then al_del k m else (k', v') # al_del k m)"

definition al_has :: "'k \<Rightarrow> ('k \<times> 'v) list \<Rightarrow> bool" where
  "al_has k m \<longleftrightarrow> k \<in> set (map fst m)"

lemma al_has_code [code, simp]:
  "al_has k [] = False"
  "al_has k ((k', v) # m) = (k' = k \<or> al_has k m)"
  by (auto simp: al_has_def)

lemma al_has_iff: "al_has k m \<longleftrightarrow> map_of m k \<noteq> None"
  by (induction m) auto

lemma map_of_al_set [simp, store_simps]: "map_of (al_set k v m) = (map_of m)(k \<mapsto> v)"
  by (induction m) auto

lemma map_of_al_del [simp, store_simps]: "map_of (al_del k m) = (map_of m)(k := None)"
  by (induction m) auto

lemma fst_al_set [store_simps]:
  "map fst (al_set k v m) = (if al_has k m then map fst m else map fst m @ [k])"
  by (induction m) auto

lemma set_fst_al_set [simp]: "fst ` set (al_set k v m) = insert k (fst ` set m)"
  using fst_al_set [of k v m] by (metis (no_types, lifting) Un_insert_right al_has_def
      insert_absorb list.set(1,2) list.set_map set_append sup_bot_right)

lemma al_has_al_set [simp, store_simps]: "al_has k' (al_set k v m) \<longleftrightarrow> k' = k \<or> al_has k' m"
  by (auto simp: al_has_iff)

lemma distinct_al_set [simp]: "distinct (map fst m) \<Longrightarrow> distinct (map fst (al_set k v m))"
  by (simp add: fst_al_set al_has_def)

lemma al_set_same_keys: "al_has k m \<Longrightarrow> map fst (al_set k v m) = map fst m"
  by (simp add: fst_al_set)

lemma length_al_set: "length (al_set k v m) = (if al_has k m then length m else Suc (length m))"
  by (induction m) auto

lemma al_set_new: "k \<notin> fst ` set m \<Longrightarrow> al_set k v m = m @ [(k, v)]"
  by (induction m) auto

lemma al_del_filter: "al_del k m = filter (\<lambda>p. fst p \<noteq> k) m"
  by (induction k m rule: al_del.induct) simp_all

lemma set_al_del: "set (al_del k m) = {p \<in> set m. fst p \<noteq> k}"
  by (simp add: al_del_filter)

lemma distinct_al_del [simp]: "distinct (map fst m) \<Longrightarrow> distinct (map fst (al_del k m))"
  by (simp add: al_del_filter distinct_map_filter)

section \<open>Lists\<close>

lemma filter_eq_take_append:
  "filter P xs = filter P (take n xs) @ filter P (drop n xs)"
  by (metis append_take_drop_id filter_append)

lemma take_add_drop: "take (a + b) xs = take a xs @ take b (drop a xs)"
  by (simp add: take_add)

lemma map_of_map_Some: "map_of (map (\<lambda>x. (f x, g x)) xs) k = Some v \<Longrightarrow> \<exists>x\<in>set xs. f x = k \<and> g x = v"
  by (induction xs) (auto split: if_splits)

lemma subset_card_less:
  "finite B \<Longrightarrow> A \<subseteq> B \<Longrightarrow> x \<in> B \<Longrightarrow> x \<notin> A \<Longrightarrow> card A < card B"
  by (rule psubset_card_mono) auto

section \<open>The queue loop\<close>

text \<open>
  \<^verbatim>\<open>while (queue.length > 0) { n = queue.shift(); if (visited.has(n)) continue; ...;
  visited.add(n); for (e of edges) if (e.from === n) queue.push(e.to) }\<close>

  \<open>admit\<close> is the test that makes the loop drop a node without visiting it.  The result
  lists the visited nodes in the order of their visit.
\<close>

definition targets :: "('a \<times> 'a) list \<Rightarrow> 'a \<Rightarrow> 'a list" where
  "targets es n = map snd (filter (\<lambda>e. fst e = n) es)"

lemma set_targets [simp]: "set (targets es n) = {m. (n, m) \<in> set es}"
  by (force simp: targets_def)

definition bfs_pending :: "('a \<times> 'a) list \<Rightarrow> 'a list \<Rightarrow> 'a list \<Rightarrow> nat" where
  "bfs_pending es queue visited = card ((set queue \<union> snd ` set es) - set visited)"

lemma bfs_pending_skip: "bfs_pending es queue visited \<le> bfs_pending es (n # queue) visited"
  unfolding bfs_pending_def by (rule card_mono) auto

lemma bfs_pending_less:
  assumes "n \<notin> set visited" and "set queue' \<subseteq> set queue \<union> snd ` set es"
  shows "bfs_pending es queue' (visited @ [n]) < bfs_pending es (n # queue) visited"
  unfolding bfs_pending_def
proof (rule psubset_card_mono)
  show "(set queue' \<union> snd ` set es) - set (visited @ [n])
    \<subset> (set (n # queue) \<union> snd ` set es) - set visited"
    using assms by auto
qed simp

lemma bfs_pending_visit:
  "n \<notin> set visited \<Longrightarrow>
    bfs_pending es (queue @ targets es n) (visited @ [n]) < bfs_pending es (n # queue) visited"
  by (rule bfs_pending_less) force+

function bfs :: "('a \<Rightarrow> bool) \<Rightarrow> ('a \<times> 'a) list \<Rightarrow> 'a list \<Rightarrow> 'a list \<Rightarrow> 'a list" where
  "bfs admit es [] visited = visited"
| "bfs admit es (n # queue) visited =
     (if n \<in> set visited \<or> \<not> admit n then bfs admit es queue visited
      else bfs admit es (queue @ targets es n) (visited @ [n]))"
  by pat_completeness auto

termination
proof (relation "measures [\<lambda>(admit, es, q, v). bfs_pending es q v, \<lambda>(admit, es, q, v). length q]")
  fix admit es queue visited and n :: 'a
  show "((admit, es, queue, visited), admit, es, n # queue, visited)
    \<in> measures [\<lambda>(admit, es, q, v). bfs_pending es q v, \<lambda>(admit, es, q, v). length q]"
    using bfs_pending_skip [of es queue visited n] by auto
next
  fix admit es queue visited and n :: 'a
  assume "\<not> (n \<in> set visited \<or> \<not> admit n)"
  then show "((admit, es, queue @ targets es n, visited @ [n]), admit, es, n # queue, visited)
    \<in> measures [\<lambda>(admit, es, q, v). bfs_pending es q v, \<lambda>(admit, es, q, v). length q]"
    using bfs_pending_visit [of n visited es queue] by auto
qed simp

text \<open>
  The loop computes reachability: every node it returns is reached from the queue along
  edges into admitted nodes, every such node is returned, and no node twice.
\<close>

definition admitted_edges :: "('a \<Rightarrow> bool) \<Rightarrow> ('a \<times> 'a) list \<Rightarrow> ('a \<times> 'a) set" where
  "admitted_edges admit es = {e \<in> set es. admit (snd e)}"

lemma bfs_distinct: "distinct visited \<Longrightarrow> distinct (bfs admit es queue visited)"
  by (induction admit es queue visited rule: bfs.induct) auto

lemma bfs_extends: "set visited \<union> {n \<in> set queue. admit n} \<subseteq> set (bfs admit es queue visited)"
  by (induction admit es queue visited rule: bfs.induct) auto

lemma bfs_sound:
  "n \<in> set (bfs admit es queue visited) \<Longrightarrow>
    n \<in> set visited \<or> (\<exists>s \<in> set queue. admit s \<and> (s, n) \<in> (admitted_edges admit es)\<^sup>*)"
proof (induction admit es queue visited rule: bfs.induct)
  case (2 admit es m queue visited)
  show ?case
  proof (cases "m \<in> set visited \<or> \<not> admit m")
    case True
    with 2 show ?thesis by auto
  next
    case False
    with 2 consider "n \<in> set (visited @ [m])"
      | s where "s \<in> set (queue @ targets es m)" "admit s" "(s, n) \<in> (admitted_edges admit es)\<^sup>*"
      by auto
    then show ?thesis
    proof cases
      case 1
      with False show ?thesis by auto
    next
      case 2
      have "(m, n) \<in> (admitted_edges admit es)\<^sup>*" if "s \<in> set (targets es m)"
        using that 2 by (intro converse_rtrancl_into_rtrancl [of m s]) (auto simp: admitted_edges_def)
      with 2 False show ?thesis by auto
    qed
  qed
qed auto

lemma bfs_closed:
  assumes "\<And>a b. a \<in> set visited \<Longrightarrow> (a, b) \<in> set es \<Longrightarrow> admit b \<Longrightarrow> b \<in> set visited \<union> set queue"
  shows "a \<in> set (bfs admit es queue visited) \<Longrightarrow> (a, b) \<in> set es \<Longrightarrow> admit b \<Longrightarrow>
    b \<in> set (bfs admit es queue visited)"
  using assms
proof (induction admit es queue visited rule: bfs.induct)
  case (2 admit es m queue visited)
  show ?case
  proof (cases "m \<in> set visited \<or> \<not> admit m")
    case True
    then have eq: "bfs admit es (m # queue) visited = bfs admit es queue visited" by auto
    have "b' \<in> set visited \<union> set queue"
      if "a' \<in> set visited" "(a', b') \<in> set es" "admit b'" for a' b'
      using 2(6) [OF that] True that(3) by auto
    with 2(1) [OF True] 2(3-5) eq show ?thesis by simp
  next
    case False
    then have eq: "bfs admit es (m # queue) visited
      = bfs admit es (queue @ targets es m) (visited @ [m])" by auto
    have "b' \<in> set (visited @ [m]) \<union> set (queue @ targets es m)"
      if "a' \<in> set (visited @ [m])" "(a', b') \<in> set es" "admit b'" for a' b'
      using 2(6) [of a' b'] that by auto
    with 2(2) [OF False] 2(3-5) eq show ?thesis by simp
  qed
qed auto

theorem set_bfs:
  "set (bfs admit es queue [])
    = {n. \<exists>s \<in> set queue. admit s \<and> (s, n) \<in> (admitted_edges admit es)\<^sup>*}"
proof (intro equalityI subsetI)
  fix n assume "n \<in> {n. \<exists>s \<in> set queue. admit s \<and> (s, n) \<in> (admitted_edges admit es)\<^sup>*}"
  then obtain s where s: "s \<in> set queue" "admit s" and r: "(s, n) \<in> (admitted_edges admit es)\<^sup>*"
    by auto
  from r show "n \<in> set (bfs admit es queue [])"
  proof (induction rule: rtrancl_induct)
    case base
    show ?case using bfs_extends [of "[]" queue admit es] s by auto
  next
    case (step a b)
    show ?case
      by (rule bfs_closed [where a = a]) (use step in \<open>auto simp: admitted_edges_def\<close>)
  qed
qed (use bfs_sound in fastforce)

end
