(* ===== verification/JsNumber.thy ===== *)
theory JsNumber
  imports Prelude Complex_Main "HOL-Library.Log_Nat"
begin

text \<open>
  The numbers of the source are IEEE 754 binary64 values.  \<open>Fin q\<close> is the finite double
  of value \<open>q\<close> (with \<open>Fin 0\<close> the positive zero); the arithmetic rounds the exact rational
  result to the nearest double, ties to even, and overflows to an infinity.  The section on
  text holds the parts of the standard library the engine applies to numbers: \<open>String\<close>,
  \<open>Number\<close> and \<open>parseFloat\<close>.
\<close>

section \<open>Values and rounding\<close>

datatype jsnum = NaN | Inf bool | NegZero | Fin rat

definition floor_log2 :: "rat \<Rightarrow> int" where
  "floor_log2 q = (let (a, b) = quotient_of q; k = bitlen a - bitlen b
     in if (if 0 \<le> k then of_int b * 2 ^ nat k \<le> (of_int a :: rat) else of_int b \<le> of_int a * (2::rat) ^ nat (- k))
        then k else k - 1)"

definition pow2 :: "int \<Rightarrow> rat" where
  "pow2 k = (if 0 \<le> k then 2 ^ nat k else 1 / 2 ^ nat (- k))"

definition round_half_even :: "rat \<Rightarrow> int" where
  "round_half_even q = (let f = \<lfloor>q\<rfloor>; d = q - of_int f
     in if d < 1 / 2 then f else if 1 / 2 < d then f + 1 else if even f then f else f + 1)"

definition round_pos :: "rat \<Rightarrow> jsnum" where
  "round_pos q = (let u = pow2 (max (floor_log2 q) (- 1022) - 52);
       r = of_int (round_half_even (q / u)) * u
     in if 2 ^ 1024 \<le> r then Inf False else Fin r)"

fun num_neg :: "jsnum \<Rightarrow> jsnum" where
  "num_neg NaN = NaN"
| "num_neg (Inf b) = Inf (\<not> b)"
| "num_neg NegZero = Fin 0"
| "num_neg (Fin q) = (if q = 0 then NegZero else Fin (- q))"

definition num_of_rat :: "rat \<Rightarrow> jsnum" where
  "num_of_rat q = (if q = 0 then Fin 0 else if 0 < q then round_pos q else num_neg (round_pos (- q)))"

abbreviation num_of_nat :: "nat \<Rightarrow> jsnum" where
  "num_of_nat n \<equiv> num_of_rat (of_nat n)"

abbreviation num_of_int :: "int \<Rightarrow> jsnum" where
  "num_of_int n \<equiv> num_of_rat (of_int n)"

fun num_val :: "jsnum \<Rightarrow> rat" where
  "num_val (Fin q) = q"
| "num_val _ = 0"

fun num_negative :: "jsnum \<Rightarrow> bool" where
  "num_negative NaN = False"
| "num_negative (Inf b) = b"
| "num_negative NegZero = True"
| "num_negative (Fin q) = (q < 0)"

definition signed_zero :: "bool \<Rightarrow> jsnum" where
  "signed_zero b = (if b then NegZero else Fin 0)"

section \<open>Arithmetic and comparison\<close>

fun num_add :: "jsnum \<Rightarrow> jsnum \<Rightarrow> jsnum" where
  "num_add NaN _ = NaN"
| "num_add _ NaN = NaN"
| "num_add (Inf a) (Inf b) = (if a = b then Inf a else NaN)"
| "num_add (Inf a) _ = Inf a"
| "num_add _ (Inf b) = Inf b"
| "num_add NegZero NegZero = NegZero"
| "num_add a b = num_of_rat (num_val a + num_val b)"

definition num_sub :: "jsnum \<Rightarrow> jsnum \<Rightarrow> jsnum" where
  "num_sub a b = num_add a (num_neg b)"

fun num_mul :: "jsnum \<Rightarrow> jsnum \<Rightarrow> jsnum" where
  "num_mul NaN _ = NaN"
| "num_mul _ NaN = NaN"
| "num_mul (Inf a) (Inf b) = Inf (a \<noteq> b)"
| "num_mul (Inf a) y = (if num_val y = 0 then NaN else Inf (a \<noteq> num_negative y))"
| "num_mul x (Inf b) = (if num_val x = 0 then NaN else Inf (num_negative x \<noteq> b))"
| "num_mul x y = (if num_val x * num_val y = 0 then signed_zero (num_negative x \<noteq> num_negative y)
     else num_of_rat (num_val x * num_val y))"

fun num_div :: "jsnum \<Rightarrow> jsnum \<Rightarrow> jsnum" where
  "num_div NaN _ = NaN"
| "num_div _ NaN = NaN"
| "num_div (Inf _) (Inf _) = NaN"
| "num_div (Inf a) y = Inf (a \<noteq> num_negative y)"
| "num_div x (Inf b) = signed_zero (num_negative x \<noteq> b)"
| "num_div x y = (if num_val y = 0 then
       (if num_val x = 0 then NaN else Inf (num_negative x \<noteq> num_negative y))
     else if num_val x = 0 then signed_zero (num_negative x \<noteq> num_negative y)
     else num_of_rat (num_val x / num_val y))"

definition rat_trunc :: "rat \<Rightarrow> int" where
  "rat_trunc q = (if 0 \<le> q then \<lfloor>q\<rfloor> else \<lceil>q\<rceil>)"

fun num_rem :: "jsnum \<Rightarrow> jsnum \<Rightarrow> jsnum" where
  "num_rem NaN _ = NaN"
| "num_rem _ NaN = NaN"
| "num_rem (Inf _) _ = NaN"
| "num_rem x (Inf _) = x"
| "num_rem x y = (if num_val y = 0 then NaN else if num_val x = 0 then x
     else let r = num_val x - num_val y * of_int (rat_trunc (num_val x / num_val y))
       in if r = 0 then signed_zero (num_negative x) else Fin r)"

fun num_eq :: "jsnum \<Rightarrow> jsnum \<Rightarrow> bool" where
  "num_eq NaN _ = False"
| "num_eq _ NaN = False"
| "num_eq (Inf a) (Inf b) = (a = b)"
| "num_eq (Inf _) _ = False"
| "num_eq _ (Inf _) = False"
| "num_eq x y = (num_val x = num_val y)"

fun num_lt :: "jsnum \<Rightarrow> jsnum \<Rightarrow> bool" where
  "num_lt NaN _ = False"
| "num_lt _ NaN = False"
| "num_lt (Inf a) (Inf b) = (a \<and> \<not> b)"
| "num_lt (Inf a) _ = a"
| "num_lt _ (Inf b) = (\<not> b)"
| "num_lt x y = (num_val x < num_val y)"

definition num_le :: "jsnum \<Rightarrow> jsnum \<Rightarrow> bool" where
  "num_le x y \<longleftrightarrow> num_lt x y \<or> num_eq x y"

section \<open>Exactness on the safe integers\<close>

text \<open>Integers up to \<open>2 ^ 53\<close> in absolute value are doubles, so sums within that range are exact.\<close>

lemma floor_log2_upper:
  assumes "0 < n" and "n < 2 ^ m"
  shows "floor_log2 (of_int n) \<le> int m - 1"
proof -
  have q: "quotient_of (of_int n :: rat) = (n, 1)" by simp
  have b1: "bitlen 1 = 1" by (simp add: bitlen_alt_def)
  have bn: "bitlen n \<le> int m"
  proof -
    have "n < 2 ^ nat (int m)" using assms by simp
    then show ?thesis using bitlen_le_iff_power [of n m] assms by simp
  qed
  show ?thesis using bn b1 by (auto simp: floor_log2_def q Let_def)
qed

lemma round_half_even_of_int [simp]: "round_half_even (of_int k) = k"
  by (simp add: round_half_even_def Let_def)

lemma pow2_pos: "0 < pow2 k"
  by (simp add: pow2_def)

lemma round_pos_exact:
  assumes "q / pow2 (max (floor_log2 q) (- 1022) - 52) = of_int k" and "q < 2 ^ 1024"
  shows "round_pos q = Fin q"
proof -
  let ?u = "pow2 (max (floor_log2 q) (- 1022) - 52)"
  have "of_int k * ?u = q"
    using assms(1) pow2_pos [of "max (floor_log2 q) (- 1022) - 52"] by (simp add: field_simps)
  with assms show ?thesis by (simp add: round_pos_def Let_def)
qed


lemma round_pos_int:
  assumes "0 < n" and "n \<le> 2 ^ 53"
  shows "round_pos (of_int n) = Fin (of_int n)"
proof (cases "n < 2 ^ 53")
  case True
  let ?e = "max (floor_log2 (of_int n)) (- 1022) - 52"
  have "floor_log2 (of_int n) \<le> 52"
    using floor_log2_upper [OF assms(1) True] by simp
  then have "?e \<le> 0" by simp
  then have "of_int n / pow2 ?e = of_int (n * 2 ^ nat (- ?e))"
    by (auto simp: pow2_def)
  moreover have "(of_int n :: rat) < 2 ^ 1024"
  proof -
    have "n < 2 ^ 1024" using True by simp
    then have "(of_int n :: rat) < of_int (2 ^ 1024)" by (simp only: of_int_less_iff)
    then show ?thesis by simp
  qed
  ultimately show ?thesis by (rule round_pos_exact)
next
  case False
  with assms have n: "n = 2 ^ 53" by simp
  have "round_pos (2 ^ 53) = Fin (2 ^ 53)"
    by (simp add: round_pos_def Let_def floor_log2_def compute_bitlen pow2_def
        round_half_even_def)
  then show ?thesis by (simp add: n)
qed

lemma num_of_int_exact:
  assumes "\<bar>n\<bar> \<le> 2 ^ 53"
  shows "num_of_int n = Fin (of_int n)"
proof -
  consider "n = 0" | "0 < n" | "n < 0" by linarith
  then show ?thesis
  proof cases
    case 3
    then have "round_pos (of_int (- n)) = Fin (of_int (- n))"
      using assms by (intro round_pos_int) auto
    with 3 show ?thesis by (simp add: num_of_rat_def)
  qed (use assms round_pos_int in \<open>auto simp: num_of_rat_def\<close>)
qed

lemma num_add_safe:
  assumes "\<bar>a + b\<bar> \<le> 2 ^ 53"
  shows "num_add (Fin (of_int a)) (Fin (of_int b)) = Fin (of_int (a + b))"
  using num_of_int_exact [OF assms] by simp

section \<open>Text\<close>

definition is_digit :: "char \<Rightarrow> bool" where
  "is_digit c \<longleftrightarrow> 48 \<le> (of_char c :: nat) \<and> (of_char c :: nat) \<le> 57"

definition is_space :: "char \<Rightarrow> bool" where
  "is_space c \<longleftrightarrow> (of_char c :: nat) \<in> {9, 10, 11, 12, 13, 32, 160}"

definition str_trim :: "string \<Rightarrow> string" where
  "str_trim s = rev (dropWhile is_space (rev (dropWhile is_space s)))"

definition digits_val :: "string \<Rightarrow> int" where
  "digits_val s = foldl (\<lambda>n c. 10 * n + (of_char c - 48)) 0 s"

text \<open>The decimal digits of a natural number, kept as a non-negative integer.\<close>

function int_digits :: "int \<Rightarrow> string" where
  "int_digits n = (if n < 10 then [char_of (48 + n)]
     else int_digits (n div 10) @ [char_of (48 + n mod 10)])"
  by pat_completeness auto
termination by (relation "measure nat") auto

declare int_digits.simps [simp del]

text \<open>The longest prefix that is a decimal literal: its value and the rest of the text.\<close>

definition parse_exponent :: "string \<Rightarrow> int \<times> string" where
  "parse_exponent s = (case s of
       [] \<Rightarrow> (0, [])
     | c # r \<Rightarrow> if c \<in> {CHR ''e'', CHR ''E''} then
         (let (sg, r') = (case r of [] \<Rightarrow> (1, [])
              | d # r'' \<Rightarrow> if d = CHR ''+'' then (1, r'') else if d = CHR ''-'' then (- 1, r'') else (1, r));
              ds = takeWhile is_digit r'
          in if ds = [] then (0, s) else (sg * digits_val ds, dropWhile is_digit r'))
         else (0, s))"

definition pow10 :: "int \<Rightarrow> rat" where
  "pow10 k = (if 0 \<le> k then 10 ^ nat k else 1 / 10 ^ nat (- k))"

definition parse_decimal :: "string \<Rightarrow> (rat \<times> string) option" where
  "parse_decimal s = (let ds = takeWhile is_digit s; r1 = dropWhile is_digit s;
       (fs, r2) = (case r1 of [] \<Rightarrow> ([], [])
          | c # r \<Rightarrow> if c = CHR ''.'' then (takeWhile is_digit r, dropWhile is_digit r) else ([], r1))
     in if ds = [] \<and> fs = [] then None
        else let (x, r3) = parse_exponent r2
          in Some (of_int (digits_val (ds @ fs)) * pow10 (x - int (length fs)), r3))"

definition split_sign :: "string \<Rightarrow> bool \<times> string" where
  "split_sign s = (case s of [] \<Rightarrow> (False, [])
     | c # r \<Rightarrow> if c = CHR ''-'' then (True, r) else if c = CHR ''+'' then (False, r) else (False, s))"

definition apply_sign :: "bool \<Rightarrow> jsnum \<Rightarrow> jsnum" where
  "apply_sign b x = (if b then num_neg x else x)"

definition parse_float :: "string \<Rightarrow> jsnum" where
  "parse_float s = (let (neg, r) = split_sign (dropWhile is_space s)
     in if prefix ''Infinity'' r then apply_sign neg (Inf False)
        else case parse_decimal r of None \<Rightarrow> NaN | Some (q, _) \<Rightarrow> apply_sign neg (num_of_rat q))"

definition radix_digit :: "int \<Rightarrow> char \<Rightarrow> int option" where
  "radix_digit b c = (let n = of_char c :: int;
       d = (if 48 \<le> n \<and> n \<le> 57 then n - 48 else if 97 \<le> n \<and> n \<le> 102 then n - 87
            else if 65 \<le> n \<and> n \<le> 70 then n - 55 else 99)
     in if d < b then Some d else None)"

definition parse_radix :: "int \<Rightarrow> string \<Rightarrow> jsnum" where
  "parse_radix b s = (if s = [] \<or> (\<exists>c \<in> set s. radix_digit b c = None) then NaN
     else num_of_int (foldl (\<lambda>n c. b * n + the (radix_digit b c)) 0 s))"

definition string_to_number :: "string \<Rightarrow> jsnum" where
  "string_to_number s0 = (let s = str_trim s0
     in if s = [] then Fin 0
        else if prefix ''0x'' s \<or> prefix ''0X'' s then parse_radix 16 (drop 2 s)
        else if prefix ''0o'' s \<or> prefix ''0O'' s then parse_radix 8 (drop 2 s)
        else if prefix ''0b'' s \<or> prefix ''0B'' s then parse_radix 2 (drop 2 s)
        else let (neg, r) = split_sign s
          in if r = ''Infinity'' then apply_sign neg (Inf False)
             else case parse_decimal r of None \<Rightarrow> NaN
               | Some (q, rest) \<Rightarrow> if rest = [] then apply_sign neg (num_of_rat q) else NaN)"

text \<open>
  \<open>String(x)\<close>: the fewest decimal digits \<open>s\<close> that read back as the same double, the
  closest of them to \<open>x\<close>, laid out by the position \<open>n\<close> of the decimal point.
\<close>

definition floor_log10 :: "rat \<Rightarrow> int" where
  "floor_log10 q = (let (a, b) = quotient_of q;
       k = int (length (int_digits a)) - int (length (int_digits b))
     in if pow10 k \<le> q then k else k - 1)"

definition shortest_candidate :: "rat \<Rightarrow> int \<Rightarrow> nat \<Rightarrow> int option" where
  "shortest_candidate q n k = (let scale = pow10 (n - int k); f = \<lfloor>q / scale\<rfloor>;
       ok = (\<lambda>s. num_of_rat (of_int s * scale) = Fin q);
       near = (\<lambda>s. \<bar>q - of_int s * scale\<bar>)
     in if ok f \<and> ok (f + 1) then
          (if near f < near (f + 1) \<or> near f = near (f + 1) \<and> even f then Some f else Some (f + 1))
        else if ok f then Some f else if ok (f + 1) then Some (f + 1) else None)"

fun shortest_digits :: "nat list \<Rightarrow> rat \<Rightarrow> int \<Rightarrow> int \<times> int" where
  "shortest_digits [] q n = (\<lfloor>q\<rfloor>, n)"
| "shortest_digits (k # ks) q n = (case shortest_candidate q n k of
      Some s \<Rightarrow> if s = 10 ^ k then (10 ^ (k - 1), n + 1) else (s, n)
    | None \<Rightarrow> shortest_digits ks q n)"

definition layout_digits :: "string \<Rightarrow> int \<Rightarrow> string" where
  "layout_digits ds n = (let k = int (length ds)
     in if k \<le> n \<and> n \<le> 21 then ds @ replicate (nat (n - k)) (CHR ''0'')
        else if 0 < n \<and> n \<le> 21 then take (nat n) ds @ ''.'' @ drop (nat n) ds
        else if - 6 < n \<and> n \<le> 0 then ''0.'' @ replicate (nat (- n)) (CHR ''0'') @ ds
        else (let e = n - 1;
                  es = (if 0 \<le> e then ''e+'' else ''e-'') @ int_digits \<bar>e\<bar>
              in if k = 1 then ds @ es else take 1 ds @ ''.'' @ drop 1 ds @ es))"

definition pos_to_string :: "rat \<Rightarrow> string" where
  "pos_to_string q = (let (s, n) = shortest_digits [1..<18] q (floor_log10 q + 1)
     in layout_digits (int_digits s) n)"

fun num_to_string :: "jsnum \<Rightarrow> string" where
  "num_to_string NaN = ''NaN''"
| "num_to_string (Inf b) = (if b then ''-Infinity'' else ''Infinity'')"
| "num_to_string NegZero = ''0''"
| "num_to_string (Fin q) = (if q = 0 then ''0'' else if q < 0 then ''-'' @ pos_to_string (- q)
     else pos_to_string q)"

text \<open>Comparison of strings by code units.\<close>

fun str_lt :: "string \<Rightarrow> string \<Rightarrow> bool" where
  "str_lt _ [] = False"
| "str_lt [] (c # s) = True"
| "str_lt (c # s) (d # t) = (of_char c < (of_char d :: nat) \<or> c = d \<and> str_lt s t)"

section \<open>Order facts\<close>

lemma str_lt_irrefl [simp]: "\<not> str_lt s s"
  by (induction s) auto

lemma str_lt_trans: "str_lt s t \<Longrightarrow> str_lt t u \<Longrightarrow> str_lt s u"
proof (induction s t arbitrary: u rule: str_lt.induct)
  case (2 c s)
  then show ?case by (cases u) auto
next
  case (3 c s d t)
  then show ?case by (cases u) auto
qed simp

lemma str_lt_total: "str_lt s t \<or> s = t \<or> str_lt t s"
proof (induction s arbitrary: t)
  case Nil
  show ?case by (cases t) auto
next
  case (Cons c s)
  show ?case
  proof (cases t)
    case (Cons d t')
    have "c = d" if "(of_char c :: nat) = of_char d"
      using that by simp
    with Cons.IH [of t'] Cons show ?thesis by fastforce
  qed simp
qed

text \<open>On doubles other than \<open>NaN\<close> the comparison is a total preorder; \<open>key\<close> maps them to a chain.\<close>

lemma num_lt_irrefl [simp]: "\<not> num_lt x x"
  by (cases x) auto

lemma num_lt_trans: "num_lt x y \<Longrightarrow> num_lt y z \<Longrightarrow> num_lt x z"
  by (cases x; cases y; cases z) auto

lemma num_lt_negtrans:
  assumes "y \<noteq> NaN" "\<not> num_lt x y" "\<not> num_lt y z"
  shows "\<not> num_lt x z"
  using assms by (cases x; cases y; cases z) auto

lemma num_lt_asym: "num_lt x y \<Longrightarrow> \<not> num_lt y x"
  using num_lt_trans num_lt_irrefl by blast

end
