(* ===== verification/Values.thy ===== *)
theory Values
  imports JsNumber
begin

text \<open>
  The values of the engine: \<open>src/src/core/types/engine-type.ts\<close>, \<open>schema.ts\<close>,
  \<open>value.ts\<close>, \<open>row.ts\<close> and the union of \<open>data-value.ts\<close>, with the
  operations of JavaScript the engine applies to them (\<open>typeof\<close>, truthiness, property
  access, \<open>String\<close>, \<open>Number\<close>, \<open>===\<close>, \<open><\<close>).

  A row is an association list in the order \<open>Object.entries\<close> enumerates it; names that
  are array indices come first, as in JavaScript, and \<open>row_set\<close> keeps that order.  Names
  inherited from \<open>Object.prototype\<close> are not modelled, and characters are code units
  below 256.  Objects have no identity here: an operation that would compare the references
  of two objects returns the error \<open>Unmodelled\<close> instead of guessing.
\<close>

section \<open>Types and values\<close>

datatype engineType =
    TString | TNumber | TBoolean | TNull | TDatetime | TJson
  | TArray engineType
  | TRecord "(string \<times> engineType) list"
  | TRowset "column list"
  | TAny
and column = Column (col_name: string) (col_type: engineType) (col_nullable: bool)

type_synonym rowSchema = "column list"

datatype dvKind = KTabular | KRecord | KScalar | KCollection | KSchema | KVoid | KAny

datatype jsval =
    JUndef | JNull | JBool bool | JNum jsnum | JStr string
  | JArr "jsval list"
  | JObj "(string \<times> jsval) list"
  | JRowSet rowset
  | JData dataValue
and rowset = RowSet (rs_schema: "column list") (rs_rows: "(string \<times> jsval) list list")
and dataValue =
    DTabular rowset "column list"
  | DRecord "(string \<times> jsval) list" "column list"
  | DScalar jsval engineType
  | DCollection "dataValue list" dvKind
  | DSchema jsval
  | DVoid

type_synonym row = "(string \<times> jsval) list"

definition quoted :: "string \<Rightarrow> string" where
  "quoted s = CHR 0x27 # s @ [CHR 0x27]"

text \<open>
  What the code throws.  \<open>Unmodelled\<close> is not an error of the program: it marks the edge
  of the model (an unchecked cast that fails, a comparison of object references).
\<close>

datatype js_error =
    FieldNotFoundError string "string list"
  | TypeMismatchError string string string
  | CastError string string
  | NotImplementedError string
  | UnresolvedVariableError string int
  | FunctionNotFoundError string
  | UnknownNodeKindError string
  | DataValueCoercionError string
  | BudgetExceededError string
  | NodeTimeoutError string int
  | SchedulerValidationError "string list"
  | CycleDetectedError "string list"
  | PlainError string
  | TypeError string
  | Unmodelled string

type_synonym 'a res = "(js_error, 'a) result"

section \<open>Rows\<close>

definition row_get :: "row \<Rightarrow> string \<Rightarrow> jsval" where
  "row_get r k = (case map_of r k of None \<Rightarrow> JUndef | Some v \<Rightarrow> v)"

lemma row_get_code [simp, code]:
  "row_get [] k = JUndef"
  "row_get ((k', v) # r) k = (if k' = k then v else row_get r k)"
  by (simp_all add: row_get_def)

definition is_index :: "string \<Rightarrow> bool" where
  "is_index k \<longleftrightarrow> k = ''0'' \<or>
     (k \<noteq> [] \<and> hd k \<noteq> CHR ''0'' \<and> (\<forall>c \<in> set k. is_digit c) \<and> digits_val k < 4294967295)"

definition enumerated_before :: "string \<Rightarrow> string \<Rightarrow> bool" where
  "enumerated_before k k' \<longleftrightarrow> is_index k \<and> (\<not> is_index k' \<or> digits_val k < digits_val k')"

text \<open>A new name goes behind the names it does not come before.\<close>

fun row_insert :: "string \<Rightarrow> 'v \<Rightarrow> (string \<times> 'v) list \<Rightarrow> (string \<times> 'v) list" where
  "row_insert k v [] = [(k, v)]"
| "row_insert k v ((k', v') # r) =
     (if enumerated_before k k' then (k, v) # (k', v') # r else (k', v') # row_insert k v r)"

definition row_set :: "string \<Rightarrow> 'v \<Rightarrow> (string \<times> 'v) list \<Rightarrow> (string \<times> 'v) list" where
  "row_set k v r = (if al_has k r then al_set k v r else row_insert k v r)"

definition row_assign :: "(string \<times> 'v) list \<Rightarrow> (string \<times> 'v) list \<Rightarrow> (string \<times> 'v) list" where
  "row_assign r fs = foldl (\<lambda>acc (k, v). row_set k v acc) r fs"

lemma map_of_row_insert: "\<not> al_has k r \<Longrightarrow> map_of (row_insert k v r) = (map_of r)(k \<mapsto> v)"
  by (induction k v r rule: row_insert.induct) (auto simp: fun_upd_twist)

lemma map_of_row_set [simp, store_simps]: "map_of (row_set k v r) = (map_of r)(k \<mapsto> v)"
  by (simp add: row_set_def map_of_row_insert)

lemma row_get_row_set [simp, store_simps]:
  "row_get (row_set k v r) k' = (if k' = k then v else row_get r k')"
  by (simp add: row_get_def)

lemma fst_row_insert: "fst ` set (row_insert k v r) = insert k (fst ` set r)"
  by (induction k v r rule: row_insert.induct) (simp_all add: insert_commute)

lemma distinct_row_insert:
  "distinct (map fst r) \<Longrightarrow> \<not> al_has k r \<Longrightarrow> distinct (map fst (row_insert k v r))"
proof (induction r)
  case (Cons p r)
  have "fst ` set (row_insert k v r) = insert k (fst ` set r)" by (rule fst_row_insert)
  with Cons show ?case by (cases p) (auto simp: al_has_def)
qed simp

lemma distinct_row_set [simp]: "distinct (map fst r) \<Longrightarrow> distinct (map fst (row_set k v r))"
  by (simp add: row_set_def distinct_row_insert)

lemma row_assign_simps [simp]:
  "row_assign r [] = r"
  "row_assign r ((k, v) # fs) = row_assign (row_set k v r) fs"
  by (simp_all add: row_assign_def)

lemma distinct_row_assign [simp]:
  "distinct (map fst r) \<Longrightarrow> distinct (map fst (row_assign r fs))"
  by (induction fs arbitrary: r) auto

lemma map_of_row_assign:
  "distinct (map fst fs) \<Longrightarrow> map_of (row_assign r fs) = map_of r ++ map_of fs"
proof (induction fs arbitrary: r)
  case (Cons p fs)
  obtain k v where p: "p = (k, v)" by force
  from Cons.prems p have k: "map_of fs k = None" by (simp add: map_of_eq_None_iff)
  from Cons p have "map_of (row_assign r (p # fs)) = (map_of r)(k \<mapsto> v) ++ map_of fs" by simp
  also have "\<dots> = map_of r ++ map_of (p # fs)"
    using k p by (auto simp: map_add_def fun_eq_iff split: option.splits)
  finally show ?case .
qed simp

section \<open>Property access\<close>

definition kind_tag :: "dvKind \<Rightarrow> string" where
  "kind_tag k = (case k of KTabular \<Rightarrow> ''tabular'' | KRecord \<Rightarrow> ''record'' | KScalar \<Rightarrow> ''scalar''
     | KCollection \<Rightarrow> ''collection'' | KSchema \<Rightarrow> ''schema'' | KVoid \<Rightarrow> ''void'' | KAny \<Rightarrow> ''any'')"

fun dv_kind :: "dataValue \<Rightarrow> dvKind" where
  "dv_kind (DTabular _ _) = KTabular"
| "dv_kind (DRecord _ _) = KRecord"
| "dv_kind (DScalar _ _) = KScalar"
| "dv_kind (DCollection _ _) = KCollection"
| "dv_kind (DSchema _) = KSchema"
| "dv_kind DVoid = KVoid"

fun type_val :: "engineType \<Rightarrow> jsval" and schema_val :: "column list \<Rightarrow> jsval" where
  "type_val TString = JObj [(''kind'', JStr ''string'')]"
| "type_val TNumber = JObj [(''kind'', JStr ''number'')]"
| "type_val TBoolean = JObj [(''kind'', JStr ''boolean'')]"
| "type_val TNull = JObj [(''kind'', JStr ''null'')]"
| "type_val TDatetime = JObj [(''kind'', JStr ''datetime'')]"
| "type_val TJson = JObj [(''kind'', JStr ''json'')]"
| "type_val (TArray t) = JObj [(''kind'', JStr ''array''), (''item'', type_val t)]"
| "type_val (TRecord fs) = JObj [(''kind'', JStr ''record''),
     (''fields'', JObj (map (\<lambda>(k, t). (k, type_val t)) fs))]"
| "type_val (TRowset cs) = JObj [(''kind'', JStr ''rowset''), (''schema'', schema_val cs)]"
| "type_val TAny = JObj [(''kind'', JStr ''any'')]"
| "schema_val cs = JObj [(''columns'', JArr (map (\<lambda>c. case c of Column n t b \<Rightarrow>
     JObj [(''name'', JStr n), (''type'', type_val t), (''nullable'', JBool b)]) cs))]"

definition rowset_props :: "rowset \<Rightarrow> row" where
  "rowset_props r = [(''schema'', schema_val (rs_schema r)), (''rows'', JArr (map JObj (rs_rows r)))]"

fun dv_props :: "dataValue \<Rightarrow> row" where
  "dv_props (DTabular r s) = [(''kind'', JStr ''tabular''), (''data'', JRowSet r), (''schema'', schema_val s)]"
| "dv_props (DRecord d s) = [(''kind'', JStr ''record''), (''data'', JObj d), (''schema'', schema_val s)]"
| "dv_props (DScalar v t) = [(''kind'', JStr ''scalar''), (''data'', v), (''type'', type_val t)]"
| "dv_props (DCollection vs k) = [(''kind'', JStr ''collection''), (''data'', JArr (map JData vs)),
     (''itemKind'', JStr (kind_tag k))]"
| "dv_props (DSchema v) = [(''kind'', JStr ''schema''), (''data'', v)]"
| "dv_props DVoid = [(''kind'', JStr ''void'')]"

text \<open>The own properties of an object that is not an array.\<close>

fun own_props :: "jsval \<Rightarrow> row option" where
  "own_props (JObj fs) = Some fs"
| "own_props (JRowSet r) = Some (rowset_props r)"
| "own_props (JData d) = Some (dv_props d)"
| "own_props _ = None"

fun js_typeof :: "jsval \<Rightarrow> string" where
  "js_typeof JUndef = ''undefined''"
| "js_typeof (JBool _) = ''boolean''"
| "js_typeof (JNum _) = ''number''"
| "js_typeof (JStr _) = ''string''"
| "js_typeof _ = ''object''"

fun is_object :: "jsval \<Rightarrow> bool" where
  "is_object JUndef = False"
| "is_object JNull = False"
| "is_object (JBool _) = False"
| "is_object (JNum _) = False"
| "is_object (JStr _) = False"
| "is_object _ = True"

fun truthy :: "jsval \<Rightarrow> bool" where
  "truthy JUndef = False"
| "truthy JNull = False"
| "truthy (JBool b) = b"
| "truthy (JNum n) = (n \<noteq> NaN \<and> n \<noteq> NegZero \<and> n \<noteq> Fin 0)"
| "truthy (JStr s) = (s \<noteq> [])"
| "truthy _ = True"

section \<open>Conversions and comparison\<close>

fun join_str :: "string \<Rightarrow> string list \<Rightarrow> string" where
  "join_str sep [] = []"
| "join_str sep [s] = s"
| "join_str sep (s # t # ss) = s @ sep @ join_str sep (t # ss)"

fun js_string :: "jsval \<Rightarrow> string" where
  "js_string JUndef = ''undefined''"
| "js_string JNull = ''null''"
| "js_string (JBool b) = (if b then ''true'' else ''false'')"
| "js_string (JNum n) = num_to_string n"
| "js_string (JStr s) = s"
| "js_string (JArr vs) = join_str '','' (map (\<lambda>v. if v = JNull \<or> v = JUndef then [] else js_string v) vs)"
| "js_string _ = ''[object Object]''"

fun js_number :: "jsval \<Rightarrow> jsnum" where
  "js_number JUndef = NaN"
| "js_number JNull = Fin 0"
| "js_number (JBool b) = (if b then Fin 1 else Fin 0)"
| "js_number (JNum n) = n"
| "js_number (JStr s) = string_to_number s"
| "js_number v = string_to_number (js_string v)"

definition to_primitive :: "jsval \<Rightarrow> jsval" where
  "to_primitive v = (if is_object v then JStr (js_string v) else v)"

definition js_lt :: "jsval \<Rightarrow> jsval \<Rightarrow> bool" where
  "js_lt a b = (case (to_primitive a, to_primitive b) of
       (JStr s, JStr t) \<Rightarrow> str_lt s t
     | (x, y) \<Rightarrow> num_lt (js_number x) (js_number y))"

definition js_le :: "jsval \<Rightarrow> jsval \<Rightarrow> bool" where
  "js_le a b = (case (to_primitive a, to_primitive b) of
       (JStr s, JStr t) \<Rightarrow> \<not> str_lt t s
     | (x, y) \<Rightarrow> num_le (js_number x) (js_number y))"

definition strict_eq :: "jsval \<Rightarrow> jsval \<Rightarrow> bool res" where
  "strict_eq a b = (if is_object a \<and> is_object b then Inl (Unmodelled ''reference identity'')
     else case a of
       JNum m \<Rightarrow> Inr (case b of JNum n \<Rightarrow> num_eq m n | _ \<Rightarrow> False)
     | _ \<Rightarrow> Inr (a = b))"

lemma strict_eq_simps [simp]:
  "strict_eq (JStr s) v = Inr (v = JStr s)"
  "strict_eq v (JStr s) = Inr (v = JStr s)"
  "strict_eq (JNum m) (JNum n) = Inr (num_eq m n)"
  "strict_eq (JBool b) v = Inr (v = JBool b)"
  "strict_eq JNull v = Inr (v = JNull)"
  "strict_eq v JNull = Inr (v = JNull)"
  by (auto simp: strict_eq_def split: jsval.splits)

lemma strict_eq_total: "\<not> is_object v \<Longrightarrow> \<exists>b. strict_eq x v = Inr b"
  by (auto simp: strict_eq_def split: jsval.splits)

text \<open>\<open>Array.prototype.includes\<close>: as \<open>===\<close>, but \<open>NaN\<close> equals itself.\<close>

fun js_includes :: "jsval list \<Rightarrow> jsval \<Rightarrow> bool res" where
  "js_includes [] v = Inr False"
| "js_includes (x # xs) v =
     (if x = JNum NaN \<and> v = JNum NaN then Inr True
      else bindR (strict_eq x v) (\<lambda>b. if b then Inr True else js_includes xs v))"

lemma js_includes_scalar:
  "\<not> is_object v \<Longrightarrow> v \<noteq> JNum NaN \<Longrightarrow> js_includes vs v = Inr (\<exists>x\<in>set vs. strict_eq x v = Inr True)"
proof (induction vs)
  case (Cons x vs)
  then obtain b where "strict_eq x v = Inr b"
    using strict_eq_total by blast
  with Cons show ?case by auto
qed simp

section \<open>Messages of errors\<close>

definition int_string :: "int \<Rightarrow> string" where
  "int_string n = (if n < 0 then CHR ''-'' # int_digits (- n) else int_digits n)"

fun error_message :: "js_error \<Rightarrow> string" where
  "error_message (FieldNotFoundError f av) =
     ''Field '' @ quoted f @ '' not found. Available fields: '' @ join_str '', '' av"
| "error_message (TypeMismatchError op l r) = ''Type mismatch in '' @ op @ '': '' @ l @ '' vs '' @ r"
| "error_message (CastError a b) = ''Cannot cast from '' @ a @ '' to '' @ b"
| "error_message (NotImplementedError m) = m"
| "error_message (UnresolvedVariableError n d) =
     ''Unresolved variable '' @ quoted n @ '' after searching '' @ int_string d @ '' scope levels''"
| "error_message (FunctionNotFoundError n) = ''Function '' @ quoted n @ '' not found in registry''"
| "error_message (UnknownNodeKindError k) = ''Unknown node kind '' @ quoted k @ '' not found in registry''"
| "error_message (DataValueCoercionError m) = m"
| "error_message (BudgetExceededError l) = ''Budget exceeded: '' @ l"
| "error_message (NodeTimeoutError n ms) = ''Node '' @ n @ '' timed out after '' @ int_string ms @ ''ms''"
| "error_message (SchedulerValidationError es) = ''Graph validation failed: '' @ join_str ''; '' es"
| "error_message (CycleDetectedError c) = ''Cycle detected in graph: '' @ join_str '' -> '' c"
| "error_message (PlainError m) = m"
| "error_message (TypeError m) = m"
| "error_message (Unmodelled m) = m"

text \<open>A \<open>try\<close> of the program catches its own errors, never the edge of the model.\<close>

fun unmodelled :: "'a res \<Rightarrow> bool" where
  "unmodelled (Inl (Unmodelled m)) = True"
| "unmodelled _ = False"

definition catchR :: "'a res \<Rightarrow> 'a \<Rightarrow> 'a res" where
  "catchR r d = (case r of Inr a \<Rightarrow> Inr a | Inl e \<Rightarrow> if unmodelled (Inl e :: 'a res) then Inl e else Inr d)"

lemma catchR_total: "\<not> unmodelled r \<Longrightarrow> catchR r d = Inr (case r of Inr a \<Rightarrow> a | Inl _ \<Rightarrow> d)"
  by (auto simp: catchR_def split: sum.splits)

end
