(* ===== verification/DataValues.thy ===== *)
theory DataValues
  imports Values
begin

text \<open>
  The values that flow along pipeline edges: the coercions and the edge compatibility test
  of \<open>src/src/core/types/data-value.ts\<close>, and \<open>wrapLegacyValue\<close> of
  \<open>src/src/scheduler/graph-utils.ts\<close>.
\<close>

section \<open>Coercions\<close>

abbreviation empty_rowset :: rowset where
  "empty_rowset \<equiv> RowSet [] []"

text \<open>The loop of the collection case: rows are appended, the first usable schema is kept.\<close>

fun collect_tables :: "rowset list \<Rightarrow> rowset \<Rightarrow> rowset" where
  "collect_tables [] acc = acc"
| "collect_tables (t # ts) acc = collect_tables ts
     (if rs_rows t \<noteq> [] then
        RowSet (if rs_schema acc = [] \<and> rs_schema t \<noteq> [] then rs_schema t else rs_schema acc)
          (rs_rows acc @ rs_rows t)
      else acc)"

fun toTabular :: "dataValue \<Rightarrow> rowset" where
  "toTabular (DTabular r s) = r"
| "toTabular (DRecord d s) = RowSet s [d]"
| "toTabular (DScalar v t) = RowSet [Column ''value'' t True] [[(''value'', v)]]"
| "toTabular DVoid = empty_rowset"
| "toTabular (DCollection vs k) = (if vs = [] then empty_rowset
     else collect_tables (map toTabular (filter (\<lambda>v. v \<noteq> DVoid) vs)) empty_rowset)"
| "toTabular (DSchema v) = empty_rowset"

fun toCollection :: "dataValue \<Rightarrow> dataValue list res" where
  "toCollection (DCollection vs k) = Inr vs"
| "toCollection (DTabular r s) = Inr (map (\<lambda>row. DRecord row s) (rs_rows r))"
| "toCollection (DRecord d s) = Inr [DRecord d s]"
| "toCollection (DScalar v t) = Inr [DScalar v t]"
| "toCollection DVoid = Inr []"
| "toCollection (DSchema v) = Inl (DataValueCoercionError ''Cannot coerce schema to collection'')"

fun isScalarValue :: "jsval \<Rightarrow> bool" where
  "isScalarValue (JStr _) = True"
| "isScalarValue (JNum _) = True"
| "isScalarValue (JBool _) = True"
| "isScalarValue JNull = True"
| "isScalarValue _ = False"

definition nullish :: "jsval \<Rightarrow> bool" where
  "nullish v \<longleftrightarrow> v = JNull \<or> v = JUndef"

fun toScalar :: "dataValue \<Rightarrow> jsval res" where
  "toScalar (DScalar v t) = Inr v"
| "toScalar (DTabular r s) = (case (rs_rows r, rs_schema r) of
     ([row], [c]) \<Rightarrow> Inr (let v = row_get row (col_name c) in if nullish v then JNull else v)
   | _ \<Rightarrow> Inl (DataValueCoercionError ''Cannot coerce tabular to scalar''))"
| "toScalar (DRecord d s) = (case d of
     [(k, v)] \<Rightarrow> if isScalarValue v then Inr v
       else Inl (DataValueCoercionError ''Cannot coerce record to scalar'')
   | _ \<Rightarrow> Inl (DataValueCoercionError ''Cannot coerce record to scalar''))"
| "toScalar v = Inl (DataValueCoercionError (''Cannot coerce '' @ kind_tag (dv_kind v) @ '' to scalar''))"

section \<open>Edge types\<close>

datatype dataType = TyTabular | TyRecord | TyScalar engineType | TyCollection dvKind | TySchema | TyVoid | TyAny

fun isCompatible :: "dataType \<Rightarrow> dataType \<Rightarrow> bool" where
  "isCompatible _ TyAny = True"
| "isCompatible (TyScalar _) (TyScalar _) = True"
| "isCompatible (TyCollection k) (TyCollection k') = (k = k' \<or> k' = KAny)"
| "isCompatible TyTabular TyTabular = True"
| "isCompatible TyRecord TyRecord = True"
| "isCompatible TySchema TySchema = True"
| "isCompatible TyVoid TyVoid = True"
| "isCompatible TyRecord TyTabular = True"
| "isCompatible TyTabular (TyCollection k) = (k = KRecord \<or> k = KAny)"
| "isCompatible TyRecord (TyCollection k) = (k = KRecord \<or> k = KAny)"
| "isCompatible _ _ = False"

text \<open>
  What a port type promises of a value, and what a node behind an input port of that type
  reads: its rows, its items, or the value itself.
\<close>

definition item_ok :: "dvKind \<Rightarrow> dataValue \<Rightarrow> bool" where
  "item_ok k v \<longleftrightarrow> k = KAny \<or> dv_kind v = k"

fun conforms :: "dataValue \<Rightarrow> dataType \<Rightarrow> bool" where
  "conforms v TyTabular = (dv_kind v = KTabular)"
| "conforms v TyRecord = (dv_kind v = KRecord)"
| "conforms v (TyScalar t) = (dv_kind v = KScalar)"
| "conforms v (TyCollection k) = (case v of DCollection vs k' \<Rightarrow> list_all (item_ok k) vs | _ \<Rightarrow> False)"
| "conforms v TySchema = (dv_kind v = KSchema)"
| "conforms v TyVoid = (v = DVoid)"
| "conforms v TyAny = True"

definition delivers :: "dataValue \<Rightarrow> dataType \<Rightarrow> bool" where
  "delivers v t \<longleftrightarrow> (case t of
       TyTabular \<Rightarrow> dv_kind v = KTabular \<or> (\<exists>d s. v = DRecord d s \<and> rs_rows (toTabular v) = [d])
     | TyCollection k \<Rightarrow> (\<exists>vs. toCollection v = Inr vs \<and> list_all (item_ok k) vs)
     | _ \<Rightarrow> conforms v t)"

section \<open>Legacy values\<close>

definition data_tags :: "string list" where
  "data_tags = [''tabular'', ''record'', ''scalar'', ''collection'', ''void'']"

definition any_schema :: "row \<Rightarrow> rowSchema" where
  "any_schema r = map (\<lambda>p. Column (fst p) TAny True) r"

definition claims_tag :: "row \<Rightarrow> bool" where
  "claims_tag fs \<longleftrightarrow> (case map_of fs ''kind'' of Some (JStr k) \<Rightarrow> k \<in> set data_tags | _ \<Rightarrow> False)"

text \<open>
  A plain object that carries one of the tags, or both of \<open>rows\<close> and \<open>schema\<close>, is cast
  to \<open>DataValue\<close> without a check; the model stops there.
\<close>

fun wrapLegacyValue :: "jsval \<Rightarrow> dataValue res" where
  "wrapLegacyValue (JData d) = Inr (if kind_tag (dv_kind d) \<in> set data_tags then d
     else DRecord (dv_props d) (any_schema (dv_props d)))"
| "wrapLegacyValue (JObj fs) = (if claims_tag fs \<or> al_has ''rows'' fs \<and> al_has ''schema'' fs
     then Inl (Unmodelled ''unchecked cast to DataValue'') else Inr (DRecord fs (any_schema fs)))"
| "wrapLegacyValue (JRowSet r) = Inr (DTabular r (rs_schema r))"
| "wrapLegacyValue (JStr s) = Inr (DScalar (JStr s) TString)"
| "wrapLegacyValue (JNum n) = Inr (DScalar (JNum n) TNumber)"
| "wrapLegacyValue (JBool b) = Inr (DScalar (JBool b) TBoolean)"
| "wrapLegacyValue JNull = Inr (DScalar JNull TNull)"
| "wrapLegacyValue (JArr vs) = bindR (mapR wrapLegacyValue vs) (\<lambda>ds. Inr (DCollection ds KAny))"
| "wrapLegacyValue JUndef = Inr DVoid"

section \<open>Lemmas\<close>

lemma rs_rows_collect_tables: "rs_rows (collect_tables ts acc) = rs_rows acc @ concat (map rs_rows ts)"
  by (induction ts acc rule: collect_tables.induct) auto

lemma toTabular_records [simp]:
  "rs_rows (toTabular (DCollection (map (\<lambda>r. DRecord r s) rows) k)) = rows"
proof -
  have "filter (\<lambda>v. v \<noteq> DVoid) (map (\<lambda>r. DRecord r s) rows) = map (\<lambda>r. DRecord r s) rows"
    by (induction rows) auto
  moreover have "concat (map (rs_rows \<circ> (toTabular \<circ> (\<lambda>r. DRecord r s))) rows) = rows"
    by (induction rows) auto
  ultimately show ?thesis by (simp add: rs_rows_collect_tables)
qed

lemma toTabular_collection_rows:
  "rs_rows (toTabular (DCollection vs k)) = concat (map (rs_rows \<circ> toTabular) vs)"
proof -
  have "concat (map (rs_rows \<circ> toTabular) (filter (\<lambda>v. v \<noteq> DVoid) vs)) = concat (map (rs_rows \<circ> toTabular) vs)"
    by (induction vs) auto
  then show ?thesis by (auto simp: rs_rows_collect_tables)
qed

text \<open>
  C14: the edge compatibility test is sound.  When the compiler accepts an edge from an
  output port to an input port, every value the output port's type allows can be read
  behind the input port: a record reaches a tabular port as the one row it is, a table or a
  record reaches a collection port as items of the announced kind, and no coercion throws.
\<close>

theorem isCompatible_sound:
  assumes "isCompatible out inp" and "conforms v out"
  shows "delivers v inp"
  using assms
  by (cases v; cases out; cases inp)
    (auto simp: delivers_def item_ok_def list_all_iff)

theorem isCompatible_sound_witness:
  "isCompatible TyRecord (TyCollection KRecord) \<and>
   delivers (DRecord [(''id'', JNum (Fin 1))] []) (TyCollection KRecord)"
  using isCompatible_sound [of TyRecord "TyCollection KRecord" "DRecord [(''id'', JNum (Fin 1))] []"]
  by simp

text \<open>
  splitting a table into its record items and flattening them again loses no row and
  keeps their order; in general a collection flattens to the concatenation of what its
  items flatten to.
\<close>

theorem toTabular_toCollection:
  "(\<exists>items. toCollection (DTabular r s) = Inr items \<and>
      rs_rows (toTabular (DCollection items KRecord)) = rs_rows r) \<and>
   rs_rows (toTabular (DCollection vs k)) = concat (map (\<lambda>v. rs_rows (toTabular v)) vs)"
  using toTabular_collection_rows [of vs k] toTabular_records [of s "rs_rows r" KRecord]
  by (simp add: o_def del: toTabular.simps(5) toTabular_records)

text \<open>
  wrapping is the identity on the five tagged kinds and never fails on scalars, arrays
  of scalars or row sets; a schema artifact, whose tag the test list omits, comes back as a
  record that holds the artifact as a field.
\<close>

theorem wrapLegacyValue_kinds:
  "(dv_kind d \<noteq> KSchema \<longrightarrow> wrapLegacyValue (JData d) = Inr d) \<and>
   wrapLegacyValue (JData (DSchema x)) =
     Inr (DRecord [(''kind'', JStr ''schema''), (''data'', x)]
       [Column ''kind'' TAny True, Column ''data'' TAny True]) \<and>
   (isScalarValue v \<longrightarrow> (\<exists>t. wrapLegacyValue v = Inr (DScalar v t)))"
  by (cases d; cases v) (auto simp: data_tags_def kind_tag_def any_schema_def)

theorem wrapLegacyValue_kinds_witness:
  "wrapLegacyValue (JData DVoid) = Inr DVoid \<and>
   (\<exists>t. wrapLegacyValue (JStr ''a'') = Inr (DScalar (JStr ''a'') t))"
  using wrapLegacyValue_kinds [of DVoid JNull "JStr ''a''"] by simp

end
