(* ===== verification/Scopes.thy ===== *)
theory Scopes
  imports DataValues
begin

text \<open>
  \<open>src/src/core/scope/scope.ts\<close> and \<open>src/src/core/context/\<close>: the lexical scope chain,
  the execution budget, the execution trace and the execution context.

  A scope is the list of its frames, the innermost first; the parent pointer is the tail.
  A scope made by \<open>scopePush\<close> is only ever mutated through its own handle, so passing the
  list gives the same results as sharing the parent object.  Identifiers drawn from
  \<open>crypto.randomUUID\<close> are not modelled, and each reading of \<open>Date.now()\<close> is an argument.
\<close>

section \<open>Scope chains\<close>

datatype scopeKind = SkGlobal | SkPipeline | SkLoop | SkBranch | SkNode

record 'v frame =
  fr_kind :: scopeKind
  fr_bindings :: "(string \<times> 'v) list"

type_synonym 'v chain = "'v frame list"
type_synonym scope = "jsval chain"
type_synonym typeScope = "engineType chain"

definition createScope :: "scopeKind \<Rightarrow> 'v chain \<Rightarrow> 'v chain" where
  "createScope k parent = \<lparr>fr_kind = k, fr_bindings = []\<rparr> # parent"

fun scopeSet :: "'v chain \<Rightarrow> string \<Rightarrow> 'v \<Rightarrow> 'v chain" where
  "scopeSet [] n v = []"
| "scopeSet (f # fs) n v = f\<lparr>fr_bindings := al_set n v (fr_bindings f)\<rparr> # fs"

fun scopeResolve_from :: "int \<Rightarrow> string \<Rightarrow> 'v chain \<Rightarrow> 'v res" where
  "scopeResolve_from depth n [] = Inl (UnresolvedVariableError n depth)"
| "scopeResolve_from depth n (f # fs) = (case map_of (fr_bindings f) n of
      Some v \<Rightarrow> Inr v
    | None \<Rightarrow> scopeResolve_from (depth + 1) n fs)"

definition scopeResolve :: "string \<Rightarrow> 'v chain \<Rightarrow> 'v res" where
  "scopeResolve n s = scopeResolve_from 0 n s"

fun typeScopeResolve :: "string \<Rightarrow> typeScope \<Rightarrow> engineType res" where
  "typeScopeResolve n [] = Inl (UnresolvedVariableError n (- 1))"
| "typeScopeResolve n (f # fs) = (case map_of (fr_bindings f) n of
      Some t \<Rightarrow> Inr t
    | None \<Rightarrow> typeScopeResolve n fs)"

definition scopePush :: "'v chain \<Rightarrow> scopeKind \<Rightarrow> 'v chain" where
  "scopePush parent k = createScope k parent"

fun scopePop :: "'v chain \<Rightarrow> 'v chain res" where
  "scopePop (f # fs) = (if fs = [] then Inl (PlainError ''Cannot pop global scope'') else Inr fs)"
| "scopePop [] = Inl (PlainError ''Cannot pop global scope'')"

text \<open>
  What the evaluator and the scheduler rely on: a binding is read back until it is shadowed,
  a pushed scope sees its parent, and popping gives the parent back untouched.
\<close>

locale lexical_scope =
  fixes valid :: "'s \<Rightarrow> bool"
    and resolve :: "string \<Rightarrow> 's \<Rightarrow> 'v res"
    and set_binding :: "'s \<Rightarrow> string \<Rightarrow> 'v \<Rightarrow> 's"
    and push :: "'s \<Rightarrow> scopeKind \<Rightarrow> 's"
    and pop :: "'s \<Rightarrow> 's res"
  assumes resolve_set: "valid s \<Longrightarrow> resolve n (set_binding s m v) = (if n = m then Inr v else resolve n s)"
    and resolve_push: "valid s \<Longrightarrow> resolve n (push s k) = Inr v \<longleftrightarrow> resolve n s = Inr v"
    and pop_push: "valid s \<Longrightarrow> pop (push s k) = Inr s"
    and pop_set: "valid s \<Longrightarrow> pop (set_binding s m v) = pop s"
    and valid_push: "valid s \<Longrightarrow> valid (push s k)"
    and valid_set: "valid s \<Longrightarrow> valid (set_binding s m v)"
begin

definition bind_all :: "'s \<Rightarrow> (string \<times> 'v) list \<Rightarrow> 's" where
  "bind_all s bs = foldl (\<lambda>s (n, v). set_binding s n v) s bs"

lemma bind_all_simps [simp]:
  "bind_all s [] = s"
  "bind_all s ((n, v) # bs) = bind_all (set_binding s n v) bs"
  by (simp_all add: bind_all_def)

lemma valid_bind_all: "valid s \<Longrightarrow> valid (bind_all s bs)"
  by (induction bs arbitrary: s) (auto simp: valid_set)

lemma pop_bind_all: "valid s \<Longrightarrow> pop (bind_all s bs) = pop s"
  by (induction bs arbitrary: s) (auto simp: valid_set pop_set)

lemma resolve_bind_all:
  "valid s \<Longrightarrow> resolve n (bind_all s bs) = (case map_of (rev bs) n of Some v \<Rightarrow> Inr v | None \<Rightarrow> resolve n s)"
proof (induction bs arbitrary: s)
  case (Cons b bs)
  obtain m v where b: "b = (m, v)" by force
  show ?case
    using Cons.IH [of "set_binding s m v"] Cons.prems
    by (auto simp: b valid_set resolve_set map_add_def split: option.splits)
qed simp

lemma iteration_isolated:
  assumes "valid s"
  shows "pop (bind_all (push s k) bs) = Inr s"
  using assms by (simp add: pop_bind_all valid_push pop_push)

lemma iteration_sees_parent:
  assumes "valid s" and "n \<notin> fst ` set bs"
  shows "resolve n (bind_all (push s k) bs) = Inr v \<longleftrightarrow> resolve n s = Inr v"
proof -
  have "map_of (rev bs) n = None" using assms(2) by (simp add: map_of_eq_None_iff)
  then show ?thesis using assms(1) by (simp add: resolve_bind_all valid_push resolve_push)
qed

end

lemma scopeResolve_from_Inr: "scopeResolve_from d n s = Inr v \<longleftrightarrow> scopeResolve_from d' n s = Inr v"
  by (induction s arbitrary: d d') (auto split: option.splits)

interpretation value_scope: lexical_scope "\<lambda>s. s \<noteq> []" scopeResolve scopeSet scopePush scopePop
proof unfold_locales
  fix s :: "'a chain" and n m v
  assume "s \<noteq> []"
  then show "scopeResolve n (scopeSet s m v) = (if n = m then Inr v else scopeResolve n s)"
    by (cases s) (auto simp: scopeResolve_def)
qed (auto simp: scopeResolve_def scopePush_def createScope_def neq_Nil_conv split: option.splits
      intro: scopeResolve_from_Inr [THEN iffD1])

interpretation type_scope: lexical_scope "\<lambda>s. s \<noteq> []" typeScopeResolve scopeSet scopePush scopePop
  by unfold_locales (auto simp: scopePush_def createScope_def neq_Nil_conv split: option.splits)

section \<open>Budget\<close>

record execBudget =
  maxLLMCalls :: int
  llmCallsUsed :: int
  maxIterations :: int
  iterationsUsed :: int
  maxMemoryMB :: int
  timeoutMs :: int
  startedAt :: int
  maxRowsPerNode :: int
  maxBatchSize :: int

definition defaultBudget :: "int \<Rightarrow> execBudget" where
  "defaultBudget now = \<lparr>maxLLMCalls = 100, llmCallsUsed = 0, maxIterations = 1000, iterationsUsed = 0,
     maxMemoryMB = 512, timeoutMs = 300000, startedAt = now, maxRowsPerNode = 10000, maxBatchSize = 1000\<rparr>"

definition isBudgetExceeded :: "int \<Rightarrow> execBudget \<Rightarrow> bool" where
  "isBudgetExceeded now b \<longleftrightarrow> llmCallsUsed b \<ge> maxLLMCalls b \<or>
     iterationsUsed b \<ge> maxIterations b \<or> now - startedAt b \<ge> timeoutMs b"

record remaining =
  rem_timeMs :: int
  rem_llmCalls :: int
  rem_iterations :: int

definition budgetRemaining :: "int \<Rightarrow> execBudget \<Rightarrow> remaining" where
  "budgetRemaining now b = \<lparr>rem_timeMs = max 0 (timeoutMs b - (now - startedAt b)),
     rem_llmCalls = max 0 (maxLLMCalls b - llmCallsUsed b),
     rem_iterations = max 0 (maxIterations b - iterationsUsed b)\<rparr>"

lemma isBudgetExceeded_iff_remaining:
  "isBudgetExceeded now b \<longleftrightarrow> rem_timeMs (budgetRemaining now b) = 0 \<or>
     rem_llmCalls (budgetRemaining now b) = 0 \<or> rem_iterations (budgetRemaining now b) = 0"
  by (auto simp: isBudgetExceeded_def budgetRemaining_def)

section \<open>Trace\<close>

datatype traceKind = TkStart | TkComplete | TkError | TkSkip | TkBatch

record baseError =
  be_message :: string
  be_category :: string
  be_severity :: string
  be_nodeId :: "string option"

record traceEv =
  te_nodeId :: string
  te_kind :: traceKind
  te_durationMs :: "int option"
  te_rowsIn :: "nat option"
  te_rowsOut :: "nat option"
  te_error :: "string option"
  te_errorDetails :: "baseError option"

definition mk_event :: "string \<Rightarrow> traceKind \<Rightarrow> traceEv" where
  "mk_event n k = \<lparr>te_nodeId = n, te_kind = k, te_durationMs = None, te_rowsIn = None,
     te_rowsOut = None, te_error = None, te_errorDetails = None\<rparr>"

type_synonym trace = "traceEv list"

definition traceEvent :: "trace \<Rightarrow> traceEv \<Rightarrow> trace" where
  "traceEvent t e = t @ [e]"

definition traceFilter :: "trace \<Rightarrow> string \<Rightarrow> trace" where
  "traceFilter t n = filter (\<lambda>e. te_nodeId e = n) t"

datatype nodeStatus = NsUnknown | NsError | NsComplete | NsSkip

record nodeSummary =
  ns_totalMs :: int
  ns_rowsOut :: nat
  ns_status :: nodeStatus

definition summary_status :: "nodeStatus \<Rightarrow> traceKind \<Rightarrow> nodeStatus" where
  "summary_status st k = (if k = TkError then NsError
     else if k = TkComplete \<and> st \<noteq> NsError then NsComplete
     else if k = TkSkip \<and> st = NsUnknown then NsSkip else st)"

definition summary_add :: "nodeSummary \<Rightarrow> traceEv \<Rightarrow> nodeSummary" where
  "summary_add s e = s\<lparr>ns_totalMs := ns_totalMs s + (case te_durationMs e of Some d \<Rightarrow> d | None \<Rightarrow> 0),
     ns_rowsOut := (case te_rowsOut e of Some n \<Rightarrow> n | None \<Rightarrow> ns_rowsOut s),
     ns_status := summary_status (ns_status s) (te_kind e)\<rparr>"

definition fresh_summary :: nodeSummary where
  "fresh_summary = \<lparr>ns_totalMs = 0, ns_rowsOut = 0, ns_status = NsUnknown\<rparr>"

fun summary_loop :: "trace \<Rightarrow> (string \<times> nodeSummary) list \<Rightarrow> (string \<times> nodeSummary) list" where
  "summary_loop [] m = m"
| "summary_loop (e # es) m = summary_loop es (al_set (te_nodeId e)
     (summary_add (case map_of m (te_nodeId e) of Some s \<Rightarrow> s | None \<Rightarrow> fresh_summary) e) m)"

definition traceSummary :: "trace \<Rightarrow> (string \<times> nodeSummary) list" where
  "traceSummary t = summary_loop t []"

definition extractErrorsFromTrace :: "trace \<Rightarrow> baseError list" where
  "extractErrorsFromTrace t = List.map_filter (\<lambda>e. if te_kind e = TkError then te_errorDetails e else None) t"

fun group_errors :: "(baseError \<Rightarrow> string) \<Rightarrow> baseError list \<Rightarrow> (string \<times> baseError list) list \<Rightarrow>
    (string \<times> baseError list) list" where
  "group_errors key [] m = m"
| "group_errors key (e # es) m = group_errors key es
     (al_set (key e) ((case map_of m (key e) of Some l \<Rightarrow> l | None \<Rightarrow> []) @ [e]) m)"

fun count_errors :: "(baseError \<Rightarrow> string) \<Rightarrow> baseError list \<Rightarrow> (string \<times> nat) list \<Rightarrow> (string \<times> nat) list" where
  "count_errors key [] m = m"
| "count_errors key (e # es) m = count_errors key es
     (al_set (key e) (Suc (case map_of m (key e) of Some n \<Rightarrow> n | None \<Rightarrow> 0)) m)"

record errorSummary =
  totalErrors :: nat
  errorsByNode :: "(string \<times> baseError list) list"
  errorsByCategory :: "(string \<times> nat) list"
  errorsBySeverity :: "(string \<times> nat) list"

definition node_key :: "baseError \<Rightarrow> string" where
  "node_key e = (case be_nodeId e of Some n \<Rightarrow> if n = [] then ''unknown'' else n | None \<Rightarrow> ''unknown'')"

definition getErrorSummary :: "trace \<Rightarrow> errorSummary" where
  "getErrorSummary t = (let errors = extractErrorsFromTrace t in
     \<lparr>totalErrors = length errors,
      errorsByNode = group_errors node_key errors [],
      errorsByCategory = count_errors be_category errors [],
      errorsBySeverity = count_errors be_severity errors []\<rparr>)"

section \<open>Context\<close>

record execContext =
  pipelineId :: string
  sessionId :: string
  userId :: "string option"
  ctx_scope :: scope
  nodeOutputs :: "(string \<times> jsval) list"
  ctx_trace :: trace
  budget :: execBudget
  params :: "(string \<times> jsval) list"

definition createExecutionContext ::
    "string \<Rightarrow> string \<Rightarrow> string option \<Rightarrow> (string \<times> jsval) list \<Rightarrow> execBudget \<Rightarrow> execContext" where
  "createExecutionContext pid sid uid ps b = \<lparr>pipelineId = pid, sessionId = sid, userId = uid,
     ctx_scope = createScope SkGlobal [], nodeOutputs = [], ctx_trace = [], budget = b, params = ps\<rparr>"

definition contextPushScope :: "execContext \<Rightarrow> scopeKind \<Rightarrow> execContext" where
  "contextPushScope c k = c\<lparr>ctx_scope := createScope k (ctx_scope c)\<rparr>"

definition contextPopScope :: "execContext \<Rightarrow> execContext res" where
  "contextPopScope c = bindR (scopePop (ctx_scope c)) (\<lambda>s. Inr (c\<lparr>ctx_scope := s\<rparr>))"

definition contextSetOutput :: "execContext \<Rightarrow> string \<Rightarrow> jsval \<Rightarrow> execContext" where
  "contextSetOutput c n v = c\<lparr>nodeOutputs := al_set n v (nodeOutputs c)\<rparr>"

section \<open>Correctness\<close>

lemma map_of_summary_loop:
  "map_of (summary_loop t m) n = (let es = traceFilter t n in
     if es = [] then map_of m n
     else Some (foldl summary_add (case map_of m n of Some s \<Rightarrow> s | None \<Rightarrow> fresh_summary) es))"
  by (induction t arbitrary: m) (auto simp: traceFilter_def Let_def)

lemma foldl_summary_status:
  "ns_status (foldl summary_add s es) = NsError \<longleftrightarrow> ns_status s = NsError \<or> (\<exists>e\<in>set es. te_kind e = TkError)"
  by (induction es arbitrary: s) (auto simp: summary_add_def summary_status_def)

lemma foldl_summary_total:
  "ns_totalMs (foldl summary_add s es) = ns_totalMs s +
     sum_list (map (\<lambda>e. case te_durationMs e of Some d \<Rightarrow> d | None \<Rightarrow> 0) es)"
  by (induction es arbitrary: s) (auto simp: summary_add_def)

text \<open>
  what runs inside a loop iteration's scope stays there.  Pushing a scope, binding any
  names in it and popping it gives back the context unchanged, and while the scope is up
  every name the iteration did not bind resolves as it does outside.
\<close>

theorem iteration_scope_isolated:
  assumes "ctx_scope c \<noteq> []"
  shows "contextPopScope (c\<lparr>ctx_scope := foldl (\<lambda>s (n, v). scopeSet s n v)
           (ctx_scope (contextPushScope c k)) bs\<rparr>) = Inr c \<and>
    (n \<notin> fst ` set bs \<longrightarrow>
      (scopeResolve n (foldl (\<lambda>s (n, v). scopeSet s n v) (ctx_scope (contextPushScope c k)) bs) = Inr v
        \<longleftrightarrow> scopeResolve n (ctx_scope c) = Inr v))"
  using value_scope.iteration_isolated [OF assms, of k bs]
    value_scope.iteration_sees_parent [OF assms, of n bs k v]
  by (simp add: contextPopScope_def contextPushScope_def scopePush_def value_scope.bind_all_def)

theorem iteration_scope_isolated_witness:
  "contextPopScope ((createExecutionContext ''p'' ''s'' None [] (defaultBudget 0))
     \<lparr>ctx_scope := foldl (\<lambda>s (n, v). scopeSet s n v)
        (ctx_scope (contextPushScope (createExecutionContext ''p'' ''s'' None [] (defaultBudget 0)) SkLoop))
        [(''row'', JNull), (''i'', JNum (Fin 0))]\<rparr>)
     = Inr (createExecutionContext ''p'' ''s'' None [] (defaultBudget 0))"
  by (rule iteration_scope_isolated [THEN conjunct1]) (simp add: createExecutionContext_def createScope_def)

text \<open>
  the trace summary reports exactly the nodes with an event, the total of their recorded
  durations, and the status \<open>error\<close> for a node if and only if one of its events is an
  error, whatever comes after it.
\<close>

theorem traceSummary_correct:
  "map_of (traceSummary t) n = (if traceFilter t n = [] then None
     else Some (foldl summary_add fresh_summary (traceFilter t n))) \<and>
   (\<forall>s. map_of (traceSummary t) n = Some s \<longrightarrow>
     (ns_status s = NsError \<longleftrightarrow> (\<exists>e\<in>set t. te_nodeId e = n \<and> te_kind e = TkError)) \<and>
     ns_totalMs s = sum_list (map (\<lambda>e. case te_durationMs e of Some d \<Rightarrow> d | None \<Rightarrow> 0) (traceFilter t n)))"
  by (auto simp: traceSummary_def map_of_summary_loop Let_def foldl_summary_status foldl_summary_total
      fresh_summary_def traceFilter_def)

theorem traceSummary_correct_witness:
  "map_of (traceSummary [mk_event ''a'' TkError, mk_event ''a'' TkComplete]) ''a''
     = Some \<lparr>ns_totalMs = 0, ns_rowsOut = 0, ns_status = NsError\<rparr>"
  using traceSummary_correct [of "[mk_event ''a'' TkError, mk_event ''a'' TkComplete]" "''a''"]
  by (simp add: traceFilter_def mk_event_def summary_add_def summary_status_def fresh_summary_def)

lemma map_of_group_errors:
  "map_of (group_errors key es m) k = (let l = filter (\<lambda>e. key e = k) es in
     if l = [] then map_of m k else Some ((case map_of m k of Some x \<Rightarrow> x | None \<Rightarrow> []) @ l))"
  by (induction es arbitrary: m) (auto simp: Let_def)

lemma map_of_count_errors:
  "map_of (count_errors key es m) k = (let l = filter (\<lambda>e. key e = k) es in
     if l = [] then map_of m k else Some ((case map_of m k of Some x \<Rightarrow> x | None \<Rightarrow> 0) + length l))"
  by (induction es arbitrary: m) (auto simp: Let_def)

lemma sum_count_al_set:
  "sum_list (map snd (al_set k (Suc (case map_of m k of Some n \<Rightarrow> n | None \<Rightarrow> 0)) m)) = Suc (sum_list (map snd m))"
  by (induction m) (auto split: option.splits)

lemma sum_count_errors:
  "sum_list (map snd (count_errors key es m)) = sum_list (map snd m) + length es"
  by (induction key es m rule: count_errors.induct) (simp_all add: sum_count_al_set)

text \<open>
  the error summary loses and invents nothing.  The counts by category and by severity
  each add up to the number of errors, every count is the number of errors of that category,
  and a node's list is the errors of that node in trace order.
\<close>

theorem getErrorSummary_partitions:
  "sum_list (map snd (errorsByCategory (getErrorSummary t))) = totalErrors (getErrorSummary t) \<and>
   sum_list (map snd (errorsBySeverity (getErrorSummary t))) = totalErrors (getErrorSummary t) \<and>
   map_of (errorsByCategory (getErrorSummary t)) c =
     (case length (filter (\<lambda>e. be_category e = c) (extractErrorsFromTrace t)) of 0 \<Rightarrow> None | n \<Rightarrow> Some n) \<and>
   map_of (errorsByNode (getErrorSummary t)) n =
     (case filter (\<lambda>e. node_key e = n) (extractErrorsFromTrace t) of [] \<Rightarrow> None | l \<Rightarrow> Some l)"
  by (auto simp: getErrorSummary_def Let_def sum_count_errors map_of_count_errors map_of_group_errors
      split: nat.splits list.splits)

end
