(* ===== verification/Evaluator.thy ===== *)
theory Evaluator
  imports Scopes
begin

text \<open>
  \<open>src/src/core/ast/expr-ast.ts\<close>, \<open>core/registry/function-registry.ts\<close>,
  \<open>executors/expr-evaluator.ts\<close>, \<open>functions/builtin.ts\<close> and
  \<open>compiler/pipeline/expr-sanitizer.ts\<close>: the expression language of the operators,
  its evaluator with type inference, the registry of functions it calls, and the pass that
  removes references to unknown fields.

  The record \<open>host\<close> holds what the JavaScript standard leaves to the engine that runs the
  program: general regular expressions, parsing of dates, \<open>Math.sqrt\<close>, \<open>Math.pow\<close>
  and the clock.  A LIKE pattern without a metacharacter of regular expressions is matched
  here (\<open>like_match\<close>); case mapping beyond ASCII is the error \<open>Unmodelled\<close>.
\<close>

section \<open>Syntax\<close>

datatype binaryOperator = OAdd | OSub | OMul | ODiv | OMod | OEq | ONeq | OLt | OGt | OLe | OGe
  | OAnd | OOr | OLike | OConcat

datatype unaryOperator = ONot | ONeg

datatype aggFn = FSum | FAvg | FCount | FCountDistinct | FMin | FMax | FRowNumber | FRank | FLag | FLead

datatype exprAST =
    Literal jsval engineType
  | FieldRef "string option" string
  | VarRef string
  | BinaryOp binaryOperator exprAST exprAST
  | UnaryOp unaryOperator exprAST
  | FunctionCall string "exprAST list"
  | Conditional exprAST exprAST exprAST
  | Cast exprAST engineType
  | IsNull exprAST
  | In exprAST "exprAST list"
  | Between exprAST exprAST exprAST
  | WindowExpr aggFn exprAST "exprAST list option" "exprAST list option"
  | SqlExpr string
  | Wildcard

definition binop_name :: "binaryOperator \<Rightarrow> string" where
  "binop_name op = (case op of OAdd \<Rightarrow> ''+'' | OSub \<Rightarrow> ''-'' | OMul \<Rightarrow> ''*'' | ODiv \<Rightarrow> ''/'' | OMod \<Rightarrow> ''%''
     | OEq \<Rightarrow> ''='' | ONeq \<Rightarrow> ''!='' | OLt \<Rightarrow> ''<'' | OGt \<Rightarrow> ''>'' | OLe \<Rightarrow> ''<='' | OGe \<Rightarrow> ''>=''
     | OAnd \<Rightarrow> ''AND'' | OOr \<Rightarrow> ''OR'' | OLike \<Rightarrow> ''LIKE'' | OConcat \<Rightarrow> ''CONCAT'')"

definition type_kind :: "engineType \<Rightarrow> string" where
  "type_kind t = (case t of TString \<Rightarrow> ''string'' | TNumber \<Rightarrow> ''number'' | TBoolean \<Rightarrow> ''boolean''
     | TNull \<Rightarrow> ''null'' | TDatetime \<Rightarrow> ''datetime'' | TJson \<Rightarrow> ''json'' | TArray _ \<Rightarrow> ''array''
     | TRecord _ \<Rightarrow> ''record'' | TRowset _ \<Rightarrow> ''rowset'' | TAny \<Rightarrow> ''any'')"

record host =
  h_regex :: "string \<Rightarrow> string \<Rightarrow> bool res"
  h_date_iso :: "jsval \<Rightarrow> string option"
  h_full_year :: "jsval \<Rightarrow> jsnum"
  h_now :: jsnum
  h_sqrt :: "jsnum \<Rightarrow> jsnum"
  h_pow10 :: "jsnum \<Rightarrow> jsnum"

section \<open>Functions\<close>

record fnDef =
  fn_inferType :: "engineType list \<Rightarrow> engineType"
  fn_validate :: "engineType list \<Rightarrow> bool"
  fn_execute :: "jsval list \<Rightarrow> jsval res"

type_synonym fnRegistry = "(string \<times> fnDef) list"

definition fn_register :: "fnRegistry \<Rightarrow> string \<Rightarrow> fnDef \<Rightarrow> fnRegistry res" where
  "fn_register reg n d = (if al_has n reg
     then Inl (PlainError (''Function '' @ quoted n @ '' is already registered'')) else Inr (al_set n d reg))"

definition fn_get :: "fnRegistry \<Rightarrow> string \<Rightarrow> fnDef res" where
  "fn_get reg n = (case map_of reg n of None \<Rightarrow> Inl (FunctionNotFoundError n) | Some d \<Rightarrow> Inr d)"

lemma fn_register_get:
  "fn_register reg n d = Inr reg' \<Longrightarrow> fn_get reg' n' = (if n' = n then Inr d else fn_get reg n')"
  by (auto simp: fn_register_def fn_get_def split: if_splits)

section \<open>Evaluation\<close>

text \<open>The module has its own \<open>scopeResolve\<close> that throws a plain error.\<close>

fun eval_scopeResolve :: "string \<Rightarrow> scope \<Rightarrow> jsval res" where
  "eval_scopeResolve n [] = Inl (PlainError (''Unresolved variable: '' @ n))"
| "eval_scopeResolve n (f # fs) = (case map_of (fr_bindings f) n of
      Some v \<Rightarrow> Inr v | None \<Rightarrow> eval_scopeResolve n fs)"

fun eval_typeScopeResolve :: "string \<Rightarrow> typeScope \<Rightarrow> engineType res" where
  "eval_typeScopeResolve n [] = Inl (PlainError (''Unresolved type variable: '' @ n))"
| "eval_typeScopeResolve n (f # fs) = (case map_of (fr_bindings f) n of
      Some t \<Rightarrow> Inr t | None \<Rightarrow> eval_typeScopeResolve n fs)"

definition is_arr :: "jsval \<Rightarrow> bool" where
  "is_arr v = (case v of JArr _ \<Rightarrow> True | _ \<Rightarrow> False)"

text \<open>The lookups of a field, in the order the code tries them; the first value that is not
  \<open>undefined\<close> is the result.\<close>

definition table_in_scope :: "string \<Rightarrow> string \<Rightarrow> scope \<Rightarrow> jsval" where
  "table_in_scope t fld sc = (case eval_scopeResolve t sc of
       Inr v \<Rightarrow> (case own_props v of Some fs \<Rightarrow> row_get fs fld | None \<Rightarrow> JUndef)
     | Inl _ \<Rightarrow> JUndef)"

definition row_lookups :: "string option \<Rightarrow> string \<Rightarrow> row \<Rightarrow> jsval list" where
  "row_lookups t fld r =
     (case t of Some tn \<Rightarrow> if tn = [] then [] else [row_get r (tn @ ''.'' @ fld)] | None \<Rightarrow> []) @
     [row_get r fld, row_get r (''left.'' @ fld), row_get r (''right.'' @ fld)]"

definition field_lookups :: "string option \<Rightarrow> string \<Rightarrow> scope \<Rightarrow> row option \<Rightarrow> jsval list" where
  "field_lookups t fld sc r =
     (case t of Some tn \<Rightarrow> if tn = [] then [] else [table_in_scope tn fld sc] | None \<Rightarrow> []) @
     (case r of Some r' \<Rightarrow> row_lookups t fld r' | None \<Rightarrow> [])"

definition evaluateFieldRef :: "string option \<Rightarrow> string \<Rightarrow> scope \<Rightarrow> row option \<Rightarrow> jsval res" where
  "evaluateFieldRef t fld sc r =
     (case find (\<lambda>v. v \<noteq> JUndef) (field_lookups t fld sc r) of
        Some v \<Rightarrow> Inr v
      | None \<Rightarrow> (case eval_scopeResolve fld sc of
          Inr v \<Rightarrow> Inr v
        | Inl _ \<Rightarrow> (let available = (case r of Some r' \<Rightarrow> map fst r' | None \<Rightarrow> [])
             in if available \<noteq> [] then Inl (FieldNotFoundError fld available)
                else Inl (PlainError (''Field '' @ quoted fld @ '' not found'')))))"

fun arith_op :: "binaryOperator \<Rightarrow> (jsnum \<Rightarrow> jsnum \<Rightarrow> jsnum) option" where
  "arith_op OAdd = Some num_add"
| "arith_op OSub = Some num_sub"
| "arith_op OMul = Some num_mul"
| "arith_op ODiv = Some num_div"
| "arith_op OMod = Some num_rem"
| "arith_op _ = None"

definition evaluateArithmetic :: "binaryOperator \<Rightarrow> jsval \<Rightarrow> jsval \<Rightarrow> jsval res" where
  "evaluateArithmetic op l r = (case (l, r) of
       (JNum a, JNum b) \<Rightarrow> (case arith_op op of
           Some f \<Rightarrow> Inr (JNum (f a b))
         | None \<Rightarrow> Inl (PlainError (''Unknown arithmetic operator: '' @ binop_name op)))
     | _ \<Rightarrow> Inl (TypeMismatchError (binop_name op) (js_typeof l) (js_typeof r)))"

fun evaluateComparison :: "binaryOperator \<Rightarrow> jsval \<Rightarrow> jsval \<Rightarrow> jsval res" where
  "evaluateComparison OEq l r = mapRes JBool (strict_eq l r)"
| "evaluateComparison ONeq l r = mapRes (\<lambda>b. JBool (\<not> b)) (strict_eq l r)"
| "evaluateComparison OLt l r = Inr (JBool (js_lt l r))"
| "evaluateComparison OGt l r = Inr (JBool (js_lt r l))"
| "evaluateComparison OLe l r = Inr (JBool (js_le l r))"
| "evaluateComparison OGe l r = Inr (JBool (js_le r l))"
| "evaluateComparison op l r = Inl (PlainError (''Unknown comparison operator: '' @ binop_name op))"

definition evaluateLogical :: "binaryOperator \<Rightarrow> jsval \<Rightarrow> jsval \<Rightarrow> jsval res" where
  "evaluateLogical op l r = (case (l, r) of
       (JBool a, JBool b) \<Rightarrow> (case op of
           OAnd \<Rightarrow> Inr (JBool (a \<and> b))
         | OOr \<Rightarrow> Inr (JBool (a \<or> b))
         | _ \<Rightarrow> Inl (PlainError (''Unknown logical operator: '' @ binop_name op)))
     | _ \<Rightarrow> Inl (TypeMismatchError (binop_name op) (js_typeof l) (js_typeof r)))"

text \<open>The pattern language of LIKE: \<open>%\<close> becomes \<open>.*\<close>, which stops at a line terminator.\<close>

definition regex_special :: "char \<Rightarrow> bool" where
  "regex_special c \<longleftrightarrow> c \<in> set ''^$.*+?()[]{}|'' \<or> c = CHR 0x5C"

definition line_terminator :: "char \<Rightarrow> bool" where
  "line_terminator c \<longleftrightarrow> c = CHR 0x0A \<or> c = CHR 0x0D"

function like_match :: "string \<Rightarrow> string \<Rightarrow> bool" where
  "like_match [] s = (s = [])"
| "like_match (c # p) s =
     (if c = CHR ''%'' then like_match p s \<or> (case s of [] \<Rightarrow> False
         | d # s' \<Rightarrow> \<not> line_terminator d \<and> like_match (c # p) s')
      else (case s of [] \<Rightarrow> False | d # s' \<Rightarrow> d = c \<and> like_match p s'))"
  by pat_completeness auto
termination by (relation "measure (\<lambda>(p, s). length p + length s)") auto

definition replace_percent :: "string \<Rightarrow> string" where
  "replace_percent p = concat (map (\<lambda>c. if c = CHR ''%'' then ''.*'' else [c]) p)"

definition evaluateLike :: "host \<Rightarrow> jsval \<Rightarrow> jsval \<Rightarrow> jsval res" where
  "evaluateLike h l r = (case (l, r) of
       (JStr s, JStr p) \<Rightarrow> if list_ex regex_special p
           then mapRes JBool (h_regex h (''^'' @ replace_percent p @ ''$'') s)
           else Inr (JBool (like_match p s))
     | _ \<Rightarrow> Inl (TypeMismatchError ''LIKE'' (js_typeof l) (js_typeof r)))"

definition evaluateConcat :: "jsval \<Rightarrow> jsval \<Rightarrow> jsval res" where
  "evaluateConcat l r = Inr (JStr (js_string l @ js_string r))"

definition evaluateBinaryOp :: "host \<Rightarrow> binaryOperator \<Rightarrow> jsval \<Rightarrow> jsval \<Rightarrow> jsval res" where
  "evaluateBinaryOp h op l r =
     (if op \<in> {OAdd, OSub, OMul, ODiv, OMod} then evaluateArithmetic op l r
      else if op \<in> {OEq, ONeq, OLt, OGt, OLe, OGe} then evaluateComparison op l r
      else if op \<in> {OAnd, OOr} then evaluateLogical op l r
      else if op = OLike then evaluateLike h l r
      else evaluateConcat l r)"

fun evaluateUnaryOp :: "unaryOperator \<Rightarrow> jsval \<Rightarrow> jsval res" where
  "evaluateUnaryOp ONot v = (case v of JBool b \<Rightarrow> Inr (JBool (\<not> b))
     | _ \<Rightarrow> Inl (TypeMismatchError ''NOT'' (js_typeof v) ''boolean''))"
| "evaluateUnaryOp ONeg v = (case v of JNum n \<Rightarrow> Inr (JNum (num_neg n))
     | _ \<Rightarrow> Inl (TypeMismatchError ''NEG'' (js_typeof v) ''number''))"

definition castValue :: "host \<Rightarrow> jsval \<Rightarrow> engineType \<Rightarrow> jsval res" where
  "castValue h v t = (if v = JNull then Inr JNull else case t of
       TString \<Rightarrow> Inr (JStr (js_string v))
     | TNumber \<Rightarrow> if js_number v = NaN then Inl (CastError (js_typeof v) ''number'') else Inr (JNum (js_number v))
     | TBoolean \<Rightarrow> Inr (JBool (truthy v))
     | TJson \<Rightarrow> Inr v
     | TDatetime \<Rightarrow> (case h_date_iso h v of Some s \<Rightarrow> Inr (JStr s)
         | None \<Rightarrow> Inl (CastError (js_typeof v) ''datetime''))
     | TArray _ \<Rightarrow> if is_arr v then Inr v else Inl (CastError (js_typeof v) ''array'')
     | TRecord _ \<Rightarrow> if is_object v \<and> \<not> is_arr v then Inr v else Inl (CastError (js_typeof v) ''record'')
     | TAny \<Rightarrow> Inr v
     | _ \<Rightarrow> Inl (CastError (js_typeof v) (type_kind t)))"

fun evaluate :: "host \<Rightarrow> fnRegistry \<Rightarrow> exprAST \<Rightarrow> scope \<Rightarrow> row option \<Rightarrow> jsval res" where
  "evaluate h reg (Literal v t) sc r = Inr v"
| "evaluate h reg (FieldRef t fld) sc r = evaluateFieldRef t fld sc r"
| "evaluate h reg (VarRef n) sc r = eval_scopeResolve n sc"
| "evaluate h reg (BinaryOp op a b) sc r = bindR (evaluate h reg a sc r) (\<lambda>x.
     bindR (evaluate h reg b sc r) (\<lambda>y. evaluateBinaryOp h op x y))"
| "evaluate h reg (UnaryOp op a) sc r = bindR (evaluate h reg a sc r) (evaluateUnaryOp op)"
| "evaluate h reg (FunctionCall n args) sc r = bindR (fn_get reg n) (\<lambda>d.
     bindR (mapR (\<lambda>e. evaluate h reg e sc r) args) (fn_execute d))"
| "evaluate h reg (Conditional c a b) sc r = bindR (evaluate h reg c sc r) (\<lambda>x.
     if truthy x then evaluate h reg a sc r else evaluate h reg b sc r)"
| "evaluate h reg (Cast e t) sc r = bindR (evaluate h reg e sc r) (\<lambda>x. castValue h x t)"
| "evaluate h reg (IsNull e) sc r = mapRes (\<lambda>x. JBool (x = JNull)) (evaluate h reg e sc r)"
| "evaluate h reg (In e vs) sc r = bindR (evaluate h reg e sc r) (\<lambda>x.
     bindR (mapR (\<lambda>v. evaluate h reg v sc r) vs) (\<lambda>xs. mapRes JBool (js_includes xs x)))"
| "evaluate h reg (Between e lo hi) sc r = bindR (evaluate h reg e sc r) (\<lambda>x.
     bindR (evaluate h reg lo sc r) (\<lambda>l. bindR (evaluate h reg hi sc r) (\<lambda>u.
       Inr (JBool (js_le l x \<and> js_le x u)))))"
| "evaluate h reg (WindowExpr f e p ob) sc r =
     Inl (NotImplementedError ''Window functions require SortOperator context'')"
| "evaluate h reg (SqlExpr s) sc r = Inr (JBool True)"
| "evaluate h reg Wildcard sc r = Inl (NotImplementedError
     ''Wildcard (*) requires SQL backend evaluation - cannot be evaluated in-memory'')"

definition inferBinaryOpType :: "binaryOperator \<Rightarrow> engineType" where
  "inferBinaryOpType op = (if op \<in> {OEq, ONeq, OLt, OGt, OLe, OGe, OAnd, OOr, OLike} then TBoolean
     else if op \<in> {OAdd, OSub, OMul, ODiv, OMod} then TNumber else TString)"

fun inferType :: "fnRegistry \<Rightarrow> exprAST \<Rightarrow> typeScope \<Rightarrow> engineType res" where
  "inferType reg (Literal v t) ts = Inr t"
| "inferType reg (FieldRef t fld) ts = Inr TAny"
| "inferType reg (VarRef n) ts = eval_typeScopeResolve n ts"
| "inferType reg (BinaryOp op a b) ts = bindR (inferType reg a ts) (\<lambda>_.
     bindR (inferType reg b ts) (\<lambda>_. Inr (inferBinaryOpType op)))"
| "inferType reg (UnaryOp op a) ts = Inr (case op of ONot \<Rightarrow> TBoolean | ONeg \<Rightarrow> TNumber)"
| "inferType reg (FunctionCall n args) ts = bindR (fn_get reg n) (\<lambda>d.
     bindR (mapR (\<lambda>e. inferType reg e ts) args) (\<lambda>tys. Inr (fn_inferType d tys)))"
| "inferType reg (Conditional c a b) ts = inferType reg a ts"
| "inferType reg (Cast e t) ts = Inr t"
| "inferType reg (IsNull e) ts = Inr TBoolean"
| "inferType reg (In e vs) ts = Inr TBoolean"
| "inferType reg (Between e lo hi) ts = Inr TBoolean"
| "inferType reg (WindowExpr f e p ob) ts =
     Inl (NotImplementedError ''Window functions require SortOperator context'')"
| "inferType reg (SqlExpr s) ts = Inr TBoolean"
| "inferType reg Wildcard ts = Inl (NotImplementedError
     ''Wildcard (*) requires SQL backend evaluation - cannot be evaluated in-memory'')"

section \<open>Builtin functions\<close>

definition arg_at :: "jsval list \<Rightarrow> nat \<Rightarrow> jsval" where
  "arg_at args i = (if i < length args then args ! i else JUndef)"

fun math_abs :: "jsnum \<Rightarrow> jsnum" where
  "math_abs (Fin q) = Fin \<bar>q\<bar>"
| "math_abs NegZero = Fin 0"
| "math_abs (Inf b) = Inf False"
| "math_abs NaN = NaN"

fun math_floor :: "jsnum \<Rightarrow> jsnum" where
  "math_floor (Fin q) = Fin (of_int \<lfloor>q\<rfloor>)"
| "math_floor n = n"

definition math_ceil :: "jsnum \<Rightarrow> jsnum" where
  "math_ceil n = num_neg (math_floor (num_neg n))"

fun math_round :: "jsnum \<Rightarrow> jsnum" where
  "math_round (Fin q) = (if q < 0 \<and> - 1 / 2 \<le> q then NegZero else Fin (of_int \<lfloor>q + 1 / 2\<rfloor>))"
| "math_round n = n"

definition is_ascii :: "char \<Rightarrow> bool" where
  "is_ascii c \<longleftrightarrow> (of_char c :: nat) < 128"

definition ascii_upper :: "char \<Rightarrow> char" where
  "ascii_upper c = (if 97 \<le> (of_char c :: nat) \<and> (of_char c :: nat) \<le> 122 then char_of (of_char c - 32 :: nat) else c)"

definition ascii_lower :: "char \<Rightarrow> char" where
  "ascii_lower c = (if 65 \<le> (of_char c :: nat) \<and> (of_char c :: nat) \<le> 90 then char_of (of_char c + 32 :: nat) else c)"

definition case_map :: "(char \<Rightarrow> char) \<Rightarrow> string \<Rightarrow> string res" where
  "case_map f s = (if list_all is_ascii s then Inr (map f s) else Inl (Unmodelled ''case mapping beyond ASCII''))"

definition fn_def :: "engineType \<Rightarrow> (nat \<Rightarrow> bool) \<Rightarrow> (jsval list \<Rightarrow> jsval res) \<Rightarrow> fnDef" where
  "fn_def t arity f = \<lparr>fn_inferType = \<lambda>_. t, fn_validate = \<lambda>args. arity (length args), fn_execute = f\<rparr>"

definition fn_round :: "host \<Rightarrow> jsval list \<Rightarrow> jsval res" where
  "fn_round h args = (let d = (let a = arg_at args 1 in if a = JUndef \<or> a = JNull then JNum (Fin 0) else a);
     p = h_pow10 h (js_number d)
     in Inr (JNum (num_div (math_round (num_mul (js_number (arg_at args 0)) p)) p)))"

definition fn_coalesce :: "jsval list \<Rightarrow> jsval res" where
  "fn_coalesce args = Inr (case find (\<lambda>a. a \<noteq> JNull \<and> a \<noteq> JUndef) args of Some v \<Rightarrow> v | None \<Rightarrow> JNull)"

definition fn_date_trunc :: "host \<Rightarrow> jsval list \<Rightarrow> jsval res" where
  "fn_date_trunc h args = (let iso = (case h_date_iso h (arg_at args 1) of
         Some s \<Rightarrow> Inr s | None \<Rightarrow> Inl (PlainError ''Invalid time value''));
       unit = arg_at args 0
     in if unit = JStr ''day'' then mapRes (\<lambda>s. JStr (takeWhile (\<lambda>c. c \<noteq> CHR ''T'') s)) iso
     else if unit = JStr ''month'' then mapRes (\<lambda>s. JStr (take 7 s)) iso
     else if unit = JStr ''year'' then Inr (JStr (num_to_string (h_full_year h (arg_at args 1))))
     else mapRes JStr iso)"

definition builtinFunctions :: "host \<Rightarrow> fnRegistry" where
  "builtinFunctions h =
    [(''ABS'', fn_def TNumber (\<lambda>n. n = 1) (\<lambda>args. Inr (JNum (math_abs (js_number (arg_at args 0)))))),
     (''FLOOR'', fn_def TNumber (\<lambda>n. n = 1) (\<lambda>args. Inr (JNum (math_floor (js_number (arg_at args 0)))))),
     (''CEIL'', fn_def TNumber (\<lambda>n. n = 1) (\<lambda>args. Inr (JNum (math_ceil (js_number (arg_at args 0)))))),
     (''ROUND'', fn_def TNumber (\<lambda>n. 1 \<le> n) (fn_round h)),
     (''SQRT'', fn_def TNumber (\<lambda>n. n = 1) (\<lambda>args. Inr (JNum (h_sqrt h (js_number (arg_at args 0)))))),
     (''UPPER'', fn_def TString (\<lambda>n. n = 1)
       (\<lambda>args. mapRes JStr (case_map ascii_upper (js_string (arg_at args 0))))),
     (''LOWER'', fn_def TString (\<lambda>n. n = 1)
       (\<lambda>args. mapRes JStr (case_map ascii_lower (js_string (arg_at args 0))))),
     (''TRIM'', fn_def TString (\<lambda>n. n = 1) (\<lambda>args. Inr (JStr (str_trim (js_string (arg_at args 0)))))),
     (''LENGTH'', fn_def TNumber (\<lambda>n. n = 1)
       (\<lambda>args. Inr (JNum (Fin (of_nat (length (js_string (arg_at args 0)))))))),
     (''CONCAT'', fn_def TString (\<lambda>n. 2 \<le> n) (\<lambda>args. Inr (JStr (concat (map js_string args))))),
     (''COALESCE'', \<lparr>fn_inferType = \<lambda>tys. (case tys of [] \<Rightarrow> TAny | t # _ \<Rightarrow> t),
        fn_validate = \<lambda>args. 2 \<le> length args, fn_execute = fn_coalesce\<rparr>),
     (''NOW'', fn_def TNumber (\<lambda>_. True) (\<lambda>_. Inr (JNum (h_now h)))),
     (''DATE_TRUNC'', fn_def TString (\<lambda>n. n = 2) (fn_date_trunc h))]"

text \<open>Registering them one after the other on an empty registry never finds a name taken.\<close>

lemma builtins_register:
  "foldl (\<lambda>r (n, d). bindR r (\<lambda>reg. fn_register reg n d)) (Inr []) (builtinFunctions h)
     = Inr (builtinFunctions h)"
  by (simp add: builtinFunctions_def fn_register_def)

section \<open>Removal of references to unknown fields\<close>

text \<open>Operations come from JSON, so their trees hold no row sets and no engine values;
  an array inside an array is treated as an object by the code.\<close>

fun fixExpr :: "string list \<Rightarrow> jsval \<Rightarrow> jsval" and fixVal :: "string list \<Rightarrow> jsval \<Rightarrow> jsval" where
  "fixExpr av (JObj fs) =
     (if row_get fs ''kind'' = JStr ''FieldRef''
      then (if row_get fs ''field'' \<in> JStr ` set av then JObj fs
            else JObj [(''kind'', JStr ''Literal''), (''value'', JNull), (''type'', type_val TString)])
      else JObj (map (\<lambda>(k, v). (k, fixVal av v)) fs))"
| "fixExpr av (JArr vs) = JObj (zip (map (\<lambda>i. int_digits (int i)) [0..<length vs]) (map (fixVal av) vs))"
| "fixExpr av v = v"
| "fixVal av (JArr vs) = JArr (map (fixExpr av) vs)"
| "fixVal av (JObj fs) = fixExpr av (JObj fs)"
| "fixVal av v = v"

definition fixExprFieldRefs :: "jsval \<Rightarrow> string list \<Rightarrow> jsval" where
  "fixExprFieldRefs e av = (if av = [] then e else fixExpr av e)"

definition stripHallucinatedFieldRefs :: "row list \<Rightarrow> string list \<Rightarrow> row list" where
  "stripHallucinatedFieldRefs ops av = (if av = [] then ops else map (\<lambda>op.
     let fix = (\<lambda>k. let v = row_get op k in if truthy v then fixExpr av v else v)
     in row_set ''predicate'' (fix ''predicate'') (row_set ''expr'' (fix ''expr'') op)) ops)"

section \<open>Correctness of inference\<close>

definition has_type :: "jsval \<Rightarrow> engineType \<Rightarrow> bool" where
  "has_type v t \<longleftrightarrow> v = JNull \<or> (case t of
       TString \<Rightarrow> js_typeof v = ''string''
     | TNumber \<Rightarrow> js_typeof v = ''number''
     | TBoolean \<Rightarrow> js_typeof v = ''boolean''
     | TNull \<Rightarrow> False
     | TDatetime \<Rightarrow> js_typeof v = ''string''
     | TArray _ \<Rightarrow> is_arr v
     | TRecord _ \<Rightarrow> is_object v \<and> \<not> is_arr v
     | TRowset _ \<Rightarrow> is_object v \<and> \<not> is_arr v
     | _ \<Rightarrow> True)"

lemma has_type_simps [simp]:
  "has_type (JNum n) TNumber" "has_type (JStr s) TString" "has_type (JBool b) TBoolean"
  "has_type v TAny" "has_type v TJson" "has_type JNull t" "has_type (JStr s) TDatetime"
  by (simp_all add: has_type_def)

text \<open>
  What inference takes on trust: a literal carries its own type, the branches of a
  conditional agree, and the arguments of COALESCE agree.
\<close>

fun well_typed :: "fnRegistry \<Rightarrow> typeScope \<Rightarrow> exprAST \<Rightarrow> bool" where
  "well_typed reg ts (Literal v t) = has_type v t"
| "well_typed reg ts (FunctionCall n args) = (list_all (well_typed reg ts) args \<and>
     (n = ''COALESCE'' \<longrightarrow> (case mapR (\<lambda>e. inferType reg e ts) args of
        Inl _ \<Rightarrow> True | Inr tys \<Rightarrow> list_all (\<lambda>t. t = hd tys) tys)))"
| "well_typed reg ts (Conditional c a b) = (well_typed reg ts a \<and> well_typed reg ts b \<and>
     inferType reg a ts = inferType reg b ts)"
| "well_typed reg ts _ = True"

lemma evaluateBinaryOp_type: "evaluateBinaryOp h op x y = Inr v \<Longrightarrow> has_type v (inferBinaryOpType op)"
  by (cases op) (auto simp: evaluateBinaryOp_def inferBinaryOpType_def evaluateArithmetic_def
      evaluateLogical_def evaluateLike_def evaluateConcat_def result_simps split: jsval.splits if_splits)

lemma evaluateUnaryOp_type:
  "evaluateUnaryOp op x = Inr v \<Longrightarrow> has_type v (case op of ONot \<Rightarrow> TBoolean | ONeg \<Rightarrow> TNumber)"
  by (cases op) (auto split: jsval.splits)

lemma castValue_type: "castValue h x t = Inr v \<Longrightarrow> has_type v t"
  by (cases t) (auto simp: castValue_def has_type_def split: if_splits option.splits)

lemma fn_coalesce_type:
  assumes "list_all2 has_type args tys" "list_all (\<lambda>t. t = hd tys) tys" "fn_coalesce args = Inr v"
  shows "has_type v (case tys of [] \<Rightarrow> TAny | t # _ \<Rightarrow> t)"
proof (cases "find (\<lambda>a. a \<noteq> JNull \<and> a \<noteq> JUndef) args")
  case (Some a)
  then obtain i where i: "i < length args" "args ! i = a" by (auto simp: find_Some_iff)
  with assms(1) have "has_type a (tys ! i)" "i < length tys" by (auto simp: list_all2_conv_all_nth)
  moreover have "tys ! i = hd tys" using assms(2) \<open>i < length tys\<close> by (simp add: list_all_length)
  ultimately show ?thesis using assms(3) Some by (cases tys) (auto simp: fn_coalesce_def)
qed (use assms(3) in \<open>simp add: fn_coalesce_def\<close>)

lemma builtin_type:
  assumes "fn_get (builtinFunctions h) n = Inr d" and "list_all2 has_type args tys"
    and "n = ''COALESCE'' \<Longrightarrow> list_all (\<lambda>t. t = hd tys) tys" and "fn_execute d args = Inr v"
  shows "has_type v (fn_inferType d tys)"
proof (cases "n = ''COALESCE''")
  case True
  with assms(1) have "d = \<lparr>fn_inferType = \<lambda>tys. (case tys of [] \<Rightarrow> TAny | t # _ \<Rightarrow> t),
        fn_validate = \<lambda>args. 2 \<le> length args, fn_execute = fn_coalesce\<rparr>"
    by (simp add: builtinFunctions_def fn_get_def)
  with True fn_coalesce_type [of args tys v] assms show ?thesis by simp
next
  case False
  with assms(1,4) show ?thesis
    by (auto simp: builtinFunctions_def fn_get_def fn_def_def fn_round_def fn_date_trunc_def Let_def
        result_simps split: if_splits option.splits)
qed


definition no_host :: host where
  "no_host = \<lparr>h_regex = \<lambda>_ _. Inl (Unmodelled ''regex''), h_date_iso = \<lambda>_. None, h_full_year = \<lambda>_. NaN,
     h_now = Fin 0, h_sqrt = \<lambda>_. NaN, h_pow10 = \<lambda>_. Fin 1\<rparr>"


section \<open>Correctness of LIKE and of the sanitizer\<close>

lemma like_match_literal:
  "\<forall>c\<in>set p. c \<noteq> CHR ''%'' \<Longrightarrow> like_match (p @ [CHR ''%'']) s \<longleftrightarrow>
     (\<exists>b. s = p @ b \<and> (\<forall>d\<in>set b. \<not> line_terminator d))"
proof (induction p arbitrary: s)
  case Nil
  show ?case by (induction s) auto
qed (auto split: list.splits)

lemma like_match_percent:
  "like_match (CHR ''%'' # p) s \<longleftrightarrow> (\<exists>a b. s = a @ b \<and> (\<forall>d\<in>set a. \<not> line_terminator d) \<and> like_match p b)"
proof (induction s)
  case (Cons d s)
  show ?case (is "?L = ?R")
  proof
    assume ?L
    then consider "like_match p (d # s)" | "\<not> line_terminator d" "like_match (CHR ''%'' # p) s" by auto
    then show ?R
    proof cases
      case 2
      with Cons obtain a b where "s = a @ b" "\<forall>d\<in>set a. \<not> line_terminator d" "like_match p b" by auto
      with 2 have "d # s = (d # a) @ b \<and> (\<forall>e\<in>set (d # a). \<not> line_terminator e) \<and> like_match p b" by simp
      then show ?thesis by blast
    qed force
  next
    assume ?R
    then obtain a b where ab: "d # s = a @ b" "\<forall>d\<in>set a. \<not> line_terminator d" "like_match p b" by blast
    with Cons show ?L by (cases a) auto
  qed
qed auto

text \<open>
  a pattern \<open>%p%\<close> whose middle is plain text is a substring test on single-line
  strings, and a pattern without \<open>%\<close> is equality.
\<close>

theorem evaluateLike_substring:
  assumes "\<forall>c\<in>set p. c \<noteq> CHR ''%'' \<and> \<not> regex_special c" and "\<forall>d\<in>set s. \<not> line_terminator d"
  shows "evaluateLike h (JStr s) (JStr (''%'' @ p @ ''%'')) = Inr (JBool (sublist p s)) \<and>
    evaluateLike h (JStr s) (JStr p) = Inr (JBool (s = p))"
proof -
  have "like_match (CHR ''%'' # p @ [CHR ''%'']) s \<longleftrightarrow> (\<exists>a b. s = a @ p @ b)"
  proof -
    have "like_match (p @ [CHR ''%'']) b \<longleftrightarrow> (\<exists>c. b = p @ c \<and> (\<forall>d\<in>set c. \<not> line_terminator d))" for b
      using like_match_literal assms(1) by blast
    then show ?thesis using assms(2) unfolding like_match_percent by (simp; fastforce)
  qed
  then have "like_match (CHR ''%'' # p @ [CHR ''%'']) s \<longleftrightarrow> sublist p s" by (simp add: sublist_def)
  moreover have "like_match p s \<longleftrightarrow> s = p"
    using assms(1) by (induction p arbitrary: s) (auto split: list.splits)
  moreover have "\<not> list_ex regex_special (''%'' @ p @ ''%'')" "\<not> list_ex regex_special p"
    using assms(1) by (auto simp: list_ex_iff regex_special_def)
  ultimately show ?thesis by (simp add: evaluateLike_def)
qed

theorem evaluateLike_substring_witness:
  "evaluateLike no_host (JStr ''Acme Corp'') (JStr ''%me C%'') = Inr (JBool True)"
  using evaluateLike_substring [of "''me C''" "''Acme Corp''" no_host]
  by (simp add: regex_special_def line_terminator_def sublist_code)

text \<open>The references a tree holds, and the trees with no array directly in an array.\<close>

fun refs_in :: "jsval \<Rightarrow> jsval list" where
  "refs_in (JObj fs) = (if row_get fs ''kind'' = JStr ''FieldRef'' then [row_get fs ''field'']
     else concat (map (\<lambda>(k, v). refs_in v) fs))"
| "refs_in (JArr vs) = concat (map refs_in vs)"
| "refs_in _ = []"

fun flat_arrays :: "jsval \<Rightarrow> bool" where
  "flat_arrays (JObj fs) = (\<forall>v \<in> snd ` set fs. flat_arrays v)"
| "flat_arrays (JArr vs) = (\<forall>v \<in> set vs. \<not> is_arr v \<and> flat_arrays v)"
| "flat_arrays _ = True"

lemma row_get_map_val:
  "row_get (map (\<lambda>(k, v). (k, f v)) fs) k = (case map_of fs k of None \<Rightarrow> JUndef | Some v \<Rightarrow> f v)"
  by (simp add: row_get_def map_of_map split: option.splits)

lemma fixVal_str: "fixVal av v = JStr s \<longleftrightarrow> v = JStr s"
  by (cases v) auto

lemma kind_fixVal:
  "row_get (map (\<lambda>(k, v). (k, fixVal av v)) fs) ''kind'' = JStr ''FieldRef''
     \<longleftrightarrow> row_get fs ''kind'' = JStr ''FieldRef''"
  unfolding row_get_map_val by (auto simp: row_get_def fixVal_str split: option.splits)

lemma digit_char:
  assumes "0 \<le> k" "k \<le> 9"
  shows "is_digit (char_of (48 + k :: int))"
proof -
  have "int (of_char (char_of (48 + k))) = 48 + k"
    using assms by (simp add: of_nat_of_char)
  then show ?thesis using assms by (simp add: is_digit_def)
qed

lemma int_digits_last: "0 \<le> n \<Longrightarrow> int_digits n \<noteq> [] \<and> is_digit (last (int_digits n))"
  using digit_char [of n] digit_char [of "n mod 10"] by (subst (1 2) int_digits.simps) auto

lemma kind_zip_index: "row_get (zip (map (\<lambda>i. int_digits (int i)) [0..<n]) vs) ''kind'' = JUndef"
proof -
  have "int_digits (int i) \<noteq> ''kind''" for i
    using int_digits_last [of "int i"] by (auto simp: is_digit_def)
  then have "''kind'' \<notin> (\<lambda>i. int_digits (int i)) ` {0..<n}" by (metis imageE)
  then have "''kind'' \<notin> fst ` set (zip (map (\<lambda>i. int_digits (int i)) [0..<n]) vs)"
    by (auto dest!: set_zip_leftD)
  then show ?thesis by (simp add: row_get_def map_of_eq_None_iff [THEN iffD2])
qed

lemma fixExpr_not_arr [simp]: "fixExpr av v \<noteq> JArr vs"
  by (cases v) auto

lemma refs_fixExpr:
  "set (refs_in (fixExpr av v)) \<subseteq> JStr ` set av"
  "set (refs_in (fixVal av v)) \<subseteq> JStr ` set av"
proof (induction av v and av v rule: fixExpr_fixVal.induct)
  case (1 av fs)
  show ?case
  proof (cases "row_get fs ''kind'' = JStr ''FieldRef''")
    case False
    have "set (refs_in (fixVal av v)) \<subseteq> JStr ` set av" if "(k, v) \<in> set fs" for k v
      using 1 [OF False that] by blast
    with False show ?thesis by (fastforce simp: kind_fixVal)
  qed auto
next
  case (2 av vs)
  then show ?case by (fastforce simp: kind_zip_index dest!: set_zip_rightD)
qed auto

lemma fixExpr_idem:
  "fixExpr av (fixExpr av v) = fixExpr av v"
  "fixVal av (fixVal av v) = fixVal av v"
proof (induction av v and av v rule: fixExpr_fixVal.induct)
  case (1 av fs)
  show ?case
  proof (cases "row_get fs ''kind'' = JStr ''FieldRef''")
    case False
    have "fixVal av (fixVal av v) = fixVal av v" if "(k, v) \<in> set fs" for k v
      using 1 [OF False that] by blast
    with False show ?thesis by (simp add: kind_fixVal) force
  qed auto
next
  case (2 av vs)
  then show ?case
    by (simp add: kind_zip_index) (auto simp: zip_map2 comp_def dest!: set_zip_rightD)
qed auto

lemma fixExpr_clean:
  "flat_arrays v \<Longrightarrow> set (refs_in v) \<subseteq> JStr ` set av \<Longrightarrow> \<not> is_arr v \<Longrightarrow> fixExpr av v = v"
  "flat_arrays v \<Longrightarrow> set (refs_in v) \<subseteq> JStr ` set av \<Longrightarrow> fixVal av v = v"
proof (induction av v and av v rule: fixExpr_fixVal.induct)
  case (1 av fs)
  show ?case
  proof (cases "row_get fs ''kind'' = JStr ''FieldRef''")
    case False
    have "fixVal av v = v" if "(k, v) \<in> set fs" for k v
      using 1(1) [OF False that] 1(2,3) False that by fastforce
    with False show ?thesis by (auto intro!: map_idI)
  qed (use 1(3) in auto)
next
  case (4 av vs)
  have "fixExpr av v = v" if "v \<in> set vs" for v
    using 4(1) [OF that] 4(2,3) that by auto
  then show ?case by (simp add: map_idI)
next
  case (5 av fs)
  then show ?case by (simp add: is_arr_def del: fixExpr.simps)
qed (auto simp: is_arr_def)

text \<open>
  after the pass every field reference of the tree names an available field; running it
  again changes nothing, and a tree without unknown references (and without an array
  directly inside an array) is returned as it is.
\<close>

theorem fixExprFieldRefs_correct:
  assumes "av \<noteq> []"
  shows "set (refs_in (fixExprFieldRefs e av)) \<subseteq> JStr ` set av \<and>
    fixExprFieldRefs (fixExprFieldRefs e av) av = fixExprFieldRefs e av \<and>
    (flat_arrays e \<and> \<not> is_arr e \<and> set (refs_in e) \<subseteq> JStr ` set av \<longrightarrow> fixExprFieldRefs e av = e)"
  using assms by (simp add: fixExprFieldRefs_def refs_fixExpr fixExpr_idem fixExpr_clean)

theorem fixExprFieldRefs_correct_witness:
  "refs_in (fixExprFieldRefs (JObj [(''kind'', JStr ''IsNull''),
      (''expr'', JObj [(''kind'', JStr ''FieldRef''), (''field'', JStr ''ghost'')])]) [''name'']) = []"
  using fixExprFieldRefs_correct [of "[''name'']" "JObj [(''kind'', JStr ''IsNull''),
      (''expr'', JObj [(''kind'', JStr ''FieldRef''), (''field'', JStr ''ghost'')])]"]
  by (simp add: fixExprFieldRefs_def row_get_def)

end
