(* ===== verification/Graphs.thy ===== *)
theory Graphs
  imports Scopes
begin

text \<open>
  \<open>src/src/core/graph/\<close> (nodes, edges, graphs and their JSON form), the execution state of
  \<open>scheduler/types.ts\<close> and the graph analyses of \<open>scheduler/graph-utils.ts\<close>:
  topological order, control paths, inactive branches, readiness, inputs and validation.

  The payload type of a node is a parameter, since no analysis reads a payload.
\<close>

section \<open>Graphs\<close>

datatype errorPolicyKind = OnFail | OnSkip | OnRetry | OnFallback

record errorPolicy =
  onError :: errorPolicyKind
  maxRetries :: "int option"
  retryDelayMs :: "int option"
  fallbackNodeId :: "string option"

record 'p node =
  n_id :: string
  n_kind :: string
  n_label :: "string option"
  n_payload :: 'p
  n_errorPolicy :: errorPolicy

datatype edgeKind = EkData | EkControl

datatype controlCondition = CondTrue | CondFalse | CondAlways | CondError

record edge =
  e_id :: string
  e_from :: string
  e_to :: string
  e_kind :: edgeKind
  e_outputKey :: "string option"
  e_inputKey :: "string option"
  e_dataType :: "dataType option"
  e_condition :: "controlCondition option"

record 'p graph =
  g_id :: string
  g_version :: int
  g_nodes :: "(string \<times> 'p node) list"
  g_edges :: "(string \<times> edge) list"
  entryNode :: string
  exitNodes :: "string list"
  g_metadata :: jsval

definition edges_of :: "'p graph \<Rightarrow> edge list" where
  "edges_of g = map snd (g_edges g)"

definition node_ids :: "'p graph \<Rightarrow> string list" where
  "node_ids g = map fst (g_nodes g)"

text \<open>A graph built from JavaScript maps has no two entries with the same id.\<close>

definition wf_graph :: "'p graph \<Rightarrow> bool" where
  "wf_graph g \<longleftrightarrow> distinct (map fst (g_nodes g)) \<and> distinct (map fst (g_edges g))"

section \<open>JSON form\<close>

text \<open>The JSON form holds the two maps as objects, so ids that are array indices come first.\<close>

record 'p graphJSON =
  gj_id :: string
  gj_version :: int
  gj_nodes :: "(string \<times> 'p node) list"
  gj_edges :: "(string \<times> edge) list"
  gj_entryNode :: string
  gj_exitNodes :: "string list"
  gj_metadata :: jsval

definition fromEntries :: "(string \<times> 'v) list \<Rightarrow> (string \<times> 'v) list" where
  "fromEntries es = row_assign [] es"

definition newMap :: "(string \<times> 'v) list \<Rightarrow> (string \<times> 'v) list" where
  "newMap es = foldl (\<lambda>m (k, v). al_set k v m) [] es"

definition serializeGraph :: "'p graph \<Rightarrow> 'p graphJSON" where
  "serializeGraph g = \<lparr>gj_id = g_id g, gj_version = g_version g, gj_nodes = fromEntries (g_nodes g),
     gj_edges = fromEntries (g_edges g), gj_entryNode = entryNode g, gj_exitNodes = exitNodes g,
     gj_metadata = g_metadata g\<rparr>"

definition deserializeGraph :: "'p graphJSON \<Rightarrow> 'p graph" where
  "deserializeGraph j = \<lparr>g_id = gj_id j, g_version = gj_version j, g_nodes = newMap (gj_nodes j),
     g_edges = newMap (gj_edges j), entryNode = gj_entryNode j, exitNodes = gj_exitNodes j,
     g_metadata = gj_metadata j\<rparr>"

section \<open>Execution state\<close>

datatype nodeStatus = Pending | Running | Completed | Failed | Skipped

record nodeState =
  nx_status :: nodeStatus
  nx_startedAt :: "int option"
  nx_completedAt :: "int option"
  nx_output :: "dataValue option"
  nx_error :: "js_error option"
  nx_retryCount :: int

definition pending_state :: nodeState where
  "pending_state = \<lparr>nx_status = Pending, nx_startedAt = None, nx_completedAt = None, nx_output = None,
     nx_error = None, nx_retryCount = 0\<rparr>"

record 'p execState =
  es_graph :: "'p graph"
  es_nodeStates :: "(string \<times> nodeState) list"
  es_ctx :: execContext
  es_activated :: "string list"
  es_deactivated :: "string list"

section \<open>Topological sort\<close>

definition is_data :: "edge \<Rightarrow> bool" where
  "is_data e \<longleftrightarrow> e_kind e = EkData"

definition arrow :: "edge \<Rightarrow> string \<times> string" where
  "arrow e = (e_from e, e_to e)"

definition data_arrows :: "'p graph \<Rightarrow> (string \<times> string) list" where
  "data_arrows g = map arrow (filter is_data (edges_of g))"

definition all_arrows :: "'p graph \<Rightarrow> (string \<times> string) list" where
  "all_arrows g = map arrow (edges_of g)"

type_synonym degrees = "(string \<times> int) list"

definition deg :: "degrees \<Rightarrow> string \<Rightarrow> int" where
  "deg d n = (case map_of d n of None \<Rightarrow> 0 | Some k \<Rightarrow> k)"

definition inDegree :: "string list \<Rightarrow> (string \<times> string) list \<Rightarrow> degrees" where
  "inDegree ns es = foldl (\<lambda>d e. al_set (snd e) (deg d (snd e) + 1) d) (foldl (\<lambda>d n. al_set n 0 d) [] ns) es"

fun relax :: "string list \<Rightarrow> degrees \<Rightarrow> string list \<Rightarrow> degrees \<times> string list" where
  "relax [] d q = (d, q)"
| "relax (t # ts) d q = (let k = deg d t - 1 in relax ts (al_set t k d) (if k = 0 then q @ [t] else q))"

lemma relax_queue: "set q \<subseteq> set (snd (relax ts d q)) \<and> set (snd (relax ts d q)) \<subseteq> set q \<union> set ts"
  by (induction ts d q rule: relax.induct) (auto simp: Let_def)

function kahn :: "(string \<times> string) list \<Rightarrow> string list \<Rightarrow> degrees \<Rightarrow> string list \<Rightarrow> string list" where
  "kahn es [] d result = result"
| "kahn es (n # queue) d result =
     (if n \<in> set result then kahn es queue d result
      else kahn es (snd (relax (targets es n) d queue)) (fst (relax (targets es n) d queue)) (result @ [n]))"
  by pat_completeness auto
termination
proof (relation "measures [\<lambda>(es, q, d, v). bfs_pending es q v, \<lambda>(es, q, d, v). length q]")
  fix es n queue d result
  show "((es, queue, d, result), es, n # queue, d, result)
    \<in> measures [\<lambda>(es, q, d, v). bfs_pending es q v, \<lambda>(es, q, d, v). length q]"
    using bfs_pending_skip [of es queue result n] by auto
next
  fix es n queue d and result :: "string list"
  assume "n \<notin> set result"
  moreover have "bfs_pending es (snd (relax (targets es n) d queue)) (result @ [n])
      \<le> bfs_pending es (queue @ targets es n) (result @ [n])"
    unfolding bfs_pending_def using relax_queue [of queue "targets es n" d]
    by (intro card_mono) (auto simp del: set_targets)
  ultimately show "((es, snd (relax (targets es n) d queue), fst (relax (targets es n) d queue), result @ [n]),
      es, n # queue, d, result) \<in> measures [\<lambda>(es, q, d, v). bfs_pending es q v, \<lambda>(es, q, d, v). length q]"
    using bfs_pending_visit [of n result es queue] by auto
qed simp

definition topologicalSort :: "'p graph \<Rightarrow> string list res" where
  "topologicalSort g = (let es = data_arrows g; d = inDegree (node_ids g) es;
       result = kahn es (map fst (filter (\<lambda>p. snd p = 0) d)) d []
     in if length result \<noteq> length (node_ids g)
        then Inl (CycleDetectedError (filter (\<lambda>n. n \<notin> set result) (node_ids g)))
        else Inr result)"

section \<open>Edges and control paths\<close>

definition getIncomingDataEdges :: "'p graph \<Rightarrow> string \<Rightarrow> edge list" where
  "getIncomingDataEdges g n = filter (\<lambda>e. e_to e = n \<and> e_kind e = EkData) (edges_of g)"

definition getOutgoingDataEdges :: "'p graph \<Rightarrow> string \<Rightarrow> edge list" where
  "getOutgoingDataEdges g n = filter (\<lambda>e. e_from e = n \<and> e_kind e = EkData) (edges_of g)"

definition getOutgoingControlEdges :: "'p graph \<Rightarrow> string \<Rightarrow> edge list" where
  "getOutgoingControlEdges g n = filter (\<lambda>e. e_from e = n \<and> e_kind e = EkControl) (edges_of g)"

definition getIncomingControlEdges :: "'p graph \<Rightarrow> string \<Rightarrow> edge list" where
  "getIncomingControlEdges g n = filter (\<lambda>e. e_to e = n \<and> e_kind e = EkControl) (edges_of g)"

definition isControlPathActive :: "string \<Rightarrow> 'p graph \<Rightarrow> ('p, 'x) execState_scheme \<Rightarrow> bool" where
  "isControlPathActive n g st = (let es = getIncomingControlEdges g n in
     if es = [] then True
     else if list_all (\<lambda>e. e_id e \<in> set (es_deactivated st)) es then False
     else if list_ex (\<lambda>e. e_id e \<in> set (es_activated st)) es then True
     else True)"

definition shouldSkipNode :: "string \<Rightarrow> 'p graph \<Rightarrow> ('p, 'x) execState_scheme \<Rightarrow> bool" where
  "shouldSkipNode n g st \<longleftrightarrow> \<not> isControlPathActive n g st"

definition activateEdge :: "('p, 'x) execState_scheme \<Rightarrow> string \<Rightarrow> ('p, 'x) execState_scheme" where
  "activateEdge st e = st\<lparr>es_activated := List.insert e (es_activated st)\<rparr>"

definition deactivateEdge :: "('p, 'x) execState_scheme \<Rightarrow> string \<Rightarrow> ('p, 'x) execState_scheme" where
  "deactivateEdge st e = st\<lparr>es_deactivated := List.insert e (es_deactivated st)\<rparr>"

definition spreads :: "'p graph \<Rightarrow> string \<Rightarrow> bool" where
  "spreads g n \<longleftrightarrow> (case map_of (g_nodes g) n of None \<Rightarrow> False | Some nd \<Rightarrow> n_kind nd \<noteq> ''merge'')"

definition getNodesOnInactiveBranches :: "'p graph \<Rightarrow> string \<Rightarrow> ('p, 'x) execState_scheme \<Rightarrow> string list" where
  "getNodesOnInactiveBranches g c st = bfs (spreads g) (all_arrows g)
     (map e_to (filter (\<lambda>e. e_id e \<in> set (es_deactivated st)) (getOutgoingControlEdges g c))) []"

definition isReadyToExecute :: "string \<Rightarrow> ('p, 'x) execState_scheme \<Rightarrow> bool" where
  "isReadyToExecute n st = (case map_of (es_nodeStates st) n of
       None \<Rightarrow> False
     | Some s \<Rightarrow> nx_status s = Pending \<and>
         list_all (\<lambda>e. case map_of (es_nodeStates st) (e_from e) of
             None \<Rightarrow> False | Some s' \<Rightarrow> nx_status s' = Completed) (getIncomingDataEdges (es_graph st) n) \<and>
         isControlPathActive n (es_graph st) st)"

definition key_or :: "string option \<Rightarrow> string \<Rightarrow> string" where
  "key_or k d = (case k of None \<Rightarrow> d | Some s \<Rightarrow> if s = [] then d else s)"

definition slice_output :: "edge \<Rightarrow> dataValue \<Rightarrow> dataValue res" where
  "slice_output e v = (case (e_outputKey e, v) of
       (Some k, DRecord d s) \<Rightarrow> if k \<noteq> [] \<and> al_has k d then wrapLegacyValue (row_get d k) else Inr v
     | _ \<Rightarrow> Inr v)"

fun node_inputs :: "edge list \<Rightarrow> (string \<times> nodeState) list \<Rightarrow> (string \<times> dataValue) list \<Rightarrow>
    (string \<times> dataValue) list res" where
  "node_inputs [] states acc = Inr acc"
| "node_inputs (e # es) states acc = (case map_of states (e_from e) of
      None \<Rightarrow> node_inputs es states acc
    | Some s \<Rightarrow> (case nx_output s of
        None \<Rightarrow> node_inputs es states acc
      | Some v \<Rightarrow> bindR (slice_output e v) (\<lambda>v'.
          node_inputs es states (row_set (key_or (e_inputKey e) ''input'') v' acc))))"

definition getNodeInputs :: "string \<Rightarrow> 'p graph \<Rightarrow> ('p, 'x) execState_scheme \<Rightarrow> (string \<times> dataValue) list res" where
  "getNodeInputs n g st = node_inputs (getIncomingDataEdges g n) (es_nodeStates st) []"

section \<open>Validation\<close>

datatype validationError =
    CYCLE_DETECTED "string list"
  | CYCLE_DETECTION_FAILED
  | ENTRY_NODE_MISSING string
  | ENTRY_NODE_HAS_INPUTS string
  | EXIT_NODE_MISSING string
  | EXIT_NODE_HAS_OUTPUTS
  | EDGE_SOURCE_INVALID string string
  | EDGE_TARGET_INVALID string string
  | ORPHANED_NODE string
  | UNKNOWN_NODE_KIND string string

definition guardE :: "bool \<Rightarrow> validationError \<Rightarrow> validationError list" where
  "guardE b e = (if b then [e] else [])"

definition validateGraph :: "'p graph \<Rightarrow> string list option \<Rightarrow> validationError list" where
  "validateGraph g kinds =
     (case topologicalSort g of
        Inl (CycleDetectedError c) \<Rightarrow> [CYCLE_DETECTED c] | Inl _ \<Rightarrow> [CYCLE_DETECTION_FAILED] | Inr _ \<Rightarrow> []) @
     guardE (\<not> al_has (entryNode g) (g_nodes g)) (ENTRY_NODE_MISSING (entryNode g)) @
     guardE (getIncomingDataEdges g (entryNode g) \<noteq> []) (ENTRY_NODE_HAS_INPUTS (entryNode g)) @
     concat (map (\<lambda>x. guardE (\<not> al_has x (g_nodes g)) (EXIT_NODE_MISSING x)) (exitNodes g)) @
     guardE (al_has ''_output'' (g_nodes g) \<and> getOutgoingDataEdges g ''_output'' \<noteq> []) EXIT_NODE_HAS_OUTPUTS @
     concat (map (\<lambda>(i, e). guardE (\<not> al_has (e_from e) (g_nodes g)) (EDGE_SOURCE_INVALID i (e_from e)) @
         guardE (\<not> al_has (e_to e) (g_nodes g)) (EDGE_TARGET_INVALID i (e_to e))) (g_edges g)) @
     concat (map (\<lambda>(i, nd). guardE (i \<noteq> entryNode g \<and> filter (\<lambda>e. e_to e = i) (edges_of g) = [])
         (ORPHANED_NODE i)) (g_nodes g)) @
     (case kinds of None \<Rightarrow> [] | Some ks \<Rightarrow> concat (map (\<lambda>(i, nd).
         guardE (n_kind nd \<notin> set ks) (UNKNOWN_NODE_KIND i (n_kind nd))) (g_nodes g)))"

section \<open>Correctness of the topological sort\<close>

lemma deg_al_set [simp]: "deg (al_set n k d) m = (if m = n then k else deg d m)"
  by (simp add: deg_def)

lemma relax_degrees: "deg (fst (relax ts d q)) v = deg d v - int (count_list ts v)"
  by (induction ts d q rule: relax.induct) (auto simp: Let_def)

lemma relax_zero:
  assumes "\<And>v. int (count_list ts v) \<le> deg d v"
  shows "set (snd (relax ts d q)) = set q \<union> {v \<in> set ts. deg (fst (relax ts d q)) v = 0}"
  using assms
proof (induction ts d q rule: relax.induct)
  case (2 t ts d q)
  let ?k = "deg d t - 1"
  have le: "int (count_list ts v) \<le> deg (al_set t ?k d) v" for v
    using 2(2) [of v] by (auto split: if_splits)
  note IH = 2(1) [OF refl le]
  have "?k = 0 \<Longrightarrow> count_list ts t = 0" using 2(2) [of t] by simp
  moreover have "t \<notin> set ts \<Longrightarrow> count_list ts t = 0" by (simp add: count_list_0_iff)
  ultimately show ?case
    using IH by (auto simp: Let_def relax_degrees)
qed simp

text \<open>The number of edges into a node whose source is not yet in the result.\<close>

definition unmet :: "(string \<times> string) list \<Rightarrow> string set \<Rightarrow> string \<Rightarrow> nat" where
  "unmet es done v = length (filter (\<lambda>e. snd e = v \<and> fst e \<notin> done) es)"

lemma unmet_visit:
  "n \<notin> done \<Longrightarrow> unmet es done v = unmet es (insert n done) v + count_list (targets es n) v"
  by (induction es) (auto simp: unmet_def targets_def)

lemma unmet_zero: "unmet es done v = 0 \<longleftrightarrow> (\<forall>u. (u, v) \<in> set es \<longrightarrow> u \<in> done)"
  by (auto simp: unmet_def filter_empty_conv)

definition ordered_by :: "(string \<times> string) list \<Rightarrow> string list \<Rightarrow> bool" where
  "ordered_by es xs \<longleftrightarrow> (\<forall>ys b zs a. xs = ys @ b # zs \<and> (a, b) \<in> set es \<longrightarrow> a \<in> set ys)"

lemma ordered_by_snoc:
  "ordered_by es (xs @ [x]) \<longleftrightarrow> ordered_by es xs \<and> (\<forall>a. (a, x) \<in> set es \<longrightarrow> a \<in> set xs)"
proof
  assume L: "ordered_by es (xs @ [x])"
  have "ordered_by es xs"
    unfolding ordered_by_def
  proof (intro allI impI, elim conjE)
    fix ys b zs a assume "xs = ys @ b # zs" "(a, b) \<in> set es"
    then have "xs @ [x] = ys @ b # (zs @ [x])" by simp
    with L \<open>(a, b) \<in> set es\<close> show "a \<in> set ys" unfolding ordered_by_def by blast
  qed
  with L show "ordered_by es xs \<and> (\<forall>a. (a, x) \<in> set es \<longrightarrow> a \<in> set xs)"
    unfolding ordered_by_def by blast
next
  assume R: "ordered_by es xs \<and> (\<forall>a. (a, x) \<in> set es \<longrightarrow> a \<in> set xs)"
  show "ordered_by es (xs @ [x])"
    unfolding ordered_by_def
  proof (intro allI impI, elim conjE)
    fix ys b zs a assume *: "xs @ [x] = ys @ b # zs" "(a, b) \<in> set es"
    with R show "a \<in> set ys" by (cases zs rule: rev_cases) (auto simp: ordered_by_def)
  qed
qed

definition kahn_inv :: "(string \<times> string) list \<Rightarrow> string set \<Rightarrow> string list \<Rightarrow> degrees \<Rightarrow> string list \<Rightarrow> bool" where
  "kahn_inv es V q d result \<longleftrightarrow>
     (\<forall>v. deg d v = int (unmet es (set result) v)) \<and>
     set q \<union> set result = {v \<in> V. unmet es (set result) v = 0} \<and>
     distinct result \<and> ordered_by es result"

lemma kahn_inv_visit:
  assumes inv: "kahn_inv es V (n # q) d result" and n: "n \<notin> set result" and V: "snd ` set es \<subseteq> V"
  shows "kahn_inv es V (snd (relax (targets es n) d q)) (fst (relax (targets es n) d q)) (result @ [n])"
proof -
  let ?ts = "targets es n" and ?R = "insert n (set result)"
  have un: "unmet es (set result) v = unmet es ?R v + count_list ?ts v" for v
    using unmet_visit [OF n] .
  have d: "deg (fst (relax ?ts d q)) v = int (unmet es ?R v)" for v
    using inv un [of v] by (simp add: kahn_inv_def relax_degrees)
  have le: "int (count_list ?ts v) \<le> deg d v" for v
    using inv un [of v] by (simp add: kahn_inv_def)
  have n0: "n \<in> V" "unmet es (set result) n = 0" using inv by (auto simp: kahn_inv_def)
  have q: "set (snd (relax ?ts d q)) = set q \<union> {v \<in> set ?ts. unmet es ?R v = 0}"
    unfolding relax_zero [of ?ts d, OF le] using d by simp
  have "set (snd (relax ?ts d q)) \<union> ?R = {v \<in> V. unmet es ?R v = 0}"
  proof (intro equalityI subsetI)
    fix v assume "v \<in> {v \<in> V. unmet es ?R v = 0}"
    then have v: "v \<in> V" "unmet es ?R v = 0" by auto
    show "v \<in> set (snd (relax ?ts d q)) \<union> ?R"
    proof (cases "v \<in> set ?ts")
      case False
      then have "unmet es (set result) v = 0" using un [of v] v by (simp add: count_list_0_iff)
      with v inv q show ?thesis by (auto simp: kahn_inv_def)
    qed (use v q in auto)
  next
    fix v assume v: "v \<in> set (snd (relax ?ts d q)) \<union> ?R"
    show "v \<in> {v \<in> V. unmet es ?R v = 0}"
    proof (cases "v \<in> set (n # q) \<union> set result")
      case True
      then have "v \<in> V" "unmet es (set result) v = 0" using inv by (auto simp: kahn_inv_def)
      with un [of v] show ?thesis by simp
    next
      case False
      with v q have "v \<in> set ?ts" "unmet es ?R v = 0" by auto
      moreover have "v \<in> V" using \<open>v \<in> set ?ts\<close> V by force
      ultimately show ?thesis by simp
    qed
  qed
  moreover have "ordered_by es (result @ [n])"
    using inv n0 by (auto simp: kahn_inv_def ordered_by_snoc unmet_zero)
  ultimately show ?thesis using inv d n by (simp add: kahn_inv_def)
qed

lemma kahn_correct:
  assumes "kahn_inv es V q d result" and "snd ` set es \<subseteq> V"
  shows "\<exists>d'. kahn_inv es V [] d' (kahn es q d result)"
  using assms
proof (induction es q d result rule: kahn.induct)
  case (2 es n q d result)
  show ?case
  proof (cases "n \<in> set result")
    case True
    then have "kahn_inv es V q d result" using 2(3) by (auto simp: kahn_inv_def)
    with 2(1) [OF True _ 2(4)] True show ?thesis by auto
  next
    case False
    with 2(2) [OF False kahn_inv_visit [OF 2(3) False 2(4)] 2(4)] show ?thesis by auto
  qed
qed auto

lemma deg_inDegree: "deg (inDegree ns es) v = int (length (filter (\<lambda>e. snd e = v) es))"
proof -
  have "deg (foldl (\<lambda>d e. al_set (snd e) (deg d (snd e) + 1) d) d0 es) v
      = deg d0 v + int (length (filter (\<lambda>e. snd e = v) es))" for d0 :: degrees
    by (induction es arbitrary: d0) auto
  moreover have "deg (foldl (\<lambda>d n. al_set n 0 d) d0 ns) v = (if v \<in> set ns then 0 else deg d0 v)" for d0 :: degrees
    by (induction ns arbitrary: d0) auto
  ultimately show ?thesis by (simp add: inDegree_def deg_def)
qed

lemma keys_inDegree:
  "distinct (map fst (inDegree ns es)) \<and> fst ` set (inDegree ns es) = set ns \<union> snd ` set es"
proof -
  have 1: "distinct (map fst d0) \<Longrightarrow>
      distinct (map fst (foldl (\<lambda>d e. al_set (snd e) (deg d (snd e) + 1) d) d0 es)) \<and>
      fst ` set (foldl (\<lambda>d e. al_set (snd e) (deg d (snd e) + 1) d) d0 es) = fst ` set d0 \<union> snd ` set es"
    for d0 :: degrees
    by (induction es arbitrary: d0) auto
  have 2: "distinct (map fst d0) \<Longrightarrow> distinct (map fst (foldl (\<lambda>d n. al_set n 0 d) d0 ns)) \<and>
      fst ` set (foldl (\<lambda>d n. al_set n 0 d) d0 ns) = fst ` set d0 \<union> set ns" for d0 :: degrees
    by (induction ns arbitrary: d0) auto
  show ?thesis using 1 [of "foldl (\<lambda>d n. al_set n 0 d) [] ns"] 2 [of "[]"] by (simp add: inDegree_def)
qed

lemma kahn_start:
  assumes "snd ` set es \<subseteq> set ns"
  shows "kahn_inv es (set ns) (map fst (filter (\<lambda>p. snd p = 0) (inDegree ns es))) (inDegree ns es) []"
proof -
  let ?d = "inDegree ns es"
  have "fst ` set (filter (\<lambda>p. snd p = 0) ?d) = {v \<in> set ns. unmet es {} v = 0}"
  proof (intro equalityI subsetI)
    fix v assume "v \<in> fst ` set (filter (\<lambda>p. snd p = 0) ?d)"
    then have "(v, 0) \<in> set ?d" by auto
    then have "deg ?d v = 0" "v \<in> fst ` set ?d" using keys_inDegree [of ns es] by (force simp: deg_def)+
    then show "v \<in> {v \<in> set ns. unmet es {} v = 0}"
      using keys_inDegree [of ns es] assms by (auto simp: unmet_def deg_inDegree)
  next
    fix v assume "v \<in> {v \<in> set ns. unmet es {} v = 0}"
    then have "v \<in> fst ` set ?d" "deg ?d v = 0"
      using keys_inDegree [of ns es] by (auto simp: unmet_def deg_inDegree)
    then have "map_of ?d v = Some 0"
      by (cases "map_of ?d v") (auto simp: deg_def map_of_eq_None_iff)
    then show "v \<in> fst ` set (filter (\<lambda>p. snd p = 0) ?d)"
      by (auto dest!: map_of_SomeD intro!: image_eqI [where x = "(v, 0)"])
  qed
  then show ?thesis by (simp add: kahn_inv_def deg_inDegree unmet_def ordered_by_def)
qed

lemma takeWhile_before: "a \<in> set ys \<Longrightarrow> length (takeWhile (\<lambda>y. y \<noteq> a) (ys @ zs)) < length ys"
  by (induction ys) auto

lemma ordered_acyclic:
  assumes "ordered_by es xs" "distinct xs" "snd ` set es \<subseteq> set xs"
  shows "acyclic (set es)"
proof -
  let ?pos = "\<lambda>x. length (takeWhile (\<lambda>y. y \<noteq> x) xs)"
  have "?pos a < ?pos b" if e: "(a, b) \<in> set es" for a b
  proof -
    from assms(3) e obtain ys zs where xs: "xs = ys @ b # zs" by (force dest: split_list)
    with assms(1) e have a: "a \<in> set ys" unfolding ordered_by_def by blast
    have "b \<notin> set ys" using assms(2) xs by auto
    then have "?pos b = length ys" unfolding xs by (subst takeWhile_append2) auto
    with takeWhile_before [OF a, of "b # zs"] show ?thesis by (simp add: xs)
  qed
  then have "set es \<subseteq> measure ?pos" by auto
  then show ?thesis by (rule wf_acyclic [OF wf_subset [OF wf_measure]])
qed

lemma stuck_cyclic:
  assumes fin: "finite V" and "R \<noteq> {}" and "R \<subseteq> V"
    and pre: "\<And>v. v \<in> R \<Longrightarrow> \<exists>u \<in> R. (u, v) \<in> E" and E: "finite E"
  shows "\<not> acyclic E"
proof
  assume "acyclic E"
  then have "wf E" using E by (simp add: finite_acyclic_wf)
  then obtain m where "m \<in> R" "\<And>y. (y, m) \<in> E \<Longrightarrow> y \<notin> R"
    using \<open>R \<noteq> {}\<close> by (metis wfE_min all_not_in_conv)
  with pre show False by blast
qed

definition closed_arrows :: "'p graph \<Rightarrow> bool" where
  "closed_arrows g \<longleftrightarrow> set (data_arrows g) \<subseteq> set (node_ids g) \<times> set (node_ids g)"

lemma topologicalSort_cases:
  assumes V: "closed_arrows g" and dist: "distinct (node_ids g)"
  shows "(\<exists>ns. topologicalSort g = Inr ns \<and> distinct ns \<and> set ns = set (node_ids g) \<and>
             ordered_by (data_arrows g) ns \<and> acyclic (set (data_arrows g)))
       \<or> (\<exists>c. topologicalSort g = Inl (CycleDetectedError c) \<and> c \<noteq> [] \<and> \<not> acyclic (set (data_arrows g)) \<and>
             (\<forall>v \<in> set c. \<exists>u \<in> set c. (u, v) \<in> set (data_arrows g)))"
proof -
  let ?es = "data_arrows g" and ?V = "set (node_ids g)"
  have sub: "snd ` set ?es \<subseteq> ?V" "fst ` set ?es \<subseteq> ?V" using V by (force simp: closed_arrows_def)+
  define r where "r = kahn ?es (map fst (filter (\<lambda>p. snd p = 0) (inDegree (node_ids g) ?es)))
    (inDegree (node_ids g) ?es) []"
  obtain d' where inv: "kahn_inv ?es ?V [] d' r"
    using kahn_correct [OF kahn_start [OF sub(1)] sub(1)] by (auto simp: r_def)
  then have r: "distinct r" "ordered_by ?es r" "set r = {v \<in> ?V. unmet ?es (set r) v = 0}"
    by (auto simp: kahn_inv_def)
  then have rV: "set r \<subseteq> ?V" by blast
  have len: "length r = length (node_ids g) \<longleftrightarrow> set r = ?V"
    using distinct_card [OF dist] distinct_card [OF r(1)] card_subset_eq [OF finite_set rV] by metis
  have sort: "topologicalSort g = (if set r = ?V then Inr r
      else Inl (CycleDetectedError (filter (\<lambda>n. n \<notin> set r) (node_ids g))))"
    unfolding topologicalSort_def Let_def r_def [symmetric] using len by simp
  show ?thesis
  proof (cases "set r = ?V")
    case True
    with sort r(1,2) sub(1) ordered_acyclic [OF r(2,1)] show ?thesis by simp
  next
    case False
    let ?R = "?V - set r"
    have pre: "\<exists>u \<in> ?R. (u, v) \<in> set ?es" if "v \<in> ?R" for v
    proof -
      have "v \<in> set r \<longleftrightarrow> v \<in> ?V \<and> unmet ?es (set r) v = 0" using r(3) by blast
      with that have "unmet ?es (set r) v \<noteq> 0" by simp
      then obtain u where "(u, v) \<in> set ?es" "u \<notin> set r" by (auto simp: unmet_zero)
      with sub show ?thesis by force
    qed
    have ne: "?R \<noteq> {}" using False rV by blast
    have cyc: "\<not> acyclic (set ?es)" by (rule stuck_cyclic [of ?V ?R, OF _ ne _ pre]) auto
    let ?c = "filter (\<lambda>n. n \<notin> set r) (node_ids g)"
    have c: "set ?c = ?R" by auto
    have "topologicalSort g = Inl (CycleDetectedError ?c)" using sort False by simp
    moreover have "?c \<noteq> []" using c ne by (metis set_empty)
    moreover have "\<forall>v \<in> set ?c. \<exists>u \<in> set ?c. (u, v) \<in> set ?es" unfolding c using pre by blast
    ultimately show ?thesis using cyc by blast
  qed
qed

text \<open>
  C7: for a graph whose data edges join existing nodes, the sort succeeds exactly when the
  data edges have no cycle.  Its result then lists every node once, each after all the
  sources of its incoming data edges; otherwise the error names a non-empty set of nodes in
  which each has a predecessor inside the set.
\<close>

theorem topologicalSort_correct:
  assumes "set (data_arrows g) \<subseteq> set (node_ids g) \<times> set (node_ids g)" and "distinct (node_ids g)"
  shows "case topologicalSort g of
      Inr ns \<Rightarrow> acyclic (set (data_arrows g)) \<and> distinct ns \<and> set ns = set (node_ids g) \<and>
        (\<forall>ys n zs m. ns = ys @ n # zs \<and> (m, n) \<in> set (data_arrows g) \<longrightarrow> m \<in> set ys)
    | Inl e \<Rightarrow> \<not> acyclic (set (data_arrows g)) \<and> (\<exists>c. e = CycleDetectedError c \<and> c \<noteq> [] \<and>
        (\<forall>v \<in> set c. \<exists>u \<in> set c. (u, v) \<in> set (data_arrows g)))"
  using topologicalSort_cases [of g] assms unfolding closed_arrows_def ordered_by_def by fastforce

definition plain_node :: "string \<Rightarrow> string \<Rightarrow> 'p \<Rightarrow> 'p node" where
  "plain_node i k p = \<lparr>n_id = i, n_kind = k, n_label = None, n_payload = p,
     n_errorPolicy = \<lparr>onError = OnFail, maxRetries = None, retryDelayMs = None, fallbackNodeId = None\<rparr>\<rparr>"

definition data_edge :: "string \<Rightarrow> string \<Rightarrow> string \<Rightarrow> edge" where
  "data_edge i a b = \<lparr>e_id = i, e_from = a, e_to = b, e_kind = EkData, e_outputKey = None,
     e_inputKey = None, e_dataType = None, e_condition = None\<rparr>"

definition control_edge :: "string \<Rightarrow> string \<Rightarrow> string \<Rightarrow> controlCondition \<Rightarrow> edge" where
  "control_edge i a b c = \<lparr>e_id = i, e_from = a, e_to = b, e_kind = EkControl, e_outputKey = None,
     e_inputKey = None, e_dataType = None, e_condition = Some c\<rparr>"

definition mk_graph :: "'p node list \<Rightarrow> edge list \<Rightarrow> string \<Rightarrow> string list \<Rightarrow> 'p graph" where
  "mk_graph ns es entry exits = \<lparr>g_id = ''g'', g_version = 1, g_nodes = map (\<lambda>n. (n_id n, n)) ns,
     g_edges = map (\<lambda>e. (e_id e, e)) es, entryNode = entry, exitNodes = exits, g_metadata = JNull\<rparr>"

lemmas sample_graph = mk_graph_def plain_node_def data_edge_def control_edge_def

definition diamond :: "unit graph" where
  "diamond = mk_graph [plain_node ''c'' ''output'' (), plain_node ''a'' ''input'' (), plain_node ''b'' ''transform'' ()]
     [data_edge ''ab'' ''a'' ''b'', data_edge ''bc'' ''b'' ''c'', data_edge ''ac'' ''a'' ''c''] ''a'' [''c'']"

lemma diamond_facts:
  "data_arrows diamond = [(''a'', ''b''), (''b'', ''c''), (''a'', ''c'')]"
  "node_ids diamond = [''c'', ''a'', ''b'']"
  by (simp_all add: diamond_def sample_graph data_arrows_def node_ids_def edges_of_def is_data_def arrow_def)

theorem topologicalSort_correct_witness:
  "case topologicalSort diamond of
      Inr ns \<Rightarrow> acyclic (set (data_arrows diamond)) \<and> distinct ns \<and> set ns = set (node_ids diamond) \<and>
        (\<forall>ys n zs m. ns = ys @ n # zs \<and> (m, n) \<in> set (data_arrows diamond) \<longrightarrow> m \<in> set ys)
    | Inl e \<Rightarrow> \<not> acyclic (set (data_arrows diamond)) \<and> (\<exists>c. e = CycleDetectedError c \<and> c \<noteq> [] \<and>
        (\<forall>v \<in> set c. \<exists>u \<in> set c. (u, v) \<in> set (data_arrows diamond)))"
  by (rule topologicalSort_correct) (simp_all add: diamond_facts)

definition dangling :: "unit graph" where
  "dangling = mk_graph [plain_node ''a'' ''input'' (), plain_node ''b'' ''transform'' ()]
     [data_edge ''1'' ''b'' ''b'', data_edge ''2'' ''a'' ''x''] ''a'' []"

lemma dangling_sort: "topologicalSort dangling = Inr [''a'', ''x'']"
  by (simp add: dangling_def sample_graph data_arrows_def node_ids_def edges_of_def is_data_def arrow_def
      topologicalSort_def inDegree_def deg_def targets_def Let_def)

text \<open>
  without the endpoint check the sort can be wrong.  In this graph \<open>b\<close> depends on
  itself, yet the edge to the missing node \<open>x\<close> makes the lengths agree: the sort returns
  an order with \<open>x\<close> in it and without \<open>b\<close>; validation rejects the graph.
\<close>

theorem dangling_edge_hides_cycle:
  "topologicalSort dangling = Inr [''a'', ''x''] \<and> (''b'', ''b'') \<in> set (data_arrows dangling) \<and>
   validateGraph dangling None = [EDGE_TARGET_INVALID ''2'' ''x'']"
  by (simp add: dangling_sort validateGraph_def)
    (simp add: dangling_def sample_graph data_arrows_def edges_of_def is_data_def arrow_def guardE_def
      getIncomingDataEdges_def getOutgoingDataEdges_def)

section \<open>Correctness of validation\<close>

lemma guardE_Nil [simp]: "guardE b e = [] \<longleftrightarrow> \<not> b"
  by (simp add: guardE_def)

lemma edge_arrow: "e \<in> set (edges_of g) \<Longrightarrow> e_kind e = EkData \<Longrightarrow> (e_from e, e_to e) \<in> set (data_arrows g)"
  by (force simp: data_arrows_def is_data_def arrow_def)

definition endpoints_exist :: "'p graph \<Rightarrow> bool" where
  "endpoints_exist g \<longleftrightarrow> (\<forall>e \<in> set (edges_of g). e_from e \<in> set (node_ids g) \<and> e_to e \<in> set (node_ids g))"

lemma endpoints_closed: "endpoints_exist g \<Longrightarrow> closed_arrows g"
  by (auto simp: endpoints_exist_def closed_arrows_def data_arrows_def is_data_def arrow_def)

lemma al_has_node [simp]: "al_has n (g_nodes g) \<longleftrightarrow> n \<in> set (node_ids g)"
  by (simp add: al_has_def node_ids_def)

lemma validate_endpoints:
  "concat (map (\<lambda>(i, e). guardE (\<not> al_has (e_from e) (g_nodes g)) (EDGE_SOURCE_INVALID i (e_from e)) @
     guardE (\<not> al_has (e_to e) (g_nodes g)) (EDGE_TARGET_INVALID i (e_to e))) (g_edges g)) = [] \<longleftrightarrow> endpoints_exist g"
  by (auto simp: endpoints_exist_def edges_of_def)

lemma validate_sorted:
  assumes "endpoints_exist g" "distinct (node_ids g)"
  shows "(case topologicalSort g of
      Inl (CycleDetectedError c) \<Rightarrow> [CYCLE_DETECTED c] | Inl _ \<Rightarrow> [CYCLE_DETECTION_FAILED] | Inr _ \<Rightarrow> []) = []
    \<longleftrightarrow> acyclic (set (data_arrows g))"
  using topologicalSort_cases [OF endpoints_closed [OF assms(1)] assms(2)] by fastforce

lemma validateGraph_Nil:
  assumes "wf_graph g"
  shows "validateGraph g (Some kinds) = [] \<longleftrightarrow>
    acyclic (set (data_arrows g)) \<and> endpoints_exist g \<and>
    entryNode g \<in> set (node_ids g) \<and> (\<forall>m. (m, entryNode g) \<notin> set (data_arrows g)) \<and>
    set (exitNodes g) \<subseteq> set (node_ids g) \<and>
    (''_output'' \<in> set (node_ids g) \<longrightarrow> (\<forall>m. (''_output'', m) \<notin> set (data_arrows g))) \<and>
    (\<forall>n \<in> set (node_ids g). n = entryNode g \<or> (\<exists>m. (m, n) \<in> set (all_arrows g))) \<and>
    (\<forall>(i, nd) \<in> set (g_nodes g). n_kind nd \<in> set kinds)"
proof -
  have dist: "distinct (node_ids g)" using assms by (simp add: wf_graph_def node_ids_def)
  have entry: "getIncomingDataEdges g n = [] \<longleftrightarrow> (\<forall>m. (m, n) \<notin> set (data_arrows g))" for n
    by (auto simp: getIncomingDataEdges_def data_arrows_def is_data_def arrow_def filter_empty_conv)
  have exit: "getOutgoingDataEdges g n = [] \<longleftrightarrow> (\<forall>m. (n, m) \<notin> set (data_arrows g))" for n
    by (auto simp: getOutgoingDataEdges_def data_arrows_def is_data_def arrow_def filter_empty_conv)
  have orphan: "filter (\<lambda>e. e_to e = n) (edges_of g) = [] \<longleftrightarrow> (\<forall>m. (m, n) \<notin> set (all_arrows g))" for n
    by (auto simp: all_arrows_def arrow_def filter_empty_conv)
  have orphans: "concat (map (\<lambda>(i, nd). guardE (i \<noteq> entryNode g \<and> filter (\<lambda>e. e_to e = i) (edges_of g) = [])
         (ORPHANED_NODE i)) (g_nodes g)) = [] \<longleftrightarrow>
      (\<forall>n \<in> set (node_ids g). n = entryNode g \<or> (\<exists>m. (m, n) \<in> set (all_arrows g)))"
    unfolding orphan by (fastforce simp: node_ids_def)
  have kinds: "concat (map (\<lambda>(i, nd). guardE (n_kind nd \<notin> set kinds) (UNKNOWN_NODE_KIND i (n_kind nd)))
      (g_nodes g)) = [] \<longleftrightarrow> (\<forall>(i, nd) \<in> set (g_nodes g). n_kind nd \<in> set kinds)"
    by auto
  have exits: "concat (map (\<lambda>x. guardE (\<not> al_has x (g_nodes g)) (EXIT_NODE_MISSING x)) (exitNodes g)) = []
      \<longleftrightarrow> set (exitNodes g) \<subseteq> set (node_ids g)"
    by auto
  show ?thesis
    unfolding validateGraph_def append_is_Nil_conv validate_endpoints orphans exits option.case kinds
    using validate_sorted [OF _ dist] by (auto simp: entry exit)
qed

text \<open>
  C8: validation accepts a graph exactly when its data edges are acyclic, every edge joins
  existing nodes, the entry node exists and has no incoming data edge, the exit nodes exist,
  \<open>_output\<close> feeds nobody, every other node has an incoming edge, and every node
  kind is registered.
\<close>

theorem validateGraph_ok_iff:
  assumes "wf_graph g"
  shows "validateGraph g (Some kinds) = [] \<longleftrightarrow>
    acyclic (set (data_arrows g)) \<and> endpoints_exist g \<and>
    entryNode g \<in> set (node_ids g) \<and> (\<forall>m. (m, entryNode g) \<notin> set (data_arrows g)) \<and>
    set (exitNodes g) \<subseteq> set (node_ids g) \<and>
    (''_output'' \<in> set (node_ids g) \<longrightarrow> (\<forall>m. (''_output'', m) \<notin> set (data_arrows g))) \<and>
    (\<forall>n \<in> set (node_ids g). n = entryNode g \<or> (\<exists>m. (m, n) \<in> set (all_arrows g))) \<and>
    (\<forall>(i, nd) \<in> set (g_nodes g). n_kind nd \<in> set kinds)"
  using assms by (rule validateGraph_Nil)

lemma diamond_acyclic: "acyclic (set (data_arrows diamond))"
  by (rule ordered_acyclic [where xs = "[''a'', ''b'', ''c'']"])
    (auto simp: diamond_facts ordered_by_def Cons_eq_append_conv)

theorem validateGraph_ok_iff_witness:
  "validateGraph diamond (Some [''input'', ''output'', ''transform'']) = []"
proof (rule validateGraph_ok_iff [THEN iffD2])
  show "wf_graph diamond" by (simp add: wf_graph_def diamond_def sample_graph)
  have "entryNode diamond = ''a''" "exitNodes diamond = [''c'']" "all_arrows diamond = data_arrows diamond"
    "endpoints_exist diamond" "list_all (\<lambda>(i, nd). n_kind nd \<in> {''input'', ''output'', ''transform''}) (g_nodes diamond)"
    by (simp_all add: diamond_def sample_graph edges_of_def all_arrows_def arrow_def data_arrows_def is_data_def
        endpoints_exist_def node_ids_def)
  with diamond_acyclic show "acyclic (set (data_arrows diamond)) \<and> endpoints_exist diamond \<and>
    entryNode diamond \<in> set (node_ids diamond) \<and> (\<forall>m. (m, entryNode diamond) \<notin> set (data_arrows diamond)) \<and>
    set (exitNodes diamond) \<subseteq> set (node_ids diamond) \<and>
    (''_output'' \<in> set (node_ids diamond) \<longrightarrow> (\<forall>m. (''_output'', m) \<notin> set (data_arrows diamond))) \<and>
    (\<forall>n \<in> set (node_ids diamond). n = entryNode diamond \<or> (\<exists>m. (m, n) \<in> set (all_arrows diamond))) \<and>
    (\<forall>(i, nd) \<in> set (g_nodes diamond). n_kind nd \<in> set [''input'', ''output'', ''transform''])"
    by (auto simp: diamond_facts list_all_iff)
qed

section \<open>Correctness of the control paths\<close>

lemma inactive_branches_set:
  "set (getNodesOnInactiveBranches g c st) = {n. \<exists>e \<in> set (getOutgoingControlEdges g c).
     e_id e \<in> set (es_deactivated st) \<and> spreads g (e_to e) \<and>
     (e_to e, n) \<in> (admitted_edges (spreads g) (all_arrows g))\<^sup>*}"
  by (fastforce simp: getNodesOnInactiveBranches_def set_bfs)

text \<open>
  the nodes skipped with an inactive branch are exactly those reached from a deactivated
  outgoing control edge of the conditional along paths of existing nodes that are not merge
  nodes, each listed once; no merge node is among them.
\<close>

theorem inactive_branches_reachable:
  "set (getNodesOnInactiveBranches g c st) = {n. \<exists>e \<in> set (getOutgoingControlEdges g c).
       e_id e \<in> set (es_deactivated st) \<and> spreads g (e_to e) \<and>
       (e_to e, n) \<in> (admitted_edges (spreads g) (all_arrows g))\<^sup>*} \<and>
   distinct (getNodesOnInactiveBranches g c st) \<and>
   list_all (spreads g) (getNodesOnInactiveBranches g c st)"
proof -
  have "spreads g n" if "spreads g a" "(a, n) \<in> (admitted_edges (spreads g) (all_arrows g))\<^sup>*" for a n
    using that(2,1) by (induction rule: rtrancl_induct) (auto simp: admitted_edges_def)
  moreover have "distinct (getNodesOnInactiveBranches g c st)"
    by (simp add: getNodesOnInactiveBranches_def bfs_distinct)
  ultimately show ?thesis
    by (auto simp: inactive_branches_set list_all_iff)
qed

text \<open>
  a control path is closed only when every incoming control edge was deactivated, so a
  node behind a merge of two branches stays reachable while one branch is alive, and a node
  whose control edges are undecided counts as active; a node is ready only with a pending
  state, completed sources and an open path.
\<close>

theorem control_path_closed_iff:
  "(shouldSkipNode n g st \<longleftrightarrow> getIncomingControlEdges g n \<noteq> [] \<and>
      list_all (\<lambda>e. e_id e \<in> set (es_deactivated st)) (getIncomingControlEdges g n)) \<and>
   (isReadyToExecute n st \<longleftrightarrow> (\<exists>s. map_of (es_nodeStates st) n = Some s \<and> nx_status s = Pending) \<and>
      list_all (\<lambda>e. \<exists>s. map_of (es_nodeStates st) (e_from e) = Some s \<and> nx_status s = Completed)
        (getIncomingDataEdges (es_graph st) n) \<and> \<not> shouldSkipNode n (es_graph st) st)"
  by (auto simp: shouldSkipNode_def isControlPathActive_def Let_def list_all_iff isReadyToExecute_def
      split: option.splits)

section \<open>The JSON form\<close>

lemma newMap_distinct: "distinct (map fst es) \<Longrightarrow> newMap es = es"
proof -
  have "distinct (map fst (m @ es)) \<Longrightarrow> foldl (\<lambda>m (k, v). al_set k v m) m es = m @ es" for m
  proof (induction es arbitrary: m)
    case (Cons p es)
    obtain k v where p: "p = (k, v)" by force
    have "al_set k v m = m @ [(k, v)]" if "k \<notin> fst ` set m" using that by (induction m) auto
    with Cons p show ?case by auto
  qed simp
  from this [of "[]"] show "distinct (map fst es) \<Longrightarrow> newMap es = es" by (simp add: newMap_def)
qed

lemma row_insert_no_index: "\<not> is_index k \<Longrightarrow> row_insert k v r = r @ [(k, v)]"
  by (induction k v r rule: row_insert.induct) (auto simp: enumerated_before_def)

lemma row_assign_no_index:
  "distinct (map fst (r @ fs)) \<Longrightarrow> \<forall>k \<in> fst ` set fs. \<not> is_index k \<Longrightarrow> row_assign r fs = r @ fs"
proof (induction fs arbitrary: r)
  case (Cons p fs)
  then show ?case by (cases p) (auto simp: row_set_def al_has_def row_insert_no_index)
qed simp

lemma fromEntries_facts:
  assumes "distinct (map fst es)"
  shows "map_of (newMap (fromEntries es)) = map_of es" "distinct (map fst (newMap (fromEntries es)))"
  using distinct_row_assign [of "[]" es] map_of_row_assign [OF assms, of "[]"]
  by (simp_all add: newMap_distinct fromEntries_def)

text \<open>
  C35: a graph survives its JSON form: the same node under every id, the same edge under
  every id, the same entry, exits and metadata, and still no id twice; the whole graph comes
  back identical, order of the nodes included, when no id is an array index.
\<close>

theorem graph_json_roundtrip:
  assumes "wf_graph g"
  shows "let g' = deserializeGraph (serializeGraph g) in
      map_of (g_nodes g') = map_of (g_nodes g) \<and> map_of (g_edges g') = map_of (g_edges g) \<and> wf_graph g' \<and>
      entryNode g' = entryNode g \<and> exitNodes g' = exitNodes g \<and> g_metadata g' = g_metadata g \<and>
      ((\<forall>k \<in> set (map fst (g_nodes g) @ map fst (g_edges g)). \<not> is_index k) \<longrightarrow> g' = g)"
  using assms fromEntries_facts [of "g_nodes g"] fromEntries_facts [of "g_edges g"]
    row_assign_no_index [of "[]" "g_nodes g"] row_assign_no_index [of "[]" "g_edges g"]
  by (auto simp: Let_def wf_graph_def deserializeGraph_def serializeGraph_def fromEntries_def newMap_distinct)

theorem graph_json_roundtrip_witness: "deserializeGraph (serializeGraph diamond) = diamond"
proof -
  have "wf_graph diamond" "\<forall>k \<in> set (map fst (g_nodes diamond) @ map fst (g_edges diamond)). \<not> is_index k"
    by (simp_all add: wf_graph_def diamond_def sample_graph is_index_def is_digit_def)
  with graph_json_roundtrip [of diamond] show ?thesis by (simp add: Let_def)
qed

end
