(* ===== verification/LoopHelpers.thy ===== *)
theory LoopHelpers
  imports Evaluator Graphs
begin

text \<open>
  \<open>src/src/scheduler/loop-helpers.ts\<close>: the state a loop iteration starts from, the items a
  loop runs over, the accumulators that collect the results of the iterations, and the output
  of a loop body.
\<close>

section \<open>Iteration state\<close>

text \<open>What the body nodes read from the loop node: the item, scalars and others boxed in a record.\<close>

definition loop_output :: "dataValue \<Rightarrow> dataValue" where
  "loop_output item = (case item of
       DTabular r s \<Rightarrow> item
     | DRecord d s \<Rightarrow> item
     | DScalar v t \<Rightarrow> DRecord [(''value'', v)] []
     | DCollection vs k \<Rightarrow> DRecord [(''items'', JArr (map JData vs))] []
     | _ \<Rightarrow> DRecord [] [])"

definition completed_state :: "int \<Rightarrow> dataValue option \<Rightarrow> nodeState" where
  "completed_state now out = pending_state\<lparr>nx_status := Completed, nx_completedAt := Some now, nx_output := out\<rparr>"

definition forkStateForIteration :: "int \<Rightarrow> 'p execState \<Rightarrow> execContext \<Rightarrow> string list \<Rightarrow> string \<Rightarrow> dataValue \<Rightarrow> 'p execState" where
  "forkStateForIteration now st iterCtx body loopId item =
     \<lparr>es_graph = es_graph st,
      es_nodeStates = al_set loopId (completed_state now (Some (loop_output item)))
        (foldl (\<lambda>m n. al_set n pending_state m) [] body),
      es_ctx = iterCtx, es_activated = [], es_deactivated = []\<rparr>"

fun toIterableArray :: "dataValue \<Rightarrow> dataValue list" where
  "toIterableArray DVoid = []"
| "toIterableArray (DTabular r s) = map (\<lambda>row. DRecord row s) (rs_rows r)"
| "toIterableArray (DCollection vs k) = vs"
| "toIterableArray v = [v]"

section \<open>Accumulators\<close>

datatype accumulatorKind = AkCollect | AkMerge | AkReduce

record accumulatorDef =
  ad_kind :: accumulatorKind
  ad_initial :: "jsval option"
  ad_reducer :: "exprAST option"

definition initAccumulator :: "accumulatorDef option \<Rightarrow> dataValue" where
  "initAccumulator def = (case def of
       None \<Rightarrow> DCollection [] KAny
     | Some d \<Rightarrow> (case ad_kind d of
         AkCollect \<Rightarrow> DCollection [] KAny
       | AkMerge \<Rightarrow> DRecord [] []
       | AkReduce \<Rightarrow> DScalar (case ad_initial d of None \<Rightarrow> JNull | Some v \<Rightarrow> if nullish v then JNull else v) TNull))"

definition columns_of :: "dataValue \<Rightarrow> rowSchema" where
  "columns_of v = (case v of DRecord d s \<Rightarrow> s | DTabular r s \<Rightarrow> s | _ \<Rightarrow> [])"

definition add_columns :: "rowSchema \<Rightarrow> rowSchema \<Rightarrow> rowSchema" where
  "add_columns cs acc = foldl (\<lambda>acc c. if col_name c \<in> col_name ` set acc then acc else acc @ [c]) acc cs"

definition accMergeSchemas :: "dataValue \<Rightarrow> dataValue \<Rightarrow> rowSchema" where
  "accMergeSchemas acc item = add_columns (columns_of item) (add_columns (columns_of acc) [])"

definition row_of :: "dataValue \<Rightarrow> row" where
  "row_of v = (case v of DRecord d s \<Rightarrow> d
     | DTabular r s \<Rightarrow> (case rs_rows r of [] \<Rightarrow> [] | row # _ \<Rightarrow> row) | _ \<Rightarrow> [])"

definition scope_value :: "dataValue \<Rightarrow> jsval" where
  "scope_value v = (case v of DScalar x t \<Rightarrow> x | _ \<Rightarrow> JData v)"

definition safe_item :: "dataValue \<Rightarrow> dataValue" where
  "safe_item v = (if v = DVoid then DTabular empty_rowset [] else v)"

definition eval_opt :: "host \<Rightarrow> fnRegistry \<Rightarrow> exprAST option \<Rightarrow> scope \<Rightarrow> row option \<Rightarrow> jsval res" where
  "eval_opt h reg e sc r = (case e of
       None \<Rightarrow> Inl (TypeError ''Cannot read properties of undefined (reading 'kind')'')
     | Some e \<Rightarrow> evaluate h reg e sc r)"

definition loopUpdateAccumulator :: "host \<Rightarrow> fnRegistry \<Rightarrow> accumulatorDef option \<Rightarrow> dataValue \<Rightarrow> dataValue \<Rightarrow> scope \<Rightarrow> dataValue res" where
  "loopUpdateAccumulator h reg def acc item sc =
     (let collect = Inr (DCollection ((case acc of DCollection vs k \<Rightarrow> vs | _ \<Rightarrow> []) @ [safe_item item]) (dv_kind (safe_item item)))
      in case def of
        None \<Rightarrow> collect
      | Some d \<Rightarrow> (case ad_kind d of
          AkCollect \<Rightarrow> collect
        | AkMerge \<Rightarrow> Inr (DRecord (row_assign (row_assign [] (row_of acc)) (row_of item)) (accMergeSchemas acc item))
        | AkReduce \<Rightarrow> mapRes (\<lambda>v. DScalar v TAny)
            (eval_opt h reg (ad_reducer d) (scopeSet (scopeSet sc ''acc'' (scope_value acc)) ''item'' (scope_value item)) None)))"

section \<open>Output of the body\<close>

definition exit_ids :: "string list \<Rightarrow> 'p graph \<Rightarrow> string list" where
  "exit_ids body g = filter (\<lambda>n. list_all (\<lambda>e. e_to e \<notin> set body) (getOutgoingDataEdges g n)) body"

fun first_output :: "(string \<times> nodeState) list \<Rightarrow> string list \<Rightarrow> dataValue option" where
  "first_output states [] = None"
| "first_output states (n # ns) = (case map_of states n of
      Some s \<Rightarrow> (if nx_status s = Completed \<and> nx_output s \<noteq> None then nx_output s else first_output states ns)
    | None \<Rightarrow> first_output states ns)"

definition getSubgraphOutput :: "string list \<Rightarrow> 'p graph \<Rightarrow> 'p execState \<Rightarrow> dataValue option" where
  "getSubgraphOutput body g st = first_output (es_nodeStates st) (if exit_ids body g = [] then body else exit_ids body g)"

end
