(* ===== verification/Session.thy ===== *)
theory Session
  imports DataValues
begin

text \<open>
  \<open>src/src/session/SessionCursor.ts\<close>: the cursor a run leaves behind for the next request of
  the session, its expiry, and the SQL condition rebuilt from it.

  A filter is the plain object the query intent stored; the code reads its fields without a
  check, and so does the model.  Times are milliseconds.
\<close>

section \<open>The cursor and its store\<close>

record sessionCursor =
  cu_table :: string
  cu_primaryKeys :: "string list"
  cu_ids :: "jsval list option"
  cu_sourceFilter :: "jsval option"
  cu_rowCount :: nat
  cu_pipelineId :: string
  cu_description :: string
  cu_expiresAt :: int

type_synonym cursorStore = "sessionCursor option"

definition store_set :: "sessionCursor \<Rightarrow> cursorStore \<Rightarrow> cursorStore" where
  "store_set c st = Some c"

definition store_isExpired :: "int \<Rightarrow> cursorStore \<Rightarrow> bool" where
  "store_isExpired now st = (case st of None \<Rightarrow> True | Some c \<Rightarrow> now > cu_expiresAt c)"

definition store_get :: "int \<Rightarrow> cursorStore \<Rightarrow> sessionCursor option \<times> cursorStore" where
  "store_get now st = (if st \<noteq> None \<and> store_isExpired now st then (None, None) else (st, st))"

definition store_clear :: "cursorStore \<Rightarrow> cursorStore" where
  "store_clear st = None"

definition extractCursor :: "int \<Rightarrow> row list \<Rightarrow> string \<Rightarrow> jsval option \<Rightarrow> string \<Rightarrow> string \<Rightarrow> string \<Rightarrow> sessionCursor" where
  "extractCursor now rows pk flt pipeline descr tbl =
     \<lparr>cu_table = tbl, cu_primaryKeys = [pk],
      cu_ids = (if length rows \<le> 50 then Some (map (\<lambda>r. row_get r pk) rows) else None),
      cu_sourceFilter = (if length rows \<le> 50 then None else flt),
      cu_rowCount = length rows, cu_pipelineId = pipeline, cu_description = descr,
      cu_expiresAt = now + 300 * 1000\<rparr>"

section \<open>The condition\<close>

record whereResult =
  wr_clause :: string
  wr_params :: "jsval list"
  wr_isBulk :: bool

definition dq :: "string \<Rightarrow> string" where
  "dq s = CHR 0x22 # s @ [CHR 0x22]"

definition placeholder :: "int \<Rightarrow> string" where
  "placeholder i = CHR ''$'' # int_string i"

definition filter_field :: "jsval \<Rightarrow> string \<Rightarrow> jsval" where
  "filter_field f k = (case own_props f of None \<Rightarrow> JUndef | Some fs \<Rightarrow> row_get fs k)"

definition value_list :: "jsval \<Rightarrow> jsval list res" where
  "value_list v = (case v of JArr vs \<Rightarrow> Inr vs | _ \<Rightarrow> Inl (TypeError ''f.value.map is not a function''))"

definition nth_value :: "jsval list \<Rightarrow> nat \<Rightarrow> jsval" where
  "nth_value vs k = (if k < length vs then vs ! k else JUndef)"

definition in_list :: "string \<Rightarrow> string \<Rightarrow> int \<Rightarrow> jsval list \<Rightarrow> string" where
  "in_list col op i vs = col @ '' '' @ op @ '' ('' @
     join_str '', '' (map (\<lambda>k. placeholder (i + int k)) [0..<length vs]) @ '')''"

text \<open>One filter: the clause it adds, if any, and its parameters.\<close>

definition filter_clause :: "jsval \<Rightarrow> int \<Rightarrow> (string option \<times> jsval list) res" where
  "filter_clause f i = (let col = dq (js_string (filter_field f ''field'')); v = filter_field f ''value'' in
     case filter_field f ''operator'' of
       JStr op \<Rightarrow>
         (if op = ''='' then
            (let lower = (truthy (filter_field f ''caseInsensitive'') \<and> js_typeof v = ''string'')
             in Inr (Some (if lower then ''LOWER('' @ col @ '') = LOWER('' @ placeholder i @ '')''
                  else col @ '' = '' @ placeholder i), [v]))
          else if op = ''IN'' \<or> op = ''NOT IN'' then mapRes (\<lambda>vs. (Some (in_list col op i vs), vs)) (value_list v)
          else if op \<in> {''>'', ''<'', ''>='', ''<='', ''!=''} then Inr (Some (col @ '' '' @ op @ '' '' @ placeholder i), [v])
          else if op = ''IS NULL'' \<or> op = ''IS NOT NULL'' then Inr (Some (col @ '' '' @ op), [])
          else if op = ''BETWEEN'' then mapRes (\<lambda>vs. (Some (col @ '' BETWEEN '' @ placeholder i @ '' AND '' @ placeholder (i + 1)),
              [nth_value vs 0, nth_value vs 1])) (value_list v)
          else if op = ''LIKE'' then Inr (Some (col @ '' ILIKE '' @ placeholder i), [v])
          else Inr (None, []))
     | _ \<Rightarrow> Inr (None, []))"

fun where_loop :: "jsval list \<Rightarrow> int \<Rightarrow> string list \<Rightarrow> jsval list \<Rightarrow> (string list \<times> jsval list) res" where
  "where_loop [] i clauses params = Inr (clauses, params)"
| "where_loop (f # fs) i clauses params = bindR (filter_clause f i) (\<lambda>(c, ps).
     where_loop fs (i + int (length ps)) (clauses @ (case c of None \<Rightarrow> [] | Some c \<Rightarrow> [c])) (params @ ps))"

definition buildWhereFromCursor :: "sessionCursor \<Rightarrow> int \<Rightarrow> whereResult res" where
  "buildWhereFromCursor c start = (case cu_ids c of
       Some [v] \<Rightarrow> Inr \<lparr>wr_clause = dq (hd (cu_primaryKeys c)) @ '' = '' @ placeholder start, wr_params = [v], wr_isBulk = False\<rparr>
     | Some (v # w # vs) \<Rightarrow> Inr \<lparr>wr_clause = dq (hd (cu_primaryKeys c)) @ '' = ANY('' @ placeholder start @ '')'',
         wr_params = [JArr (v # w # vs)], wr_isBulk = True\<rparr>
     | _ \<Rightarrow> (case cu_sourceFilter c of
         None \<Rightarrow> Inl (PlainError ''[SessionCursor] buildWhereFromCursor: cursor has neither ids nor sourceFilter'')
       | Some flt \<Rightarrow> bindR (where_loop (case flt of JArr fs \<Rightarrow> fs | _ \<Rightarrow> [flt]) start [] []) (\<lambda>(clauses, params).
           if clauses = [] then Inl (PlainError ''[SessionCursor] buildWhereFromCursor: sourceFilter produced no WHERE clauses'')
           else Inr \<lparr>wr_clause = join_str '' AND '' clauses, wr_params = params, wr_isBulk = True\<rparr>)))"

section \<open>Correctness\<close>

text \<open>
  \<open>woven c i n\<close>: the text \<open>c\<close> is some text with exactly the placeholders \<open>$i\<close>, ...,
  \<open>$(i + n - 1)\<close> in it, in this order.
\<close>

fun weave :: "string list \<Rightarrow> string list \<Rightarrow> string" where
  "weave (p # ps) (h # hs) = p @ h @ weave ps hs"
| "weave ps [] = concat ps"
| "weave [] hs = concat hs"

definition holders :: "int \<Rightarrow> nat \<Rightarrow> string list" where
  "holders i n = map (\<lambda>k. placeholder (i + int k)) [0..<n]"

definition woven :: "string \<Rightarrow> int \<Rightarrow> nat \<Rightarrow> bool" where
  "woven c i n \<longleftrightarrow> (\<exists>pieces. length pieces = Suc n \<and> c = weave pieces (holders i n))"

lemma weave_append:
  "length ps = Suc (length hs) \<Longrightarrow> weave ps hs @ weave (q # qs) ks = weave (butlast ps @ (List.last ps @ q) # qs) (hs @ ks)"
proof (induction hs arbitrary: ps)
  case Nil
  then obtain p where "ps = [p]" by (cases ps) auto
  then show ?case by (cases ks) simp_all
next
  case (Cons h hs)
  then obtain p ps' where ps: "ps = p # ps'" "length ps' = Suc (length hs)" by (cases ps) auto
  then have "ps' \<noteq> []" by auto
  with Cons.IH [OF ps(2)] ps(1) show ?case by simp
qed

lemma holders_add: "holders i (n + m) = holders i n @ holders (i + int n) m"
  by (induction m) (simp_all add: holders_def add.assoc)

lemma woven_text: "woven s i 0"
  unfolding woven_def holders_def by (intro exI [of _ "[s]"]) simp

lemma woven_placeholder: "woven (placeholder i) i 1"
  unfolding woven_def holders_def by (intro exI [of _ "[[], []]"]) simp

lemma woven_append:
  assumes "woven c i n" and "woven d (i + int n) m"
  shows "woven (c @ d) i (n + m)"
proof -
  from assms obtain ps qs where ps: "length ps = Suc n" "c = weave ps (holders i n)"
    and qs: "length qs = Suc m" "d = weave qs (holders (i + int n) m)" unfolding woven_def by blast
  from qs obtain q qs' where "qs = q # qs'" by (cases qs) auto
  with ps qs weave_append [of ps "holders i n" q qs' "holders (i + int n) m"] show ?thesis
    unfolding woven_def holders_add
    by (intro exI [of _ "butlast ps @ (List.last ps @ q) # qs'"]) (simp add: holders_def)
qed

lemma woven_prefix: "woven d i n \<Longrightarrow> woven (s @ d) i n"
  using woven_append [OF woven_text, of d i n s] by simp

lemma woven_suffix: "woven d i n \<Longrightarrow> woven (d @ s) i n"
  using woven_append [OF _ woven_text, of d i n s] by simp

lemma woven_list: "woven (join_str '', '' (map (\<lambda>k. placeholder (i + int k)) [0..<n])) i n"
proof (induction n arbitrary: i)
  case (Suc n)
  have split: "map (\<lambda>k. placeholder (i + int k)) [0..<Suc n] = placeholder i # map (\<lambda>k. placeholder (i + 1 + int k)) [0..<n]"
    by (simp add: upt_conv_Cons map_Suc_upt [symmetric] comp_def add.assoc del: upt_Suc)
  show ?case
  proof (cases n)
    case 0
    with woven_placeholder [of i] show ?thesis by simp
  next
    case (Suc k)
    then obtain y ys where "map (\<lambda>k. placeholder (i + 1 + int k)) [0..<n] = y # ys" by (simp add: upt_conv_Cons del: upt_Suc)
    then have eq: "join_str '', '' (map (\<lambda>k. placeholder (i + int k)) [0..<Suc n]) =
        placeholder i @ '', '' @ join_str '', '' (map (\<lambda>k. placeholder (i + 1 + int k)) [0..<n])"
      unfolding split by simp
    have "woven (placeholder i @ '', '' @ join_str '', '' (map (\<lambda>k. placeholder (i + 1 + int k)) [0..<n])) i (1 + n)"
      by (rule woven_append [OF woven_placeholder], rule woven_prefix) (simp add: Suc.IH)
    then show ?thesis unfolding eq by (simp del: append_Cons append.simps)
  qed
qed (simp add: woven_text)

text \<open>The parameters of a filter do not depend on where its numbering starts.\<close>

definition clause_params :: "jsval \<Rightarrow> jsval list" where
  "clause_params f = (case filter_clause f 0 of Inr (c, ps) \<Rightarrow> ps | Inl _ \<Rightarrow> [])"

lemma filter_clause_shift: "mapRes snd (filter_clause f i) = mapRes snd (filter_clause f j)"
proof (cases "value_list (filter_field f ''value'')")
  case (Inl e)
  then show ?thesis by (cases "filter_field f ''operator''") (simp_all add: filter_clause_def Let_def)
next
  case (Inr vs)
  then show ?thesis by (cases "filter_field f ''operator''") (simp_all add: filter_clause_def Let_def)
qed

lemma filter_clause_params: "filter_clause f i = Inr (c, ps) \<Longrightarrow> ps = clause_params f"
  using filter_clause_shift [of f i 0] by (cases "filter_clause f 0") (auto simp: clause_params_def)

lemma woven_one: "woven (s @ placeholder i @ s') i 1"
  by (rule woven_prefix, rule woven_suffix, rule woven_placeholder)

lemma woven_two: "woven (s @ placeholder i @ s' @ placeholder (i + 1)) i 2"
  using woven_append [OF woven_one [of s i s'], of "placeholder (i + 1)" 1] woven_placeholder [of "i + 1"]
  by (simp add: numeral_2_eq_2)

lemma woven_in_list: "woven (in_list col op i vs) i (length vs)"
  unfolding in_list_def
  by (rule woven_prefix, rule woven_prefix, rule woven_prefix, rule woven_prefix, rule woven_suffix, rule woven_list)

text \<open>The comparisons in which a filter takes exactly one parameter.\<close>

definition compare_ops :: "string list" where
  "compare_ops = [''>'', ''<'', ''>='', ''<='', ''!='']"

lemma filter_clause_woven:
  assumes "filter_clause f i = Inr (Some c, ps)"
  shows "woven c i (length ps)"
proof -
  let ?v = "filter_field f ''value''" and ?col = "dq (js_string (filter_field f ''field''))"
  from assms obtain op where op: "filter_field f ''operator'' = JStr op"
    by (cases "filter_field f ''operator''") (simp_all add: filter_clause_def Let_def)
  note a = assms [unfolded filter_clause_def Let_def op jsval.case]
  consider "op = ''=''" | "op = ''IN'' \<or> op = ''NOT IN''" | "op \<in> set compare_ops"
    | "op = ''IS NULL'' \<or> op = ''IS NOT NULL''" | "op = ''BETWEEN''" | "op = ''LIKE''"
    | "op \<noteq> ''=''" "op \<noteq> ''IN''" "op \<noteq> ''NOT IN''" "op \<notin> set compare_ops" "op \<noteq> ''IS NULL''" "op \<noteq> ''IS NOT NULL''"
      "op \<noteq> ''BETWEEN''" "op \<noteq> ''LIKE''" by blast
  then show ?thesis
  proof cases
    case 1
    show ?thesis
    proof (cases "truthy (filter_field f ''caseInsensitive'') \<and> js_typeof ?v = ''string''")
      case True
      then have "c = (''LOWER('' @ ?col @ '') = LOWER('') @ placeholder i @ '')''" "length ps = 1" using a 1 by auto
      with woven_one [of "''LOWER('' @ ?col @ '') = LOWER(''" i "'')''"] show ?thesis by presburger
    next
      case False
      then have "c = (?col @ '' = '') @ placeholder i @ []" "length ps = 1" using a 1 False by auto
      with woven_one [of "?col @ '' = ''" i "[]"] show ?thesis by presburger
    qed
  next
    case 2
    then have "(\<exists>vs. value_list ?v = Inr vs \<and> c = in_list ?col op i vs \<and> ps = vs)"
      using a by (cases "value_list ?v"; elim disjE; simp)
    then show ?thesis using woven_in_list by blast
  next
    case 3
    then have "c = (?col @ '' '' @ op @ '' '') @ placeholder i @ []" "length ps = 1"
      using a by (auto simp: compare_ops_def)
    with woven_one [of "?col @ '' '' @ op @ '' ''" i "[]"] show ?thesis by presburger
  next
    case 4
    with a have "ps = []" by (elim disjE; simp)
    with woven_text show ?thesis by simp
  next
    case 5
    obtain vs where vs: "value_list ?v = Inr vs" using a 5 by (cases "value_list ?v") simp_all
    have "c = (?col @ '' BETWEEN '') @ placeholder i @ '' AND '' @ placeholder (i + 1) \<and>
      ps = [nth_value vs 0, nth_value vs 1]" using a unfolding 5 vs by simp
    then have "c = (?col @ '' BETWEEN '') @ placeholder i @ '' AND '' @ placeholder (i + 1)" "length ps = 2" by simp_all
    with woven_two [of "?col @ '' BETWEEN ''" i "'' AND ''"] show ?thesis by presburger
  next
    case 6
    then have "c = (?col @ '' ILIKE '') @ placeholder i @ []" "length ps = 1" using a by auto
    with woven_one [of "?col @ '' ILIKE ''" i "[]"] show ?thesis by presburger
  next
    case 7
    with a show ?thesis by (simp add: compare_ops_def)
  qed
qed

lemma join_str_snoc: "join_str s (xs @ [x]) = (if xs = [] then x else join_str s xs @ s @ x)"
  by (induction s xs rule: join_str.induct) auto

lemma filter_clause_None: "filter_clause f i = Inr (None, ps) \<Longrightarrow> ps = []"
  by (cases "filter_field f ''operator''"; cases "value_list (filter_field f ''value'')")
    (auto simp: filter_clause_def Let_def split: if_splits)

lemma where_loop_params: "where_loop fs i cs ps = Inr (cs', ps') \<Longrightarrow> ps' = ps @ concat (map clause_params fs)"
proof (induction fs i cs ps rule: where_loop.induct)
  case (2 f fs i cs ps)
  then obtain c qs where f: "filter_clause f i = Inr (c, qs)" by (auto simp: result_simps)
  with 2(1) [OF f refl] 2(2) filter_clause_params [OF f] show ?case by simp
qed simp

lemma where_loop_woven:
  assumes "where_loop fs i cs ps = Inr (cs', ps')" and "i = start + int (length ps)"
    and "woven (join_str '' AND '' cs) start (length ps)" and "cs = [] \<longrightarrow> ps = []"
  shows "woven (join_str '' AND '' cs') start (length ps')"
  using assms
proof (induction fs i cs ps rule: where_loop.induct)
  case (2 f fs i cs ps)
  then obtain c qs where f: "filter_clause f i = Inr (c, qs)" by (auto simp: result_simps)
  note IH = 2(1) [OF f refl]
  show ?case
  proof (cases c)
    case None
    with f filter_clause_None have "qs = []" by blast
    with IH 2(2-) f None show ?thesis by simp
  next
    case (Some d)
    have d: "woven d (start + int (length ps)) (length qs)" using filter_clause_woven f Some 2(3) by simp
    have "woven (join_str '' AND '' (cs @ [d])) start (length ps + length qs)"
    proof (cases "cs = []")
      case True
      with 2(5) d show ?thesis by simp
    next
      case False
      have "woven (join_str '' AND '' cs @ '' AND '' @ d) start (length ps + length qs)"
        by (rule woven_append [OF 2(4)], rule woven_prefix, rule d)
      with False show ?thesis by (simp add: join_str_snoc)
    qed
    with IH 2(2-) f Some show ?thesis by (simp add: add.assoc)
  qed
qed simp

text \<open>
  a condition rebuilt from a stored filter numbers its parameters correctly.  The clause
  contains the placeholders from the start index on, each once and in the order of the
  parameters, as many as there are parameters; the parameters are the values of the filters
  in their order; and the condition is marked as touching many rows.
\<close>

theorem cursor_where_numbering:
  assumes "cu_ids c = None" and "cu_sourceFilter c = Some (JArr fs)" and "buildWhereFromCursor c start = Inr r"
  shows "woven (wr_clause r) start (length (wr_params r)) \<and> wr_params r = concat (map clause_params fs) \<and> wr_isBulk r"
proof -
  obtain cs ps where l: "where_loop fs start [] [] = Inr (cs, ps)" and r: "wr_clause r = join_str '' AND '' cs"
    "wr_params r = ps" "wr_isBulk r"
    using assms by (auto simp: buildWhereFromCursor_def result_simps split: if_splits)
  have "woven (join_str '' AND '' cs) start (length ps)"
    by (rule where_loop_woven [OF l]) (simp_all add: woven_text)
  with where_loop_params [OF l] r show ?thesis by simp
qed

definition sample_filter :: "string \<Rightarrow> string \<Rightarrow> jsval \<Rightarrow> jsval" where
  "sample_filter f op v = JObj [(''field'', JStr f), (''operator'', JStr op), (''value'', v)]"

definition sample_cursor :: sessionCursor where
  "sample_cursor = (extractCursor 0 [] ''id'' None ''p'' ''d'' ''unknown'')\<lparr>cu_ids := None,
     cu_sourceFilter := Some (JArr [sample_filter ''a'' ''IN'' (JArr [JStr ''x'', JStr ''y'']), sample_filter ''b'' ''IS NULL'' JNull,
       sample_filter ''c'' ''LIKE'' (JStr ''z'')])\<rparr>"

lemma sample_cursor_where: "buildWhereFromCursor sample_cursor 1 = Inr
  \<lparr>wr_clause = dq ''a'' @ '' IN ($1, $2) AND '' @ dq ''b'' @ '' IS NULL AND '' @ dq ''c'' @ '' ILIKE $3'',
   wr_params = [JStr ''x'', JStr ''y'', JStr ''z''], wr_isBulk = True\<rparr>"
  by (simp add: sample_cursor_def sample_filter_def buildWhereFromCursor_def filter_clause_def filter_field_def
      value_list_def in_list_def placeholder_def int_string_def int_digits.simps char_of_def)

theorem cursor_where_numbering_witness:
  "woven (dq ''a'' @ '' IN ($1, $2) AND '' @ dq ''b'' @ '' IS NULL AND '' @ dq ''c'' @ '' ILIKE $3'') 1
     (length [JStr ''x'', JStr ''y'', JStr ''z''])"
proof -
  obtain fs where "cu_ids sample_cursor = None" "cu_sourceFilter sample_cursor = Some (JArr fs)"
    by (simp add: sample_cursor_def)
  from cursor_where_numbering [OF this sample_cursor_where, THEN conjunct1] show ?thesis
    by (simp only: whereResult.simps)
qed

text \<open>
  what a cursor gives back.  For two to fifty rows the condition is an \<open>ANY\<close> over
  exactly the keys of the rows, in their order, whatever filter was passed; for one row it is
  an equality with its key.  For no rows, and for more than fifty rows without a filter, there
  is no condition to build and the call throws.
\<close>

theorem cursor_ids_roundtrip:
  assumes "length rows \<le> 50 \<or> flt = None"
  shows "buildWhereFromCursor (extractCursor now rows pk flt pid descr tbl) i =
     (if rows = [] \<or> 50 < length rows
      then Inl (PlainError ''[SessionCursor] buildWhereFromCursor: cursor has neither ids nor sourceFilter'')
      else if length rows = 1
      then Inr \<lparr>wr_clause = dq pk @ '' = '' @ placeholder i, wr_params = [row_get (hd rows) pk], wr_isBulk = False\<rparr>
      else Inr \<lparr>wr_clause = dq pk @ '' = ANY('' @ placeholder i @ '')'', wr_params = [JArr (map (\<lambda>r. row_get r pk) rows)], wr_isBulk = True\<rparr>)"
proof (cases rows rule: list.exhaust)
  case (Cons r rs)
  with assms show ?thesis
    by (cases rs) (auto simp: buildWhereFromCursor_def extractCursor_def)
qed (simp add: buildWhereFromCursor_def extractCursor_def)

theorem cursor_ids_roundtrip_witness:
  "buildWhereFromCursor (extractCursor 0 [[(''id'', JStr ''a'')], [(''id'', JStr ''b'')]] ''id'' None ''p'' ''d'' ''t'') 3 =
     Inr \<lparr>wr_clause = dq ''id'' @ '' = ANY('' @ placeholder 3 @ '')'', wr_params = [JArr [JStr ''a'', JStr ''b'']], wr_isBulk = True\<rparr>"
  using cursor_ids_roundtrip [of "[[(''id'', JStr ''a'')], [(''id'', JStr ''b'')]]" None 0 "''id''" "''p''" "''d''" "''t''" 3]
  by simp

end
