(* ===== verification/Scheduler.thy ===== *)
theory Scheduler
  imports LoopHelpers Session
begin

text \<open>
  \<open>src/src/scheduler/scheduler.ts\<close>: the run of a pipeline graph, node by node in topological
  order, with budgets, retries, timeouts, error policies, conditionals, loops and merges.

  The world \<open>'w\<close> is what the node implementations and the query executor act on; they are
  parameters of the configuration, take the world and give it back, and may append to the
  trace of the context, which they share.  The clock and \<open>sleep\<close> act on the world too; one
  reading of the clock stands for the readings of one uninterrupted stretch of code.  A
  promise that loses the race against its timer keeps running in the program; here its
  effects come before whatever the scheduler does next.

  Calls that may not return (a fallback that falls back on itself, a cap of zero) are bounded
  by fuel: \<open>executeNode\<close> at fuel 0 is \<open>None\<close>, and a result is never made up.  Branches that
  would really run concurrently are the error \<open>Unmodelled\<close>.
\<close>

section \<open>Configuration and state\<close>

datatype loopMode = ForEach | While

record loopPayload =
  lp_mode :: loopMode
  lp_over :: "exprAST option"
  lp_condition :: "exprAST option"
  lp_iterVar :: string
  lp_indexVar :: "string option"
  lp_maxIterations :: int
  lp_accumulator :: "accumulatorDef option"

text \<open>The payloads the scheduler reads; \<open>'q\<close> is the payload of a query or of another node.\<close>

datatype 'q payload =
    PLoop loopPayload
  | PConditional exprAST
  | PMerge bool 'q
  | PParallel int
  | PQuery 'q
  | POther 'q

text \<open>
  An execution gets the payload, the input, the context, and the step configuration of a form.
  \<open>cf_outputKey\<close> and \<open>cf_filter\<close> read the fields \<open>outputKey\<close> and \<open>intent.filter\<close> of a payload;
  \<open>cf_cursors\<close> tells whether the configuration has a cursor store.
\<close>

record ('q, 'w) nodeDef =
  nd_inputKeys :: "string list"
  nd_execute :: "'q payload \<Rightarrow> dataValue option \<Rightarrow> execContext \<Rightarrow> jsval option \<Rightarrow> 'w \<Rightarrow> jsval res \<times> trace \<times> 'w"

record ('q, 'w) config =
  cf_registry :: "(string \<times> ('q, 'w) nodeDef) list"
  cf_query :: "'q \<Rightarrow> execContext \<Rightarrow> 'w \<Rightarrow> jsval res \<times> trace \<times> 'w"
  cf_host :: host
  cf_fns :: fnRegistry
  cf_maxParallel :: int
  cf_now :: "'w \<Rightarrow> int"
  cf_sleep :: "int \<Rightarrow> 'w \<Rightarrow> 'w"
  cf_steps :: "(string \<times> jsval) list"
  cf_outputKey :: "'q payload \<Rightarrow> string option"
  cf_filter :: "'q payload \<Rightarrow> jsval"
  cf_cursors :: bool

datatype schedEvent =
    EvStart string
  | EvComplete string "dataValue option"
  | EvSkip string string
  | EvError string js_error bool
  | EvFork string "string list"
  | EvMerge string nat
  | EvPipelineComplete "(string \<times> dataValue) list"
  | EvPipelineError js_error

record ('q, 'w) sched =
  sc_es :: "'q payload execState"
  sc_steps :: "(string \<times> jsval) list"
  sc_world :: 'w
  sc_events :: "schedEvent list"

type_synonym ('q, 'w) step = "('q, 'w) sched \<Rightarrow> (unit res \<times> ('q, 'w) sched) option"

definition registry_get :: "('q, 'w) config \<Rightarrow> string \<Rightarrow> ('q, 'w) nodeDef res" where
  "registry_get cf k = (case map_of (cf_registry cf) k of None \<Rightarrow> Inl (UnknownNodeKindError k) | Some d \<Rightarrow> Inr d)"

definition emit :: "schedEvent \<Rightarrow> ('q, 'w) sched \<Rightarrow> ('q, 'w) sched" where
  "emit e s = s\<lparr>sc_events := sc_events s @ [e]\<rparr>"

definition now :: "('q, 'w) config \<Rightarrow> ('q, 'w) sched \<Rightarrow> int" where
  "now cf s = cf_now cf (sc_world s)"

definition on_es :: "('q payload execState \<Rightarrow> 'q payload execState) \<Rightarrow> ('q, 'w) sched \<Rightarrow> ('q, 'w) sched" where
  "on_es f s = s\<lparr>sc_es := f (sc_es s)\<rparr>"

definition on_ctx :: "(execContext \<Rightarrow> execContext) \<Rightarrow> ('q, 'w) sched \<Rightarrow> ('q, 'w) sched" where
  "on_ctx f = on_es (\<lambda>es. es\<lparr>es_ctx := f (es_ctx es)\<rparr>)"

definition on_node :: "string \<Rightarrow> (nodeState \<Rightarrow> nodeState) \<Rightarrow> ('q, 'w) sched \<Rightarrow> ('q, 'w) sched" where
  "on_node n f = on_es (\<lambda>es. case map_of (es_nodeStates es) n of
       None \<Rightarrow> es | Some x \<Rightarrow> es\<lparr>es_nodeStates := al_set n (f x) (es_nodeStates es)\<rparr>)"

definition node_status :: "('q, 'w) sched \<Rightarrow> string \<Rightarrow> nodeStatus option" where
  "node_status s n = map_option nx_status (map_of (es_nodeStates (sc_es s)) n)"

section \<open>Marking nodes\<close>

definition markNodeRunning :: "('q, 'w) config \<Rightarrow> string \<Rightarrow> ('q, 'w) sched \<Rightarrow> ('q, 'w) sched" where
  "markNodeRunning cf n s = on_node n (\<lambda>x. x\<lparr>nx_status := Running, nx_startedAt := Some (now cf s)\<rparr>) s"

definition output_rows :: "dataValue option \<Rightarrow> jsval" where
  "output_rows out = (case out of
       Some (DTabular r sc) \<Rightarrow> JArr (map JObj (rs_rows r))
     | Some (DRecord d sc) \<Rightarrow> JArr [JObj d]
     | Some (DCollection vs k) \<Rightarrow> JArr (map JData vs)
     | _ \<Rightarrow> JArr [])"

definition markNodeCompleted :: "('q, 'w) config \<Rightarrow> string \<Rightarrow> dataValue option \<Rightarrow> ('q, 'w) sched \<Rightarrow> ('q, 'w) sched" where
  "markNodeCompleted cf n out s = on_ctx (\<lambda>c. c\<lparr>nodeOutputs := al_set n (output_rows out) (nodeOutputs c)\<rparr>)
     (on_node n (\<lambda>x. x\<lparr>nx_status := Completed, nx_completedAt := Some (now cf s), nx_output := out\<rparr>) s)"

definition markNodeFailed :: "('q, 'w) config \<Rightarrow> string \<Rightarrow> js_error \<Rightarrow> ('q, 'w) sched \<Rightarrow> ('q, 'w) sched" where
  "markNodeFailed cf n e s = on_node n (\<lambda>x. x\<lparr>nx_status := Failed, nx_completedAt := Some (now cf s), nx_error := Some e\<rparr>) s"

definition markNodeSkipped :: "('q, 'w) config \<Rightarrow> string \<Rightarrow> ('q, 'w) sched \<Rightarrow> ('q, 'w) sched" where
  "markNodeSkipped cf n s = on_node n (\<lambda>x. x\<lparr>nx_status := Skipped, nx_completedAt := Some (now cf s)\<rparr>) s"

definition skip_with :: "('q, 'w) config \<Rightarrow> string \<Rightarrow> string \<Rightarrow> ('q, 'w) sched \<Rightarrow> ('q, 'w) sched" where
  "skip_with cf n reason s = emit (EvSkip n reason) (markNodeSkipped cf n s)"

section \<open>Budget\<close>

definition enhanced_budget_error :: "string \<Rightarrow> int \<Rightarrow> int \<Rightarrow> js_error" where
  "enhanced_budget_error what used limit =
     BudgetExceededError (what @ '' usage '' @ int_string used @ '' exceeds limit '' @ int_string limit)"

definition checkBudget :: "int \<Rightarrow> execBudget \<Rightarrow> string \<Rightarrow> unit res" where
  "checkBudget t b kind = (let rem = budgetRemaining t b in
     if isBudgetExceeded t b \<and> rem_timeMs rem \<le> 0
       then Inl (enhanced_budget_error ''timeout'' (timeoutMs b - rem_timeMs rem) (timeoutMs b))
     else if isBudgetExceeded t b \<and> rem_llmCalls rem \<le> 0
       then Inl (enhanced_budget_error ''llm_calls'' (maxLLMCalls b) (maxLLMCalls b))
     else if isBudgetExceeded t b \<and> rem_iterations rem \<le> 0
       then Inl (enhanced_budget_error ''iterations'' (maxIterations b) (maxIterations b))
     else if kind = ''llm'' \<and> llmCallsUsed b \<ge> maxLLMCalls b
       then Inl (BudgetExceededError ''LLM call budget exhausted'')
     else if t - startedAt b \<ge> timeoutMs b then Inl (BudgetExceededError ''Pipeline timeout exceeded'')
     else Inr ())"

definition incrementLLMBudget :: "execContext \<Rightarrow> execContext" where
  "incrementLLMBudget c = c\<lparr>budget := (budget c)\<lparr>llmCallsUsed := llmCallsUsed (budget c) + 1\<rparr>\<rparr>"

definition incrementIterationBudget :: "execContext \<Rightarrow> execContext" where
  "incrementIterationBudget c = c\<lparr>budget := (budget c)\<lparr>iterationsUsed := iterationsUsed (budget c) + 1\<rparr>\<rparr>"

section \<open>Retries and timeouts\<close>

definition or_default :: "int option \<Rightarrow> int \<Rightarrow> int" where
  "or_default x d = (case x of None \<Rightarrow> d | Some k \<Rightarrow> if k = 0 then d else k)"

definition run_call :: "(execContext \<Rightarrow> 'w \<Rightarrow> jsval res \<times> trace \<times> 'w) \<Rightarrow> ('q, 'w) sched \<Rightarrow> jsval res \<times> ('q, 'w) sched" where
  "run_call call s = (case call (es_ctx (sc_es s)) (sc_world s) of
     (r, t, w) \<Rightarrow> (r, (on_ctx (\<lambda>c. c\<lparr>ctx_trace := t\<rparr>) s)\<lparr>sc_world := w\<rparr>))"

text \<open>\<open>left\<close> counts the attempts still allowed, the one at hand included.\<close>

fun retry_loop :: "('q, 'w) config \<Rightarrow> string \<Rightarrow> int \<Rightarrow> (execContext \<Rightarrow> 'w \<Rightarrow> jsval res \<times> trace \<times> 'w) \<Rightarrow> nat \<Rightarrow> nat \<Rightarrow>
    js_error option \<Rightarrow> ('q, 'w) sched \<Rightarrow> dataValue res \<times> ('q, 'w) sched" where
  "retry_loop cf n delay call 0 attempt err s =
     (Inl (case err of None \<Rightarrow> PlainError ''Execution failed after retries'' | Some e \<Rightarrow> e), s)"
| "retry_loop cf n delay call (Suc left) attempt err s = (case run_call call s of (r, s1) \<Rightarrow>
     (case bindR r wrapLegacyValue of
        Inr v \<Rightarrow> (Inr v, s1)
      | Inl e \<Rightarrow> if unmodelled (Inl e :: dataValue res) then (Inl e, s1)
          else if left = 0 then retry_loop cf n delay call left (Suc attempt) (Some e) s1
          else let s2 = on_node n (\<lambda>x. x\<lparr>nx_retryCount := int attempt + 1\<rparr>) s1
            in retry_loop cf n delay call left (Suc attempt) (Some e)
                 (s2\<lparr>sc_world := cf_sleep cf (delay * 2 ^ attempt) (sc_world s2)\<rparr>)))"

definition step_config :: "('q, 'w) sched \<Rightarrow> string \<Rightarrow> jsval option" where
  "step_config s n = (case map_of (sc_steps s) n of Some v \<Rightarrow> if truthy v then Some v else None | None \<Rightarrow> None)"

definition executeWithRetry :: "('q, 'w) config \<Rightarrow> 'q payload node \<Rightarrow> ('q, 'w) nodeDef \<Rightarrow> dataValue option \<Rightarrow>
    ('q, 'w) sched \<Rightarrow> dataValue res \<times> ('q, 'w) sched" where
  "executeWithRetry cf nd def inp s = retry_loop cf (n_id nd) (or_default (retryDelayMs (n_errorPolicy nd)) 1000)
     (\<lambda>c. nd_execute def (n_payload nd) inp c (step_config s (n_id nd)))
     (nat (or_default (maxRetries (n_errorPolicy nd)) 0 + 1)) 0 None s"

definition executeWithTimeout :: "('q, 'w) config \<Rightarrow> int \<Rightarrow> string \<Rightarrow> (('q, 'w) sched \<Rightarrow> 'a res \<times> ('q, 'w) sched) \<Rightarrow>
    ('q, 'w) sched \<Rightarrow> 'a res \<times> ('q, 'w) sched" where
  "executeWithTimeout cf limit n promise s = (case promise s of (r, s') \<Rightarrow>
     (if now cf s' - now cf s < limit \<or> unmodelled r then r else Inl (NodeTimeoutError n limit), s'))"

section \<open>Subgraphs\<close>

text \<open>The scheduler's own test lets a skipped source pass.\<close>

definition sched_ready :: "string \<Rightarrow> ('q, 'w) sched \<Rightarrow> bool" where
  "sched_ready n s \<longleftrightarrow> node_status s n = Some Pending \<and>
     list_all (\<lambda>e. node_status s (e_from e) = Some Completed \<or> node_status s (e_from e) = Some Skipped)
       (getIncomingDataEdges (es_graph (sc_es s)) n) \<and>
     isControlPathActive n (es_graph (sc_es s)) (sc_es s)"

definition getReachableNodes :: "string \<Rightarrow> 'p graph \<Rightarrow> string list" where
  "getReachableNodes start g = bfs (\<lambda>_. True) (data_arrows g) [start] []"

fun run_list :: "(string \<Rightarrow> ('q, 'w) step) \<Rightarrow> string list \<Rightarrow> ('q, 'w) step" where
  "run_list visit [] s = Some (Inr (), s)"
| "run_list visit (n # ns) s = Option.bind (visit n s) (\<lambda>(r, s').
     case r of Inl e \<Rightarrow> Some (Inl e, s') | Inr _ \<Rightarrow> run_list visit ns s')"

definition subgraph_visit :: "('q, 'w) config \<Rightarrow> (string \<Rightarrow> ('q, 'w) step) \<Rightarrow> 'q payload graph \<Rightarrow> string \<Rightarrow> ('q, 'w) step" where
  "subgraph_visit cf run g n s =
     (if node_status s n \<noteq> Some Pending then Some (Inr (), s)
      else if shouldSkipNode n g (sc_es s) then Some (Inr (), skip_with cf n ''Control path inactive'' s)
      else run n s)"

definition executeSubgraph :: "('q, 'w) config \<Rightarrow> (string \<Rightarrow> ('q, 'w) step) \<Rightarrow> 'q payload graph \<Rightarrow> string \<Rightarrow>
    dataValue option \<Rightarrow> ('q, 'w) step" where
  "executeSubgraph cf run g start inp s =
     (let s1 = (case inp of None \<Rightarrow> s | Some v \<Rightarrow>
            on_node start (\<lambda>x. x\<lparr>nx_output := Some v, nx_status := Completed, nx_completedAt := Some (now cf s)\<rparr>) s)
      in case topologicalSort g of Inl e \<Rightarrow> Some (Inl e, s1)
       | Inr order \<Rightarrow> run_list (subgraph_visit cf run g)
           (filter (\<lambda>n. n \<in> set (getReachableNodes start g) \<and> node_status s1 n = Some Pending) order) s1)"

text \<open>
  Batches of one branch run one after the other.  A cap of zero never advances; larger
  batches are concurrent and outside the model.
\<close>

definition executeParallel :: "('q, 'w) config \<Rightarrow> (string \<Rightarrow> ('q, 'w) step) \<Rightarrow> 'q payload graph \<Rightarrow> string \<Rightarrow> int \<Rightarrow> ('q, 'w) step" where
  "executeParallel cf run g n maxConcurrency s =
     (let branches = map e_to (getOutgoingDataEdges g n);
          s1 = emit (EvFork n branches) s;
          cap = min maxConcurrency (cf_maxParallel cf)
      in case getNodeInputs n g (sc_es s1) of Inl e \<Rightarrow> Some (Inl e, s1)
       | Inr inputs \<Rightarrow>
           if branches \<noteq> [] \<and> cap = 0 then None
           else if branches \<noteq> [] \<and> (cap < 0 \<or> cap > 1 \<and> length branches > 1)
             then Some (Inl (Unmodelled ''concurrent branches''), s1)
           else Option.bind (run_list (\<lambda>b. executeSubgraph cf run g b (map_of inputs ''input'')) branches s1) (\<lambda>(r, s2). case r of
               Inl e \<Rightarrow> Some (Inl e, s2)
             | Inr _ \<Rightarrow> Some (Inr (), markNodeCompleted cf n (map_of inputs ''input'') s2)))"

section \<open>Conditionals\<close>

definition predicate_row :: "dataValue option \<Rightarrow> row option" where
  "predicate_row inp = (case inp of
       Some (DTabular r sc) \<Rightarrow> (case rs_rows r of [] \<Rightarrow> None | row # _ \<Rightarrow> Some row)
     | Some (DRecord d sc) \<Rightarrow> Some d
     | Some (DScalar v t) \<Rightarrow> Some [(''value'', v)]
     | _ \<Rightarrow> None)"

definition edge_fires :: "bool \<Rightarrow> edge \<Rightarrow> bool" where
  "edge_fires b e \<longleftrightarrow> e_condition e = Some CondAlways \<or> b \<and> e_condition e = Some CondTrue \<or>
     \<not> b \<and> e_condition e = Some CondFalse"

definition decide_edges :: "bool \<Rightarrow> edge list \<Rightarrow> 'p execState \<Rightarrow> 'p execState" where
  "decide_edges b es st = foldl (\<lambda>st e. if edge_fires b e then activateEdge st (e_id e) else deactivateEdge st (e_id e)) st es"

definition skip_pending :: "('q, 'w) config \<Rightarrow> string \<Rightarrow> string \<Rightarrow> ('q, 'w) sched \<Rightarrow> ('q, 'w) sched" where
  "skip_pending cf reason n s = (if node_status s n = Some Pending then skip_with cf n reason s else s)"

definition executeConditional :: "('q, 'w) config \<Rightarrow> 'q payload graph \<Rightarrow> string \<Rightarrow> exprAST \<Rightarrow> ('q, 'w) sched \<Rightarrow>
    unit res \<times> ('q, 'w) sched" where
  "executeConditional cf g n predicate s = (case getNodeInputs n g (sc_es s) of
       Inl e \<Rightarrow> (Inl e, s)
     | Inr inputs \<Rightarrow> (let inp = map_of inputs ''input'' in
         case evaluate (cf_host cf) (cf_fns cf) predicate (ctx_scope (es_ctx (sc_es s))) (predicate_row inp) of
           Inl e \<Rightarrow> (Inl e, s)
         | Inr v \<Rightarrow> (case v of
             JBool b \<Rightarrow> let
               s1 = on_es (decide_edges b (getOutgoingControlEdges g n)) s;
               s2 = emit (EvComplete n inp) (markNodeCompleted cf n inp s1)
               in (Inr (), foldl (\<lambda>s m. skip_pending cf ''inactive conditional branch'' m s) s2
                     (getNodesOnInactiveBranches g n (sc_es s2)))
           | _ \<Rightarrow> (Inl (TypeError (''ConditionalNode predicate must return boolean, got '' @ js_typeof v)), s))))"

section \<open>Loops\<close>

definition externally_fed :: "'p graph \<Rightarrow> string \<Rightarrow> string list \<Rightarrow> string list \<Rightarrow> string \<Rightarrow> bool" where
  "externally_fed g loopId visited queue n \<longleftrightarrow> list_ex (\<lambda>e. e_from e \<noteq> loopId \<and> e_from e \<notin> set visited \<and>
     e_from e \<notin> set queue) (getIncomingDataEdges g n)"

fun body_push :: "'p graph \<Rightarrow> string \<Rightarrow> string list \<Rightarrow> string list \<Rightarrow> string list \<Rightarrow> string list" where
  "body_push g loopId visited [] queue = queue"
| "body_push g loopId visited (n # ns) queue = body_push g loopId visited ns
     (if externally_fed g loopId visited queue n then queue else queue @ [n])"

lemma body_push_subset: "set (body_push g l visited ns queue) \<subseteq> set queue \<union> set ns"
  by (induction g l visited ns queue rule: body_push.induct) auto

lemma outgoing_targets: "map e_to (getOutgoingDataEdges g n) = targets (data_arrows g) n"
  by (simp add: getOutgoingDataEdges_def targets_def data_arrows_def arrow_def comp_def filter_map is_data_def
      conj_commute)

function body_bfs :: "'p graph \<Rightarrow> string \<Rightarrow> string list \<Rightarrow> string list \<Rightarrow> string list" where
  "body_bfs g loopId [] visited = visited"
| "body_bfs g loopId (n # queue) visited =
     (if n \<in> set visited then body_bfs g loopId queue visited
      else body_bfs g loopId (body_push g loopId (visited @ [n]) (map e_to (getOutgoingDataEdges g n)) queue) (visited @ [n]))"
  by pat_completeness auto
termination
proof (relation "measures [\<lambda>(g, l, q, v). bfs_pending (data_arrows g) q v, \<lambda>(g, l, q, v). length q]")
  fix g :: "'p graph" and loopId queue visited and n :: string
  show "((g, loopId, queue, visited), g, loopId, n # queue, visited)
    \<in> measures [\<lambda>(g, l, q, v). bfs_pending (data_arrows g) q v, \<lambda>(g, l, q, v). length q]"
    using bfs_pending_skip [of "data_arrows g" queue visited n] by auto
next
  fix g :: "'p graph" and loopId queue visited and n :: string
  assume "n \<notin> set visited"
  moreover have "bfs_pending (data_arrows g) (body_push g loopId (visited @ [n]) (map e_to (getOutgoingDataEdges g n)) queue) (visited @ [n])
      \<le> bfs_pending (data_arrows g) (queue @ targets (data_arrows g) n) (visited @ [n])"
    unfolding bfs_pending_def outgoing_targets
    using body_push_subset [of g loopId "visited @ [n]" "targets (data_arrows g) n" queue]
    by (intro card_mono) (auto simp del: set_targets)
  ultimately show "((g, loopId, body_push g loopId (visited @ [n]) (map e_to (getOutgoingDataEdges g n)) queue, visited @ [n]),
      g, loopId, n # queue, visited) \<in> measures [\<lambda>(g, l, q, v). bfs_pending (data_arrows g) q v, \<lambda>(g, l, q, v). length q]"
    using bfs_pending_visit [of n visited "data_arrows g" queue] by auto
qed simp

definition getBodyNodeIds :: "string \<Rightarrow> 'p graph \<Rightarrow> string list" where
  "getBodyNodeIds loopId g = body_bfs g loopId (map e_to (getOutgoingDataEdges g loopId)) []"

record ('q, 'w) loopEnv =
  le_cf :: "('q, 'w) config"
  le_run :: "string \<Rightarrow> ('q, 'w) step"
  le_graph :: "'q payload graph"
  le_loop :: string
  le_payload :: loopPayload
  le_start :: string
  le_body :: "string list"
  le_max :: int

definition count_val :: "int \<Rightarrow> jsval" where
  "count_val n = JNum (num_of_int n)"

definition bind_var :: "string option \<Rightarrow> jsval \<Rightarrow> execContext \<Rightarrow> execContext" where
  "bind_var x v c = (case x of None \<Rightarrow> c
     | Some n \<Rightarrow> if n = [] then c else c\<lparr>ctx_scope := scopeSet (ctx_scope c) n v\<rparr>)"

text \<open>
  An iteration runs the body in a forked state whose context shares the trace, the budget and
  the node outputs of the outer one; these flow back, the scope does not.  The forked state
  has no intent, so the body nodes find no step configuration.
\<close>

definition rejoin :: "('q, 'w) sched \<Rightarrow> ('q, 'w) sched \<Rightarrow> ('q, 'w) sched" where
  "rejoin outer inner = inner\<lparr>sc_steps := sc_steps outer, sc_es := (sc_es outer)\<lparr>es_ctx := (es_ctx (sc_es outer))
     \<lparr>ctx_trace := ctx_trace (es_ctx (sc_es inner)), budget := budget (es_ctx (sc_es inner)),
      nodeOutputs := nodeOutputs (es_ctx (sc_es inner))\<rparr>\<rparr>\<rparr>"

definition loop_iteration :: "('q, 'w) loopEnv \<Rightarrow> (execContext \<Rightarrow> execContext) \<Rightarrow> dataValue \<Rightarrow> dataValue \<Rightarrow> ('q, 'w) sched \<Rightarrow>
    (dataValue res \<times> ('q, 'w) sched) option" where
  "loop_iteration le binds item acc s =
     (let iterCtx = binds (contextPushScope (es_ctx (sc_es s)) SkLoop);
          inner = s\<lparr>sc_es := forkStateForIteration (now (le_cf le) s) (sc_es s) iterCtx (le_body le) (le_loop le) item, sc_steps := []\<rparr>
      in Option.bind (executeSubgraph (le_cf le) (le_run le) (le_graph le) (le_start le) None inner) (\<lambda>(r, inner').
        case r of Inl e \<Rightarrow> Some (Inl e, rejoin s inner')
        | Inr _ \<Rightarrow> (case loopUpdateAccumulator (cf_host (le_cf le)) (cf_fns (le_cf le)) (lp_accumulator (le_payload le)) acc
              (case getSubgraphOutput (le_body le) (le_graph le) (sc_es inner') of None \<Rightarrow> DVoid | Some v \<Rightarrow> v)
              (ctx_scope (es_ctx (sc_es inner'))) of
            Inl e \<Rightarrow> Some (Inl e, rejoin s inner')
          | Inr acc' \<Rightarrow> Some (Inr acc', on_ctx incrementIterationBudget (rejoin s inner')))))"

fun for_each :: "('q, 'w) loopEnv \<Rightarrow> dataValue list \<Rightarrow> int \<Rightarrow> dataValue \<Rightarrow> ('q, 'w) sched \<Rightarrow>
    (dataValue res \<times> ('q, 'w) sched) option" where
  "for_each le [] iter acc s = Some (Inr acc, s)"
| "for_each le (item # items) iter acc s =
     (if iter \<ge> le_max le then Some (Inr acc, s)
      else Option.bind (loop_iteration le (\<lambda>c. bind_var (lp_indexVar (le_payload le)) (count_val iter)
          (c\<lparr>ctx_scope := scopeSet (ctx_scope c) (lp_iterVar (le_payload le)) (JData item)\<rparr>)) item acc s) (\<lambda>(r, s').
        case r of Inl e \<Rightarrow> Some (Inl e, s') | Inr acc' \<Rightarrow> for_each le items (iter + 1) acc' s'))"

text \<open>\<open>left\<close> is the number of iterations still allowed.\<close>

fun while_loop :: "('q, 'w) loopEnv \<Rightarrow> dataValue \<Rightarrow> nat \<Rightarrow> int \<Rightarrow> dataValue \<Rightarrow> ('q, 'w) sched \<Rightarrow>
    (dataValue res \<times> ('q, 'w) sched) option" where
  "while_loop le loopInput 0 iter acc s = Some (Inr acc, s)"
| "while_loop le loopInput (Suc left) iter acc s =
     (let s1 = on_ctx (\<lambda>c. bind_var (lp_indexVar (le_payload le)) (count_val iter)
            (bind_var (Some (lp_iterVar (le_payload le))) (count_val iter) c)) s
      in case eval_opt (cf_host (le_cf le)) (cf_fns (le_cf le)) (lp_condition (le_payload le)) (ctx_scope (es_ctx (sc_es s1))) None of
          Inl e \<Rightarrow> Some (Inl e, s1)
        | Inr v \<Rightarrow> (case v of
            JBool b \<Rightarrow> if \<not> b then Some (Inr acc, s1)
              else Option.bind (loop_iteration le (bind_var (Some (lp_iterVar (le_payload le))) (count_val iter)) loopInput acc s1)
                (\<lambda>(r, s'). case r of Inl e \<Rightarrow> Some (Inl e, s')
                  | Inr acc' \<Rightarrow> while_loop le loopInput left (iter + 1) acc' s')
          | _ \<Rightarrow> Some (Inl (TypeError ''while condition must return boolean''), s1)))"

definition complete_body :: "('q, 'w) config \<Rightarrow> string list \<Rightarrow> ('q, 'w) sched \<Rightarrow> ('q, 'w) sched" where
  "complete_body cf body s = on_es (\<lambda>es. es\<lparr>es_nodeStates :=
     foldl (\<lambda>m n. al_set n (completed_state (now cf s) None) m) (es_nodeStates es) body\<rparr>) s"

definition loop_items :: "('q, 'w) config \<Rightarrow> loopPayload \<Rightarrow> ('q, 'w) sched \<Rightarrow> dataValue list res" where
  "loop_items cf lp s = bindR (eval_opt (cf_host cf) (cf_fns cf) (lp_over lp) (ctx_scope (es_ctx (sc_es s))) None)
     (\<lambda>v. mapRes toIterableArray (wrapLegacyValue v))"

definition run_loop :: "('q, 'w) loopEnv \<Rightarrow> dataValue option \<Rightarrow> dataValue \<Rightarrow> ('q, 'w) sched \<Rightarrow>
    (dataValue res \<times> ('q, 'w) sched) option" where
  "run_loop le inp acc s = (case lp_mode (le_payload le) of
       ForEach \<Rightarrow> (case loop_items (le_cf le) (le_payload le) s of
           Inl e \<Rightarrow> Some (Inl e, s) | Inr items \<Rightarrow> for_each le items 0 acc s)
     | While \<Rightarrow> while_loop le (case inp of None \<Rightarrow> DVoid | Some v \<Rightarrow> v) (nat (le_max le)) 0 acc s)"

definition loop_scope_value :: "(string \<times> dataValue) list \<Rightarrow> jsval" where
  "loop_scope_value inputs = (case map_of inputs ''input'' of Some v \<Rightarrow> JData v
     | None \<Rightarrow> (case inputs of [] \<Rightarrow> JNull | (k, v) # _ \<Rightarrow> JData v))"

definition loop_env :: "('q, 'w) config \<Rightarrow> (string \<Rightarrow> ('q, 'w) step) \<Rightarrow> 'q payload graph \<Rightarrow> string \<Rightarrow> loopPayload \<Rightarrow> string \<Rightarrow>
    ('q, 'w) sched \<Rightarrow> ('q, 'w) loopEnv" where
  "loop_env cf run g n lp start s = \<lparr>le_cf = cf, le_run = run, le_graph = g, le_loop = n, le_payload = lp,
     le_start = start, le_body = getBodyNodeIds n g,
     le_max = min (lp_maxIterations lp) (maxIterations (budget (es_ctx (sc_es s))))\<rparr>"

definition executeLoop :: "('q, 'w) config \<Rightarrow> (string \<Rightarrow> ('q, 'w) step) \<Rightarrow> 'q payload graph \<Rightarrow> string \<Rightarrow> loopPayload \<Rightarrow> ('q, 'w) step" where
  "executeLoop cf run g n lp s = (case getNodeInputs n g (sc_es s) of
       Inl e \<Rightarrow> Some (Inl e, s)
     | Inr inputs \<Rightarrow>
         (let s1 = on_ctx (\<lambda>c. c\<lparr>ctx_scope := scopeSet (ctx_scope c) ''input'' (loop_scope_value inputs)\<rparr>) s
          in case getOutgoingDataEdges g n of
            [] \<Rightarrow> Some (Inl (PlainError ''LoopNode has no body (no outgoing data edges)''), s1)
          | e # es \<Rightarrow> (case wrapLegacyValue (JData (initAccumulator (lp_accumulator lp))) of
              Inl er \<Rightarrow> Some (Inl er, s1)
            | Inr acc \<Rightarrow> Option.bind (run_loop (loop_env cf run g n lp (e_to e) s1) (map_of inputs ''input'') acc s1) (\<lambda>(r, s2). case r of
                Inl er \<Rightarrow> Some (Inl er, s2)
              | Inr out \<Rightarrow> Some (Inr (), emit (EvComplete n (Some out))
                  (markNodeCompleted cf n (Some out) (complete_body cf (getBodyNodeIds n g) s2)))))))"

section \<open>Merges\<close>

definition status_name :: "nodeStatus \<Rightarrow> string" where
  "status_name s = (case s of Pending \<Rightarrow> ''pending'' | Running \<Rightarrow> ''running'' | Completed \<Rightarrow> ''completed''
     | Failed \<Rightarrow> ''failed'' | Skipped \<Rightarrow> ''skipped'')"

fun merge_inputs :: "bool \<Rightarrow> (string \<times> nodeState) list \<Rightarrow> edge list \<Rightarrow> dataValue list res" where
  "merge_inputs wait states [] = Inr []"
| "merge_inputs wait states (e # es) = (case map_of states (e_from e) of
      None \<Rightarrow> merge_inputs wait states es
    | Some x \<Rightarrow> (case (nx_status x, nx_output x) of
        (Completed, Some v) \<Rightarrow> mapRes (\<lambda>vs. v # vs) (merge_inputs wait states es)
      | (Skipped, _) \<Rightarrow> merge_inputs wait states es
      | (st, _) \<Rightarrow> if wait then Inl (PlainError (''MergeNode waiting for node '' @ e_from e @ '' but it is '' @ status_name st))
          else merge_inputs wait states es))"

text \<open>
  The merge node gets the inputs as a collection without an \<open>itemKind\<close>; its result is stored
  without being wrapped, so it has to be a data value or undefined.  The dash in the message
  for no inputs is an ASCII one here.
\<close>

definition stored_output :: "jsval \<Rightarrow> dataValue option res" where
  "stored_output v = (case v of JData d \<Rightarrow> Inr (Some d) | JUndef \<Rightarrow> Inr None
     | _ \<Rightarrow> Inl (Unmodelled ''node output that is not a DataValue''))"

definition executeMerge :: "('q, 'w) config \<Rightarrow> 'q payload graph \<Rightarrow> 'q payload node \<Rightarrow> ('q, 'w) nodeDef \<Rightarrow> string \<Rightarrow> bool \<Rightarrow>
    ('q, 'w) sched \<Rightarrow> unit res \<times> ('q, 'w) sched" where
  "executeMerge cf g nd def n wait s = (case bindR (getNodeInputs n g (sc_es s))
       (\<lambda>_. merge_inputs wait (es_nodeStates (sc_es s)) (getIncomingDataEdges g n)) of
       Inl e \<Rightarrow> (Inl e, s)
     | Inr [] \<Rightarrow> (Inl (PlainError ''MergeNode received no inputs - all branches skipped or failed''), s)
     | Inr [v] \<Rightarrow> (Inr (), emit (EvComplete n (Some (safe_item v))) (markNodeCompleted cf n (Some (safe_item v)) s))
     | Inr vs \<Rightarrow> (case run_call (\<lambda>c. nd_execute def (n_payload nd) (Some (DCollection vs KAny)) c None) (markNodeRunning cf n s) of
         (r, s1) \<Rightarrow> (case bindR r stored_output of
             Inl e \<Rightarrow> (Inl e, s1)
           | Inr out \<Rightarrow> (Inr (), emit (EvMerge n (length vs)) (emit (EvComplete n out) (markNodeCompleted cf n out s1))))))"

section \<open>Error policies\<close>

definition traceError :: "string \<Rightarrow> js_error \<Rightarrow> trace \<Rightarrow> trace" where
  "traceError n e t = traceEvent t ((mk_event n TkError)\<lparr>te_error := Some (error_message e),
     te_errorDetails := Some \<lparr>be_message = error_message e, be_category = ''system'', be_severity = ''error'', be_nodeId = Some n\<rparr>\<rparr>)"

definition fail_node :: "('q, 'w) config \<Rightarrow> string \<Rightarrow> js_error \<Rightarrow> ('q, 'w) step" where
  "fail_node cf n e s = Some (Inl e, emit (EvPipelineError e) (emit (EvError n e False) (markNodeFailed cf n e s)))"

definition skipped_output :: "('q, 'w) nodeDef \<Rightarrow> (string \<times> dataValue) list \<Rightarrow> dataValue" where
  "skipped_output def inputs = (if nd_inputKeys def = [''input'']
     then (case map_of inputs ''input'' of None \<Rightarrow> DVoid | Some v \<Rightarrow> v) else DCollection (map snd inputs) KAny)"

definition handleNodeError :: "('q, 'w) config \<Rightarrow> (string \<Rightarrow> ('q, 'w) step) \<Rightarrow> 'q payload graph \<Rightarrow> 'q payload node \<Rightarrow>
    ('q, 'w) nodeDef \<Rightarrow> js_error \<Rightarrow> ('q, 'w) step" where
  "handleNodeError cf run g nd def e s = (let n = n_id nd in case onError (n_errorPolicy nd) of
       OnFail \<Rightarrow> fail_node cf n e s
     | OnRetry \<Rightarrow> fail_node cf n e s
     | OnSkip \<Rightarrow> (case getNodeInputs n g (sc_es s) of
         Inl er \<Rightarrow> Some (Inl er, s)
       | Inr inputs \<Rightarrow> Some (Inr (), emit (EvSkip n (error_message e))
           (on_node n (\<lambda>x. x\<lparr>nx_output := Some (skipped_output def inputs)\<rparr>) (markNodeSkipped cf n s))))
     | OnFallback \<Rightarrow> (let s1 = skip_with cf n ''Using fallback'' s in
         case fallbackNodeId (n_errorPolicy nd) of
           None \<Rightarrow> Some (Inr (), s1)
         | Some f \<Rightarrow> if f = [] then Some (Inr (), s1) else run f s1))"

section \<open>One node\<close>

text \<open>Several inputs are merged into one row; the rows of query nodes win.\<close>

definition input_row :: "dataValue \<Rightarrow> row option" where
  "input_row v = (case v of DTabular r s \<Rightarrow> (case rs_rows r of [] \<Rightarrow> None | row # _ \<Rightarrow> Some row)
     | DRecord d s \<Rightarrow> Some d | _ \<Rightarrow> None)"

definition add_missing :: "row \<Rightarrow> row \<Rightarrow> row" where
  "add_missing m r = foldl (\<lambda>m (k, v). if al_has k m then m else row_set k v m) m r"

definition from_query :: "'p graph \<Rightarrow> string \<Rightarrow> bool" where
  "from_query g k \<longleftrightarrow> (case map_of (g_nodes g) k of None \<Rightarrow> False | Some nd \<Rightarrow> n_kind nd = ''query'')"

definition fan_in :: "'p graph \<Rightarrow> (string \<times> dataValue) list \<Rightarrow> row" where
  "fan_in g inputs = (let rows = (\<lambda>P. List.map_filter (\<lambda>(k, v). if P k then input_row v else None) inputs)
     in foldl add_missing (foldl row_assign [] (rows (from_query g))) (rows (\<lambda>k. \<not> from_query g k)))"

definition actual_input :: "'p graph \<Rightarrow> (string \<times> dataValue) list \<Rightarrow> dataValue option" where
  "actual_input g inputs = (case inputs of [] \<Rightarrow> None | [(k, v)] \<Rightarrow> Some v
     | _ \<Rightarrow> (let m = fan_in g inputs in Some (DTabular (RowSet (any_schema m) [m]) (any_schema m))))"

definition executeQuery :: "('q, 'w) config \<Rightarrow> string \<Rightarrow> 'q \<Rightarrow> ('q, 'w) sched \<Rightarrow> unit res \<times> ('q, 'w) sched" where
  "executeQuery cf n q s = (case run_call (cf_query cf q) s of
       (Inl e, s1) \<Rightarrow> (Inl e, s1)
     | (Inr v, s1) \<Rightarrow> (case executeWithTimeout cf 30000 n (run_call (cf_query cf q)) s1 of (r, s2) \<Rightarrow>
         (case bindR r wrapLegacyValue of
            Inl e \<Rightarrow> (Inl e, s2)
          | Inr out \<Rightarrow> (Inr (), emit (EvComplete n (Some out)) (markNodeCompleted cf n (Some out) s2)))))"

definition catch_error :: "('q, 'w) config \<Rightarrow> (string \<Rightarrow> ('q, 'w) step) \<Rightarrow> 'q payload graph \<Rightarrow> 'q payload node \<Rightarrow>
    ('q, 'w) nodeDef \<Rightarrow> string \<Rightarrow> js_error \<Rightarrow> ('q, 'w) step" where
  "catch_error cf run g nd def n e s = (if unmodelled (Inl e :: unit res) then Some (Inl e, s)
     else handleNodeError cf run g nd def e (on_ctx (\<lambda>c. c\<lparr>ctx_trace := traceError n e (ctx_trace c)\<rparr>) s))"

definition executeStandard :: "('q, 'w) config \<Rightarrow> (string \<Rightarrow> ('q, 'w) step) \<Rightarrow> 'q payload graph \<Rightarrow> 'q payload node \<Rightarrow>
    ('q, 'w) nodeDef \<Rightarrow> string \<Rightarrow> ('q, 'w) step" where
  "executeStandard cf run g nd def n s = (case getNodeInputs n g (sc_es s) of
       Inl e \<Rightarrow> catch_error cf run g nd def n e s
     | Inr inputs \<Rightarrow>
         (let s1 = markNodeRunning cf n s;
              limit = min (rem_timeMs (budgetRemaining (now cf s1) (budget (es_ctx (sc_es s1))))) 30000
          in case executeWithTimeout cf limit n (executeWithRetry cf nd def (actual_input g inputs)) s1 of (r, s2) \<Rightarrow>
            (case r of
               Inr out \<Rightarrow> Some (Inr (), emit (EvComplete n (Some out)) (markNodeCompleted cf n (Some out)
                 (if n_kind nd = ''llm'' then on_ctx incrementLLMBudget s2 else s2)))
             | Inl e \<Rightarrow> catch_error cf run g nd def n e s2)))"

definition dispatch :: "('q, 'w) config \<Rightarrow> (string \<Rightarrow> ('q, 'w) step) \<Rightarrow> 'q payload graph \<Rightarrow> 'q payload node \<Rightarrow>
    ('q, 'w) nodeDef \<Rightarrow> string \<Rightarrow> ('q, 'w) step" where
  "dispatch cf run g nd def n s =
     (if n_kind nd \<in> {''parallel'', ''conditional'', ''loop'', ''merge'', ''query''} then
        (case (n_kind nd, n_payload nd) of
           (k, PParallel m) \<Rightarrow> if k = ''parallel'' then executeParallel cf run g n m s else Some (Inl (Unmodelled ''payload''), s)
         | (k, PConditional p) \<Rightarrow> if k = ''conditional'' then Some (executeConditional cf g n p s) else Some (Inl (Unmodelled ''payload''), s)
         | (k, PLoop lp) \<Rightarrow> if k = ''loop'' then executeLoop cf run g n lp s else Some (Inl (Unmodelled ''payload''), s)
         | (k, PMerge w q) \<Rightarrow> if k = ''merge'' then Some (executeMerge cf g nd def n w s) else Some (Inl (Unmodelled ''payload''), s)
         | (k, PQuery q) \<Rightarrow> if k = ''query'' then Some (executeQuery cf n q s) else Some (Inl (Unmodelled ''payload''), s)
         | _ \<Rightarrow> Some (Inl (Unmodelled ''payload''), s))
      else executeStandard cf run g nd def n s)"

fun executeNode :: "nat \<Rightarrow> ('q, 'w) config \<Rightarrow> 'q payload graph \<Rightarrow> string \<Rightarrow> ('q, 'w) step" where
  "executeNode 0 cf g n s = None"
| "executeNode (Suc fuel) cf g n s = (case map_of (g_nodes g) n of
      None \<Rightarrow> Some (Inl (PlainError (''Node '' @ n @ '' not found in graph'')), s)
    | Some nd \<Rightarrow> (case bindR (checkBudget (now cf s) (budget (es_ctx (sc_es s))) (n_kind nd)) (\<lambda>_. registry_get cf (n_kind nd)) of
        Inl e \<Rightarrow> Some (Inl e, s)
      | Inr def \<Rightarrow> dispatch cf (executeNode fuel cf g) g nd def n (emit (EvStart n) s)))"

section \<open>The run\<close>

definition validation_message :: "validationError \<Rightarrow> string" where
  "validation_message e = (case e of
       CYCLE_DETECTED c \<Rightarrow> ''Cycle detected in graph: '' @ join_str '' -> '' c
     | CYCLE_DETECTION_FAILED \<Rightarrow> ''Failed to detect cycles''
     | ENTRY_NODE_MISSING n \<Rightarrow> ''Entry node '' @ quoted n @ '' does not exist in graph''
     | ENTRY_NODE_HAS_INPUTS n \<Rightarrow> ''Entry node '' @ quoted n @ '' should have no incoming data edges''
     | EXIT_NODE_MISSING n \<Rightarrow> ''Exit node '' @ quoted n @ '' does not exist in graph''
     | EXIT_NODE_HAS_OUTPUTS \<Rightarrow> ''Exit node '' @ quoted ''_output'' @ '' should have no outgoing data edges''
     | EDGE_SOURCE_INVALID i n \<Rightarrow> ''Edge '' @ quoted i @ '' references non-existent source node '' @ quoted n
     | EDGE_TARGET_INVALID i n \<Rightarrow> ''Edge '' @ quoted i @ '' references non-existent target node '' @ quoted n
     | ORPHANED_NODE n \<Rightarrow> ''Node '' @ quoted n @ '' has no incoming edges (orphaned)''
     | UNKNOWN_NODE_KIND n k \<Rightarrow> ''Node '' @ quoted n @ '' has unknown kind '' @ quoted k)"

definition init_sched :: "'q payload graph \<Rightarrow> execContext \<Rightarrow> (string \<times> jsval) list \<Rightarrow> 'w \<Rightarrow> ('q, 'w) sched" where
  "init_sched g c steps w = \<lparr>sc_es = \<lparr>es_graph = g, es_nodeStates = map (\<lambda>n. (n, pending_state)) (node_ids g), es_ctx = c,
     es_activated = [], es_deactivated = []\<rparr>, sc_steps = steps, sc_world = w, sc_events = []\<rparr>"

definition run_visit :: "nat \<Rightarrow> ('q, 'w) config \<Rightarrow> 'q payload graph \<Rightarrow> string \<Rightarrow> ('q, 'w) step" where
  "run_visit fuel cf g n s =
     (if node_status s n = Some Completed \<or> node_status s n = Some Skipped then Some (Inr (), s)
      else if shouldSkipNode n g (sc_es s) then Some (Inr (), skip_with cf n ''Control path inactive'' s)
      else case getNodeInputs n g (sc_es s) of Inl e \<Rightarrow> Some (Inl e, s)
        | Inr _ \<Rightarrow> if \<not> sched_ready n s then Some (Inr (), skip_with cf n ''Dependencies not met'' s)
            else executeNode fuel cf g n s)"

definition node_output :: "('q, 'w) sched \<Rightarrow> string \<Rightarrow> dataValue option" where
  "node_output s n = Option.bind (map_of (es_nodeStates (sc_es s)) n) nx_output"

definition exit_outputs :: "'q payload graph \<Rightarrow> ('q, 'w) sched \<Rightarrow> (string \<times> dataValue) list" where
  "exit_outputs g s = foldl (\<lambda>m x. case node_output s x of None \<Rightarrow> m | Some v \<Rightarrow> al_set x v m) [] (exitNodes g)"

definition collect_outputs :: "('q, 'w) config \<Rightarrow> 'q payload graph \<Rightarrow> ('q, 'w) sched \<Rightarrow> (string \<times> dataValue) list" where
  "collect_outputs cf g s = (let outs = exit_outputs g s; outputNode = map_of (g_nodes g) ''_output'' in
     if outs \<noteq> [] then outs
     else if outputNode \<noteq> None \<and> node_status s ''_output'' = Some Completed \<and>
         node_output s ''_output'' \<noteq> None \<and> node_output s ''_output'' \<noteq> Some DVoid
       then [(''_output'', the (node_output s ''_output''))]
     else (case outputNode of
         Some nd \<Rightarrow> if n_kind nd = ''output''
           then (case List.map_filter (\<lambda>e. node_output s (e_from e)) (getIncomingDataEdges g ''_output'') of
               [] \<Rightarrow> []
             | v # _ \<Rightarrow> [(case cf_outputKey cf (n_payload nd) of None \<Rightarrow> ''result'' | Some k \<Rightarrow> k, v)])
           else []
       | None \<Rightarrow> []))"

definition query_filter :: "('q, 'w) config \<Rightarrow> 'q payload graph \<Rightarrow> jsval option" where
  "query_filter cf g = (case filter truthy (map (\<lambda>(i, nd). cf_filter cf (n_payload nd))
     (filter (\<lambda>(i, nd). n_kind nd = ''query'') (g_nodes g))) of [] \<Rightarrow> None | f # _ \<Rightarrow> Some f)"

definition description_of :: "'p graph \<Rightarrow> string" where
  "description_of g = (case own_props (g_metadata g) of None \<Rightarrow> []
     | Some fs \<Rightarrow> (case row_get fs ''description'' of JStr d \<Rightarrow> d | _ \<Rightarrow> []))"

definition run_cursor :: "('q, 'w) config \<Rightarrow> 'q payload graph \<Rightarrow> (string \<times> dataValue) list \<Rightarrow> ('q, 'w) sched \<Rightarrow> cursorStore" where
  "run_cursor cf g outs s = (if \<not> cf_cursors cf then None
     else case List.map_filter (\<lambda>(k, v). case v of DTabular r sc \<Rightarrow> if k = [] then None else Some (rs_rows r) | _ \<Rightarrow> None)
         (take 1 (filter (\<lambda>(k, v). dv_kind v = KTabular) outs)) of
       [] \<Rightarrow> None
     | rows # _ \<Rightarrow> store_set (extractCursor (now cf s) rows ''id'' (query_filter cf g) (pipelineId (es_ctx (sc_es s)))
         (description_of g) ''unknown'') None)"

datatype runStatus = RunSuccess | RunPartial | RunFailed

record ('q, 'w) runResult =
  rr_status :: runStatus
  rr_outputs :: "(string \<times> dataValue) list"
  rr_error :: "js_error option"
  rr_cursor :: cursorStore
  rr_state :: "('q, 'w) sched"

definition failed_nodes :: "('q, 'w) sched \<Rightarrow> nodeState list" where
  "failed_nodes s = filter (\<lambda>x. nx_status x = Failed) (map snd (es_nodeStates (sc_es s)))"

definition finish_run :: "('q, 'w) config \<Rightarrow> 'q payload graph \<Rightarrow> ('q, 'w) sched \<Rightarrow> ('q, 'w) runResult" where
  "finish_run cf g s = (let outs = collect_outputs cf g s; failed = failed_nodes s in
     \<lparr>rr_status = (if failed = [] then RunSuccess
        else if length failed < length (es_nodeStates (sc_es s)) then RunPartial else RunFailed),
      rr_outputs = outs, rr_error = (case failed of [] \<Rightarrow> None | x # _ \<Rightarrow> nx_error x),
      rr_cursor = run_cursor cf g outs s, rr_state = emit (EvPipelineComplete outs) s\<rparr>)"

text \<open>The state of a run that throws comes with the error; its trace and budget are the caller's.\<close>

definition run :: "nat \<Rightarrow> ('q, 'w) config \<Rightarrow> 'q payload graph \<Rightarrow> execContext \<Rightarrow> 'w \<Rightarrow>
    (js_error \<times> ('q, 'w) sched, ('q, 'w) runResult) result option" where
  "run fuel cf g c w = (let s0 = init_sched g c (cf_steps cf) w in
     case validateGraph g (Some (map fst (cf_registry cf))) of
       e # es \<Rightarrow> Some (Inl (SchedulerValidationError (map validation_message (e # es)), s0))
     | [] \<Rightarrow> (case topologicalSort g of
         Inl e \<Rightarrow> Some (Inl (e, s0))
       | Inr order \<Rightarrow> Option.bind (run_list (run_visit fuel cf g) order s0) (\<lambda>(r, s). case r of
           Inl e \<Rightarrow> Some (Inl (e, s)) | Inr _ \<Rightarrow> Some (Inr (finish_run cf g s)))))"

end
