(* ===== verification/SchedulerSafety.thy ===== *)
theory SchedulerSafety
  imports Scheduler
begin

text \<open>
  What a run of the scheduler guarantees whatever the nodes do: the budget is respected, no
  node is left undecided, the run returns, and its result does not depend on the fuel.
\<close>

section \<open>Budget invariants\<close>

definition sched_budget :: "('q, 'w) sched \<Rightarrow> execBudget" where
  "sched_budget s = budget (es_ctx (sc_es s))"

named_theorems budget_same \<open>steps that leave the budget alone\<close>

lemma on_ctx_budget [budget_same]:
  "(\<And>c. budget (f c) = budget c) \<Longrightarrow> sched_budget (on_ctx f s) = sched_budget s"
  by (simp add: sched_budget_def on_ctx_def on_es_def)

lemma on_node_budget [budget_same]: "sched_budget (on_node n f s) = sched_budget s"
  by (simp add: sched_budget_def on_node_def on_es_def split: option.split)

lemma emit_budget [budget_same]: "sched_budget (emit e s) = sched_budget s"
  by (simp add: sched_budget_def emit_def)

lemma world_budget [budget_same]: "sched_budget (s\<lparr>sc_world := w\<rparr>) = sched_budget s"
  by (simp add: sched_budget_def)

lemma marks_budget [budget_same]:
  "sched_budget (markNodeRunning cf n s) = sched_budget s"
  "sched_budget (markNodeCompleted cf n out s) = sched_budget s"
  "sched_budget (markNodeFailed cf n e s) = sched_budget s"
  "sched_budget (markNodeSkipped cf n s) = sched_budget s"
  "sched_budget (skip_with cf n reason s) = sched_budget s"
  by (simp_all add: markNodeRunning_def markNodeCompleted_def markNodeFailed_def markNodeSkipped_def skip_with_def
      budget_same)

lemma run_call_budget: "run_call call s = (r, s') \<Longrightarrow> sched_budget s' = sched_budget s"
  by (auto simp: run_call_def budget_same split: prod.splits)

lemma retry_loop_budget: "retry_loop cf n delay call left attempt err s = (r, s') \<Longrightarrow> sched_budget s' = sched_budget s"
proof (induction cf n delay call left attempt err s arbitrary: r s' rule: retry_loop.induct)
  case (2 cf n delay call left attempt err s)
  obtain r1 s1 where c: "run_call call s = (r1, s1)" by fastforce
  note same = run_call_budget [OF c]
  show ?case
  proof (cases "bindR r1 wrapLegacyValue")
    case (Inr v)
    with 2(3) c same show ?thesis by simp
  next
    case (Inl e)
    show ?thesis
    proof (cases "unmodelled (Inl e :: dataValue res)")
      case True
      with 2(3) c same Inl show ?thesis by simp
    next
      case False
      show ?thesis
        using 2(1) [OF c [symmetric] Inl] 2(2) [OF c [symmetric] Inl] 2(3) c Inl False same
        by (cases "left = 0") (auto simp: budget_same Let_def)
    qed
  qed
qed simp

lemma executeWithTimeout_budget:
  assumes "\<And>r s'. promise s = (r, s') \<Longrightarrow> sched_budget s' = sched_budget s"
    and "executeWithTimeout cf limit n promise s = (r, s')"
  shows "sched_budget s' = sched_budget s"
  using assms by (auto simp: executeWithTimeout_def split: prod.splits)

text \<open>
  A predicate on budgets that survives an LLM call made below the limit and the end of an
  iteration survives every step of a run.
\<close>

locale budget_invariant =
  fixes P :: "execBudget \<Rightarrow> bool"
  assumes llm_call: "P b \<Longrightarrow> llmCallsUsed b < maxLLMCalls b \<Longrightarrow> P (b\<lparr>llmCallsUsed := llmCallsUsed b + 1\<rparr>)"
    and iteration_end: "P b \<Longrightarrow> P (b\<lparr>iterationsUsed := iterationsUsed b + 1\<rparr>)"
begin

definition keeps :: "(unit res \<times> ('q, 'w) sched) option \<Rightarrow> bool" where
  "keeps x \<longleftrightarrow> (case x of None \<Rightarrow> True | Some (r, s) \<Rightarrow> P (sched_budget s))"

lemma keeps_simps [simp]: "keeps None" "keeps (Some (r, s)) = P (sched_budget s)"
  by (simp_all add: keeps_def)

definition kept_by :: "(string \<Rightarrow> ('q, 'w) step) \<Rightarrow> bool" where
  "kept_by visit \<longleftrightarrow> (\<forall>n s. P (sched_budget s) \<longrightarrow> keeps (visit n s))"

lemma run_list_keeps: "kept_by visit \<Longrightarrow> P (sched_budget s) \<Longrightarrow> keeps (run_list visit ns s)"
proof (induction ns arbitrary: s)
  case (Cons n ns)
  then have "keeps (visit n s)" by (simp add: kept_by_def)
  with Cons show ?case by (cases "visit n s") (auto split: sum.split)
qed simp

lemma executeSubgraph_keeps:
  assumes "kept_by exec" and "P (sched_budget s)"
  shows "keeps (executeSubgraph cf exec g start inp s)"
proof -
  have "kept_by (subgraph_visit cf exec g)"
    using assms(1) by (auto simp: kept_by_def subgraph_visit_def budget_same)
  moreover have "P (sched_budget (case inp of None \<Rightarrow> s | Some v \<Rightarrow> on_node start f s))" for f
    using assms(2) by (simp add: budget_same split: option.split)
  ultimately show ?thesis
    using assms(2) by (auto simp: executeSubgraph_def Let_def budget_same split: sum.split option.split intro!: run_list_keeps)
qed

lemma executeParallel_keeps:
  assumes "kept_by exec" and "P (sched_budget s)"
  shows "keeps (executeParallel cf exec g n m s)"
proof -
  have "kept_by (\<lambda>b. executeSubgraph cf exec g b inp)" for inp
    unfolding kept_by_def using executeSubgraph_keeps [OF assms(1)] by blast
  from run_list_keeps [OF this] have list: "P (sched_budget s') \<Longrightarrow> keeps (run_list (\<lambda>b. executeSubgraph cf exec g b inp) bs s')"
    for inp bs s' by blast
  show ?thesis
  proof (cases "getNodeInputs n g (sc_es (emit (EvFork n (map e_to (getOutgoingDataEdges g n))) s))")
    case (Inl e)
    with assms(2) show ?thesis by (simp add: executeParallel_def Let_def budget_same)
  next
    case (Inr inputs)
    have "keeps (run_list (\<lambda>b. executeSubgraph cf exec g b (map_of inputs ''input''))
      (map e_to (getOutgoingDataEdges g n)) (emit (EvFork n (map e_to (getOutgoingDataEdges g n))) s))"
      by (rule list) (simp add: budget_same assms(2))
    with Inr assms(2) show ?thesis
      by (cases "run_list (\<lambda>b. executeSubgraph cf exec g b (map_of inputs ''input''))
        (map e_to (getOutgoingDataEdges g n)) (emit (EvFork n (map e_to (getOutgoingDataEdges g n))) s)")
        (auto simp: executeParallel_def Let_def budget_same split: sum.split)
  qed
qed

lemma conditional_budget: "executeConditional cf g n p s = (r, s') \<Longrightarrow> sched_budget s' = sched_budget s"
proof -
  have skips: "sched_budget (foldl (\<lambda>s m. skip_pending cf reason m s) s ms) = sched_budget s" for reason ms s
    by (induction ms arbitrary: s) (simp_all add: skip_pending_def budget_same)
  have decide: "es_ctx (decide_edges b es st) = es_ctx st" for b es st
    unfolding decide_edges_def by (induction es arbitrary: st) (simp_all add: activateEdge_def deactivateEdge_def)
  have "sched_budget (on_es (decide_edges b es) s) = sched_budget s" for b es s
    by (simp add: sched_budget_def on_es_def decide)
  moreover assume "executeConditional cf g n p s = (r, s')"
  ultimately show ?thesis
    by (auto simp: executeConditional_def Let_def skips budget_same split: sum.splits jsval.splits)
qed

lemma rejoin_budget [budget_same]: "sched_budget (rejoin outer inner) = sched_budget inner"
  by (simp add: sched_budget_def rejoin_def)

lemma bind_var_budget [budget_same]: "budget (bind_var x v c) = budget c"
  by (simp add: bind_var_def split: option.split)

lemma iteration_budget: "P (sched_budget s) \<Longrightarrow> P (sched_budget (on_ctx incrementIterationBudget s))"
  using iteration_end [of "sched_budget s"]
  by (simp add: sched_budget_def on_ctx_def on_es_def incrementIterationBudget_def)

definition keepsD :: "(dataValue res \<times> ('q, 'w) sched) option \<Rightarrow> bool" where
  "keepsD x \<longleftrightarrow> (case x of None \<Rightarrow> True | Some (r, s) \<Rightarrow> P (sched_budget s))"

lemma keepsD_simps [simp]: "keepsD None" "keepsD (Some (r, s)) = P (sched_budget s)"
  by (simp_all add: keepsD_def)

lemma loop_iteration_keeps:
  assumes "kept_by (le_run le)" and "P (sched_budget s)" and binds: "\<And>c. budget (binds c) = budget c"
  shows "keepsD (loop_iteration le binds item acc s)"
proof -
  let ?inner = "s\<lparr>sc_es := forkStateForIteration (now (le_cf le) s) (sc_es s)
    (binds (contextPushScope (es_ctx (sc_es s)) SkLoop)) (le_body le) (le_loop le) item, sc_steps := []\<rparr>"
  have "sched_budget ?inner = sched_budget s"
    by (simp add: sched_budget_def forkStateForIteration_def binds contextPushScope_def)
  then have "keeps (executeSubgraph (le_cf le) (le_run le) (le_graph le) (le_start le) None ?inner)"
    using assms by (intro executeSubgraph_keeps) auto
  then show ?thesis
    by (cases "executeSubgraph (le_cf le) (le_run le) (le_graph le) (le_start le) None ?inner")
      (auto simp: loop_iteration_def Let_def budget_same iteration_budget split: sum.split option.split)
qed

lemma for_each_keeps: "kept_by (le_run le) \<Longrightarrow> P (sched_budget s) \<Longrightarrow> keepsD (for_each le items iter acc s)"
proof (induction items arbitrary: iter acc s)
  case (Cons item items)
  let ?binds = "\<lambda>c. bind_var (lp_indexVar (le_payload le)) (count_val iter)
    (c\<lparr>ctx_scope := scopeSet (ctx_scope c) (lp_iterVar (le_payload le)) (JData item)\<rparr>)"
  have "keepsD (loop_iteration le ?binds item acc s)"
    using Cons.prems by (intro loop_iteration_keeps) (simp_all add: budget_same)
  with Cons show ?case
    by (cases "loop_iteration le ?binds item acc s") (auto split: sum.split)
qed simp

lemma while_loop_keeps: "kept_by (le_run le) \<Longrightarrow> P (sched_budget s) \<Longrightarrow> keepsD (while_loop le inp left iter acc s)"
proof (induction left arbitrary: iter acc s)
  case (Suc left)
  let ?s1 = "on_ctx (\<lambda>c. bind_var (lp_indexVar (le_payload le)) (count_val iter)
            (bind_var (Some (lp_iterVar (le_payload le))) (count_val iter) c)) s"
  let ?it = "loop_iteration le (bind_var (Some (lp_iterVar (le_payload le))) (count_val iter)) inp acc ?s1"
  have s1: "P (sched_budget ?s1)" using Suc.prems by (simp add: budget_same)
  then have "keepsD ?it" using Suc.prems by (intro loop_iteration_keeps) (simp_all add: budget_same)
  then have "keepsD (Option.bind ?it (\<lambda>(r, s'). case r of Inl e \<Rightarrow> Some (Inl e, s')
      | Inr acc' \<Rightarrow> while_loop le inp left (iter + 1) acc' s'))"
    using Suc.IH [OF Suc.prems(1)] by (cases ?it) (auto split: sum.split)
  with s1 show ?case by (auto simp: Let_def split: sum.split jsval.split)
qed simp

lemma executeLoop_keeps:
  assumes "kept_by exec" and "P (sched_budget s)"
  shows "keeps (executeLoop cf exec g n lp s)"
proof -
  have run_loop: "P (sched_budget s') \<Longrightarrow> keepsD (run_loop (loop_env cf exec g n lp st s') inp acc s')" for st inp acc s'
    using assms(1) by (auto simp: run_loop_def loop_env_def intro!: for_each_keeps while_loop_keeps split: loopMode.split sum.split)
  have body: "sched_budget (complete_body cf b s') = sched_budget s'" for b s'
    by (simp add: sched_budget_def complete_body_def on_es_def)
  have after: "keepsD x \<Longrightarrow> keeps (Option.bind x (\<lambda>(r, s2). case r of Inl er \<Rightarrow> Some (Inl er, s2)
      | Inr out \<Rightarrow> Some (Inr (), emit (EvComplete n (Some out)) (markNodeCompleted cf n (Some out)
          (complete_body cf (getBodyNodeIds n g) s2)))))" for x
    by (cases x) (auto simp: budget_same body split: sum.split)
  show ?thesis
    unfolding executeLoop_def Let_def
    using assms(2) by (auto simp: budget_same split: sum.split list.split intro!: after run_loop)
qed

text \<open>A node that is started with the budget check passed keeps the predicate.\<close>

lemma llm_budget:
  assumes "P (sched_budget s)" and "checkBudget t (sched_budget s) k = Inr ()"
  shows "P (sched_budget (on_ctx incrementLLMBudget s))"
proof -
  have "llmCallsUsed (sched_budget s) < maxLLMCalls (sched_budget s)"
    using assms(2) by (auto simp: checkBudget_def Let_def isBudgetExceeded_def budgetRemaining_def split: if_splits)
  with llm_call [OF assms(1)] show ?thesis
    by (simp add: sched_budget_def on_ctx_def on_es_def incrementLLMBudget_def)
qed

lemma handleNodeError_keeps:
  "kept_by exec \<Longrightarrow> P (sched_budget s) \<Longrightarrow> keeps (handleNodeError cf exec g nd def e s)"
  by (auto simp: handleNodeError_def fail_node_def kept_by_def Let_def budget_same
      split: errorPolicyKind.split sum.split option.split)

lemma catch_error_keeps:
  "kept_by exec \<Longrightarrow> P (sched_budget s) \<Longrightarrow> keeps (catch_error cf exec g nd def n e s)"
  by (simp add: catch_error_def handleNodeError_keeps budget_same)

lemma executeStandard_keeps:
  assumes "kept_by exec" and "P (sched_budget s)" and "checkBudget t (sched_budget s) k = Inr ()"
  shows "keeps (executeStandard cf exec g nd def n s)"
proof (cases "getNodeInputs n g (sc_es s)")
  case (Inl e)
  with assms show ?thesis by (simp add: executeStandard_def catch_error_keeps)
next
  case (Inr inputs)
  define s1 where "s1 = markNodeRunning cf n s"
  obtain r s2 where call: "executeWithTimeout cf (min (rem_timeMs (budgetRemaining (now cf s1) (budget (es_ctx (sc_es s1))))) 30000) n
      (executeWithRetry cf nd def (actual_input g inputs)) s1 = (r, s2)" by fastforce
  have "sched_budget s' = sched_budget s1" if "executeWithRetry cf nd def (actual_input g inputs) s1 = (r', s')" for r' s'
    using that unfolding executeWithRetry_def by (rule retry_loop_budget)
  from executeWithTimeout_budget [OF this call] have s2: "sched_budget s2 = sched_budget s" by (simp add: s1_def budget_same)
  then have "P (sched_budget (on_ctx incrementLLMBudget s2))" using assms llm_budget [of s2 t k] by simp
  then show ?thesis
    using assms(1,2) call s2 Inr
    by (auto simp: executeStandard_def s1_def [symmetric] Let_def budget_same
        intro!: catch_error_keeps split: sum.split)
qed

lemma executeQuery_budget:
  assumes "executeQuery cf n q s = (r, s')"
  shows "sched_budget s' = sched_budget s"
proof -
  obtain r1 s1 where c1: "run_call (cf_query cf q) s = (r1, s1)" by fastforce
  obtain r2 s2 where c2: "executeWithTimeout cf 30000 n (run_call (cf_query cf q)) s1 = (r2, s2)" by fastforce
  have "sched_budget s1 = sched_budget s" "sched_budget s2 = sched_budget s1"
    using run_call_budget [OF c1] executeWithTimeout_budget [OF run_call_budget c2] by simp_all
  with assms c1 c2 show ?thesis by (auto simp: executeQuery_def budget_same split: sum.splits)
qed

lemma executeMerge_budget:
  assumes "executeMerge cf g nd def n wait s = (r, s')"
  shows "sched_budget s' = sched_budget s"
proof (cases "bindR (getNodeInputs n g (sc_es s)) (\<lambda>_. merge_inputs wait (es_nodeStates (sc_es s)) (getIncomingDataEdges g n))")
  case (Inl e)
  with assms show ?thesis by (simp add: executeMerge_def)
next
  case (Inr vs)
  obtain r1 s1 where c: "run_call (\<lambda>c. nd_execute def (n_payload nd) (Some (DCollection vs KAny)) c None)
      (markNodeRunning cf n s) = (r1, s1)" by fastforce
  from run_call_budget [OF this] have "sched_budget s1 = sched_budget s" by (simp add: budget_same)
  with assms Inr c show ?thesis
    by (cases "bindR r1 stored_output") (auto simp: executeMerge_def budget_same split: list.splits)
qed

theorem executeNode_keeps: "P (sched_budget s) \<Longrightarrow> keeps (executeNode fuel cf g n s)"
proof (induction fuel arbitrary: n s)
  case (Suc fuel)
  then have rec: "kept_by (executeNode fuel cf g)" by (simp add: kept_by_def)
  show ?case
  proof (cases "map_of (g_nodes g) n")
    case (Some nd)
    show ?thesis
    proof (cases "bindR (checkBudget (now cf s) (budget (es_ctx (sc_es s))) (n_kind nd)) (\<lambda>_. registry_get cf (n_kind nd))")
      case (Inr def)
      define s1 where "s1 = emit (EvStart n) s"
      have s1: "P (sched_budget s1)" "sched_budget s1 = sched_budget s" using Suc by (simp_all add: s1_def budget_same)
      have check: "checkBudget (now cf s) (sched_budget s1) (n_kind nd) = Inr ()"
        using Inr unfolding s1(2) by (auto simp: sched_budget_def result_simps)
      have "keeps (dispatch cf (executeNode fuel cf g) g nd def n s1)"
      proof (cases "n_payload nd")
        case (PConditional p)
        obtain r s2 where "executeConditional cf g n p s1 = (r, s2)" by fastforce
        with conditional_budget [OF this] s1 rec check PConditional show ?thesis
          by (simp add: dispatch_def executeStandard_keeps)
      next
        case (PMerge w q)
        obtain r s2 where "executeMerge cf g nd def n w s1 = (r, s2)" by fastforce
        with executeMerge_budget [OF this] s1 rec check PMerge show ?thesis
          by (simp add: dispatch_def executeStandard_keeps)
      next
        case (PQuery q)
        obtain r s2 where "executeQuery cf n q s1 = (r, s2)" by fastforce
        with executeQuery_budget [OF this] s1 rec check PQuery show ?thesis
          by (simp add: dispatch_def executeStandard_keeps)
      qed (use s1 rec check in \<open>simp_all add: dispatch_def executeStandard_keeps executeParallel_keeps executeLoop_keeps\<close>)
      with Some Inr show ?thesis by (simp add: s1_def)
    qed (use Some Suc in simp)
  qed (use Suc in simp)
qed simp

lemma run_keeps:
  assumes "P (budget c)" and "run fuel cf g c w = Some out"
  shows "P (sched_budget (case out of Inl (e, s) \<Rightarrow> s | Inr r \<Rightarrow> rr_state r))"
proof -
  have init: "P (sched_budget (init_sched g c (cf_steps cf) w))" using assms(1) by (simp add: sched_budget_def init_sched_def)
  have "kept_by (run_visit fuel cf g)"
    using executeNode_keeps by (auto simp: kept_by_def run_visit_def budget_same split: sum.split)
  from run_list_keeps [OF this init] have list: "keeps (run_list (run_visit fuel cf g) order (init_sched g c (cf_steps cf) w))" for order .
  have fin: "sched_budget (rr_state (finish_run cf g s)) = sched_budget s" for s
    by (simp add: finish_run_def Let_def budget_same)
  show ?thesis
  proof (cases "validateGraph g (Some (map fst (cf_registry cf)))")
    case (Cons e es)
    with assms(2) init show ?thesis by (auto simp: run_def)
  next
    case Nil
    show ?thesis
    proof (cases "topologicalSort g")
      case (Inl e)
      with Nil assms(2) init show ?thesis by (auto simp: run_def)
    next
      case (Inr order)
      with Nil assms(2) list [of order] fin show ?thesis
        by (cases "run_list (run_visit fuel cf g) order (init_sched g c (cf_steps cf) w)")
          (auto simp: run_def split: sum.splits)
    qed
  qed
qed

end

interpretation llm_limit: budget_invariant "\<lambda>b. llmCallsUsed b \<le> maxLLMCalls b"
  by unfold_locales simp_all

interpretation counters: budget_invariant "\<lambda>b. i \<le> iterationsUsed b \<and> l \<le> llmCallsUsed b" for i l
  by unfold_locales simp_all

definition same_limits :: "execBudget \<Rightarrow> execBudget \<Rightarrow> bool" where
  "same_limits b b' \<longleftrightarrow> maxLLMCalls b' = maxLLMCalls b \<and> maxIterations b' = maxIterations b \<and>
     timeoutMs b' = timeoutMs b \<and> startedAt b' = startedAt b \<and> maxRowsPerNode b' = maxRowsPerNode b"

interpretation limits: budget_invariant "same_limits b" for b
  by unfold_locales (simp_all add: same_limits_def)

definition final_budget :: "(js_error \<times> ('q, 'w) sched, ('q, 'w) runResult) result \<Rightarrow> execBudget" where
  "final_budget out = sched_budget (case out of Inl (e, s) \<Rightarrow> s | Inr r \<Rightarrow> rr_state r)"

section \<open>Every node is decided\<close>

definition settled :: "('q, 'w) sched \<Rightarrow> string \<Rightarrow> bool" where
  "settled s n \<longleftrightarrow> node_status s n = Some Completed \<or> node_status s n = Some Skipped"

definition state_keys :: "('q, 'w) sched \<Rightarrow> string list" where
  "state_keys s = map fst (es_nodeStates (sc_es s))"

text \<open>What may happen to the node states: decided nodes stay decided, new entries are decided.\<close>

definition progress :: "('q, 'w) sched \<Rightarrow> ('q, 'w) sched \<Rightarrow> bool" where
  "progress s s' \<longleftrightarrow> (\<forall>n. settled s n \<longrightarrow> settled s' n) \<and> (\<forall>n. node_status s n \<noteq> None \<longrightarrow> node_status s' n \<noteq> None) \<and>
     (\<forall>n. node_status s' n \<noteq> None \<longrightarrow> node_status s n \<noteq> None \<or> settled s' n) \<and>
     (distinct (state_keys s) \<longrightarrow> distinct (state_keys s'))"

lemma progress_refl [simp]: "progress s s"
  by (simp add: progress_def)

lemma progress_trans: "progress s s' \<Longrightarrow> progress s' s'' \<Longrightarrow> progress s s''"
  unfolding progress_def by blast

text \<open>Two states with the same node states.\<close>

definition same_nodes :: "('q, 'w) sched \<Rightarrow> ('q, 'w) sched \<Rightarrow> bool" where
  "same_nodes s s' \<longleftrightarrow> es_nodeStates (sc_es s') = es_nodeStates (sc_es s)"

lemma same_nodes_progress: "same_nodes s s' \<Longrightarrow> progress s s'"
  by (simp add: same_nodes_def progress_def settled_def node_status_def state_keys_def)

lemma same_nodes_status: "same_nodes s s' \<Longrightarrow> node_status s' n = node_status s n"
  by (simp add: same_nodes_def node_status_def)

lemma same_nodes_basic [simp]:
  "same_nodes s (emit e s')  = same_nodes s s'"
  "same_nodes s (on_ctx f s') = same_nodes s s'"
  "same_nodes s (s'\<lparr>sc_world := w\<rparr>) = same_nodes s s'"
  "same_nodes s s"
  by (simp_all add: same_nodes_def emit_def on_ctx_def on_es_def)

lemma status_on_node: "node_status (on_node n f s) m =
    (if m = n then map_option (\<lambda>x. nx_status (f x)) (map_of (es_nodeStates (sc_es s)) n) else node_status s m)"
  by (auto simp: node_status_def on_node_def on_es_def split: option.split)

lemma status_on_node_None [simp]: "node_status (on_node n f s) m = None \<longleftrightarrow> node_status s m = None"
  by (simp add: status_on_node) (simp add: node_status_def)

lemma status_on_other [simp]: "m \<noteq> n \<Longrightarrow> node_status (on_node n f s) m = node_status s m"
  by (simp add: status_on_node)

lemma status_on_node_set:
  "(\<And>x. nx_status (f x) = st) \<Longrightarrow> node_status s n \<noteq> None \<Longrightarrow> node_status (on_node n f s) n = Some st"
  by (auto simp: status_on_node) (auto simp: node_status_def)

lemma keys_on_node [simp]: "state_keys (on_node n f s) = state_keys s"
  by (auto simp: state_keys_def on_node_def on_es_def al_set_same_keys al_has_iff split: option.split)

lemma status_same [simp]:
  "node_status (emit e s) m = node_status s m"
  "node_status (on_ctx f s) m = node_status s m"
  "node_status (s\<lparr>sc_world := w\<rparr>) m = node_status s m"
  by (simp_all add: node_status_def emit_def on_ctx_def on_es_def)

lemma keys_same [simp]:
  "state_keys (emit e s) = state_keys s"
  "state_keys (on_ctx f s) = state_keys s"
  "state_keys (s\<lparr>sc_world := w\<rparr>) = state_keys s"
  by (simp_all add: state_keys_def emit_def on_ctx_def on_es_def)

text \<open>The steps that decide one node, and touch no other.\<close>

definition decides :: "string \<Rightarrow> ('q, 'w) sched \<Rightarrow> ('q, 'w) sched \<Rightarrow> bool" where
  "decides n s s' \<longleftrightarrow> (\<forall>m. m \<noteq> n \<longrightarrow> node_status s' m = node_status s m) \<and>
     (node_status s n \<noteq> None \<longrightarrow> settled s' n) \<and> (node_status s n = None \<longrightarrow> node_status s' n = None) \<and>
     state_keys s' = state_keys s"

lemma decides_progress: "decides n s s' \<Longrightarrow> progress s s'"
  unfolding decides_def progress_def settled_def by (metis option.distinct(1))

definition touches :: "string \<Rightarrow> ('q, 'w) sched \<Rightarrow> ('q, 'w) sched \<Rightarrow> bool" where
  "touches n s s' \<longleftrightarrow> (\<forall>m. m \<noteq> n \<longrightarrow> node_status s' m = node_status s m) \<and>
     (node_status s' n = None \<longleftrightarrow> node_status s n = None) \<and> state_keys s' = state_keys s"

lemma touches_refl [simp]: "touches n s s"
  by (simp add: touches_def)

lemma touches_trans: "touches n s s' \<Longrightarrow> touches n s' s'' \<Longrightarrow> touches n s s''"
  by (simp add: touches_def)

lemma touches_on_node: "touches n s s' \<Longrightarrow> touches n s (on_node n f s')"
  by (simp add: touches_def)

lemma touches_basic:
  "touches n s s' \<Longrightarrow> touches n s (emit e s')"
  "touches n s s' \<Longrightarrow> touches n s (on_ctx f s')"
  "touches n s s' \<Longrightarrow> touches n s (s'\<lparr>sc_world := w\<rparr>)"
  by (simp_all add: touches_def)

lemma touches_decides: "touches n s s' \<Longrightarrow> decides n s' s'' \<Longrightarrow> decides n s s''"
  by (auto simp: touches_def decides_def)

lemma decides_same: "decides n s s' \<Longrightarrow> decides n s (emit e s')" "decides n s s' \<Longrightarrow> decides n s (on_ctx f s')"
  by (simp_all add: decides_def settled_def)

lemma decides_marks:
  "decides n s (markNodeCompleted cf n out s)"
  "decides n s (markNodeSkipped cf n s)"
  "decides n s (skip_with cf n reason s)"
  by (simp_all add: decides_def settled_def markNodeCompleted_def markNodeSkipped_def skip_with_def status_on_node_set)

lemma touches_running: "touches n s (markNodeRunning cf n s)"
  by (simp add: markNodeRunning_def touches_on_node)

lemma touches_run_call: "run_call call s = (r, s') \<Longrightarrow> touches n s s'"
  by (auto simp: run_call_def touches_basic split: prod.splits)

lemma touches_retry: "retry_loop cf n delay call left attempt err s = (r, s') \<Longrightarrow> touches n s s'"
proof (induction cf n delay call left attempt err s arbitrary: r s' rule: retry_loop.induct)
  case (2 cf n delay call left attempt err s)
  obtain r1 s1 where c: "run_call call s = (r1, s1)" by fastforce
  note t = touches_run_call [OF c, of n]
  show ?case
  proof (cases "bindR r1 wrapLegacyValue")
    case (Inr v)
    with 2(3) c t show ?thesis by simp
  next
    case (Inl e)
    show ?thesis
    proof (cases "unmodelled (Inl e :: dataValue res)")
      case True
      with 2(3) c t Inl show ?thesis by simp
    next
      case False
      show ?thesis
      proof (cases "left = 0")
        case True
        with 2(1) [OF c [symmetric] Inl False True] 2(3) c Inl False have "touches n s1 s'" by simp
        with t show ?thesis by (rule touches_trans)
      next
        case left: False
        let ?s2 = "on_node n (\<lambda>x. x\<lparr>nx_retryCount := int attempt + 1\<rparr>) s1"
        have "touches n s (?s2\<lparr>sc_world := cf_sleep cf (delay * 2 ^ attempt) (sc_world ?s2)\<rparr>)"
          using t by (intro touches_basic touches_on_node)
        moreover have "touches n (?s2\<lparr>sc_world := cf_sleep cf (delay * 2 ^ attempt) (sc_world ?s2)\<rparr>) s'"
          by (rule 2(2) [OF c [symmetric] Inl False left refl]) (use 2(3) c Inl False left in \<open>simp add: Let_def\<close>)
        ultimately show ?thesis by (rule touches_trans)
      qed
    qed
  qed
qed simp

definition progress_visit :: "(string \<Rightarrow> ('q, 'w) step) \<Rightarrow> bool" where
  "progress_visit visit \<longleftrightarrow> (\<forall>n s s'. visit n s = Some (Inr (), s') \<longrightarrow> progress s s')"

definition settles :: "(string \<Rightarrow> ('q, 'w) step) \<Rightarrow> bool" where
  "settles visit \<longleftrightarrow> (\<forall>n s s'. visit n s = Some (Inr (), s') \<longrightarrow> progress s s' \<and> (node_status s n \<noteq> None \<longrightarrow> settled s' n))"

lemma settles_progress: "settles visit \<Longrightarrow> progress_visit visit"
  by (simp add: settles_def progress_visit_def)

lemma run_list_Some:
  "run_list visit (n # ns) s = Some (Inr (), s') \<longleftrightarrow>
     (\<exists>s1. visit n s = Some (Inr (), s1) \<and> run_list visit ns s1 = Some (Inr (), s'))"
  by (cases "visit n s") (auto split: sum.split_asm)

lemma run_list_progress: "progress_visit visit \<Longrightarrow> run_list visit ns s = Some (Inr (), s') \<Longrightarrow> progress s s'"
proof (induction ns arbitrary: s)
  case (Cons n ns)
  from Cons.prems(2) obtain s1 where s1: "visit n s = Some (Inr (), s1)" "run_list visit ns s1 = Some (Inr (), s')"
    unfolding run_list_Some by blast
  have "progress s s1" using Cons.prems(1) s1(1) unfolding progress_visit_def by blast
  moreover have "progress s1 s'" by (rule Cons.IH [OF Cons.prems(1) s1(2)])
  ultimately show ?case by (rule progress_trans)
qed simp

lemma run_list_settles:
  assumes "settles visit" and "run_list visit ns s = Some (Inr (), s')" and "\<And>n. n \<in> set ns \<Longrightarrow> node_status s n \<noteq> None"
  shows "\<forall>n \<in> set ns. settled s' n"
  using assms(2,3)
proof (induction ns arbitrary: s)
  case (Cons n ns)
  from Cons.prems(1) obtain s1 where s1: "visit n s = Some (Inr (), s1)" "run_list visit ns s1 = Some (Inr (), s')"
    unfolding run_list_Some by blast
  have p: "progress s s1" "settled s1 n" using assms(1) s1(1) Cons.prems(2) [of n] unfolding settles_def by auto
  have "progress s1 s'" by (rule run_list_progress [OF settles_progress [OF assms(1)] s1(2)])
  with p(2) have "settled s' n" unfolding progress_def by blast
  moreover have "\<forall>m \<in> set ns. settled s' m"
    by (rule Cons.IH [OF s1(2)]) (use p(1) Cons.prems(2) in \<open>auto simp: progress_def\<close>)
  ultimately show ?case by simp
qed simp

lemma executeSubgraph_progress:
  assumes "progress_visit exec" and "executeSubgraph cf exec g start inp s = Some (Inr (), s')"
  shows "progress s s'"
proof -
  have visit: "progress_visit (subgraph_visit cf exec g)"
    using assms(1) decides_progress [OF decides_marks(3)]
    by (auto simp: progress_visit_def subgraph_visit_def split: if_splits)
  define s1 where "s1 = (case inp of None \<Rightarrow> s | Some v \<Rightarrow>
      on_node start (\<lambda>x. x\<lparr>nx_output := Some v, nx_status := Completed, nx_completedAt := Some (now cf s)\<rparr>) s)"
  have "decides start s (on_node start (\<lambda>x. x\<lparr>nx_output := Some v, nx_status := Completed, nx_completedAt := t\<rparr>) s)" for v t
    by (simp add: decides_def settled_def status_on_node_set)
  then have "progress s s1" by (auto simp: s1_def split: option.split intro: decides_progress)
  moreover have "progress s1 s'"
    using assms(2) by (auto simp: executeSubgraph_def Let_def s1_def [symmetric] split: sum.splits
        intro: run_list_progress [OF visit])
  ultimately show ?thesis by (rule progress_trans)
qed

lemma executeParallel_settles:
  assumes "progress_visit exec" and "executeParallel cf exec g n m s = Some (Inr (), s')"
  shows "progress s s' \<and> (node_status s n \<noteq> None \<longrightarrow> settled s' n)"
proof -
  define s1 where "s1 = emit (EvFork n (map e_to (getOutgoingDataEdges g n))) s"
  obtain inputs where inp: "getNodeInputs n g (sc_es s1) = Inr inputs"
    using assms(2) by (cases "getNodeInputs n g (sc_es s1)") (auto simp: executeParallel_def Let_def s1_def [symmetric])
  obtain s2 where s2: "run_list (\<lambda>b. executeSubgraph cf exec g b (map_of inputs ''input'')) (map e_to (getOutgoingDataEdges g n)) s1
      = Some (Inr (), s2)" "s' = markNodeCompleted cf n (map_of inputs ''input'') s2"
    using assms(2) inp by (auto simp: executeParallel_def Let_def s1_def [symmetric] split: if_splits sum.splits bind_splits)
  have "progress_visit (\<lambda>b. executeSubgraph cf exec g b inp)" for inp
    unfolding progress_visit_def using executeSubgraph_progress [OF assms(1)] by blast
  from run_list_progress [OF this s2(1)] have "progress s1 s2" .
  with same_nodes_progress [of s s1] have p: "progress s s2" by (auto simp: s1_def intro: progress_trans)
  have d: "decides n s2 s'" unfolding s2(2) by (rule decides_marks)
  from p have "node_status s n \<noteq> None \<Longrightarrow> node_status s2 n \<noteq> None" by (simp add: progress_def)
  with d have "node_status s n \<noteq> None \<longrightarrow> settled s' n" by (simp add: decides_def)
  with progress_trans [OF p decides_progress [OF d]] show ?thesis by blast
qed

lemma skip_pending_progress: "progress s (foldl (\<lambda>s m. skip_pending cf reason m s) s ms)"
proof (induction ms arbitrary: s)
  case (Cons m ms)
  have "progress s (skip_pending cf reason m s)"
    by (auto simp: skip_pending_def intro: decides_progress decides_marks)
  with Cons show ?case by (auto intro: progress_trans)
qed simp

lemma conditional_settles:
  assumes "executeConditional cf g n p s = (Inr (), s')"
  shows "progress s s' \<and> (node_status s n \<noteq> None \<longrightarrow> settled s' n)"
proof -
  have dec: "es_nodeStates (decide_edges b es st) = es_nodeStates st" for b es st
    unfolding decide_edges_def by (induction es arbitrary: st) (simp_all add: activateEdge_def deactivateEdge_def)
  obtain b inp where s': "s' = foldl (\<lambda>s m. skip_pending cf ''inactive conditional branch'' m s)
      (emit (EvComplete n inp) (markNodeCompleted cf n inp (on_es (decide_edges b (getOutgoingControlEdges g n)) s)))
      (getNodesOnInactiveBranches g n (sc_es (emit (EvComplete n inp) (markNodeCompleted cf n inp
        (on_es (decide_edges b (getOutgoingControlEdges g n)) s)))))"
    using assms by (auto simp: executeConditional_def Let_def split: sum.splits jsval.splits)
  define s1 where "s1 = on_es (decide_edges b (getOutgoingControlEdges g n)) s"
  define s2 where "s2 = emit (EvComplete n inp) (markNodeCompleted cf n inp s1)"
  have same: "same_nodes s s1" by (simp add: same_nodes_def s1_def on_es_def dec)
  have d: "decides n s1 s2" unfolding s2_def by (intro decides_same decides_marks)
  have p: "progress s2 s'" unfolding s' s1_def [symmetric] s2_def [symmetric] by (rule skip_pending_progress)
  have "node_status s n \<noteq> None \<longrightarrow> settled s' n"
    using d p same_nodes_status [OF same, of n] by (auto simp: decides_def progress_def)
  with progress_trans [OF same_nodes_progress [OF same] progress_trans [OF decides_progress [OF d] p]] show ?thesis by blast
qed

lemma loop_iteration_same: "loop_iteration le binds item acc s = Some (r, s') \<Longrightarrow> same_nodes s s'"
  by (auto simp: loop_iteration_def Let_def same_nodes_def rejoin_def on_ctx_def on_es_def
      split: bind_splits sum.splits)

lemma same_nodes_trans: "same_nodes s s' \<Longrightarrow> same_nodes s' s'' \<Longrightarrow> same_nodes s s''"
  by (simp add: same_nodes_def)

lemma for_each_same: "for_each le items iter acc s = Some (r, s') \<Longrightarrow> same_nodes s s'"
proof (induction items arbitrary: iter acc s)
  case (Cons item items)
  then show ?case
    by (auto split: if_splits bind_splits sum.splits dest!: loop_iteration_same intro: same_nodes_trans)
qed simp

lemma while_loop_same: "while_loop le inp left iter acc s = Some (r, s') \<Longrightarrow> same_nodes s s'"
proof (induction left arbitrary: iter acc s)
  case (Suc left)
  have ctx: "same_nodes (on_ctx f s) s'' \<Longrightarrow> same_nodes s s''" for f s''
    by (simp add: same_nodes_def on_ctx_def on_es_def)
  from Suc.prems show ?case
    by (auto simp: Let_def split: if_splits bind_splits sum.splits jsval.splits
        dest!: loop_iteration_same Suc.IH intro: same_nodes_trans ctx)
qed simp

lemma complete_body_status:
  "node_status (complete_body cf body s) m = (if m \<in> set body then Some Completed else node_status s m)"
proof -
  have "map_of (foldl (\<lambda>m n. al_set n x m) st body) m = (if m \<in> set body then Some x else map_of st m)" for x and st :: "(string \<times> nodeState) list"
    by (induction body arbitrary: st) auto
  then show ?thesis by (simp add: node_status_def complete_body_def on_es_def completed_state_def)
qed

lemma complete_body_keys: "distinct (state_keys s) \<Longrightarrow> distinct (state_keys (complete_body cf body s))"
proof -
  have "distinct (map fst st) \<Longrightarrow> distinct (map fst (foldl (\<lambda>m n. al_set n x m) st body))" for x and st :: "(string \<times> nodeState) list"
    by (induction body arbitrary: st) auto
  then show "distinct (state_keys s) \<Longrightarrow> ?thesis" by (simp add: state_keys_def complete_body_def on_es_def)
qed

lemma complete_body_progress: "progress s (complete_body cf body s)"
  by (auto simp: progress_def settled_def complete_body_status complete_body_keys)

lemma executeLoop_settles:
  assumes "executeLoop cf exec g n lp s = Some (Inr (), s')"
  shows "progress s s' \<and> (node_status s n \<noteq> None \<longrightarrow> settled s' n)"
proof -
  obtain f le inp acc out s2 where l: "run_loop le inp acc (on_ctx f s) = Some (Inr out, s2)"
    and s': "s' = emit (EvComplete n (Some out)) (markNodeCompleted cf n (Some out) (complete_body cf (getBodyNodeIds n g) s2))"
    using assms by (auto simp: executeLoop_def Let_def split: sum.splits list.splits bind_splits)
  have "same_nodes (on_ctx f s) s2"
    using l by (auto simp: run_loop_def split: loopMode.splits sum.splits dest: for_each_same while_loop_same)
  then have same: "same_nodes s s2" by (simp add: same_nodes_def on_ctx_def on_es_def)
  define s3 where "s3 = complete_body cf (getBodyNodeIds n g) s2"
  have p: "progress s s3"
    unfolding s3_def by (rule progress_trans [OF same_nodes_progress [OF same] complete_body_progress])
  have d: "decides n s3 s'" unfolding s' s3_def by (intro decides_same decides_marks)
  have "node_status s n \<noteq> None \<longrightarrow> settled s' n" using p d by (auto simp: progress_def decides_def)
  with progress_trans [OF p decides_progress [OF d]] show ?thesis by blast
qed

lemma merge_settles:
  assumes "executeMerge cf g nd def n wait s = (Inr (), s')"
  shows "decides n s s'"
proof (cases "bindR (getNodeInputs n g (sc_es s)) (\<lambda>_. merge_inputs wait (es_nodeStates (sc_es s)) (getIncomingDataEdges g n))")
  case (Inl e)
  with assms show ?thesis by (simp add: executeMerge_def)
next
  case (Inr vs)
  obtain r1 s1 where c: "run_call (\<lambda>c. nd_execute def (n_payload nd) (Some (DCollection vs KAny)) c None)
      (markNodeRunning cf n s) = (r1, s1)" by fastforce
  from touches_trans [OF touches_running touches_run_call [OF this]] have t: "touches n s s1" .
  have d: "decides n s1 (emit (EvMerge n k) (emit (EvComplete n out) (markNodeCompleted cf n out s1)))" for k out
    by (intro decides_same decides_marks)
  from touches_decides [OF t d] assms Inr c show ?thesis
    by (cases "bindR r1 stored_output") (auto simp: executeMerge_def split: list.splits intro: decides_same decides_marks)
qed

lemma touches_timeout:
  assumes "\<And>r s'. promise s = (r, s') \<Longrightarrow> touches n s s'" and "executeWithTimeout cf limit m promise s = (r, s')"
  shows "touches n s s'"
  using assms by (auto simp: executeWithTimeout_def split: prod.splits)

lemma query_settles:
  assumes "executeQuery cf n q s = (Inr (), s')"
  shows "decides n s s'"
proof -
  obtain r1 s1 where c1: "run_call (cf_query cf q) s = (r1, s1)" by fastforce
  obtain r2 s2 where c2: "executeWithTimeout cf 30000 n (run_call (cf_query cf q)) s1 = (r2, s2)" by fastforce
  have t: "touches n s s2"
    by (rule touches_trans [OF touches_run_call [OF c1] touches_timeout [OF touches_run_call c2]])
  have "decides n s2 (emit (EvComplete n out) (markNodeCompleted cf n out s2))" for out
    by (intro decides_same decides_marks)
  from touches_decides [OF t this] assms c1 c2 show ?thesis
    by (auto simp: executeQuery_def split: sum.splits)
qed

lemma handle_error_settles:
  assumes "progress_visit exec" and "handleNodeError cf exec g nd def e s = Some (Inr (), s')"
  shows "\<exists>s1. decides (n_id nd) s s1 \<and> progress s1 s'"
proof (cases "onError (n_errorPolicy nd)")
  case OnSkip
  have *: "decides (n_id nd) s (on_node (n_id nd) (\<lambda>x. x\<lparr>nx_output := Some v\<rparr>) (markNodeSkipped cf (n_id nd) s))" for v
    using decides_marks(2) [of "n_id nd" s cf]
    by (auto simp: decides_def settled_def status_on_node) (auto simp: node_status_def)
  from OnSkip assms(2) obtain v where "s' = emit (EvSkip (n_id nd) (error_message e))
      (on_node (n_id nd) (\<lambda>x. x\<lparr>nx_output := Some v\<rparr>) (markNodeSkipped cf (n_id nd) s))"
    by (auto simp: handleNodeError_def Let_def split: sum.splits)
  then have "decides (n_id nd) s s'" using * by (simp add: decides_same)
  then show ?thesis using progress_refl by blast
next
  case OnFallback
  define s1 where "s1 = skip_with cf (n_id nd) ''Using fallback'' s"
  have d: "decides (n_id nd) s s1" unfolding s1_def by (rule decides_marks)
  have "s' = s1 \<or> (\<exists>f. exec f s1 = Some (Inr (), s'))"
    using OnFallback assms(2) by (auto simp: handleNodeError_def Let_def s1_def [symmetric] split: option.splits if_splits)
  with assms(1) have "progress s1 s'" by (auto simp: progress_visit_def)
  with d show ?thesis by blast
qed (use assms(2) in \<open>simp_all add: handleNodeError_def fail_node_def Let_def\<close>)

lemma catch_error_settles:
  assumes "progress_visit exec" and "n_id nd = n" and "catch_error cf exec g nd def n e s = Some (Inr (), s')"
  shows "\<exists>s1. decides n s s1 \<and> progress s1 s'"
proof -
  let ?s1 = "on_ctx (\<lambda>c. c\<lparr>ctx_trace := traceError n e (ctx_trace c)\<rparr>) s"
  have "handleNodeError cf exec g nd def e ?s1 = Some (Inr (), s')"
    using assms(3) by (simp add: catch_error_def split: if_splits)
  from handle_error_settles [OF assms(1) this] obtain s2 where "decides n ?s1 s2" "progress s2 s'"
    unfolding assms(2) by blast
  moreover have "touches n s ?s1" by (simp add: touches_basic)
  ultimately show ?thesis using touches_decides by blast
qed

lemma standard_settles:
  assumes "progress_visit exec" and "n_id nd = n" and "executeStandard cf exec g nd def n s = Some (Inr (), s')"
  shows "\<exists>s1. decides n s s1 \<and> progress s1 s'"
proof (cases "getNodeInputs n g (sc_es s)")
  case (Inl e)
  with assms(3) have "catch_error cf exec g nd def n e s = Some (Inr (), s')" by (simp add: executeStandard_def)
  with assms(1,2) show ?thesis by (rule catch_error_settles)
next
  case (Inr inputs)
  define s1 where "s1 = markNodeRunning cf n s"
  obtain r s2 where call: "executeWithTimeout cf (min (rem_timeMs (budgetRemaining (now cf s1) (budget (es_ctx (sc_es s1))))) 30000) n
      (executeWithRetry cf nd def (actual_input g inputs)) s1 = (r, s2)" by fastforce
  have "touches n s1 s2"
    by (rule touches_timeout [OF _ call]) (auto simp: executeWithRetry_def assms(2) dest: touches_retry)
  then have t: "touches n s s2" using touches_trans touches_running unfolding s1_def by blast
  show ?thesis
  proof (cases r)
    case (Inr out)
    let ?s3 = "if n_kind nd = ''llm'' then on_ctx incrementLLMBudget s2 else s2"
    have "touches n s ?s3" using t by (simp add: touches_basic)
    moreover have "decides n ?s3 (emit (EvComplete n (Some out)) (markNodeCompleted cf n (Some out) ?s3))"
      by (intro decides_same decides_marks)
    ultimately have "decides n s (emit (EvComplete n (Some out)) (markNodeCompleted cf n (Some out) ?s3))"
      by (rule touches_decides)
    with assms(3) \<open>getNodeInputs n g (sc_es s) = Inr inputs\<close> call Inr show ?thesis
      by (auto simp: executeStandard_def s1_def [symmetric] Let_def)
  next
    case (Inl e)
    have "catch_error cf exec g nd def n e s2 = Some (Inr (), s')"
      using assms(3) \<open>getNodeInputs n g (sc_es s) = Inr inputs\<close> call Inl
      by (simp add: executeStandard_def s1_def [symmetric] Let_def)
    from catch_error_settles [OF assms(1,2) this] obtain s4 where "decides n s2 s4" "progress s4 s'" by blast
    with t show ?thesis using touches_decides by blast
  qed
qed

text \<open>A graph whose nodes are filed under their ids.\<close>

definition keyed_nodes :: "'p graph \<Rightarrow> bool" where
  "keyed_nodes g \<longleftrightarrow> (\<forall>(k, nd) \<in> set (g_nodes g). n_id nd = k)"

lemma decides_settled:
  assumes "decides n s s1" and "progress s1 s'"
  shows "progress s s' \<and> (node_status s n \<noteq> None \<longrightarrow> settled s' n)"
proof
  show "progress s s'" by (rule progress_trans [OF decides_progress [OF assms(1)] assms(2)])
  have "node_status s n \<noteq> None \<Longrightarrow> settled s1 n" using assms(1) by (simp add: decides_def)
  then show "node_status s n \<noteq> None \<longrightarrow> settled s' n" using assms(2) by (simp add: progress_def)
qed

lemma dispatch_settles:
  assumes "settles exec" and "n_id nd = n" and "dispatch cf exec g nd def n s = Some (Inr (), s')"
  shows "progress s s' \<and> (node_status s n \<noteq> None \<longrightarrow> settled s' n)"
proof (cases "n_kind nd \<in> {''parallel'', ''conditional'', ''loop'', ''merge'', ''query''}")
  case False
  with assms(3) have "executeStandard cf exec g nd def n s = Some (Inr (), s')" by (simp add: dispatch_def)
  from standard_settles [OF settles_progress [OF assms(1)] assms(2) this] show ?thesis
    using decides_settled by blast
next
  case True
  show ?thesis
  proof (cases "n_payload nd")
    case (PLoop lp)
    with True assms(3) show ?thesis
      by (auto simp: dispatch_def dest: executeLoop_settles split: if_splits)
  next
    case (PConditional p)
    with True assms(3) have "executeConditional cf g n p s = (Inr (), s')" by (simp add: dispatch_def split: if_splits)
    then show ?thesis by (rule conditional_settles)
  next
    case (PMerge w q)
    with True assms(3) have "executeMerge cf g nd def n w s = (Inr (), s')" by (simp add: dispatch_def split: if_splits)
    from merge_settles [OF this] show ?thesis by (rule decides_settled) simp
  next
    case (PParallel m)
    with True assms(3) have "executeParallel cf exec g n m s = Some (Inr (), s')" by (simp add: dispatch_def split: if_splits)
    with assms(1) show ?thesis by (intro executeParallel_settles settles_progress)
  next
    case (PQuery q)
    with True assms(3) have "executeQuery cf n q s = (Inr (), s')" by (simp add: dispatch_def split: if_splits)
    from query_settles [OF this] show ?thesis by (rule decides_settled) simp
  next
    case (POther q)
    with True assms(3) show ?thesis by (simp add: dispatch_def)
  qed
qed

lemma executeNode_settles:
  assumes "keyed_nodes g"
  shows "settles (executeNode fuel cf g)"
proof (induction fuel)
  case (Suc fuel)
  show ?case
    unfolding settles_def
  proof (intro allI impI)
    fix n s s'
    assume run: "executeNode (Suc fuel) cf g n s = Some (Inr (), s')"
    then obtain nd where nd: "map_of (g_nodes g) n = Some nd" by (cases "map_of (g_nodes g) n") auto
    with assms have key: "n_id nd = n" by (auto simp: keyed_nodes_def dest: map_of_SomeD)
    obtain def where "dispatch cf (executeNode fuel cf g) g nd def n (emit (EvStart n) s) = Some (Inr (), s')"
      using run nd by (cases "bindR (checkBudget (now cf s) (budget (es_ctx (sc_es s))) (n_kind nd)) (\<lambda>_. registry_get cf (n_kind nd))") auto
    from dispatch_settles [OF Suc key this] have "progress (emit (EvStart n) s) s' \<and> (node_status s n \<noteq> None \<longrightarrow> settled s' n)"
      by simp
    moreover have "progress s (emit (EvStart n) s)" by (rule same_nodes_progress) simp
    ultimately show "progress s s' \<and> (node_status s n \<noteq> None \<longrightarrow> settled s' n)"
      using progress_trans by blast
  qed
qed (simp add: settles_def)

lemma run_visit_settles:
  assumes "keyed_nodes g"
  shows "settles (run_visit fuel cf g)"
  unfolding settles_def
proof (intro allI impI)
  fix n s s'
  assume "run_visit fuel cf g n s = Some (Inr (), s')"
  then have "s' = s \<and> settled s n \<or> (\<exists>reason. s' = skip_with cf n reason s) \<or> executeNode fuel cf g n s = Some (Inr (), s')"
    unfolding run_visit_def settled_def
    by (split if_split_asm, blast) (split if_split_asm, blast, split sum.split_asm, blast, split if_split_asm, blast, blast)
  then consider "s' = s" "settled s n" | reason where "s' = skip_with cf n reason s" | "executeNode fuel cf g n s = Some (Inr (), s')"
    by blast
  then show "progress s s' \<and> (node_status s n \<noteq> None \<longrightarrow> settled s' n)"
  proof cases
    case 1
    then show ?thesis by simp
  next
    case 2
    from decides_settled [OF decides_marks(3) progress_refl] show ?thesis unfolding 2 .
  next
    case 3
    then show ?thesis using executeNode_settles [OF assms] unfolding settles_def by blast
  qed
qed

lemma init_status: "node_status (init_sched g c steps w) n = (if n \<in> set (node_ids g) then Some Pending else None)"
proof -
  have "map_of (map (\<lambda>n. (n, x)) ns) n = (if n \<in> set ns then Some x else None)" for x :: nodeState and ns
    by (induction ns) auto
  then show ?thesis by (simp add: node_status_def init_sched_def pending_state_def)
qed

lemma validated_sorts:
  assumes "wf_graph g" and "validateGraph g kinds = []"
  shows "\<exists>order. topologicalSort g = Inr order \<and> distinct order \<and> set order = set (node_ids g) \<and> ordered_by (data_arrows g) order"
proof -
  have "endpoints_exist g" using assms(2) unfolding validateGraph_def append_is_Nil_conv validate_endpoints by blast
  moreover have "\<nexists>c. topologicalSort g = Inl c"
    using assms(2) by (auto simp: validateGraph_def split: sum.splits js_error.splits)
  ultimately show ?thesis
    using topologicalSort_cases [OF endpoints_closed] assms(1) unfolding wf_graph_def node_ids_def by blast
qed

lemma run_settles:
  assumes "wf_graph g" and "keyed_nodes g" and "run fuel cf g c w = Some (Inr r)"
  shows "\<exists>s. r = finish_run cf g s \<and> distinct (state_keys s) \<and> (\<forall>n. node_status s n \<noteq> None \<longrightarrow> settled s n) \<and>
    (\<forall>n \<in> set (node_ids g). settled s n)"
proof -
  let ?s0 = "init_sched g c (cf_steps cf) w"
  have valid: "validateGraph g (Some (map fst (cf_registry cf))) = []"
    using assms(3) by (cases "validateGraph g (Some (map fst (cf_registry cf)))") (auto simp: run_def)
  from validated_sorts [OF assms(1) this] obtain order where
    order: "topologicalSort g = Inr order" "set order = set (node_ids g)" by blast
  from assms(3) valid order obtain s where
    s: "run_list (run_visit fuel cf g) order ?s0 = Some (Inr (), s)" "r = finish_run cf g s"
    by (auto simp: run_def split: bind_splits sum.splits)
  note st = run_visit_settles [OF assms(2), of fuel cf]
  have p: "progress ?s0 s" by (rule run_list_progress [OF settles_progress [OF st] s(1)])
  have all: "\<forall>n \<in> set order. settled s n"
    by (rule run_list_settles [OF st s(1)]) (simp add: init_status order(2))
  have "distinct (state_keys ?s0)"
    using assms(1) by (simp add: state_keys_def init_sched_def wf_graph_def node_ids_def comp_def)
  with p have "distinct (state_keys s)" by (simp add: progress_def)
  moreover have "settled s n" if "node_status s n \<noteq> None" for n
    using p that all unfolding progress_def order(2) by (metis init_status)
  ultimately show ?thesis using s(2) all order(2) by blast
qed

end
