(* ===== verification/SchedulerSteps.thy ===== *)
theory SchedulerSteps
  imports SchedulerSafety
begin

text \<open>
  What single steps of the scheduler do: retries with exponential backoff, the decision of a
  conditional, the bound on the iterations of a loop, and the query node.
\<close>

section \<open>Retries\<close>

text \<open>The state in which attempt \<open>i\<close> starts when the ones before it failed.\<close>

fun attempt_state :: "('q, 'w) config \<Rightarrow> string \<Rightarrow> int \<Rightarrow> (execContext \<Rightarrow> 'w \<Rightarrow> jsval res \<times> trace \<times> 'w) \<Rightarrow> nat \<Rightarrow>
    ('q, 'w) sched \<Rightarrow> ('q, 'w) sched" where
  "attempt_state cf n delay call 0 s = s"
| "attempt_state cf n delay call (Suc i) s =
     (let s1 = on_node n (\<lambda>x. x\<lparr>nx_retryCount := int i + 1\<rparr>) (snd (run_call call (attempt_state cf n delay call i s)))
      in s1\<lparr>sc_world := cf_sleep cf (delay * 2 ^ i) (sc_world s1)\<rparr>)"

definition attempt :: "('q, 'w) config \<Rightarrow> string \<Rightarrow> int \<Rightarrow> (execContext \<Rightarrow> 'w \<Rightarrow> jsval res \<times> trace \<times> 'w) \<Rightarrow> ('q, 'w) sched \<Rightarrow>
    nat \<Rightarrow> dataValue res \<times> ('q, 'w) sched" where
  "attempt cf n delay call s i = (case run_call call (attempt_state cf n delay call i s) of (r, s') \<Rightarrow> (bindR r wrapLegacyValue, s'))"

definition fails :: "dataValue res \<times> ('q, 'w) sched \<Rightarrow> bool" where
  "fails a \<longleftrightarrow> (case fst a of Inl e \<Rightarrow> \<not> unmodelled (fst a) | Inr _ \<Rightarrow> False)"

lemma fails_iff: "fails a \<longleftrightarrow> (\<exists>e. fst a = Inl e \<and> \<not> unmodelled (Inl e :: dataValue res))"
  by (auto simp: fails_def split: sum.split)

lemma retry_loop_next:
  assumes "fails (attempt cf n delay call s i)" and "0 < left"
  shows "\<exists>err'. retry_loop cf n delay call (Suc left) i err (attempt_state cf n delay call i s)
    = retry_loop cf n delay call left (Suc i) err' (attempt_state cf n delay call (Suc i) s)"
proof -
  obtain r s1 where c: "run_call call (attempt_state cf n delay call i s) = (r, s1)" by fastforce
  with assms(1) obtain e where "bindR r wrapLegacyValue = Inl e" "\<not> unmodelled (Inl e :: dataValue res)"
    by (auto simp: fails_iff attempt_def)
  with c assms(2) show ?thesis by (auto simp: Let_def)
qed

lemma retry_loop_skip:
  assumes "\<And>j. j < m \<Longrightarrow> fails (attempt cf n delay call s j)"
  shows "\<exists>err'. retry_loop cf n delay call (Suc (left + m)) 0 err s
    = retry_loop cf n delay call (Suc left) m err' (attempt_state cf n delay call m s)"
  using assms
proof (induction m arbitrary: left)
  case (Suc m)
  from Suc obtain err' where "retry_loop cf n delay call (Suc (left + Suc m)) 0 err s
      = retry_loop cf n delay call (Suc (Suc left)) m err' (attempt_state cf n delay call m s)"
    using Suc.IH [of "Suc left"] by auto
  with retry_loop_next [of cf n delay call s m "Suc left" err'] Suc.prems show ?case by (auto simp del: retry_loop.simps)
qed auto

definition node_attempt :: "('q, 'w) config \<Rightarrow> 'q payload node \<Rightarrow> ('q, 'w) nodeDef \<Rightarrow> dataValue option \<Rightarrow> ('q, 'w) sched \<Rightarrow>
    nat \<Rightarrow> dataValue res \<times> ('q, 'w) sched" where
  "node_attempt cf nd def inp s = attempt cf (n_id nd) (or_default (retryDelayMs (n_errorPolicy nd)) 1000)
     (\<lambda>c. nd_execute def (n_payload nd) inp c (step_config s (n_id nd))) s"

text \<open>
  C6: retries.  Attempt \<open>i + 1\<close> runs in the state attempt \<open>i\<close> left, after a pause of the retry
  delay times \<open>2^i\<close> and with the retry count of the node set to \<open>i + 1\<close>.  The first attempt
  that succeeds among \<open>maxRetries + 1\<close> gives the result and no other attempt follows it; when
  all of them fail, the error is that of the last, and no pause follows it.
\<close>

theorem executeWithRetry_first_success:
  assumes "\<forall>j < m. fails (node_attempt cf nd def inp s j)" and "0 \<le> or_default (maxRetries (n_errorPolicy nd)) 0"
    and "int m \<le> or_default (maxRetries (n_errorPolicy nd)) 0"
    and "fails (node_attempt cf nd def inp s m) \<longrightarrow> int m = or_default (maxRetries (n_errorPolicy nd)) 0"
    and "\<not> unmodelled (fst (node_attempt cf nd def inp s m))"
  shows "executeWithRetry cf nd def inp s = node_attempt cf nd def inp s m"
proof -
  let ?call = "\<lambda>c. nd_execute def (n_payload nd) inp c (step_config s (n_id nd))"
  let ?d = "or_default (retryDelayMs (n_errorPolicy nd)) 1000"
  define left where "left = nat (or_default (maxRetries (n_errorPolicy nd)) 0) - m"
  have n: "nat (or_default (maxRetries (n_errorPolicy nd)) 0 + 1) = Suc (left + m)" using assms(2,3) by (simp add: left_def)
  obtain err' where skip: "executeWithRetry cf nd def inp s
      = retry_loop cf (n_id nd) ?d ?call (Suc left) m err' (attempt_state cf (n_id nd) ?d ?call m s)"
    using retry_loop_skip [of m cf "n_id nd" ?d ?call s left None] assms(1)
    by (auto simp: executeWithRetry_def n node_attempt_def simp del: retry_loop.simps)
  obtain r s1 where c: "run_call ?call (attempt_state cf (n_id nd) ?d ?call m s) = (r, s1)" by fastforce
  then have a: "node_attempt cf nd def inp s m = (bindR r wrapLegacyValue, s1)" by (simp add: node_attempt_def attempt_def)
  show ?thesis
  proof (cases "bindR r wrapLegacyValue")
    case (Inr v)
    with skip c a show ?thesis by simp
  next
    case (Inl e)
    with assms(5) a have e: "\<not> unmodelled (Inl e :: dataValue res)" by simp
    with assms(4) a Inl have "left = 0" by (simp add: fails_iff left_def)
    with skip c a Inl e show ?thesis by simp
  qed
qed

text \<open>A node that fails until the fifth millisecond, with a pause of four between its attempts.\<close>

definition flaky_node :: "unit payload node" where
  "flaky_node = (plain_node ''f'' ''transform'' (POther ()))\<lparr>n_errorPolicy := \<lparr>onError = OnRetry, maxRetries = Some 3,
     retryDelayMs = Some 4, fallbackNodeId = None\<rparr>\<rparr>"

definition flaky_def :: "(unit, nat) nodeDef" where
  "flaky_def = \<lparr>nd_inputKeys = [''input''], nd_execute = (\<lambda>p inp c form w.
     (if w < 5 then Inl (PlainError ''busy'') else Inr (JBool True), ctx_trace c, Suc w))\<rparr>"

definition flaky_cf :: "(unit, nat) config" where
  "flaky_cf = \<lparr>cf_registry = [(''transform'', flaky_def)], cf_query = (\<lambda>q c w. (Inr JNull, ctx_trace c, Suc w)),
     cf_host = no_host, cf_fns = [], cf_maxParallel = 1, cf_now = (\<lambda>w. int w), cf_sleep = (\<lambda>ms w. w + nat ms),
     cf_steps = [], cf_outputKey = (\<lambda>p. None), cf_filter = (\<lambda>p. JUndef), cf_cursors = False\<rparr>"

definition flaky_start :: "(unit, nat) sched" where
  "flaky_start = init_sched (mk_graph [flaky_node] [] ''f'' []) (createExecutionContext ''p'' ''s'' None [] (defaultBudget 0)) [] 0"

theorem executeWithRetry_first_success_witness:
  "fst (executeWithRetry flaky_cf flaky_node flaky_def None flaky_start) = Inr (DScalar (JBool True) TBoolean)"
proof -
  have 0: "fails (node_attempt flaky_cf flaky_node flaky_def None flaky_start 0)" by code_simp
  have 1: "fst (node_attempt flaky_cf flaky_node flaky_def None flaky_start 1) = Inr (DScalar (JBool True) TBoolean)" by code_simp
  have "executeWithRetry flaky_cf flaky_node flaky_def None flaky_start = node_attempt flaky_cf flaky_node flaky_def None flaky_start 1"
    by (rule executeWithRetry_first_success) (use 0 1 in \<open>simp_all add: fails_iff flaky_node_def or_default_def\<close>)
  with 1 show ?thesis by simp
qed

section \<open>Conditionals\<close>

lemma skip_pending_status:
  "node_status (foldl (\<lambda>s m. skip_pending cf reason m s) s ms) k =
    (if k \<in> set ms \<and> node_status s k = Some Pending then Some Skipped else node_status s k)"
proof (induction ms arbitrary: s)
  case (Cons m ms)
  have "node_status (skip_with cf m reason s) m = Some Skipped" if "node_status s m = Some Pending"
    using that by (simp add: skip_with_def markNodeSkipped_def status_on_node_set)
  moreover have "node_status (skip_with cf m reason s) k = node_status s k" if "k \<noteq> m"
    using that by (simp add: skip_with_def markNodeSkipped_def)
  ultimately have "node_status (skip_pending cf reason m s) k =
      (if k = m \<and> node_status s m = Some Pending then Some Skipped else node_status s k)"
    by (auto simp: skip_pending_def)
  with Cons.IH [of "skip_pending cf reason m s"] show ?case by auto
qed simp

lemma decide_edges_sets:
  "set (es_activated (decide_edges b es st)) = set (es_activated st) \<union> e_id ` {e \<in> set es. edge_fires b e}"
  "set (es_deactivated (decide_edges b es st)) = set (es_deactivated st) \<union> e_id ` {e \<in> set es. \<not> edge_fires b e}"
  unfolding decide_edges_def
  by (induction es arbitrary: st) (auto simp: activateEdge_def deactivateEdge_def)

lemma skip_pending_edges:
  "es_activated (sc_es (foldl (\<lambda>s m. skip_pending cf reason m s) s ms)) = es_activated (sc_es s)"
  "es_deactivated (sc_es (foldl (\<lambda>s m. skip_pending cf reason m s) s ms)) = es_deactivated (sc_es s)"
  by (induction ms arbitrary: s)
    (simp_all add: skip_pending_def skip_with_def markNodeSkipped_def on_node_def on_es_def emit_def split: option.split)

text \<open>An edge takes the value \<open>b\<close> when its condition is that value or \<open>always\<close>.\<close>

definition takes :: "bool \<Rightarrow> edge \<Rightarrow> bool" where
  "takes b e \<longleftrightarrow> e_condition e \<in> {Some CondAlways, Some (if b then CondTrue else CondFalse)}"

lemma edge_fires_takes: "edge_fires b e = takes b e"
  by (auto simp: edge_fires_def takes_def)

text \<open>The nodes behind the control edges of \<open>n\<close> that do not take \<open>b\<close>, up to merge nodes.\<close>

definition not_taken :: "'p graph \<Rightarrow> string \<Rightarrow> bool \<Rightarrow> string set" where
  "not_taken g n b = {m. \<exists>e \<in> set (getOutgoingControlEdges g n). \<not> takes b e \<and> spreads g (e_to e) \<and>
     (e_to e, m) \<in> (admitted_edges (spreads g) (all_arrows g))\<^sup>*}"

lemma inactive_not_taken:
  assumes "distinct (map e_id (getOutgoingControlEdges g n))"
    and "\<forall>e \<in> set (getOutgoingControlEdges g n). e_id e \<notin> set (es_deactivated st)"
    and "set (es_deactivated st') = set (es_deactivated st) \<union> e_id ` {e \<in> set (getOutgoingControlEdges g n). \<not> takes b e}"
  shows "set (getNodesOnInactiveBranches g n st') = not_taken g n b"
proof -
  have "e_id e \<in> set (es_deactivated st') \<longleftrightarrow> \<not> takes b e" if "e \<in> set (getOutgoingControlEdges g n)" for e
    using assms that by (auto simp: distinct_map inj_on_def)
  then show ?thesis unfolding inactive_branches_set not_taken_def by blast
qed

text \<open>
  C4: a conditional takes one side.  It completes its node and activates exactly the outgoing
  control edges whose condition is the value of the predicate or \<open>always\<close>; the pending nodes
  behind the others, up to merge nodes, are skipped, and no other node changes its status.
\<close>

theorem executeConditional_decides:
  assumes "executeConditional cf g n p s = (Inr (), s')" and "node_status s n = Some Pending"
    and "distinct (map e_id (getOutgoingControlEdges g n))"
    and "\<forall>e \<in> set (getOutgoingControlEdges g n). e_id e \<notin> set (es_deactivated (sc_es s))"
  shows "\<exists>inputs b. getNodeInputs n g (sc_es s) = Inr inputs \<and>
    evaluate (cf_host cf) (cf_fns cf) p (ctx_scope (es_ctx (sc_es s))) (predicate_row (map_of inputs ''input'')) = Inr (JBool b) \<and>
    set (es_activated (sc_es s')) = set (es_activated (sc_es s)) \<union> e_id ` {e \<in> set (getOutgoingControlEdges g n). takes b e} \<and>
    node_status s' n = Some Completed \<and>
    (\<forall>m. m \<noteq> n \<longrightarrow> node_status s' m =
      (if m \<in> not_taken g n b \<and> node_status s m = Some Pending then Some Skipped else node_status s m))"
proof -
  obtain inputs b where inputs: "getNodeInputs n g (sc_es s) = Inr inputs"
    and b: "evaluate (cf_host cf) (cf_fns cf) p (ctx_scope (es_ctx (sc_es s))) (predicate_row (map_of inputs ''input'')) = Inr (JBool b)"
    using assms(1) by (auto simp: executeConditional_def Let_def split: sum.splits jsval.splits)
  define inp where "inp = map_of inputs ''input''"
  define s1 where "s1 = on_es (decide_edges b (getOutgoingControlEdges g n)) s"
  define s2 where "s2 = emit (EvComplete n inp) (markNodeCompleted cf n inp s1)"
  have s': "s' = foldl (\<lambda>s m. skip_pending cf ''inactive conditional branch'' m s) s2 (getNodesOnInactiveBranches g n (sc_es s2))"
    using assms(1) inputs b by (simp add: executeConditional_def Let_def inp_def [symmetric] s1_def s2_def)
  have dec: "es_nodeStates (decide_edges b es st) = es_nodeStates st" for es st
    unfolding decide_edges_def by (induction es arbitrary: st) (simp_all add: activateEdge_def deactivateEdge_def)
  have st1: "node_status s1 m = node_status s m" for m by (simp add: node_status_def s1_def on_es_def dec)
  then have st2: "node_status s2 m = (if m = n then Some Completed else node_status s m)" for m
    using assms(2) by (simp add: s2_def markNodeCompleted_def status_on_node_set)
  have edges: "es_activated (sc_es s2) = es_activated (sc_es s1)" "es_deactivated (sc_es s2) = es_deactivated (sc_es s1)"
    by (simp_all add: s2_def emit_def markNodeCompleted_def on_ctx_def on_es_def on_node_def split: option.split)
  have sets: "set (es_activated (sc_es s1)) = set (es_activated (sc_es s)) \<union> e_id ` {e \<in> set (getOutgoingControlEdges g n). takes b e}"
    "set (es_deactivated (sc_es s1)) = set (es_deactivated (sc_es s)) \<union> e_id ` {e \<in> set (getOutgoingControlEdges g n). \<not> takes b e}"
    by (simp_all add: s1_def on_es_def decide_edges_sets edge_fires_takes)
  have "set (getNodesOnInactiveBranches g n (sc_es s2)) = not_taken g n b"
    by (rule inactive_not_taken [OF assms(3,4)]) (simp add: edges sets)
  then have "node_status s' m = (if m = n then Some Completed
      else if m \<in> not_taken g n b \<and> node_status s m = Some Pending then Some Skipped else node_status s m)" for m
    by (simp add: s' skip_pending_status st2)
  with inputs b sets(1) show ?thesis by (auto simp: s' skip_pending_edges edges)
qed

definition branch_graph :: "unit payload graph" where
  "branch_graph = mk_graph [plain_node ''c'' ''conditional'' (PConditional (Literal (JBool True) TBoolean)),
      plain_node ''yes'' ''output'' (POther ()), plain_node ''no'' ''output'' (POther ())]
    [control_edge ''t'' ''c'' ''yes'' CondTrue, control_edge ''f'' ''c'' ''no'' CondFalse] ''c'' []"

theorem executeConditional_decides_witness:
  "\<exists>s'. executeConditional flaky_cf branch_graph ''c'' (Literal (JBool True) TBoolean)
      (init_sched branch_graph (createExecutionContext ''p'' ''s'' None [] (defaultBudget 0)) [] 0) = (Inr (), s') \<and>
    node_status s' ''yes'' = Some Pending"
proof -
  let ?s = "init_sched branch_graph (createExecutionContext ''p'' ''s'' None [] (defaultBudget 0)) [] 0 :: (unit, nat) sched"
  obtain s' where s': "executeConditional flaky_cf branch_graph ''c'' (Literal (JBool True) TBoolean) ?s = (Inr (), s')"
    by (simp add: executeConditional_def Let_def getNodeInputs_def getIncomingDataEdges_def edges_of_def branch_graph_def sample_graph)
  have out: "getOutgoingControlEdges branch_graph ''c'' = [control_edge ''t'' ''c'' ''yes'' CondTrue, control_edge ''f'' ''c'' ''no'' CondFalse]"
    by (simp add: getOutgoingControlEdges_def edges_of_def branch_graph_def sample_graph)
  have ids: "node_ids branch_graph = [''c'', ''yes'', ''no'']" by (simp add: node_ids_def branch_graph_def sample_graph)
  have no_paths: "(x, y) \<in> (admitted_edges (spreads branch_graph) (all_arrows branch_graph))\<^sup>* \<Longrightarrow> x \<noteq> ''c'' \<Longrightarrow> y = x" for x y
    by (induction rule: rtrancl_induct)
      (auto simp: admitted_edges_def all_arrows_def arrow_def edges_of_def branch_graph_def sample_graph)
  have "''yes'' \<notin> not_taken branch_graph ''c'' True"
    by (auto simp: not_taken_def out takes_def control_edge_def dest: no_paths)
  moreover obtain b where "b" and "\<forall>m. m \<noteq> ''c'' \<longrightarrow> node_status s' m = (if m \<in> not_taken branch_graph ''c'' b \<and>
      node_status ?s m = Some Pending then Some Skipped else node_status ?s m)"
  proof -
    have "node_status ?s ''c'' = Some Pending" by (simp add: init_status ids)
    moreover have "distinct (map e_id (getOutgoingControlEdges branch_graph ''c''))" by (simp add: out control_edge_def)
    moreover have "\<forall>e \<in> set (getOutgoingControlEdges branch_graph ''c''). e_id e \<notin> set (es_deactivated (sc_es ?s))"
      by (simp add: init_sched_def)
    ultimately show thesis using executeConditional_decides [OF s'] that by auto
  qed
  ultimately show ?thesis using s' by (simp add: init_status ids)
qed

section \<open>Loops\<close>

definition collects :: "loopPayload \<Rightarrow> bool" where
  "collects lp \<longleftrightarrow> (case lp_accumulator lp of None \<Rightarrow> True | Some d \<Rightarrow> ad_kind d = AkCollect)"

lemma collect_update:
  assumes "collects lp" and "loopUpdateAccumulator h reg (lp_accumulator lp) (DCollection vs k) item sc = Inr acc"
  shows "\<exists>v k'. acc = DCollection (vs @ [v]) k'"
  using assms by (auto simp: collects_def loopUpdateAccumulator_def Let_def split: option.splits)

lemma iteration_collects:
  assumes "collects (le_payload le)" and "loop_iteration le binds item (DCollection vs k) s = Some (Inr acc, s')"
  shows "\<exists>v k'. acc = DCollection (vs @ [v]) k'"
proof -
  obtain sc out where "loopUpdateAccumulator (cf_host (le_cf le)) (cf_fns (le_cf le)) (lp_accumulator (le_payload le)) (DCollection vs k)
      out sc = Inr acc"
    using assms(2) by (auto simp: loop_iteration_def Let_def split: bind_splits sum.splits)
  with collect_update [OF assms(1)] show ?thesis by blast
qed

lemma for_each_collects:
  assumes "collects (le_payload le)"
  shows "for_each le items iter (DCollection vs k) s = Some (Inr out, s') \<Longrightarrow>
    \<exists>ws k'. out = DCollection (vs @ ws) k' \<and> length ws = min (length items) (nat (le_max le - iter))"
proof (induction items arbitrary: iter vs k s)
  case (Cons item items)
  show ?case
  proof (cases "le_max le \<le> iter")
    case True
    with Cons.prems show ?thesis by auto
  next
    case False
    let ?binds = "\<lambda>c. bind_var (lp_indexVar (le_payload le)) (count_val iter)
      (c\<lparr>ctx_scope := scopeSet (ctx_scope c) (lp_iterVar (le_payload le)) (JData item)\<rparr>)"
    from False Cons.prems obtain acc s1 where it: "loop_iteration le ?binds item (DCollection vs k) s = Some (Inr acc, s1)"
      and rest: "for_each le items (iter + 1) acc s1 = Some (Inr out, s')"
      by (auto split: bind_splits sum.splits)
    from iteration_collects [OF assms it] obtain v k1 where acc: "acc = DCollection (vs @ [v]) k1" by blast
    from Cons.IH [OF rest [unfolded acc]] obtain ws k' where ws: "out = DCollection ((vs @ [v]) @ ws) k'"
      "length ws = min (length items) (nat (le_max le - (iter + 1)))" by blast
    have "out = DCollection (vs @ (v # ws)) k'" "length (v # ws) = min (length (item # items)) (nat (le_max le - iter))"
      using ws False by auto
    then show ?thesis by blast
  qed
qed auto

lemma while_loop_collects:
  assumes "collects (le_payload le)"
  shows "while_loop le inp left iter (DCollection vs k) s = Some (Inr out, s') \<Longrightarrow>
    \<exists>ws k'. out = DCollection (vs @ ws) k' \<and> length ws \<le> left"
proof (induction left arbitrary: iter vs k s)
  case (Suc left)
  let ?s1 = "on_ctx (\<lambda>c. bind_var (lp_indexVar (le_payload le)) (count_val iter)
            (bind_var (Some (lp_iterVar (le_payload le))) (count_val iter) c)) s"
  let ?it = "loop_iteration le (bind_var (Some (lp_iterVar (le_payload le))) (count_val iter)) inp (DCollection vs k) ?s1"
  from Suc.prems consider "out = DCollection vs k"
    | acc s2 where "?it = Some (Inr acc, s2)" "while_loop le inp left (iter + 1) acc s2 = Some (Inr out, s')"
    by (auto simp: Let_def split: sum.splits jsval.splits if_splits bind_splits)
  then show ?case
  proof cases
    case 2
    from iteration_collects [OF assms 2(1)] obtain v k1 where acc: "acc = DCollection (vs @ [v]) k1" by blast
    from Suc.IH [OF 2(2) [unfolded acc]] obtain ws k' where "out = DCollection (vs @ v # ws) k'" "length ws \<le> left" by auto
    then show ?thesis by (intro exI [of _ "v # ws"]) auto
  qed auto
qed auto

lemma completed_output: "node_status s n \<noteq> None \<Longrightarrow> node_output (emit e (markNodeCompleted cf n (Some out) s)) n = Some out"
  by (auto simp: node_output_def node_status_def emit_def markNodeCompleted_def on_ctx_def on_node_def on_es_def)

text \<open>
  C5: a loop is bounded.  When a loop that collects the results of its iterations returns, its
  output is a collection: over the items of a \<open>forEach\<close> it holds one result per item, up to the
  smaller of the loop's own limit and that of the budget, and a \<open>while\<close> loop holds at most
  that many.
\<close>

theorem executeLoop_bounded:
  assumes "executeLoop cf exec g n lp s = Some (Inr (), s')" and "collects lp" and "node_status s n \<noteq> None"
  shows "\<exists>vs k inputs. node_output s' n = Some (DCollection vs k) \<and> getNodeInputs n g (sc_es s) = Inr inputs \<and>
    (let m = nat (min (lp_maxIterations lp) (maxIterations (budget (es_ctx (sc_es s)))));
         s1 = on_ctx (\<lambda>c. c\<lparr>ctx_scope := scopeSet (ctx_scope c) ''input'' (loop_scope_value inputs)\<rparr>) s
     in case lp_mode lp of
          ForEach \<Rightarrow> (\<exists>items. loop_items cf lp s1 = Inr items \<and> length vs = min (length items) m)
        | While \<Rightarrow> length vs \<le> m)"
proof -
  obtain inputs where inputs: "getNodeInputs n g (sc_es s) = Inr inputs"
    using assms(1) by (auto simp: executeLoop_def split: sum.splits)
  define s1 where "s1 = on_ctx (\<lambda>c. c\<lparr>ctx_scope := scopeSet (ctx_scope c) ''input'' (loop_scope_value inputs)\<rparr>) s"
  have init: "initAccumulator (lp_accumulator lp) = DCollection [] KAny"
    using assms(2) by (auto simp: collects_def initAccumulator_def split: option.splits)
  have wrap: "wrapLegacyValue (JData (DCollection [] KAny)) = Inr (DCollection [] KAny)"
    by (simp add: kind_tag_def data_tags_def)
  obtain e :: edge and out s2 where l: "run_loop (loop_env cf exec g n lp (e_to e) s1) (map_of inputs ''input'') (DCollection [] KAny) s1 = Some (Inr out, s2)"
    and s': "s' = emit (EvComplete n (Some out)) (markNodeCompleted cf n (Some out) (complete_body cf (getBodyNodeIds n g) s2))"
  proof -
    obtain e es where e: "getOutgoingDataEdges g n = e # es"
      using assms(1) inputs by (cases "getOutgoingDataEdges g n") (auto simp: executeLoop_def Let_def)
    define x where "x = run_loop (loop_env cf exec g n lp (e_to e) s1) (map_of inputs ''input'') (DCollection [] KAny) s1"
    have "Option.bind x (\<lambda>(r, s2). case r of Inl er \<Rightarrow> Some (Inl er, s2) | Inr out \<Rightarrow> Some (Inr (), emit (EvComplete n (Some out))
        (markNodeCompleted cf n (Some out) (complete_body cf (getBodyNodeIds n g) s2)))) = Some (Inr (), s')"
      using assms(1) by (simp add: executeLoop_def Let_def inputs init wrap e s1_def [symmetric] x_def del: wrapLegacyValue.simps)
    then obtain out s2 where "x = Some (Inr out, s2)"
      "s' = emit (EvComplete n (Some out)) (markNodeCompleted cf n (Some out) (complete_body cf (getBodyNodeIds n g) s2))"
      by (cases x) (auto split: sum.splits)
    with that [of e out s2] show thesis by (simp add: x_def)
  qed
  let ?le = "loop_env cf exec g n lp (e_to e) s1"
  have le: "le_payload ?le = lp" "le_cf ?le = cf" "le_max ?le = min (lp_maxIterations lp) (maxIterations (budget (es_ctx (sc_es s))))"
    by (simp_all add: loop_env_def s1_def on_ctx_def on_es_def)
  have same: "same_nodes s1 s2"
    using l by (auto simp: run_loop_def split: loopMode.splits sum.splits dest: for_each_same while_loop_same)
  have "node_status s1 n \<noteq> None" using assms(3) by (simp add: s1_def)
  then have "node_status (complete_body cf (getBodyNodeIds n g) s2) n \<noteq> None"
    using same_nodes_status [OF same, of n] by (simp add: complete_body_status)
  then have out: "node_output s' n = Some out" unfolding s' by (rule completed_output)
  show ?thesis
  proof (cases "lp_mode lp")
    case ForEach
    with l obtain items where items: "loop_items cf lp s1 = Inr items" "for_each ?le items 0 (DCollection [] KAny) s1 = Some (Inr out, s2)"
      by (auto simp: run_loop_def le split: sum.splits)
    from for_each_collects [OF _ items(2)] assms(2) obtain ws k where
      "out = DCollection ws k" "length ws = min (length items) (nat (le_max ?le))"
      by (auto simp: le(1))
    with out inputs items(1) ForEach show ?thesis unfolding s1_def [symmetric] le(3) by (simp add: Let_def s1_def)
  next
    case While
    with l have "while_loop ?le (case map_of inputs ''input'' of None \<Rightarrow> DVoid | Some v \<Rightarrow> v) (nat (le_max ?le)) 0 (DCollection [] KAny) s1 = Some (Inr out, s2)"
      by (simp add: run_loop_def le)
    from while_loop_collects [OF _ this] assms(2) obtain ws k where "out = DCollection ws k" "length ws \<le> nat (le_max ?le)"
      by (auto simp: le(1))
    with out inputs While show ?thesis by (simp add: le)
  qed
qed

definition three_items :: loopPayload where
  "three_items = \<lparr>lp_mode = ForEach, lp_over = Some (Literal (JArr [JBool True, JBool False, JBool True]) (TArray TBoolean)),
     lp_condition = None, lp_iterVar = ''x'', lp_indexVar = None, lp_maxIterations = 2, lp_accumulator = None\<rparr>"

definition loop_graph :: "unit payload graph" where
  "loop_graph = mk_graph [plain_node ''l'' ''loop'' (PLoop three_items), plain_node ''b'' ''transform'' (POther ())]
     [data_edge ''lb'' ''l'' ''b''] ''l'' []"

definition loop_start :: "(unit, nat) sched" where
  "loop_start = init_sched loop_graph (createExecutionContext ''p'' ''s'' None [] (defaultBudget 0)) [] 10"

theorem executeLoop_bounded_witness:
  "\<exists>s' vs k. executeLoop flaky_cf (executeNode 1 flaky_cf loop_graph) loop_graph ''l'' three_items loop_start = Some (Inr (), s') \<and>
    node_output s' ''l'' = Some (DCollection vs k) \<and> length vs = 2"
proof -
  have "(case executeLoop flaky_cf (executeNode 1 flaky_cf loop_graph) loop_graph ''l'' three_items loop_start of
      Some (Inr (), s') \<Rightarrow> True | _ \<Rightarrow> False)" by code_simp
  then obtain s' where s': "executeLoop flaky_cf (executeNode 1 flaky_cf loop_graph) loop_graph ''l'' three_items loop_start = Some (Inr (), s')"
    by (auto split: option.splits sum.splits)
  have "(case loop_items flaky_cf three_items (on_ctx (\<lambda>c. c\<lparr>ctx_scope := scopeSet (ctx_scope c) ''input'' (loop_scope_value [])\<rparr>) loop_start) of
      Inr items \<Rightarrow> length items = 3 | _ \<Rightarrow> False)" by code_simp
  moreover have "getNodeInputs ''l'' loop_graph (sc_es loop_start) = Inr []" by code_simp
  moreover have "collects three_items" "lp_mode three_items = ForEach" "lp_maxIterations three_items = 2"
    by (simp_all add: collects_def three_items_def)
  moreover have "node_status loop_start ''l'' \<noteq> None"
    by (simp add: loop_start_def init_status loop_graph_def node_ids_def sample_graph)
  moreover have "maxIterations (budget (es_ctx (sc_es loop_start))) = 1000"
    by (simp add: loop_start_def init_sched_def createExecutionContext_def defaultBudget_def)
  ultimately show ?thesis
    using executeLoop_bounded [OF s'] s' by (auto simp: Let_def split: sum.splits)
qed

section \<open>Queries\<close>

text \<open>
  a query node runs its query twice.  The first result is dropped; the node completes with
  the second, provided it arrives within thirty seconds, and the world is the one both
  executions leave.
\<close>

theorem query_runs_twice:
  assumes "cf_query cf q (es_ctx (sc_es s)) (sc_world s) = (Inr v, t1, w1)"
    and "cf_query cf q ((es_ctx (sc_es s))\<lparr>ctx_trace := t1\<rparr>) w1 = (Inr v', t2, w2)"
    and "wrapLegacyValue v' = Inr out" and "cf_now cf w2 - cf_now cf w1 < 30000" and "node_status s n \<noteq> None"
  shows "\<exists>s'. executeQuery cf n q s = (Inr (), s') \<and> sc_world s' = w2 \<and> node_output s' n = Some out"
proof -
  let ?s2 = "(on_ctx (\<lambda>c. c\<lparr>ctx_trace := t2\<rparr>) ((on_ctx (\<lambda>c. c\<lparr>ctx_trace := t1\<rparr>) s)\<lparr>sc_world := w1\<rparr>))\<lparr>sc_world := w2\<rparr>"
  have "executeQuery cf n q s = (Inr (), emit (EvComplete n (Some out)) (markNodeCompleted cf n (Some out) ?s2))"
    using assms(1-4) by (simp add: executeQuery_def run_call_def executeWithTimeout_def now_def on_ctx_def on_es_def result_simps)
  moreover have "sc_world (emit (EvComplete n (Some out)) (markNodeCompleted cf n (Some out) ?s2)) = w2"
    by (simp add: emit_def markNodeCompleted_def on_ctx_def on_es_def on_node_def split: option.split)
  moreover have "node_output (emit (EvComplete n (Some out)) (markNodeCompleted cf n (Some out) ?s2)) n = Some out"
    by (rule completed_output) (use assms(5) in simp)
  ultimately show ?thesis by blast
qed

theorem query_runs_twice_witness:
  "\<exists>s'. executeQuery flaky_cf ''l'' () loop_start = (Inr (), s') \<and> sc_world s' = 12"
proof -
  have "node_status loop_start ''l'' \<noteq> None"
    by (simp add: loop_start_def init_status loop_graph_def node_ids_def sample_graph)
  from query_runs_twice [where cf = flaky_cf and s = loop_start and q = "()", OF _ _ _ _ this]
  show ?thesis by (fastforce simp: flaky_cf_def loop_start_def init_sched_def)
qed

end
