(* ===== verification/Payloads.thy ===== *)
theory Payloads
  imports Evaluator
begin

text \<open>
  What planning produces: query intents (\<open>src/src/compiler/query-ast/query-intent.ts\<close>), the
  steps of a pipeline intent (\<open>src/src/compiler/pipeline/pipeline-intent.ts\<close>) and the payloads of
  nodes (\<open>src/src/nodes/payloads.ts\<close>).  The kind of a node is the constructor of its payload.  Limits and
  offsets are integers.
\<close>

section \<open>Query intents\<close>

record queryIntentColumn =
  ic_field :: string
  ic_table :: "string option"
  ic_alias :: "string option"
  ic_agg :: "aggFn option"
  ic_expr :: "string option"

datatype filterOperator = FoEq | FoNeq | FoLt | FoGt | FoLe | FoGe | FoLike | FoIn | FoNotIn | FoBetween
  | FoIsNull | FoIsNotNull

record queryIntentFilter =
  if_field :: string
  if_table :: "string option"
  if_operator :: filterOperator
  if_value :: "jsval option"
  if_valueRef :: "string option"
  if_expr :: "string option"
  if_caseInsensitive :: "bool option"

datatype intentJoinKind = IjInner | IjLeft | IjRight | IjFull

record queryIntentJoin =
  ij_table :: string
  ij_alias :: "string option"
  ij_kind :: "intentJoinKind option"
  ij_on :: "(string \<times> string) option"

datatype sortDirection = Asc | Desc

datatype nullsOrder = NullsFirst | NullsLast

record queryIntentOrderBy =
  io_field :: string
  io_table :: "string option"
  io_direction :: "sortDirection option"
  io_nulls :: "nullsOrder option"
  io_expr :: "string option"

record intentAggregation =
  ia_fn :: aggFn
  ia_expr :: string
  ia_alias :: string

record queryIntent =
  qi_table :: string
  qi_columns :: "queryIntentColumn list"
  qi_joins :: "queryIntentJoin list option"
  qi_filters :: "queryIntentFilter list option"
  qi_groupBy :: "string list option"
  qi_aggregations :: "intentAggregation list option"
  qi_having :: "queryIntentFilter list option"
  qi_orderBy :: "queryIntentOrderBy list option"
  qi_limit :: "int option"
  qi_offset :: "int option"
  qi_distinct :: "bool option"

section \<open>Payloads\<close>

datatype templatePart = TLiteral string | TExpr exprAST

record templateString =
  ts_parts :: "templatePart list"

datatype transformOp =
    AddField string exprAST
  | RemoveField string
  | RenameField string string
  | CastField string engineType
  | FilterRows exprAST
  | SortRows "(exprAST \<times> sortDirection) list"
  | Dedup "string list"
  | LimitRows jsnum

record queryPayload =
  qp_intent :: queryIntent
  qp_datasource :: string

record llmPayload =
  lm_model :: string
  lm_systemPrompt :: "templateString option"
  lm_userPrompt :: templateString
  lm_outputSchema :: rowSchema
  lm_cacheBy :: "string list option"
  lm_maxTokens :: jsnum
  lm_temperature :: "jsnum option"

datatype writeMode = WInsert | WUpdate | WUpsert | WInsertIgnore | WDelete

datatype writePredicate =
    WpEq string jsval
  | WpIn string "jsval list"
  | WpAny string "jsval list"
  | WpRange string jsval jsval
  | WpIsNull string
  | WpNotNull string
  | WpAnd writePredicate writePredicate
  | WpOr writePredicate writePredicate
  | WpRaw string "jsval list"

record writePayload =
  wp_table :: string
  wp_mode :: writeMode
  wp_columns :: "string list"
  wp_staticValues :: "row option"
  wp_staticWhere :: "row option"
  wp_wherePredicate :: "writePredicate option"
  wp_conflictColumns :: "string list option"
  wp_updateColumns :: "string list option"
  wp_whereColumns :: "string list option"
  wp_returning :: "string list option"
  wp_batchSize :: "jsnum option"
  wp_datasource :: string
  wp_upstreamTables :: "string list option"
  wp_columnAliases :: "(string \<times> string) list option"

datatype nodePayload =
    QueryNode queryPayload
  | WriteNode writePayload
  | TransformNode "transformOp list"
  | LLMNode llmPayload
  | OtherNode string

section \<open>Pipeline intents\<close>

datatype pipelineStepKind = SkQuery | SkTransform | SkLlm | SkHttp | SkWrite | SkConditional | SkLoop
  | SkMerge | SkParallel

datatype stepMergeStrategy = SmUnion | SmJoin | SmFirst

datatype stepLoopMode = SlForEach | SlWhile

record pipelineStepIntent =
  ps_id :: string
  ps_kind :: pipelineStepKind
  ps_description :: string
  ps_dependsOn :: "string list option"
  ps_condition :: "string option"
  ps_trueBranch :: "string option"
  ps_falseBranch :: "string option"
  ps_mergeStep :: "string option"
  ps_loopMode :: "stepLoopMode option"
  ps_loopOver :: "string option"
  ps_loopBody :: "string list option"
  ps_maxIterations :: "int option"
  ps_mergeFrom :: "string list option"
  ps_mergeStrategy :: "stepMergeStrategy option"
  ps_parallelBranches :: "string list option"
  ps_maxConcurrency :: "int option"
  ps_outputFields :: "string list option"
  ps_config :: "row option"

record pipelineIntent =
  pi_description :: string
  pi_steps :: "pipelineStepIntent list"
  pi_params :: "(string \<times> string) list option"
  pi_maxLLMCalls :: "int option"
  pi_maxIterations :: "int option"
  pi_timeoutMs :: "int option"

section \<open>Expressions inside expressions\<close>

definition opt_list :: "'a list option \<Rightarrow> 'a list" where
  "opt_list x = (case x of None \<Rightarrow> [] | Some xs \<Rightarrow> xs)"

lemma opt_list_simps [simp]: "opt_list None = []" "opt_list (Some xs) = xs"
  by (simp_all add: opt_list_def)

fun children :: "exprAST \<Rightarrow> exprAST list" where
  "children (BinaryOp op l r) = [l, r]"
| "children (UnaryOp op e) = [e]"
| "children (FunctionCall f args) = args"
| "children (Conditional c t e) = [c, t, e]"
| "children (Cast e t) = [e]"
| "children (IsNull e) = [e]"
| "children (In e vs) = e # vs"
| "children (Between e l h) = [e, l, h]"
| "children (WindowExpr f e p ob) = e # opt_list p @ opt_list ob"
| "children _ = []"

inductive occurs :: "exprAST \<Rightarrow> exprAST \<Rightarrow> bool" where
  here: "occurs e e"
| below: "c \<in> set (children e) \<Longrightarrow> occurs x c \<Longrightarrow> occurs x e"

inductive_simps occurs_simps [simp]:
  "occurs x (Literal v t)" "occurs x (FieldRef t f)" "occurs x (VarRef n)"
  "occurs x (SqlExpr q)" "occurs x Wildcard"

lemma occurs_iff: "occurs x e \<longleftrightarrow> x = e \<or> (\<exists>c \<in> set (children e). occurs x c)"
  by (auto elim: occurs.cases intro: occurs.intros)

text \<open>Every expression is the root of a finite tree: induction over the children.\<close>

lemma children_smaller: "c \<in> set (children e) \<Longrightarrow> size c < size e"
proof (cases e)
  case (WindowExpr f x p ob)
  assume "c \<in> set (children e)"
  with WindowExpr show ?thesis
    by (cases p; cases ob) (auto simp: less_Suc_eq_le trans_le_add1 trans_le_add2 dest!: size_list_estimation' [of _ _ _ size, OF _ order_refl])
qed (auto simp: less_Suc_eq_le trans_le_add1 trans_le_add2
    dest!: size_list_estimation' [of _ _ _ size, OF _ order_refl])

lemma expr_children_induct [case_names expr]:
  assumes "\<And>e. (\<And>c. c \<in> set (children e) \<Longrightarrow> P c) \<Longrightarrow> P e"
  shows "P e"
  by (induction e rule: measure_induct_rule [where f = size]) (metis assms children_smaller)

end
