(* ===== verification/SchedulerTermination.thy ===== *)
theory SchedulerTermination
  imports SchedulerSafety
begin

text \<open>
  When a run of the scheduler returns.  A node can start others: the targets behind a parallel
  node or a loop, and its fallback.  Where these calls have no cycle, fuel for the longest
  chain of them is enough, and more changes nothing.
\<close>

section \<open>Calls between nodes\<close>

definition fallback_arrows :: "'p graph \<Rightarrow> (string \<times> string) list" where
  "fallback_arrows g = List.map_filter (\<lambda>(k, nd). case (onError (n_errorPolicy nd), fallbackNodeId (n_errorPolicy nd)) of
     (OnFallback, Some f) \<Rightarrow> Some (k, f) | _ \<Rightarrow> None) (g_nodes g)"

definition calls :: "'p graph \<Rightarrow> (string \<times> string) set" where
  "calls g = set (data_arrows g) \<union> set (fallback_arrows g)"

definition depth :: "'p graph \<Rightarrow> string \<Rightarrow> nat" where
  "depth g n = card {m. (n, m) \<in> (calls g)\<^sup>+}"

definition caps_positive :: "('q, 'w) config \<Rightarrow> 'q payload graph \<Rightarrow> bool" where
  "caps_positive cf g \<longleftrightarrow> (\<forall>(k, nd) \<in> set (g_nodes g).
     case n_payload nd of PParallel m \<Rightarrow> 0 < min m (cf_maxParallel cf) | _ \<Rightarrow> True)"

lemma callees_range: "{m. (n, m) \<in> (calls g)\<^sup>+} \<subseteq> Range (calls g)"
proof
  fix m assume "m \<in> {m. (n, m) \<in> (calls g)\<^sup>+}"
  then have "m \<in> Range ((calls g)\<^sup>+)" by blast
  then show "m \<in> Range (calls g)" by (simp only: trancl_range)
qed

lemma finite_range: "finite (Range (calls g))"
  unfolding calls_def Range_snd by simp

lemmas finite_callees = finite_subset [OF callees_range finite_range]

lemma depth_bound: "depth g n \<le> card (Range (calls g))"
  unfolding depth_def by (rule card_mono [OF finite_range callees_range])

lemma depth_decreases:
  assumes "acyclic (calls g)" and "(n, m) \<in> (calls g)\<^sup>+"
  shows "depth g m < depth g n"
  unfolding depth_def
proof (rule psubset_card_mono [OF finite_callees])
  have "m \<notin> {k. (m, k) \<in> (calls g)\<^sup>+}" using assms(1) by (simp add: acyclic_def)
  moreover have "m \<in> {k. (n, k) \<in> (calls g)\<^sup>+}" using assms(2) by simp
  moreover have "{k. (m, k) \<in> (calls g)\<^sup>+} \<subseteq> {k. (n, k) \<in> (calls g)\<^sup>+}"
    using assms(2) by (auto intro: trancl_trans)
  ultimately show "{k. (m, k) \<in> (calls g)\<^sup>+} \<subset> {k. (n, k) \<in> (calls g)\<^sup>+}" by blast
qed

section \<open>Steps return when the steps they call return\<close>

definition returns :: "'a option \<Rightarrow> bool" where
  "returns x \<longleftrightarrow> x \<noteq> None"

lemma returns_Some [simp]: "returns (Some y)"
  by (simp add: returns_def)

lemma returns_bind: "returns x \<Longrightarrow> (\<And>r s. x = Some (r, s) \<Longrightarrow> returns (f (r, s))) \<Longrightarrow> returns (Option.bind x f)"
  by (auto simp: returns_def)

definition total_on :: "string set \<Rightarrow> (string \<Rightarrow> ('q, 'w) step) \<Rightarrow> bool" where
  "total_on A visit \<longleftrightarrow> (\<forall>n \<in> A. \<forall>s. returns (visit n s))"

lemma total_onD: "total_on A visit \<Longrightarrow> n \<in> A \<Longrightarrow> returns (visit n s)"
  by (simp add: total_on_def)

lemma run_list_total: "total_on (set ns) visit \<Longrightarrow> returns (run_list visit ns s)"
proof (induction ns arbitrary: s)
  case (Cons n ns)
  then have "returns (visit n s)" "total_on (set ns) visit" by (simp_all add: total_on_def)
  with Cons.IH show ?case by (auto intro!: returns_bind split: sum.split)
qed simp

lemma reachable_callees: "m \<in> set (getReachableNodes start g) \<Longrightarrow> (start, m) \<in> (calls g)\<^sup>*"
proof -
  assume "m \<in> set (getReachableNodes start g)"
  then have "(start, m) \<in> (set (data_arrows g))\<^sup>*"
    unfolding getReachableNodes_def set_bfs by (simp add: admitted_edges_def)
  then show ?thesis by (rule rtrancl_mono [THEN subsetD, rotated]) (simp add: calls_def)
qed

lemma executeSubgraph_total:
  assumes "total_on {m. (start, m) \<in> (calls g)\<^sup>*} exec"
  shows "returns (executeSubgraph cf exec g start inp s)"
proof -
  have visit: "total_on (set (filter (\<lambda>n. n \<in> set (getReachableNodes start g) \<and> P n) order)) (subgraph_visit cf exec g)"
    for order P
    using assms by (auto simp: total_on_def subgraph_visit_def dest!: reachable_callees)
  show ?thesis
    using run_list_total [OF visit] by (auto simp: executeSubgraph_def Let_def split: sum.split)
qed

lemma data_edge_calls: "e \<in> set (getOutgoingDataEdges g n) \<Longrightarrow> (n, e_to e) \<in> calls g"
  by (auto simp: getOutgoingDataEdges_def calls_def dest: edge_arrow)

lemma successors_total:
  assumes "total_on {m. (n, m) \<in> (calls g)\<^sup>+} exec" and "(n, m) \<in> calls g"
  shows "returns (executeSubgraph cf exec g m inp s)"
proof (rule executeSubgraph_total)
  show "total_on {k. (m, k) \<in> (calls g)\<^sup>*} exec"
    using assms by (auto simp: total_on_def intro: rtrancl_into_trancl2)
qed

lemma executeParallel_total:
  assumes "total_on {m. (n, m) \<in> (calls g)\<^sup>+} exec" and "0 < min m (cf_maxParallel cf)"
  shows "returns (executeParallel cf exec g n m s)"
proof -
  have "total_on (set (map e_to (getOutgoingDataEdges g n))) (\<lambda>b. executeSubgraph cf exec g b inp)" for inp
    unfolding total_on_def using successors_total [OF assms(1) data_edge_calls] by auto
  from run_list_total [OF this] have run: "returns (run_list (\<lambda>b. executeSubgraph cf exec g b inp) (map e_to (getOutgoingDataEdges g n)) s')"
    for inp s' .
  show ?thesis
    unfolding executeParallel_def Let_def
    using assms(2) by (simp split: sum.split) (auto intro!: returns_bind run split: sum.split)
qed

lemma loop_iteration_total:
  assumes "total_on {m. (n, m) \<in> (calls g)\<^sup>+} exec" and "le_run le = exec" "le_graph le = g" "(n, le_start le) \<in> calls g"
  shows "returns (loop_iteration le binds item acc s)"
  using successors_total [OF assms(1,4)] assms(2,3)
  by (auto simp: loop_iteration_def Let_def intro!: returns_bind split: sum.split)

lemma for_each_total:
  assumes "total_on {m. (n, m) \<in> (calls g)\<^sup>+} exec" and "le_run le = exec" "le_graph le = g" "(n, le_start le) \<in> calls g"
  shows "returns (for_each le items iter acc s)"
  by (induction items arbitrary: iter acc s)
    (auto intro!: returns_bind loop_iteration_total [OF assms] split: sum.split)

lemma while_loop_total:
  assumes "total_on {m. (n, m) \<in> (calls g)\<^sup>+} exec" and "le_run le = exec" "le_graph le = g" "(n, le_start le) \<in> calls g"
  shows "returns (while_loop le inp left iter acc s)"
  by (induction left arbitrary: iter acc s)
    (auto simp: Let_def intro!: returns_bind loop_iteration_total [OF assms] split: sum.split jsval.split)

lemma executeLoop_total:
  assumes "total_on {m. (n, m) \<in> (calls g)\<^sup>+} exec"
  shows "returns (executeLoop cf exec g n lp s)"
proof -
  have run: "returns (run_loop (loop_env cf exec g n lp (e_to e) s') inp acc s'')"
    if "e \<in> set (getOutgoingDataEdges g n)" for e s' inp acc s''
    using data_edge_calls [OF that] assms
    by (auto simp: run_loop_def loop_env_def intro!: for_each_total while_loop_total split: loopMode.split sum.split)
  show ?thesis
    unfolding executeLoop_def Let_def
    by (auto intro!: returns_bind run split: sum.split list.split)
qed

lemma handleNodeError_total:
  assumes "total_on {m. (n, m) \<in> (calls g)\<^sup>+} exec" and "n_id nd = n" and "map_of (g_nodes g) n = Some nd"
  shows "returns (handleNodeError cf exec g nd def e s)"
proof -
  have "(n, f) \<in> calls g" if "onError (n_errorPolicy nd) = OnFallback" "fallbackNodeId (n_errorPolicy nd) = Some f" for f
    using that map_of_SomeD [OF assms(3)] by (force simp: calls_def fallback_arrows_def List.map_filter_def)
  then show ?thesis
    using assms(1) by (auto simp: handleNodeError_def fail_node_def Let_def total_on_def
        split: errorPolicyKind.split option.split sum.split)
qed

lemma executeStandard_total:
  assumes "total_on {m. (n, m) \<in> (calls g)\<^sup>+} exec" and "n_id nd = n" and "map_of (g_nodes g) n = Some nd"
  shows "returns (executeStandard cf exec g nd def n s)"
  using handleNodeError_total [OF assms]
  by (auto simp: executeStandard_def catch_error_def Let_def split: sum.split prod.split)

lemma dispatch_total:
  assumes "total_on {m. (n, m) \<in> (calls g)\<^sup>+} exec" and "n_id nd = n" and "map_of (g_nodes g) n = Some nd"
    and "caps_positive cf g"
  shows "returns (dispatch cf exec g nd def n s)"
proof (cases "n_payload nd")
  case (PParallel m)
  have "0 < min m (cf_maxParallel cf)"
    using assms(4) map_of_SomeD [OF assms(3)] PParallel by (force simp: caps_positive_def)
  with assms PParallel show ?thesis by (simp add: dispatch_def executeParallel_total executeStandard_total)
qed (use assms in \<open>simp_all add: dispatch_def executeLoop_total executeStandard_total\<close>)

lemma executeNode_total:
  assumes "acyclic (calls g)" and "keyed_nodes g" and "caps_positive cf g"
  shows "depth g n < fuel \<Longrightarrow> returns (executeNode fuel cf g n s)"
proof (induction fuel arbitrary: n s)
  case (Suc fuel)
  have rec: "total_on {m. (n, m) \<in> (calls g)\<^sup>+} (executeNode fuel cf g)"
    unfolding total_on_def
  proof (intro ballI allI)
    fix m s assume "m \<in> {m. (n, m) \<in> (calls g)\<^sup>+}"
    then have "depth g m < depth g n" using depth_decreases [OF assms(1)] by simp
    with Suc show "returns (executeNode fuel cf g m s)" by simp
  qed
  show ?case
  proof (cases "map_of (g_nodes g) n")
    case (Some nd)
    with assms(2) have "n_id nd = n" by (auto simp: keyed_nodes_def dest: map_of_SomeD)
    with Some show ?thesis using dispatch_total [OF rec _ Some assms(3)] by (auto split: sum.split)
  qed simp
qed simp

section \<open>More fuel changes nothing\<close>

definition extends :: "'a option \<Rightarrow> 'a option \<Rightarrow> bool" where
  "extends x y \<longleftrightarrow> x = None \<or> x = y"

lemma extends_refl [simp]: "extends x x" "extends None y"
  by (simp_all add: extends_def)

lemma extends_bind:
  "extends x y \<Longrightarrow> (\<And>r s. extends (f (r, s)) (h (r, s))) \<Longrightarrow> extends (Option.bind x f) (Option.bind y h)"
  unfolding extends_def by (cases x) (simp, cases y, simp, fastforce)

definition below :: "(string \<Rightarrow> ('q, 'w) step) \<Rightarrow> (string \<Rightarrow> ('q, 'w) step) \<Rightarrow> bool" where
  "below visit visit' \<longleftrightarrow> (\<forall>n s. extends (visit n s) (visit' n s))"

lemma belowD: "below visit visit' \<Longrightarrow> extends (visit n s) (visit' n s)"
  by (simp add: below_def)

lemma run_list_more: "below visit visit' \<Longrightarrow> extends (run_list visit ns s) (run_list visit' ns s)"
  by (induction ns arbitrary: s) (auto intro!: extends_bind belowD [where visit = visit and visit' = visit'] split: sum.split)

lemma executeSubgraph_more:
  assumes "below exec exec'"
  shows "extends (executeSubgraph cf exec g start inp s) (executeSubgraph cf exec' g start inp s)"
proof -
  have "below (subgraph_visit cf exec g) (subgraph_visit cf exec' g)"
    using assms by (simp add: below_def subgraph_visit_def)
  from run_list_more [OF this] show ?thesis by (simp add: executeSubgraph_def Let_def split: sum.split)
qed

lemma executeParallel_more:
  assumes "below exec exec'"
  shows "extends (executeParallel cf exec g n m s) (executeParallel cf exec' g n m s)"
proof -
  have list: "extends (run_list (\<lambda>b. executeSubgraph cf exec g b inp) bs s') (run_list (\<lambda>b. executeSubgraph cf exec' g b inp) bs s')"
    for inp bs s'
    by (rule run_list_more) (simp add: below_def executeSubgraph_more [OF assms])
  show ?thesis
    unfolding executeParallel_def Let_def
    by (simp split: sum.split) (auto intro!: extends_bind list split: sum.split)
qed

lemma loop_iteration_more:
  assumes "below exec exec'"
  shows "extends (loop_iteration (le\<lparr>le_run := exec\<rparr>) binds item acc s) (loop_iteration (le\<lparr>le_run := exec'\<rparr>) binds item acc s)"
  by (simp add: loop_iteration_def Let_def) (auto intro!: extends_bind executeSubgraph_more [OF assms] split: sum.split)

lemma for_each_more:
  assumes "below exec exec'"
  shows "extends (for_each (le\<lparr>le_run := exec\<rparr>) items iter acc s) (for_each (le\<lparr>le_run := exec'\<rparr>) items iter acc s)"
  by (induction items arbitrary: iter acc s)
    (auto intro!: extends_bind loop_iteration_more [OF assms] split: sum.split)

lemma while_loop_more:
  assumes "below exec exec'"
  shows "extends (while_loop (le\<lparr>le_run := exec\<rparr>) inp left iter acc s) (while_loop (le\<lparr>le_run := exec'\<rparr>) inp left iter acc s)"
  by (induction left arbitrary: iter acc s)
    (auto simp: Let_def intro!: extends_bind loop_iteration_more [OF assms] split: sum.split jsval.split)

lemma executeLoop_more:
  assumes "below exec exec'"
  shows "extends (executeLoop cf exec g n lp s) (executeLoop cf exec' g n lp s)"
proof -
  have env: "loop_env cf e g n lp st s' = (loop_env cf exec g n lp st s')\<lparr>le_run := e\<rparr>" for e st s'
    by (simp add: loop_env_def)
  have run: "extends (run_loop (loop_env cf exec g n lp st s') inp acc s'') (run_loop (loop_env cf exec' g n lp st s') inp acc s'')"
    for st s' inp acc s''
    by (subst (1 2) env) (auto simp: run_loop_def intro!: for_each_more [OF assms] while_loop_more [OF assms] split: loopMode.split sum.split)
  show ?thesis
    unfolding executeLoop_def Let_def
    by (simp split: sum.split list.split) (auto intro!: extends_bind run split: sum.split)
qed

lemma dispatch_more:
  assumes "below exec exec'"
  shows "extends (dispatch cf exec g nd def n s) (dispatch cf exec' g nd def n s)"
proof -
  have "extends (catch_error cf exec g nd def n e s) (catch_error cf exec' g nd def n e s)" for e s
    using assms by (auto simp: catch_error_def handleNodeError_def Let_def below_def
        split: errorPolicyKind.split option.split sum.split)
  then have standard: "extends (executeStandard cf exec g nd def n s) (executeStandard cf exec' g nd def n s)"
    by (simp add: executeStandard_def Let_def split: sum.split prod.split)
  show ?thesis
    by (cases "n_payload nd") (simp_all add: dispatch_def standard executeParallel_more [OF assms] executeLoop_more [OF assms])
qed

lemma executeNode_more: "below (executeNode fuel cf g) (executeNode (fuel + k) cf g)"
proof (induction fuel)
  case (Suc fuel)
  then show ?case
    by (auto simp: below_def intro!: dispatch_more [unfolded below_def, rule_format] split: option.split sum.split)
qed (simp add: below_def)

end
