(* ===== verification/SchedulerRuns.thy ===== *)
theory SchedulerRuns
  imports SchedulerTermination
begin

text \<open>
  The properties of a run of the scheduler, each with a concrete run it applies to.
\<close>

section \<open>A sample pipeline\<close>

definition echo_node :: "(unit, nat) nodeDef" where
  "echo_node = \<lparr>nd_inputKeys = [''input''],
     nd_execute = (\<lambda>p inp c form w. (Inr (case inp of None \<Rightarrow> JStr ''hello'' | Some v \<Rightarrow> JData v), ctx_trace c, Suc w))\<rparr>"

definition demo_cf :: "(unit, nat) config" where
  "demo_cf = \<lparr>cf_registry = [(''input'', echo_node), (''llm'', echo_node), (''output'', echo_node)],
     cf_query = (\<lambda>q c w. (Inr JNull, ctx_trace c, Suc w)), cf_host = no_host, cf_fns = [], cf_maxParallel = 1,
     cf_now = (\<lambda>w. int w), cf_sleep = (\<lambda>ms w. w + nat ms), cf_steps = [], cf_outputKey = (\<lambda>p. None),
     cf_filter = (\<lambda>p. JUndef), cf_cursors = False\<rparr>"

definition demo_graph :: "unit payload graph" where
  "demo_graph = mk_graph [plain_node ''in'' ''input'' (POther ()), plain_node ''ask'' ''llm'' (POther ()),
       plain_node ''out'' ''output'' (POther ())]
     [data_edge ''e1'' ''in'' ''ask'', data_edge ''e2'' ''ask'' ''out''] ''in'' [''out'']"

definition demo_ctx :: execContext where
  "demo_ctx = createExecutionContext ''p'' ''s'' None [] (defaultBudget 0)"

lemma demo_run: "(case run 1 demo_cf demo_graph demo_ctx 0 of Some (Inr r) \<Rightarrow>
    llmCallsUsed (sched_budget (rr_state r)) = 1 \<and> map fst (rr_outputs r) = [''out''] | _ \<Rightarrow> False)"
  by code_simp

lemma demo_run_ok: "\<exists>r. run 1 demo_cf demo_graph demo_ctx 0 = Some (Inr r) \<and> llmCallsUsed (sched_budget (rr_state r)) = 1"
  using demo_run by (auto split: option.splits sum.splits)

lemma demo_wf: "wf_graph demo_graph" "keyed_nodes demo_graph"
  by (simp_all add: wf_graph_def keyed_nodes_def demo_graph_def sample_graph)

section \<open>Budgets\<close>



section \<open>Completed runs\<close>

text \<open>
  C1: a run that does not throw has decided every node, completed or skipped; so the status
  it reports is always success and it never reports an error.
\<close>

theorem run_settles_all:
  assumes "wf_graph g" and "keyed_nodes g" and "run fuel cf g c w = Some (Inr r)"
  shows "(\<forall>n \<in> set (node_ids g). node_status (rr_state r) n \<in> {Some Completed, Some Skipped}) \<and>
    rr_status r = RunSuccess \<and> rr_error r = None"
proof -
  from run_settles [OF assms] obtain s where s: "r = finish_run cf g s" "distinct (state_keys s)"
    "\<forall>n. node_status s n \<noteq> None \<longrightarrow> settled s n" "\<forall>n \<in> set (node_ids g). settled s n" by blast
  have "nx_status x \<noteq> Failed" if "(n, x) \<in> set (es_nodeStates (sc_es s))" for n x
  proof -
    have "map_of (es_nodeStates (sc_es s)) n = Some x" using s(2) that by (simp add: state_keys_def)
    with s(3) show ?thesis by (force simp: settled_def node_status_def)
  qed
  then have "failed_nodes s = []" by (auto simp: failed_nodes_def filter_empty_conv)
  with s(1,4) show ?thesis by (auto simp: finish_run_def Let_def settled_def)
qed

theorem run_settles_all_witness:
  "\<exists>r. run 1 demo_cf demo_graph demo_ctx 0 = Some (Inr r) \<and> rr_status r = RunSuccess"
proof -
  from demo_run_ok obtain r where r: "run 1 demo_cf demo_graph demo_ctx 0 = Some (Inr r)" by blast
  from run_settles_all [OF demo_wf r] r show ?thesis by blast
qed

section \<open>Termination\<close>

lemma run_returns:
  assumes "acyclic (calls g)" and "keyed_nodes g" and "caps_positive cf g" and "card (Range (calls g)) < fuel"
  shows "\<exists>out. run fuel cf g c w = Some out \<and> (\<forall>fuel' \<ge> fuel. run fuel' cf g c w = Some out)"
proof -
  have node: "returns (executeNode fuel cf g n s)" for n s
    by (rule executeNode_total [OF assms(1-3)]) (use depth_bound [of g n] assms(4) in simp)
  have "total_on (set ns) (run_visit fuel cf g)" for ns
    by (auto simp: total_on_def run_visit_def node split: sum.split)
  from run_list_total [OF this] have "returns (run fuel cf g c w)"
    by (auto simp: run_def Let_def intro!: returns_bind split: list.split sum.split)
  then obtain out where out: "run fuel cf g c w = Some out" by (auto simp: returns_def)
  have "run fuel' cf g c w = Some out" if "fuel \<le> fuel'" for fuel'
  proof -
    from that have "fuel' = fuel + (fuel' - fuel)" by simp
    then obtain k where k: "fuel' = fuel + k" by blast
    have "below (run_visit fuel cf g) (run_visit fuel' cf g)"
      using executeNode_more [of fuel cf g k] by (simp add: below_def run_visit_def k split: sum.split)
    from run_list_more [OF this] have "extends (run fuel cf g c w) (run fuel' cf g c w)"
      by (auto simp: run_def Let_def intro!: extends_bind split: list.split sum.split)
    with out show ?thesis by (simp add: extends_def)
  qed
  with out show ?thesis by blast
qed

text \<open>
  C3: a run returns.  When the data edges and the fallbacks together have no cycle and no
  parallel node has a cap of zero, every run returns a result or an error, whatever the nodes
  do; fuel for the longest chain of calls is enough, and more fuel gives the same outcome.
\<close>

theorem run_terminates:
  assumes "acyclic (calls g)" and "keyed_nodes g" and "caps_positive cf g" and "card (Range (calls g)) < fuel"
  shows "\<exists>out. run fuel cf g c w = Some out \<and> (\<forall>fuel' \<ge> fuel. run fuel' cf g c w = Some out)"
  using assms by (rule run_returns)

lemma demo_calls: "calls demo_graph = {(''in'', ''ask''), (''ask'', ''out'')}"
  by (simp add: calls_def fallback_arrows_def List.map_filter_def demo_graph_def sample_graph data_arrows_def
      edges_of_def is_data_def arrow_def)

theorem run_terminates_witness:
  "\<exists>out. run 3 demo_cf demo_graph demo_ctx 0 = Some out \<and> (\<forall>fuel' \<ge> 3. run fuel' demo_cf demo_graph demo_ctx 0 = Some out)"
proof (rule run_terminates)
  have "(x, y) \<in> (calls demo_graph)\<^sup>+ \<Longrightarrow> x = ''in'' \<and> y \<in> {''ask'', ''out''} \<or> x = ''ask'' \<and> y = ''out''" for x y
    by (induction rule: trancl_induct) (auto simp: demo_calls)
  then show "acyclic (calls demo_graph)" by (force simp: acyclic_def)
  show "caps_positive demo_cf demo_graph" by (simp add: caps_positive_def demo_graph_def sample_graph)
  show "card (Range (calls demo_graph)) < 3" by (simp add: demo_calls)
qed (rule demo_wf)

definition stuck_cf :: "(unit, nat) config" where
  "stuck_cf = demo_cf\<lparr>cf_registry := [(''input'', \<lparr>nd_inputKeys = [],
       nd_execute = (\<lambda>p inp c form w. (Inl (PlainError ''no''), ctx_trace c, Suc w))\<rparr>)], cf_now := (\<lambda>w. 0)\<rparr>"

definition stuck_node :: "unit payload node" where
  "stuck_node = (plain_node ''in'' ''input'' (POther ()))\<lparr>n_errorPolicy := \<lparr>onError = OnFallback, maxRetries = None,
     retryDelayMs = None, fallbackNodeId = Some ''in''\<rparr>\<rparr>"

definition stuck_graph :: "unit payload graph" where
  "stuck_graph = mk_graph [stuck_node] [] ''in'' []"

lemma stuck_execute: "sched_budget s = defaultBudget 0 \<Longrightarrow> executeNode fuel stuck_cf stuck_graph ''in'' s = None"
proof (induction fuel arbitrary: s)
  case (Suc fuel)
  let ?def = "\<lparr>nd_inputKeys = [], nd_execute = (\<lambda>p inp c form w. (Inl (PlainError ''no''), ctx_trace c, Suc w))\<rparr>"
  have lookup: "map_of (g_nodes stuck_graph) ''in'' = Some stuck_node"
    by (simp add: stuck_graph_def mk_graph_def stuck_node_def plain_node_def)
  have kind: "n_kind stuck_node = ''input''" "n_id stuck_node = ''in''" "onError (n_errorPolicy stuck_node) = OnFallback"
    "fallbackNodeId (n_errorPolicy stuck_node) = Some ''in''" "maxRetries (n_errorPolicy stuck_node) = None"
    by (simp_all add: stuck_node_def plain_node_def)
  have inputs: "getNodeInputs ''in'' stuck_graph st = Inr []" for st :: "unit payload execState"
    by (simp add: getNodeInputs_def getIncomingDataEdges_def edges_of_def stuck_graph_def mk_graph_def)
  have b: "budget (es_ctx (sc_es s)) = defaultBudget 0" using Suc.prems by (simp add: sched_budget_def)
  have check: "checkBudget (now stuck_cf s) (budget (es_ctx (sc_es s))) ''input'' = Inr ()"
    by (simp add: b checkBudget_def Let_def now_def stuck_cf_def demo_cf_def defaultBudget_def isBudgetExceeded_def budgetRemaining_def)
  have reg: "registry_get stuck_cf ''input'' = Inr ?def" by (simp add: registry_get_def stuck_cf_def)
  have retry: "executeWithRetry stuck_cf stuck_node ?def inp s' = (Inl (PlainError ''no''), snd (run_call
      (\<lambda>c. nd_execute ?def (n_payload stuck_node) inp c (step_config s' ''in'')) s'))" for inp s'
    by (simp add: executeWithRetry_def kind or_default_def run_call_def result_simps)
  define s1 where "s1 = markNodeRunning stuck_cf ''in'' (emit (EvStart ''in'') s)"
  define s2 where "s2 = snd (run_call (\<lambda>c w. (Inl (PlainError ''no''), ctx_trace c, Suc w)) s1)"
  define s3 where "s3 = skip_with stuck_cf ''in'' ''Using fallback''
    (on_ctx (\<lambda>c. c\<lparr>ctx_trace := traceError ''in'' (PlainError ''no'') (ctx_trace c)\<rparr>) s2)"
  have "sched_budget s1 = defaultBudget 0" using Suc.prems by (simp add: s1_def budget_same)
  then have clock: "now stuck_cf s' = 0" "rem_timeMs (budgetRemaining 0 (budget (es_ctx (sc_es s1)))) = 300000" for s'
    by (simp_all add: now_def stuck_cf_def sched_budget_def budgetRemaining_def defaultBudget_def)
  have "executeStandard stuck_cf (executeNode fuel stuck_cf stuck_graph) stuck_graph stuck_node ?def ''in'' (emit (EvStart ''in'') s)
      = executeNode fuel stuck_cf stuck_graph ''in'' s3"
    by (simp add: executeStandard_def inputs Let_def s1_def [symmetric] executeWithTimeout_def actual_input_def retry
        s2_def [symmetric] catch_error_def handleNodeError_def kind s3_def clock)
  moreover have "sched_budget s2 = sched_budget s1"
    unfolding s2_def by (rule run_call_budget [OF prod.collapse [symmetric]])
  then have "sched_budget s3 = defaultBudget 0" using Suc.prems by (simp add: s3_def s1_def budget_same)
  then have "executeNode fuel stuck_cf stuck_graph ''in'' s3 = None" by (rule Suc.IH)
  ultimately show ?case by (simp add: lookup kind check reg dispatch_def result_simps)
qed simp

text \<open>
  the limit of the termination result.  A node that always fails and falls back on itself
  is executed again and again: the graph passes validation, the budget of the run is never
  used up while the clock stands still, and no amount of fuel lets the run return.
\<close>

theorem self_fallback_diverges:
  "validateGraph stuck_graph (Some [''input'']) = [] \<and> run fuel stuck_cf stuck_graph demo_ctx 0 = None"
proof -
  have sort: "topologicalSort stuck_graph = Inr [''in'']"
    by (simp add: topologicalSort_def stuck_graph_def mk_graph_def stuck_node_def plain_node_def Let_def data_arrows_def
        edges_of_def node_ids_def inDegree_def deg_def targets_def)
  have valid: "validateGraph stuck_graph (Some [''input'']) = []"
    by (simp add: validateGraph_def sort)
      (simp add: stuck_graph_def mk_graph_def stuck_node_def plain_node_def guardE_def getIncomingDataEdges_def
        getOutgoingDataEdges_def edges_of_def node_ids_def)
  let ?s = "init_sched stuck_graph demo_ctx (cf_steps stuck_cf) 0 :: (unit, nat) sched"
  have "executeNode fuel stuck_cf stuck_graph ''in'' ?s = None"
    by (rule stuck_execute) (simp add: sched_budget_def init_sched_def demo_ctx_def createExecutionContext_def)
  moreover have "node_ids stuck_graph = [''in'']" "edges_of stuck_graph = []" "es_graph (sc_es ?s) = stuck_graph"
    by (simp_all add: node_ids_def edges_of_def stuck_graph_def mk_graph_def stuck_node_def plain_node_def init_sched_def)
  ultimately have "run_visit fuel stuck_cf stuck_graph ''in'' ?s = None"
    by (simp add: run_visit_def init_status shouldSkipNode_def isControlPathActive_def getIncomingControlEdges_def
        getNodeInputs_def getIncomingDataEdges_def sched_ready_def)
  then show ?thesis by (simp add: run_def valid sort stuck_cf_def)
qed

end
