(* ===== verification/Compiler.thy ===== *)
theory Compiler
  imports Payloads SchedulerRuns
begin

text \<open>
  The pipeline compiler, \<open>src/src/compiler/pipeline/pipeline-compiler.ts\<close>: the checks of an intent, the search for
  cycles, and the nodes, edges and graph built from the steps.

  The model name, the token limit and the readings of the clock come from outside and are a record of settings; the
  printing of progress is left out.  A graph has the payloads of the scheduler, with the payloads of the other nodes as
  parameter; the cycle search is the recursive closure \<^verbatim>\<open>visit\<close> on lists of steps still to visit.
\<close>

section \<open>Payloads of compiled nodes\<close>

datatype compiledPayload =
    CpInput rowSchema rowset
  | CpOutput string
  | CpQuery queryPayload
  | CpTransform "transformOp list"
  | CpLlm llmPayload
  | CpMerge stepMergeStrategy
  | CpHttp templateString string engineType
  | CpWrite writePayload

record compilerSettings =
  co_model :: string
  co_maxTokens :: jsnum
  co_idTime :: int
  co_createdAt :: int

section \<open>Checks\<close>

record intentError =
  ie_stepId :: string
  ie_code :: string
  ie_message :: string

definition step_error :: "pipelineStepIntent \<Rightarrow> string \<Rightarrow> string \<Rightarrow> intentError" where
  "step_error s code msg = \<lparr>ie_stepId = ps_id s, ie_code = code, ie_message = msg\<rparr>"

text \<open>A string that is present and not empty.\<close>

definition given :: "string option \<Rightarrow> string option" where
  "given x = (case x of None \<Rightarrow> None | Some s \<Rightarrow> if s = [] then None else Some s)"

fun duplicate_errors :: "string list \<Rightarrow> pipelineStepIntent list \<Rightarrow> intentError list" where
  "duplicate_errors seen [] = []"
| "duplicate_errors seen (s # ss) =
     (if ps_id s \<in> set seen then [step_error s ''DUPLICATE_STEP_ID'' (''Duplicate step id: '' @ ps_id s)] else []) @
     duplicate_errors (ps_id s # seen) ss"

definition missing_errors :: "string list \<Rightarrow> pipelineStepIntent \<Rightarrow> string \<Rightarrow> string \<Rightarrow> string list \<Rightarrow> intentError list" where
  "missing_errors ids s code name refs =
     map (\<lambda>r. step_error s code (name @ '' '' @ quoted r @ '' does not exist'')) (filter (\<lambda>r. r \<notin> set ids) refs)"

definition dependency_errors :: "string list \<Rightarrow> pipelineStepIntent \<Rightarrow> intentError list" where
  "dependency_errors ids s = missing_errors ids s ''INVALID_DEPENDENCY'' ''Dependency'' (opt_list (ps_dependsOn s))"

definition branch_errors :: "string list \<Rightarrow> pipelineStepIntent \<Rightarrow> intentError list" where
  "branch_errors ids s = (if ps_kind s \<noteq> SkConditional then [] else
     (case given (ps_trueBranch s) of
        None \<Rightarrow> [step_error s ''MISSING_TRUE_BRANCH'' ''Conditional step missing trueBranch'']
      | Some b \<Rightarrow> missing_errors ids s ''INVALID_TRUE_BRANCH'' ''trueBranch'' [b]) @
     (case given (ps_falseBranch s) of
        None \<Rightarrow> [step_error s ''MISSING_FALSE_BRANCH'' ''Conditional step missing falseBranch'']
      | Some b \<Rightarrow> missing_errors ids s ''INVALID_FALSE_BRANCH'' ''falseBranch'' [b]) @
     (case given (ps_mergeStep s) of
        None \<Rightarrow> []
      | Some b \<Rightarrow> missing_errors ids s ''INVALID_MERGE_STEP'' ''mergeStep'' [b]))"

definition loop_errors :: "string list \<Rightarrow> pipelineStepIntent \<Rightarrow> intentError list" where
  "loop_errors ids s = (if ps_kind s \<noteq> SkLoop then []
     else if opt_list (ps_loopBody s) = []
       then [step_error s ''MISSING_LOOP_BODY'' ''Loop step missing loopBody or loopBody is empty'']
     else missing_errors ids s ''INVALID_LOOP_BODY'' ''loopBody step'' (opt_list (ps_loopBody s)))"

definition merge_errors :: "string list \<Rightarrow> pipelineStepIntent \<Rightarrow> intentError list" where
  "merge_errors ids s = (if ps_kind s \<noteq> SkMerge then []
     else if length (opt_list (ps_mergeFrom s)) < 2
       then [step_error s ''INVALID_MERGE_FROM'' ''Merge step must have at least 2 mergeFrom sources'']
     else missing_errors ids s ''INVALID_MERGE_SOURCE'' ''mergeFrom step'' (opt_list (ps_mergeFrom s)))"

definition parallel_errors :: "string list \<Rightarrow> pipelineStepIntent \<Rightarrow> intentError list" where
  "parallel_errors ids s = (if ps_kind s \<noteq> SkParallel then []
     else if opt_list (ps_parallelBranches s) = []
       then [step_error s ''MISSING_PARALLEL_BRANCHES'' ''Parallel step missing parallelBranches'']
     else missing_errors ids s ''INVALID_PARALLEL_BRANCH'' ''parallelBranch'' (opt_list (ps_parallelBranches s)))"

definition config_get :: "pipelineStepIntent \<Rightarrow> string \<Rightarrow> jsval" where
  "config_get s k = (case ps_config s of None \<Rightarrow> JUndef | Some c \<Rightarrow> row_get c k)"

definition configured :: "pipelineStepIntent \<Rightarrow> string \<Rightarrow> bool" where
  "configured s k = truthy (config_get s k)"

text \<open>\<^verbatim>\<open>Object.keys(v).length > 0\<close>.\<close>

definition has_keys :: "jsval \<Rightarrow> bool" where
  "has_keys v = (case v of JObj d \<Rightarrow> d \<noteq> [] | JArr vs \<Rightarrow> vs \<noteq> [] | JStr s \<Rightarrow> s \<noteq> [] | JRowSet _ \<Rightarrow> True | JData _ \<Rightarrow> True
     | _ \<Rightarrow> False)"

definition write_is_explicit :: "pipelineStepIntent \<Rightarrow> bool" where
  "write_is_explicit s \<longleftrightarrow> configured s ''filter'' \<or> configured s ''where'' \<or> configured s ''whereColumns'' \<or>
     config_get s ''operation'' = JStr ''INSERT'' \<or> config_get s ''mode'' = JStr ''insert'' \<or>
     has_keys (if configured s ''fields'' then config_get s ''fields''
               else if configured s ''staticValues'' then config_get s ''staticValues'' else JObj [])"

definition http_is_explicit :: "pipelineStepIntent \<Rightarrow> bool" where
  "http_is_explicit s \<longleftrightarrow> configured s ''url'' \<or> configured s ''endpoint'' \<or> configured s ''data''"

definition input_errors :: "pipelineStepIntent \<Rightarrow> intentError list" where
  "input_errors s =
     (if ps_kind s = SkWrite \<and> opt_list (ps_dependsOn s) = [] \<and> \<not> write_is_explicit s
      then [step_error s ''WRITE_MISSING_INPUT''
        ''Write step should depend on a data step or have explicit filtering conditions''] else []) @
     (if ps_kind s = SkHttp \<and> opt_list (ps_dependsOn s) = [] \<and> \<not> http_is_explicit s
      then [step_error s ''HTTP_MISSING_INPUT''
        ''HTTP step should depend on a data step or have explicit URL/data configuration''] else [])"

section \<open>The search for cycles\<close>

record dfsState =
  dv_visited :: "string list"
  dv_stack :: "string list"
  dv_errors :: "string list"

definition deps_of :: "(string \<times> string list) list \<Rightarrow> string \<Rightarrow> string list" where
  "deps_of m x = opt_list (map_of m x)"

function visit_all :: "(string \<times> string list) list \<Rightarrow> string list \<Rightarrow> dfsState \<Rightarrow> dfsState" where
  "visit_all m [] st = st"
| "visit_all m (x # xs) st =
     (if x \<in> set (dv_stack st) then visit_all m xs (st\<lparr>dv_errors := dv_errors st @ [x]\<rparr>)
      else if x \<in> set (dv_visited st) then visit_all m xs st
      else let st1 = visit_all m (deps_of m x) (st\<lparr>dv_visited := dv_visited st @ [x], dv_stack := dv_stack st @ [x]\<rparr>)
        in visit_all m xs (st1\<lparr>dv_stack := removeAll x (dv_stack st1)\<rparr>))"
  by pat_completeness auto
termination
proof -
  define unseen :: "(string \<times> string list) list \<Rightarrow> dfsState \<Rightarrow> nat"
    where "unseen = (\<lambda>m st. card (fst ` set m - set (dv_visited st)))"
  let ?R = "measures [\<lambda>(m, xs, st). unseen m st, \<lambda>(m, xs, st). length xs]"
  have grows: "set (dv_visited st) \<subseteq> set (dv_visited (visit_all m xs st))" if "visit_all_dom (m, xs, st)" for m xs st
    using that
  proof (induction rule: visit_all.pinduct)
    case (2 m x xs st)
    then show ?case by (cases "x \<in> set (dv_stack st)"; cases "x \<in> set (dv_visited st)")
        (simp_all add: visit_all.psimps Let_def, blast)
  qed (simp add: visit_all.psimps)
  show ?thesis
  proof (relation ?R)
    fix m x xs st assume "x \<notin> set (dv_visited (st :: dfsState))"
    show "((m, deps_of m x, st\<lparr>dv_visited := dv_visited st @ [x], dv_stack := dv_stack st @ [x]\<rparr>), m, x # xs, st) \<in> ?R"
    proof (cases "x \<in> fst ` set m")
      case True
      then have "fst ` set m - set (dv_visited st @ [x]) \<subset> fst ` set m - set (dv_visited st)"
        using \<open>x \<notin> set (dv_visited st)\<close> by auto
      then show ?thesis by (simp add: unseen_def psubset_card_mono)
    next
      case False
      then have "map_of m x = None" by (metis map_of_eq_None_iff)
      then have "deps_of m x = []" by (simp add: deps_of_def)
      moreover have "fst ` set m - set (dv_visited st @ [x]) = fst ` set m - set (dv_visited st)" using False by auto
      ultimately show ?thesis by (simp add: unseen_def)
    qed
  next
    fix m x xs st st1
    assume st1: "st1 = visit_all m (deps_of m x) (st\<lparr>dv_visited := dv_visited st @ [x], dv_stack := dv_stack st @ [x]\<rparr>)"
      and dom: "visit_all_dom (m, deps_of m x, st\<lparr>dv_visited := dv_visited st @ [x], dv_stack := dv_stack st @ [x]\<rparr>)"
    from grows [OF dom] have "unseen m st1 \<le> unseen m st" unfolding unseen_def st1 by (intro card_mono) auto
    then show "((m, xs, st1\<lparr>dv_stack := removeAll x (dv_stack st1)\<rparr>), m, x # xs, st) \<in> ?R"
      by (simp add: unseen_def order.order_iff_strict)
  qed (simp_all add: unseen_def)
qed

definition detectCycles :: "pipelineIntent \<Rightarrow> intentError list" where
  "detectCycles i = map (\<lambda>x. \<lparr>ie_stepId = x, ie_code = ''CYCLE_DETECTED'',
       ie_message = ''Cycle detected in dependency graph involving step '' @ quoted x\<rparr>)
     (dv_errors (visit_all (newMap (map (\<lambda>s. (ps_id s, opt_list (ps_dependsOn s))) (pi_steps i)))
       (map ps_id (pi_steps i)) \<lparr>dv_visited = [], dv_stack = [], dv_errors = []\<rparr>))"

definition validate_intent :: "pipelineIntent \<Rightarrow> intentError list" where
  "validate_intent i = (let ss = pi_steps i; ids = map ps_id ss in
     duplicate_errors [] ss @ concat (map (dependency_errors ids) ss) @ concat (map (branch_errors ids) ss) @
     concat (map (loop_errors ids) ss) @ concat (map (merge_errors ids) ss) @ concat (map (parallel_errors ids) ss) @
     detectCycles i @ concat (map input_errors ss))"

section \<open>Nodes\<close>

definition step_kind :: "pipelineStepKind \<Rightarrow> string" where
  "step_kind k = (case k of SkQuery \<Rightarrow> ''query'' | SkTransform \<Rightarrow> ''transform'' | SkLlm \<Rightarrow> ''llm'' | SkHttp \<Rightarrow> ''http''
     | SkWrite \<Rightarrow> ''write'' | SkConditional \<Rightarrow> ''conditional'' | SkLoop \<Rightarrow> ''loop'' | SkMerge \<Rightarrow> ''merge''
     | SkParallel \<Rightarrow> ''parallel'')"

definition fail_policy :: errorPolicy where
  "fail_policy = \<lparr>onError = OnFail, maxRetries = None, retryDelayMs = None, fallbackNodeId = None\<rparr>"

definition placeholder_query :: queryIntent where
  "placeholder_query = \<lparr>qi_table = [], qi_columns = [], qi_joins = None, qi_filters = None, qi_groupBy = None,
     qi_aggregations = None, qi_having = None, qi_orderBy = None, qi_limit = None, qi_offset = None, qi_distinct = None\<rparr>"

definition placeholder_write :: writePayload where
  "placeholder_write = \<lparr>wp_table = [], wp_mode = WInsert, wp_columns = [], wp_staticValues = None, wp_staticWhere = None,
     wp_wherePredicate = None, wp_conflictColumns = None, wp_updateColumns = None, wp_whereColumns = None,
     wp_returning = None, wp_batchSize = None, wp_datasource = ''default'', wp_upstreamTables = None, wp_columnAliases = None\<rparr>"

definition or_else :: "'a option \<Rightarrow> 'a \<Rightarrow> 'a" where
  "or_else x d = (case x of None \<Rightarrow> d | Some v \<Rightarrow> v)"

definition step_payload :: "compilerSettings \<Rightarrow> pipelineStepIntent \<Rightarrow> compiledPayload payload" where
  "step_payload cs s = (case ps_kind s of
       SkQuery \<Rightarrow> PQuery (CpQuery \<lparr>qp_intent = placeholder_query, qp_datasource = ''default''\<rparr>)
     | SkTransform \<Rightarrow> POther (CpTransform [])
     | SkLlm \<Rightarrow> POther (CpLlm \<lparr>lm_model = co_model cs, lm_systemPrompt = None,
         lm_userPrompt = \<lparr>ts_parts = [TLiteral (ps_description s)]\<rparr>,
         lm_outputSchema = map (\<lambda>f. Column f TAny True) (opt_list (ps_outputFields s)),
         lm_cacheBy = None, lm_maxTokens = co_maxTokens cs, lm_temperature = None\<rparr>)
     | SkConditional \<Rightarrow> PConditional (Literal (JBool True) TBoolean)
     | SkLoop \<Rightarrow> PLoop \<lparr>lp_mode = (case ps_loopMode s of Some SlWhile \<Rightarrow> While | _ \<Rightarrow> ForEach),
         lp_over = Some (VarRef ''input''), lp_condition = None, lp_iterVar = ''item'', lp_indexVar = None,
         lp_maxIterations = or_else (ps_maxIterations s) 100,
         lp_accumulator = Some \<lparr>ad_kind = AkCollect, ad_initial = None, ad_reducer = None\<rparr>\<rparr>
     | SkMerge \<Rightarrow> PMerge False (CpMerge (or_else (ps_mergeStrategy s) SmUnion))
     | SkParallel \<Rightarrow> PParallel (or_else (ps_maxConcurrency s) 3)
     | SkHttp \<Rightarrow> POther (CpHttp \<lparr>ts_parts = [TLiteral []]\<rparr> ''GET'' TAny)
     | SkWrite \<Rightarrow> POther (CpWrite placeholder_write))"

definition buildStepNode :: "compilerSettings \<Rightarrow> pipelineStepIntent \<Rightarrow> compiledPayload payload node" where
  "buildStepNode cs s = \<lparr>n_id = ps_id s, n_kind = step_kind (ps_kind s), n_label = Some (ps_description s),
     n_payload = step_payload cs s, n_errorPolicy = fail_policy\<rparr>"

definition input_node :: "compiledPayload payload node" where
  "input_node = \<lparr>n_id = ''_input'', n_kind = ''input'', n_label = Some ''Pipeline Input'',
     n_payload = POther (CpInput [] (RowSet [] [[]])), n_errorPolicy = fail_policy\<rparr>"

definition output_node :: "compiledPayload payload node" where
  "output_node = \<lparr>n_id = ''_output'', n_kind = ''output'', n_label = Some ''Pipeline Output'',
     n_payload = POther (CpOutput ''result''), n_errorPolicy = fail_policy\<rparr>"

definition buildNodes :: "compilerSettings \<Rightarrow> pipelineIntent \<Rightarrow> (string \<times> compiledPayload payload node) list" where
  "buildNodes cs i = foldl (\<lambda>m s. al_set (ps_id s) (buildStepNode cs s) m)
     [(''_input'', input_node), (''_output'', output_node)] (pi_steps i)"

section \<open>Edges\<close>

type_synonym edgeMap = "(string \<times> edge) list"

definition put_edge :: "edge \<Rightarrow> edgeMap \<Rightarrow> edgeMap" where
  "put_edge e m = al_set (e_id e) e m"

definition put_edges :: "edge list \<Rightarrow> edgeMap \<Rightarrow> edgeMap" where
  "put_edges es m = foldl (\<lambda>m e. put_edge e m) m es"

definition put_new :: "edge list \<Rightarrow> edgeMap \<Rightarrow> edgeMap" where
  "put_new es m = foldl (\<lambda>m e. if al_has (e_id e) m then m else put_edge e m) m es"

definition edge_name :: "string \<Rightarrow> string \<Rightarrow> string" where
  "edge_name f t = ''e_'' @ f @ ''_'' @ t"

definition new_edge :: "string \<Rightarrow> string \<Rightarrow> string \<Rightarrow> edgeKind \<Rightarrow> string option \<Rightarrow> controlCondition option \<Rightarrow> edge" where
  "new_edge i f t k key c = \<lparr>e_id = i, e_from = f, e_to = t, e_kind = k, e_outputKey = None, e_inputKey = key,
     e_dataType = None, e_condition = c\<rparr>"

definition getBodyStepIds :: "pipelineIntent \<Rightarrow> string list" where
  "getBodyStepIds i = concat (map (\<lambda>s. opt_list (ps_loopBody s) @ opt_list (ps_parallelBranches s)) (pi_steps i))"

definition is_entry :: "pipelineIntent \<Rightarrow> pipelineStepIntent \<Rightarrow> bool" where
  "is_entry i s \<longleftrightarrow> ps_id s \<notin> set (getBodyStepIds i) \<and> opt_list (ps_dependsOn s) = []"

definition findEntrySteps :: "pipelineIntent \<Rightarrow> string list" where
  "findEntrySteps i = map ps_id (filter (is_entry i) (pi_steps i))"

definition entry_edges :: "string list \<Rightarrow> pipelineStepIntent \<Rightarrow> edge list" where
  "entry_edges entries s = (if ps_id s \<in> set entries
     then [new_edge (''e__input_'' @ ps_id s) ''_input'' (ps_id s) EkData None None] else [])"

definition dependency_edges :: "pipelineStepIntent \<Rightarrow> edge list" where
  "dependency_edges s = map (\<lambda>d. new_edge (edge_name d (ps_id s)) d (ps_id s) EkData (Some d) None) (opt_list (ps_dependsOn s))"

definition branch_edges :: "string \<Rightarrow> string option \<Rightarrow> controlCondition \<Rightarrow> string \<Rightarrow> edge list" where
  "branch_edges s target c name = (case given target of None \<Rightarrow> []
     | Some b \<Rightarrow> [new_edge (edge_name s b @ ''_control_'' @ name) s b EkControl None (Some c),
         new_edge (edge_name s b @ ''_data'') s b EkData None None])"

definition conditional_edges :: "pipelineStepIntent \<Rightarrow> edge list" where
  "conditional_edges s = (if ps_kind s = SkConditional
     then branch_edges (ps_id s) (ps_trueBranch s) CondTrue ''true'' @
       branch_edges (ps_id s) (ps_falseBranch s) CondFalse ''false''
     else [])"

definition loop_edges :: "pipelineStepIntent \<Rightarrow> edge list" where
  "loop_edges s = (case (ps_kind s, opt_list (ps_loopBody s)) of
       (SkLoop, b # bs) \<Rightarrow> [new_edge (edge_name (ps_id s) b) (ps_id s) b EkData (Some ''input'') None]
     | _ \<Rightarrow> [])"

definition merge_edges :: "pipelineStepIntent \<Rightarrow> edge list" where
  "merge_edges s = (if ps_kind s = SkMerge
     then map (\<lambda>f. new_edge (edge_name f (ps_id s)) f (ps_id s) EkData None None) (opt_list (ps_mergeFrom s)) else [])"

definition parallel_edges :: "pipelineStepIntent \<Rightarrow> edge list" where
  "parallel_edges s = (if ps_kind s = SkParallel
     then map (\<lambda>b. new_edge (edge_name (ps_id s) b) (ps_id s) b EkData None None) (opt_list (ps_parallelBranches s)) else [])"

definition put_step :: "string list \<Rightarrow> edgeMap \<Rightarrow> pipelineStepIntent \<Rightarrow> edgeMap" where
  "put_step entries m s = put_edges (merge_edges s @ parallel_edges s) (put_new (loop_edges s)
     (put_edges (entry_edges entries s @ dependency_edges s @ conditional_edges s) m))"

definition exit_steps :: "pipelineIntent \<Rightarrow> string list" where
  "exit_steps i = (let ds = concat (map (\<lambda>s. opt_list (ps_dependsOn s)) (pi_steps i))
     in filter (\<lambda>x. x \<notin> set ds) (map ps_id (pi_steps i)))"

definition exit_edge :: "string \<Rightarrow> edge" where
  "exit_edge x = new_edge (x @ ''->_output'') x ''_output'' EkData None None"

definition buildEdges :: "pipelineIntent \<Rightarrow> edgeMap" where
  "buildEdges i = put_edges (map exit_edge (exit_steps i)) (foldl (put_step (findEntrySteps i)) [] (pi_steps i))"

section \<open>Graphs\<close>

definition opt_entry :: "string \<Rightarrow> int option \<Rightarrow> row" where
  "opt_entry k x = (case x of None \<Rightarrow> [] | Some n \<Rightarrow> [(k, JNum (num_of_int n))])"

definition graph_metadata :: "compilerSettings \<Rightarrow> pipelineIntent \<Rightarrow> jsval" where
  "graph_metadata cs i = JObj [(''description'', JStr (pi_description i)), (''createdAt'', JNum (num_of_int (co_createdAt cs))),
     (''tags'', JArr []), (''budget'', JObj (opt_entry ''maxLLMCalls'' (pi_maxLLMCalls i) @
       opt_entry ''maxIterations'' (pi_maxIterations i) @ opt_entry ''timeoutMs'' (pi_timeoutMs i)))]"

definition buildGraph :: "compilerSettings \<Rightarrow> (string \<times> compiledPayload payload node) list \<Rightarrow> edgeMap \<Rightarrow> pipelineIntent \<Rightarrow>
    compiledPayload payload graph" where
  "buildGraph cs nodes edges i =
     (let exits = filter (\<lambda>n. filter (\<lambda>e. e_from e = n \<and> e_kind e = EkData) (map snd edges) = []) (map fst nodes)
      in \<lparr>g_id = ''pipeline_'' @ int_string (co_idTime cs), g_version = 1, g_nodes = nodes, g_edges = edges,
        entryNode = ''_input'', exitNodes = (if exits = [] then [''_output''] else exits), g_metadata = graph_metadata cs i\<rparr>)"

definition buildEmptyGraph :: "compilerSettings \<Rightarrow> pipelineIntent \<Rightarrow> compiledPayload payload graph" where
  "buildEmptyGraph cs i = \<lparr>g_id = ''pipeline_'' @ int_string (co_idTime cs), g_version = 1, g_nodes = [], g_edges = [],
     entryNode = ''_input'', exitNodes = [''_output''], g_metadata = graph_metadata cs i\<rparr>"

definition compile_intent :: "compilerSettings \<Rightarrow> pipelineIntent \<Rightarrow> compiledPayload payload graph \<times> intentError list" where
  "compile_intent cs i = (let errors = validate_intent i
     in if errors \<noteq> [] then (buildEmptyGraph cs i, errors)
        else (buildGraph cs (buildNodes cs i) (buildEdges i) i, errors))"

end
