(* ===== verification/CompilerChecks.thy ===== *)
theory CompilerChecks
  imports Compiler
begin

text \<open>
  What the checks of the pipeline compiler establish: the cycle search reports nothing exactly when the dependencies are
  acyclic, and an intent without errors is well formed.
\<close>

section \<open>The search for cycles\<close>

definition wants :: "(string \<times> string list) list \<Rightarrow> (string \<times> string) set" where
  "wants m = {(x, d). d \<in> set (deps_of m x)}"

definition finished :: "dfsState \<Rightarrow> string set" where
  "finished st = set (dv_visited st) - set (dv_stack st)"

lemma visit_all_stack [simp]: "dv_stack (visit_all m xs st) = dv_stack st"
  by (induction m xs st rule: visit_all.induct) (simp_all add: Let_def)

lemma visit_all_visited: "set (dv_visited st) \<subseteq> set (dv_visited (visit_all m xs st))"
proof (induction m xs st rule: visit_all.induct)
  case (2 m x xs st)
  then show ?case by (cases "x \<in> set (dv_stack st)"; cases "x \<in> set (dv_visited st)") (simp_all add: Let_def, blast)
qed simp

lemma visit_all_errors: "dv_errors st \<noteq> [] \<Longrightarrow> dv_errors (visit_all m xs st) \<noteq> []"
proof (induction m xs st rule: visit_all.induct)
  case (2 m x xs st)
  then show ?case by (cases "x \<in> set (dv_stack st)"; cases "x \<in> set (dv_visited st)") (simp_all add: Let_def)
qed simp

lemma acyclic_no_errors:
  assumes "acyclic (wants m)" "dv_errors st = []" "\<And>y x. y \<in> set (dv_stack st) \<Longrightarrow> x \<in> set xs \<Longrightarrow> (y, x) \<in> (wants m)\<^sup>+"
  shows "dv_errors (visit_all m xs st) = []"
  using assms
proof (induction m xs st rule: visit_all.induct)
  case (2 m x xs st)
  note acyc = 2(5) and none = 2(6) and path = 2(7)
  have x: "x \<notin> set (dv_stack st)" using acyc path by (meson acyclic_def list.set_intros(1))
  show ?case
  proof (cases "x \<in> set (dv_visited st)")
    case True
    with 2(2) [OF x True acyc none] path x show ?thesis by simp
  next
    case False
    let ?st = "st\<lparr>dv_visited := dv_visited st @ [x], dv_stack := dv_stack st @ [x]\<rparr>"
    let ?st1 = "visit_all m (deps_of m x) ?st"
    have inner: "dv_errors ?st1 = []"
    proof (rule 2(3) [OF x False acyc])
      fix y d assume "y \<in> set (dv_stack ?st)" "d \<in> set (deps_of m x)"
      then have "(x, d) \<in> wants m" "y = x \<or> (y, x) \<in> (wants m)\<^sup>+" using path by (auto simp: wants_def)
      then show "(y, d) \<in> (wants m)\<^sup>+" by (metis r_into_trancl' trancl_into_trancl)
    qed (simp add: none)
    have "dv_errors (visit_all m xs (?st1\<lparr>dv_stack := removeAll x (dv_stack ?st1)\<rparr>)) = []"
      by (rule 2(4) [OF x False refl acyc]) (use inner path in auto)
    with x False show ?thesis by (simp add: Let_def)
  qed
qed simp

definition settled :: "(string \<times> string list) list \<Rightarrow> dfsState \<Rightarrow> bool" where
  "settled m st \<longleftrightarrow> (\<forall>x \<in> finished st. set (deps_of m x) \<subseteq> finished st) \<and> acyclic (wants m \<inter> finished st \<times> finished st)"

lemma acyclic_extend:
  assumes "acyclic (R \<inter> F \<times> F)" "\<And>a b. a \<in> F \<Longrightarrow> (a, b) \<in> R \<Longrightarrow> b \<in> F" "x \<notin> F" "\<And>b. (x, b) \<in> R \<Longrightarrow> b \<in> F"
  shows "acyclic (R \<inter> insert x F \<times> insert x F)"
proof -
  let ?S = "R \<inter> insert x F \<times> insert x F"
  have stay: "b \<in> F \<and> (a \<noteq> x \<longrightarrow> (a, b) \<in> (R \<inter> F \<times> F)\<^sup>+)" if "(a, b) \<in> ?S\<^sup>+" for a b
    using that
  proof (induction rule: trancl_induct)
    case (base y)
    then show ?case using assms(2,4) by (cases "a = x") auto
  next
    case (step y z)
    then have "(y, z) \<in> R \<inter> F \<times> F" using assms(2) by blast
    with step show ?case by (auto intro: trancl_into_trancl)
  qed
  show ?thesis
  proof (rule acyclicI, intro allI notI)
    fix a assume "(a, a) \<in> ?S\<^sup>+"
    with stay [of a a] assms(1,3) show False by (metis acyclic_def)
  qed
qed

lemma no_errors_settled:
  "dv_errors (visit_all m xs st) = [] \<Longrightarrow> settled m st \<Longrightarrow>
   settled m (visit_all m xs st) \<and> set xs \<subseteq> finished (visit_all m xs st) \<and> finished st \<subseteq> finished (visit_all m xs st)"
proof (induction m xs st rule: visit_all.induct)
  case (2 m x xs st)
  note none = 2(5) and ok = 2(6)
  have x: "x \<notin> set (dv_stack st)" using none visit_all_errors [of "st\<lparr>dv_errors := dv_errors st @ [x]\<rparr>"] by auto
  show ?case
  proof (cases "x \<in> set (dv_visited st)")
    case True
    have "x \<in> finished st" using True x by (simp add: finished_def)
    with 2(2) [OF x True _ ok] none x True show ?thesis by auto
  next
    case False
    let ?st = "st\<lparr>dv_visited := dv_visited st @ [x], dv_stack := dv_stack st @ [x]\<rparr>"
    let ?st1 = "visit_all m (deps_of m x) ?st"
    let ?st2 = "?st1\<lparr>dv_stack := removeAll x (dv_stack ?st1)\<rparr>"
    have out: "visit_all m (x # xs) st = visit_all m xs ?st2" using x False by (simp add: Let_def)
    have "finished ?st = finished st" using x False by (auto simp: finished_def)
    moreover have "dv_errors ?st1 = []" using none visit_all_errors [of ?st2 m xs] unfolding out by auto
    ultimately have inner: "settled m ?st1" "set (deps_of m x) \<subseteq> finished ?st1" "finished st \<subseteq> finished ?st1"
      using 2(3) [OF x False] ok by (auto simp: settled_def)
    have "x \<in> set (dv_visited ?st1)" using visit_all_visited [of ?st m "deps_of m x"] by auto
    then have more: "finished ?st2 = insert x (finished ?st1)" and new: "x \<notin> finished ?st1"
      using x by (auto simp: finished_def)
    have "acyclic (wants m \<inter> insert x (finished ?st1) \<times> insert x (finished ?st1))"
      by (rule acyclic_extend [OF _ _ new]) (use inner in \<open>auto simp: settled_def wants_def\<close>)
    with inner have "settled m ?st2" unfolding settled_def more by blast
    from 2(4) [OF x False refl _ this] none inner more show ?thesis unfolding out by auto
  qed
qed simp

lemma visit_all_iff:
  assumes "fst ` set m \<subseteq> set xs"
  shows "dv_errors (visit_all m xs \<lparr>dv_visited = [], dv_stack = [], dv_errors = []\<rparr>) = [] \<longleftrightarrow> acyclic (wants m)"
proof
  let ?fin = "visit_all m xs \<lparr>dv_visited = [], dv_stack = [], dv_errors = []\<rparr>"
  assume "dv_errors ?fin = []"
  from no_errors_settled [OF this] have fin: "settled m ?fin" "set xs \<subseteq> finished ?fin"
    by (auto simp: settled_def finished_def acyclic_def)
  have "wants m \<subseteq> finished ?fin \<times> finished ?fin"
  proof
    fix e assume e: "e \<in> wants m"
    then obtain x d where xd: "e = (x, d)" "d \<in> set (deps_of m x)" by (auto simp: wants_def)
    then have "map_of m x \<noteq> None" by (cases "map_of m x") (auto simp: deps_of_def)
    then have "x \<in> finished ?fin" using assms fin(2) by (metis map_of_eq_None_iff subsetD)
    with xd fin(1) show "e \<in> finished ?fin \<times> finished ?fin" by (auto simp: settled_def)
  qed
  with fin(1) show "acyclic (wants m)" by (simp add: settled_def inf.absorb1)
qed (rule acyclic_no_errors, simp_all)

section \<open>Well-formed intents\<close>

definition deps_are_known :: "string set \<Rightarrow> pipelineStepIntent \<Rightarrow> bool" where
  "deps_are_known ids s \<longleftrightarrow> set (opt_list (ps_dependsOn s)) \<subseteq> ids"

definition refers_to :: "string set \<Rightarrow> string option \<Rightarrow> bool" where
  "refers_to ids x \<longleftrightarrow> (\<exists>b \<in> ids. x = Some b \<and> b \<noteq> [])"

definition references_known :: "string set \<Rightarrow> pipelineStepIntent \<Rightarrow> bool" where
  "references_known ids s = (case ps_kind s of
       SkConditional \<Rightarrow> refers_to ids (ps_trueBranch s) \<and> refers_to ids (ps_falseBranch s) \<and>
         (given (ps_mergeStep s) = None \<or> refers_to ids (ps_mergeStep s))
     | SkLoop \<Rightarrow> opt_list (ps_loopBody s) \<noteq> [] \<and> set (opt_list (ps_loopBody s)) \<subseteq> ids
     | SkMerge \<Rightarrow> 2 \<le> length (opt_list (ps_mergeFrom s)) \<and> set (opt_list (ps_mergeFrom s)) \<subseteq> ids
     | SkParallel \<Rightarrow> opt_list (ps_parallelBranches s) \<noteq> [] \<and> set (opt_list (ps_parallelBranches s)) \<subseteq> ids
     | SkWrite \<Rightarrow> opt_list (ps_dependsOn s) \<noteq> [] \<or> write_is_explicit s
     | SkHttp \<Rightarrow> opt_list (ps_dependsOn s) \<noteq> [] \<or> http_is_explicit s
     | _ \<Rightarrow> True)"

definition step_ids :: "pipelineIntent \<Rightarrow> string list" where
  "step_ids i = map ps_id (pi_steps i)"

definition depends :: "pipelineIntent \<Rightarrow> (string \<times> string) set" where
  "depends i = {(ps_id s, d) | s d. s \<in> set (pi_steps i) \<and> d \<in> set (opt_list (ps_dependsOn s))}"

definition well_formed_intent :: "pipelineIntent \<Rightarrow> bool" where
  "well_formed_intent i \<longleftrightarrow> distinct (step_ids i) \<and> acyclic (depends i) \<and>
     (\<forall>s \<in> set (pi_steps i). deps_are_known (set (step_ids i)) s \<and> references_known (set (step_ids i)) s)"

lemma missing_errors_Nil [simp]: "missing_errors ids s c n refs = [] \<longleftrightarrow> set refs \<subseteq> set ids"
  by (auto simp: missing_errors_def filter_empty_conv)

lemma duplicate_errors_Nil: "duplicate_errors seen ss = [] \<longleftrightarrow> distinct (map ps_id ss) \<and> set seen \<inter> ps_id ` set ss = {}"
  by (induction seen ss rule: duplicate_errors.induct) auto

lemma given_iff: "given x = Some b \<longleftrightarrow> x = Some b \<and> b \<noteq> []"
  by (auto simp: given_def split: option.splits)

lemma branch_refers: "(case given x of None \<Rightarrow> [e] | Some b \<Rightarrow> missing_errors ids s c n [b]) = [] \<longleftrightarrow> refers_to (set ids) x"
  by (auto simp: refers_to_def given_def split: option.splits)

lemma merge_refers: "(case given x of None \<Rightarrow> [] | Some b \<Rightarrow> missing_errors ids s c n [b]) = [] \<longleftrightarrow>
    given x = None \<or> refers_to (set ids) x"
  by (auto simp: refers_to_def given_def split: option.splits)

lemma step_errors_Nil:
  "branch_errors ids s = [] \<and> loop_errors ids s = [] \<and> merge_errors ids s = [] \<and> parallel_errors ids s = [] \<and> input_errors s = []
   \<longleftrightarrow> references_known (set ids) s"
  by (cases "ps_kind s") (auto simp: branch_errors_def loop_errors_def merge_errors_def parallel_errors_def input_errors_def
      references_known_def branch_refers merge_refers)

lemma detectCycles_iff:
  assumes "distinct (step_ids i)"
  shows "detectCycles i = [] \<longleftrightarrow> acyclic (depends i)"
proof -
  let ?m = "map (\<lambda>s. (ps_id s, opt_list (ps_dependsOn s))) (pi_steps i)"
  have keys: "map fst ?m = step_ids i" by (simp add: step_ids_def o_def)
  then have m: "newMap ?m = ?m" using assms by (simp add: newMap_distinct)
  have "wants ?m = depends i"
  proof (intro set_eqI iffI)
    fix e assume "e \<in> wants ?m"
    then obtain x d ds where e: "e = (x, d)" "map_of ?m x = Some ds" "d \<in> set ds"
      by (cases "map_of ?m (fst e)") (auto simp: wants_def deps_of_def)
    from map_of_SomeD [OF e(2)] e show "e \<in> depends i" by (auto simp: depends_def)
  next
    fix e assume "e \<in> depends i"
    then obtain s d where e: "e = (ps_id s, d)" "s \<in> set (pi_steps i)" "d \<in> set (opt_list (ps_dependsOn s))"
      by (auto simp: depends_def)
    then have "(ps_id s, opt_list (ps_dependsOn s)) \<in> set ?m" by auto
    then have "map_of ?m (ps_id s) = Some (opt_list (ps_dependsOn s))" using assms keys by simp
    with e show "e \<in> wants ?m" by (simp add: wants_def deps_of_def)
  qed
  moreover have "fst ` set ?m \<subseteq> set (step_ids i)" by (auto simp: step_ids_def)
  ultimately show ?thesis using visit_all_iff [of ?m "step_ids i"] by (simp add: detectCycles_def m step_ids_def)
qed

lemma validate_intent_Nil: "validate_intent i = [] \<longleftrightarrow> well_formed_intent i"
proof -
  let ?ids = "map ps_id (pi_steps i)"
  have "validate_intent i = [] \<longleftrightarrow> duplicate_errors [] (pi_steps i) = [] \<and> detectCycles i = [] \<and>
    (\<forall>s \<in> set (pi_steps i). dependency_errors ?ids s = [] \<and> branch_errors ?ids s = [] \<and> loop_errors ?ids s = [] \<and>
      merge_errors ?ids s = [] \<and> parallel_errors ?ids s = [] \<and> input_errors s = [])"
    by (auto simp: validate_intent_def Let_def)
  also have "\<dots> \<longleftrightarrow> well_formed_intent i"
    using detectCycles_iff [of i]
    by (auto simp: well_formed_intent_def duplicate_errors_Nil step_errors_Nil deps_are_known_def dependency_errors_def step_ids_def)
  finally show ?thesis .
qed

text \<open>
  C20: an intent passes the checks exactly when its step ids are distinct, its dependencies are acyclic and name steps, and
  each step has the branches, bodies and sources of its kind.
\<close>

theorem validate_intent_ok_iff: "validate_intent i = [] \<longleftrightarrow> well_formed_intent i"
  by (rule validate_intent_Nil)

end
