(* ===== verification/CompiledGraphs.thy ===== *)
theory CompiledGraphs
  imports CompilerChecks
begin

text \<open>
  The graphs the compiler builds: which nodes and edges they have, when the validation of the scheduler accepts them, and
  that their runs return.
\<close>

section \<open>Edge maps\<close>

definition sig :: "edge \<Rightarrow> string \<times> string \<times> edgeKind" where
  "sig e = (e_from e, e_to e, e_kind e)"

definition sigs :: "edgeMap \<Rightarrow> (string \<times> string \<times> edgeKind) set" where
  "sigs m = sig ` snd ` set m"

text \<open>Edges of one id have the same ends and the same kind.\<close>

definition coherent :: "edge set \<Rightarrow> bool" where
  "coherent W \<longleftrightarrow> (\<forall>e \<in> W. \<forall>e' \<in> W. e_id e = e_id e' \<longrightarrow> sig e = sig e')"

definition held :: "edge set \<Rightarrow> edgeMap \<Rightarrow> bool" where
  "held W m \<longleftrightarrow> (\<forall>(k, e) \<in> set m. k = e_id e \<and> e \<in> W)"

lemma held_Cons [simp]: "held W ((k, e) # m) \<longleftrightarrow> k = e_id e \<and> e \<in> W \<and> held W m"
  by (auto simp: held_def)

lemma sigs_simps [simp]: "sigs [] = {}" "sigs ((k, e) # m) = insert (sig e) (sigs m)"
  by (simp_all add: sigs_def)

lemma put_edge_facts:
  assumes "coherent W" "e \<in> W"
  shows "held W m \<Longrightarrow> held W (al_set (e_id e) e m) \<and> sigs (al_set (e_id e) e m) = insert (sig e) (sigs m)"
proof (induction m)
  case Nil
  show ?case by (simp add: held_def assms(2))
next
  case (Cons p m)
  obtain k e' where p: "p = (k, e')" by force
  from Cons.prems p have e': "k = e_id e'" "e' \<in> W" "held W m" by simp_all
  show ?case
  proof (cases "k = e_id e")
    case True
    with assms e' have "sig e' = sig e" unfolding coherent_def by metis
    with True e' assms(2) show ?thesis by (simp add: p)
  next
    case False
    with Cons.IH [OF e'(3)] e' show ?thesis by (simp add: p insert_commute)
  qed
qed

lemma put_edges_facts:
  "coherent W \<Longrightarrow> set es \<subseteq> W \<Longrightarrow> held W m \<Longrightarrow> held W (put_edges es m) \<and> sigs (put_edges es m) = sigs m \<union> sig ` set es"
proof (induction es arbitrary: m)
  case (Cons e es)
  then have "held W (put_edge e m) \<and> sigs (put_edge e m) = insert (sig e) (sigs m)"
    unfolding put_edge_def by (intro put_edge_facts) simp_all
  with Cons.IH [of "put_edge e m"] Cons.prems show ?case by (simp add: put_edges_def)
qed (simp add: put_edges_def)

lemma put_new_facts:
  "coherent W \<Longrightarrow> set es \<subseteq> W \<Longrightarrow> held W m \<Longrightarrow> held W (put_new es m) \<and> sigs (put_new es m) = sigs m \<union> sig ` set es"
proof (induction es arbitrary: m)
  case (Cons e es)
  show ?case
  proof (cases "al_has (e_id e) m")
    case True
    then obtain e' where e': "(e_id e, e') \<in> set m" by (auto simp: al_has_def)
    with Cons.prems have "e' \<in> W" "e_id e = e_id e'" by (auto simp: held_def)
    with Cons.prems(1,2) have "sig e = sig e'" unfolding coherent_def by (meson list.set_intros(1) subsetD)
    with e' have "sig e \<in> sigs m" by (force simp: sigs_def)
    with True Cons.IH [of m] Cons.prems show ?thesis by (simp add: put_new_def insert_absorb)
  next
    case False
    from Cons.prems have "held W (put_edge e m) \<and> sigs (put_edge e m) = insert (sig e) (sigs m)"
      unfolding put_edge_def by (intro put_edge_facts) simp_all
    with False Cons.IH [of "put_edge e m"] Cons.prems show ?thesis by (simp add: put_new_def)
  qed
qed (simp add: put_new_def)

definition step_edges :: "string list \<Rightarrow> pipelineStepIntent \<Rightarrow> edge list" where
  "step_edges entries s = entry_edges entries s @ dependency_edges s @ conditional_edges s @ loop_edges s @ merge_edges s @
     parallel_edges s"

definition wanted :: "pipelineIntent \<Rightarrow> edge set" where
  "wanted i = (\<Union>s \<in> set (pi_steps i). set (step_edges (findEntrySteps i) s)) \<union> exit_edge ` set (exit_steps i)"

definition no_clash :: "pipelineIntent \<Rightarrow> bool" where
  "no_clash i \<longleftrightarrow> coherent (wanted i)"

lemma put_step_facts:
  assumes "coherent W" "set (step_edges entries s) \<subseteq> W" "held W m"
  shows "held W (put_step entries m s) \<and> sigs (put_step entries m s) = sigs m \<union> sig ` set (step_edges entries s)"
proof -
  let ?m1 = "put_edges (entry_edges entries s @ dependency_edges s @ conditional_edges s) m"
  let ?m2 = "put_new (loop_edges s) ?m1"
  have 1: "held W ?m1 \<and> sigs ?m1 = sigs m \<union> sig ` set (entry_edges entries s @ dependency_edges s @ conditional_edges s)"
    by (rule put_edges_facts [OF assms(1) _ assms(3)]) (use assms(2) in \<open>auto simp: step_edges_def\<close>)
  have 2: "held W ?m2 \<and> sigs ?m2 = sigs ?m1 \<union> sig ` set (loop_edges s)"
    by (rule put_new_facts [OF assms(1)]) (use assms(2) 1 in \<open>auto simp: step_edges_def\<close>)
  have "held W (put_edges (merge_edges s @ parallel_edges s) ?m2) \<and>
      sigs (put_edges (merge_edges s @ parallel_edges s) ?m2) = sigs ?m2 \<union> sig ` set (merge_edges s @ parallel_edges s)"
    by (rule put_edges_facts [OF assms(1)]) (use assms(2) 2 in \<open>auto simp: step_edges_def\<close>)
  with 1 2 show ?thesis by (auto simp: put_step_def step_edges_def image_Un)
qed

lemma put_steps_facts:
  "coherent W \<Longrightarrow> (\<Union>s \<in> set ss. set (step_edges entries s)) \<subseteq> W \<Longrightarrow> held W m \<Longrightarrow>
   held W (foldl (put_step entries) m ss) \<and>
   sigs (foldl (put_step entries) m ss) = sigs m \<union> sig ` (\<Union>s \<in> set ss. set (step_edges entries s))"
proof (induction ss arbitrary: m)
  case (Cons s ss)
  with put_step_facts [of W entries s m] show ?case by (auto simp: image_Un)
qed simp

lemma buildEdges_facts:
  assumes "no_clash i"
  shows "held (wanted i) (buildEdges i) \<and> sigs (buildEdges i) = sig ` wanted i"
proof -
  let ?m = "foldl (put_step (findEntrySteps i)) [] (pi_steps i)"
  have W: "coherent (wanted i)" using assms by (simp add: no_clash_def)
  have 1: "held (wanted i) ?m \<and> sigs ?m = sigs [] \<union> sig ` (\<Union>s \<in> set (pi_steps i). set (step_edges (findEntrySteps i) s))"
    by (rule put_steps_facts [OF W]) (auto simp: wanted_def held_def)
  then have "held (wanted i) (put_edges (map exit_edge (exit_steps i)) ?m) \<and>
      sigs (put_edges (map exit_edge (exit_steps i)) ?m) = sigs ?m \<union> sig ` set (map exit_edge (exit_steps i))"
    by (intro put_edges_facts [OF W]) (auto simp: wanted_def)
  with 1 show ?thesis by (simp add: buildEdges_def wanted_def image_Un)
qed

section \<open>The arrows of a compiled graph\<close>

definition branch_targets :: "pipelineStepIntent \<Rightarrow> string list" where
  "branch_targets s = List.map_filter given [ps_trueBranch s, ps_falseBranch s]"

definition flows :: "pipelineStepIntent \<Rightarrow> (string \<times> string) list" where
  "flows s = map (\<lambda>d. (d, ps_id s)) (opt_list (ps_dependsOn s)) @ (case ps_kind s of
       SkConditional \<Rightarrow> map (Pair (ps_id s)) (branch_targets s)
     | SkLoop \<Rightarrow> map (Pair (ps_id s)) (take 1 (opt_list (ps_loopBody s)))
     | SkMerge \<Rightarrow> map (\<lambda>f. (f, ps_id s)) (opt_list (ps_mergeFrom s))
     | SkParallel \<Rightarrow> map (Pair (ps_id s)) (opt_list (ps_parallelBranches s))
     | _ \<Rightarrow> [])"

definition step_flows :: "pipelineIntent \<Rightarrow> (string \<times> string) set" where
  "step_flows i = (\<Union>s \<in> set (pi_steps i). set (flows s))"

lemma sig_new_edge [simp]: "sig (new_edge n f t k key c) = (f, t, k)"
  by (simp add: sig_def new_edge_def)

lemma sig_branch_edges: "(f, t, k) \<in> sig ` set (branch_edges s x c n) \<longleftrightarrow> f = s \<and> given x = Some t"
  by (cases "given x"; cases k) (auto simp: branch_edges_def)

lemma sig_loop_edges: "(f, t, k) \<in> sig ` set (loop_edges s) \<longleftrightarrow>
    k = EkData \<and> ps_kind s = SkLoop \<and> f = ps_id s \<and> t \<in> set (take 1 (opt_list (ps_loopBody s)))"
  by (cases "opt_list (ps_loopBody s)"; cases "ps_kind s") (auto simp: loop_edges_def)

lemma branch_targets_iff: "t \<in> set (branch_targets s) \<longleftrightarrow> given (ps_trueBranch s) = Some t \<or> given (ps_falseBranch s) = Some t"
  by (auto simp: branch_targets_def map_filter_simps split: option.splits)

lemma sig_step_edges:
  "(f, t, k) \<in> sig ` set (step_edges entries s) \<longleftrightarrow>
     (if k = EkData then (f, t) \<in> set (flows s) \<or> f = ''_input'' \<and> t = ps_id s \<and> ps_id s \<in> set entries
      else ps_kind s = SkConditional \<and> f = ps_id s \<and> t \<in> set (branch_targets s))"
proof -
  have parts: "(f, t, k) \<in> sig ` set (entry_edges entries s) \<longleftrightarrow> f = ''_input'' \<and> t = ps_id s \<and> k = EkData \<and> ps_id s \<in> set entries"
    "(f, t, k) \<in> sig ` set (dependency_edges s) \<longleftrightarrow> f \<in> set (opt_list (ps_dependsOn s)) \<and> t = ps_id s \<and> k = EkData"
    "(f, t, k) \<in> sig ` set (merge_edges s) \<longleftrightarrow> ps_kind s = SkMerge \<and> f \<in> set (opt_list (ps_mergeFrom s)) \<and> t = ps_id s \<and> k = EkData"
    "(f, t, k) \<in> sig ` set (parallel_edges s) \<longleftrightarrow>
      ps_kind s = SkParallel \<and> f = ps_id s \<and> t \<in> set (opt_list (ps_parallelBranches s)) \<and> k = EkData"
    by (auto simp: entry_edges_def dependency_edges_def merge_edges_def parallel_edges_def image_image)
  have "(f, t, k) \<in> sig ` set (conditional_edges s) \<longleftrightarrow> ps_kind s = SkConditional \<and> f = ps_id s \<and> t \<in> set (branch_targets s)"
    unfolding conditional_edges_def branch_targets_iff
    by (cases "ps_kind s = SkConditional") (simp_all add: image_Un sig_branch_edges conj_disj_distribL)
  note parts = parts this
  show ?thesis
    unfolding step_edges_def set_append image_Un Un_iff parts sig_loop_edges
    by (cases "ps_kind s"; cases k) (auto simp: flows_def)
qed

lemma sig_exit_edges: "(f, t, k) \<in> sig ` exit_edge ` X \<longleftrightarrow> f \<in> X \<and> t = ''_output'' \<and> k = EkData"
  by (auto simp: exit_edge_def image_iff)

definition pipeline_arrows :: "pipelineIntent \<Rightarrow> (string \<times> string) set" where
  "pipeline_arrows i = step_flows i \<union> {''_input''} \<times> set (findEntrySteps i) \<union> set (exit_steps i) \<times> {''_output''}"

lemma conditional_flows: "ps_kind s = SkConditional \<Longrightarrow> t \<in> set (branch_targets s) \<Longrightarrow> (ps_id s, t) \<in> set (flows s)"
  by (simp add: flows_def)

lemma sig_wanted:
  "(f, t, EkData) \<in> sig ` wanted i \<longleftrightarrow> (f, t) \<in> pipeline_arrows i"
  "(f, t, EkControl) \<in> sig ` wanted i \<Longrightarrow> (f, t) \<in> pipeline_arrows i"
proof -
  have entries: "set (findEntrySteps i) \<subseteq> ps_id ` set (pi_steps i)" by (auto simp: findEntrySteps_def)
  show "(f, t, EkData) \<in> sig ` wanted i \<longleftrightarrow> (f, t) \<in> pipeline_arrows i"
    unfolding wanted_def image_Un image_UN Un_iff UN_iff sig_step_edges sig_exit_edges
    using entries by (auto simp: pipeline_arrows_def step_flows_def)
  show "(f, t, EkControl) \<in> sig ` wanted i \<Longrightarrow> (f, t) \<in> pipeline_arrows i"
    unfolding wanted_def image_Un image_UN Un_iff UN_iff sig_step_edges sig_exit_edges
    using conditional_flows by (auto simp: pipeline_arrows_def step_flows_def)
qed

lemma arrows_of_sigs:
  "set (data_arrows g) = {(f, t). (f, t, EkData) \<in> sigs (g_edges g)}"
  "set (all_arrows g) = {(f, t). \<exists>k. (f, t, k) \<in> sigs (g_edges g)}"
  by (auto simp: data_arrows_def all_arrows_def edges_of_def sigs_def sig_def arrow_def is_data_def image_iff)

lemma compiled_arrows:
  assumes "no_clash i" "g_edges g = buildEdges i"
  shows "set (data_arrows g) = pipeline_arrows i \<and> set (all_arrows g) = pipeline_arrows i"
proof -
  have sigs: "sigs (g_edges g) = sig ` wanted i" using assms buildEdges_facts by simp
  have all: "(\<exists>k. (f, t, k) \<in> sig ` wanted i) \<longleftrightarrow> (f, t) \<in> pipeline_arrows i" for f t
  proof
    assume "\<exists>k. (f, t, k) \<in> sig ` wanted i"
    then obtain k where "(f, t, k) \<in> sig ` wanted i" ..
    then show "(f, t) \<in> pipeline_arrows i" using sig_wanted by (cases k) blast+
  qed (use sig_wanted(1) in blast)
  show ?thesis unfolding arrows_of_sigs sigs all sig_wanted(1) by simp
qed

section \<open>The nodes of a compiled graph\<close>

lemma build_nodes_fold:
  "distinct (map ps_id ss) \<Longrightarrow> (\<forall>s \<in> set ss. \<not> al_has (ps_id s) m) \<Longrightarrow>
   foldl (\<lambda>m s. al_set (ps_id s) (buildStepNode cs s) m) m ss = m @ map (\<lambda>s. (ps_id s, buildStepNode cs s)) ss"
proof (induction ss arbitrary: m)
  case (Cons s ss)
  then have "ps_id s' \<noteq> ps_id s \<and> \<not> al_has (ps_id s') m" if "s' \<in> set ss" for s'
  proof -
    have "ps_id s' \<in> set (map ps_id ss)" using that by simp
    with Cons.prems that show ?thesis by (metis distinct.simps(2) list.set_intros(2) list.simps(9))
  qed
  then have "\<forall>s' \<in> set ss. \<not> al_has (ps_id s') (m @ [(ps_id s, buildStepNode cs s)])" by (simp add: al_has_def)
  with Cons show ?case by (simp add: al_set_new al_has_def)
qed simp

definition unreserved :: "pipelineIntent \<Rightarrow> bool" where
  "unreserved i \<longleftrightarrow> ''_input'' \<notin> set (step_ids i) \<and> ''_output'' \<notin> set (step_ids i)"

lemma buildNodes_eq:
  "distinct (step_ids i) \<Longrightarrow> unreserved i \<Longrightarrow> buildNodes cs i =
   [(''_input'', input_node), (''_output'', output_node)] @ map (\<lambda>s. (ps_id s, buildStepNode cs s)) (pi_steps i)"
  unfolding buildNodes_def by (rule build_nodes_fold) (auto simp: step_ids_def unreserved_def)

lemma distinct_put: "distinct (map fst m) \<Longrightarrow> distinct (map fst (put_edges es m)) \<and> distinct (map fst (put_new es m))"
  by (induction es arbitrary: m) (simp_all add: put_edges_def put_new_def put_edge_def)

lemma distinct_buildEdges: "distinct (map fst (buildEdges i))"
proof -
  have "distinct (map fst m) \<Longrightarrow> distinct (map fst (foldl (put_step entries) m ss))" for entries m ss
    by (induction ss arbitrary: m) (simp_all add: put_step_def distinct_put)
  then show ?thesis by (simp add: buildEdges_def distinct_put)
qed

section \<open>Validity of compiled graphs\<close>

lemma acyclic_around:
  assumes "S \<subseteq> I \<times> I" "X \<subseteq> I" "Y \<subseteq> I" "src \<notin> I" "snk \<notin> I" "src \<noteq> snk"
  shows "acyclic (S \<union> {src} \<times> X \<union> Y \<times> {snk}) \<longleftrightarrow> acyclic S"
proof
  let ?R = "S \<union> {src} \<times> X \<union> Y \<times> {snk}"
  assume ac: "acyclic S"
  have inside: "b \<noteq> snk \<Longrightarrow> (a, b) \<in> S\<^sup>+" if "(a, b) \<in> ?R\<^sup>+" "a \<noteq> src" for a b
    using that(1)
  proof (induction rule: trancl_induct)
    case (base y)
    with that(2) show ?case by auto
  next
    case (step y z)
    have "Domain ?R \<subseteq> insert src I" "Range ?R \<subseteq> insert snk I" using assms(1-3) by blast+
    moreover have "y \<in> Domain ?R" using step(2) by blast
    moreover have "y \<in> Range ?R" using step(1) RangeI [of a y "?R\<^sup>+"] by (simp only: trancl_range)
    ultimately have y: "y \<noteq> snk" "y \<in> I" using assms(5,6) by blast+
    moreover have "y \<noteq> src" using y assms(4) by blast
    ultimately have "(y, z) \<in> S" using step(2,4) by blast
    with step(3) y show ?case by (auto intro: trancl_into_trancl)
  qed
  show "acyclic ?R"
  proof (rule acyclicI, intro allI notI)
    fix a assume cyc: "(a, a) \<in> ?R\<^sup>+"
    then have "a \<in> Domain ?R" "a \<in> Range ?R" by (metis DomainI trancl_domain, metis RangeI trancl_range)
    moreover have "src \<notin> Range ?R" "snk \<notin> Domain ?R" using assms by blast+
    ultimately have "a \<noteq> snk" "a \<noteq> src" by blast+
    with inside [OF cyc] ac show False by (simp add: acyclic_def)
  qed
qed (rule acyclic_subset, auto)

lemma given_known: "refers_to ids x \<Longrightarrow> given x = Some b \<Longrightarrow> b \<in> ids"
  by (auto simp: refers_to_def given_iff)

lemma flows_known:
  assumes "deps_are_known ids s" "references_known ids s" "ps_id s \<in> ids"
  shows "set (flows s) \<subseteq> ids \<times> ids"
  using assms
  by (cases "ps_kind s") (auto simp: flows_def deps_are_known_def references_known_def branch_targets_iff given_known dest!: in_set_takeD)

lemma step_flows_known: "well_formed_intent i \<Longrightarrow> step_flows i \<subseteq> set (step_ids i) \<times> set (step_ids i)"
  unfolding step_flows_def well_formed_intent_def
  by (intro UN_least flows_known) (auto simp: step_ids_def)

lemma exit_exists:
  assumes "well_formed_intent i" "pi_steps i \<noteq> []"
  shows "exit_steps i \<noteq> []"
proof -
  let ?ids = "ps_id ` set (pi_steps i)"
  have "depends i = set (concat (map (\<lambda>s. map (Pair (ps_id s)) (opt_list (ps_dependsOn s))) (pi_steps i)))"
    by (auto simp: depends_def)
  then have "finite (depends i)" by (metis List.finite_set)
  then have "wf (depends i)" using assms(1) by (simp add: finite_acyclic_wf well_formed_intent_def)
  moreover have "?ids \<noteq> {}" using assms(2) by simp
  ultimately obtain z where z: "z \<in> ?ids" "\<And>y. (y, z) \<in> depends i \<Longrightarrow> y \<notin> ?ids" by (meson wfE_min ex_in_conv)
  then have "\<forall>s \<in> set (pi_steps i). z \<notin> set (opt_list (ps_dependsOn s))" by (auto simp: depends_def)
  with z(1) have "z \<in> set (exit_steps i)" by (auto simp: exit_steps_def Let_def)
  then show ?thesis by force
qed

end
