(* ===== verification/CompiledRuns.thy ===== *)
theory CompiledRuns
  imports CompiledGraphs
begin

text \<open>
  What the scheduler makes of compiled graphs: when its validation accepts them, that their runs return, and the edges lost
  when two pairs of steps have the same edge id.
\<close>

section \<open>Validation of compiled graphs\<close>

lemma compile_facts:
  assumes "compile_intent cs i = (g, [])"
  shows "well_formed_intent i \<and> g = buildGraph cs (buildNodes cs i) (buildEdges i) i"
  using assms by (auto simp: compile_intent_def Let_def validate_intent_Nil split: if_splits)

lemma built_graph_facts:
  "g_nodes (buildGraph cs ns es i) = ns" "g_edges (buildGraph cs ns es i) = es" "entryNode (buildGraph cs ns es i) = ''_input''"
  "set (exitNodes (buildGraph cs ns es i)) \<subseteq> insert ''_output'' (fst ` set ns)"
  by (auto simp: buildGraph_def Let_def split: if_splits)

definition fed :: "pipelineIntent \<Rightarrow> pipelineStepIntent \<Rightarrow> bool" where
  "fed i s \<longleftrightarrow> is_entry i s \<or> (\<exists>f. (f, ps_id s) \<in> step_flows i)"

definition compiled_kinds :: "pipelineIntent \<Rightarrow> string set" where
  "compiled_kinds i = {''input'', ''output''} \<union> (step_kind \<circ> ps_kind) ` set (pi_steps i)"

lemma compiled_nodes:
  assumes "compile_intent cs i = (g, [])" "unreserved i"
  shows "g_nodes g = [(''_input'', input_node), (''_output'', output_node)] @ map (\<lambda>s. (ps_id s, buildStepNode cs s)) (pi_steps i)"
    and "set (node_ids g) = {''_input'', ''_output''} \<union> set (step_ids i)" and "distinct (node_ids g)"
proof -
  from compile_facts [OF assms(1)] have i: "well_formed_intent i" and g: "g = buildGraph cs (buildNodes cs i) (buildEdges i) i" by auto
  then have "distinct (step_ids i)" by (simp add: well_formed_intent_def)
  note nodes = buildNodes_eq [OF this assms(2), of cs]
  then show "g_nodes g = [(''_input'', input_node), (''_output'', output_node)] @ map (\<lambda>s. (ps_id s, buildStepNode cs s)) (pi_steps i)"
    by (simp add: g built_graph_facts)
  moreover have "map fst (map (\<lambda>s. (ps_id s, buildStepNode cs s)) (pi_steps i)) = step_ids i" by (simp add: step_ids_def o_def)
  ultimately have ids: "node_ids g = [''_input'', ''_output''] @ step_ids i" unfolding node_ids_def by simp
  show "set (node_ids g) = {''_input'', ''_output''} \<union> set (step_ids i)" by (auto simp: ids)
  show "distinct (node_ids g)" using assms(2) \<open>distinct (step_ids i)\<close> by (simp add: ids unreserved_def)
qed

lemma pipeline_arrows_ends:
  assumes "well_formed_intent i"
  shows "Domain (pipeline_arrows i) \<subseteq> insert ''_input'' (set (step_ids i))" "Range (pipeline_arrows i) \<subseteq> insert ''_output'' (set (step_ids i))"
proof -
  have "set (findEntrySteps i) \<subseteq> set (step_ids i)" "set (exit_steps i) \<subseteq> set (step_ids i)"
    by (auto simp: findEntrySteps_def exit_steps_def step_ids_def Let_def)
  then show "Domain (pipeline_arrows i) \<subseteq> insert ''_input'' (set (step_ids i))"
    "Range (pipeline_arrows i) \<subseteq> insert ''_output'' (set (step_ids i))"
    using step_flows_known [OF assms] unfolding pipeline_arrows_def by blast+
qed

lemma pipeline_arrows_acyclic:
  assumes "well_formed_intent i" "unreserved i"
  shows "acyclic (pipeline_arrows i) \<longleftrightarrow> acyclic (step_flows i)"
  unfolding pipeline_arrows_def
  by (rule acyclic_around [OF step_flows_known [OF assms(1)]])
     (use assms(2) in \<open>auto simp: findEntrySteps_def exit_steps_def step_ids_def Let_def unreserved_def\<close>)

lemma fed_iff:
  assumes "unreserved i" "s \<in> set (pi_steps i)" "distinct (step_ids i)"
  shows "(\<exists>m. (m, ps_id s) \<in> pipeline_arrows i) \<longleftrightarrow> fed i s"
proof -
  have "ps_id s \<noteq> ''_output''" using assms(1,2) unfolding unreserved_def step_ids_def by (metis image_eqI list.set_map)
  moreover have "ps_id s \<in> set (findEntrySteps i) \<longleftrightarrow> is_entry i s"
    using assms(2,3) by (auto simp: findEntrySteps_def step_ids_def distinct_map dest: inj_onD)
  ultimately show ?thesis by (auto simp: pipeline_arrows_def fed_def)
qed

lemma compiled_valid:
  assumes "compile_intent cs i = (g, [])" "no_clash i" "unreserved i" "compiled_kinds i \<subseteq> set kinds"
  shows "validateGraph g (Some kinds) = [] \<longleftrightarrow> pi_steps i \<noteq> [] \<and> acyclic (step_flows i) \<and> (\<forall>s \<in> set (pi_steps i). fed i s)"
proof -
  from compile_facts [OF assms(1)] have i: "well_formed_intent i" and g: "g = buildGraph cs (buildNodes cs i) (buildEdges i) i" by auto
  have dist: "distinct (step_ids i)" using i by (simp add: well_formed_intent_def)
  note nodes = compiled_nodes [OF assms(1,3)]
  have edges: "g_edges g = buildEdges i" by (simp add: g built_graph_facts)
  note arrows = compiled_arrows [OF assms(2) edges]
  note ends = pipeline_arrows_ends [OF i]
  have wf: "wf_graph g" using nodes(3) distinct_buildEdges by (simp add: wf_graph_def edges node_ids_def)
  have known: "a \<in> set (node_ids g) \<and> b \<in> set (node_ids g)" if "(a, b) \<in> pipeline_arrows i" for a b
    using subsetD [OF ends(1) DomainI [OF that]] subsetD [OF ends(2) RangeI [OF that]] nodes(2) by auto
  have "(e_from e, e_to e) \<in> set (all_arrows g)" if "e \<in> set (edges_of g)" for e
    using that by (force simp: all_arrows_def arrow_def)
  then have 1: "endpoints_exist g" unfolding endpoints_exist_def using known arrows by metis
  have 2: "entryNode g = ''_input''" by (simp add: g built_graph_facts)
  have 3: "(m, ''_input'') \<notin> set (data_arrows g)" for m
    using subsetD [OF ends(2) RangeI] arrows assms(3) by (auto simp: unreserved_def)
  have 4: "(''_output'', m) \<notin> set (data_arrows g)" for m
    using subsetD [OF ends(1) DomainI] arrows assms(3) by (auto simp: unreserved_def)
  have "fst ` set (buildNodes cs i) = set (node_ids g)" by (simp add: node_ids_def g built_graph_facts)
  moreover have "''_output'' \<in> set (node_ids g)" by (simp add: nodes(2))
  ultimately have 5: "set (exitNodes g) \<subseteq> set (node_ids g)"
    using built_graph_facts(4) [of cs "buildNodes cs i" "buildEdges i" i] unfolding g [symmetric] by (metis insert_absorb)
  have 6: "\<forall>(n, nd) \<in> set (g_nodes g). n_kind nd \<in> set kinds"
    unfolding nodes(1) using assms(4)
    by (auto simp: input_node_def output_node_def buildStepNode_def compiled_kinds_def)
  have out: "(\<exists>m. (m, ''_output'') \<in> pipeline_arrows i) \<longleftrightarrow> pi_steps i \<noteq> []"
  proof
    assume "pi_steps i \<noteq> []"
    with exit_exists [OF i] obtain x where "x \<in> set (exit_steps i)" by (meson list.set_sel(1))
    then show "\<exists>m. (m, ''_output'') \<in> pipeline_arrows i" by (auto simp: pipeline_arrows_def)
  qed (auto simp: pipeline_arrows_def step_flows_def findEntrySteps_def exit_steps_def Let_def)
  have own: "ps_id s \<noteq> ''_input''" if "s \<in> set (pi_steps i)" for s
    using assms(3) that unfolding unreserved_def step_ids_def by (metis image_eqI list.set_map)
  have feeds: "(\<forall>n \<in> set (node_ids g). n = ''_input'' \<or> (\<exists>m. (m, n) \<in> pipeline_arrows i)) \<longleftrightarrow>
      pi_steps i \<noteq> [] \<and> (\<forall>s \<in> set (pi_steps i). fed i s)"
    unfolding nodes(2) step_ids_def using out fed_iff [OF assms(3) _ dist] own by (simp add: ball_Un)
  show ?thesis
    unfolding validateGraph_Nil [OF wf] 2
    using 1 3 4 5 6 feeds arrows pipeline_arrows_acyclic [OF i assms(3)] nodes(2) by auto
qed

section \<open>Runs of compiled graphs\<close>

text \<open>Filling in payloads keeps the edges, and the ids, kinds and policies of the nodes.\<close>

definition same_shape :: "'p graph \<Rightarrow> 'q graph \<Rightarrow> bool" where
  "same_shape g g' \<longleftrightarrow> g_edges g' = g_edges g \<and> entryNode g' = entryNode g \<and> exitNodes g' = exitNodes g \<and>
     map (\<lambda>(k, nd). (k, n_id nd, n_kind nd, n_errorPolicy nd)) (g_nodes g') =
     map (\<lambda>(k, nd). (k, n_id nd, n_kind nd, n_errorPolicy nd)) (g_nodes g)"

lemma same_shape_node:
  assumes "same_shape g g'" "(k, nd') \<in> set (g_nodes g')"
  shows "\<exists>nd. (k, nd) \<in> set (g_nodes g) \<and> n_id nd = n_id nd' \<and> n_kind nd = n_kind nd' \<and> n_errorPolicy nd = n_errorPolicy nd'"
proof -
  let ?f = "\<lambda>(k, nd). (k, n_id nd, n_kind nd, n_errorPolicy nd)"
  have "?f (k, nd') \<in> ?f ` set (g_nodes g')" using assms(2) by (rule imageI)
  also have "?f ` set (g_nodes g') = (\<lambda>(k, nd). (k, n_id nd, n_kind nd, n_errorPolicy nd)) ` set (g_nodes g)"
    using assms(1) unfolding same_shape_def set_map [symmetric] by simp
  finally show ?thesis by auto
qed

lemma no_fallbacks:
  assumes "\<And>k nd. (k, nd) \<in> set (g_nodes g) \<Longrightarrow> onError (n_errorPolicy nd) = OnFail"
  shows "fallback_arrows g = []"
proof -
  have "\<forall>(k, nd) \<in> set ns. onError (n_errorPolicy nd) = OnFail \<Longrightarrow>
    List.map_filter (\<lambda>(k, nd). case (onError (n_errorPolicy nd), fallbackNodeId (n_errorPolicy nd)) of
     (OnFallback, Some f) \<Rightarrow> Some (k, f) | _ \<Rightarrow> None) ns = []" for ns :: "(string \<times> 'a node) list"
    by (induction ns) (auto simp: map_filter_simps)
  with assms show ?thesis unfolding fallback_arrows_def by blast
qed

lemma compiled_node_facts:
  assumes "compile_intent cs i = (g, [])" "unreserved i" "(k, nd) \<in> set (g_nodes g)"
  shows "n_id nd = k \<and> n_errorPolicy nd = fail_policy"
  using assms(3) unfolding compiled_nodes(1) [OF assms(1,2)]
  by (auto simp: input_node_def output_node_def buildStepNode_def)

lemma compiled_returns:
  assumes "compile_intent cs i = (g, [])" "no_clash i" "unreserved i" "acyclic (step_flows i)"
    and "same_shape g g'" "caps_positive cf g'" "Suc (length (pi_steps i)) < fuel"
  shows "\<exists>out. run fuel cf g' c w = Some out \<and> (\<forall>fuel' \<ge> fuel. run fuel' cf g' c w = Some out)"
proof (rule run_returns [OF _ _ assms(6)])
  from compile_facts [OF assms(1)] have i: "well_formed_intent i" and g: "g = buildGraph cs (buildNodes cs i) (buildEdges i) i" by auto
  have "g_edges g' = buildEdges i" using assms(5) by (simp add: same_shape_def g built_graph_facts)
  then have arrows: "set (data_arrows g') = pipeline_arrows i" using compiled_arrows [OF assms(2)] by blast
  have node: "n_id nd = k \<and> n_errorPolicy nd = fail_policy" if "(k, nd) \<in> set (g_nodes g')" for k nd
    using same_shape_node [OF assms(5) that] compiled_node_facts [OF assms(1,3)] by metis
  have "fallback_arrows g' = []" by (rule no_fallbacks) (use node in \<open>simp add: fail_policy_def\<close>)
  then have calls: "calls g' = pipeline_arrows i" by (simp add: calls_def arrows)
  show "acyclic (calls g')" using assms(4) pipeline_arrows_acyclic [OF i assms(3)] by (simp add: calls)
  show "keyed_nodes g'" using node by (auto simp: keyed_nodes_def)
  have "card (Range (calls g')) \<le> card (insert ''_output'' (set (step_ids i)))"
    unfolding calls by (rule card_mono [OF _ pipeline_arrows_ends(2) [OF i]]) simp
  also have "\<dots> \<le> Suc (length (step_ids i))" by (simp add: card_insert_if card_length le_SucI)
  finally show "card (Range (calls g')) < fuel" using assms(7) by (simp add: step_ids_def)
qed

section \<open>Pipelines of plain steps\<close>

definition plain_steps :: "pipelineIntent \<Rightarrow> bool" where
  "plain_steps i \<longleftrightarrow> (\<forall>s \<in> set (pi_steps i). ps_kind s \<in> {SkQuery, SkTransform, SkLlm, SkHttp, SkWrite} \<and>
     opt_list (ps_loopBody s) = [] \<and> opt_list (ps_parallelBranches s) = [])"

lemma plain_flows: "plain_steps i \<Longrightarrow> step_flows i = (depends i)\<inverse>"
proof -
  assume plain: "plain_steps i"
  have "flows s = map (\<lambda>d. (d, ps_id s)) (opt_list (ps_dependsOn s))" if "s \<in> set (pi_steps i)" for s
    using plain that by (auto simp: plain_steps_def flows_def)
  then have "step_flows i = (\<Union>s \<in> set (pi_steps i). (\<lambda>d. (d, ps_id s)) ` set (opt_list (ps_dependsOn s)))"
    by (simp add: step_flows_def)
  then show ?thesis by (auto simp: depends_def)
qed

lemma plain_fed:
  assumes "plain_steps i" "s \<in> set (pi_steps i)"
  shows "fed i s"
proof (cases "opt_list (ps_dependsOn s)")
  case Nil
  have "getBodyStepIds i = []" using assms(1) by (auto simp: plain_steps_def getBodyStepIds_def)
  with Nil show ?thesis by (simp add: fed_def is_entry_def)
next
  case (Cons d ds)
  with assms(2) have "(ps_id s, d) \<in> depends i" by (auto simp: depends_def)
  with plain_flows [OF assms(1)] show ?thesis by (auto simp: fed_def)
qed

lemma plain_acyclic: "well_formed_intent i \<Longrightarrow> plain_steps i \<Longrightarrow> acyclic (step_flows i)"
  by (simp add: plain_flows well_formed_intent_def)

section \<open>Ids of edges\<close>

text \<open>Step ids without an underscore: the id of an edge determines its ends and its kind.\<close>

definition simple_id :: "string \<Rightarrow> bool" where
  "simple_id x \<longleftrightarrow> x \<noteq> [] \<and> CHR ''_'' \<notin> set x"

definition seg :: "string \<Rightarrow> string" where
  "seg x = takeWhile (\<lambda>c. c \<noteq> CHR ''_'') x"

lemma seg_append [simp]: "CHR ''_'' \<notin> set x \<Longrightarrow> seg (x @ CHR ''_'' # y) = x"
  by (induction x) (auto simp: seg_def)

lemma seg_whole [simp]: "CHR ''_'' \<notin> set x \<Longrightarrow> seg x = x"
  by (induction x) (auto simp: seg_def)

definition decode_id :: "string \<Rightarrow> string \<times> string \<times> edgeKind" where
  "decode_id n = (let a = seg n; x = drop (Suc (length a)) n; b = seg x; y = drop (Suc (length b)) x; c = seg y in
     if a \<noteq> ''e'' then (take (length a - 2) a, ''_output'', EkData)
     else if b = [] then (''_input'', drop 7 x, EkData)
     else (b, c, if take 8 (drop (length c) y) = ''_control'' then EkControl else EkData))"

lemma decode_exit: "simple_id x \<Longrightarrow> decode_id (x @ ''->_output'') = (x, ''_output'', EkData)"
proof -
  assume x: "simple_id x"
  then have "seg ((x @ ''->'') @ CHR ''_'' # ''output'') = x @ ''->''" by (intro seg_append) (simp add: simple_id_def)
  then have "seg (x @ ''->_output'') = x @ ''->''" by simp
  then show ?thesis using x by (simp add: decode_id_def simple_id_def Let_def Cons_eq_append_conv append_eq_Cons_conv)
qed

lemma decode_entry: "decode_id (''e__input_'' @ t) = (''_input'', t, EkData)"
proof -
  have "seg (''e'' @ CHR ''_'' # (''_input_'' @ t)) = ''e''" "seg ([] @ CHR ''_'' # (''input_'' @ t)) = []"
    by (rule seg_append, simp)+
  then show ?thesis by (simp add: decode_id_def Let_def)
qed

lemma decode_name:
  assumes "simple_id f" "simple_id t" "z = [] \<or> (\<exists>y. z = CHR ''_'' # y)"
  shows "decode_id (edge_name f t @ z) = (f, t, if take 8 z = ''_control'' then EkControl else EkData)"
proof -
  have "seg (''e'' @ CHR ''_'' # (f @ CHR ''_'' # t @ z)) = ''e''" by (rule seg_append) simp
  moreover have "seg (f @ CHR ''_'' # t @ z) = f" by (rule seg_append) (use assms in \<open>simp add: simple_id_def\<close>)
  moreover have "seg (t @ z) = t" using assms(2,3) by (auto simp: simple_id_def)
  ultimately show ?thesis using assms(1) by (simp add: decode_id_def edge_name_def Let_def simple_id_def)
qed

lemma id_new_edge [simp]: "e_id (new_edge n f t k key c) = n"
  by (simp add: new_edge_def)

lemma decode_branch:
  assumes "e \<in> set (branch_edges s x c n)" "simple_id s" "\<And>b. given x = Some b \<Longrightarrow> simple_id b"
  shows "decode_id (e_id e) = sig e"
proof -
  obtain b where b: "given x = Some b" using assms(1) by (cases "given x") (simp_all add: branch_edges_def)
  note dec = decode_name [OF assms(2) assms(3) [OF b]]
  have "e = new_edge (edge_name s b @ ''_control_'' @ n) s b EkControl None (Some c) \<or> e = new_edge (edge_name s b @ ''_data'') s b EkData None None"
    using assms(1) b by (simp add: branch_edges_def)
  then show ?thesis using dec [of "''_control_'' @ n"] dec [of "''_data''"] by auto
qed

lemma decode_plain_name: "simple_id f \<Longrightarrow> simple_id t \<Longrightarrow> decode_id (edge_name f t) = (f, t, EkData)"
  using decode_name [of f t "[]"] by simp

lemma decode_step:
  assumes "e \<in> set (step_edges entries s)" "deps_are_known ids s" "references_known ids s" "\<forall>x \<in> ids. simple_id x" "ps_id s \<in> ids"
  shows "decode_id (e_id e) = sig e"
proof -
  have s: "simple_id (ps_id s)" using assms(4,5) by blast
  have deps: "simple_id d" if "d \<in> set (opt_list (ps_dependsOn s))" for d using assms(2,4) that by (auto simp: deps_are_known_def)
  from assms(1) consider "e \<in> set (entry_edges entries s)" | "e \<in> set (dependency_edges s)" | "e \<in> set (conditional_edges s)"
    | "e \<in> set (loop_edges s)" | "e \<in> set (merge_edges s)" | "e \<in> set (parallel_edges s)"
    unfolding step_edges_def set_append by blast
  then show ?thesis
  proof cases
    case 1
    then have "e = new_edge (''e__input_'' @ ps_id s) ''_input'' (ps_id s) EkData None None" by (simp add: entry_edges_def split: if_splits)
    then show ?thesis by (simp only: id_new_edge sig_new_edge decode_entry)
  next
    case 2
    then show ?thesis using s deps by (auto simp: dependency_edges_def decode_plain_name)
  next
    case 3
    then have "ps_kind s = SkConditional"
      "e \<in> set (branch_edges (ps_id s) (ps_trueBranch s) CondTrue ''true'') \<or> e \<in> set (branch_edges (ps_id s) (ps_falseBranch s) CondFalse ''false'')"
      by (auto simp: conditional_edges_def split: if_splits)
    then show ?thesis using assms(3,4) decode_branch [OF _ s] given_known by (auto simp: references_known_def)
  next
    case 4
    then obtain b bs where "ps_kind s = pipelineStepKind.SkLoop" "opt_list (ps_loopBody s) = b # bs" "e = new_edge (edge_name (ps_id s) b) (ps_id s) b EkData (Some ''input'') None"
      by (cases "opt_list (ps_loopBody s)"; cases "ps_kind s") (auto simp: loop_edges_def)
    then show ?thesis using assms(3,4) s by (auto simp: references_known_def decode_plain_name)
  next
    case 5
    then show ?thesis using assms(3,4) s by (auto simp: merge_edges_def references_known_def decode_plain_name split: if_splits)
  next
    case 6
    then show ?thesis using assms(3,4) s by (auto simp: parallel_edges_def references_known_def decode_plain_name split: if_splits)
  qed
qed

definition simple_ids :: "pipelineIntent \<Rightarrow> bool" where
  "simple_ids i \<longleftrightarrow> (\<forall>x \<in> set (step_ids i). simple_id x)"

lemma decode_wanted:
  assumes "well_formed_intent i" "simple_ids i" "e \<in> wanted i"
  shows "decode_id (e_id e) = sig e"
proof (cases "e \<in> exit_edge ` set (exit_steps i)")
  case True
  then obtain x where "x \<in> set (step_ids i)" "e = exit_edge x" by (auto simp: exit_steps_def step_ids_def Let_def)
  with assms(2) show ?thesis by (simp add: simple_ids_def exit_edge_def decode_exit)
next
  case False
  with assms(3) obtain s where s: "s \<in> set (pi_steps i)" "e \<in> set (step_edges (findEntrySteps i) s)" by (auto simp: wanted_def)
  show ?thesis by (rule decode_step [OF s(2), of "set (step_ids i)"])
    (use assms s(1) in \<open>auto simp: well_formed_intent_def simple_ids_def step_ids_def\<close>)
qed

lemma simple_ids_no_clash: "well_formed_intent i \<Longrightarrow> simple_ids i \<Longrightarrow> no_clash i"
  unfolding no_clash_def coherent_def using decode_wanted by metis

lemma simple_ids_unreserved: "simple_ids i \<Longrightarrow> unreserved i"
  by (auto simp: simple_ids_def unreserved_def simple_id_def)

section \<open>Properties\<close>

text \<open>
  C19: the scheduler accepts a compiled graph exactly when the intent has a step, the arrows between its steps, with those of
  branches, bodies and merges, have no cycle, and every step is an entry or has an arrow into it; ids of edges must not clash.
\<close>

theorem compiled_graph_valid_iff:
  assumes "compile_intent cs i = (g, [])" "no_clash i" "unreserved i" "compiled_kinds i \<subseteq> set kinds"
  shows "validateGraph g (Some kinds) = [] \<longleftrightarrow> pi_steps i \<noteq> [] \<and> acyclic (step_flows i) \<and> (\<forall>s \<in> set (pi_steps i). fed i s)"
  using assms by (rule compiled_valid)

definition blank_step :: "string \<Rightarrow> pipelineStepKind \<Rightarrow> string list \<Rightarrow> pipelineStepIntent" where
  "blank_step n k ds = \<lparr>ps_id = n, ps_kind = k, ps_description = [], ps_dependsOn = Some ds, ps_condition = None,
     ps_trueBranch = None, ps_falseBranch = None, ps_mergeStep = None, ps_loopMode = None, ps_loopOver = None,
     ps_loopBody = None, ps_maxIterations = None, ps_mergeFrom = None, ps_mergeStrategy = None, ps_parallelBranches = None,
     ps_maxConcurrency = None, ps_outputFields = None, ps_config = None\<rparr>"

definition intent_of :: "pipelineStepIntent list \<Rightarrow> pipelineIntent" where
  "intent_of ss = \<lparr>pi_description = [], pi_steps = ss, pi_params = None, pi_maxLLMCalls = None, pi_maxIterations = None,
     pi_timeoutMs = None\<rparr>"

definition choice :: pipelineIntent where
  "choice = intent_of [blank_step ''orders'' SkQuery [],
     (blank_step ''late'' SkConditional [''orders''])\<lparr>ps_trueBranch := Some ''warn'', ps_falseBranch := Some ''sum''\<rparr>,
     blank_step ''warn'' SkLlm [], blank_step ''sum'' SkTransform []]"

definition some_settings :: compilerSettings where
  "some_settings = \<lparr>co_model = ''m'', co_maxTokens = Fin 1000, co_idTime = 0, co_createdAt = 0\<rparr>"

lemma choice_valid: "validate_intent choice = [] \<and> simple_ids choice"
  by code_simp

lemma choice_compiles: "compile_intent some_settings choice = (fst (compile_intent some_settings choice), [])"
  using choice_valid by (simp add: compile_intent_def)

lemma choice_no_clash: "no_clash choice \<and> unreserved choice"
  using choice_valid simple_ids_no_clash simple_ids_unreserved by (simp add: validate_intent_Nil)

lemma choice_flows: "step_flows choice = {(''orders'', ''late''), (''late'', ''warn''), (''late'', ''sum'')}"
  by code_simp

lemma choice_acyclic: "acyclic (step_flows choice)"
proof -
  have "step_flows choice \<subseteq> (measure (\<lambda>x. if x = ''orders'' then 0 else if x = ''late'' then 1 else 2 :: nat))"
    by (simp add: choice_flows)
  then show ?thesis using acyclic_subset wf_acyclic wf_measure by blast
qed

theorem compiled_graph_valid_iff_witness:
  "validateGraph (fst (compile_intent some_settings choice))
     (Some [''input'', ''output'', ''query'', ''conditional'', ''llm'', ''transform'']) = []"
proof (rule compiled_graph_valid_iff [OF choice_compiles, THEN iffD2])
  show "compiled_kinds choice \<subseteq> set [''input'', ''output'', ''query'', ''conditional'', ''llm'', ''transform'']"
    by (auto simp: compiled_kinds_def choice_def intent_of_def blank_step_def step_kind_def)
  have "list_all (\<lambda>s. is_entry choice s \<or> list_ex (\<lambda>a. snd a = ps_id s) (concat (map flows (pi_steps choice)))) (pi_steps choice)"
    by code_simp
  then have "fed choice s" if "s \<in> set (pi_steps choice)" for s
    using that by (fastforce simp: list_all_iff list_ex_iff fed_def step_flows_def)
  then show "pi_steps choice \<noteq> [] \<and> acyclic (step_flows choice) \<and> (\<forall>s \<in> set (pi_steps choice). fed choice s)"
    using choice_acyclic by (simp add: choice_def intent_of_def)
qed (use choice_no_clash in simp_all)

text \<open>
  an intent of queries, transforms, model calls, requests and writes that passes the checks compiles to a graph the
  scheduler accepts, when it has a step and its step ids hold no underscore.
\<close>

theorem plain_pipeline_accepted:
  assumes "validate_intent i = []" "plain_steps i" "simple_ids i" "pi_steps i \<noteq> []" "compiled_kinds i \<subseteq> set kinds"
  shows "validateGraph (fst (compile_intent cs i)) (Some kinds) = []"
proof -
  have i: "well_formed_intent i" using assms(1) by (simp add: validate_intent_Nil)
  have "compile_intent cs i = (fst (compile_intent cs i), [])" using assms(1) by (simp add: compile_intent_def)
  from compiled_valid [OF this simple_ids_no_clash [OF i assms(3)] simple_ids_unreserved [OF assms(3)] assms(5)]
  show ?thesis using assms(2,4) plain_acyclic [OF i assms(2)] plain_fed by blast
qed

definition two_steps :: pipelineIntent where
  "two_steps = intent_of [blank_step ''orders'' SkQuery [], blank_step ''mail'' SkHttp [''orders'']]"

theorem plain_pipeline_accepted_witness:
  "validateGraph (fst (compile_intent some_settings two_steps)) (Some [''input'', ''output'', ''query'', ''http'']) = []"
proof (rule plain_pipeline_accepted)
  show "validate_intent two_steps = []" "simple_ids two_steps" by code_simp+
qed (simp_all add: two_steps_def intent_of_def blank_step_def plain_steps_def compiled_kinds_def step_kind_def)

text \<open>
  a run of a compiled graph, with whatever payloads are filled in, returns a result or an error when the arrows between
  the steps have no cycle and no parallel step has a cap of zero; fuel beyond the number of steps is enough.
\<close>

theorem compiled_run_returns:
  assumes "compile_intent cs i = (g, [])" "no_clash i" "unreserved i" "acyclic (step_flows i)"
    and "same_shape g g'" "caps_positive cf g'" "Suc (length (pi_steps i)) < fuel"
  shows "\<exists>out. run fuel cf g' c w = Some out \<and> (\<forall>fuel' \<ge> fuel. run fuel' cf g' c w = Some out)"
  using assms by (rule compiled_returns)

definition echo_cf :: "(compiledPayload, nat) config" where
  "echo_cf = \<lparr>cf_registry = map (\<lambda>k. (k, \<lparr>nd_inputKeys = [''input''],
       nd_execute = (\<lambda>p inp c form w. (Inr JNull, ctx_trace c, Suc w))\<rparr>)) [''input'', ''output'', ''query'', ''llm'', ''transform''],
     cf_query = (\<lambda>q c w. (Inr JNull, ctx_trace c, Suc w)), cf_host = no_host, cf_fns = [], cf_maxParallel = 1,
     cf_now = (\<lambda>w. int w), cf_sleep = (\<lambda>ms w. w + nat ms), cf_steps = [], cf_outputKey = (\<lambda>p. None),
     cf_filter = (\<lambda>p. JUndef), cf_cursors = False\<rparr>"

theorem compiled_run_returns_witness:
  "\<exists>out. run 6 echo_cf (fst (compile_intent some_settings choice)) demo_ctx 0 = Some out \<and>
     (\<forall>fuel' \<ge> 6. run fuel' echo_cf (fst (compile_intent some_settings choice)) demo_ctx 0 = Some out)"
proof (rule compiled_run_returns [OF choice_compiles])
  show "no_clash choice" "unreserved choice" using choice_no_clash by simp_all
  show "caps_positive echo_cf (fst (compile_intent some_settings choice))"
    unfolding caps_positive_def compiled_nodes(1) [OF choice_compiles conjunct2 [OF choice_no_clash]]
    by (simp add: choice_def intent_of_def blank_step_def buildStepNode_def step_payload_def input_node_def output_node_def)
  show "Suc (length (pi_steps choice)) < 6" by (simp add: choice_def intent_of_def)
qed (simp_all add: choice_acyclic same_shape_def)

lemma orphan_reported:
  assumes "filter (\<lambda>e. e_to e = n) (edges_of g) = []" "entryNode g = m" "(n, nd) \<in> set (g_nodes g)" "n \<noteq> m"
  shows "ORPHANED_NODE n \<in> set (validateGraph g kinds)"
proof -
  have "ORPHANED_NODE n \<in> set (concat (map (\<lambda>(i, nd). guardE (i \<noteq> entryNode g \<and> filter (\<lambda>e. e_to e = i) (edges_of g) = [])
         (ORPHANED_NODE i)) (g_nodes g)))"
    unfolding set_concat set_map using assms by (intro UN_I [OF imageI [OF assms(3)]]) (simp add: guardE_def)
  then show ?thesis unfolding validateGraph_def set_append by blast
qed

definition clashing :: pipelineIntent where
  "clashing = intent_of [blank_step ''orders'' SkQuery [], blank_step ''orders_by'' SkQuery [],
     blank_step ''by_region'' SkTransform [''orders''], blank_step ''region'' SkTransform [''orders_by'']]"

text \<open>
  with underscores two dependencies can get the same edge id: then the intent passes all checks, one of the edges is
  lost, and the step behind it is left without input.
\<close>

theorem edge_ids_clash:
  "validate_intent clashing = [] \<and> (''orders'', ''by_region'') \<in> step_flows clashing \<and>
   ORPHANED_NODE ''by_region'' \<in> set (validateGraph (fst (compile_intent cs clashing)) kinds)"
proof -
  have ok: "validate_intent clashing = []" and flow: "(''orders'', ''by_region'') \<in> step_flows clashing" by code_simp+
  have "list_all (\<lambda>(k, e). e_to e \<noteq> ''by_region'') (buildEdges clashing)" by code_simp
  then have "filter (\<lambda>e. e_to e = ''by_region'') (edges_of (fst (compile_intent cs clashing))) = []"
    using ok by (auto simp: compile_intent_def edges_of_def built_graph_facts list_all_iff filter_empty_conv)
  moreover have "entryNode (fst (compile_intent cs clashing)) = ''_input''" using ok by (simp add: compile_intent_def built_graph_facts)
  moreover have "(''by_region'', buildStepNode cs (blank_step ''by_region'' SkTransform [''orders''])) \<in>
      set (g_nodes (fst (compile_intent cs clashing)))"
    using ok by (simp add: compile_intent_def built_graph_facts buildNodes_def clashing_def intent_of_def blank_step_def)
  ultimately have "ORPHANED_NODE ''by_region'' \<in> set (validateGraph (fst (compile_intent cs clashing)) kinds)"
    by (rule orphan_reported) simp
  with ok flow show ?thesis by blast
qed

end
