(* ===== verification/Operators.thy ===== *)
theory Operators
  imports Evaluator
begin

text \<open>
  \<open>src/src/executors/physical-operator.ts\<close> and the streaming operators of
  \<open>executors/operators/\<close>: scan, filter, limit and project.

  An operator is a record of its methods over a private state \<open>'s\<close>; an operator that has
  an input carries the state of the input in its own.  A method gets the state and the trace
  all operators share, and returns \<open>None\<close> when it does not terminate, otherwise its result
  (a value or a thrown error) with the new state and trace.  \<open>row_source\<close> is the contract
  between an operator and its consumer.
\<close>

section \<open>The batch protocol\<close>

datatype opState = SIdle | SOpen | SExhausted | SClosed | SError

record batch =
  b_rows :: "row list"
  b_schema :: rowSchema

type_synonym ('a, 's) io = "'s \<times> trace \<Rightarrow> ('a res \<times> 's \<times> trace) option"

record 's operator =
  op_open :: "execContext \<Rightarrow> (unit, 's) io"
  op_next :: "nat \<Rightarrow> (batch, 's) io"
  op_close :: "(unit, 's) io"
  op_state :: "'s \<Rightarrow> opState"

record 'i phys =
  ph_state :: opState
  ph_ctx :: "execContext option"
  ph_self :: 'i

definition new_phys :: "'i \<Rightarrow> 'i phys" where
  "new_phys i = \<lparr>ph_state = SIdle, ph_ctx = None, ph_self = i\<rparr>"

definition state_name :: "opState \<Rightarrow> string" where
  "state_name s = (case s of SIdle \<Rightarrow> ''idle'' | SOpen \<Rightarrow> ''open'' | SExhausted \<Rightarrow> ''exhausted''
     | SClosed \<Rightarrow> ''closed'' | SError \<Rightarrow> ''error'')"

text \<open>A method of the input, run from the state that holds the input.\<close>

definition zoom :: "('o \<Rightarrow> 's) \<Rightarrow> ('s \<Rightarrow> 'o \<Rightarrow> 'o) \<Rightarrow> ('a, 's) io \<Rightarrow> ('a, 'o) io" where
  "zoom get put m = (\<lambda>(s, t). Option.bind (m (get s, t)) (\<lambda>(r, i, t'). Some (r, put i s, t')))"

definition rows_event :: "string \<Rightarrow> traceKind \<Rightarrow> nat option \<Rightarrow> nat option \<Rightarrow> traceEv" where
  "rows_event k tk i out = (mk_event k tk)\<lparr>te_rowsIn := i, te_rowsOut := out\<rparr>"

definition error_event :: "string \<Rightarrow> js_error \<Rightarrow> traceEv" where
  "error_event k e = (rows_event k TkError (Some 0) (Some 0))\<lparr>te_error := Some (error_message e)\<rparr>"

definition base_open :: "string \<Rightarrow> (execContext \<Rightarrow> (unit, 'i) io) \<Rightarrow> execContext \<Rightarrow> (unit, 'i phys) io" where
  "base_open kind doOpen c = (\<lambda>(p, t).
     if ph_state p \<noteq> SIdle
     then Some (Inl (PlainError (''Cannot open operator in state '' @ quoted (state_name (ph_state p)))), p, t)
     else Option.bind (doOpen c (ph_self p, t)) (\<lambda>(r, i, t'). case r of
         Inr _ \<Rightarrow> Some (Inr (), p\<lparr>ph_state := SOpen, ph_ctx := Some c, ph_self := i\<rparr>,
           traceEvent t' (rows_event kind TkStart (Some 0) (Some 0)))
       | Inl e \<Rightarrow> Some (Inl e, p\<lparr>ph_state := SError, ph_ctx := Some c, ph_self := i\<rparr>,
           traceEvent t' (error_event kind e))))"

definition ctx_trace_event :: "'i phys \<Rightarrow> trace \<Rightarrow> traceEv \<Rightarrow> trace" where
  "ctx_trace_event p t e = (if ph_ctx p = None then t else traceEvent t e)"

definition base_next :: "string \<Rightarrow> (nat \<Rightarrow> (batch, 'i) io) \<Rightarrow> nat \<Rightarrow> (batch, 'i phys) io" where
  "base_next kind doNext n = (\<lambda>(p, t).
     if ph_state p \<noteq> SOpen
     then Some (Inl (PlainError (''Cannot get next batch from operator in state '' @
            quoted (state_name (ph_state p)))), p, t)
     else Option.bind (doNext n (ph_self p, t)) (\<lambda>(r, i, t'). case r of
         Inr b \<Rightarrow> if b_rows b = []
           then Some (Inr b, p\<lparr>ph_state := SExhausted, ph_self := i\<rparr>,
                  ctx_trace_event p t' (rows_event kind TkComplete None (Some 0)))
           else Some (Inr b, p\<lparr>ph_self := i\<rparr>,
                  ctx_trace_event p t' (rows_event kind TkBatch None (Some (length (b_rows b)))))
       | Inl e \<Rightarrow> Some (Inl e, p\<lparr>ph_state := SError, ph_self := i\<rparr>, ctx_trace_event p t' (error_event kind e))))"

definition base_close :: "string \<Rightarrow> (unit, 'i) io \<Rightarrow> (unit, 'i phys) io" where
  "base_close kind doClose = (\<lambda>(p, t).
     if ph_state p = SClosed then Some (Inr (), p, t)
     else Option.bind (doClose (ph_self p, t)) (\<lambda>(r, i, t'). case r of
         Inr _ \<Rightarrow> Some (Inr (), p\<lparr>ph_state := SClosed, ph_ctx := None, ph_self := i\<rparr>,
           ctx_trace_event p t' (mk_event kind TkComplete))
       | Inl e \<Rightarrow> Some (Inl e, p\<lparr>ph_state := SError, ph_ctx := None, ph_self := i\<rparr>,
           ctx_trace_event p t' (error_event kind e))))"

definition base_operator :: "string \<Rightarrow> (execContext \<Rightarrow> (unit, 'i) io) \<Rightarrow> (nat \<Rightarrow> (batch, 'i) io) \<Rightarrow>
    (unit, 'i) io \<Rightarrow> 'i phys operator" where
  "base_operator kind doOpen doNext doClose = \<lparr>op_open = base_open kind doOpen,
     op_next = base_next kind doNext, op_close = base_close kind doClose, op_state = ph_state\<rparr>"

text \<open>
  \<open>collectAll\<close>: the loop, then the \<open>finally\<close> that closes the operator whatever
  happened; an error of \<open>close\<close> replaces the one before it.
\<close>

partial_function (option) collect_loop ::
    "'s operator \<Rightarrow> int \<Rightarrow> nat \<Rightarrow> row list \<Rightarrow> rowSchema option \<Rightarrow> 's \<times> trace \<Rightarrow> (batch res \<times> 's \<times> trace) option" where
  "collect_loop op maxRows n rows schema st =
     (let finished = \<lparr>b_rows = rows, b_schema = (case schema of Some s \<Rightarrow> s | None \<Rightarrow> [])\<rparr> in
      if op_state op (fst st) \<noteq> SOpen then Some (Inr finished, st)
      else Option.bind (op_next op n st) (\<lambda>(r, st'). case r of
          Inl e \<Rightarrow> Some (Inl e, st')
        | Inr b \<Rightarrow> if b_rows b = [] then Some (Inr finished, st')
            else let total = int (length rows) + int (length (b_rows b)) in
              if total > maxRows then Some (Inl (BudgetExceededError (''maxRowsPerNode exceeded: '' @
                int_string total @ '' > '' @ int_string maxRows)), st')
              else collect_loop op maxRows n (rows @ b_rows b) (Some (b_schema b)) st'))"

definition collectAll :: "'s operator \<Rightarrow> execContext \<Rightarrow> nat \<Rightarrow> (batch, 's) io" where
  "collectAll op c n st = Option.bind (op_open op c st) (\<lambda>(r, st1). case r of
       Inl e \<Rightarrow> Some (Inl e, st1)
     | Inr _ \<Rightarrow> Option.bind (collect_loop op (maxRowsPerNode (budget c)) n [] None st1) (\<lambda>(r, st2).
         Option.bind (op_close op st2) (\<lambda>(cr, st3). case cr of
             Inl e \<Rightarrow> Some (Inl e, st3)
           | Inr _ \<Rightarrow> Some (r, st3))))"

section \<open>Scan\<close>

record scanRequest =
  sr_table :: string
  sr_predicate :: "exprAST option"
  sr_columns :: "string list option"
  sr_batchSize :: nat

text \<open>What a backend delivers for a request: the batches in order, each possibly an error.\<close>

type_synonym backend = "scanRequest \<Rightarrow> batch res list"

record scanOptions =
  so_table :: string
  so_alias :: string
  so_schema :: rowSchema
  so_predicate :: "exprAST option"
  so_columns :: "string list option"
  so_batchSize :: nat
  so_backend :: backend

type_synonym scanState = "batch res list option"

definition scan_doOpen :: "scanOptions \<Rightarrow> execContext \<Rightarrow> (unit, scanState) io" where
  "scan_doOpen opts c = (\<lambda>(s, t).
     if so_schema opts = []
     then Some (Inl (PlainError (''Schema for table '' @ quoted (so_table opts) @ '' is empty'')), s, t)
     else Some (Inr (), Some (so_backend opts \<lparr>sr_table = so_table opts, sr_predicate = so_predicate opts,
            sr_columns = so_columns opts, sr_batchSize = so_batchSize opts\<rparr>),
          traceEvent t (mk_event ''Scan'' TkStart)))"

definition alias_row :: "string \<Rightarrow> row \<Rightarrow> row" where
  "alias_row a r = row_assign (row_assign [] (map (\<lambda>(k, v). (a @ ''.'' @ k, v)) r)) r"

definition scan_doNext :: "scanOptions \<Rightarrow> nat \<Rightarrow> (batch, scanState) io" where
  "scan_doNext opts n = (\<lambda>(s, t). case s of
       None \<Rightarrow> Some (Inl (PlainError ''ScanOperator not opened''), s, t)
     | Some [] \<Rightarrow> Some (Inr \<lparr>b_rows = [], b_schema = so_schema opts\<rparr>, s, t)
     | Some (Inl e # _) \<Rightarrow> Some (Inl e, Some [], t)
     | Some (Inr b # bs) \<Rightarrow>
         Some (Inr \<lparr>b_rows = map (alias_row (so_alias opts)) (b_rows b), b_schema = b_schema b\<rparr>, Some bs, t))"

definition scan_doClose :: "(unit, scanState) io" where
  "scan_doClose = (\<lambda>(s, t). Some (Inr (), None, t))"

definition scanOperator :: "scanOptions \<Rightarrow> scanState phys operator" where
  "scanOperator opts = base_operator ''Scan'' (scan_doOpen opts) (scan_doNext opts) scan_doClose"

section \<open>Limit\<close>

record 's limitState =
  li_input :: 's
  li_rowsSeen :: int
  li_rowsEmitted :: int
  li_ctx :: "execContext option"
  li_schema :: "rowSchema option"

definition limit_doOpen :: "'s operator \<Rightarrow> execContext \<Rightarrow> (unit, 's limitState) io" where
  "limit_doOpen inp c st = Option.bind (zoom li_input (\<lambda>i s. s\<lparr>li_input := i\<rparr>) (op_open inp c) st) (\<lambda>(r, s, t).
     case r of Inl e \<Rightarrow> Some (Inl e, s, t) | Inr _ \<Rightarrow> Some (Inr (), s\<lparr>li_ctx := Some c\<rparr>, t))"

definition limit_start :: "int \<Rightarrow> int \<Rightarrow> int \<Rightarrow> int" where
  "limit_start offset seen len = (if seen < offset then min (offset - seen) len else 0)"

text \<open>What the loop takes of one input batch, and the counters after it.\<close>

definition limit_batch :: "int \<Rightarrow> int \<Rightarrow> batch \<Rightarrow> 's limitState \<Rightarrow> row list \<times> 's limitState" where
  "limit_batch limit offset b s = (let len = int (length (b_rows b));
       start = limit_start offset (li_rowsSeen s) len;
       toTake = min (len - start) (limit - li_rowsEmitted s);
       s' = s\<lparr>li_schema := Some (case li_schema s of None \<Rightarrow> b_schema b | Some sc \<Rightarrow> sc),
              li_rowsSeen := li_rowsSeen s + start\<rparr>
     in if 0 < toTake
        then (take (nat toTake) (drop (nat start) (b_rows b)),
              s'\<lparr>li_rowsEmitted := li_rowsEmitted s' + toTake, li_rowsSeen := li_rowsSeen s' + toTake\<rparr>)
        else ([], s'))"

partial_function (option) limit_loop ::
    "'s operator \<Rightarrow> int \<Rightarrow> int \<Rightarrow> nat \<Rightarrow> row list \<Rightarrow> 's limitState \<times> trace \<Rightarrow>
     (row list res \<times> 's limitState \<times> trace) option" where
  "limit_loop inp limit offset n out st =
     (if \<not> li_rowsEmitted (fst st) < limit then Some (Inr out, st)
      else if op_state inp (li_input (fst st)) \<noteq> SOpen then Some (Inr out, st)
      else Option.bind (zoom li_input (\<lambda>i s. s\<lparr>li_input := i\<rparr>) (op_next inp n) st) (\<lambda>(r, s, t). case r of
          Inl e \<Rightarrow> Some (Inl e, s, t)
        | Inr b \<Rightarrow> if b_rows b = [] then Some (Inr out, s, t)
            else let (rows, s') = limit_batch limit offset b s
              in if li_rowsEmitted s' \<ge> limit then Some (Inr (out @ rows), s', t)
                 else limit_loop inp limit offset n (out @ rows) (s', t)))"

definition limit_doNext :: "'s operator \<Rightarrow> int \<Rightarrow> int \<Rightarrow> nat \<Rightarrow> (batch, 's limitState) io" where
  "limit_doNext inp limit offset n st =
     (if li_ctx (fst st) = None then Some (Inl (PlainError ''LimitOperator not opened''), st)
      else Option.bind (limit_loop inp limit offset n [] st) (\<lambda>(r, s, t).
        Some (mapRes (\<lambda>rows. \<lparr>b_rows = rows, b_schema = (case li_schema s of None \<Rightarrow> [] | Some sc \<Rightarrow> sc)\<rparr>) r, s, t)))"

definition limit_doClose :: "'s operator \<Rightarrow> (unit, 's limitState) io" where
  "limit_doClose inp = zoom li_input (\<lambda>i s. s\<lparr>li_input := i\<rparr>) (op_close inp)"

definition limitOperator :: "'s operator \<Rightarrow> int \<Rightarrow> int \<Rightarrow> 's limitState phys operator" where
  "limitOperator inp limit offset = base_operator ''Limit'' (limit_doOpen inp) (limit_doNext inp limit offset)
     (limit_doClose inp)"

definition new_limit :: "'s \<Rightarrow> 's limitState phys" where
  "new_limit i = new_phys \<lparr>li_input = i, li_rowsSeen = 0, li_rowsEmitted = 0, li_ctx = None, li_schema = None\<rparr>"

section \<open>Project\<close>

record projectionSpec =
  ps_expr :: exprAST
  ps_alias :: string

record 's projectState =
  pj_input :: 's
  pj_ctx :: "execContext option"
  pj_schema :: "rowSchema option"

definition project_schema :: "fnRegistry \<Rightarrow> projectionSpec list \<Rightarrow> scopeKind \<Rightarrow> rowSchema" where
  "project_schema reg specs k = map (\<lambda>sp. Column (ps_alias sp)
     (case inferType reg (ps_expr sp) [\<lparr>fr_kind = k, fr_bindings = []\<rparr>] of Inr ty \<Rightarrow> ty | Inl _ \<Rightarrow> TAny) True) specs"

definition ctx_kind :: "execContext \<Rightarrow> scopeKind" where
  "ctx_kind c = (case ctx_scope c of [] \<Rightarrow> SkGlobal | f # _ \<Rightarrow> fr_kind f)"

definition project_doOpen :: "fnRegistry \<Rightarrow> projectionSpec list \<Rightarrow> 's operator \<Rightarrow> execContext \<Rightarrow> (unit, 's projectState) io" where
  "project_doOpen reg specs inp c st = Option.bind (zoom pj_input (\<lambda>i s. s\<lparr>pj_input := i\<rparr>) (op_open inp c) st)
     (\<lambda>(r, s, t). case r of Inl e \<Rightarrow> Some (Inl e, s, t)
        | Inr _ \<Rightarrow> Some (Inr (), s\<lparr>pj_schema := Some (project_schema reg specs (ctx_kind c)), pj_ctx := Some c\<rparr>, t))"

text \<open>A projection that throws gives null.\<close>

definition project_row :: "host \<Rightarrow> fnRegistry \<Rightarrow> projectionSpec list \<Rightarrow> scope \<Rightarrow> row \<Rightarrow> row res" where
  "project_row h reg specs sc r = foldl (\<lambda>acc sp. bindR acc (\<lambda>out.
     mapRes (\<lambda>v. row_set (ps_alias sp) v out) (catchR (evaluate h reg (ps_expr sp) sc (Some r)) JNull))) (Inr []) specs"

definition project_doNext :: "host \<Rightarrow> fnRegistry \<Rightarrow> projectionSpec list \<Rightarrow> 's operator \<Rightarrow> nat \<Rightarrow> (batch, 's projectState) io" where
  "project_doNext h reg specs inp n st = (case (pj_ctx (fst st), pj_schema (fst st)) of
       (Some c, Some sch) \<Rightarrow>
         if op_state inp (pj_input (fst st)) \<noteq> SOpen then Some (Inr \<lparr>b_rows = [], b_schema = sch\<rparr>, st)
         else Option.bind (zoom pj_input (\<lambda>i s. s\<lparr>pj_input := i\<rparr>) (op_next inp n) st) (\<lambda>(r, st').
           Some (bindR r (\<lambda>b. mapRes (\<lambda>rows. \<lparr>b_rows = rows, b_schema = sch\<rparr>)
             (mapR (project_row h reg specs (ctx_scope c)) (b_rows b))), st'))
     | _ \<Rightarrow> Some (Inl (PlainError ''ProjectOperator not opened''), st))"

definition project_doClose :: "'s operator \<Rightarrow> (unit, 's projectState) io" where
  "project_doClose inp st = Option.bind (zoom pj_input (\<lambda>i s. s\<lparr>pj_input := i\<rparr>) (op_close inp) st) (\<lambda>(r, s, t).
     case r of Inl e \<Rightarrow> Some (Inl e, s, t) | Inr _ \<Rightarrow> Some (Inr (), s\<lparr>pj_ctx := None, pj_schema := None\<rparr>, t))"

definition projectOperator :: "host \<Rightarrow> fnRegistry \<Rightarrow> 's operator \<Rightarrow> projectionSpec list \<Rightarrow> 's projectState phys operator" where
  "projectOperator h reg inp specs = base_operator ''Project'' (project_doOpen reg specs inp)
     (project_doNext h reg specs inp) (project_doClose inp)"

definition new_project :: "'s \<Rightarrow> 's projectState phys" where
  "new_project i = new_phys \<lparr>pj_input = i, pj_ctx = None, pj_schema = None\<rparr>"

section \<open>Filter\<close>

record 's filterState =
  fi_input :: 's
  fi_ctx :: "execContext option"
  fi_batch :: "row list"
  fi_exhausted :: bool
  fi_schema :: "rowSchema option"

definition filter_reset :: "'s filterState \<Rightarrow> 's filterState" where
  "filter_reset s = s\<lparr>fi_batch := [], fi_exhausted := False, fi_schema := None\<rparr>"

definition filter_doOpen :: "'s operator \<Rightarrow> execContext \<Rightarrow> (unit, 's filterState) io" where
  "filter_doOpen inp c st = Option.bind (zoom fi_input (\<lambda>i s. s\<lparr>fi_input := i\<rparr>) (op_open inp c) st) (\<lambda>(r, s, t).
     case r of Inl e \<Rightarrow> Some (Inl e, s, t) | Inr _ \<Rightarrow> Some (Inr (), (filter_reset s)\<lparr>fi_ctx := Some c\<rparr>, t))"

text \<open>A predicate that throws does not keep the row.\<close>

definition filter_test :: "host \<Rightarrow> fnRegistry \<Rightarrow> exprAST \<Rightarrow> scope \<Rightarrow> row \<Rightarrow> bool res" where
  "filter_test h reg pred sc r = catchR (mapRes (\<lambda>v. v = JBool True) (evaluate h reg pred sc (Some r))) False"

fun filter_rows :: "(row \<Rightarrow> bool res) \<Rightarrow> nat \<Rightarrow> row list \<Rightarrow> row list \<Rightarrow> row list res" where
  "filter_rows test n [] cur = Inr cur"
| "filter_rows test n (r # rs) cur = bindR (test r) (\<lambda>keep.
     if keep then (if length (cur @ [r]) \<ge> n then Inr (cur @ [r]) else filter_rows test n rs (cur @ [r]))
     else filter_rows test n rs cur)"

partial_function (option) filter_loop ::
    "'s operator \<Rightarrow> (row \<Rightarrow> bool res) \<Rightarrow> nat \<Rightarrow> 's filterState \<times> trace \<Rightarrow> (unit res \<times> 's filterState \<times> trace) option" where
  "filter_loop inp test n st =
     (if \<not> (length (fi_batch (fst st)) < n \<and> \<not> fi_exhausted (fst st)) then Some (Inr (), st)
      else if op_state inp (fi_input (fst st)) \<noteq> SOpen
        then Some (Inr (), (fst st)\<lparr>fi_exhausted := True\<rparr>, snd st)
      else Option.bind (zoom fi_input (\<lambda>i s. s\<lparr>fi_input := i\<rparr>) (op_next inp n) st) (\<lambda>(r, s, t). case r of
          Inl e \<Rightarrow> Some (Inl e, s, t)
        | Inr b \<Rightarrow> if b_rows b = [] then Some (Inr (), s\<lparr>fi_exhausted := True\<rparr>, t)
            else let s' = s\<lparr>fi_schema := Some (case fi_schema s of None \<Rightarrow> b_schema b | Some sc \<Rightarrow> sc)\<rparr>
              in case filter_rows test n (b_rows b) (fi_batch s') of
                Inl e \<Rightarrow> Some (Inl e, s', t)
              | Inr cur \<Rightarrow> let s'' = s'\<lparr>fi_batch := cur\<rparr> in
                  if length cur \<ge> n then Some (Inr (), s'', t) else filter_loop inp test n (s'', t)))"

definition filter_doNext :: "host \<Rightarrow> fnRegistry \<Rightarrow> exprAST \<Rightarrow> 's operator \<Rightarrow> nat \<Rightarrow> (batch, 's filterState) io" where
  "filter_doNext h reg pred inp n st = (case fi_ctx (fst st) of
       None \<Rightarrow> Some (Inl (PlainError ''FilterOperator not opened''), st)
     | Some c \<Rightarrow> Option.bind (filter_loop inp (filter_test h reg pred (ctx_scope c)) n st) (\<lambda>(r, s, t).
         case r of Inl e \<Rightarrow> Some (Inl e, s, t)
         | Inr _ \<Rightarrow> Some (Inr \<lparr>b_rows = take n (fi_batch s), b_schema = (case fi_schema s of None \<Rightarrow> [] | Some sc \<Rightarrow> sc)\<rparr>,
             s\<lparr>fi_batch := drop n (fi_batch s)\<rparr>, t)))"

definition filter_doClose :: "'s operator \<Rightarrow> (unit, 's filterState) io" where
  "filter_doClose inp st = Option.bind (zoom fi_input (\<lambda>i s. s\<lparr>fi_input := i\<rparr>) (op_close inp) st) (\<lambda>(r, s, t).
     case r of Inl e \<Rightarrow> Some (Inl e, s, t) | Inr _ \<Rightarrow> Some (Inr (), (filter_reset s)\<lparr>fi_ctx := None\<rparr>, t))"

definition filterOperator :: "host \<Rightarrow> fnRegistry \<Rightarrow> 's operator \<Rightarrow> exprAST \<Rightarrow> 's filterState phys operator" where
  "filterOperator h reg inp pred = base_operator ''Filter'' (filter_doOpen inp) (filter_doNext h reg pred inp)
     (filter_doClose inp)"

definition new_filter :: "'s \<Rightarrow> 's filterState phys" where
  "new_filter i = new_phys \<lparr>fi_input = i, fi_ctx = None, fi_batch = [], fi_exhausted = False, fi_schema = None\<rparr>"

section \<open>The contract of an input\<close>

text \<open>
  \<open>rows s\<close> are the rows an operator in state \<open>s\<close> still delivers.  A batch takes them
  from the front; the batch is empty exactly when none are left, and then the operator is no
  longer open.
\<close>

definition passes :: "host \<Rightarrow> fnRegistry \<Rightarrow> exprAST \<Rightarrow> execContext \<Rightarrow> row \<Rightarrow> bool" where
  "passes h reg pred c r \<longleftrightarrow> evaluate h reg pred (ctx_scope c) (Some r) = Inr (JBool True)"

definition modelled_on :: "host \<Rightarrow> fnRegistry \<Rightarrow> exprAST \<Rightarrow> execContext \<Rightarrow> row list \<Rightarrow> bool" where
  "modelled_on h reg e c rs \<longleftrightarrow> list_all (\<lambda>r. \<not> unmodelled (evaluate h reg e (ctx_scope c) (Some r))) rs"

lemma filter_test_passes:
  "\<not> unmodelled (evaluate h reg pred (ctx_scope c) (Some r)) \<Longrightarrow>
     filter_test h reg pred (ctx_scope c) r = Inr (passes h reg pred c r)"
  by (cases "evaluate h reg pred (ctx_scope c) (Some r)" rule: sum.exhaust; 
      cases "projl (evaluate h reg pred (ctx_scope c) (Some r))")
    (auto simp: filter_test_def passes_def catchR_def)

lemma bind_weak_cong: "m = m' \<Longrightarrow> Option.bind m f = Option.bind m' f"
  by simp

definition opens_to :: "'s operator \<Rightarrow> ('s \<Rightarrow> bool) \<Rightarrow> ('s \<Rightarrow> row list) \<Rightarrow> 's \<Rightarrow> execContext \<Rightarrow> row list \<Rightarrow> bool" where
  "opens_to op valid rows s c rs \<longleftrightarrow> (\<forall>t. \<exists>s' t'. op_open op c (s, t) = Some (Inr (), s', t') \<and> valid s' \<and>
     op_state op s' = SOpen \<and> rows s' = rs)"

locale row_source =
  fixes op :: "'s operator" and valid :: "'s \<Rightarrow> bool" and rows :: "'s \<Rightarrow> row list"
  assumes next_batch: "valid s \<Longrightarrow> op_state op s = SOpen \<Longrightarrow> 0 < n \<Longrightarrow>
      \<exists>b s' t'. op_next op n (s, t) = Some (Inr b, s', t') \<and> valid s' \<and> rows s = b_rows b @ rows s' \<and>
        (if b_rows b = [] then op_state op s' \<noteq> SOpen \<and> rows s' = [] else op_state op s' = SOpen)"
    and close: "valid s \<Longrightarrow> \<exists>s' t'. op_close op (s, t) = Some (Inr (), s', t') \<and> op_state op s' = SClosed"
    and close_again: "op_state op s = SClosed \<Longrightarrow> op_close op (s, t) = Some (Inr (), s, t)"
begin

lemma collect_loop_delivers:
  assumes "valid s" and "op_state op s = SOpen \<or> rows s = []" and "0 < n"
  shows "\<exists>r s' t'. collect_loop op m n acc sc (s, t) = Some (r, s', t') \<and> valid s' \<and>
    (if int (length (acc @ rows s)) \<le> m \<or> rows s = [] then \<exists>sc'. r = Inr \<lparr>b_rows = acc @ rows s, b_schema = sc'\<rparr>
     else \<exists>msg. r = Inl (BudgetExceededError msg))"
  using assms
proof (induction "length (rows s)" arbitrary: s t acc sc rule: less_induct)
  case less
  show ?case
  proof (cases "op_state op s = SOpen")
    case False
    with less show ?thesis by (subst collect_loop.simps) (auto simp: Let_def)
  next
    case True
    from next_batch [OF less(2) True less(4)] obtain b s' t' where
      nb: "op_next op n (s, t) = Some (Inr b, s', t')" "valid s'" "rows s = b_rows b @ rows s'"
        "if b_rows b = [] then op_state op s' \<noteq> SOpen \<and> rows s' = [] else op_state op s' = SOpen" by blast
    consider "b_rows b = []" | "b_rows b \<noteq> []" "int (length acc) + int (length (b_rows b)) > m"
      | "b_rows b \<noteq> []" "int (length acc) + int (length (b_rows b)) \<le> m" by linarith
    then show ?thesis
    proof cases
      case 3
      with nb have "length (rows s') < length (rows s)" "op_state op s' = SOpen" by auto
      from less(1) [OF this(1) nb(2) disjI1 [OF this(2)] less(4), of "acc @ b_rows b" "Some (b_schema b)" t']
        nb 3 True show ?thesis by (subst collect_loop.simps) (auto simp: Let_def split: if_splits)
    qed (use nb True in \<open>subst collect_loop.simps; auto simp: Let_def\<close>)+
  qed
qed

lemma collectAll_delivers:
  assumes "opens_to op valid rows s c rs" "0 < n"
  shows "\<exists>r s' t'. collectAll op c n (s, t) = Some (r, s', t') \<and> op_state op s' = SClosed \<and>
    (if int (length rs) \<le> maxRowsPerNode (budget c) \<or> rs = [] then \<exists>sc. r = Inr \<lparr>b_rows = rs, b_schema = sc\<rparr>
     else \<exists>msg. r = Inl (BudgetExceededError msg))"
proof -
  obtain s1 t1 where o: "op_open op c (s, t) = Some (Inr (), s1, t1)" "valid s1" "op_state op s1 = SOpen" "rows s1 = rs"
    using assms(1) unfolding opens_to_def by blast
  obtain r s2 t2 where l: "collect_loop op (maxRowsPerNode (budget c)) n [] None (s1, t1) = Some (r, s2, t2)" "valid s2"
    "if int (length rs) \<le> maxRowsPerNode (budget c) \<or> rs = [] then \<exists>sc'. r = Inr \<lparr>b_rows = rs, b_schema = sc'\<rparr>
     else \<exists>msg. r = Inl (BudgetExceededError msg)"
    using collect_loop_delivers [OF o(2) disjI1 [OF o(3)] assms(2),
        of "maxRowsPerNode (budget c)" "[]" None t1] unfolding append_Nil o(4) by blast
  obtain s3 t3 where c: "op_close op (s2, t2) = Some (Inr (), s3, t3)" "op_state op s3 = SClosed"
    using close [OF l(2)] by blast
  have "collectAll op c n (s, t) = Some (r, s3, t3)" by (simp add: collectAll_def o(1) l(1) c(1))
  with l(3) c(2) show ?thesis by blast
qed

definition limit_rest :: "int \<Rightarrow> int \<Rightarrow> 's limitState \<Rightarrow> row list" where
  "limit_rest limit offset s = take (nat (limit - li_rowsEmitted s))
     (drop (nat (offset - li_rowsSeen s)) (rows (li_input s)))"

definition input_ok :: "'s \<Rightarrow> bool" where
  "input_ok i \<longleftrightarrow> valid i \<and> (op_state op i = SOpen \<or> rows i = [])"

lemma limit_batch_rest:
  assumes l: "li_rowsEmitted s < limit" and ne: "b_rows b \<noteq> []"
  shows "take (nat (limit - li_rowsEmitted s)) (drop (nat (offset - li_rowsSeen s)) (b_rows b @ rest)) =
    fst (limit_batch limit offset b s) @
    take (nat (limit - li_rowsEmitted (snd (limit_batch limit offset b s))))
      (drop (nat (offset - li_rowsSeen (snd (limit_batch limit offset b s)))) rest)"
proof -
  let ?len = "length (b_rows b)"
  define d where "d = offset - li_rowsSeen s"
  show ?thesis
  proof (cases "int ?len \<le> d")
    case True
    then have "limit_start offset (li_rowsSeen s) (int ?len) = int ?len"
      by (cases "b_rows b") (auto simp: limit_start_def d_def)
    moreover have "nat (offset - li_rowsSeen s) - ?len = nat (offset - (li_rowsSeen s + int ?len))" by arith
    ultimately show ?thesis using True l by (simp add: limit_batch_def Let_def d_def)
  next
    case False
    define m L where "m = nat d" and "L = nat (limit - li_rowsEmitted s)"
    have m: "limit_start offset (li_rowsSeen s) (int ?len) = int m" "m < ?len"
      using False ne by (cases "0 < d"; auto simp: limit_start_def d_def m_def)+
    have L: "limit - li_rowsEmitted s = int L" "0 < L" using l by (auto simp: L_def)
    have k: "min (int ?len - int m) (limit - li_rowsEmitted s) = int (min (?len - m) L)"
      using m(2) L(1) by auto
    have seen: "nat (offset - (li_rowsSeen s + int m + int (min (?len - m) L))) = 0"
      by (auto simp: m_def d_def)
    have emitted: "nat (limit - (li_rowsEmitted s + int (min (?len - m) L))) = L - min (?len - m) L"
      using L(1) by linarith
    have "limit_batch limit offset b s = (take (min (?len - m) L) (drop m (b_rows b)),
        snd (limit_batch limit offset b s))"
      "nat (limit - li_rowsEmitted (snd (limit_batch limit offset b s))) = L - min (?len - m) L"
      "nat (offset - li_rowsSeen (snd (limit_batch limit offset b s))) = 0"
      using m L(2) l emitted seen by (simp_all add: limit_batch_def Let_def k)
    moreover have "nat (offset - li_rowsSeen s) = m" by (simp add: m_def d_def)
    moreover have "take L (drop m (b_rows b @ rest)) = take (min (?len - m) L) (drop m (b_rows b)) @
        take (L - min (?len - m) L) rest"
      using m(2) by (cases "L \<le> ?len - m") auto
    ultimately show ?thesis unfolding L_def [symmetric] by (metis drop0 fst_conv)
  qed
qed

lemma limit_batch_same [simp]:
  "li_input (snd (limit_batch limit offset b s)) = li_input s"
  "li_ctx (snd (limit_batch limit offset b s)) = li_ctx s"
  by (simp_all add: limit_batch_def Let_def)

lemma limit_loop_delivers:
  assumes "input_ok (li_input s)" and "0 < n"
  shows "\<exists>s' t'. limit_loop op limit offset n out (s, t) = Some (Inr (out @ limit_rest limit offset s), s', t') \<and>
    li_ctx s' = li_ctx s \<and> input_ok (li_input s') \<and> limit_rest limit offset s' = []"
  using assms(1)
proof (induction "length (rows (li_input s))" arbitrary: s t out rule: less_induct)
  case less
  let ?i = "li_input s" and ?l = "limit - li_rowsEmitted s"
  consider "?l \<le> 0" | "0 < ?l" "op_state op ?i \<noteq> SOpen" | "0 < ?l" "op_state op ?i = SOpen" by linarith
  then show ?case
  proof cases
    case 1
    with less(2) show ?thesis by (subst limit_loop.simps) (simp add: limit_rest_def)
  next
    case 2
    with less(2) show ?thesis by (subst limit_loop.simps) (simp add: limit_rest_def input_ok_def)
  next
    case 3
    from next_batch [OF _ 3(2) assms(2)] less(2) obtain b i' t' where
      nb: "op_next op n (?i, t) = Some (Inr b, i', t')" "valid i'" "rows ?i = b_rows b @ rows i'"
        "if b_rows b = [] then op_state op i' \<noteq> SOpen \<and> rows i' = [] else op_state op i' = SOpen"
      unfolding input_ok_def by blast
    show ?thesis
    proof (cases "b_rows b = []")
      case True
      with nb 3 show ?thesis
        by (subst limit_loop.simps) (simp add: limit_rest_def input_ok_def zoom_def)
    next
      case False
      obtain chunk s1 where s1: "limit_batch limit offset b (s\<lparr>li_input := i'\<rparr>) = (chunk, s1)" by force
      have rest: "limit_rest limit offset s = chunk @ limit_rest limit offset s1"
        using limit_batch_rest [of "s\<lparr>li_input := i'\<rparr>" limit b offset "rows i'"] 3(1) False s1 nb(3)
          limit_batch_same(1) [of limit offset b "s\<lparr>li_input := i'\<rparr>"]
        by (simp add: limit_rest_def)
      have step: "limit_loop op limit offset n out (s, t) = (if li_rowsEmitted s1 \<ge> limit
          then Some (Inr (out @ chunk), s1, t') else limit_loop op limit offset n (out @ chunk) (s1, t'))"
        using nb(1) False 3 s1 by (subst limit_loop.simps) (simp add: zoom_def)
      have s1': "li_input s1 = i'" "li_ctx s1 = li_ctx s"
        using limit_batch_same [of limit offset b "s\<lparr>li_input := i'\<rparr>"] s1 by simp_all
      have ok1: "input_ok (li_input s1)" using nb(2,4) False by (simp add: s1' input_ok_def)
      show ?thesis
      proof (cases "li_rowsEmitted s1 \<ge> limit")
        case True
        then have "limit_rest limit offset s1 = []" by (simp add: limit_rest_def)
        with step True ok1 rest show ?thesis by (simp add: s1')
      next
        case False
        have "length (rows (li_input s1)) < length (rows ?i)" using nb(3) \<open>b_rows b \<noteq> []\<close> by (simp add: s1')
        from less(1) [OF this ok1, of "out @ chunk" t'] False step rest show ?thesis
          by (auto simp: s1')
      qed
    qed
  qed
qed

definition limit_valid :: "'s limitState phys \<Rightarrow> bool" where
  "limit_valid p \<longleftrightarrow> li_ctx (ph_self p) \<noteq> None \<and> input_ok (li_input (ph_self p))"

lemma limit_row_source:
  "row_source (limitOperator op limit offset) limit_valid (\<lambda>p. limit_rest limit offset (ph_self p))"
proof unfold_locales
  fix p :: "'s limitState phys" and n :: nat and t
  assume v: "limit_valid p" and o: "op_state (limitOperator op limit offset) p = SOpen" and n: "0 < n"
  from v obtain s' t' where l:
    "limit_loop op limit offset n [] (ph_self p, t) = Some (Inr (limit_rest limit offset (ph_self p)), s', t')"
    "li_ctx s' = li_ctx (ph_self p)" "input_ok (li_input s')" "limit_rest limit offset s' = []"
    using limit_loop_delivers [OF _ n, of "ph_self p" limit offset "[]" t] by (auto simp: limit_valid_def)
  then show "\<exists>b s' t'. op_next (limitOperator op limit offset) n (p, t) = Some (Inr b, s', t') \<and> limit_valid s' \<and>
      limit_rest limit offset (ph_self p) = b_rows b @ limit_rest limit offset (ph_self s') \<and>
      (if b_rows b = [] then op_state (limitOperator op limit offset) s' \<noteq> SOpen \<and> limit_rest limit offset (ph_self s') = []
       else op_state (limitOperator op limit offset) s' = SOpen)"
    using v o by (auto simp: limitOperator_def base_operator_def base_next_def limit_doNext_def limit_valid_def)
next
  fix p :: "'s limitState phys" and t
  assume "limit_valid p"
  then have "valid (li_input (ph_self p))" by (simp add: limit_valid_def input_ok_def)
  from close [OF this] obtain i' t' where "op_close op (li_input (ph_self p), t) = Some (Inr (), i', t')"
    by blast
  then show "\<exists>s' t'. op_close (limitOperator op limit offset) (p, t) = Some (Inr (), s', t') \<and>
      op_state (limitOperator op limit offset) s' = SClosed"
    by (auto simp: limitOperator_def base_operator_def base_close_def limit_doClose_def zoom_def)
qed (simp add: limitOperator_def base_operator_def base_close_def)

lemma limit_opens:
  assumes "opens_to op valid rows i c rs"
  shows "opens_to (limitOperator op limit offset) limit_valid
    (\<lambda>p. limit_rest limit offset (ph_self p)) (new_limit i) c (take (nat limit) (drop (nat offset) rs))"
  unfolding opens_to_def
proof
  fix t
  obtain s' t' where "op_open op c (i, t) = Some (Inr (), s', t')" "valid s'" "op_state op s' = SOpen" "rows s' = rs"
    using assms unfolding opens_to_def by blast
  then show "\<exists>s' t'. op_open (limitOperator op limit offset) c (new_limit i, t) = Some (Inr (), s', t') \<and>
      limit_valid s' \<and> op_state (limitOperator op limit offset) s' = SOpen \<and>
      limit_rest limit offset (ph_self s') = take (nat limit) (drop (nat offset) rs)"
    by (simp add: limitOperator_def base_operator_def base_open_def new_limit_def new_phys_def
        limit_doOpen_def zoom_def limit_valid_def limit_rest_def input_ok_def)
qed


lemma filter_rows_keeps:
  assumes "\<And>r. r \<in> set rs \<Longrightarrow> test r = Inr (P r)" and "length cur < n"
  shows "filter_rows test n rs cur = Inr (cur @ take (n - length cur) (filter P rs))"
  using assms
proof (induction rs arbitrary: cur)
  case (Cons r rs)
  then have r: "test r = Inr (P r)" and n: "n - length cur = Suc (n - Suc (length cur))" by auto
  show ?case
  proof (cases "P r \<and> length cur + 1 < n")
    case True
    with Cons.IH [of "cur @ [r]"] Cons.prems r show ?thesis by (simp add: n)
  next
    case False
    with Cons.IH [of cur] Cons.prems r show ?thesis by (auto simp: n)
  qed
qed simp

definition filter_inv :: "'s filterState \<Rightarrow> bool" where
  "filter_inv s \<longleftrightarrow> input_ok (fi_input s) \<and> fi_ctx s \<noteq> None \<and> (fi_exhausted s \<longrightarrow> rows (fi_input s) = [])"

text \<open>One call takes the first rows that pass, up to the size asked for, and leaves a
  suffix of the input; what the last batch held behind them is gone.\<close>

lemma filter_loop_takes:
  assumes "filter_inv s" and "length (fi_batch s) < n"
    and "\<And>r. r \<in> set (rows (fi_input s)) \<Longrightarrow> test r = Inr (P r)"
  shows "\<exists>s' t' gone. filter_loop op test n (s, t) = Some (Inr (), s', t') \<and> filter_inv s' \<and> fi_ctx s' = fi_ctx s \<and>
    fi_batch s' = fi_batch s @ take (n - length (fi_batch s)) (filter P (rows (fi_input s))) \<and>
    rows (fi_input s) = gone @ rows (fi_input s') \<and>
    (\<exists>k. take (n - length (fi_batch s)) (filter P (rows (fi_input s))) = take k (filter P gone)) \<and>
    (length (fi_batch s') < n \<longrightarrow> rows (fi_input s') = [])"
  using assms
proof (induction "length (rows (fi_input s))" arbitrary: s t rule: less_induct)
  case less
  let ?i = "fi_input s" and ?m = "n - length (fi_batch s)"
  show ?case
  proof (cases "fi_exhausted s \<or> op_state op ?i \<noteq> SOpen")
    case True
    then have "rows ?i = []" using less(2) by (auto simp: filter_inv_def input_ok_def)
    with True less(2,3) show ?thesis by (subst filter_loop.simps) (auto simp: filter_inv_def)
  next
    case False
    have n: "0 < n" using less(3) by simp
    from next_batch [OF _ _ n] less(2) False obtain b i' t' where
      nb: "op_next op n (?i, t) = Some (Inr b, i', t')" "valid i'" "rows ?i = b_rows b @ rows i'"
        "if b_rows b = [] then op_state op i' \<noteq> SOpen \<and> rows i' = [] else op_state op i' = SOpen"
      unfolding filter_inv_def input_ok_def by blast
    show ?thesis
    proof (cases "b_rows b = []")
      case True
      with nb False less(2,3) show ?thesis
        by (subst filter_loop.simps) (auto simp: zoom_def filter_inv_def input_ok_def)
    next
      case ne: False
      define chunk where "chunk = take ?m (filter P (b_rows b))"
      define s1 where "s1 = s\<lparr>fi_input := i', fi_schema := Some (case fi_schema s of None \<Rightarrow> b_schema b | Some sc \<Rightarrow> sc),
        fi_batch := fi_batch s @ chunk\<rparr>"
      have "filter_rows test n (b_rows b) (fi_batch s) = Inr (fi_batch s @ chunk)"
        unfolding chunk_def using less(3,4) nb(3) by (intro filter_rows_keeps) auto
      with nb(1) ne False less(3) have step: "filter_loop op test n (s, t) =
          (if length (fi_batch s1) \<ge> n then Some (Inr (), s1, t') else filter_loop op test n (s1, t'))"
        by (subst filter_loop.simps) (simp add: zoom_def s1_def)
      have inv1: "filter_inv s1" using less(2) nb(2,4) ne False by (auto simp: s1_def filter_inv_def input_ok_def)
      show ?thesis
      proof (cases "length (fi_batch s1) \<ge> n")
        case True
        then have "?m \<le> length (filter P (b_rows b))" using less(3) by (simp add: s1_def chunk_def)
        then have "take ?m (filter P (rows ?i)) = chunk" by (simp add: nb(3) chunk_def)
        moreover have "length (fi_batch s1) < n \<longrightarrow> rows i' = []" using True by simp
        ultimately show ?thesis using step True inv1 nb(3)
          by (intro exI [of _ s1] exI [of _ t'] exI [of _ "b_rows b"]) (auto simp: s1_def chunk_def)
      next
        case more: False
        then have chunk: "chunk = filter P (b_rows b)" "length (filter P (b_rows b)) < ?m"
          using less(3) by (auto simp: s1_def chunk_def)
        have "length (rows (fi_input s1)) < length (rows ?i)" using nb(3) ne by (simp add: s1_def)
        moreover have "test r = Inr (P r)" if "r \<in> set (rows (fi_input s1))" for r
          using less(4) nb(3) that by (simp add: s1_def)
        ultimately obtain s' t'' gone where IH: "filter_loop op test n (s1, t') = Some (Inr (), s', t'')"
          "filter_inv s'" "fi_ctx s' = fi_ctx s1"
          "fi_batch s' = fi_batch s1 @ take (n - length (fi_batch s1)) (filter P (rows (fi_input s1)))"
          "rows (fi_input s1) = gone @ rows (fi_input s')"
          "\<exists>k. take (n - length (fi_batch s1)) (filter P (rows (fi_input s1))) = take k (filter P gone)"
          "length (fi_batch s') < n \<longrightarrow> rows (fi_input s') = []"
          using less(1) [of s1 t'] inv1 more by (meson not_le)
        have m: "n - length (fi_batch s1) = ?m - length (filter P (b_rows b))"
          using chunk by (simp add: s1_def)
        have all: "take ?m (filter P (rows ?i)) = chunk @ take (n - length (fi_batch s1)) (filter P (rows (fi_input s1)))"
          unfolding m using chunk by (simp add: nb(3) s1_def)
        obtain k where k: "take (n - length (fi_batch s1)) (filter P (rows (fi_input s1))) = take k (filter P gone)"
          using IH(6) by blast
        have "take ?m (filter P (rows ?i)) = take (length chunk + k) (filter P (b_rows b @ gone))"
          unfolding all k using chunk(1) by simp
        then have "\<exists>k. take ?m (filter P (rows ?i)) = take k (filter P (b_rows b @ gone))" by blast
        moreover have "fi_batch s' = fi_batch s @ take ?m (filter P (rows ?i))"
          unfolding all IH(4) by (simp add: s1_def)
        moreover have "rows ?i = (b_rows b @ gone) @ rows (fi_input s')"
          using nb(3) IH(5) by (simp add: s1_def)
        moreover have "filter_loop op test n (s, t) = Some (Inr (), s', t'')" using step more IH(1) by simp
        moreover have "fi_ctx s' = fi_ctx s" using IH(3) by (simp add: s1_def)
        ultimately show ?thesis using IH(2,7) by blast
      qed
    qed
  qed
qed

lemma filter_collects:
  assumes "ph_state p = SOpen" "filter_inv (ph_self p)" "fi_batch (ph_self p) = []" "fi_ctx (ph_self p) = Some c"
    and "modelled_on h reg pred c (rows (fi_input (ph_self p)))" and "0 < n"
    and "int (length acc + length (rows (fi_input (ph_self p)))) \<le> m"
  shows "\<exists>out sc' p' t'. collect_loop (filterOperator h reg op pred) m n acc sc (p, t)
      = Some (Inr \<lparr>b_rows = acc @ out, b_schema = sc'\<rparr>, p', t') \<and> filter_inv (ph_self p') \<and>
    subseq out (filter (passes h reg pred c) (rows (fi_input (ph_self p)))) \<and>
    (length (filter (passes h reg pred c) (rows (fi_input (ph_self p)))) \<le> n \<longrightarrow>
       out = filter (passes h reg pred c) (rows (fi_input (ph_self p))))"
  using assms
proof (induction "length (rows (fi_input (ph_self p)))" arbitrary: p t acc sc rule: less_induct)
  case less
  let ?P = "passes h reg pred c" and ?s = "ph_self p" and ?rs = "rows (fi_input (ph_self p))"
  have good: "filter_test h reg pred (ctx_scope c) r = Inr (?P r)" if "r \<in> set ?rs" for r
    using less(6) that by (intro filter_test_passes) (auto simp: modelled_on_def list_all_iff)
  have "length (fi_batch ?s) < n" using less(4,7) by simp
  from filter_loop_takes [where test = "filter_test h reg pred (ctx_scope c)" and P = ?P and t = t,
      OF less(3) this good] obtain s' t' gone k where
    l: "filter_loop op (filter_test h reg pred (ctx_scope c)) n (?s, t) = Some (Inr (), s', t')"
      "filter_inv s'" "fi_ctx s' = Some c" "fi_batch s' = take n (filter ?P ?rs)"
      "?rs = gone @ rows (fi_input s')" "take n (filter ?P ?rs) = take k (filter ?P gone)"
    unfolding less(4,5) list.size diff_zero append_Nil by blast
  let ?b = "\<lparr>b_rows = take n (filter ?P ?rs), b_schema = (case fi_schema s' of None \<Rightarrow> [] | Some sc \<Rightarrow> sc)\<rparr>"
  have next_eq: "filter_doNext h reg pred op n (?s, t) = Some (Inr ?b, s'\<lparr>fi_batch := []\<rparr>, t')"
    using l(1,4) less(5) by (simp add: filter_doNext_def)
  show ?case
  proof (cases "take n (filter ?P ?rs) = []")
    case True
    then have "filter ?P ?rs = []" using less(7) by simp
    then show ?thesis using next_eq less(2) True l(2)
      by (subst collect_loop.simps)
        (auto simp: Let_def filterOperator_def base_operator_def base_next_def filter_inv_def)
  next
    case False
    have tot: "\<not> int (length acc) + int (length (b_rows ?b)) > m"
    proof -
      have "length (b_rows ?b) \<le> length ?rs"
        using length_filter_le [of ?P ?rs] by (simp add: min.coboundedI1)
      with less(8) show ?thesis by linarith
    qed
    obtain p1 t1 where p1: "op_next (filterOperator h reg op pred) n (p, t) = Some (Inr ?b, p1, t1)"
      "ph_state p1 = SOpen" "ph_self p1 = s'\<lparr>fi_batch := []\<rparr>"
      using next_eq less(2) False by (simp add: filterOperator_def base_operator_def base_next_def)
    have gone: "gone \<noteq> []" using False l(6) by auto
    then have "length (rows (fi_input (ph_self p1))) < length ?rs" by (subst l(5)) (simp add: p1)
    moreover have "filter_inv (ph_self p1)" using l(2) by (simp add: p1 filter_inv_def)
    moreover have "modelled_on h reg pred c (rows (fi_input (ph_self p1)))"
      using less(6) unfolding modelled_on_def by (subst (asm) l(5)) (simp add: p1)
    moreover have "int (length (acc @ b_rows ?b) + length (rows (fi_input (ph_self p1)))) \<le> m"
    proof -
      have "length (take n (filter ?P ?rs)) \<le> length gone"
        unfolding l(6) using length_filter_le [of ?P gone] by (simp add: min.coboundedI1)
      moreover have "length ?rs = length gone + length (rows (fi_input (ph_self p1)))"
        by (subst l(5)) (simp add: p1)
      ultimately have "length (acc @ b_rows ?b) + length (rows (fi_input (ph_self p1))) \<le> length acc + length ?rs"
        by simp
      with less(8) show ?thesis by linarith
    qed
    ultimately obtain out sc' p' t'' where IH: "collect_loop (filterOperator h reg op pred) m n (acc @ b_rows ?b)
        (Some (b_schema ?b)) (p1, t1) = Some (Inr \<lparr>b_rows = (acc @ b_rows ?b) @ out, b_schema = sc'\<rparr>, p', t'')"
      "filter_inv (ph_self p')" "subseq out (filter ?P (rows (fi_input (ph_self p1))))"
      using less(1) [of p1 "acc @ b_rows ?b" "Some (b_schema ?b)" t1] p1 l(3) less(7) by auto
    have "collect_loop (filterOperator h reg op pred) m n acc sc (p, t)
        = Some (Inr \<lparr>b_rows = acc @ (b_rows ?b @ out), b_schema = sc'\<rparr>, p', t'')"
      using p1 less(2) False tot IH(1)
      by (subst collect_loop.simps) (simp add: Let_def filterOperator_def base_operator_def)
    moreover have rest: "filter ?P ?rs = filter ?P gone @ filter ?P (rows (fi_input (ph_self p1)))"
      by (subst l(5)) (simp add: p1)
    moreover have "subseq (b_rows ?b @ out) (filter ?P ?rs)"
    proof -
      have "subseq (b_rows ?b) (filter ?P gone)" unfolding batch.simps l(6) by (metis prefix_imp_subseq take_is_prefix)
      then show ?thesis unfolding rest using IH(3) list_emb_append_mono by blast
    qed
    moreover have "b_rows ?b @ out = filter ?P ?rs" if "length (filter ?P ?rs) \<le> n"
    proof -
      have all: "take n (filter ?P ?rs) = filter ?P ?rs" using that by simp
      then have "length (filter ?P ?rs) \<le> length (filter ?P gone)" using l(6) by (metis length_take min.cobounded1)
      then have "filter ?P (rows (fi_input (ph_self p1))) = []" unfolding rest by simp
      with IH(3) all show ?thesis by simp
    qed
    ultimately show ?thesis using IH(2) by blast
  qed
qed
lemma filter_opens:
  assumes "opens_to op valid rows i c rs"
  shows "\<exists>p' t'. op_open (filterOperator h reg op pred) c (new_filter i, t) = Some (Inr (), p', t') \<and>
    ph_state p' = SOpen \<and> filter_inv (ph_self p') \<and> fi_batch (ph_self p') = [] \<and>
    fi_ctx (ph_self p') = Some c \<and> rows (fi_input (ph_self p')) = rs"
proof -
  obtain s' t' where "op_open op c (i, t) = Some (Inr (), s', t')" "valid s'" "op_state op s' = SOpen" "rows s' = rs"
    using assms unfolding opens_to_def by blast
  then show ?thesis
    by (simp add: filterOperator_def base_operator_def base_open_def new_filter_def new_phys_def
        filter_doOpen_def zoom_def filter_inv_def input_ok_def filter_reset_def)
qed

lemma filter_closes:
  assumes "filter_inv (ph_self p)"
  shows "\<exists>p' t'. op_close (filterOperator h reg op pred) (p, t) = Some (Inr (), p', t')"
proof -
  from close [of "fi_input (ph_self p)"] assms obtain i' t' where
    "op_close op (fi_input (ph_self p), t) = Some (Inr (), i', t')"
    unfolding filter_inv_def input_ok_def by blast
  then show ?thesis
    by (simp add: filterOperator_def base_operator_def base_close_def filter_doClose_def zoom_def)
qed

lemma collectAll_filter:
  assumes "opens_to op valid rows i c rs" and "0 < n" and "modelled_on h reg pred c rs"
    and "int (length rs) \<le> maxRowsPerNode (budget c)"
  shows "\<exists>out sc p t'. collectAll (filterOperator h reg op pred) c n (new_filter i, t)
      = Some (Inr \<lparr>b_rows = out, b_schema = sc\<rparr>, p, t') \<and>
    subseq out (filter (passes h reg pred c) rs) \<and>
    (length (filter (passes h reg pred c) rs) \<le> n \<longrightarrow> out = filter (passes h reg pred c) rs)"
proof -
  let ?op = "filterOperator h reg op pred"
  obtain p1 t1 where p1: "op_open ?op c (new_filter i, t) = Some (Inr (), p1, t1)" "ph_state p1 = SOpen"
    "filter_inv (ph_self p1)" "fi_batch (ph_self p1) = []" "fi_ctx (ph_self p1) = Some c" "rows (fi_input (ph_self p1)) = rs"
    using filter_opens [OF assms(1)] by blast
  obtain out sc p2 t2 where p2: "collect_loop ?op (maxRowsPerNode (budget c)) n [] None (p1, t1)
      = Some (Inr \<lparr>b_rows = out, b_schema = sc\<rparr>, p2, t2)" "filter_inv (ph_self p2)"
    "subseq out (filter (passes h reg pred c) rs)"
    "length (filter (passes h reg pred c) rs) \<le> n \<longrightarrow> out = filter (passes h reg pred c) rs"
    using filter_collects [OF p1(2-5), of h reg pred n "[]" "maxRowsPerNode (budget c)" None t1] assms p1(6) by auto
  obtain p3 t3 where "op_close ?op (p2, t2) = Some (Inr (), p3, t3)"
    using filter_closes [OF p2(2)] by blast
  then have "collectAll ?op c n (new_filter i, t) = Some (Inr \<lparr>b_rows = out, b_schema = sc\<rparr>, p3, t3)"
    by (simp add: collectAll_def p1(1) p2(1))
  with p2 show ?thesis by blast
qed

text \<open>A projection delivers one row for each row of its input.\<close>

definition project_ready :: "host \<Rightarrow> fnRegistry \<Rightarrow> projectionSpec list \<Rightarrow> 's projectState phys \<Rightarrow> bool" where
  "project_ready h reg specs p \<longleftrightarrow> input_ok (pj_input (ph_self p)) \<and> pj_schema (ph_self p) \<noteq> None \<and>
     (\<exists>c. pj_ctx (ph_self p) = Some c \<and>
       list_all (\<lambda>r. isl (project_row h reg specs (ctx_scope c) r) = False) (rows (pj_input (ph_self p))))"

definition project_rest :: "host \<Rightarrow> fnRegistry \<Rightarrow> projectionSpec list \<Rightarrow> 's projectState phys \<Rightarrow> row list" where
  "project_rest h reg specs p = (case pj_ctx (ph_self p) of None \<Rightarrow> []
     | Some c \<Rightarrow> map (\<lambda>r. projr (project_row h reg specs (ctx_scope c) r)) (rows (pj_input (ph_self p))))"

lemma project_row_source:
  "row_source (projectOperator h reg op specs) (project_ready h reg specs) (project_rest h reg specs)"
proof unfold_locales
  fix p :: "'s projectState phys" and n :: nat and t
  assume v: "project_ready h reg specs p" and o: "op_state (projectOperator h reg op specs) p = SOpen" and n: "0 < n"
  let ?i = "pj_input (ph_self p)"
  obtain c sch where c: "pj_ctx (ph_self p) = Some c" "pj_schema (ph_self p) = Some sch" "input_ok ?i"
    "list_all (\<lambda>r. isl (project_row h reg specs (ctx_scope c) r) = False) (rows ?i)"
    using v by (auto simp: project_ready_def)
  have total: "mapR (project_row h reg specs (ctx_scope c)) rs = Inr (map (\<lambda>r. projr (project_row h reg specs (ctx_scope c) r)) rs)"
    if "list_all (\<lambda>r. isl (project_row h reg specs (ctx_scope c) r) = False) rs" for rs
    using that by (intro mapR_total) (auto simp: list_all_iff)
  show "\<exists>b s' t'. op_next (projectOperator h reg op specs) n (p, t) = Some (Inr b, s', t') \<and> project_ready h reg specs s' \<and>
      project_rest h reg specs p = b_rows b @ project_rest h reg specs s' \<and>
      (if b_rows b = [] then op_state (projectOperator h reg op specs) s' \<noteq> SOpen \<and> project_rest h reg specs s' = []
       else op_state (projectOperator h reg op specs) s' = SOpen)"
  proof (cases "op_state op ?i = SOpen")
    case False
    with c have "rows ?i = []" by (auto simp: input_ok_def)
    with False c o v show ?thesis
      by (simp add: projectOperator_def base_operator_def base_next_def project_doNext_def project_ready_def
          project_rest_def)
  next
    case True
    with c(3) next_batch [OF _ True n] obtain b i' t' where
      nb: "op_next op n (?i, t) = Some (Inr b, i', t')" "valid i'" "rows ?i = b_rows b @ rows i'"
        "if b_rows b = [] then op_state op i' \<noteq> SOpen \<and> rows i' = [] else op_state op i' = SOpen"
      unfolding input_ok_def by blast
    have "list_all (\<lambda>r. isl (project_row h reg specs (ctx_scope c) r) = False) (b_rows b)"
      "list_all (\<lambda>r. isl (project_row h reg specs (ctx_scope c) r) = False) (rows i')"
      using c(4) nb(3) by auto
    with nb c True o show ?thesis
      by (cases "b_rows b = []") (simp_all add: projectOperator_def base_operator_def base_next_def
          project_doNext_def project_ready_def project_rest_def zoom_def total input_ok_def)
  qed
next
  fix p :: "'s projectState phys" and t
  assume "project_ready h reg specs p"
  then have "valid (pj_input (ph_self p))" by (simp add: project_ready_def input_ok_def)
  from close [OF this] obtain i' t' where "op_close op (pj_input (ph_self p), t) = Some (Inr (), i', t')"
    by blast
  then show "\<exists>s' t'. op_close (projectOperator h reg op specs) (p, t) = Some (Inr (), s', t') \<and>
      op_state (projectOperator h reg op specs) s' = SClosed"
    by (auto simp: projectOperator_def base_operator_def base_close_def project_doClose_def zoom_def)
qed (simp add: projectOperator_def base_operator_def base_close_def)

lemma project_opens:
  assumes "opens_to op valid rows i c rs"
    and "list_all (\<lambda>r. isl (project_row h reg specs (ctx_scope c) r) = False) rs"
  shows "opens_to (projectOperator h reg op specs) (project_ready h reg specs) (project_rest h reg specs)
    (new_project i) c (map (\<lambda>r. projr (project_row h reg specs (ctx_scope c) r)) rs)"
  unfolding opens_to_def
proof
  fix t
  obtain s' t' where "op_open op c (i, t) = Some (Inr (), s', t')" "valid s'" "op_state op s' = SOpen" "rows s' = rs"
    using assms(1) unfolding opens_to_def by blast
  with assms(2) show "\<exists>s' t'. op_open (projectOperator h reg op specs) c (new_project i, t) = Some (Inr (), s', t') \<and>
      project_ready h reg specs s' \<and> op_state (projectOperator h reg op specs) s' = SOpen \<and>
      project_rest h reg specs s' = map (\<lambda>r. projr (project_row h reg specs (ctx_scope c) r)) rs"
    by (simp add: projectOperator_def base_operator_def base_open_def new_project_def new_phys_def
        project_doOpen_def zoom_def project_ready_def project_rest_def input_ok_def)
qed

end

section \<open>A scan meets the contract\<close>

definition stream_of :: "batch list \<Rightarrow> batch res list" where
  "stream_of bs = map Inr bs"

definition nonempty_batches :: "batch list \<Rightarrow> bool" where
  "nonempty_batches bs \<longleftrightarrow> list_all (\<lambda>b. b_rows b \<noteq> []) bs"

definition scan_valid :: "scanState phys \<Rightarrow> bool" where
  "scan_valid p \<longleftrightarrow> (\<exists>bs. ph_self p = Some (stream_of bs) \<and> nonempty_batches bs)"

definition scan_rest :: "scanOptions \<Rightarrow> scanState phys \<Rightarrow> row list" where
  "scan_rest opts p = (case ph_self p of None \<Rightarrow> []
     | Some st \<Rightarrow> concat (map (\<lambda>b. case b of Inr b \<Rightarrow> map (alias_row (so_alias opts)) (b_rows b) | Inl _ \<Rightarrow> []) st))"

interpretation scan: row_source "scanOperator opts" scan_valid "scan_rest opts" for opts
proof unfold_locales
  fix p :: "scanState phys" and n :: nat and t
  assume v: "scan_valid p" and o: "op_state (scanOperator opts) p = SOpen"
  then obtain bs where bs: "ph_self p = Some (stream_of bs)" "nonempty_batches bs" by (auto simp: scan_valid_def)
  show "\<exists>b s' t'. op_next (scanOperator opts) n (p, t) = Some (Inr b, s', t') \<and> scan_valid s' \<and>
      scan_rest opts p = b_rows b @ scan_rest opts s' \<and>
      (if b_rows b = [] then op_state (scanOperator opts) s' \<noteq> SOpen \<and> scan_rest opts s' = []
       else op_state (scanOperator opts) s' = SOpen)"
    using bs o by (cases bs) (auto simp: scanOperator_def base_operator_def base_next_def scan_doNext_def stream_of_def
        scan_valid_def scan_rest_def nonempty_batches_def)
next
  fix p :: "scanState phys" and t
  show "\<exists>s' t'. op_close (scanOperator opts) (p, t) = Some (Inr (), s', t') \<and> op_state (scanOperator opts) s' = SClosed"
    by (simp add: scanOperator_def base_operator_def base_close_def scan_doClose_def)
qed (simp add: scanOperator_def base_operator_def base_close_def)

definition scan_request :: "scanOptions \<Rightarrow> scanRequest" where
  "scan_request opts = \<lparr>sr_table = so_table opts, sr_predicate = so_predicate opts, sr_columns = so_columns opts,
     sr_batchSize = so_batchSize opts\<rparr>"

definition scanned_rows :: "scanOptions \<Rightarrow> batch list \<Rightarrow> row list" where
  "scanned_rows opts bs = concat (map (\<lambda>b. map (alias_row (so_alias opts)) (b_rows b)) bs)"

lemma scan_opens:
  assumes "so_schema opts \<noteq> []" "so_backend opts (scan_request opts) = stream_of bs" "nonempty_batches bs"
  shows "opens_to (scanOperator opts) scan_valid (scan_rest opts) (new_phys None) c (scanned_rows opts bs)"
proof -
  have "scan_rest opts (p\<lparr>ph_self := Some (stream_of bs)\<rparr>) = scanned_rows opts bs" for p
    by (simp add: scan_rest_def scanned_rows_def stream_of_def comp_def)
  with assms show ?thesis
    by (auto simp: opens_to_def scanOperator_def base_operator_def base_open_def new_phys_def scan_doOpen_def
        scan_valid_def scan_request_def scan_rest_def scanned_rows_def stream_of_def comp_def)
qed

interpretation scan_limit: row_source "limitOperator (scanOperator opts) limit offset" "scan.limit_valid opts"
    "\<lambda>p. scan.limit_rest opts limit offset (ph_self p)" for opts limit offset
  by (rule scan.limit_row_source)

interpretation scan_project: row_source "projectOperator h reg (scanOperator opts) specs"
    "scan.project_ready opts h reg specs" "scan.project_rest opts h reg specs" for opts h reg specs
  by (rule scan.project_row_source)

interpretation scan_project_limit: row_source "limitOperator (projectOperator h reg (scanOperator opts) specs) limit offset"
    "scan_project.limit_valid h reg opts specs" "\<lambda>p. scan_project.limit_rest opts h reg specs limit offset (ph_self p)"
    for h reg opts specs limit offset
  by (rule scan_project.limit_row_source)

section \<open>Correctness of the streaming operators\<close>

definition sample_schema :: rowSchema where
  "sample_schema = [Column ''id'' TNumber False]"

definition sample_row :: "int \<Rightarrow> row" where
  "sample_row i = [(''id'', JNum (Fin (of_int i)))]"

definition sample_batches :: "batch list" where
  "sample_batches = [\<lparr>b_rows = [sample_row 1, sample_row 2], b_schema = sample_schema\<rparr>,
     \<lparr>b_rows = [sample_row 3, sample_row 4], b_schema = sample_schema\<rparr>]"

definition sample_scan :: scanOptions where
  "sample_scan = \<lparr>so_table = ''t'', so_alias = ''t'', so_schema = sample_schema, so_predicate = None,
     so_columns = None, so_batchSize = 2, so_backend = \<lambda>_. stream_of sample_batches\<rparr>"

definition sample_ctx :: execContext where
  "sample_ctx = createExecutionContext ''p'' ''s'' None [] (defaultBudget 0)"

lemma sample_scan_facts:
  "so_schema sample_scan \<noteq> []" "so_backend sample_scan (scan_request sample_scan) = stream_of sample_batches"
  "nonempty_batches sample_batches" "maxRowsPerNode (budget sample_ctx) = 10000"
  "scanned_rows sample_scan sample_batches = map (\<lambda>i. alias_row ''t'' (sample_row i)) [1, 2, 3, 4]"
  by (simp_all add: sample_scan_def sample_schema_def sample_batches_def nonempty_batches_def sample_ctx_def
      createExecutionContext_def defaultBudget_def scanned_rows_def)

text \<open>
  C9: a page of projected rows.  Whatever the sizes of the backend's batches and of the
  batches asked for, collecting a limit over a projection over a scan gives the projections
  of the scanned rows from the offset on, at most \<open>limit\<close> of them, in the backend's order;
  the call terminates, closes the operator, and fails only when the page itself is longer
  than the row budget.
\<close>

theorem limit_project_scan_page:
  assumes "so_schema opts \<noteq> []" and "so_backend opts (scan_request opts) = stream_of bs" and "nonempty_batches bs"
    and "list_all (\<lambda>r. project_row h reg specs (ctx_scope c) r = Inr (f r)) (scanned_rows opts bs)" and "0 < n"
  shows "\<exists>r s t'. collectAll (limitOperator (projectOperator h reg (scanOperator opts) specs) limit offset) c n
      (new_limit (new_project (new_phys None)), t) = Some (r, s, t') \<and> ph_state s = SClosed \<and>
    (let page = take (nat limit) (drop (nat offset) (map f (scanned_rows opts bs))) in
     if int (length page) \<le> maxRowsPerNode (budget c) \<or> page = [] then \<exists>sc. r = Inr \<lparr>b_rows = page, b_schema = sc\<rparr>
     else \<exists>msg. r = Inl (BudgetExceededError msg))"
proof -
  have ready: "list_all (\<lambda>r. isl (project_row h reg specs (ctx_scope c) r) = False) (scanned_rows opts bs)"
    using assms(4) by (auto simp: list_all_iff)
  have f: "map (\<lambda>r. projr (project_row h reg specs (ctx_scope c) r)) (scanned_rows opts bs) = map f (scanned_rows opts bs)"
    using assms(4) by (auto simp: list_all_iff)
  note o1 = scan.project_opens [OF scan_opens [OF assms(1-3)] ready]
  note o2 = scan_project.limit_opens [OF o1, of limit offset]
  show ?thesis
    using scan_project_limit.collectAll_delivers [OF o2 assms(5), of t]
    unfolding f Let_def by (simp add: limitOperator_def base_operator_def)
qed

theorem limit_project_scan_page_witness:
  "\<exists>s t'. collectAll (limitOperator (projectOperator no_host [] (scanOperator sample_scan)
      [\<lparr>ps_expr = FieldRef (Some ''t'') ''id'', ps_alias = ''key''\<rparr>]) 2 1) sample_ctx 1
      (new_limit (new_project (new_phys None)), []) = Some (Inr \<lparr>b_rows = [[(''key'', JNum (Fin 2))], [(''key'', JNum (Fin 3))]],
        b_schema = s\<rparr>, t')"
proof -
  let ?specs = "[\<lparr>ps_expr = FieldRef (Some ''t'') ''id'', ps_alias = ''key''\<rparr>]"
  have "list_all (\<lambda>r. project_row no_host [] ?specs (ctx_scope sample_ctx) r = Inr [(''key'', row_get r ''id'')])
      (scanned_rows sample_scan sample_batches)"
    by (simp add: sample_scan_facts project_row_def evaluateFieldRef_def field_lookups_def row_lookups_def
        table_in_scope_def sample_ctx_def createExecutionContext_def createScope_def alias_row_def sample_row_def
        row_set_def catchR_def al_has_def enumerated_before_def is_index_def is_digit_def)
  from limit_project_scan_page [OF sample_scan_facts(1-3) this, of 1 2 1 "[]"]
  show ?thesis
    by (auto simp: sample_scan_facts Let_def alias_row_def sample_row_def row_set_def al_has_def)
qed

text \<open>
  a filter over a scan never invents, duplicates or reorders a row and never keeps one
  whose predicate is not true; it keeps every passing row when the rows that pass fit in one
  batch of the size the consumer asks for.
\<close>

theorem filter_scan_sound:
  assumes "so_schema opts \<noteq> []" and "so_backend opts (scan_request opts) = stream_of bs" and "nonempty_batches bs"
    and "modelled_on h reg pred c (scanned_rows opts bs)" and "0 < n"
    and "int (length (scanned_rows opts bs)) \<le> maxRowsPerNode (budget c)"
  shows "\<exists>out sc p t'. collectAll (filterOperator h reg (scanOperator opts) pred) c n (new_filter (new_phys None), t)
      = Some (Inr \<lparr>b_rows = out, b_schema = sc\<rparr>, p, t') \<and>
    subseq out (filter (\<lambda>r. evaluate h reg pred (ctx_scope c) (Some r) = Inr (JBool True)) (scanned_rows opts bs)) \<and>
    (length (filter (\<lambda>r. evaluate h reg pred (ctx_scope c) (Some r) = Inr (JBool True)) (scanned_rows opts bs)) \<le> n \<longrightarrow>
       out = filter (\<lambda>r. evaluate h reg pred (ctx_scope c) (Some r) = Inr (JBool True)) (scanned_rows opts bs))"
  using scan.collectAll_filter [OF scan_opens [OF assms(1-3)] assms(5,4,6)]
  unfolding passes_def [abs_def] .

definition sample_pred :: exprAST where
  "sample_pred = BinaryOp OGt (FieldRef None ''id'') (Literal (JNum (Fin 1)) TNumber)"

lemma sample_pred_eval:
  "evaluate no_host [] sample_pred (ctx_scope sample_ctx) (Some (alias_row ''t'' (sample_row i)))
     = Inr (JBool (1 < i))"
  by (simp add: sample_pred_def evaluateFieldRef_def field_lookups_def row_lookups_def alias_row_def sample_row_def
      row_set_def al_has_def enumerated_before_def is_index_def is_digit_def evaluateBinaryOp_def
      js_lt_def to_primitive_def)

theorem filter_scan_sound_witness:
  "\<exists>sc p t'. collectAll (filterOperator no_host [] (scanOperator sample_scan) sample_pred) sample_ctx 3
      (new_filter (new_phys None), [])
    = Some (Inr \<lparr>b_rows = map (\<lambda>i. alias_row ''t'' (sample_row i)) [2, 3, 4], b_schema = sc\<rparr>, p, t')"
proof -
  have "modelled_on no_host [] sample_pred sample_ctx (scanned_rows sample_scan sample_batches)"
    unfolding modelled_on_def sample_scan_facts(5) by (simp add: sample_pred_eval)
  from filter_scan_sound [OF sample_scan_facts(1-3) this, of 3 "[]"]
  show ?thesis unfolding sample_scan_facts by (simp add: sample_pred_eval)
qed

text \<open>
  beyond that size the filter loses rows.  Four rows arrive in batches of two, three of
  them pass, and the consumer asks for batches of two: the pass that fills the first output
  batch drops the rest of the input batch it stopped in, and a row that satisfies the
  predicate never comes out.
\<close>

theorem filter_scan_drops_rows:
  "(\<exists>sc p t'. collectAll (filterOperator no_host [] (scanOperator sample_scan) sample_pred) sample_ctx 2
      (new_filter (new_phys None), [])
    = Some (Inr \<lparr>b_rows = map (\<lambda>i. alias_row ''t'' (sample_row i)) [2, 3], b_schema = sc\<rparr>, p, t')) \<and>
   evaluate no_host [] sample_pred (ctx_scope sample_ctx) (Some (alias_row ''t'' (sample_row 4))) = Inr (JBool True)"
proof -
  have test: "filter_test no_host [] sample_pred (ctx_scope sample_ctx) (alias_row ''t'' (sample_row i)) = Inr (1 < i)" for i
    by (simp add: filter_test_def sample_pred_eval catchR_def)
  show ?thesis
    by (simp only: sample_pred_eval)
      (simp add: collectAll_def collect_loop.simps filter_loop.simps filter_doNext_def filter_doOpen_def
        filter_doClose_def filter_reset_def filterOperator_def scanOperator_def base_operator_def base_open_def
        base_next_def base_close_def scan_doOpen_def scan_doNext_def scan_doClose_def new_filter_def new_phys_def
        zoom_def sample_scan_def sample_batches_def stream_of_def sample_schema_def test Let_def int_string_def
        sample_scan_facts(4) cong: bind_weak_cong)
qed

text \<open>
  the rows of a scan answer a reference to a column by its bare name and by its name
  qualified with the alias, unless the row itself has a column with the qualified name or a
  variable of that name holds a record with the field.
\<close>

theorem scanned_row_resolves_both_names:
  assumes "distinct (map fst r)" and "map_of r k = Some v" and "v \<noteq> JUndef" and "a \<noteq> []"
    and "map_of r (a @ ''.'' @ k) = None" and "table_in_scope a k sc = JUndef"
  shows "evaluate h reg (FieldRef None k) sc (Some (alias_row a r)) = Inr v \<and>
    evaluate h reg (FieldRef (Some a) k) sc (Some (alias_row a r)) = Inr v"
proof -
  let ?q = "map (\<lambda>(k, v). (a @ ''.'' @ k, v)) r"
  have q: "map_of ?q (a @ ''.'' @ k) = map_of r k" by (induction r) auto
  have "map fst ?q = map (\<lambda>k. a @ ''.'' @ k) (map fst r)" by (induction r) auto
  with assms(1) have "distinct (map fst ?q)" by (simp add: distinct_map inj_on_def)
  then have "map_of (alias_row a r) = map_of ?q ++ map_of r"
    unfolding alias_row_def by (simp add: map_of_row_assign [OF assms(1)] map_of_row_assign del: map_map)
  then have "row_get (alias_row a r) k = v" "row_get (alias_row a r) (a @ ''.'' @ k) = v"
    using assms(2,5) q by (simp_all add: row_get_def map_add_def)
  with assms(3,4,6) show ?thesis
    by (simp add: evaluateFieldRef_def field_lookups_def row_lookups_def)
qed

theorem scanned_row_resolves_both_names_witness:
  "evaluate no_host [] (FieldRef (Some ''o'') ''total'') [] (Some (alias_row ''o'' [(''total'', JNum (Fin 5))]))
     = Inr (JNum (Fin 5))"
  by (rule scanned_row_resolves_both_names [THEN conjunct2]) (simp_all add: table_in_scope_def)

end
