(* ===== verification/Blocking.thy ===== *)
theory Blocking
  imports Operators
begin

text \<open>
  What the sort and the aggregation operator share: the temporary store
  (\<open>src/src/storage/sqlite-temp-store.ts\<close>), the inference of an output schema from a sample
  row, the cutting of a list into batches, and the shape of an operator that collects its
  whole input on the first call and then hands out the batches it built.
\<close>

section \<open>Temporary store\<close>

type_synonym tempStore = "(string \<times> batch list) list"

definition ts_write :: "tempStore \<Rightarrow> string \<Rightarrow> batch \<Rightarrow> tempStore" where
  "ts_write ts k b = al_set k ((case map_of ts k of None \<Rightarrow> [] | Some bs \<Rightarrow> bs) @ [b]) ts"

definition ts_append :: "tempStore \<Rightarrow> string \<Rightarrow> batch \<Rightarrow> tempStore" where
  "ts_append ts k b = al_set k ((case map_of ts k of None \<Rightarrow> [] | Some bs \<Rightarrow> bs) @ [b]) ts"

definition ts_read :: "tempStore \<Rightarrow> string \<Rightarrow> batch list res" where
  "ts_read ts k = (case map_of ts k of
      None \<Rightarrow> Inl (PlainError (''Table for key '' @ quoted k @ '' does not exist'')) | Some bs \<Rightarrow> Inr bs)"

definition ts_delete :: "tempStore \<Rightarrow> string \<Rightarrow> tempStore" where
  "ts_delete ts k = al_del k ts"

definition ts_exists :: "tempStore \<Rightarrow> string \<Rightarrow> bool" where
  "ts_exists ts k = al_has k ts"

definition inferTypeFromValue :: "jsval \<Rightarrow> engineType" where
  "inferTypeFromValue v = (if v = JNull then TNull else case v of
       JStr _ \<Rightarrow> TString | JNum _ \<Rightarrow> TNumber | JBool _ \<Rightarrow> TBoolean | JArr _ \<Rightarrow> TArray TAny
     | JUndef \<Rightarrow> TAny | _ \<Rightarrow> TRecord [])"

definition inferOutputSchema :: "row list \<Rightarrow> rowSchema" where
  "inferOutputSchema rows = (case rows of [] \<Rightarrow> []
     | r # _ \<Rightarrow> map (\<lambda>(n, v). Column n (inferTypeFromValue v) (v = JNull)) r)"

section \<open>Batches\<close>

text \<open>
  \<^verbatim>\<open>for (let i = 0; i < rows.length; i += n) rows.slice(i, i + n)\<close> does not end for a step
  of zero on a list that is not empty.
\<close>

function chunks :: "nat \<Rightarrow> 'a list \<Rightarrow> 'a list list" where
  "chunks n xs = (if xs = [] \<or> n = 0 then [] else take n xs # chunks n (drop n xs))"
  by pat_completeness auto
termination by (relation "measure (\<lambda>(n, xs). length xs)") auto

declare chunks.simps [simp del]

definition chunks_of :: "nat \<Rightarrow> 'a list \<Rightarrow> 'a list list option" where
  "chunks_of n xs = (if n = 0 \<and> xs \<noteq> [] then None else Some (chunks n xs))"

lemma concat_chunks: "0 < n \<Longrightarrow> concat (chunks n xs) = xs"
proof (induction n xs rule: chunks.induct)
  case (1 n xs)
  then show ?case by (subst chunks.simps) auto
qed

lemma chunks_nonempty: "c \<in> set (chunks n xs) \<Longrightarrow> c \<noteq> []"
proof (induction n xs rule: chunks.induct)
  case (1 n xs)
  then show ?case
    by (cases "xs = [] \<or> n = 0") (auto simp: chunks.simps [of n xs])
qed

definition chunkRows :: "row list \<Rightarrow> nat \<Rightarrow> batch list option" where
  "chunkRows rows n = map_option (map (\<lambda>c. \<lparr>b_rows = c, b_schema = inferOutputSchema rows\<rparr>)) (chunks_of n rows)"

lemma chunkRows_delivers:
  assumes "0 < n"
  obtains bs where "chunkRows rows n = Some bs" "concat (map b_rows bs) = rows" "nonempty_batches bs"
proof
  let ?bs = "map (\<lambda>c. \<lparr>b_rows = c, b_schema = inferOutputSchema rows\<rparr>) (chunks n rows)"
  show "chunkRows rows n = Some ?bs" using assms by (simp add: chunkRows_def chunks_of_def)
  show "concat (map b_rows ?bs) = rows" using concat_chunks [OF assms] by (simp add: comp_def)
  show "nonempty_batches ?bs" using chunks_nonempty by (auto simp: nonempty_batches_def list_all_iff)
qed

section \<open>Operators that build their result first\<close>

text \<open>
  \<open>build c n rows ts\<close> computes the batches from all the input rows; \<open>n\<close> is the batch size of
  the call that builds, and \<open>ts\<close> the temporary store, handed back as the build leaves it.
\<close>

type_synonym build = "execContext \<Rightarrow> nat \<Rightarrow> row list \<Rightarrow> tempStore \<Rightarrow> (batch list res \<times> tempStore) option"

record 's buildState =
  bs_input :: 's
  bs_ctx :: "execContext option"
  bs_batches :: "batch list"
  bs_index :: nat
  bs_built :: bool
  bs_temp :: tempStore

definition new_build :: "'s \<Rightarrow> tempStore \<Rightarrow> 's buildState phys" where
  "new_build i ts = new_phys \<lparr>bs_input = i, bs_ctx = None, bs_batches = [], bs_index = 0, bs_built = False, bs_temp = ts\<rparr>"

text \<open>
  The input is not opened here: \<open>collectAll\<close> does that on the first call.  (The aggregation
  also resets \<open>built\<close>, which is still false: an operator is opened once, from \<open>idle\<close>.)
\<close>

definition build_doOpen :: "execContext \<Rightarrow> (unit, 's buildState) io" where
  "build_doOpen c = (\<lambda>(s, t). Some (Inr (), s\<lparr>bs_ctx := Some c\<rparr>, t))"

definition build_emit :: "(batch, 's buildState) io" where
  "build_emit = (\<lambda>(s, t). if bs_index s \<ge> length (bs_batches s) then Some (Inr \<lparr>b_rows = [], b_schema = []\<rparr>, s, t)
     else Some (Inr (bs_batches s ! bs_index s), s\<lparr>bs_index := bs_index s + 1\<rparr>, t))"

definition build_doNext :: "string \<Rightarrow> build \<Rightarrow> 's operator \<Rightarrow> nat \<Rightarrow> (batch, 's buildState) io" where
  "build_doNext name build inp n st = (case bs_ctx (fst st) of
       None \<Rightarrow> Some (Inl (PlainError (name @ '' not opened'')), st)
     | Some c \<Rightarrow> if bs_built (fst st) then build_emit st
         else Option.bind (zoom bs_input (\<lambda>i s. s\<lparr>bs_input := i\<rparr>)
             (collectAll inp c (nat (maxRowsPerNode (budget c)))) st) (\<lambda>(r, s, t). case r of
           Inl e \<Rightarrow> Some (Inl e, s, t)
         | Inr all \<Rightarrow> Option.bind (build c n (b_rows all) (bs_temp s)) (\<lambda>(br, ts). case br of
             Inl e \<Rightarrow> Some (Inl e, s\<lparr>bs_temp := ts\<rparr>, t)
           | Inr bs \<Rightarrow> build_emit (s\<lparr>bs_batches := bs_batches s @ bs, bs_built := True, bs_temp := ts\<rparr>, t))))"

definition build_doClose :: "'s operator \<Rightarrow> (unit, 's buildState) io" where
  "build_doClose inp = zoom bs_input (\<lambda>i s. s\<lparr>bs_input := i\<rparr>) (op_close inp)"

definition build_operator :: "string \<Rightarrow> string \<Rightarrow> build \<Rightarrow> 's operator \<Rightarrow> 's buildState phys operator" where
  "build_operator kind name build inp = base_operator kind build_doOpen (build_doNext name build inp) (build_doClose inp)"

text \<open>The rows still to come: all of the result before the build, the batches behind the
  index afterwards.\<close>

definition build_rest :: "row list \<Rightarrow> 's buildState phys \<Rightarrow> row list" where
  "build_rest result p = (if bs_built (ph_self p)
     then concat (map b_rows (drop (bs_index (ph_self p)) (bs_batches (ph_self p)))) else result)"

definition builds :: "build \<Rightarrow> execContext \<Rightarrow> row list \<Rightarrow> row list \<Rightarrow> bool" where
  "builds build c rs result \<longleftrightarrow> (\<forall>n ts. 0 < n \<longrightarrow> (\<exists>bs ts'. build c n rs ts = Some (Inr bs, ts') \<and>
     concat (map b_rows bs) = result \<and> nonempty_batches bs))"

lemma build_emit_delivers:
  assumes "nonempty_batches (bs_batches s)"
  shows "\<exists>b s'. build_emit (s, t) = Some (Inr b, s', t) \<and> bs_built s' = bs_built s \<and> bs_ctx s' = bs_ctx s \<and>
    bs_batches s' = bs_batches s \<and> bs_input s' = bs_input s \<and>
    concat (map b_rows (drop (bs_index s) (bs_batches s))) = b_rows b @ concat (map b_rows (drop (bs_index s') (bs_batches s))) \<and>
    (b_rows b = [] \<longrightarrow> bs_index s' \<ge> length (bs_batches s))"
proof (cases "bs_index s \<ge> length (bs_batches s)")
  case False
  then have "drop (bs_index s) (bs_batches s) = bs_batches s ! bs_index s # drop (Suc (bs_index s)) (bs_batches s)"
    by (simp add: Cons_nth_drop_Suc)
  moreover have "b_rows (bs_batches s ! bs_index s) \<noteq> []"
    using assms False by (simp add: nonempty_batches_def list_all_length)
  ultimately show ?thesis using False by (simp add: build_emit_def)
qed (simp add: build_emit_def)

context row_source
begin

definition build_ok :: "'s \<Rightarrow> execContext \<Rightarrow> 's buildState phys \<Rightarrow> bool" where
  "build_ok i c p \<longleftrightarrow> bs_ctx (ph_self p) = Some c \<and>
     (if bs_built (ph_self p) then nonempty_batches (bs_batches (ph_self p)) \<and> op_state op (bs_input (ph_self p)) = SClosed
      else bs_input (ph_self p) = i \<and> bs_batches (ph_self p) = [] \<and> bs_index (ph_self p) = 0)"

lemma build_row_source:
  assumes opens: "opens_to op valid rows i c rs"
    and close_idle: "\<And>t. \<exists>s' t'. op_close op (i, t) = Some (Inr (), s', t')"
    and result: "builds build c rs result"
    and fits: "int (length rs) \<le> maxRowsPerNode (budget c)" "0 < maxRowsPerNode (budget c)"
  shows "row_source (build_operator kind name build op) (build_ok i c) (build_rest result)"
proof unfold_locales
  fix p :: "'s buildState phys" and n :: nat and t
  assume v: "build_ok i c p" and o: "op_state (build_operator kind name build op) p = SOpen" and n: "0 < n"
  let ?s = "ph_self p"
  obtain b s1 t1 where step: "build_doNext name build op n (?s, t) = Some (Inr b, s1, t1)"
    "bs_built s1" "bs_ctx s1 = Some c" "nonempty_batches (bs_batches s1)" "op_state op (bs_input s1) = SClosed"
    "build_rest result p = b_rows b @ concat (map b_rows (drop (bs_index s1) (bs_batches s1)))"
    "b_rows b = [] \<longrightarrow> bs_index s1 \<ge> length (bs_batches s1)"
  proof (cases "bs_built ?s")
    case True
    then have "nonempty_batches (bs_batches ?s)" using v by (simp add: build_ok_def)
    from build_emit_delivers [OF this, of t] obtain b s1 where "build_emit (?s, t) = Some (Inr b, s1, t)"
      "bs_built s1 = bs_built ?s" "bs_ctx s1 = bs_ctx ?s" "bs_batches s1 = bs_batches ?s" "bs_input s1 = bs_input ?s"
      "concat (map b_rows (drop (bs_index ?s) (bs_batches ?s))) = b_rows b @ concat (map b_rows (drop (bs_index s1) (bs_batches ?s)))"
      "b_rows b = [] \<longrightarrow> bs_index s1 \<ge> length (bs_batches ?s)" by blast
    with True v show ?thesis by (intro that [of b s1 t]) (simp_all add: build_ok_def build_doNext_def build_rest_def)
  next
    case False
    then have s: "bs_ctx ?s = Some c" "bs_input ?s = i" "bs_batches ?s = []" "bs_index ?s = 0"
      using v by (simp_all add: build_ok_def)
    from collectAll_delivers [OF opens, of "nat (maxRowsPerNode (budget c))" t] fits obtain i' t1 sc where
      col: "collectAll op c (nat (maxRowsPerNode (budget c))) (i, t) = Some (Inr \<lparr>b_rows = rs, b_schema = sc\<rparr>, i', t1)"
        "op_state op i' = SClosed" by (auto split: if_splits)
    obtain bs ts where bs: "build c n rs (bs_temp ?s) = Some (Inr bs, ts)" "concat (map b_rows bs) = result" "nonempty_batches bs"
      using result n unfolding builds_def by blast
    define s0 where "s0 = ?s\<lparr>bs_input := i', bs_batches := bs, bs_built := True, bs_temp := ts\<rparr>"
    have "build_doNext name build op n (?s, t) = build_emit (s0, t1)"
      using s col(1) bs(1) False by (simp add: build_doNext_def zoom_def s0_def)
    moreover from build_emit_delivers [of s0 t1] bs(3) obtain b s1 where "build_emit (s0, t1) = Some (Inr b, s1, t1)"
      "bs_built s1 = bs_built s0" "bs_ctx s1 = bs_ctx s0" "bs_batches s1 = bs_batches s0" "bs_input s1 = bs_input s0"
      "concat (map b_rows (drop (bs_index s0) (bs_batches s0))) = b_rows b @ concat (map b_rows (drop (bs_index s1) (bs_batches s0)))"
      "b_rows b = [] \<longrightarrow> bs_index s1 \<ge> length (bs_batches s0)" by (auto simp: s0_def)
    ultimately show ?thesis using s col(2) bs(2,3) False
      by (intro that [of b s1 t1]) (simp_all add: s0_def build_rest_def)
  qed
  then show "\<exists>b s' t'. op_next (build_operator kind name build op) n (p, t) = Some (Inr b, s', t') \<and> build_ok i c s' \<and>
      build_rest result p = b_rows b @ build_rest result s' \<and>
      (if b_rows b = [] then op_state (build_operator kind name build op) s' \<noteq> SOpen \<and> build_rest result s' = []
       else op_state (build_operator kind name build op) s' = SOpen)"
    using o by (auto simp: build_operator_def base_operator_def base_next_def build_ok_def build_rest_def)
next
  fix p :: "'s buildState phys" and t
  assume "build_ok i c p"
  then show "\<exists>s' t'. op_close (build_operator kind name build op) (p, t) = Some (Inr (), s', t') \<and>
      op_state (build_operator kind name build op) s' = SClosed"
    using close_idle [of t] close_again [of "bs_input (ph_self p)" t]
    by (auto simp: build_ok_def build_operator_def base_operator_def base_close_def build_doClose_def zoom_def split: if_splits)
qed (simp add: build_operator_def base_operator_def base_close_def)

lemma build_opens:
  assumes "opens_to op valid rows i c rs"
  shows "opens_to (build_operator kind name build op) (build_ok i c) (build_rest result) (new_build i ts) c result"
  by (simp add: opens_to_def build_operator_def base_operator_def base_open_def new_build_def new_phys_def
      build_doOpen_def build_ok_def build_rest_def)

lemma build_collects:
  assumes "opens_to op valid rows i c rs" and "\<And>t. \<exists>s' t'. op_close op (i, t) = Some (Inr (), s', t')"
    and "builds build c rs result" and "int (length rs) \<le> maxRowsPerNode (budget c)" "0 < maxRowsPerNode (budget c)"
    and "int (length result) \<le> maxRowsPerNode (budget c)" and "0 < n"
  shows "\<exists>sc p t'. collectAll (build_operator kind name build op) c n (new_build i ts, t)
    = Some (Inr \<lparr>b_rows = result, b_schema = sc\<rparr>, p, t')"
  using row_source.collectAll_delivers [OF build_row_source [OF assms(1-5)] build_opens [OF assms(1)] assms(7)] assms(6)
  by fastforce

end

lemma scan_close_idle: "\<exists>s' t'. op_close (scanOperator opts) (new_phys None, t) = Some (Inr (), s', t')"
  by (simp add: scanOperator_def base_operator_def base_close_def scan_doClose_def new_phys_def)

lemma collect_build_over_scan:
  assumes "so_schema opts \<noteq> []" "so_backend opts (scan_request opts) = stream_of bs" "nonempty_batches bs"
    and "builds build c (scanned_rows opts bs) result"
    and "int (length (scanned_rows opts bs)) \<le> maxRowsPerNode (budget c)" "0 < maxRowsPerNode (budget c)"
    and "int (length result) \<le> maxRowsPerNode (budget c)" and "0 < n"
  shows "\<exists>sc p t'. collectAll (build_operator kind name build (scanOperator opts)) c n (new_build (new_phys None) ts, t)
    = Some (Inr \<lparr>b_rows = result, b_schema = sc\<rparr>, p, t')"
  by (rule scan.build_collects [OF scan_opens [OF assms(1-3)] scan_close_idle assms(4-8)])

end
