(* ===== verification/Sorting.thy ===== *)
theory Sorting
  imports Blocking
begin

text \<open>
  \<open>src/src/executors/operators/sort-operator.ts\<close>: the comparator of rows, the sort in
  memory, the external merge sort and the operator around them.

  \<open>Array.prototype.sort\<close> is stable, and its result is determined by the standard when the
  comparator is consistent; \<open>js_sort\<close> is that result.  The locale \<open>comparator\<close> states
  what consistent means; the comparator of the operator meets it on rows whose keys are
  uniform (\<open>compare_rows\<close>) and breaks it on mixed ones.
\<close>

section \<open>Comparison\<close>

record sortKey =
  sk_expr :: exprAST
  sk_asc :: bool
  sk_nullsFirst :: bool

definition order_of :: "bool \<Rightarrow> bool \<Rightarrow> int" where
  "order_of lt gt = (if lt then - 1 else if gt then 1 else 0)"

definition bool_num :: "bool \<Rightarrow> int" where
  "bool_num b = (if b then 1 else 0)"

definition basicCompare :: "jsval \<Rightarrow> jsval \<Rightarrow> int" where
  "basicCompare a b = (if a = JNull \<and> b = JNull then 0 else if a = JNull then - 1 else if b = JNull then 1
     else case (a, b) of
       (JNum m, JNum n) \<Rightarrow> order_of (num_lt m n) (num_lt n m)
     | (JBool p, JBool q) \<Rightarrow> bool_num p - bool_num q
     | (JStr s, JStr t) \<Rightarrow> if parse_float s \<noteq> NaN \<and> parse_float t \<noteq> NaN
         then order_of (num_lt (parse_float s) (parse_float t)) (num_lt (parse_float t) (parse_float s))
         else order_of (str_lt s t) (str_lt t s)
     | _ \<Rightarrow> order_of (str_lt (js_string a) (js_string b)) (str_lt (js_string b) (js_string a)))"

definition compareValues :: "jsval \<Rightarrow> jsval \<Rightarrow> bool \<Rightarrow> int" where
  "compareValues a b asc = (if a = JNull \<and> b = JNull then 0 else if a = JNull then - 1 else if b = JNull then 1
     else if asc then basicCompare a b else - basicCompare a b)"

definition compareKey :: "sortKey \<Rightarrow> jsval \<Rightarrow> jsval \<Rightarrow> int" where
  "compareKey k a b = (if a = JNull \<and> b \<noteq> JNull then (if sk_nullsFirst k then - 1 else 1)
     else if a \<noteq> JNull \<and> b = JNull then (if sk_nullsFirst k then 1 else - 1)
     else compareValues a b (sk_asc k))"

text \<open>A key that throws on either row makes the two rows equal, whatever the keys behind it.\<close>

fun compareRows :: "(exprAST \<Rightarrow> row \<Rightarrow> jsval res) \<Rightarrow> row \<Rightarrow> row \<Rightarrow> sortKey list \<Rightarrow> int" where
  "compareRows ev a b [] = 0"
| "compareRows ev a b (k # ks) = (case ev (sk_expr k) a of
      Inl _ \<Rightarrow> 0
    | Inr x \<Rightarrow> (case ev (sk_expr k) b of
        Inl _ \<Rightarrow> 0
      | Inr y \<Rightarrow> if compareKey k x y \<noteq> 0 then compareKey k x y else compareRows ev a b ks))"

section \<open>Sorting\<close>

fun sort_insert :: "('a \<Rightarrow> 'a \<Rightarrow> int) \<Rightarrow> 'a \<Rightarrow> 'a list \<Rightarrow> 'a list" where
  "sort_insert cmp x [] = [x]"
| "sort_insert cmp x (y # ys) = (if cmp x y \<le> 0 then x # y # ys else y # sort_insert cmp x ys)"

definition js_sort :: "('a \<Rightarrow> 'a \<Rightarrow> int) \<Rightarrow> 'a list \<Rightarrow> 'a list" where
  "js_sort cmp xs = foldr (sort_insert cmp) xs []"

text \<open>The scan for the smallest head; only a strictly smaller one replaces the first.\<close>

fun min_head :: "('a \<Rightarrow> 'a \<Rightarrow> int) \<Rightarrow> 'a list list \<Rightarrow> nat \<Rightarrow> ('a \<times> nat) option \<Rightarrow> ('a \<times> nat) option" where
  "min_head cmp [] i best = best"
| "min_head cmp ([] # cs) i best = min_head cmp cs (Suc i) best"
| "min_head cmp ((x # xs) # cs) i best = min_head cmp cs (Suc i) (case best of
      None \<Rightarrow> Some (x, i)
    | Some (y, j) \<Rightarrow> if cmp x y < 0 then Some (x, i) else Some (y, j))"

definition pop_head :: "'a list list \<Rightarrow> nat \<Rightarrow> 'a list list" where
  "pop_head cs i = filter (\<lambda>c. c \<noteq> []) (cs[i := tl (cs ! i)])"

lemma min_head_index:
  "min_head cmp cs i best = Some (x, j) \<Longrightarrow>
     best = Some (x, j) \<or> (i \<le> j \<and> j - i < length cs \<and> cs ! (j - i) \<noteq> [] \<and> x = hd (cs ! (j - i)))"
proof (induction cmp cs i best rule: min_head.induct)
  case (2 cmp cs i best)
  then show ?case by (auto simp: nth_Cons' Suc_diff_le split: if_splits)
next
  case (3 cmp x xs cs i best)
  then show ?case
    by (auto simp: nth_Cons' split: if_splits option.splits)
qed auto

lemma pop_head_total: "i < length cs \<Longrightarrow> cs ! i \<noteq> [] \<Longrightarrow> sum_list (map length (pop_head cs i)) < sum_list (map length cs)"
proof -
  have *: "sum_list (map length (filter (\<lambda>c. c \<noteq> []) ds)) = sum_list (map length ds)" for ds :: "'a list list"
    by (induction ds) auto
  show "i < length cs \<Longrightarrow> cs ! i \<noteq> [] \<Longrightarrow> sum_list (map length (pop_head cs i)) < sum_list (map length cs)"
    unfolding pop_head_def * by (induction cs arbitrary: i) (auto simp: nth_Cons' split: nat.splits)
qed

function merge_chunks :: "('a \<Rightarrow> 'a \<Rightarrow> int) \<Rightarrow> 'a list list \<Rightarrow> 'a list" where
  "merge_chunks cmp cs = (case min_head cmp cs 0 None of
      None \<Rightarrow> []
    | Some (x, i) \<Rightarrow> x # merge_chunks cmp (pop_head cs i))"
  by pat_completeness auto
termination
  by (relation "measure (\<lambda>(cmp, cs). sum_list (map length cs))")
    (auto intro!: pop_head_total dest: min_head_index)

declare merge_chunks.simps [simp del]

definition externalMerge :: "('a \<Rightarrow> 'a \<Rightarrow> int) \<Rightarrow> nat \<Rightarrow> 'a list \<Rightarrow> 'a list option" where
  "externalMerge cmp n rows = Option.bind (chunks_of n rows) (\<lambda>cs. Some (merge_chunks cmp (map (js_sort cmp) cs)))"

section \<open>Consistent comparators\<close>

locale comparator =
  fixes cmp :: "'a \<Rightarrow> 'a \<Rightarrow> int" and A :: "'a set"
  assumes anti: "x \<in> A \<Longrightarrow> y \<in> A \<Longrightarrow> cmp x y < 0 \<longleftrightarrow> 0 < cmp y x"
    and trans: "x \<in> A \<Longrightarrow> y \<in> A \<Longrightarrow> z \<in> A \<Longrightarrow> cmp x y \<le> 0 \<Longrightarrow> cmp y z \<le> 0 \<Longrightarrow> cmp x z \<le> 0"
begin

lemma refl: "x \<in> A \<Longrightarrow> cmp x x = 0"
  using anti [of x x] by linarith

lemma zero_sym: "x \<in> A \<Longrightarrow> y \<in> A \<Longrightarrow> cmp x y = 0 \<longleftrightarrow> cmp y x = 0"
  using anti [of x y] anti [of y x] by linarith

lemma less_trans1: "x \<in> A \<Longrightarrow> y \<in> A \<Longrightarrow> z \<in> A \<Longrightarrow> cmp x y < 0 \<Longrightarrow> cmp y z \<le> 0 \<Longrightarrow> cmp x z < 0"
  using trans [of y z x] anti [of x y] anti [of z x] anti [of x z] by linarith

lemma less_trans2: "x \<in> A \<Longrightarrow> y \<in> A \<Longrightarrow> z \<in> A \<Longrightarrow> cmp x y \<le> 0 \<Longrightarrow> cmp y z < 0 \<Longrightarrow> cmp x z < 0"
  using trans [of z x y] anti [of y z] anti [of z x] anti [of x z] by linarith

definition same :: "'a \<Rightarrow> 'a list \<Rightarrow> 'a list" where
  "same x ys = filter (\<lambda>y. cmp x y = 0) ys"

definition ordered :: "'a list \<Rightarrow> bool" where
  "ordered xs \<longleftrightarrow> sorted_wrt (\<lambda>x y. cmp x y \<le> 0) xs"

text \<open>An ordered list is determined by its classes of equal elements, each in order.\<close>

lemma ordered_unique:
  "ordered xs \<Longrightarrow> ordered ys \<Longrightarrow> set xs \<subseteq> A \<Longrightarrow> set ys \<subseteq> A \<Longrightarrow> (\<And>x. x \<in> A \<Longrightarrow> same x xs = same x ys) \<Longrightarrow> xs = ys"
proof (induction xs arbitrary: ys)
  case Nil
  show ?case
  proof (cases ys)
    case (Cons y ys')
    with Nil(4) have y: "y \<in> A" by simp
    with Cons have "same y ys \<noteq> []" by (simp add: same_def refl)
    with Nil(5) [OF y] show ?thesis by (simp add: same_def)
  qed simp
next
  case (Cons x xs)
  have x: "x \<in> A" using Cons.prems(3) by simp
  have "x \<in> set (same x ys)" unfolding Cons.prems(5) [OF x, symmetric] using x by (simp add: same_def refl)
  then obtain y ys' where ys: "ys = y # ys'" by (cases ys) (auto simp: same_def)
  have y: "y \<in> A" using Cons.prems(4) ys by simp
  have "y \<in> set (same y (x # xs))" unfolding Cons.prems(5) [OF y] using y ys by (simp add: same_def refl)
  then have "y \<in> insert x (set xs)" by (auto simp: same_def split: if_splits)
  then have "cmp x y \<le> 0" using Cons.prems(1) x by (auto simp: ordered_def refl)
  moreover have "cmp y x \<le> 0"
    using \<open>x \<in> set (same x ys)\<close> ys Cons.prems(2) x by (auto simp: same_def ordered_def refl split: if_splits)
  ultimately have "cmp x y = 0" using anti [OF x y] anti [OF y x] by linarith
  with Cons.prems(5) [OF x] ys x have "x = y" by (simp add: same_def refl)
  have "same z xs = same z ys'" if "z \<in> A" for z
    using Cons.prems(5) [OF that] ys \<open>x = y\<close> by (simp add: same_def split: if_splits)
  with Cons.IH [of ys'] Cons.prems ys \<open>x = y\<close> show ?case by (simp add: ordered_def)
qed

lemma set_sort_insert [simp]: "set (sort_insert cmp x ys) = insert x (set ys)"
  by (induction ys) auto

lemma ordered_sort_insert:
  "ordered ys \<Longrightarrow> set ys \<subseteq> A \<Longrightarrow> x \<in> A \<Longrightarrow> ordered (sort_insert cmp x ys)"
proof (induction ys)
  case (Cons y ys)
  show ?case
  proof (cases "cmp x y \<le> 0")
    case True
    with Cons.prems show ?thesis by (auto simp: ordered_def intro: trans)
  next
    case False
    with Cons anti [of y x] show ?thesis by (auto simp: ordered_def)
  qed
qed (simp add: ordered_def)

lemma same_sort_insert:
  "set ys \<subseteq> A \<Longrightarrow> x \<in> A \<Longrightarrow> z \<in> A \<Longrightarrow> same z (sort_insert cmp x ys) = same z (x # ys)"
proof (induction ys)
  case (Cons y ys)
  have "\<not> (cmp z x = 0 \<and> cmp z y = 0)" if "0 < cmp x y"
    using trans [of x z y] zero_sym [of z x] Cons.prems that by auto
  with Cons show ?case by (auto simp: same_def)
qed simp

lemma js_sort_Nil [simp]: "js_sort cmp [] = []"
  by (simp add: js_sort_def)

lemma js_sort_Cons [simp]: "js_sort cmp (x # xs) = sort_insert cmp x (js_sort cmp xs)"
  by (simp add: js_sort_def)

lemma set_js_sort [simp]: "set (js_sort cmp xs) = set xs"
  by (induction xs) auto

lemma ordered_js_sort: "set xs \<subseteq> A \<Longrightarrow> ordered (js_sort cmp xs)"
  by (induction xs) (auto simp: ordered_sort_insert ordered_def [of "[]"])

lemma same_js_sort: "set xs \<subseteq> A \<Longrightarrow> z \<in> A \<Longrightarrow> same z (js_sort cmp xs) = same z xs"
proof (induction xs)
  case (Cons x xs)
  then show ?case using same_sort_insert [of "js_sort cmp xs" x z] by (auto simp: same_def)
qed simp

text \<open>The merge.\<close>

definition below :: "'a \<Rightarrow> 'a list \<Rightarrow> bool" where
  "below x c \<longleftrightarrow> c = [] \<or> cmp x (hd c) \<le> 0"

definition strictly_below :: "'a \<Rightarrow> 'a list \<Rightarrow> bool" where
  "strictly_below x c \<longleftrightarrow> c = [] \<or> cmp x (hd c) < 0"

lemma min_head_split:
  assumes "set (concat cs) \<subseteq> A" and "\<forall>y k. best = Some (y, k) \<longrightarrow> y \<in> A" and "min_head cmp cs i best = Some (x, j)"
  shows "(best = Some (x, j) \<and> (\<forall>c \<in> set cs. below x c)) \<or>
    (\<exists>ps xs qs. cs = ps @ (x # xs) # qs \<and> j = i + length ps \<and> (\<forall>c \<in> set ps. strictly_below x c) \<and>
      (\<forall>c \<in> set qs. below x c) \<and> (\<forall>y k. best = Some (y, k) \<longrightarrow> cmp x y < 0))"
  using assms
proof (induction cs arbitrary: i best)
  case Nil
  then show ?case by simp
next
  case (Cons c cs)
  have csA: "set (concat cs) \<subseteq> A" using Cons.prems(1) by simp
  show ?case
  proof (cases c)
    case Nil
    then have "min_head cmp cs (Suc i) best = Some (x, j)" using Cons.prems(3) by simp
    from Cons.IH [OF csA Cons.prems(2) this]
    consider "best = Some (x, j)" "\<forall>c \<in> set cs. below x c"
      | ps xs qs where "cs = ps @ (x # xs) # qs" "j = Suc i + length ps" "\<forall>c \<in> set ps. strictly_below x c"
        "\<forall>c \<in> set qs. below x c" "\<forall>y k. best = Some (y, k) \<longrightarrow> cmp x y < 0" by auto
    then show ?thesis
    proof cases
      case 1
      with Nil show ?thesis by (simp add: below_def)
    next
      case 2
      with Nil have "c # cs = (c # ps) @ (x # xs) # qs" "j = i + length (c # ps)"
        "\<forall>d \<in> set (c # ps). strictly_below x d" by (auto simp: strictly_below_def)
      with 2 show ?thesis by blast
    qed
  next
    case c: (Cons h tl)
    define best' where "best' = (case best of None \<Rightarrow> Some (h, i)
      | Some (y, k) \<Rightarrow> if cmp h y < 0 then Some (h, i) else Some (y, k))"
    have hA: "h \<in> A" using Cons.prems(1) c by simp
    have b': "\<forall>y k. best' = Some (y, k) \<longrightarrow> y \<in> A"
      using Cons.prems(2) hA by (auto simp: best'_def split: option.splits if_splits)
    have "min_head cmp cs (Suc i) best' = Some (x, j)" using Cons.prems(3) c by (simp add: best'_def)
    from Cons.IH [OF csA b' this]
    consider "best' = Some (x, j)" "\<forall>c \<in> set cs. below x c"
      | ps xs qs where "cs = ps @ (x # xs) # qs" "j = Suc i + length ps" "\<forall>c \<in> set ps. strictly_below x c"
        "\<forall>c \<in> set qs. below x c" "\<forall>y k. best' = Some (y, k) \<longrightarrow> cmp x y < 0" by auto
    then show ?thesis
    proof cases
      case 1
      show ?thesis
      proof (cases "best = Some (x, j)")
        case True
        with 1(1) have "\<not> cmp h x < 0 \<or> x = h" by (auto simp: best'_def split: if_splits)
        then have "below x c" using c anti [of h x] anti [of x h] hA Cons.prems(2) True
          by (auto simp: below_def refl)
        with 1(2) True show ?thesis by simp
      next
        case False
        with 1(1) have "x = h" "j = i" "\<forall>y k. best = Some (y, k) \<longrightarrow> cmp x y < 0"
          by (auto simp: best'_def split: option.splits if_splits)
        with 1(2) c have "c # cs = [] @ (x # tl) # cs \<and> j = i + length [] \<and> (\<forall>c \<in> set []. strictly_below x c) \<and>
          (\<forall>c \<in> set cs. below x c) \<and> (\<forall>y k. best = Some (y, k) \<longrightarrow> cmp x y < 0)" by simp
        then show ?thesis by blast
      qed
    next
      case 2
      have xA: "x \<in> A" using 2(1) csA by simp
      have "cmp x h < 0"
      proof (cases "best' = Some (h, i)")
        case False
        then obtain y k where y: "best = Some (y, k)" "best' = Some (y, k)" "\<not> cmp h y < 0"
          by (auto simp: best'_def split: option.splits if_splits)
        have yA: "y \<in> A" using b' y(2) by blast
        have "cmp y h \<le> 0" using y(3) anti [of h y] anti [of y h] hA yA by linarith
        then show ?thesis using 2(5) y(2) less_trans1 [of x y h] xA yA hA by blast
      qed (use 2(5) in blast)
      moreover have "cmp x y < 0" if y: "best = Some (y, k)" for y k
      proof (cases "cmp h y < 0")
        case True
        with \<open>cmp x h < 0\<close> less_trans1 [of x h y] xA hA Cons.prems(2) y show ?thesis by auto
      qed (use y 2(5) in \<open>auto simp: best'_def\<close>)
      ultimately have "c # cs = (c # ps) @ (x # xs) # qs \<and> j = i + length (c # ps) \<and>
          (\<forall>d \<in> set (c # ps). strictly_below x d) \<and> (\<forall>c \<in> set qs. below x c) \<and>
          (\<forall>y k. best = Some (y, k) \<longrightarrow> cmp x y < 0)"
        using 2 c by (auto simp: strictly_below_def)
      then show ?thesis by blast
    qed
  qed
qed

lemma min_head_None: "min_head cmp cs i best = None \<longleftrightarrow> best = None \<and> (\<forall>c \<in> set cs. c = [])"
proof (induction cs arbitrary: i best)
  case (Cons c cs)
  then show ?case by (cases c) (auto split: option.splits)
qed simp

lemma pop_head_split: "pop_head (ps @ (x # xs) # qs) (length ps) = filter (\<lambda>c. c \<noteq> []) (ps @ xs # qs)"
  by (simp add: pop_head_def)

lemma concat_nonempty: "concat (filter (\<lambda>c. c \<noteq> []) cs) = concat cs"
  by (induction cs) auto

lemma below_all: "ordered c \<Longrightarrow> set c \<subseteq> A \<Longrightarrow> x \<in> A \<Longrightarrow> below x c \<Longrightarrow> y \<in> set c \<Longrightarrow> cmp x y \<le> 0"
  by (cases c) (auto simp: below_def ordered_def intro: trans)

lemma strictly_below_all:
  "ordered c \<Longrightarrow> set c \<subseteq> A \<Longrightarrow> x \<in> A \<Longrightarrow> strictly_below x c \<Longrightarrow> y \<in> set c \<Longrightarrow> cmp x y < 0"
  by (cases c) (auto simp: strictly_below_def ordered_def intro: less_trans1)

lemma same_append: "same z (xs @ ys) = same z xs @ same z ys"
  by (simp add: same_def)

lemma merge_chunks_correct:
  assumes "\<forall>c \<in> set cs. ordered c" and "set (concat cs) \<subseteq> A"
  shows "ordered (merge_chunks cmp cs) \<and> set (merge_chunks cmp cs) = set (concat cs) \<and>
    (\<forall>z \<in> A. same z (merge_chunks cmp cs) = same z (concat cs))"
  using assms
proof (induction "sum_list (map length cs)" arbitrary: cs rule: less_induct)
  case less
  show ?case
  proof (cases "min_head cmp cs 0 None")
    case None
    then have c: "concat cs = []" by (simp add: min_head_None)
    have m: "merge_chunks cmp cs = []" using None by (subst merge_chunks.simps) simp
    show ?thesis unfolding c m by (simp add: ordered_def)
  next
    case (Some p)
    obtain x i where p: "p = (x, i)" by force
    with min_head_split [OF less(3), of None 0 x i] Some obtain ps xs qs where
      cs: "cs = ps @ (x # xs) # qs" "i = length ps" "\<forall>c \<in> set ps. strictly_below x c" "\<forall>c \<in> set qs. below x c"
      by auto
    define ds where "ds = filter (\<lambda>c. c \<noteq> []) (ps @ xs # qs)"
    have m: "merge_chunks cmp cs = x # merge_chunks cmp ds"
      using Some p by (subst merge_chunks.simps) (simp add: cs(1,2) pop_head_split ds_def)
    have con: "concat ds = concat ps @ xs @ concat qs" by (simp add: ds_def concat_nonempty)
    have "sum_list (map length ds) < sum_list (map length cs)"
      using pop_head_total [of i cs] by (simp add: cs(1,2) pop_head_split ds_def)
    moreover have "\<forall>c \<in> set ds. ordered c" using less(2) by (auto simp: cs(1) ds_def ordered_def)
    moreover have "set (concat ds) \<subseteq> A" using less(3) by (auto simp: con cs(1))
    ultimately have IH: "ordered (merge_chunks cmp ds)" "set (merge_chunks cmp ds) = set (concat ds)"
      "\<forall>z \<in> A. same z (merge_chunks cmp ds) = same z (concat ds)" using less(1) by blast+
    have xA: "x \<in> A" and sub: "set (concat ps) \<subseteq> A" "set xs \<subseteq> A" "set (concat qs) \<subseteq> A"
      using less(3) by (auto simp: cs(1))
    have ps: "cmp x y < 0" if "y \<in> set (concat ps)" for y
    proof -
      from that obtain c where "c \<in> set ps" "y \<in> set c" by auto
      with less(2) cs(3) sub(1) xA show ?thesis by (intro strictly_below_all [of c x y]) (auto simp: cs(1))
    qed
    have "cmp x y \<le> 0" if "y \<in> set (concat ds)" for y
    proof -
      consider "y \<in> set (concat ps)" | "y \<in> set xs" | "y \<in> set (concat qs)" using \<open>y \<in> set (concat ds)\<close> con by auto
      then show ?thesis
      proof cases
        case 1
        then show ?thesis using ps [of y] by simp
      next
        case 2
        then show ?thesis using less(2) by (auto simp: cs(1) ordered_def)
      next
        case 3
        then obtain c where "c \<in> set qs" "y \<in> set c" by auto
        with less(2) cs(4) sub(3) xA show ?thesis by (intro below_all [of c x y]) (auto simp: cs(1))
      qed
    qed
    with IH(1,2) have "ordered (merge_chunks cmp cs)" by (simp add: m ordered_def)
    moreover have "set (merge_chunks cmp cs) = set (concat cs)" 
      unfolding m list.set(2) IH(2) con by (auto simp: cs(1))
    moreover have "same z (merge_chunks cmp cs) = same z (concat cs)" if z: "z \<in> A" for z
    proof -
      have "same z (concat ps) = []" if zx: "cmp z x = 0"
        using ps less_trans2 [OF z xA] sub(1) zx by (fastforce simp: same_def filter_empty_conv)
      moreover have "same z (merge_chunks cmp cs) = same z [x] @ same z (concat ds)"
        unfolding m using IH(3) z by (simp add: same_def)
      moreover have "same z (concat cs) = same z (concat ps) @ same z [x] @ same z (xs @ concat qs)"
        by (simp add: cs(1) same_def)
      ultimately show ?thesis by (cases "cmp z x = 0") (auto simp: con same_append same_def [of _ "[x]"])
    qed
    ultimately show ?thesis by blast
  qed
qed

lemma externalMerge_sorts:
  assumes "set xs \<subseteq> A" and "0 < n"
  shows "externalMerge cmp n xs = Some (js_sort cmp xs)"
proof -
  let ?cs = "chunks n xs"
  have con: "concat ?cs = xs" using assms(2) by (rule concat_chunks)
  have cA: "set c \<subseteq> A" if "c \<in> set ?cs" for c using that con assms(1) by (metis UN_I set_concat subset_iff)
  have "set (concat (map (js_sort cmp) ?cs)) = set (concat ?cs)" by simp
  then have set_eq: "set (concat (map (js_sort cmp) ?cs)) = set xs" unfolding con .
  have "same z (concat (map (js_sort cmp) cs)) = same z (concat cs)" if "z \<in> A" "\<And>c. c \<in> set cs \<Longrightarrow> set c \<subseteq> A" for z cs
    using that by (induction cs) (auto simp: same_append same_js_sort same_def [of _ "[]"])
  then have same_eq: "same z (concat (map (js_sort cmp) ?cs)) = same z xs" if "z \<in> A" for z
    using that cA con by metis
  have "merge_chunks cmp (map (js_sort cmp) ?cs) = js_sort cmp xs"
  proof (rule ordered_unique)
    have M: "ordered (merge_chunks cmp (map (js_sort cmp) ?cs)) \<and>
        set (merge_chunks cmp (map (js_sort cmp) ?cs)) = set xs \<and>
        (\<forall>z \<in> A. same z (merge_chunks cmp (map (js_sort cmp) ?cs)) = same z xs)"
      using merge_chunks_correct [of "map (js_sort cmp) ?cs"] cA assms(1) set_eq same_eq
      by (auto simp: ordered_js_sort)
    then show "ordered (merge_chunks cmp (map (js_sort cmp) ?cs))" "set (merge_chunks cmp (map (js_sort cmp) ?cs)) \<subseteq> A"
      "\<And>x. x \<in> A \<Longrightarrow> same x (merge_chunks cmp (map (js_sort cmp) ?cs)) = same x (js_sort cmp xs)"
      using assms(1) by (auto simp: same_js_sort)
    show "ordered (js_sort cmp xs)" "set (js_sort cmp xs) \<subseteq> A" using assms(1) by (simp_all add: ordered_js_sort)
  qed
  then show ?thesis using assms(2) by (simp add: externalMerge_def chunks_of_def)
qed

end

lemma mset_sort_insert: "mset (sort_insert cmp x ys) = add_mset x (mset ys)"
  by (induction ys) auto

lemma mset_js_sort: "mset (js_sort cmp xs) = mset xs"
  by (induction xs) (simp_all add: js_sort_def mset_sort_insert)

lemma length_js_sort [simp]: "length (js_sort cmp xs) = length xs"
  by (metis mset_js_sort size_mset)
section \<open>The comparator on uniform keys\<close>

text \<open>The values a key may take so that comparisons are consistent; null is always allowed.\<close>

datatype sortDomain = DomNumber | DomBoolean | DomText | DomNumericText

fun in_domain :: "sortDomain \<Rightarrow> jsval \<Rightarrow> bool" where
  "in_domain DomNumber v = (case v of JNum n \<Rightarrow> n \<noteq> NaN | _ \<Rightarrow> False)"
| "in_domain DomBoolean v = (case v of JBool _ \<Rightarrow> True | _ \<Rightarrow> False)"
| "in_domain DomText v = (case v of JStr s \<Rightarrow> parse_float s = NaN | _ \<Rightarrow> False)"
| "in_domain DomNumericText v = (case v of JStr s \<Rightarrow> parse_float s \<noteq> NaN | _ \<Rightarrow> False)"

definition key_values :: "sortDomain \<Rightarrow> jsval set" where
  "key_values d = {v. v = JNull \<or> in_domain d v}"

lemma order_of_comparator:
  assumes "\<And>x y. x \<in> A \<Longrightarrow> y \<in> A \<Longrightarrow> lt x y \<Longrightarrow> \<not> lt y x"
    and "\<And>x y z. x \<in> A \<Longrightarrow> y \<in> A \<Longrightarrow> z \<in> A \<Longrightarrow> \<not> lt y x \<Longrightarrow> \<not> lt z y \<Longrightarrow> \<not> lt z x"
  shows "comparator (\<lambda>x y. order_of (lt x y) (lt y x)) A"
proof -
  have le: "order_of (lt x y) (lt y x) \<le> 0 \<longleftrightarrow> \<not> lt y x" if "x \<in> A" "y \<in> A" for x y
    using assms(1) [OF that] by (auto simp: order_of_def)
  have less: "order_of (lt x y) (lt y x) < 0 \<longleftrightarrow> lt x y" if "x \<in> A" "y \<in> A" for x y
    by (simp add: order_of_def)
  have greater: "0 < order_of (lt x y) (lt y x) \<longleftrightarrow> lt y x" if "x \<in> A" "y \<in> A" for x y
    using assms(1) [OF that] by (auto simp: order_of_def)
  show ?thesis
  proof unfold_locales
    fix x y assume "x \<in> A" "y \<in> A"
    then show "order_of (lt x y) (lt y x) < 0 \<longleftrightarrow> 0 < order_of (lt y x) (lt x y)"
      by (simp add: less greater)
  next
    fix x y z assume "x \<in> A" "y \<in> A" "z \<in> A" "order_of (lt x y) (lt y x) \<le> 0" "order_of (lt y z) (lt z y) \<le> 0"
    then show "order_of (lt x z) (lt z x) \<le> 0"
      using assms(2) [of x y z] le [of x y] le [of y z] le [of x z] by blast
  qed
qed

lemma str_lt_negtrans: "\<not> str_lt t s \<Longrightarrow> \<not> str_lt u t \<Longrightarrow> \<not> str_lt u s"
  using str_lt_total [of s t] str_lt_trans [of u s t] by blast

lemma str_lt_asym: "str_lt s t \<Longrightarrow> \<not> str_lt t s"
  using str_lt_trans str_lt_irrefl by blast

lemma comparatorI:
  assumes "\<And>x y. x \<in> A \<Longrightarrow> y \<in> A \<Longrightarrow> cmp x y < 0 \<longleftrightarrow> 0 < cmp y x"
    and "\<And>x y z. x \<in> A \<Longrightarrow> y \<in> A \<Longrightarrow> z \<in> A \<Longrightarrow> cmp x y \<le> 0 \<Longrightarrow> cmp y z \<le> 0 \<Longrightarrow> cmp x z \<le> 0"
  shows "comparator cmp A"
  by unfold_locales (fact assms)+

lemma comparator_cong:
  assumes "comparator f A" "\<And>x y. x \<in> A \<Longrightarrow> y \<in> A \<Longrightarrow> g x y = f x y"
  shows "comparator g A"
proof (rule comparatorI)
  fix x y assume xy: "x \<in> A" "y \<in> A"
  show "g x y < 0 \<longleftrightarrow> 0 < g y x"
    unfolding assms(2) [OF xy] assms(2) [OF xy(2,1)] by (rule comparator.anti [OF assms(1) xy])
next
  fix x y z assume xyz: "x \<in> A" "y \<in> A" "z \<in> A"
  show "g x y \<le> 0 \<Longrightarrow> g y z \<le> 0 \<Longrightarrow> g x z \<le> 0"
    unfolding assms(2) [OF xyz(1,2)] assms(2) [OF xyz(2,3)] assms(2) [OF xyz(1,3)]
    by (rule comparator.trans [OF assms(1) xyz])
qed

lemma num_comparator:
  assumes "\<And>v. v \<in> A \<Longrightarrow> f v \<noteq> NaN"
  shows "comparator (\<lambda>a b. order_of (num_lt (f a) (f b)) (num_lt (f b) (f a))) A"
proof (rule order_of_comparator)
  fix x y z assume "y \<in> A" "\<not> num_lt (f y) (f x)" "\<not> num_lt (f z) (f y)"
  then show "\<not> num_lt (f z) (f x)" using num_lt_negtrans [of "f y" "f z" "f x"] assms by blast
qed (rule num_lt_asym)

lemma str_comparator: "comparator (\<lambda>a b. order_of (str_lt (f a) (f b)) (str_lt (f b) (f a))) A"
  by (rule order_of_comparator) (blast dest: str_lt_asym str_lt_negtrans)+

lemma in_domain_iff:
  "in_domain DomNumber v \<longleftrightarrow> (\<exists>n. v = JNum n \<and> n \<noteq> NaN)"
  "in_domain DomBoolean v \<longleftrightarrow> (\<exists>b. v = JBool b)"
  "in_domain DomText v \<longleftrightarrow> (\<exists>s. v = JStr s \<and> parse_float s = NaN)"
  "in_domain DomNumericText v \<longleftrightarrow> (\<exists>s. v = JStr s \<and> parse_float s \<noteq> NaN)"
  by (cases v; simp)+

lemma basicCompare_comparator: "comparator basicCompare {v. in_domain d v}"
proof (cases d)
  case DomNumber
  have "comparator (\<lambda>a b. order_of (num_lt (js_number a) (js_number b)) (num_lt (js_number b) (js_number a))) {v. in_domain d v}"
    by (rule num_comparator) (auto simp: DomNumber in_domain_iff simp del: in_domain.simps)
  then show ?thesis
    by (rule comparator_cong) (auto simp: DomNumber in_domain_iff basicCompare_def simp del: in_domain.simps)
next
  case DomBoolean
  show ?thesis
    by (rule comparatorI)
      (auto simp: DomBoolean in_domain_iff basicCompare_def bool_num_def simp del: in_domain.simps split: if_splits)
next
  case DomText
  have "comparator (\<lambda>a b. order_of (str_lt (js_string a) (js_string b)) (str_lt (js_string b) (js_string a))) {v. in_domain d v}"
    by (rule str_comparator)
  then show ?thesis
    by (rule comparator_cong) (auto simp: DomText in_domain_iff basicCompare_def simp del: in_domain.simps)
next
  case DomNumericText
  have "comparator (\<lambda>a b. order_of (num_lt (parse_float (js_string a)) (parse_float (js_string b)))
      (num_lt (parse_float (js_string b)) (parse_float (js_string a)))) {v. in_domain d v}"
    by (rule num_comparator) (auto simp: DomNumericText in_domain_iff simp del: in_domain.simps)
  then show ?thesis
    by (rule comparator_cong) (auto simp: DomNumericText in_domain_iff basicCompare_def simp del: in_domain.simps)
qed

lemma compareKey_comparator: "comparator (compareKey k) (key_values d)"
proof -
  have nn: "v \<noteq> JNull" if "in_domain d v" for v using that by (cases d) auto
  note anti = comparator.anti [OF basicCompare_comparator [of d], unfolded mem_Collect_eq]
  note trans = comparator.trans [OF basicCompare_comparator [of d], unfolded mem_Collect_eq]
  have sym: "basicCompare x y \<le> 0 \<longleftrightarrow> 0 \<le> basicCompare y x" if "in_domain d x" "in_domain d y" for x y
    using anti [OF that] anti [OF that(2,1)] by linarith
  have trans': "0 \<le> basicCompare x z" if "in_domain d x" "in_domain d y" "in_domain d z" "0 \<le> basicCompare x y"
    "0 \<le> basicCompare y z" for x y z
    using trans [of z y x] sym [of z x] sym [of y x] sym [of z y] that by simp
  show ?thesis
  proof unfold_locales
    fix x y assume "x \<in> key_values d" "y \<in> key_values d"
    then show "compareKey k x y < 0 \<longleftrightarrow> 0 < compareKey k y x"
      using anti [of x y] anti [of y x] nn
      by (auto simp: key_values_def compareKey_def compareValues_def)
  next
    fix x y z assume "x \<in> key_values d" "y \<in> key_values d" "z \<in> key_values d" "compareKey k x y \<le> 0" "compareKey k y z \<le> 0"
    then show "compareKey k x z \<le> 0"
      using trans [of x y z] trans' [of x y z] nn
      by (auto simp: key_values_def compareKey_def compareValues_def split: if_splits)
  qed
qed

text \<open>Rows on which every key has a value of its domain.\<close>

definition uniform_rows :: "(exprAST \<Rightarrow> row \<Rightarrow> jsval res) \<Rightarrow> (sortKey \<times> sortDomain) list \<Rightarrow> row set" where
  "uniform_rows ev ks = {r. list_all (\<lambda>(k, d). case ev (sk_expr k) r of Inl _ \<Rightarrow> False
     | Inr v \<Rightarrow> v = JNull \<or> in_domain d v) ks}"

lemma compareRows_comparator:
  "comparator (\<lambda>a b. compareRows ev a b (map fst ks)) (uniform_rows ev ks)"
proof (induction ks)
  case Nil
  show ?case by unfold_locales simp_all
next
  case (Cons kd ks)
  obtain k d where kd: "kd = (k, d)" by force
  let ?c = "\<lambda>a b. compareRows ev a b (map fst ks)" and ?v = "\<lambda>r. projr (ev (sk_expr k) r)"
  let ?R = "uniform_rows ev (kd # ks)"
  have R: "ev (sk_expr k) r = Inr (?v r)" "?v r \<in> key_values d" "r \<in> uniform_rows ev ks" if "r \<in> ?R" for r
    using that by (auto simp: uniform_rows_def key_values_def kd split: sum.splits)
  have eq: "compareRows ev x y (map fst (kd # ks)) = (if compareKey k (?v x) (?v y) \<noteq> 0
      then compareKey k (?v x) (?v y) else ?c x y)" if xy: "x \<in> ?R" "y \<in> ?R" for x y
  proof -
    obtain v w where "ev (sk_expr k) x = Inr v" "ev (sk_expr k) y = Inr w"
      using R(1) [OF xy(1)] R(1) [OF xy(2)] by blast
    then show ?thesis by (simp add: kd)
  qed
  have key: "comparator (compareKey k) (key_values d)" by (rule compareKey_comparator)
  note k_anti = comparator.anti [OF key] and k_less = comparator.less_trans1 [OF key] comparator.less_trans2 [OF key]
    and k_zero = comparator.zero_sym [OF key] and k_trans = comparator.trans [OF key]
  note c_anti = comparator.anti [OF Cons] and c_trans = comparator.trans [OF Cons]
  show ?case
  proof (rule comparatorI)
    fix x y assume xy: "x \<in> ?R" "y \<in> ?R"
    show "compareRows ev x y (map fst (kd # ks)) < 0 \<longleftrightarrow> 0 < compareRows ev y x (map fst (kd # ks))"
      unfolding eq [OF xy] eq [OF xy(2,1)]
      using k_anti [OF R(2) [OF xy(1)] R(2) [OF xy(2)]] k_anti [OF R(2) [OF xy(2)] R(2) [OF xy(1)]]
        c_anti [OF R(3) [OF xy(1)] R(3) [OF xy(2)]] by auto
  next
    fix x y z assume xyz: "x \<in> ?R" "y \<in> ?R" "z \<in> ?R"
      and le: "compareRows ev x y (map fst (kd # ks)) \<le> 0" "compareRows ev y z (map fst (kd # ks)) \<le> 0"
    let ?k = "\<lambda>a b. compareKey k (?v a) (?v b)"
    note v = R(2) [OF xyz(1)] R(2) [OF xyz(2)] R(2) [OF xyz(3)]
    consider "?k x y < 0" "?k y z \<le> 0" | "?k x y = 0" "?k y z < 0"
      | "?k x y = 0" "?k y z = 0" "?c x y \<le> 0" "?c y z \<le> 0"
      using le unfolding eq [OF xyz(1,2)] eq [OF xyz(2,3)] by (auto split: if_splits)
    then show "compareRows ev x z (map fst (kd # ks)) \<le> 0"
    proof cases
      case 1
      with k_less(1) [OF v] show ?thesis unfolding eq [OF xyz(1,3)] by auto
    next
      case 2
      with k_less(2) [OF v] show ?thesis unfolding eq [OF xyz(1,3)] by auto
    next
      case 3
      then have "?k x z \<le> 0" "?c x z \<le> 0"
        using k_trans [OF v] c_trans [OF R(3) [OF xyz(1)] R(3) [OF xyz(2)] R(3) [OF xyz(3)]] by simp_all
      then show ?thesis unfolding eq [OF xyz(1,3)] by auto
    qed
  qed
qed

interpretation compare_rows: comparator "\<lambda>a b. compareRows ev a b (map fst ks)" "uniform_rows ev ks" for ev ks
  by (rule compareRows_comparator)

section \<open>The sort operator\<close>

text \<open>The spilled chunks live in the store under their offsets until the merge is over.\<close>

definition chunk_key :: "nat \<Rightarrow> string" where
  "chunk_key i = ''sort_chunk_'' @ int_digits (int i)"

definition spill_chunks :: "tempStore \<Rightarrow> nat \<Rightarrow> row list list \<Rightarrow> tempStore" where
  "spill_chunks ts n cs = (let keyed = zip (map (\<lambda>i. chunk_key (i * n)) [0..<length cs]) cs
     in foldl (\<lambda>ts (k, c). ts_delete ts k)
          (foldl (\<lambda>ts (k, c). ts_write ts k \<lparr>b_rows = c, b_schema = []\<rparr>) ts keyed) keyed)"

definition sort_modelled :: "(exprAST \<Rightarrow> row \<Rightarrow> jsval res) \<Rightarrow> sortKey list \<Rightarrow> row list \<Rightarrow> bool" where
  "sort_modelled ev keys rows \<longleftrightarrow> list_all (\<lambda>r. list_all (\<lambda>k. \<not> unmodelled (ev (sk_expr k) r)) keys) rows"

definition sortRows :: "(exprAST \<Rightarrow> row \<Rightarrow> jsval res) \<Rightarrow> sortKey list \<Rightarrow> nat \<Rightarrow> row list \<Rightarrow> row list res option" where
  "sortRows ev keys limit rows =
     (if \<not> sort_modelled ev keys rows then Some (Inl (Unmodelled ''sort key''))
      else if length rows \<le> limit then Some (Inr (js_sort (\<lambda>a b. compareRows ev a b keys) rows))
      else map_option Inr (externalMerge (\<lambda>a b. compareRows ev a b keys) limit rows))"

lemma sortRows_uniform:
  assumes "set rows \<subseteq> uniform_rows ev ks" and "0 < limit \<or> rows = []"
  shows "sortRows ev (map fst ks) limit rows = Some (Inr (js_sort (\<lambda>a b. compareRows ev a b (map fst ks)) rows))"
proof -
  have "\<not> unmodelled (ev (sk_expr k) r)" if "r \<in> set rows" "(k, d) \<in> set ks" for r k d
  proof (cases "ev (sk_expr k) r")
    case (Inl e)
    with assms(1) that show ?thesis by (force simp: uniform_rows_def list_all_iff)
  qed simp
  then have "sort_modelled ev (map fst ks) rows" by (auto simp: sort_modelled_def list_all_iff)
  with compare_rows.externalMerge_sorts [OF assms(1), of limit] assms(2) show ?thesis
    by (auto simp: sortRows_def)
qed

definition sort_build :: "host \<Rightarrow> fnRegistry \<Rightarrow> sortKey list \<Rightarrow> nat \<Rightarrow> build" where
  "sort_build h reg keys limit c n rows ts =
     Option.bind (sortRows (\<lambda>e r. evaluate h reg e (ctx_scope c) (Some r)) keys limit rows) (\<lambda>r. case r of
         Inl e \<Rightarrow> Some (Inl e, ts)
       | Inr out \<Rightarrow> Option.bind (chunkRows out n) (\<lambda>bs. Some (Inr bs,
           if length rows \<le> limit then ts else spill_chunks ts limit (chunks limit rows))))"

definition sortOperator :: "host \<Rightarrow> fnRegistry \<Rightarrow> 's operator \<Rightarrow> sortKey list \<Rightarrow> nat \<Rightarrow> 's buildState phys operator" where
  "sortOperator h reg inp keys limit = build_operator ''Sort'' ''SortOperator'' (sort_build h reg keys limit) inp"

lemma sort_builds:
  assumes "sortRows (\<lambda>e r. evaluate h reg e (ctx_scope c) (Some r)) keys limit rs = Some (Inr out)"
  shows "builds (sort_build h reg keys limit) c rs out"
  unfolding builds_def
proof (intro allI impI)
  fix n :: nat and ts assume n: "0 < n"
  obtain bs where "chunkRows out n = Some bs" "concat (map b_rows bs) = out" "nonempty_batches bs"
    using chunkRows_delivers [OF n] .
  with assms show "\<exists>bs ts'. sort_build h reg keys limit c n rs ts = Some (Inr bs, ts') \<and>
      concat (map b_rows bs) = out \<and> nonempty_batches bs" by (simp add: sort_build_def)
qed

section \<open>Correctness of the sort\<close>

definition row_eval :: "host \<Rightarrow> fnRegistry \<Rightarrow> execContext \<Rightarrow> exprAST \<Rightarrow> row \<Rightarrow> jsval res" where
  "row_eval h reg c e r = evaluate h reg e (ctx_scope c) (Some r)"


definition by_id :: sortKey where
  "by_id = \<lparr>sk_expr = FieldRef None ''id'', sk_asc = False, sk_nullsFirst = False\<rparr>"


text \<open>
  the external merge sort is the sort in memory.  On rows with uniform keys, cutting
  them into chunks of any positive size, sorting the chunks and merging them gives the very
  list the sort in memory gives, ties included.
\<close>

theorem external_sort_equals_memory_sort:
  assumes "set rows \<subseteq> uniform_rows ev ks" and "0 < limit"
  shows "externalMerge (\<lambda>a b. compareRows ev a b (map fst ks)) limit rows
    = Some (js_sort (\<lambda>a b. compareRows ev a b (map fst ks)) rows)"
  by (rule compare_rows.externalMerge_sorts [OF assms])

theorem external_sort_equals_memory_sort_witness:
  "externalMerge (\<lambda>a b. compareRows (\<lambda>_ r. Inr (row_get r ''id'')) a b [by_id]) 2
     [[(''id'', JNum (Fin 1))], [(''id'', JNum (Fin 3))], [(''id'', JNum (Fin 2))]]
   = Some [[(''id'', JNum (Fin 3))], [(''id'', JNum (Fin 2))], [(''id'', JNum (Fin 1))]]"
  using external_sort_equals_memory_sort [of "[[(''id'', JNum (Fin 1))], [(''id'', JNum (Fin 3))], [(''id'', JNum (Fin 2))]]"
      "\<lambda>_ r. Inr (row_get r ''id'')" "[(by_id, DomNumber)]" 2]
  by (simp add: uniform_rows_def js_sort_def compareKey_def compareValues_def basicCompare_def order_of_def by_id_def)

text \<open>
  dates written as ISO strings are compared by the number \<open>parseFloat\<close> reads, which is
  the year; an ascending sort leaves December before January.
\<close>

theorem iso_dates_not_sorted:
  "sortRows (\<lambda>_ r. Inr (row_get r ''at'')) [\<lparr>sk_expr = FieldRef None ''at'', sk_asc = True, sk_nullsFirst = False\<rparr>] 10
     [[(''at'', JStr ''2024-12-01'')], [(''at'', JStr ''2024-01-15'')]]
   = Some (Inr [[(''at'', JStr ''2024-12-01'')], [(''at'', JStr ''2024-01-15'')]]) \<and>
   js_lt (JStr ''2024-01-15'') (JStr ''2024-12-01'')"
proof -
  have "parse_float ''2024-12-01'' = Fin 2024" "parse_float ''2024-01-15'' = Fin 2024"
    using num_of_int_exact [of 2024]
    by (simp_all add: parse_float_def split_sign_def is_space_def parse_decimal_def is_digit_def digits_val_def
        parse_exponent_def pow10_def apply_sign_def)
  then show ?thesis
    by (simp add: sortRows_def sort_modelled_def js_sort_def compareKey_def compareValues_def basicCompare_def
        order_of_def js_lt_def to_primitive_def)
qed

text \<open>
  on a column that mixes numbers and numeric strings the comparator is not consistent:
  it puts 9 before 10, 10 before \<open>"9"\<close>, and \<open>"9"\<close> level with 9.
\<close>

theorem mixed_keys_inconsistent:
  "basicCompare (JNum (Fin 9)) (JNum (Fin 10)) = - 1 \<and> basicCompare (JNum (Fin 10)) (JStr ''9'') = - 1 \<and>
   basicCompare (JStr ''9'') (JNum (Fin 9)) = 0 \<and> \<not> comparator basicCompare UNIV"
proof -
  have s: "num_to_string (Fin 9) = ''9''" "num_to_string (Fin 10) = ''10''"
    using num_of_int_exact [of 9] num_of_int_exact [of 10] num_of_int_exact [of 20]
    by (simp_all add: pos_to_string_def floor_log10_def pow10_def upt_conv_Cons shortest_candidate_def Let_def
        layout_digits_def int_digits.simps char_of_def)
  then have *: "basicCompare (JNum (Fin 9)) (JNum (Fin 10)) = - 1" "basicCompare (JNum (Fin 10)) (JStr ''9'') = - 1"
    "basicCompare (JStr ''9'') (JNum (Fin 9)) = 0"
    by (simp_all add: basicCompare_def order_of_def)
  moreover have "\<not> comparator basicCompare UNIV"
  proof
    assume "comparator basicCompare UNIV"
    from comparator.less_trans1 [OF this, of "JNum (Fin 10)" "JStr ''9''" "JNum (Fin 9)"]
      comparator.anti [OF \<open>comparator basicCompare UNIV\<close>, of "JNum (Fin 9)" "JNum (Fin 10)"] * show False by simp
  qed
  ultimately show ?thesis by blast
qed

end
