(* ===== verification/DataNodes.thy ===== *)
theory DataNodes
  imports Payloads DataValues Sorting
begin

text \<open>
  The nodes that reshape rows: \<open>src/src/nodes/definitions/transform-node.ts\<close> and \<open>merge-node.ts\<close>.

  The transform node makes an evaluator of its own over an empty function registry.  \<^verbatim>\<open>in\<close> on a row is
  taken as a test of its own fields.  When a sort key cannot be evaluated on some row of at least two, the
  sort throws, and which error comes first is left to the engine: the model stops there.
\<close>

section \<open>Transform\<close>

definition operation_errors :: "transformOp \<Rightarrow> string list" where
  "operation_errors op = (case op of
       AddField name e \<Rightarrow> if name = [] then [''addField operation requires name and expr''] else []
     | RemoveField name \<Rightarrow> if name = [] then [''removeField operation requires name''] else []
     | RenameField f t \<Rightarrow> if f = [] \<or> t = [] then [''renameField operation requires from and to''] else []
     | CastField name ty \<Rightarrow> if name = [] then [''castField operation requires name and to''] else []
     | FilterRows p \<Rightarrow> []
     | SortRows ks \<Rightarrow> if ks = [] then [''sortRows operation requires non-empty keys array''] else []
     | Dedup on \<Rightarrow> if on = [] then [''dedup operation requires non-empty on array''] else []
     | LimitRows n \<Rightarrow> if num_lt n (Fin 0) then [''limit operation requires non-negative count''] else [])"

definition validateTransform :: "transformOp list \<Rightarrow> string list" where
  "validateTransform ops = (if ops = [] then [''Operations must be a non-empty array'']
     else concat (map operation_errors ops))"

definition rename_field :: "string \<Rightarrow> string \<Rightarrow> row \<Rightarrow> row" where
  "rename_field f t r = (if al_has f r then al_del f (row_set t (row_get r f) r) else r)"

definition cast_simple :: "engineType \<Rightarrow> jsval \<Rightarrow> jsval" where
  "cast_simple ty v = (case ty of TString \<Rightarrow> JStr (js_string v) | TNumber \<Rightarrow> JNum (js_number v)
     | TBoolean \<Rightarrow> JBool (truthy v) | _ \<Rightarrow> v)"

definition cast_field :: "string \<Rightarrow> engineType \<Rightarrow> row \<Rightarrow> row" where
  "cast_field f ty r = (if al_has f r then row_set f (cast_simple ty (row_get r f)) r else r)"

definition rename_column :: "string \<Rightarrow> string \<Rightarrow> column \<Rightarrow> column" where
  "rename_column f t c = (if col_name c = f then Column t (col_type c) (col_nullable c) else c)"

definition retype_column :: "string \<Rightarrow> engineType \<Rightarrow> column \<Rightarrow> column" where
  "retype_column f ty c = (if col_name c = f then Column f ty (col_nullable c) else c)"

fun filterR :: "('a \<Rightarrow> bool res) \<Rightarrow> 'a list \<Rightarrow> 'a list res" where
  "filterR p [] = Inr []"
| "filterR p (x # xs) = bindR (p x) (\<lambda>b. mapRes (\<lambda>ys. if b then x # ys else ys) (filterR p xs))"

text \<open>The comparator on keys that can be evaluated; nulls come last ascending and first descending.\<close>

fun transform_compare :: "(exprAST \<Rightarrow> row \<Rightarrow> jsval res) \<Rightarrow> (exprAST \<times> sortDirection) list \<Rightarrow> row \<Rightarrow> row \<Rightarrow> int" where
  "transform_compare ev [] a b = 0"
| "transform_compare ev ((e, d) # ks) a b = (case (ev e a, ev e b) of
     (Inr x, Inr y) \<Rightarrow> let up = (if d = Asc then 1 else - 1) in
       if x = JNull \<and> y = JNull then transform_compare ev ks a b
       else if x = JNull then up
       else if y = JNull then - up
       else if js_lt x y then - up
       else if js_lt y x then up
       else transform_compare ev ks a b
   | _ \<Rightarrow> 0)"

definition sort_rows :: "(exprAST \<Rightarrow> row \<Rightarrow> jsval res) \<Rightarrow> (exprAST \<times> sortDirection) list \<Rightarrow> row list \<Rightarrow> row list res" where
  "sort_rows ev ks rows = (if length rows < 2 then Inr rows
     else if list_all (\<lambda>r. list_all (\<lambda>(e, d). \<not> isl (ev e r)) ks) rows
       then Inr (js_sort (transform_compare ev ks) rows)
     else Inl (Unmodelled ''sort key''))"

definition row_key :: "string list \<Rightarrow> row \<Rightarrow> string" where
  "row_key on r = join_str ''|'' (map (\<lambda>f. js_string (row_get r f)) on)"

fun dedup_rows :: "string list \<Rightarrow> string list \<Rightarrow> row list \<Rightarrow> row list" where
  "dedup_rows on seen [] = []"
| "dedup_rows on seen (r # rs) = (if row_key on r \<in> set seen then dedup_rows on seen rs
     else r # dedup_rows on (row_key on r # seen) rs)"

text \<open>\<^verbatim>\<open>slice(0, n)\<close>.\<close>

definition slice_end :: "jsnum \<Rightarrow> nat \<Rightarrow> nat" where
  "slice_end n len = (case n of
       Fin q \<Rightarrow> let i = rat_trunc q in nat (if i < 0 then max 0 (int len + i) else min i (int len))
     | Inf negative \<Rightarrow> if negative then 0 else len
     | _ \<Rightarrow> 0)"

definition apply_op :: "(exprAST \<Rightarrow> row \<Rightarrow> jsval res) \<Rightarrow> transformOp \<Rightarrow> row list \<times> rowSchema \<Rightarrow> (row list \<times> rowSchema) res" where
  "apply_op ev op = (\<lambda>(rows, sch). case op of
       AddField name e \<Rightarrow> mapRes (\<lambda>rs. (rs, sch @ [Column name TAny True]))
         (mapR (\<lambda>r. mapRes (\<lambda>v. row_set name v r) (ev e r)) rows)
     | RemoveField name \<Rightarrow> Inr (map (al_del name) rows, filter (\<lambda>c. col_name c \<noteq> name) sch)
     | RenameField f t \<Rightarrow> Inr (map (rename_field f t) rows, map (rename_column f t) sch)
     | CastField name ty \<Rightarrow> Inr (map (cast_field name ty) rows, map (retype_column name ty) sch)
     | FilterRows p \<Rightarrow> mapRes (\<lambda>rs. (rs, sch)) (filterR (\<lambda>r. mapRes truthy (ev p r)) rows)
     | SortRows ks \<Rightarrow> mapRes (\<lambda>rs. (rs, sch)) (sort_rows ev ks rows)
     | Dedup on \<Rightarrow> Inr (dedup_rows on [] rows, sch)
     | LimitRows n \<Rightarrow> Inr (take (slice_end n (length rows)) rows, sch))"

fun apply_ops :: "(exprAST \<Rightarrow> row \<Rightarrow> jsval res) \<Rightarrow> transformOp list \<Rightarrow> row list \<times> rowSchema \<Rightarrow> (row list \<times> rowSchema) res" where
  "apply_ops ev [] st = Inr st"
| "apply_ops ev (op # ops) st = bindR (apply_op ev op st) (apply_ops ev ops)"

definition node_eval :: "host \<Rightarrow> execContext \<Rightarrow> exprAST \<Rightarrow> row \<Rightarrow> jsval res" where
  "node_eval h c e r = evaluate h [] e (ctx_scope c) (Some r)"

definition executeTransform :: "host \<Rightarrow> transformOp list \<Rightarrow> dataValue \<Rightarrow> execContext \<Rightarrow> dataValue res" where
  "executeTransform h ops v c = (let t = toTabular v in
     mapRes (\<lambda>(rows, sch). DTabular (RowSet sch rows) sch) (apply_ops (node_eval h c) ops (rs_rows t, rs_schema t)))"

section \<open>Merge\<close>

datatype mergeStrategy = MsUnion | MsJoin | MsFirst | MsLast

definition merge_tables :: "dataValue \<Rightarrow> rowset list" where
  "merge_tables v = (case v of
       DCollection vs k \<Rightarrow> concat (map (\<lambda>d. case d of DTabular r s \<Rightarrow> [r] | _ \<Rightarrow> []) vs)
     | DTabular r s \<Rightarrow> [r]
     | _ \<Rightarrow> [])"

text \<open>The key of a row: \<open>join\<close> writes null and undefined as nothing.\<close>

definition merge_key :: "string list \<Rightarrow> row \<Rightarrow> string" where
  "merge_key on r = join_str ''|'' (map (\<lambda>f. let v = row_get r f in if v = JNull \<or> v = JUndef then [] else js_string v) on)"

type_synonym mergeTable = "(string \<times> row list) list"

definition at_key :: "mergeTable \<Rightarrow> string \<Rightarrow> row list" where
  "at_key table k = (case map_of table k of None \<Rightarrow> [] | Some rs \<Rightarrow> rs)"

fun fill_merge :: "string list \<Rightarrow> row list \<Rightarrow> mergeTable \<Rightarrow> mergeTable" where
  "fill_merge on [] table = table"
| "fill_merge on (r # rs) table = fill_merge on rs (al_set (merge_key on r) (at_key table (merge_key on r) @ [r]) table)"

definition join_step :: "string list \<Rightarrow> mergeTable \<Rightarrow> row list \<Rightarrow> row list" where
  "join_step on table rows = concat (map (\<lambda>r. map (\<lambda>m. row_assign m r) (at_key table (merge_key on r))) rows)"

text \<open>Each further input is joined with the rows of the step before; the rows of all steps are collected.\<close>

fun join_inputs :: "string list \<Rightarrow> mergeTable \<Rightarrow> rowset list \<Rightarrow> row list" where
  "join_inputs on table [] = []"
| "join_inputs on table (t # ts) = (let new = join_step on table (rs_rows t) in new @ join_inputs on (fill_merge on new []) ts)"

definition hashJoin :: "string list \<Rightarrow> rowset list \<Rightarrow> rowset" where
  "hashJoin on ts = (let rows = (case ts of [] \<Rightarrow> [] | t # us \<Rightarrow> join_inputs on (fill_merge on (rs_rows t) []) us)
     in RowSet (case rows of [] \<Rightarrow> [] | r # _ \<Rightarrow> any_schema r) rows)"

definition empty_rows :: rowset where
  "empty_rows = RowSet [] []"

definition executeMergeNode :: "mergeStrategy \<Rightarrow> string list option \<Rightarrow> dataValue \<Rightarrow> dataValue res" where
  "executeMergeNode st on v = (let ts = merge_tables v; table = (\<lambda>r. DTabular r (rs_schema r)) in
     case st of
       MsUnion \<Rightarrow> Inr (table (case ts of [] \<Rightarrow> empty_rows | t # _ \<Rightarrow> RowSet (rs_schema t) (concat (map rs_rows ts))))
     | MsFirst \<Rightarrow> Inr (table (case ts of [] \<Rightarrow> empty_rows | t # _ \<Rightarrow> t))
     | MsLast \<Rightarrow> Inr (table (if ts = [] then empty_rows else last ts))
     | MsJoin \<Rightarrow> if opt_list on = [] then Inl (PlainError ''joinOn fields required for join strategy'')
         else if length ts < 2 then Inl (PlainError ''At least 2 inputs required for join'')
         else Inr (table (hashJoin (opt_list on) ts)))"

section \<open>What transformations keep\<close>

definition fields :: "row \<Rightarrow> string set" where
  "fields r = fst ` set r"

lemma fields_row_set [simp]: "fields (row_set k v r) = insert k (fields r)"
  by (simp add: fields_def row_set_def fst_row_insert)

lemma fields_al_del [simp]: "fields (al_del k r) = fields r - {k}"
  by (auto simp: fields_def set_al_del)

lemma al_has_fields: "al_has k r \<longleftrightarrow> k \<in> fields r"
  by (simp add: al_has_def fields_def)

lemma fields_Cons: "fields (p # r) = insert (fst p) (fields r)"
  by (simp add: fields_def)

lemma fields_row_assign: "fields (row_assign r fs) = fields r \<union> fields fs"
proof (induction fs arbitrary: r)
  case Nil
  show ?case by (simp add: fields_def)
next
  case (Cons p fs)
  then show ?case by (cases p) (simp add: fields_Cons)
qed

definition columns :: "rowSchema \<Rightarrow> string set" where
  "columns sch = col_name ` set sch"

definition fits :: "row list \<Rightarrow> rowSchema \<Rightarrow> bool" where
  "fits rows sch \<longleftrightarrow> (\<forall>r \<in> set rows. fields r = columns sch)"

lemma fits_map:
  assumes "fits rows sch" "\<And>r. fields r = columns sch \<Longrightarrow> fields (f r) = columns sch'"
  shows "fits (map f rows) sch'"
  using assms by (auto simp: fits_def)

lemma fits_subset: "fits rows sch \<Longrightarrow> set out \<subseteq> set rows \<Longrightarrow> fits out sch"
  by (auto simp: fits_def)

lemma filterR_subseq: "filterR p xs = Inr ys \<Longrightarrow> subseq ys xs"
  by (induction xs arbitrary: ys) (auto simp: result_simps)

lemma dedup_subseq: "subseq (dedup_rows on seen rs) rs"
  by (induction on seen rs rule: dedup_rows.induct) auto

lemma subseq_subset: "subseq xs ys \<Longrightarrow> set xs \<subseteq> set ys"
  by (induction rule: list_emb.induct) auto

lemma set_sort_rows: "sort_rows ev ks rows = Inr out \<Longrightarrow> set out = set rows"
  by (metis Inr_inject Inl_Inr_False mset_js_sort set_mset_mset sort_rows_def)

lemma mapR_set:
  assumes "mapR (\<lambda>r. mapRes (\<lambda>v. g v r) (ev r)) rows = Inr out" "r \<in> set out"
  shows "\<exists>r0 \<in> set rows. \<exists>v. r = g v r0"
  using assms by (induction rows arbitrary: out) (auto simp: result_simps)

lemma columns_snoc: "columns (sch @ [Column n ty b]) = insert n (columns sch)"
  by (simp add: columns_def)

lemma columns_removed: "columns (filter (\<lambda>c. col_name c \<noteq> n) sch) = columns sch - {n}"
  by (auto simp: columns_def)

lemma columns_retyped: "columns (map (retype_column f ty) sch) = columns sch"
proof -
  have "col_name (retype_column f ty c) = col_name c" for c by (simp add: retype_column_def)
  then show ?thesis by (simp add: columns_def image_image)
qed

lemma columns_renamed:
  "columns (map (rename_column f t) sch) = (if f \<in> columns sch then insert t (columns sch - {f}) else columns sch)"
  by (induction sch) (auto simp: columns_def rename_column_def)

lemma fields_rename_field:
  "f \<noteq> t \<Longrightarrow> fields (rename_field f t r) = (if f \<in> fields r then insert t (fields r - {f}) else fields r)"
  by (auto simp: rename_field_def al_has_fields)

lemma fields_cast_field: "fields (cast_field f ty r) = fields r"
  by (auto simp: cast_field_def al_has_fields)

lemma add_field_fits:
  assumes "mapR (\<lambda>r. mapRes (\<lambda>v. row_set n v r) (ev e r)) rows = Inr out" "fits rows sch"
  shows "fits out (sch @ [Column n TAny True])"
  unfolding fits_def columns_snoc
proof
  fix r assume "r \<in> set out"
  with mapR_set [OF assms(1)] obtain r0 v where "r0 \<in> set rows" "r = row_set n v r0" by blast
  with assms(2) show "fields r = insert n (columns sch)" by (simp add: fits_def)
qed

lemma apply_op_fits:
  assumes run: "apply_op ev op (rows, sch) = Inr (rows', sch')" and fit: "fits rows sch" and "\<And>f. op \<noteq> RenameField f f"
  shows "fits rows' sch'"
proof (cases op)
  case (AddField name e)
  with run fit show ?thesis by (auto simp: apply_op_def result_simps intro: add_field_fits)
next
  case (RemoveField name)
  from fit have "fits (map (al_del name) rows) (filter (\<lambda>c. col_name c \<noteq> name) sch)"
    by (rule fits_map) (simp add: columns_removed)
  with run RemoveField show ?thesis by (simp add: apply_op_def)
next
  case (RenameField f t)
  with assms(3) have "f \<noteq> t" by blast
  with fit have "fits (map (rename_field f t) rows) (map (rename_column f t) sch)"
    by (intro fits_map [OF fit]) (simp add: columns_renamed fields_rename_field)
  with run RenameField show ?thesis by (simp add: apply_op_def)
next
  case (CastField name ty)
  from fit have "fits (map (cast_field name ty) rows) (map (retype_column name ty) sch)"
    by (rule fits_map) (simp add: columns_retyped fields_cast_field)
  with run CastField show ?thesis by (simp add: apply_op_def)
next
  case (FilterRows p)
  with run have "filterR (\<lambda>r. mapRes truthy (ev p r)) rows = Inr rows'" "sch' = sch" by (auto simp: apply_op_def result_simps)
  with fits_subset [OF fit subseq_subset [OF filterR_subseq]] show ?thesis by metis
next
  case (SortRows ks)
  with run have "sort_rows ev ks rows = Inr rows'" "sch' = sch" by (auto simp: apply_op_def result_simps)
  with fits_subset [OF fit] set_sort_rows show ?thesis by blast
next
  case (Dedup on)
  with run have "rows' = dedup_rows on [] rows" "sch' = sch" by (simp_all add: apply_op_def)
  with fits_subset [OF fit subseq_subset [OF dedup_subseq]] show ?thesis by simp
next
  case (LimitRows n)
  with run have "rows' = take (slice_end n (length rows)) rows" "sch' = sch" by (simp_all add: apply_op_def)
  with fits_subset [OF fit set_take_subset] show ?thesis by simp
qed

lemma apply_ops_fits:
  "apply_ops ev ops (rows, sch) = Inr (rows', sch') \<Longrightarrow> fits rows sch \<Longrightarrow> (\<And>f. RenameField f f \<notin> set ops) \<Longrightarrow>
   fits rows' sch'"
proof (induction ops arbitrary: rows sch)
  case (Cons op ops)
  then obtain rs s where "apply_op ev op (rows, sch) = Inr (rs, s)" "apply_ops ev ops (rs, s) = Inr (rows', sch')"
    by (auto simp: result_simps)
  moreover have "op \<noteq> RenameField f f" for f using Cons.prems(3) [of f] by auto
  ultimately show ?case using Cons.IH Cons.prems(2,3) apply_op_fits by (metis list.set_intros(2))
qed simp

text \<open>
  C36: whatever operations a transform runs, other than a rename of a field to itself, rows that have exactly the columns of their
  schema still have exactly the columns of the schema that comes with them.
\<close>

theorem transform_rows_fit:
  assumes "executeTransform h ops v c = Inr out" "fits (rs_rows (toTabular v)) (rs_schema (toTabular v))"
    "\<And>f. RenameField f f \<notin> set ops"
  shows "\<exists>rs. out = DTabular rs (rs_schema rs) \<and> fits (rs_rows rs) (rs_schema rs)"
  using assms apply_ops_fits [of "node_eval h c" ops "rs_rows (toTabular v)" "rs_schema (toTabular v)"]
  by (auto simp: executeTransform_def Let_def result_simps split_def)

definition people :: dataValue where
  "people = DTabular (RowSet [Column ''a'' TAny True] [[(''a'', JStr ''p'')], [(''a'', JStr ''p'')], [(''a'', JNull)]])
     [Column ''a'' TAny True]"

definition tidy :: "transformOp list" where
  "tidy = [AddField ''b'' (FieldRef None ''a''), RenameField ''a'' ''k'', Dedup [''k''], FilterRows (FieldRef None ''k'')]"

definition tidied :: dataValue where
  "tidied = DTabular (RowSet [Column ''k'' TAny True, Column ''b'' TAny True] [[(''b'', JStr ''p''), (''k'', JStr ''p'')]])
     [Column ''k'' TAny True, Column ''b'' TAny True]"

theorem transform_rows_fit_witness:
  "executeTransform no_host tidy people sample_ctx = Inr tidied \<and>
   (\<exists>rs. tidied = DTabular rs (rs_schema rs) \<and> fits (rs_rows rs) (rs_schema rs))"
proof -
  have run: "executeTransform no_host tidy people sample_ctx = Inr tidied" by code_simp
  have "fits (rs_rows (toTabular people)) (rs_schema (toTabular people))"
    by (simp add: people_def fits_def fields_def columns_def)
  moreover have "RenameField f f \<notin> set tidy" for f by (simp add: tidy_def)
  ultimately show ?thesis using run transform_rows_fit [OF run] by blast
qed

text \<open>
  a transform whose evaluator meets a function call fails: with any function at all, its registry does not know it.
\<close>

theorem transform_calls_fail:
  assumes "rs_rows (toTabular v) \<noteq> []"
  shows "executeTransform h (AddField n (FunctionCall f args) # ops) v c = Inl (FunctionNotFoundError f)"
proof -
  obtain r rs where "rs_rows (toTabular v) = r # rs" using assms by (cases "rs_rows (toTabular v)") auto
  then show ?thesis by (simp add: executeTransform_def apply_op_def node_eval_def fn_get_def)
qed

theorem transform_calls_fail_witness:
  "executeTransform no_host [AddField ''b'' (FunctionCall ''UPPER'' [FieldRef None ''a''])] people sample_ctx =
   Inl (FunctionNotFoundError ''UPPER'')"
  by (rule transform_calls_fail) (simp add: people_def)

section \<open>What dedup keeps\<close>

definition first_with_key :: "string list \<Rightarrow> row list \<Rightarrow> nat \<Rightarrow> bool" where
  "first_with_key on rs i \<longleftrightarrow> row_key on (rs ! i) \<notin> row_key on ` set (take i rs)"

lemma dedup_rows_firsts:
  "dedup_rows on seen rs = map ((!) rs)
     (filter (\<lambda>i. row_key on (rs ! i) \<notin> set seen \<and> row_key on (rs ! i) \<notin> row_key on ` set (take i rs)) [0..<length rs])"
proof (induction rs arbitrary: seen)
  case (Cons r rs)
  have up: "[0..<Suc (length rs)] = 0 # map Suc [0..<length rs]" by (simp add: upt_conv_Cons map_Suc_upt del: upt_Suc)
  show ?case
  proof (cases "row_key on r \<in> set seen")
    case True
    then have "k \<notin> set seen \<and> k \<noteq> row_key on r \<and> k \<notin> S \<longleftrightarrow> k \<notin> set seen \<and> k \<notin> S" for k S by blast
    with True Cons.IH show ?thesis by (simp add: up filter_map o_def del: upt_Suc)
  next
    case False
    have "k \<noteq> row_key on r \<and> k \<notin> A \<and> k \<notin> S \<longleftrightarrow> k \<notin> A \<and> k \<noteq> row_key on r \<and> k \<notin> S" for k A S by blast
    with False show ?thesis by (simp add: up filter_map o_def Cons.IH del: upt_Suc)
  qed
qed simp

text \<open>
  dedup keeps, in order, exactly the rows before which no row has the same key.
\<close>

theorem dedup_keeps_firsts:
  "apply_op ev (Dedup on) (rows, sch) = Inr (map ((!) rows) (filter (first_with_key on rows) [0..<length rows]), sch)"
  by (simp add: apply_op_def dedup_rows_firsts first_with_key_def [abs_def])

section \<open>What the join strategy of merge returns\<close>

definition joined_pairs :: "string list \<Rightarrow> row list \<Rightarrow> row list \<Rightarrow> row list" where
  "joined_pairs on acc rows = concat (map (\<lambda>r. map (\<lambda>m. row_assign m r) (filter (\<lambda>m. merge_key on m = merge_key on r) acc)) rows)"

lemma at_key_fill_merge: "at_key (fill_merge on rows table) k = at_key table k @ filter (\<lambda>m. merge_key on m = k) rows"
  by (induction on rows table rule: fill_merge.induct) (auto simp: at_key_def split: option.splits)

lemma join_step_pairs: "join_step on (fill_merge on acc []) rows = joined_pairs on acc rows"
  by (simp add: join_step_def joined_pairs_def at_key_fill_merge) (simp add: at_key_def)

lemma join_inputs_pairs:
  "join_inputs on (fill_merge on acc []) ts =
   concat (map (\<lambda>i. foldl (\<lambda>a t. joined_pairs on a (rs_rows t)) acc (take (Suc i) ts)) [0..<length ts])"
proof (induction ts arbitrary: acc)
  case (Cons t ts)
  have up: "[0..<Suc (length ts)] = 0 # map Suc [0..<length ts]" by (simp add: upt_conv_Cons map_Suc_upt del: upt_Suc)
  show ?case by (simp add: up join_step_pairs Cons.IH o_def Let_def del: upt_Suc)
qed simp

text \<open>
  the join strategy returns the nested-loop join of the first two inputs, followed by the join of that with the third,
  and so on: with two inputs this is their join, with more the rows of every step are returned beside those of the last.
\<close>

theorem merge_join_rows:
  "on \<noteq> [] \<Longrightarrow> merge_tables v = t # u # us \<Longrightarrow> \<exists>sch. executeMergeNode MsJoin (Some on) v = Inr (DTabular (RowSet sch
     (concat (map (\<lambda>i. foldl (\<lambda>a x. joined_pairs on a (rs_rows x)) (rs_rows t) (take (Suc i) (u # us))) [0..<Suc (length us)]))) sch)"
  using join_inputs_pairs [of on "rs_rows t" "u # us"]
  by (simp add: executeMergeNode_def hashJoin_def opt_list_def Let_def del: upt_Suc join_inputs.simps)

definition keyed_table :: "string \<Rightarrow> rowset" where
  "keyed_table n = RowSet [] [[(''k'', JStr ''p''), (n, JNull)]]"

definition three_tables :: dataValue where
  "three_tables = DCollection (map (\<lambda>n. DTabular (keyed_table n) []) [''x'', ''y'', ''z'']) KTabular"

lemma three_tables_joined:
  "concat (map (\<lambda>i. foldl (\<lambda>a x. joined_pairs [''k''] a (rs_rows x)) (rs_rows (keyed_table ''x''))
     (take (Suc i) [keyed_table ''y'', keyed_table ''z''])) [0..<Suc (length [keyed_table ''z''])]) =
   [[(''k'', JStr ''p''), (''x'', JNull), (''y'', JNull)], [(''k'', JStr ''p''), (''x'', JNull), (''y'', JNull), (''z'', JNull)]]"
  by code_simp

theorem merge_join_rows_witness:
  "\<exists>sch. executeMergeNode MsJoin (Some [''k'']) three_tables = Inr (DTabular (RowSet sch
     [[(''k'', JStr ''p''), (''x'', JNull), (''y'', JNull)], [(''k'', JStr ''p''), (''x'', JNull), (''y'', JNull), (''z'', JNull)]]) sch)"
proof -
  have "merge_tables three_tables = keyed_table ''x'' # keyed_table ''y'' # [keyed_table ''z'']"
    by (simp add: three_tables_def merge_tables_def)
  from merge_join_rows [OF _ this, of "[''k'']"] show ?thesis unfolding three_tables_joined by simp
qed

end
