(* ===== verification/SchemaConfig.thy ===== *)
theory SchemaConfig
  imports Values
begin

text \<open>
  The schema of a data source, \<open>src/src/compiler/schema/schema-config.ts\<close>: tables and
  foreign keys, the search for a join path between two tables, and the resolution of the
  source of a written column.

  The adjacency map of the search is an ordered store of foreign keys; the queue of the
  breadth-first search holds a table with the path that led to it.  The search is shown to
  return a shortest path, and to fail exactly when there is none.
\<close>

section \<open>Schemas\<close>

record columnConfig =
  cc_name :: string
  cc_type :: engineType
  cc_nullable :: bool
  cc_hasDefault :: "bool option"
  cc_isGenerated :: "bool option"
  cc_defaultValue :: "jsval option"
  cc_primaryKey :: "bool option"
  cc_description :: "string option"
  cc_examples :: "jsval list option"

record foreignKey =
  fk_fromTable :: string
  fk_fromColumn :: string
  fk_toTable :: string
  fk_toColumn :: string
  fk_description :: "string option"

record tableConfig =
  tc_name :: string
  tc_alias :: "string option"
  tc_description :: "string option"
  tc_columns :: "columnConfig list"
  tc_primaryKey :: "string list"
  tc_datasource :: "string option"
  tc_displayName :: "string option"

record schemaConfig =
  sc_tables :: "(string \<times> tableConfig) list"
  sc_foreignKeys :: "foreignKey list"
  sc_version :: string
  sc_description :: "string option"

datatype schemaError = UnknownTableError string | NoJoinPathError string string

definition getTable :: "schemaConfig \<Rightarrow> string \<Rightarrow> (schemaError, tableConfig) result" where
  "getTable s n = (case map_of (sc_tables s) n of
     None \<Rightarrow> Inl (UnknownTableError n) | Some t \<Rightarrow> Inr t)"

definition getRowSchema :: "schemaConfig \<Rightarrow> string \<Rightarrow> (schemaError, rowSchema) result" where
  "getRowSchema s t = bindR (getTable s t) (\<lambda>tc.
     Inr (map (\<lambda>c. Column (cc_name c) (cc_type c) (cc_nullable c)) (tc_columns tc)))"

definition tableExists :: "schemaConfig \<Rightarrow> string \<Rightarrow> bool" where
  "tableExists s n = al_has n (sc_tables s)"

text \<open>A \<open>Set\<close> keeps its elements in the order of their first insertion.\<close>

definition set_add :: "'a \<Rightarrow> 'a list \<Rightarrow> 'a list" where
  "set_add x xs = (if x \<in> set xs then xs else xs @ [x])"

lemma set_set_add [simp]: "set (set_add x xs) = insert x (set xs)"
  by (auto simp: set_add_def)

lemma distinct_set_add [simp]: "distinct xs \<Longrightarrow> distinct (set_add x xs)"
  by (simp add: set_add_def)

definition getRelatedTables :: "schemaConfig \<Rightarrow> string \<Rightarrow> string list" where
  "getRelatedTables s t = foldl (\<lambda>related fk.
     if fk_fromTable fk = t then set_add (fk_toTable fk) related
     else if fk_toTable fk = t then set_add (fk_fromTable fk) related
     else related) [] (sc_foreignKeys s)"

section \<open>Join paths\<close>

type_synonym adjacency = "(string \<times> foreignKey list) list"

definition adj_get :: "adjacency \<Rightarrow> string \<Rightarrow> foreignKey list" where
  "adj_get m t = (case map_of m t of None \<Rightarrow> [] | Some fks \<Rightarrow> fks)"

definition adj_push :: "string \<Rightarrow> foreignKey \<Rightarrow> adjacency \<Rightarrow> adjacency" where
  "adj_push t fk m = (let m' = (if al_has t m then m else al_set t [] m)
     in al_set t (adj_get m' t @ [fk]) m')"

definition buildAdjacency :: "schemaConfig \<Rightarrow> adjacency" where
  "buildAdjacency s = foldl (\<lambda>m fk. adj_push (fk_toTable fk) fk (adj_push (fk_fromTable fk) fk m))
     (foldl (\<lambda>m t. al_set t [] m) [] (map fst (sc_tables s))) (sc_foreignKeys s)"

text \<open>The table on the other side of a foreign key, and the entries a visited table adds.\<close>

definition next_table :: "string \<Rightarrow> foreignKey \<Rightarrow> string" where
  "next_table current fk = (if fk_fromTable fk = current then fk_toTable fk else fk_fromTable fk)"

type_synonym path_entry = "string \<times> foreignKey list"

definition path_steps :: "adjacency \<Rightarrow> string list \<Rightarrow> string \<Rightarrow> foreignKey list \<Rightarrow> path_entry list" where
  "path_steps adj visited current path =
     map (\<lambda>fk. (next_table current fk, path @ [fk]))
       (filter (\<lambda>fk. \<not> (fk_fromTable fk \<in> set visited \<and> fk_toTable fk \<in> set visited)
          \<and> next_table current fk \<notin> set visited) (adj_get adj current))"

definition adj_arrows :: "adjacency \<Rightarrow> (string \<times> string) list" where
  "adj_arrows adj = concat (map (\<lambda>fk. [(fk_fromTable fk, fk_toTable fk), (fk_toTable fk, fk_fromTable fk)])
     (concat (map snd adj)))"

lemma adj_get_in_values: "set (adj_get adj t) \<subseteq> set (concat (map snd adj))"
  by (cases "map_of adj t") (auto simp: adj_get_def dest!: map_of_SomeD)

lemma path_steps_targets: "fst ` set (path_steps adj visited c p) \<subseteq> snd ` set (adj_arrows adj)"
proof
  fix t assume "t \<in> fst ` set (path_steps adj visited c p)"
  then obtain fk where "fk \<in> set (adj_get adj c)" "t = next_table c fk"
    by (auto simp: path_steps_def)
  with adj_get_in_values [of adj c] have "fk \<in> set (concat (map snd adj))" by auto
  then show "t \<in> snd ` set (adj_arrows adj)"
    unfolding adj_arrows_def \<open>t = next_table c fk\<close> next_table_def by (force split: if_splits)
qed

function path_loop :: "adjacency \<Rightarrow> string \<Rightarrow> path_entry list \<Rightarrow> string list \<Rightarrow> foreignKey list option" where
  "path_loop adj to [] visited = None"
| "path_loop adj to ((current, path) # queue) visited =
     (if current = to then Some path
      else if current \<in> set visited then path_loop adj to queue visited
      else path_loop adj to (queue @ path_steps adj (visited @ [current]) current path) (visited @ [current]))"
  by pat_completeness auto
termination
proof (relation "measures [\<lambda>(adj, to, q, v). bfs_pending (adj_arrows adj) (map fst q) v,
    \<lambda>(adj, to, q, v). length q]")
  fix adj to queue visited current and path :: "foreignKey list"
  show "((adj, to, queue, visited), adj, to, (current, path) # queue, visited)
    \<in> measures [\<lambda>(adj, to, q, v). bfs_pending (adj_arrows adj) (map fst q) v, \<lambda>(adj, to, q, v). length q]"
    using bfs_pending_skip [of "adj_arrows adj" "map fst queue" visited current] by auto
next
  fix adj to queue visited and current :: string and path :: "foreignKey list"
  assume "current \<notin> set visited"
  then have "bfs_pending (adj_arrows adj)
      (map fst (queue @ path_steps adj (visited @ [current]) current path)) (visited @ [current])
    < bfs_pending (adj_arrows adj) (current # map fst queue) visited"
    by (rule bfs_pending_less) (use path_steps_targets in force)
  then show "((adj, to, queue @ path_steps adj (visited @ [current]) current path, visited @ [current]),
      adj, to, (current, path) # queue, visited)
    \<in> measures [\<lambda>(adj, to, q, v). bfs_pending (adj_arrows adj) (map fst q) v, \<lambda>(adj, to, q, v). length q]"
    by simp
qed simp

definition findJoinPath :: "schemaConfig \<Rightarrow> string \<Rightarrow> string \<Rightarrow> (schemaError, foreignKey list) result" where
  "findJoinPath s from to = (if from = to then Inr []
     else case path_loop (buildAdjacency s) to [(from, [])] [] of
       Some path \<Rightarrow> Inr path
     | None \<Rightarrow> Inl (NoJoinPathError from to))"

section \<open>Sources of written columns\<close>

text \<open>The \<open>in\<close> operator also finds the names of \<open>Object.prototype\<close>.\<close>

definition prototype_names :: "string list" where
  "prototype_names = [''constructor'', ''__defineGetter__'', ''__defineSetter__'', ''hasOwnProperty'',
     ''__lookupGetter__'', ''__lookupSetter__'', ''isPrototypeOf'', ''propertyIsEnumerable'', ''toString'',
     ''valueOf'', ''__proto__'', ''toLocaleString'']"

definition js_in :: "string \<Rightarrow> (string \<times> 'v) list \<Rightarrow> bool" where
  "js_in k r \<longleftrightarrow> al_has k r \<or> k \<in> set prototype_names"

fun fk_with_upstream :: "string \<Rightarrow> string \<Rightarrow> string list \<Rightarrow> row \<Rightarrow> foreignKey list \<Rightarrow> string option" where
  "fk_with_upstream t c up r [] = None"
| "fk_with_upstream t c up r (fk # fks) =
     (if fk_fromTable fk = t \<and> fk_fromColumn fk = c \<and> fk_toTable fk \<in> set up \<and> js_in (fk_toColumn fk) r
      then Some (fk_toColumn fk)
      else if fk_toTable fk = t \<and> fk_toColumn fk = c \<and> fk_fromTable fk \<in> set up \<and> js_in (fk_fromColumn fk) r
      then Some (fk_fromColumn fk)
      else fk_with_upstream t c up r fks)"

fun fk_fallback :: "string \<Rightarrow> string \<Rightarrow> row \<Rightarrow> foreignKey list \<Rightarrow> string option" where
  "fk_fallback t c r [] = None"
| "fk_fallback t c r (fk # fks) =
     (if fk_fromTable fk = t \<and> fk_fromColumn fk = c \<and> js_in (fk_toColumn fk) r
      then Some (fk_toColumn fk) else fk_fallback t c r fks)"

definition resolveWriteColumnSource ::
    "string \<Rightarrow> string \<Rightarrow> string list \<Rightarrow> foreignKey list option \<Rightarrow> row \<Rightarrow> string" where
  "resolveWriteColumnSource targetTable targetColumn upstream foreignKeys simulatedRow =
     (let fks = (case foreignKeys of None \<Rightarrow> [] | Some fks \<Rightarrow> fks) in
      if js_in targetColumn simulatedRow then targetColumn
      else case fk_with_upstream targetTable targetColumn upstream simulatedRow fks of
        Some c \<Rightarrow> c
      | None \<Rightarrow> (case fk_fallback targetTable targetColumn simulatedRow fks of
          Some c \<Rightarrow> c | None \<Rightarrow> targetColumn))"

section \<open>Walks over foreign keys\<close>

definition touches :: "foreignKey \<Rightarrow> string \<Rightarrow> bool" where
  "touches fk t \<longleftrightarrow> fk_fromTable fk = t \<or> fk_toTable fk = t"

fun walks :: "string \<Rightarrow> foreignKey list \<Rightarrow> string \<Rightarrow> bool" where
  "walks a [] b \<longleftrightarrow> a = b"
| "walks a (fk # p) b \<longleftrightarrow> touches fk a \<and> walks (next_table a fk) p b"

fun stops :: "string \<Rightarrow> foreignKey list \<Rightarrow> string list" where
  "stops a [] = [a]"
| "stops a (fk # p) = a # stops (next_table a fk) p"

lemma stops_first [simp]: "a \<in> set (stops a p)"
  by (cases p) auto

lemma walks_append: "walks a (p @ q) b \<longleftrightarrow> (\<exists>c. walks a p c \<and> walks c q b)"
  by (induction p arbitrary: a) auto

lemma walks_snoc: "walks a p c \<Longrightarrow> touches fk c \<Longrightarrow> walks a (p @ [fk]) (next_table c fk)"
  by (auto simp: walks_append)

text \<open>A walk through \<open>c\<close> ends with a walk that leaves \<open>c\<close> for good.\<close>

lemma walk_from_last_visit:
  "walks a p b \<Longrightarrow> c \<in> set (stops a p) \<Longrightarrow>
    \<exists>q. walks c q b \<and> length q \<le> length p \<and> set q \<subseteq> set p \<and> set (stops c q) \<subseteq> set (stops a p)
      \<and> c \<notin> set (tl (stops c q))"
proof (induction p arbitrary: a)
  case (Cons fk p)
  show ?case
  proof (cases "c \<in> set (stops (next_table a fk) p)")
    case True
    with Cons.prems Cons.IH [of "next_table a fk"] obtain q where "walks c q b" "length q \<le> length p" "set q \<subseteq> set p"
      "set (stops c q) \<subseteq> set (stops (next_table a fk) p)" "c \<notin> set (tl (stops c q))"
      by auto
    then show ?thesis by (intro exI [of _ q]) auto
  next
    case False
    with Cons show ?thesis by (intro exI [of _ "fk # p"]) auto
  qed
qed auto

section \<open>The search finds a shortest path\<close>

lemma adj_get_push [simp]:
  "adj_get (adj_push t fk m) t' = (if t' = t then adj_get m t @ [fk] else adj_get m t')"
  by (auto simp: adj_push_def adj_get_def Let_def al_has_iff split: option.splits)

lemma adj_get_init: "adj_get (foldl (\<lambda>m t. al_set t [] m) m ts) t'
  = (if t' \<in> set ts then [] else adj_get m t')"
  by (induction ts arbitrary: m) (auto simp: adj_get_def)

lemma set_adj_get_build:
  "set (adj_get (buildAdjacency s) t) = {fk \<in> set (sc_foreignKeys s). touches fk t}"
proof -
  have "set (adj_get (foldl (\<lambda>m fk. adj_push (fk_toTable fk) fk (adj_push (fk_fromTable fk) fk m)) m fks) t)
    = set (adj_get m t) \<union> {fk \<in> set fks. touches fk t}" for m fks
    by (induction fks arbitrary: m) (auto simp: touches_def)
  then show ?thesis by (simp add: buildAdjacency_def adj_get_init) (simp add: adj_get_def)
qed

definition path_inv :: "foreignKey set \<Rightarrow> string \<Rightarrow> string \<Rightarrow> path_entry list \<Rightarrow> string list \<Rightarrow> bool" where
  "path_inv F a b queue visited \<longleftrightarrow>
     (\<forall>(t, p) \<in> set queue. walks a p t \<and> set p \<subseteq> F) \<and>
     sorted (map (length \<circ> snd) queue) \<and>
     (\<forall>e \<in> set queue. length (snd e) \<le> Suc (length (snd (hd queue)))) \<and>
     (\<forall>q. walks a q b \<and> set q \<subseteq> F \<longrightarrow>
       (\<exists>(t, p) \<in> set queue. \<exists>r. walks t r b \<and> set r \<subseteq> F \<and> set (stops t r) \<inter> set visited = {}
          \<and> length p + length r \<le> length q))"

lemma path_inv_start: "path_inv F a b [(a, [])] []"
  by (auto simp: path_inv_def)

lemma path_inv_skip:
  assumes "path_inv F a b ((c, p) # queue) visited" and "c \<in> set visited"
  shows "path_inv F a b queue visited"
proof -
  have "\<exists>(t, p) \<in> set queue. \<exists>r. walks t r b \<and> set r \<subseteq> F \<and> set (stops t r) \<inter> set visited = {}
      \<and> length p + length r \<le> length q"
    if "walks a q b" "set q \<subseteq> F" for q
  proof -
    from assms(1) that obtain t p' r where e: "(t, p') \<in> set ((c, p) # queue)" and r: "walks t r b"
        "set r \<subseteq> F" "set (stops t r) \<inter> set visited = {}" "length p' + length r \<le> length q"
      unfolding path_inv_def by blast
    from r(3) assms(2) stops_first [of t r] have "t \<noteq> c" by blast
    with e r show ?thesis by (intro bexI [of _ "(t, p')"]) auto
  qed
  moreover have "length (snd e) \<le> Suc (length (snd (hd queue)))" if "e \<in> set queue" for e
  proof -
    from that have "hd queue \<in> set queue" by (cases queue) auto
    with assms(1) that show ?thesis by (fastforce simp: path_inv_def)
  qed
  ultimately show ?thesis using assms(1) by (simp add: path_inv_def)
qed

lemma path_inv_visit:
  assumes inv: "path_inv F a b ((c, p) # queue) visited" and nv: "c \<notin> set visited" and ne: "c \<noteq> b"
    and adj: "set (adj_get adj c) = {fk \<in> F. touches fk c}"
  shows "path_inv F a b (queue @ path_steps adj (visited @ [c]) c p) (visited @ [c])"
proof -
  let ?steps = "path_steps adj (visited @ [c]) c p"
  have len: "length (snd e) = Suc (length p)" if "e \<in> set ?steps" for e
    using that by (auto simp: path_steps_def)
  have ok: "walks a p' t \<and> set p' \<subseteq> F" if "(t, p') \<in> set ?steps" for t p'
    using that inv adj by (auto simp: path_steps_def path_inv_def walks_append)
  have bound: "length p \<le> length (snd e) \<and> length (snd e) \<le> Suc (length p)" if "e \<in> set queue" for e
    using that inv by (auto simp: path_inv_def)
  have front: "\<exists>(t, p) \<in> set (queue @ ?steps). \<exists>r. walks t r b \<and> set r \<subseteq> F
      \<and> set (stops t r) \<inter> set (visited @ [c]) = {} \<and> length p + length r \<le> length q"
    if q: "walks a q b" "set q \<subseteq> F" for q
  proof -
    from inv q obtain t p' r where e: "(t, p') \<in> set ((c, p) # queue)" and r: "walks t r b" "set r \<subseteq> F"
        "set (stops t r) \<inter> set visited = {}" "length p' + length r \<le> length q"
      unfolding path_inv_def by blast
    show ?thesis
    proof (cases "c \<in> set (stops t r)")
      case False
      then have "(t, p') \<in> set queue" using e by auto
      with False r show ?thesis by (intro bexI [of _ "(t, p')"]) (auto intro!: exI [of _ r])
    next
      case True
      from walk_from_last_visit [OF r(1) True] obtain r' where r': "walks c r' b" "length r' \<le> length r"
          "set r' \<subseteq> set r" "set (stops c r') \<subseteq> set (stops t r)" "c \<notin> set (tl (stops c r'))" by auto
      with ne obtain fk r'' where fk: "r' = fk # r''" by (cases r') auto
      let ?t = "next_table c fk"
      from r' fk have out: "set (stops ?t r'') \<inter> set (visited @ [c]) = {}" using r(3) by auto
      then have "?t \<notin> set (visited @ [c])" using stops_first [of ?t r''] by blast
      moreover from this have "\<not> (fk_fromTable fk \<in> set (visited @ [c]) \<and> fk_toTable fk \<in> set (visited @ [c]))"
        by (auto simp: next_table_def split: if_splits)
      ultimately have "(?t, p @ [fk]) \<in> set ?steps"
        using r' fk r(2) adj by (auto simp: path_steps_def)
      moreover have "length p \<le> length p'" using e bound by auto
      ultimately show ?thesis
        using r' fk r(2,4) out by (intro bexI [of _ "(?t, p @ [fk])"]) (auto intro!: exI [of _ r''])
    qed
  qed
  have "sorted (map (length \<circ> snd) (queue @ ?steps))"
  proof -
    have "sorted (map (length \<circ> snd) ?steps)"
      using len by (subst sorted_iff_nth_mono) (simp add: nth_mem)
    with inv bound len show ?thesis
      by (auto simp: sorted_append path_inv_def)
  qed
  moreover have "length (snd e) \<le> Suc (length (snd (hd (queue @ ?steps))))"
    if "e \<in> set (queue @ ?steps)" for e
  proof (cases queue)
    case Nil
    with that have "?steps \<noteq> []" by auto
    with that Nil len show ?thesis by (metis append_Nil hd_in_set le_SucI order_refl)
  next
    case (Cons e' queue')
    with bound [of e'] bound [of e] len [of e] that show ?thesis by auto
  qed
  moreover have "\<forall>(t, p) \<in> set (queue @ ?steps). walks a p t \<and> set p \<subseteq> F"
    using ok inv by (auto simp: path_inv_def)
  ultimately show ?thesis using front unfolding path_inv_def by blast
qed

lemma path_loop_shortest:
  assumes "path_inv F a b queue visited"
    and "\<And>t. set (adj_get adj t) = {fk \<in> F. touches fk t}"
  shows "case path_loop adj b queue visited of
      Some p \<Rightarrow> walks a p b \<and> set p \<subseteq> F \<and> (\<forall>q. walks a q b \<and> set q \<subseteq> F \<longrightarrow> length p \<le> length q)
    | None \<Rightarrow> \<forall>q. walks a q b \<longrightarrow> \<not> set q \<subseteq> F"
  using assms
proof (induction adj b queue visited rule: path_loop.induct)
  case (1 adj b visited)
  then show ?case by (auto simp: path_inv_def)
next
  case (2 adj b c p queue visited)
  show ?case
  proof (cases "c = b")
    case True
    have "length p \<le> length q" if "walks a q b" "set q \<subseteq> F" for q
    proof -
      from 2(3) that obtain t p' where "(t, p') \<in> set ((c, p) # queue)" "length p' \<le> length q"
        unfolding path_inv_def by fastforce
      moreover from this 2(3) have "length p \<le> length p'" by (auto simp: path_inv_def)
      ultimately show ?thesis by simp
    qed
    with True 2(3) show ?thesis by (simp add: path_inv_def)
  next
    case False
    show ?thesis
    proof (cases "c \<in> set visited")
      case True
      with False 2(1) 2(4) path_inv_skip [OF 2(3) True] show ?thesis by simp
    next
      case nv: False
      with False 2(2) 2(4) path_inv_visit [OF 2(3) nv False 2(4)] show ?thesis by simp
    qed
  qed
qed

lemma findJoinPath_cases:
  "case findJoinPath s a b of
     Inr p \<Rightarrow> walks a p b \<and> set p \<subseteq> set (sc_foreignKeys s)
       \<and> (\<forall>q. walks a q b \<and> set q \<subseteq> set (sc_foreignKeys s) \<longrightarrow> length p \<le> length q)
   | Inl e \<Rightarrow> e = NoJoinPathError a b \<and> (\<forall>q. walks a q b \<longrightarrow> \<not> set q \<subseteq> set (sc_foreignKeys s))"
proof (cases "a = b")
  case False
  have "set (adj_get (buildAdjacency s) t) = {fk \<in> set (sc_foreignKeys s). touches fk t}" for t
    by (rule set_adj_get_build)
  from path_loop_shortest [OF path_inv_start [of _ a b] this] False show ?thesis
    by (auto simp: findJoinPath_def split: option.splits)
qed (simp add: findJoinPath_def)

text \<open>C27: The search for a join path returns a shortest chain of foreign keys that leads from
  one table to the other, crossing each key in either direction, and throws \<open>NoJoinPathError\<close>
  exactly when no chain connects them.\<close>

theorem findJoinPath_shortest:
  "(\<exists>p. findJoinPath s a b = Inr p \<and> walks a p b \<and> set p \<subseteq> set (sc_foreignKeys s)
       \<and> (\<nexists>q. walks a q b \<and> set q \<subseteq> set (sc_foreignKeys s) \<and> length q < length p))
   \<or> (findJoinPath s a b = Inl (NoJoinPathError a b) \<and> (\<nexists>q. walks a q b \<and> set q \<subseteq> set (sc_foreignKeys s)))"
  using findJoinPath_cases [where s = s and a = a and b = b] by (cases "findJoinPath s a b") (auto simp: not_less)

end
