(* ===== verification/Aggregation.thy ===== *)
theory Aggregation
  imports Blocking
begin

text \<open>
  \<open>src/src/executors/operators/agg-operator.ts\<close>: grouping, the accumulators and the
  operator around them.

  Group keys are JSON texts in the code; two values have the same text exactly when they are
  the same tree after a round trip through JSON, so \<open>json_norm\<close>, that round trip, stands for
  the text.  \<open>None\<close> is the \<open>undefined\<close> that \<open>JSON.stringify\<close> gives for
  \<open>undefined\<close>.  Row sets and engine values inside a key are the error \<open>Unmodelled\<close>.
\<close>

section \<open>JSON texts\<close>

fun json_norm :: "jsval \<Rightarrow> jsval res" where
  "json_norm JUndef = Inr JNull"
| "json_norm JNull = Inr JNull"
| "json_norm (JBool b) = Inr (JBool b)"
| "json_norm (JNum n) = Inr (case n of Fin q \<Rightarrow> JNum (Fin q) | NegZero \<Rightarrow> JNum (Fin 0) | _ \<Rightarrow> JNull)"
| "json_norm (JStr s) = Inr (JStr s)"
| "json_norm (JArr vs) = mapRes JArr (mapR json_norm vs)"
| "json_norm (JObj fs) = mapRes JObj (mapR (\<lambda>(k, v). mapRes (Pair k) (json_norm v)) (filter (\<lambda>(k, v). v \<noteq> JUndef) fs))"
| "json_norm _ = Inl (Unmodelled ''JSON.stringify'')"

type_synonym jsonText = "jsval option"

definition stringify :: "jsval \<Rightarrow> jsonText res" where
  "stringify v = (if v = JUndef then Inr None else mapRes Some (json_norm v))"

section \<open>Accumulators\<close>

record aggSpec =
  ag_fn :: aggFn
  ag_expr :: exprAST
  ag_alias :: string

datatype accumulator =
    AccSum aggFn jsnum int
  | AccCount int
  | AccDistinct "jsonText list"
  | AccMin jsval
  | AccMax jsval

definition aggfn_name :: "aggFn \<Rightarrow> string" where
  "aggfn_name f = (case f of FSum \<Rightarrow> ''SUM'' | FAvg \<Rightarrow> ''AVG'' | FCount \<Rightarrow> ''COUNT''
     | FCountDistinct \<Rightarrow> ''COUNT_DISTINCT'' | FMin \<Rightarrow> ''MIN'' | FMax \<Rightarrow> ''MAX''
     | FRowNumber \<Rightarrow> ''ROW_NUMBER'' | FRank \<Rightarrow> ''RANK'' | FLag \<Rightarrow> ''LAG'' | FLead \<Rightarrow> ''LEAD'')"

fun createAccumulator :: "aggFn \<Rightarrow> accumulator res" where
  "createAccumulator FSum = Inr (AccSum FSum (Fin 0) 0)"
| "createAccumulator FAvg = Inr (AccSum FAvg (Fin 0) 0)"
| "createAccumulator FCount = Inr (AccCount 0)"
| "createAccumulator FCountDistinct = Inr (AccDistinct [])"
| "createAccumulator FMin = Inr (AccMin JNull)"
| "createAccumulator FMax = Inr (AccMax JNull)"
| "createAccumulator f = Inl (PlainError (''Unsupported aggregate function: '' @ aggfn_name f))"

fun updateAccumulator :: "accumulator \<Rightarrow> jsval \<Rightarrow> accumulator res" where
  "updateAccumulator (AccSum f s n) v = Inr (case v of JNum x \<Rightarrow> AccSum f (num_add s x) (n + 1) | _ \<Rightarrow> AccSum f s n)"
| "updateAccumulator (AccCount n) v = Inr (AccCount (n + 1))"
| "updateAccumulator (AccDistinct seen) v = (if v = JNull then Inr (AccDistinct seen)
     else mapRes (\<lambda>t. AccDistinct (if t \<in> set seen then seen else seen @ [t])) (stringify v))"
| "updateAccumulator (AccMin m) v = Inr (case v of
       JNum x \<Rightarrow> (case m of JNull \<Rightarrow> AccMin (JNum x) | JNum y \<Rightarrow> if num_lt x y then AccMin (JNum x) else AccMin m
         | _ \<Rightarrow> AccMin m)
     | _ \<Rightarrow> AccMin m)"
| "updateAccumulator (AccMax m) v = Inr (case v of
       JNum x \<Rightarrow> (case m of JNull \<Rightarrow> AccMax (JNum x) | JNum y \<Rightarrow> if num_lt y x then AccMax (JNum x) else AccMax m
         | _ \<Rightarrow> AccMax m)
     | _ \<Rightarrow> AccMax m)"

fun finalizeAccumulator :: "accumulator \<Rightarrow> jsval" where
  "finalizeAccumulator (AccSum f s n) = (if f = FSum then JNum s
     else if f = FAvg then JNum (if 0 < n then num_div s (num_of_int n) else Fin 0) else JNull)"
| "finalizeAccumulator (AccCount n) = JNum (num_of_int n)"
| "finalizeAccumulator (AccDistinct seen) = JNum (num_of_int (int (length seen)))"
| "finalizeAccumulator (AccMin m) = m"
| "finalizeAccumulator (AccMax m) = m"

section \<open>Groups\<close>

record group =
  gp_key :: row
  gp_accs :: "accumulator list"

type_synonym groupKey = "jsonText list"

text \<open>A grouping expression that throws counts as null.\<close>

definition groupKey :: "(exprAST \<Rightarrow> row \<Rightarrow> jsval res) \<Rightarrow> exprAST list \<Rightarrow> row \<Rightarrow> groupKey res" where
  "groupKey ev exprs r = mapR (\<lambda>e. bindR (catchR (ev e r) JNull) stringify) exprs"

definition parseGroupKey :: "exprAST list \<Rightarrow> groupKey \<Rightarrow> row" where
  "parseGroupKey exprs ks = foldl (\<lambda>acc (e, k). case e of
      FieldRef t fld \<Rightarrow> row_set fld (case k of Some v \<Rightarrow> v | None \<Rightarrow> JNull) acc
    | _ \<Rightarrow> acc) [] (zip exprs ks)"

definition agg_value :: "(exprAST \<Rightarrow> row \<Rightarrow> jsval res) \<Rightarrow> aggSpec \<Rightarrow> row \<Rightarrow> jsval res" where
  "agg_value ev a r = (if ag_fn a = FCount \<and> ag_expr a = Wildcard then Inr (JNum (Fin 1)) else ev (ag_expr a) r)"

definition updateGroup :: "(exprAST \<Rightarrow> row \<Rightarrow> jsval res) \<Rightarrow> aggSpec list \<Rightarrow> row \<Rightarrow> accumulator list \<Rightarrow> accumulator list res" where
  "updateGroup ev aggs r accs = mapR (\<lambda>(a, acc). bindR (agg_value ev a r) (updateAccumulator acc)) (zip aggs accs)"

definition newGroup :: "exprAST list \<Rightarrow> aggSpec list \<Rightarrow> groupKey \<Rightarrow> group res" where
  "newGroup exprs aggs k = mapRes (\<lambda>accs. \<lparr>gp_key = parseGroupKey exprs k, gp_accs = accs\<rparr>)
     (mapR (\<lambda>a. createAccumulator (ag_fn a)) aggs)"

fun buildGroups :: "(exprAST \<Rightarrow> row \<Rightarrow> jsval res) \<Rightarrow> exprAST list \<Rightarrow> aggSpec list \<Rightarrow> row list \<Rightarrow>
    (groupKey \<times> group) list \<Rightarrow> (groupKey \<times> group) list res" where
  "buildGroups ev exprs aggs [] m = Inr m"
| "buildGroups ev exprs aggs (r # rs) m = bindR (groupKey ev exprs r) (\<lambda>k.
     bindR (case map_of m k of Some g \<Rightarrow> Inr g | None \<Rightarrow> newGroup exprs aggs k) (\<lambda>g.
       bindR (updateGroup ev aggs r (gp_accs g)) (\<lambda>accs.
         buildGroups ev exprs aggs rs (al_set k (g\<lparr>gp_accs := accs\<rparr>) m))))"

definition groupRow :: "aggSpec list \<Rightarrow> group \<Rightarrow> row" where
  "groupRow aggs g = foldl (\<lambda>acc (a, v). row_set (ag_alias a) (finalizeAccumulator v) acc)
     (row_assign [] (gp_key g)) (zip aggs (gp_accs g))"

definition aggregate :: "(exprAST \<Rightarrow> row \<Rightarrow> jsval res) \<Rightarrow> exprAST list \<Rightarrow> aggSpec list \<Rightarrow> row list \<Rightarrow> row list res" where
  "aggregate ev exprs aggs rows = mapRes (map (\<lambda>p. groupRow aggs (snd p))) (buildGroups ev exprs aggs rows [])"

section \<open>The operator\<close>

text \<open>Result rows are cut by the operator's own batch size.\<close>

definition agg_build :: "host \<Rightarrow> fnRegistry \<Rightarrow> exprAST list \<Rightarrow> aggSpec list \<Rightarrow> nat \<Rightarrow> build" where
  "agg_build h reg exprs aggs batchSize c n rows ts =
     (case aggregate (\<lambda>e r. evaluate h reg e (ctx_scope c) (Some r)) exprs aggs rows of
         Inl e \<Rightarrow> Some (Inl e, ts)
       | Inr out \<Rightarrow> Option.bind (chunkRows out batchSize) (\<lambda>bs. Some (Inr bs, ts)))"

definition aggOperator :: "host \<Rightarrow> fnRegistry \<Rightarrow> 's operator \<Rightarrow> exprAST list \<Rightarrow> aggSpec list \<Rightarrow> nat \<Rightarrow> 's buildState phys operator" where
  "aggOperator h reg inp exprs aggs batchSize =
     build_operator ''Agg'' ''AggOperator'' (agg_build h reg exprs aggs batchSize) inp"

lemma agg_builds:
  assumes "aggregate (\<lambda>e r. evaluate h reg e (ctx_scope c) (Some r)) exprs aggs rs = Inr out" and "0 < batchSize"
  shows "builds (agg_build h reg exprs aggs batchSize) c rs out"
  unfolding builds_def
proof (intro allI impI)
  fix n :: nat and ts
  obtain bs where "chunkRows out batchSize = Some bs" "concat (map b_rows bs) = out" "nonempty_batches bs"
    using chunkRows_delivers [OF assms(2)] .
  with assms(1) show "\<exists>bs ts'. agg_build h reg exprs aggs batchSize c n rs ts = Some (Inr bs, ts') \<and>
      concat (map b_rows bs) = out \<and> nonempty_batches bs" by (simp add: agg_build_def)
qed

section \<open>Correctness of grouping\<close>

fun foldGroup :: "(exprAST \<Rightarrow> row \<Rightarrow> jsval res) \<Rightarrow> aggSpec list \<Rightarrow> row list \<Rightarrow> accumulator list \<Rightarrow> accumulator list res" where
  "foldGroup ev aggs [] accs = Inr accs"
| "foldGroup ev aggs (r # rs) accs = bindR (updateGroup ev aggs r accs) (foldGroup ev aggs rs)"

definition start_group :: "exprAST list \<Rightarrow> aggSpec list \<Rightarrow> (groupKey \<times> group) list \<Rightarrow> groupKey \<Rightarrow> group res" where
  "start_group exprs aggs m k = (case map_of m k of Some g \<Rightarrow> Inr g | None \<Rightarrow> newGroup exprs aggs k)"

definition rows_of_group :: "(exprAST \<Rightarrow> row \<Rightarrow> jsval res) \<Rightarrow> exprAST list \<Rightarrow> row list \<Rightarrow> groupKey \<Rightarrow> row list" where
  "rows_of_group ev exprs rows k = filter (\<lambda>r. groupKey ev exprs r = Inr k) rows"

lemma buildGroups_groups:
  assumes "buildGroups ev exprs aggs rows m = Inr m'"
  shows "if rows_of_group ev exprs rows k = [] then map_of m' k = map_of m k
    else \<exists>g accs. start_group exprs aggs m k = Inr g \<and>
      foldGroup ev aggs (rows_of_group ev exprs rows k) (gp_accs g) = Inr accs \<and> map_of m' k = Some (g\<lparr>gp_accs := accs\<rparr>)"
  using assms
proof (induction rows arbitrary: m)
  case (Cons r rows)
  from Cons.prems obtain kr g accs where kr: "groupKey ev exprs r = Inr kr"
    and g: "start_group exprs aggs m kr = Inr g" and accs: "updateGroup ev aggs r (gp_accs g) = Inr accs"
    and rest: "buildGroups ev exprs aggs rows (al_set kr (g\<lparr>gp_accs := accs\<rparr>) m) = Inr m'"
    by (auto simp: start_group_def result_simps)
  note IH = Cons.IH [OF rest]
  show ?case
  proof (cases "k = kr")
    case True
    have st: "start_group exprs aggs (al_set kr (g\<lparr>gp_accs := accs\<rparr>) m) kr = Inr (g\<lparr>gp_accs := accs\<rparr>)"
      by (simp add: start_group_def)
    have rows: "rows_of_group ev exprs (r # rows) k = r # rows_of_group ev exprs rows k"
      using True kr by (simp add: rows_of_group_def)
    show ?thesis
    proof (cases "rows_of_group ev exprs rows k = []")
      case True
      with IH \<open>k = kr\<close> g accs rows show ?thesis by auto
    next
      case False
      with IH \<open>k = kr\<close> st g accs rows show ?thesis by auto
    qed
  next
    case False
    then have "rows_of_group ev exprs (r # rows) k = rows_of_group ev exprs rows k"
      "start_group exprs aggs (al_set kr (g\<lparr>gp_accs := accs\<rparr>) m) k = start_group exprs aggs m k"
      using kr by (simp_all add: rows_of_group_def start_group_def)
    with IH False show ?thesis by auto
  qed
qed (simp add: rows_of_group_def)

lemma buildGroups_keys:
  "buildGroups ev exprs aggs rows m = Inr m' \<Longrightarrow> distinct (map fst m) \<Longrightarrow>
     distinct (map fst m') \<and> fst ` set m' = fst ` set m \<union> {k. rows_of_group ev exprs rows k \<noteq> []} \<and>
     (\<forall>r \<in> set rows. \<exists>k. groupKey ev exprs r = Inr k)"
proof (induction rows arbitrary: m)
  case (Cons r rows)
  from Cons.prems obtain kr g where kr: "groupKey ev exprs r = Inr kr"
    and rest: "buildGroups ev exprs aggs rows (al_set kr g m) = Inr m'"
    by (auto simp: result_simps)
  from Cons.IH [OF rest] Cons.prems(2) kr show ?case by (auto simp: rows_of_group_def)
qed (simp add: rows_of_group_def)

text \<open>
  C12: grouping partitions the input.  The result has one row per distinct group key of the
  input and no others; the accumulators of a row are those obtained by feeding the fresh ones
  exactly the rows of that group, in input order.
\<close>

theorem aggregate_groups:
  assumes "aggregate ev exprs aggs rows = Inr out"
  shows "\<exists>ks accs. out = map (\<lambda>k. groupRow aggs \<lparr>gp_key = parseGroupKey exprs k, gp_accs = accs k\<rparr>) ks \<and>
    distinct ks \<and> set ks = {k. \<exists>r \<in> set rows. groupKey ev exprs r = Inr k} \<and>
    (\<forall>k \<in> set ks. bindR (mapR (\<lambda>a. createAccumulator (ag_fn a)) aggs)
       (foldGroup ev aggs (filter (\<lambda>r. groupKey ev exprs r = Inr k) rows)) = Inr (accs k))"
proof -
  from assms obtain m where m: "buildGroups ev exprs aggs rows [] = Inr m" "out = map (\<lambda>p. groupRow aggs (snd p)) m"
    by (auto simp: aggregate_def result_simps)
  from buildGroups_keys [OF m(1)] have keys: "distinct (map fst m)" "fst ` set m = {k. rows_of_group ev exprs rows k \<noteq> []}"
    by auto
  let ?accs = "\<lambda>k. gp_accs (the (map_of m k))"
  have group: "bindR (mapR (\<lambda>a. createAccumulator (ag_fn a)) aggs) (foldGroup ev aggs (rows_of_group ev exprs rows k)) = Inr (?accs k) \<and>
      the (map_of m k) = \<lparr>gp_key = parseGroupKey exprs k, gp_accs = ?accs k\<rparr>" if "k \<in> fst ` set m" for k
    using that buildGroups_groups [OF m(1), of k] keys(2)
    by (auto simp: start_group_def newGroup_def result_simps split: if_splits)
  have "out = map (\<lambda>k. groupRow aggs \<lparr>gp_key = parseGroupKey exprs k, gp_accs = ?accs k\<rparr>) (map fst m)"
    unfolding m(2) map_map
  proof (rule map_cong [OF HOL.refl])
    fix p assume p: "p \<in> set m"
    then have "map_of m (fst p) = Some (snd p)" using keys(1) by simp
    with group [of "fst p"] p show "groupRow aggs (snd p) =
        ((\<lambda>k. groupRow aggs \<lparr>gp_key = parseGroupKey exprs k, gp_accs = ?accs k\<rparr>) \<circ> fst) p" by auto
  qed
  moreover have "set (map fst m) = {k. \<exists>r \<in> set rows. groupKey ev exprs r = Inr k}"
    using keys(2) by (auto simp: rows_of_group_def filter_empty_conv)
  ultimately show ?thesis using keys(1) group
    by (intro exI [of _ "map fst m"] exI [of _ ?accs]) (simp add: rows_of_group_def)
qed

definition count_all :: aggSpec where
  "count_all = \<lparr>ag_fn = FCount, ag_expr = Wildcard, ag_alias = ''n''\<rparr>"

theorem aggregate_groups_witness:
  "\<exists>ks. distinct ks \<and> set ks = {[Some (JNum (Fin 1))], [Some (JNum (Fin 2))]}"
proof -
  let ?ev = "\<lambda>_ r. Inr (row_get r ''id'')" and ?rows = "[sample_row 1, sample_row 2, sample_row 1]"
  have "aggregate ?ev [FieldRef None ''id''] [count_all] ?rows =
      Inr [[(''id'', JNum (Fin 1)), (''n'', JNum (Fin 2))], [(''id'', JNum (Fin 2)), (''n'', JNum (Fin 1))]]"
    using num_of_int_exact [of 2] num_of_int_exact [of 1]
    by (simp add: aggregate_def groupKey_def stringify_def sample_row_def newGroup_def parseGroupKey_def updateGroup_def
        agg_value_def count_all_def groupRow_def row_set_def enumerated_before_def is_index_def is_digit_def catchR_def)
  from aggregate_groups [OF this] obtain ks where "distinct ks"
    "set ks = {k. \<exists>r \<in> set ?rows. groupKey ?ev [FieldRef None ''id''] r = Inr k}" by blast
  then show ?thesis by (intro exI [of _ ks]) (auto simp: groupKey_def stringify_def sample_row_def catchR_def)
qed
section \<open>Correctness of the aggregate functions\<close>

fun foldR :: "('a \<Rightarrow> 'b \<Rightarrow> 'a res) \<Rightarrow> 'a \<Rightarrow> 'b list \<Rightarrow> 'a res" where
  "foldR f a [] = Inr a"
| "foldR f a (b # bs) = bindR (f a b) (\<lambda>a'. foldR f a' bs)"

definition aggregateValues :: "aggFn \<Rightarrow> jsval list \<Rightarrow> jsval res" where
  "aggregateValues fn vs = bindR (createAccumulator fn) (\<lambda>a. mapRes finalizeAccumulator (foldR updateAccumulator a vs))"

definition numbers :: "jsval list \<Rightarrow> jsnum list" where
  "numbers vs = List.map_filter (\<lambda>v. case v of JNum n \<Rightarrow> Some n | _ \<Rightarrow> None) vs"

lemma numbers_simps [simp]:
  "numbers [] = []"
  "numbers (JNum n # vs) = n # numbers vs"
  "js_typeof v \<noteq> ''number'' \<Longrightarrow> numbers (v # vs) = numbers vs"
  by (auto simp: numbers_def map_filter_simps split: jsval.splits)

lemma not_number_cases: "(\<And>n. v \<noteq> JNum n) \<Longrightarrow> js_typeof v \<noteq> ''number''"
  by (cases v) auto

text \<open>Each accumulator of a group sees the values of its own expression.\<close>

lemma foldGroup_nth:
  assumes "foldGroup ev aggs rows accs = Inr accs'" and "length accs = length aggs"
  shows "length accs' = length aggs \<and> (\<forall>i < length aggs. \<exists>vs. mapR (agg_value ev (aggs ! i)) rows = Inr vs \<and>
    foldR updateAccumulator (accs ! i) vs = Inr (accs' ! i))"
  using assms
proof (induction rows arbitrary: accs)
  case (Cons r rows)
  from Cons.prems obtain mid where mid: "updateGroup ev aggs r accs = Inr mid" "foldGroup ev aggs rows mid = Inr accs'"
    by (auto simp: result_simps)
  from mid(1) have len: "length mid = length aggs"
    and nth: "\<And>i. i < length aggs \<Longrightarrow> \<exists>v. agg_value ev (aggs ! i) r = Inr v \<and> updateAccumulator (accs ! i) v = Inr (mid ! i)"
    using Cons.prems(2) by (auto simp: updateGroup_def mapR_Inr_iff list_all2_conv_all_nth result_simps)
  from Cons.IH [OF mid(2) len] nth show ?case by fastforce
qed simp

lemma fold_count: "foldR updateAccumulator (AccCount n) vs = Inr (AccCount (n + int (length vs)))"
  by (induction vs arbitrary: n) (auto simp: algebra_simps)

lemma fold_min:
  assumes "NaN \<notin> set (numbers vs)" and "m = JNull \<or> (\<exists>x. m = JNum x \<and> x \<noteq> NaN)"
  shows "\<exists>m'. foldR updateAccumulator (AccMin m) vs = Inr (AccMin m') \<and>
    (m' = JNull \<longleftrightarrow> m = JNull \<and> numbers vs = []) \<and>
    (\<forall>y. m' = JNum y \<longrightarrow> (m = JNum y \<or> y \<in> set (numbers vs)) \<and>
      (\<forall>x. m = JNum x \<longrightarrow> \<not> num_lt x y) \<and> (\<forall>x \<in> set (numbers vs). \<not> num_lt x y)) \<and>
    (m' = JNull \<or> (\<exists>y. m' = JNum y))"
  using assms
proof (induction vs arbitrary: m)
  case (Cons v vs)
  show ?case
  proof (cases "\<exists>n. v = JNum n")
    case True
    then obtain n where v: "v = JNum n" by blast
    define m1 where "m1 = (case m of JNum y \<Rightarrow> if num_lt n y then JNum n else m | _ \<Rightarrow> JNum n)"
    have up: "updateAccumulator (AccMin m) v = Inr (AccMin m1)" using Cons.prems(2) by (auto simp: v m1_def)
    define y1 where "y1 = (case m of JNum x \<Rightarrow> if num_lt n x then n else x | _ \<Rightarrow> n)"
    have y1: "m1 = JNum y1" "y1 \<noteq> NaN" "y1 = n \<or> m = JNum y1" "\<not> num_lt n y1"
      "\<And>x. m = JNum x \<Longrightarrow> \<not> num_lt x y1"
      using Cons.prems by (auto simp: m1_def y1_def v dest: num_lt_asym split: if_splits)
    have "NaN \<notin> set (numbers vs)" using Cons.prems(1) v by simp
    from Cons.IH [OF this, of m1] y1 obtain m' where m': "foldR updateAccumulator (AccMin m1) vs = Inr (AccMin m')"
      "m' \<noteq> JNull" "\<forall>y. m' = JNum y \<longrightarrow> (m1 = JNum y \<or> y \<in> set (numbers vs)) \<and> (\<forall>x. m1 = JNum x \<longrightarrow> \<not> num_lt x y) \<and>
         (\<forall>x \<in> set (numbers vs). \<not> num_lt x y)" "\<exists>y. m' = JNum y" by auto
    then obtain y where y: "m' = JNum y" "m1 = JNum y \<or> y \<in> set (numbers vs)" "\<not> num_lt y1 y"
      "\<forall>x \<in> set (numbers vs). \<not> num_lt x y" using y1(1) by auto
    have "\<not> num_lt n y" using num_lt_negtrans [OF y1(2,4) y(3)] .
    moreover have "\<not> num_lt x y" if "m = JNum x" for x using num_lt_negtrans [OF y1(2) y1(5) [OF that] y(3)] .
    ultimately show ?thesis using up m'(1) y y1 v by auto
  next
    case False
    then have nv: "js_typeof v \<noteq> ''number''" by (intro not_number_cases) blast
    have "updateAccumulator (AccMin m) v = Inr (AccMin m)" using False by (cases v) auto
    with Cons nv show ?thesis by simp
  qed
qed auto

lemma fold_max:
  assumes "NaN \<notin> set (numbers vs)" and "m = JNull \<or> (\<exists>x. m = JNum x \<and> x \<noteq> NaN)"
  shows "\<exists>m'. foldR updateAccumulator (AccMax m) vs = Inr (AccMax m') \<and>
    (m' = JNull \<longleftrightarrow> m = JNull \<and> numbers vs = []) \<and>
    (\<forall>y. m' = JNum y \<longrightarrow> (m = JNum y \<or> y \<in> set (numbers vs)) \<and>
      (\<forall>x. m = JNum x \<longrightarrow> \<not> num_lt y x) \<and> (\<forall>x \<in> set (numbers vs). \<not> num_lt y x)) \<and>
    (m' = JNull \<or> (\<exists>y. m' = JNum y))"
  using assms
proof (induction vs arbitrary: m)
  case (Cons v vs)
  show ?case
  proof (cases "\<exists>n. v = JNum n")
    case True
    then obtain n where v: "v = JNum n" by blast
    define m1 where "m1 = (case m of JNum y \<Rightarrow> if num_lt y n then JNum n else m | _ \<Rightarrow> JNum n)"
    have up: "updateAccumulator (AccMax m) v = Inr (AccMax m1)" using Cons.prems(2) by (auto simp: v m1_def)
    define y1 where "y1 = (case m of JNum x \<Rightarrow> if num_lt x n then n else x | _ \<Rightarrow> n)"
    have y1: "m1 = JNum y1" "y1 \<noteq> NaN" "y1 = n \<or> m = JNum y1" "\<not> num_lt y1 n"
      "\<And>x. m = JNum x \<Longrightarrow> \<not> num_lt y1 x"
      using Cons.prems by (auto simp: m1_def y1_def v dest: num_lt_asym split: if_splits)
    have "NaN \<notin> set (numbers vs)" using Cons.prems(1) v by simp
    from Cons.IH [OF this, of m1] y1 obtain m' where m': "foldR updateAccumulator (AccMax m1) vs = Inr (AccMax m')"
      "m' \<noteq> JNull" "\<forall>y. m' = JNum y \<longrightarrow> (m1 = JNum y \<or> y \<in> set (numbers vs)) \<and> (\<forall>x. m1 = JNum x \<longrightarrow> \<not> num_lt y x) \<and>
         (\<forall>x \<in> set (numbers vs). \<not> num_lt y x)" "\<exists>y. m' = JNum y" by auto
    then obtain y where y: "m' = JNum y" "m1 = JNum y \<or> y \<in> set (numbers vs)" "\<not> num_lt y y1"
      "\<forall>x \<in> set (numbers vs). \<not> num_lt y x" using y1(1) by auto
    have "\<not> num_lt y n" using num_lt_negtrans [OF y1(2) y(3) y1(4)] .
    moreover have "\<not> num_lt y x" if "m = JNum x" for x using num_lt_negtrans [OF y1(2) y(3) y1(5) [OF that]] .
    ultimately show ?thesis using up m'(1) y y1 v by auto
  next
    case False
    then have nv: "js_typeof v \<noteq> ''number''" by (intro not_number_cases) blast
    have "updateAccumulator (AccMax m) v = Inr (AccMax m)" using False by (cases v) auto
    with Cons nv show ?thesis by simp
  qed
qed auto

lemma fold_sum:
  assumes "numbers vs = map (\<lambda>i. Fin (of_int i)) is" and "\<bar>s\<bar> + sum_list (map abs is) \<le> 2 ^ 53"
  shows "foldR updateAccumulator (AccSum f (Fin (of_int s)) n) vs
    = Inr (AccSum f (Fin (of_int (s + sum_list is))) (n + int (length is)))"
  using assms
proof (induction vs arbitrary: s n "is")
  case (Cons v vs)
  show ?case
  proof (cases "\<exists>x. v = JNum x")
    case True
    then obtain x where v: "v = JNum x" by blast
    with Cons.prems(1) obtain i js where "is": "is = i # js" and x: "x = Fin (of_int i)"
      and rest: "numbers vs = map (\<lambda>i. Fin (of_int i)) js" by (cases "is") auto
    have nonneg: "0 \<le> sum_list (map abs js)" by (rule sum_list_nonneg) auto
    have "\<bar>s + i\<bar> \<le> 2 ^ 53" using Cons.prems(2) nonneg by (simp add: "is")
    then have "num_add (Fin (of_int s)) x = Fin (of_int (s + i))" unfolding x by (rule num_add_safe)
    moreover have "\<bar>s + i\<bar> + sum_list (map abs js) \<le> 2 ^ 53" using Cons.prems(2) by (simp add: "is")
    ultimately show ?thesis using Cons.IH [OF rest, of "s + i" "n + 1"] by (simp add: v "is" algebra_simps del: num_add.simps)
  next
    case False
    then have nv: "js_typeof v \<noteq> ''number''" by (intro not_number_cases) blast
    have "updateAccumulator (AccSum f (Fin (of_int s)) n) v = Inr (AccSum f (Fin (of_int s)) n)"
      using False by (cases v) auto
    with Cons.IH [of "is" s n] Cons.prems nv show ?thesis by simp
  qed
qed simp

lemma fold_distinct:
  assumes "\<And>v. v \<in> set vs \<Longrightarrow> v \<noteq> JNull \<Longrightarrow> stringify v = Inr (f v)" and "distinct seen"
  shows "\<exists>seen'. foldR updateAccumulator (AccDistinct seen) vs = Inr (AccDistinct seen') \<and> distinct seen' \<and>
    set seen' = set seen \<union> f ` {v \<in> set vs. v \<noteq> JNull}"
  using assms
proof (induction vs arbitrary: seen)
  case (Cons v vs)
  show ?case
  proof (cases "v = JNull")
    case True
    then have "{w \<in> set (v # vs). w \<noteq> JNull} = {w \<in> set vs. w \<noteq> JNull}" by auto
    with True Cons.IH [of seen] Cons.prems show ?thesis by simp
  next
    case False
    define seen1 where "seen1 = (if f v \<in> set seen then seen else seen @ [f v])"
    have "stringify v = Inr (f v)" using Cons.prems(1) False by simp
    then have "updateAccumulator (AccDistinct seen) v = Inr (AccDistinct seen1)"
      using False by (simp add: seen1_def)
    moreover have "distinct seen1" "set seen1 = insert (f v) (set seen)" using Cons.prems(2) by (auto simp: seen1_def)
    ultimately show ?thesis using Cons.IH [of seen1] Cons.prems(1) False by fastforce
  qed
qed simp

text \<open>
  what the functions compute over the values of one group.  COUNT is the number of
  values, nulls and all; COUNT DISTINCT the number of different JSON texts of the values that
  are not null; MIN and MAX a least and a greatest of the numbers among the values, null
  when there is none; SUM the exact sum of integers whose magnitudes add up to at most
  \<open>2^53\<close>, and AVG that sum divided by how many numbers there are.
\<close>

theorem aggregateValues_correct:
  assumes "int (length vs) \<le> 2 ^ 53"
  shows "aggregateValues FCount vs = Inr (JNum (Fin (of_nat (length vs)))) \<and>
    ((\<forall>v \<in> set vs. v \<noteq> JNull \<longrightarrow> stringify v = Inr (f v)) \<longrightarrow>
       aggregateValues FCountDistinct vs = Inr (JNum (Fin (of_nat (card (f ` {v \<in> set vs. v \<noteq> JNull})))))) \<and>
    (NaN \<notin> set (numbers vs) \<longrightarrow>
       (\<exists>lo hi. aggregateValues FMin vs = Inr lo \<and> aggregateValues FMax vs = Inr hi \<and>
         (if numbers vs = [] then lo = JNull \<and> hi = JNull else
          \<exists>l h. lo = JNum l \<and> hi = JNum h \<and> l \<in> set (numbers vs) \<and> h \<in> set (numbers vs) \<and>
            (\<forall>x \<in> set (numbers vs). \<not> num_lt x l \<and> \<not> num_lt h x)))) \<and>
    (\<forall>is. numbers vs = map (\<lambda>i. Fin (of_int i)) is \<and> sum_list (map abs is) \<le> 2 ^ 53 \<longrightarrow>
       aggregateValues FSum vs = Inr (JNum (Fin (of_int (sum_list is)))) \<and>
       aggregateValues FAvg vs = Inr (JNum (if is = [] then Fin 0
         else num_div (Fin (of_int (sum_list is))) (num_of_int (int (length is))))))"
proof (intro conjI impI allI)
  show "aggregateValues FCount vs = Inr (JNum (Fin (of_nat (length vs))))"
    using num_of_int_exact [of "int (length vs)"] assms by (simp add: aggregateValues_def fold_count)
next
  assume f: "\<forall>v \<in> set vs. v \<noteq> JNull \<longrightarrow> stringify v = Inr (f v)"
  obtain seen where seen: "foldR updateAccumulator (AccDistinct []) vs = Inr (AccDistinct seen)" "distinct seen"
    "set seen = f ` {v \<in> set vs. v \<noteq> JNull}"
    using fold_distinct [of vs f "[]"] f by auto
  have "length seen = card (f ` {v \<in> set vs. v \<noteq> JNull})" using seen(2,3) distinct_card by metis
  moreover have "card (f ` {v \<in> set vs. v \<noteq> JNull}) \<le> length vs"
    using card_image_le [of "{v \<in> set vs. v \<noteq> JNull}" f] card_mono [of "set vs" "{v \<in> set vs. v \<noteq> JNull}"] card_length [of vs]
    by auto
  ultimately show "aggregateValues FCountDistinct vs = Inr (JNum (Fin (of_nat (card (f ` {v \<in> set vs. v \<noteq> JNull})))))"
    using num_of_int_exact [of "int (length seen)"] assms seen(1) by (simp add: aggregateValues_def)
next
  assume nan: "NaN \<notin> set (numbers vs)"
  obtain lo where lo: "foldR updateAccumulator (AccMin JNull) vs = Inr (AccMin lo)" "lo = JNull \<longleftrightarrow> numbers vs = []"
    "\<forall>y. lo = JNum y \<longrightarrow> y \<in> set (numbers vs) \<and> (\<forall>x \<in> set (numbers vs). \<not> num_lt x y)" "lo = JNull \<or> (\<exists>y. lo = JNum y)"
    using fold_min [OF nan, of JNull] by auto
  obtain hi where hi: "foldR updateAccumulator (AccMax JNull) vs = Inr (AccMax hi)" "hi = JNull \<longleftrightarrow> numbers vs = []"
    "\<forall>y. hi = JNum y \<longrightarrow> y \<in> set (numbers vs) \<and> (\<forall>x \<in> set (numbers vs). \<not> num_lt y x)" "hi = JNull \<or> (\<exists>y. hi = JNum y)"
    using fold_max [OF nan, of JNull] by auto
  show "\<exists>lo hi. aggregateValues FMin vs = Inr lo \<and> aggregateValues FMax vs = Inr hi \<and>
         (if numbers vs = [] then lo = JNull \<and> hi = JNull else
          \<exists>l h. lo = JNum l \<and> hi = JNum h \<and> l \<in> set (numbers vs) \<and> h \<in> set (numbers vs) \<and>
            (\<forall>x \<in> set (numbers vs). \<not> num_lt x l \<and> \<not> num_lt h x))"
    using lo hi by (intro exI [of _ lo] exI [of _ hi]) (auto simp: aggregateValues_def)
next
  fix "is" assume "is": "numbers vs = map (\<lambda>i. Fin (of_int i)) is \<and> sum_list (map abs is) \<le> 2 ^ 53"
  then show "aggregateValues FSum vs = Inr (JNum (Fin (of_int (sum_list is))))"
    using fold_sum [of vs "is" 0 FSum 0] by (simp add: aggregateValues_def)
  from "is" show "aggregateValues FAvg vs = Inr (JNum (if is = [] then Fin 0
         else num_div (Fin (of_int (sum_list is))) (num_of_int (int (length is)))))"
    using fold_sum [of vs "is" 0 FAvg 0] by (simp add: aggregateValues_def)
qed

theorem aggregateValues_correct_witness:
  "aggregateValues FCount [JNum (Fin 4), JNull, JNum (Fin 2)] = Inr (JNum (Fin 3)) \<and>
   aggregateValues FSum [JNum (Fin 4), JNull, JNum (Fin 2)] = Inr (JNum (Fin 6)) \<and>
   aggregateValues FCountDistinct [JNum (Fin 4), JNull, JNum (Fin 2)] = Inr (JNum (Fin 2))"
proof -
  let ?vs = "[JNum (Fin 4), JNull, JNum (Fin 2)]"
  have n: "numbers ?vs = map (\<lambda>i. Fin (of_int i)) [4, 2]" by simp
  have "f ` {v \<in> set ?vs. v \<noteq> JNull} = {f (JNum (Fin 4)), f (JNum (Fin 2))}" for f :: "jsval \<Rightarrow> jsonText" by auto
  then show ?thesis
    using aggregateValues_correct [of ?vs Some] n by (auto simp: stringify_def dest!: spec [where x = "[4, 2]"])
qed

lemma count_all_fn: "ag_fn count_all = FCount"
  by (simp add: count_all_def)

lemma count_conserved_fold:
  "foldGroup ev [count_all] rs [AccCount n] = Inr [AccCount (n + int (length rs))]"
  by (induction rs arbitrary: n) (simp_all add: updateGroup_def agg_value_def count_all_def algebra_simps)

lemma sum_group_sizes:
  "distinct ks \<Longrightarrow> (\<And>r. r \<in> set rs \<Longrightarrow> \<exists>k \<in> set ks. g r = Some k) \<Longrightarrow>
     sum_list (map (\<lambda>k. length (filter (\<lambda>r. g r = Some k) rs)) ks) = length rs"
proof (induction rs)
  case (Cons r rs)
  then obtain k where k: "k \<in> set ks" "g r = Some k" by auto
  have "sum_list (map (\<lambda>k'. length (filter (\<lambda>r. g r = Some k') (r # rs))) ks)
      = sum_list (map (\<lambda>k'. (if k' = k then 1 else 0) + length (filter (\<lambda>r. g r = Some k') rs)) ks)"
    using k(2) by (intro arg_cong [where f = sum_list] map_cong) auto
  also have "\<dots> = sum_list (map (\<lambda>k'. if k' = k then 1 else 0) ks) + sum_list (map (\<lambda>k'. length (filter (\<lambda>r. g r = Some k') rs)) ks)"
    by (rule sum_list_addf)
  also have "sum_list (map (\<lambda>k'. if k' = k then 1 else (0::nat)) ks) = 1"
    using k(1) Cons.prems(1) by (induction ks) auto
  finally show ?case using Cons by simp
qed simp

lemma sum_list_of_nat: "of_nat (sum_list (map f xs)) = (sum_list (map (\<lambda>x. of_nat (f x)) xs) :: rat)"
  by (induction xs) auto

text \<open>
  COUNT over groups loses no row.  Grouping by any expressions and counting all rows,
  the counts of the result rows add up to the number of input rows.
\<close>

theorem count_groups_conserved:
  assumes "aggregate ev exprs [count_all] rows = Inr out" and "int (length rows) \<le> 2 ^ 53"
  shows "sum_list (map (\<lambda>r. num_val (js_number (row_get r ''n''))) out) = of_nat (length rows)"
proof -
  obtain m where m: "buildGroups ev exprs [count_all] rows [] = Inr m" "out = map (\<lambda>p. groupRow [count_all] (snd p)) m"
    using assms(1) by (auto simp: aggregate_def result_simps)
  note keys = buildGroups_keys [OF m(1)]
  have count: "num_val (js_number (row_get (groupRow [count_all] (snd p)) ''n''))
      = of_nat (length (rows_of_group ev exprs rows (fst p)))" if p: "p \<in> set m" for p
  proof -
    let ?rs = "rows_of_group ev exprs rows (fst p)"
    have mp: "map_of m (fst p) = Some (snd p)" using keys p by simp
    have "?rs \<noteq> []" using keys p by auto
    with buildGroups_groups [OF m(1), of "fst p"] mp obtain key where
      "snd p = \<lparr>gp_key = key, gp_accs = [AccCount (int (length ?rs))]\<rparr>"
      by (auto simp: start_group_def newGroup_def count_all_fn count_conserved_fold)
    moreover have "length ?rs \<le> length rows" by (simp add: rows_of_group_def)
    ultimately show ?thesis using num_of_int_exact [of "int (length ?rs)"] assms(2)
      by (simp add: groupRow_def count_all_def)
  qed
  let ?g = "\<lambda>r. case groupKey ev exprs r of Inr k \<Rightarrow> Some k | Inl _ \<Rightarrow> None"
  have "sum_list (map (\<lambda>r. num_val (js_number (row_get r ''n''))) out)
      = of_nat (sum_list (map (\<lambda>k. length (rows_of_group ev exprs rows k)) (map fst m)))"
    unfolding sum_list_of_nat m(2) map_map comp_def using count by (intro arg_cong [where f = sum_list] map_cong) auto
  also have "(\<lambda>k. length (rows_of_group ev exprs rows k)) = (\<lambda>k. length (filter (\<lambda>r. ?g r = Some k) rows))"
  proof
    fix k
    have "groupKey ev exprs r = Inr k \<longleftrightarrow> ?g r = Some k" for r by (cases "groupKey ev exprs r") auto
    then show "length (rows_of_group ev exprs rows k) = length (filter (\<lambda>r. ?g r = Some k) rows)"
      by (simp add: rows_of_group_def)
  qed
  also have "sum_list (map (\<lambda>k. length (filter (\<lambda>r. ?g r = Some k) rows)) (map fst m)) = length rows"
  proof (rule sum_group_sizes)
    fix r assume r: "r \<in> set rows"
    then obtain k where "groupKey ev exprs r = Inr k" using keys by auto
    moreover from this r have "k \<in> set (map fst m)" using keys by (auto simp: rows_of_group_def filter_empty_conv)
    ultimately show "\<exists>k \<in> set (map fst m). ?g r = Some k" by auto
  qed (use keys in auto)
  finally show ?thesis .
qed

theorem count_groups_conserved_witness:
  "sum_list (map (\<lambda>r. num_val (js_number (row_get r ''n''))) [[(''id'', JNum (Fin 1)), (''n'', JNum (Fin 2))],
     [(''id'', JNum (Fin 2)), (''n'', JNum (Fin 1))]]) = 3"
proof -
  let ?ev = "\<lambda>_ r. Inr (row_get r ''id'')" and ?rows = "[sample_row 1, sample_row 2, sample_row 1]"
  have "aggregate ?ev [FieldRef None ''id''] [count_all] ?rows =
      Inr [[(''id'', JNum (Fin 1)), (''n'', JNum (Fin 2))], [(''id'', JNum (Fin 2)), (''n'', JNum (Fin 1))]]"
    using num_of_int_exact [of 2] num_of_int_exact [of 1]
    by (simp add: aggregate_def groupKey_def stringify_def sample_row_def newGroup_def parseGroupKey_def updateGroup_def
        agg_value_def count_all_def groupRow_def row_set_def enumerated_before_def is_index_def is_digit_def catchR_def)
  from count_groups_conserved [OF this] show ?thesis by simp
qed

text \<open>
  two limits of the operator.  An aggregate without grouping over no rows gives no row
  (not a count of zero), and grouping by two columns of the same name from different tables
  keeps only the second in the result.
\<close>

theorem aggregate_edge_cases:
  "aggregate ev [] [count_all] [] = Inr [] \<and>
   parseGroupKey [FieldRef (Some ''a'') ''name'', FieldRef (Some ''b'') ''name''] [Some x, Some y] = [(''name'', y)]"
  by (simp add: aggregate_def parseGroupKey_def row_set_def)

end
