(* ===== verification/QueryAst.thy ===== *)
theory QueryAst
  imports Payloads SchemaConfig Aggregation Sorting
begin

text \<open>
  From query intents to query syntax trees: \<open>src/src/compiler/query-ast/query-ast.ts\<close> and
  \<open>query-ast-builder.ts\<close>, with its validation of intents.

  The messages of validation are those of the code.  The regular expressions that pick a field
  out of a piece of SQL text are written out as scans of the text.  \<open>sqlOp\<close>, which the builder
  attaches to a subquery and nothing reads, is left out.
\<close>

section \<open>Syntax trees of queries\<close>

record orderByNode =
  ob_expr :: exprAST
  ob_direction :: sortDirection
  ob_nulls :: nullsOrder

record scanNode =
  sn_table :: string
  sn_alias :: string
  sn_schema :: rowSchema
  sn_predicate :: "exprAST option"

record joinNode =
  jd_kind :: intentJoinKind
  jd_table :: string
  jd_alias :: string
  jd_on :: exprAST
  jd_schema :: rowSchema

record queryAST =
  qa_columns :: "projectionSpec list"
  qa_from :: scanNode
  qa_joins :: "joinNode list"
  qa_where :: "exprAST option"
  qa_groupBy :: "exprAST list option"
  qa_aggregations :: "aggSpec list option"
  qa_having :: "exprAST option"
  qa_orderBy :: "orderByNode list option"
  qa_limit :: "int option"
  qa_offset :: "int option"

section \<open>Text\<close>

fun contains :: "string \<Rightarrow> string \<Rightarrow> bool" where
  "contains p [] = (p = [])"
| "contains p (c # cs) = (prefix p (c # cs) \<or> contains p cs)"

fun split_on :: "char \<Rightarrow> string \<Rightarrow> string list" where
  "split_on d [] = [[]]"
| "split_on d (c # cs) = (if c = d then [] # split_on d cs
     else (case split_on d cs of p # ps \<Rightarrow> (c # p) # ps | [] \<Rightarrow> [[c]]))"

definition ident_start :: "char \<Rightarrow> bool" where
  "ident_start c \<longleftrightarrow> (let n = (of_char c :: nat) in 65 \<le> n \<and> n \<le> 90 \<or> 97 \<le> n \<and> n \<le> 122 \<or> n = 95)"

definition ident_char :: "char \<Rightarrow> bool" where
  "ident_char c \<longleftrightarrow> ident_start c \<or> is_digit c"

text \<open>
  \<^verbatim>\<open>/([a-zA-Z_][a-zA-Z0-9_]*)\.([a-zA-Z_][a-zA-Z0-9_]*)/\<close>: the leftmost name, dot and name.
\<close>

fun match_qualified :: "string \<Rightarrow> (string \<times> string) option" where
  "match_qualified [] = None"
| "match_qualified (c # cs) =
     (if ident_start c then
        (case dropWhile ident_char cs of
           dot # d # ds \<Rightarrow> if dot = CHR ''.'' \<and> ident_start d
             then Some (c # takeWhile ident_char cs, d # takeWhile ident_char ds) else match_qualified cs
         | _ \<Rightarrow> match_qualified cs)
      else match_qualified cs)"

text \<open>\<^verbatim>\<open>/\b([a-zA-Z_][a-zA-Z0-9_]*)\b/\<close>; the flag tells whether a word character precedes.\<close>

fun match_name :: "bool \<Rightarrow> string \<Rightarrow> string option" where
  "match_name w [] = None"
| "match_name w (c # cs) = (if \<not> w \<and> ident_start c then Some (c # takeWhile ident_char cs)
     else match_name (ident_char c) cs)"

text \<open>\<open>toUpperCase\<close>, as far as a search for ASCII text can tell: the sharp s becomes \<open>SS\<close>.\<close>

definition upper_search :: "string \<Rightarrow> string" where
  "upper_search s = concat (map (\<lambda>c. if (of_char c :: nat) = 223 then ''SS'' else [ascii_upper c]) s)"

definition alias_of :: "(string \<times> string) list \<Rightarrow> string \<Rightarrow> string" where
  "alias_of m t = (case map_of m t of Some a \<Rightarrow> if a = [] then t else a | None \<Rightarrow> t)"

definition plain_reference :: "(string \<times> string) list \<Rightarrow> string \<Rightarrow> exprAST" where
  "plain_reference m field = (case split_on CHR ''.'' field of
     [t, f] \<Rightarrow> FieldRef (Some (alias_of m t)) f
   | _ \<Rightarrow> FieldRef None field)"

definition parseFieldReference :: "(string \<times> string) list \<Rightarrow> string \<Rightarrow> exprAST" where
  "parseFieldReference m field =
     (if field = ''*'' then Wildcard
      else if contains ''('' field \<or> contains ''COALESCE'' (upper_search field)
        \<or> contains ''SUM'' (upper_search field) \<or> contains ''AVG'' (upper_search field)
      then (case match_qualified field of
          Some (t, f) \<Rightarrow> FieldRef (Some (alias_of m t)) f
        | None \<Rightarrow> (case match_name False field of
            Some f \<Rightarrow> FieldRef None f
          | None \<Rightarrow> plain_reference m field))
      else plain_reference m field)"

definition priority_case :: exprAST where
  "priority_case = (let p = parseFieldReference [] ''priority'';
       is = (\<lambda>s. BinaryOp OEq p (Literal (JStr s) TString));
       rank = (\<lambda>n. Literal (JNum (Fin n)) TNumber)
     in Conditional (is ''critical'') (rank 1) (Conditional (is ''high'') (rank 2)
       (Conditional (is ''medium'') (rank 3) (Conditional (is ''low'') (rank 4) (rank 5)))))"

definition parseSqlExpr :: "string \<Rightarrow> exprAST" where
  "parseSqlExpr s = (if contains ''CASE'' s \<and> contains ''priority'' s then priority_case
     else parseFieldReference [] s)"

section \<open>Filters\<close>

definition filter_op_name :: "filterOperator \<Rightarrow> string" where
  "filter_op_name op = (case op of FoEq \<Rightarrow> ''='' | FoNeq \<Rightarrow> ''!='' | FoLt \<Rightarrow> ''<'' | FoGt \<Rightarrow> ''>'' | FoLe \<Rightarrow> ''<=''
     | FoGe \<Rightarrow> ''>='' | FoLike \<Rightarrow> ''LIKE'' | FoIn \<Rightarrow> ''IN'' | FoNotIn \<Rightarrow> ''NOT IN'' | FoBetween \<Rightarrow> ''BETWEEN''
     | FoIsNull \<Rightarrow> ''IS NULL'' | FoIsNotNull \<Rightarrow> ''IS NOT NULL'')"

definition literal_any :: "jsval \<Rightarrow> exprAST" where
  "literal_any v = Literal v TAny"

definition lower_ascii :: "string \<Rightarrow> string" where
  "lower_ascii s = map ascii_lower s"

definition trim :: "string \<Rightarrow> string" where
  "trim s = rev (dropWhile is_space (rev (dropWhile is_space s)))"

text \<open>A string that begins with \<^verbatim>\<open>select\<close> is taken for a subquery.\<close>

definition subquery :: "jsval option \<Rightarrow> string option" where
  "subquery v = (case v of
     Some (JStr s) \<Rightarrow> if prefix ''select'' (lower_ascii (trim s)) then Some (trim s) else None
   | _ \<Rightarrow> None)"

definition subquery_expr :: "binaryOperator \<Rightarrow> queryIntentFilter \<Rightarrow> string \<Rightarrow> exprAST" where
  "subquery_expr op f s = BinaryOp op (FieldRef (if_table f) (if_field f)) (SqlExpr (''('' @ s @ '')''))"

definition array_value :: "queryIntentFilter \<Rightarrow> jsval list option" where
  "array_value f = (case if_value f of Some (JArr vs) \<Rightarrow> Some vs | _ \<Rightarrow> None)"

definition in_expr :: "queryIntentFilter \<Rightarrow> jsval list \<Rightarrow> exprAST" where
  "in_expr f vs = In (FieldRef None (if_field f)) (map literal_any vs)"

definition between_expr :: "queryIntentFilter \<Rightarrow> exprAST res" where
  "between_expr f = (case array_value f of
     Some [lo, hi] \<Rightarrow> Inr (Between (FieldRef None (if_field f)) (literal_any lo) (literal_any hi))
   | _ \<Rightarrow> Inl (PlainError ''BETWEEN operator requires array with exactly 2 values''))"

definition truthy_text :: "string option \<Rightarrow> bool" where
  "truthy_text s \<longleftrightarrow> s \<noteq> None \<and> s \<noteq> Some []"

definition binary_filter :: "binaryOperator \<Rightarrow> queryIntentFilter \<Rightarrow> exprAST res" where
  "binary_filter op f =
     (if (if_value f = None \<or> if_value f = Some JUndef) \<and> \<not> truthy_text (if_valueRef f) \<and> \<not> truthy_text (if_expr f)
      then Inl (PlainError (''Filter '' @ quoted (if_field f) @ '' must have either value, valueRef, or expr''))
      else Inr (BinaryOp op (FieldRef None (if_field f))
        (if truthy_text (if_expr f) then SqlExpr (the (if_expr f))
         else if truthy_text (if_valueRef f) then VarRef (the (if_valueRef f))
         else literal_any (the (if_value f)))))"

text \<open>The case of \<^verbatim>\<open>!=\<close> has no \<^verbatim>\<open>return\<close> for a single value: control falls into the next case, \<^verbatim>\<open>BETWEEN\<close>.\<close>

definition buildFilterExpr :: "queryIntentFilter \<Rightarrow> exprAST res" where
  "buildFilterExpr f = (let field = FieldRef None (if_field f) in
     case if_operator f of
       FoIsNull \<Rightarrow> Inr (IsNull field)
     | FoIsNotNull \<Rightarrow> Inr (UnaryOp ONot (IsNull field))
     | FoIn \<Rightarrow> (case subquery (if_value f) of
         Some s \<Rightarrow> Inr (subquery_expr OEq f s)
       | None \<Rightarrow> (case array_value f of
           Some vs \<Rightarrow> Inr (in_expr f vs)
         | None \<Rightarrow> Inl (PlainError ''IN operator requires array value or subquery string'')))
     | FoNotIn \<Rightarrow> (case subquery (if_value f) of
         Some s \<Rightarrow> Inr (subquery_expr ONeq f s)
       | None \<Rightarrow> (case array_value f of
           Some vs \<Rightarrow> Inr (UnaryOp ONot (in_expr f vs))
         | None \<Rightarrow> Inl (PlainError ''NOT IN operator requires array value or subquery string'')))
     | FoNeq \<Rightarrow> (case array_value f of
         Some vs \<Rightarrow> Inr (UnaryOp ONot (in_expr f vs))
       | None \<Rightarrow> between_expr f)
     | FoBetween \<Rightarrow> between_expr f
     | FoEq \<Rightarrow> binary_filter OEq f
     | FoLt \<Rightarrow> binary_filter OLt f
     | FoGt \<Rightarrow> binary_filter OGt f
     | FoLe \<Rightarrow> binary_filter OLe f
     | FoGe \<Rightarrow> binary_filter OGe f
     | FoLike \<Rightarrow> binary_filter OLike f)"

text \<open>Filters with the same operator and the same JSON text of the value form a group.\<close>

definition filter_key :: "queryIntentFilter \<Rightarrow> (filterOperator \<times> jsonText) res" where
  "filter_key f = mapRes (Pair (if_operator f)) (case if_value f of None \<Rightarrow> Inr None | Some v \<Rightarrow> stringify v)"

type_synonym filterGroups = "((filterOperator \<times> jsonText) \<times> queryIntentFilter list) list"

fun group_filters :: "queryIntentFilter list \<Rightarrow> filterGroups \<Rightarrow> filterGroups res" where
  "group_filters [] groups = Inr groups"
| "group_filters (f # fs) groups = bindR (filter_key f) (\<lambda>k.
     group_filters fs (al_set k ((case map_of groups k of None \<Rightarrow> [] | Some g \<Rightarrow> g) @ [f]) groups))"

fun combine :: "binaryOperator \<Rightarrow> exprAST list \<Rightarrow> exprAST option" where
  "combine op [] = None"
| "combine op (e # es) = Some (foldl (BinaryOp op) e es)"

definition group_expr :: "queryIntentFilter list \<Rightarrow> exprAST res" where
  "group_expr g = bindR (mapR buildFilterExpr g) (\<lambda>es. Inr (the (combine OOr es)))"

definition buildWhereExpr :: "queryIntentFilter list \<Rightarrow> exprAST option res" where
  "buildWhereExpr fs = (case fs of
     [] \<Rightarrow> Inr None
   | [f] \<Rightarrow> mapRes Some (buildFilterExpr f)
   | _ \<Rightarrow> bindR (group_filters fs []) (\<lambda>groups.
       bindR (mapR (\<lambda>g. group_expr (snd g)) groups) (\<lambda>es. Inr (combine OAnd es))))"

section \<open>Validation\<close>

type_synonym extraFields = "(string \<times> string list) list option"

definition extra_field :: "extraFields \<Rightarrow> string \<Rightarrow> bool" where
  "extra_field ef n \<longleftrightarrow> (case ef of None \<Rightarrow> False | Some m \<Rightarrow> list_ex (\<lambda>(source, fs). n \<in> set fs) m)"

text \<open>\<^verbatim>\<open>t || d\<close> on texts.\<close>

definition text_or :: "string option \<Rightarrow> string \<Rightarrow> string" where
  "text_or t d = (case t of None \<Rightarrow> d | Some x \<Rightarrow> if x = [] then d else x)"

definition has_column :: "schemaConfig \<Rightarrow> string \<Rightarrow> string \<Rightarrow> bool" where
  "has_column s t c \<longleftrightarrow> (case map_of (sc_tables s) t of None \<Rightarrow> False
     | Some tc \<Rightarrow> list_ex (\<lambda>col. cc_name col = c) (tc_columns tc))"

definition intent_joins :: "queryIntent \<Rightarrow> queryIntentJoin list" where
  "intent_joins q = opt_list (qi_joins q)"

definition join_alias :: "queryIntentJoin \<Rightarrow> string" where
  "join_alias j = text_or (ij_alias j) (ij_table j)"

definition alias_to_table :: "queryIntent \<Rightarrow> (string \<times> string) list" where
  "alias_to_table q = foldl (\<lambda>m j. al_set (join_alias j) (ij_table j) m) [(qi_table q, qi_table q)] (intent_joins q)"

definition all_tables :: "queryIntent \<Rightarrow> string list" where
  "all_tables q = qi_table q # map ij_table (intent_joins q)"

definition skips_check :: "queryIntentColumn \<Rightarrow> bool" where
  "skips_check c \<longleftrightarrow> ic_agg c \<noteq> None \<or> ic_field c = ''*'' \<or> truthy_text (ic_expr c)"

definition column_errors :: "schemaConfig \<Rightarrow> extraFields \<Rightarrow> queryIntent \<Rightarrow> string list" where
  "column_errors s ef q = concat (map (\<lambda>c. let t = text_or (ic_table c) (qi_table q) in
     if skips_check c \<or> extra_field ef (ic_field c) then []
     else if \<not> tableExists s t
       then [''Table '' @ quoted t @ '' referenced in column '' @ quoted (ic_field c) @ '' does not exist'']
     else if \<not> has_column s t (ic_field c)
       then [''Column '' @ quoted (ic_field c) @ '' does not exist in table '' @ quoted t]
     else []) (qi_columns q))"

definition filter_errors :: "schemaConfig \<Rightarrow> extraFields \<Rightarrow> queryIntent \<Rightarrow> string list" where
  "filter_errors s ef q = concat (map (\<lambda>f. let t = text_or (if_table f) (qi_table q);
         actual = alias_of (alias_to_table q) t in
     if extra_field ef (if_field f) then []
     else if \<not> tableExists s actual
       then [''Table '' @ quoted t @ '' referenced in filter '' @ quoted (if_field f) @ '' does not exist'']
     else if \<not> has_column s actual (if_field f)
       then [''Filter column '' @ quoted (if_field f) @ '' does not exist in table '' @ quoted t]
     else []) (opt_list (qi_filters q)))"

definition join_errors :: "schemaConfig \<Rightarrow> queryIntent \<Rightarrow> string list" where
  "join_errors s q = concat (map (\<lambda>j. if tableExists s (ij_table j) then []
     else [''Join table '' @ quoted (ij_table j) @ '' does not exist in schema'']) (intent_joins q))"

text \<open>The search for an unqualified field stops at the first table that has it; \<open>getTable\<close> throws.\<close>

fun find_in_tables :: "schemaConfig \<Rightarrow> string \<Rightarrow> string list \<Rightarrow> (schemaError, bool) result" where
  "find_in_tables s f [] = Inr False"
| "find_in_tables s f (t # ts) = bindR (getTable s t) (\<lambda>tc.
     if list_ex (\<lambda>c. cc_name c = f) (tc_columns tc) then Inr True else find_in_tables s f ts)"

definition group_error :: "schemaConfig \<Rightarrow> extraFields \<Rightarrow> queryIntent \<Rightarrow> string \<Rightarrow> (schemaError, string list) result" where
  "group_error s ef q field =
     (if extra_field ef field then Inr []
      else case split_on CHR ''.'' field of
        t # c # _ \<Rightarrow> let actual = alias_of (alias_to_table q) t in
          Inr (if \<not> tableExists s actual
               then [''GroupBy field '' @ quoted field @ '' references non-existent table '' @ quoted t]
               else if has_column s actual c then []
               else [''GroupBy field '' @ quoted field @ '' does not exist in table '' @ quoted t])
      | _ \<Rightarrow> mapRes (\<lambda>found. if found then []
           else [''GroupBy field '' @ quoted field @ '' does not exist in any table ('' @ join_str '', '' (all_tables q) @ '')''])
         (find_in_tables s field (all_tables q)))"

definition having_errors :: "schemaConfig \<Rightarrow> queryIntent \<Rightarrow> string list" where
  "having_errors s q = concat (map (\<lambda>f. let t = text_or (if_table f) (qi_table q);
         actual = alias_of (alias_to_table q) t in
     if \<not> tableExists s actual
       then [''Table '' @ quoted t @ '' referenced in having filter '' @ quoted (if_field f) @ '' does not exist'']
     else if \<not> has_column s actual (if_field f)
       then [''Having column '' @ quoted (if_field f) @ '' does not exist in table '' @ quoted t]
     else []) (opt_list (qi_having q)))"

definition aggregation_errors :: "queryIntent \<Rightarrow> string list" where
  "aggregation_errors q = (case (qi_aggregations q, qi_groupBy q) of
     (Some _, Some keys) \<Rightarrow> concat (map (\<lambda>c.
        let field = (if truthy_text (ic_table c) then the (ic_table c) @ ''.'' @ ic_field c else ic_field c) in
        if field \<in> set keys \<or> ic_field c \<in> set keys then []
        else if list_ex (\<lambda>j. ij_table j = text_or (ic_table c) (qi_table q)) (intent_joins q) then []
        else [''Non-aggregated column '' @ quoted (ic_field c) @ '' must be included in GROUP BY''])
       (filter (\<lambda>c. ic_agg c = None \<and> \<not> truthy_text (ic_expr c)) (qi_columns q)))
   | _ \<Rightarrow> [])"

definition page_errors :: "queryIntent \<Rightarrow> string list" where
  "page_errors q =
     (case qi_limit q of Some n \<Rightarrow> if n < 0 then [''Limit must be non-negative''] else [] | None \<Rightarrow> []) @
     (case qi_offset q of Some n \<Rightarrow> if n < 0 then [''Offset must be non-negative''] else [] | None \<Rightarrow> [])"

definition validateIntent :: "schemaConfig \<Rightarrow> extraFields \<Rightarrow> queryIntent \<Rightarrow> (schemaError, string list) result" where
  "validateIntent s ef q =
     bindR (mapR (group_error s ef q) (opt_list (qi_groupBy q))) (\<lambda>groups. Inr (
       (if tableExists s (qi_table q) then []
        else [''Primary table '' @ quoted (qi_table q) @ '' does not exist in schema'']) @
       column_errors s ef q @ filter_errors s ef q @ join_errors s q @ concat groups @
       having_errors s q @ aggregation_errors q @ page_errors q))"

section \<open>Building the tree\<close>

definition as_js :: "(schemaError, 'a) result \<Rightarrow> 'a res" where
  "as_js r = (case r of Inr a \<Rightarrow> Inr a
     | Inl (UnknownTableError t) \<Rightarrow> Inl (PlainError (''Unknown table: '' @ t))
     | Inl (NoJoinPathError a b) \<Rightarrow> Inl (PlainError (''No join path found from '' @ a @ '' to '' @ b)))"

definition buildScanNode :: "schemaConfig \<Rightarrow> queryIntent \<Rightarrow> scanNode res" where
  "buildScanNode s q = bindR (as_js (getTable s (qi_table q))) (\<lambda>tc.
     bindR (as_js (getRowSchema s (qi_table q))) (\<lambda>sch.
       Inr \<lparr>sn_table = qi_table q, sn_alias = text_or (tc_alias tc) (qi_table q), sn_schema = sch,
         sn_predicate = None\<rparr>))"

definition filter_join :: "queryIntent \<Rightarrow> queryIntentFilter \<Rightarrow> queryIntentJoin option" where
  "filter_join q f = (let t = text_or (if_table f) (qi_table q) in
     find (\<lambda>j. t = join_alias j \<or> t = ij_table j) (intent_joins q))"

definition primary_filters :: "queryIntent \<Rightarrow> queryIntentFilter list" where
  "primary_filters q = filter (\<lambda>f. filter_join q f = None) (opt_list (qi_filters q))"

definition joined_filters :: "queryIntent \<Rightarrow> string \<Rightarrow> queryIntentFilter list" where
  "joined_filters q key = filter (\<lambda>f. map_option join_alias (filter_join q f) = Some key) (opt_list (qi_filters q))"

text \<open>A join without a condition takes the first foreign key of the path from the primary table.\<close>

definition join_condition :: "schemaConfig \<Rightarrow> queryIntent \<Rightarrow> queryIntentJoin \<Rightarrow> exprAST res" where
  "join_condition s q j = (case ij_on j of
     Some (l, r) \<Rightarrow> Inr (BinaryOp OEq (parseFieldReference [] l) (parseFieldReference [] r))
   | None \<Rightarrow> bindR (as_js (findJoinPath s (qi_table q) (ij_table j))) (\<lambda>path. case path of
       [] \<Rightarrow> Inl (PlainError (''No foreign key relationship found from '' @ quoted (qi_table q) @ '' to '' @ quoted (ij_table j)))
     | fk # _ \<Rightarrow> Inr (BinaryOp OEq
         (parseFieldReference [] (fk_fromTable fk @ ''.'' @ fk_fromColumn fk))
         (parseFieldReference [] (fk_toTable fk @ ''.'' @ fk_toColumn fk)))))"

definition buildJoinNode :: "schemaConfig \<Rightarrow> queryIntent \<Rightarrow> queryIntentJoin \<Rightarrow> joinNode res" where
  "buildJoinNode s q j = bindR (join_condition s q j) (\<lambda>on.
     bindR (if ij_kind j = Some IjLeft then mapR buildFilterExpr (joined_filters q (join_alias j)) else Inr []) (\<lambda>fs.
     bindR (as_js (getRowSchema s (ij_table j))) (\<lambda>sch.
       Inr \<lparr>jd_kind = (case ij_kind j of None \<Rightarrow> IjInner | Some k \<Rightarrow> k), jd_table = ij_table j,
         jd_alias = join_alias j, jd_on = foldl (BinaryOp OAnd) on fs, jd_schema = sch\<rparr>)))"

definition where_filters :: "queryIntent \<Rightarrow> queryIntentFilter list" where
  "where_filters q = primary_filters q @
     concat (map (\<lambda>j. if ij_kind j = Some IjInner then joined_filters q (join_alias j) else []) (intent_joins q))"

definition buildProjections :: "queryIntent \<Rightarrow> projectionSpec list" where
  "buildProjections q = map (\<lambda>c. \<lparr>ps_expr = parseFieldReference [] (ic_field c),
       ps_alias = text_or (ic_alias c) (ic_field c)\<rparr>)
     (filter (\<lambda>c. ic_agg c = None \<and> \<not> truthy_text (ic_expr c) \<and> ic_field c \<noteq> ''*'') (qi_columns q))"

definition table_to_alias :: "queryIntent \<Rightarrow> scanNode \<Rightarrow> (string \<times> string) list" where
  "table_to_alias q scan = foldl (\<lambda>m j. al_set (ij_table j) (join_alias j) m) [(qi_table q, sn_alias scan)] (intent_joins q)"

definition buildOrderBy :: "queryIntent \<Rightarrow> (string \<times> string) list \<Rightarrow> orderByNode list" where
  "buildOrderBy q m = map (\<lambda>b. \<lparr>
       ob_expr = (if truthy_text (io_expr b) then parseSqlExpr (the (io_expr b)) else parseFieldReference m (io_field b)),
       ob_direction = (case io_direction b of None \<Rightarrow> Asc | Some d \<Rightarrow> d),
       ob_nulls = (case io_nulls b of None \<Rightarrow> NullsLast | Some n \<Rightarrow> n)\<rparr>) (opt_list (qi_orderBy q))"

definition buildAST :: "schemaConfig \<Rightarrow> queryIntent \<Rightarrow> queryAST res" where
  "buildAST s q = bindR (buildScanNode s q) (\<lambda>scan.
     bindR (mapR (buildJoinNode s q) (intent_joins q)) (\<lambda>joins.
     bindR (buildWhereExpr (where_filters q)) (\<lambda>wh.
     bindR (buildWhereExpr (opt_list (qi_having q))) (\<lambda>hv.
     let m = table_to_alias q scan in
       Inr \<lparr>qa_columns = buildProjections q, qa_from = scan, qa_joins = joins, qa_where = wh,
         qa_groupBy = map_option (map (parseFieldReference m)) (qi_groupBy q),
         qa_aggregations = map_option (map (\<lambda>a. \<lparr>ag_fn = ia_fn a, ag_expr = parseFieldReference m (ia_expr a),
           ag_alias = ia_alias a\<rparr>)) (qi_aggregations q),
         qa_having = hv, qa_orderBy = Some (buildOrderBy q m), qa_limit = qi_limit q, qa_offset = qi_offset q\<rparr>))))"

datatype buildResult = BuiltAST queryAST | InvalidIntent "string list"

definition build :: "schemaConfig \<Rightarrow> queryIntent \<Rightarrow> extraFields \<Rightarrow> buildResult res" where
  "build s q ef = bindR (as_js (validateIntent s ef q)) (\<lambda>errors.
     if errors \<noteq> [] then Inr (InvalidIntent errors) else mapRes BuiltAST (buildAST s q))"

end
