(* ===== verification/QuerySql.thy ===== *)
theory QuerySql
  imports QueryAst
begin

text \<open>
  The SQL text that \<open>src/src/executors/query-executor.ts\<close> writes itself: \<open>needsCalcite\<close> and
  \<open>buildRawSQL\<close>.  The text is built from the intent alone; the list of parameters is always empty.
\<close>

section \<open>When a query needs Calcite\<close>

definition has_subquery :: "queryIntentFilter \<Rightarrow> bool" where
  "has_subquery f \<longleftrightarrow> (if_operator f = FoNotIn \<or> if_operator f = FoIn) \<and> subquery (if_value f) \<noteq> None"

definition needsCalcite :: "queryIntent \<Rightarrow> bool" where
  "needsCalcite q \<longleftrightarrow> intent_joins q \<noteq> [] \<or> list_ex has_subquery (opt_list (qi_filters q)) \<or>
     opt_list (qi_groupBy q) \<noteq> [] \<or> list_ex (\<lambda>c. ic_agg c \<noteq> None) (qi_columns q)"

section \<open>Names and values\<close>

definition dq :: "string \<Rightarrow> string" where
  "dq s = CHR 0x22 # s @ [CHR 0x22]"

definition qualify :: "string \<Rightarrow> string \<Rightarrow> string" where
  "qualify t f = dq t @ ''.'' @ dq f"

definition table_aliases :: "queryIntent \<Rightarrow> (string \<times> string) list" where
  "table_aliases q = foldl (\<lambda>m j. let m1 = al_set (ij_table j) (join_alias j) m in
       case ij_alias j of Some a \<Rightarrow> if a = [] then m1 else al_set a a m1 | None \<Rightarrow> m1)
     [(qi_table q, qi_table q)] (intent_joins q)"

text \<open>\<^verbatim>\<open>t ? aliases.get(t) || t : null\<close>, then the field with or without it.\<close>

definition column_ref :: "(string \<times> string) list \<Rightarrow> string option \<Rightarrow> string \<Rightarrow> string" where
  "column_ref m t f = (if truthy_text t then qualify (alias_of m (the t)) f else dq f)"

text \<open>\<^verbatim>\<open>const [table, field] = s.split('.')\<close> for a text with a dot.\<close>

definition dotted_ref :: "(string \<times> string) list \<Rightarrow> string \<Rightarrow> string" where
  "dotted_ref m s = (case split_on CHR ''.'' s of t # f # _ \<Rightarrow> qualify (alias_of m t) f | _ \<Rightarrow> dq s)"

definition sql_value :: "jsval option \<Rightarrow> string" where
  "sql_value v = (case v of None \<Rightarrow> ''undefined'' | Some (JStr s) \<Rightarrow> quoted s | Some w \<Rightarrow> js_string w)"

text \<open>Elements of a list: \<open>join\<close> writes null and undefined as nothing.\<close>

definition sql_element :: "jsval \<Rightarrow> string" where
  "sql_element v = (if v = JNull \<or> v = JUndef then [] else sql_value (Some v))"

section \<open>Clauses\<close>

definition select_column :: "(string \<times> string) list \<Rightarrow> queryIntentColumn \<Rightarrow> string" where
  "select_column m c = (let field = (if ic_field c = ''*''
         then (if truthy_text (ic_table c) then dq (the (ic_table c)) @ ''.*'' else ''*'')
         else column_ref m (ic_table c) (ic_field c));
       named = (if truthy_text (ic_alias c) then '' AS '' @ dq (the (ic_alias c)) else [])
     in case ic_agg c of
         Some fn \<Rightarrow> aggfn_name fn @ ''('' @ field @ '')'' @ named
       | None \<Rightarrow> field @ named)"

definition join_kind_name :: "intentJoinKind option \<Rightarrow> string" where
  "join_kind_name k = (case k of None \<Rightarrow> ''INNER'' | Some IjInner \<Rightarrow> ''INNER'' | Some IjLeft \<Rightarrow> ''LEFT''
     | Some IjRight \<Rightarrow> ''RIGHT'' | Some IjFull \<Rightarrow> ''FULL'')"

definition join_clause :: "(string \<times> string) list \<Rightarrow> queryIntentJoin \<Rightarrow> string" where
  "join_clause m j = (let l = (case ij_on j of None \<Rightarrow> dq ''undefined'' | Some (l, r) \<Rightarrow> dotted_ref m l);
       r = (case ij_on j of None \<Rightarrow> dq ''undefined'' | Some (l, r) \<Rightarrow> dotted_ref m r)
     in '' '' @ join_kind_name (ij_kind j) @ '' JOIN '' @ dq (ij_table j) @
       (if truthy_text (ij_alias j) then '' '' @ dq (the (ij_alias j)) else []) @ '' ON '' @ l @ '' = '' @ r)"

text \<open>A filter with \<^verbatim>\<open>NOT IN\<close> on a table outside the query becomes \<^verbatim>\<open>NOT EXISTS\<close>.\<close>

definition not_exists :: "schemaConfig \<Rightarrow> queryIntent \<Rightarrow> string \<Rightarrow> string \<Rightarrow> string" where
  "not_exists s q t f = (case find (\<lambda>fk. fk_fromTable fk = t \<and> fk_toTable fk = qi_table q) (sc_foreignKeys s) of
       Some fk \<Rightarrow> ''NOT EXISTS (SELECT 1 FROM '' @ dq t @ '' WHERE '' @ qualify t (fk_fromColumn fk) @ '' = '' @
         qualify (qi_table q) (fk_toColumn fk) @ '')''
     | None \<Rightarrow> ''NOT EXISTS (SELECT 1 FROM '' @ dq t @ '' WHERE '' @ qualify t f @ '' = '' @
         qualify (qi_table q) f @ '')'')"

definition plain_condition :: "string \<Rightarrow> queryIntentFilter \<Rightarrow> string" where
  "plain_condition field f = (let op = filter_op_name (if_operator f) in
     case if_operator f of
       FoIsNull \<Rightarrow> field @ '' IS NULL''
     | FoIsNotNull \<Rightarrow> field @ '' IS NOT NULL''
     | _ \<Rightarrow> if if_operator f = FoIn \<or> if_operator f = FoNotIn
         then field @ '' '' @ op @ '' ('' @ (case array_value f of Some vs \<Rightarrow> join_str '', '' (map sql_element vs)
                | None \<Rightarrow> sql_value (if_value f)) @ '')''
         else if if_caseInsensitive f = Some True \<and> (case if_value f of Some (JStr s) \<Rightarrow> True | _ \<Rightarrow> False)
         then (if if_operator f = FoLike then field @ '' ILIKE '' @ sql_value (if_value f)
               else ''LOWER('' @ field @ '') = LOWER('' @ sql_value (if_value f) @ '')'')
         else field @ '' '' @ op @ '' '' @ sql_value (if_value f))"

definition condition_of :: "schemaConfig \<Rightarrow> queryIntent \<Rightarrow> queryIntentFilter \<Rightarrow> string res" where
  "condition_of s q f = (let m = table_aliases q; field = column_ref m (if_table f) (if_field f);
       outside = truthy_text (if_table f) \<and> \<not> al_has (the (if_table f)) m
     in case (if_operator f, subquery (if_value f)) of
         (FoNotIn, Some sql) \<Rightarrow> Inr (if outside then not_exists s q (the (if_table f)) (if_field f)
            else field @ '' NOT IN ('' @ sql @ '')'')
       | (FoIn, Some sql) \<Rightarrow> Inr (field @ '' IN ('' @ sql @ '')'')
       | _ \<Rightarrow> if outside then Inl (PlainError (''Cannot reference table '' @ quoted (the (if_table f)) @
              '' in filter because it'' @ [CHR 0x27] @ ''s not included in the FROM clause or JOINs''))
            else Inr (plain_condition field f))"

definition where_clause :: "schemaConfig \<Rightarrow> queryIntent \<Rightarrow> string res" where
  "where_clause s q = (if opt_list (qi_filters q) = [] then Inr []
     else mapRes (\<lambda>cs. '' WHERE '' @ join_str '' AND '' cs) (mapR (condition_of s q) (opt_list (qi_filters q))))"

definition group_clause :: "queryIntent \<Rightarrow> string" where
  "group_clause q = (if opt_list (qi_groupBy q) = [] then []
     else '' GROUP BY '' @ join_str '', '' (map (dotted_ref (table_aliases q)) (opt_list (qi_groupBy q))))"

definition direction_name :: "sortDirection option \<Rightarrow> string" where
  "direction_name d = (case d of Some Desc \<Rightarrow> ''DESC'' | _ \<Rightarrow> ''ASC'')"

definition order_term :: "queryIntent \<Rightarrow> queryIntentOrderBy \<Rightarrow> string" where
  "order_term q b = (if list_ex (\<lambda>c. ic_alias c = Some (io_field b)) (qi_columns q) then io_field b
     else column_ref (table_aliases q) (io_table b) (io_field b)) @ '' '' @ direction_name (io_direction b)"

definition order_clause :: "queryIntent \<Rightarrow> string" where
  "order_clause q = (if opt_list (qi_orderBy q) = [] then []
     else '' ORDER BY '' @ join_str '', '' (map (order_term q) (opt_list (qi_orderBy q))))"

definition number_clause :: "string \<Rightarrow> int option \<Rightarrow> string" where
  "number_clause word n = (case n of None \<Rightarrow> [] | Some i \<Rightarrow> if i = 0 then [] else word @ int_string i)"

definition buildRawSQL :: "schemaConfig \<Rightarrow> queryIntent \<Rightarrow> (string \<times> jsval list) res" where
  "buildRawSQL s q = mapRes (\<lambda>wh. (''SELECT '' @ join_str '', '' (map (select_column (table_aliases q)) (qi_columns q)) @
       '' FROM '' @ dq (qi_table q) @ concat (map (join_clause (table_aliases q)) (intent_joins q)) @ wh @
       group_clause q @ order_clause q @ number_clause '' LIMIT '' (qi_limit q) @ number_clause '' OFFSET '' (qi_offset q), []))
     (where_clause s q)"

end
