(* ===== verification/Joins.thy ===== *)
theory Joins
  imports Aggregation
begin

text \<open>
  \<open>src/src/executors/operators/join-operator.ts\<close>: the hash join with its spill to the
  temporary store and its handling of unmatched rows.

  The operator is given its build and probe inputs; \<open>jn_leftIsBuild\<close> records which of them
  is the left one.  \<open>pendingRows\<close> is never filled by the code and is left out.  A key that
  the code takes from the JSON text of a whole row is kept as the tree (\<open>KJson\<close>).
  A batch that fails leaves the operator in its error state, where the keys and the schema
  that batch had recorded are not read again; they are dropped with it.
\<close>

section \<open>Keys and merged rows\<close>

datatype joinKind = JkInner | JkLeft | JkRight | JkFull

datatype joinKey = KText string | KJson jsval

record joinOptions =
  jn_on :: exprAST
  jn_kind :: joinKind
  jn_batchSize :: nat
  jn_leftIsBuild :: bool
  jn_now :: int

fun getFieldValue :: "exprAST \<Rightarrow> row \<Rightarrow> jsval res" where
  "getFieldValue (FieldRef t fld) r = Inr (row_get r fld)"
| "getFieldValue (Literal v ty) r = Inr v"
| "getFieldValue _ r = Inl (PlainError ''Unsupported expression for join key extraction'')"

fun extractEquiJoinKey :: "row \<Rightarrow> exprAST \<Rightarrow> bool \<Rightarrow> joinKey res" where
  "extractEquiJoinKey r (BinaryOp op a b) isBuild =
     (if op = OEq then bindR (getFieldValue a r) (\<lambda>x. bindR (getFieldValue b r) (\<lambda>y.
        Inr (KText (js_string (if isBuild then x else y)))))
      else if op = OAnd then extractEquiJoinKey r a isBuild
      else mapRes KJson (json_norm (JObj r)))"
| "extractEquiJoinKey r _ isBuild = mapRes KJson (json_norm (JObj r))"

definition is_equi :: "exprAST \<Rightarrow> bool" where
  "is_equi e = (case e of BinaryOp op a b \<Rightarrow> op = OEq | _ \<Rightarrow> False)"

definition shouldJoin :: "joinKey \<Rightarrow> joinKey \<Rightarrow> exprAST \<Rightarrow> bool" where
  "shouldJoin probeKey buildKey e = (if is_equi e then probeKey = buildKey else True)"

definition prefixed :: "string \<Rightarrow> row \<Rightarrow> row \<Rightarrow> row" where
  "prefixed p r acc = foldl (\<lambda>acc (k, v). row_set k v (row_set (p @ k) v acc)) acc r"

definition mergeRows :: "row option \<Rightarrow> row option \<Rightarrow> rowSchema \<Rightarrow> row" where
  "mergeRows l r rightSchema = (let m = (case l of None \<Rightarrow> [] | Some l \<Rightarrow> prefixed ''left.'' l [])
     in case r of Some r \<Rightarrow> prefixed ''right.'' r m
        | None \<Rightarrow> foldl (\<lambda>acc c. row_set (''right.'' @ col_name c) JNull acc) m rightSchema)"

definition rename_col :: "string \<Rightarrow> column \<Rightarrow> column" where
  "rename_col p c = Column (p @ col_name c) (col_type c) (col_nullable c)"

definition mergeSchemas :: "rowSchema \<Rightarrow> rowSchema \<Rightarrow> rowSchema" where
  "mergeSchemas l r = map (rename_col ''left.'') l @ map (rename_col ''right.'') r @ l @ r"

section \<open>State\<close>

type_synonym hashTable = "(joinKey \<times> row list) list"

record ('b, 'p) joinState =
  jo_build :: 'b
  jo_probe :: 'p
  jo_table :: hashTable
  jo_generator :: bool
  jo_ctx :: "execContext option"
  jo_buildSchema :: rowSchema
  jo_probeSchema :: rowSchema
  jo_spilled :: bool
  jo_tempKey :: string
  jo_matched :: "joinKey list"
  jo_processed :: bool
  jo_temp :: tempStore

definition new_join :: "'b \<Rightarrow> 'p \<Rightarrow> tempStore \<Rightarrow> ('b, 'p) joinState phys" where
  "new_join b p ts = new_phys \<lparr>jo_build = b, jo_probe = p, jo_table = [], jo_generator = False, jo_ctx = None,
     jo_buildSchema = [], jo_probeSchema = [], jo_spilled = False, jo_tempKey = [], jo_matched = [],
     jo_processed = False, jo_temp = ts\<rparr>"

fun fillTable :: "exprAST \<Rightarrow> row list \<Rightarrow> hashTable \<Rightarrow> hashTable res" where
  "fillTable e [] m = Inr m"
| "fillTable e (r # rs) m = bindR (if is_equi e then extractEquiJoinKey r e True else Inr (KText ''_all''))
     (\<lambda>k. fillTable e rs (al_set k ((case map_of m k of None \<Rightarrow> [] | Some l \<Rightarrow> l) @ [r]) m))"

definition buildHashTable :: "joinOptions \<Rightarrow> execContext \<Rightarrow> row list \<Rightarrow> ('b, 'p) joinState \<Rightarrow> ('b, 'p) joinState res" where
  "buildHashTable opts c rows s =
     (if 2 * int (length rows) > maxRowsPerNode (budget c)
      then let k = ''join_build_'' @ int_string (jn_now opts)
        in Inr (s\<lparr>jo_spilled := True, jo_tempKey := k,
             jo_temp := ts_write (jo_temp s) k \<lparr>b_rows = rows, b_schema = jo_buildSchema s\<rparr>, jo_table := []\<rparr>)
      else mapRes (\<lambda>m. s\<lparr>jo_table := m\<rparr>) (fillTable (jn_on opts) rows (jo_table s)))"

definition join_doOpen :: "joinOptions \<Rightarrow> 'b operator \<Rightarrow> 'p operator \<Rightarrow> execContext \<Rightarrow> (unit, ('b, 'p) joinState) io" where
  "join_doOpen opts bop pop c st = Option.bind (zoom jo_build (\<lambda>i s. s\<lparr>jo_build := i\<rparr>)
       (collectAll bop c (nat (min (int (jn_batchSize opts)) (maxRowsPerNode (budget c)))))
       ((fst st)\<lparr>jo_ctx := Some c\<rparr>, snd st)) (\<lambda>(r, s, t). case r of
     Inl e \<Rightarrow> Some (Inl e, s, t)
   | Inr b \<Rightarrow> Option.bind (zoom jo_probe (\<lambda>i s. s\<lparr>jo_probe := i\<rparr>) (op_open pop c) (s, t)) (\<lambda>(r, s, t). case r of
       Inl e \<Rightarrow> Some (Inl e, s, t)
     | Inr _ \<Rightarrow> (case buildHashTable opts c (b_rows b) (s\<lparr>jo_buildSchema := b_schema b, jo_probeSchema := []\<rparr>) of
         Inl e \<Rightarrow> Some (Inl e, s, t)
       | Inr s' \<Rightarrow> Some (Inr (), s'\<lparr>jo_generator := True\<rparr>, t))))"

section \<open>Probing\<close>

definition add_key :: "joinKey \<Rightarrow> joinKey list \<Rightarrow> joinKey list" where
  "add_key k ks = List.insert k ks"

text \<open>The build rows under the key, merged, those for which the condition is true.\<close>

fun probe_matches :: "(row \<Rightarrow> bool res) \<Rightarrow> row list \<Rightarrow> row \<Rightarrow> row list res" where
  "probe_matches test [] p = Inr []"
| "probe_matches test (b # bs) p = (let m = mergeRows (Some b) (Some p) [] in
     bindR (test m) (\<lambda>keep. mapRes (\<lambda>ms. if keep then m # ms else ms) (probe_matches test bs p)))"

fun spilled_matches :: "exprAST \<Rightarrow> joinKey \<Rightarrow> row list \<Rightarrow> row \<Rightarrow> joinKey list \<Rightarrow> (row list \<times> joinKey list) res" where
  "spilled_matches e k [] p matched = Inr ([], matched)"
| "spilled_matches e k (b # bs) p matched = bindR (extractEquiJoinKey b e True) (\<lambda>bk.
     if shouldJoin k bk e then mapRes (\<lambda>(ms, mk). (mergeRows (Some b) (Some p) [] # ms, mk))
         (spilled_matches e k bs p (add_key bk matched))
     else spilled_matches e k bs p matched)"

definition join_row :: "joinOptions \<Rightarrow> (row \<Rightarrow> bool res) \<Rightarrow> ('b, 'p) joinState \<Rightarrow> row \<Rightarrow> (row list \<times> joinKey list) res" where
  "join_row opts test s p = bindR (extractEquiJoinKey p (jn_on opts) False) (\<lambda>k.
     if jo_spilled s then bindR (ts_read (jo_temp s) (jo_tempKey s)) (\<lambda>bs.
         spilled_matches (jn_on opts) k (concat (map b_rows bs)) p (jo_matched s))
     else case map_of (jo_table s) k of
         None \<Rightarrow> Inr ([], jo_matched s)
       | Some bs \<Rightarrow> mapRes (\<lambda>ms. (ms, add_key k (jo_matched s))) (probe_matches test bs p))"

text \<open>The probe rows of one batch; the loop stops as soon as the output is large enough.\<close>

fun join_rows :: "joinOptions \<Rightarrow> (row \<Rightarrow> bool res) \<Rightarrow> nat \<Rightarrow> row list \<Rightarrow> row list \<Rightarrow> ('b, 'p) joinState \<Rightarrow>
    (row list \<times> ('b, 'p) joinState) res" where
  "join_rows opts test n [] out s = Inr (out, s)"
| "join_rows opts test n (p # ps) out s = bindR (join_row opts test s p) (\<lambda>(ms, mk).
     let s' = s\<lparr>jo_matched := mk\<rparr>; out' = out @ ms
     in if length out' \<ge> n then Inr (out', s') else join_rows opts test n ps out' s')"

partial_function (option) join_loop ::
    "joinOptions \<Rightarrow> (row \<Rightarrow> bool res) \<Rightarrow> 'p operator \<Rightarrow> nat \<Rightarrow> row list \<Rightarrow> ('b, 'p) joinState \<times> trace \<Rightarrow>
     (row list res \<times> ('b, 'p) joinState \<times> trace) option" where
  "join_loop opts test pop n out st =
     (if \<not> (length out < n \<and> jo_generator (fst st)) then Some (Inr out, st)
      else Option.bind (zoom jo_probe (\<lambda>i s. s\<lparr>jo_probe := i\<rparr>) (op_next pop (jn_batchSize opts)) st) (\<lambda>(r, s, t). case r of
          Inl e \<Rightarrow> Some (Inl e, s, t)
        | Inr b \<Rightarrow> if b_rows b = [] then Some (Inr out, s\<lparr>jo_generator := False\<rparr>, t)
            else case join_rows opts test n (b_rows b) out
                (if jo_probeSchema s = [] then s\<lparr>jo_probeSchema := b_schema b\<rparr> else s) of
              Inl e \<Rightarrow> Some (Inl e, s, t)
            | Inr (out', s') \<Rightarrow> join_loop opts test pop n out' (s', t)))"

definition unmatched_row :: "('b, 'p) joinState \<Rightarrow> row \<Rightarrow> row" where
  "unmatched_row s b = mergeRows (Some b) None (jo_probeSchema s)"

definition add_right_unmatched :: "joinOptions \<Rightarrow> row list \<times> ('b, 'p) joinState \<Rightarrow> row list \<times> ('b, 'p) joinState" where
  "add_right_unmatched opts = (\<lambda>(out, s).
     if \<not> jo_generator s \<and> (jn_kind opts = JkRight \<or> jn_kind opts = JkFull) \<and> \<not> jn_leftIsBuild opts
     then (out @ map (unmatched_row s) (concat (map snd (jo_table s))), s\<lparr>jo_table := []\<rparr>) else (out, s))"

definition add_left_unmatched :: "joinOptions \<Rightarrow> row list \<times> ('b, 'p) joinState \<Rightarrow> row list \<times> ('b, 'p) joinState" where
  "add_left_unmatched opts = (\<lambda>(out, s).
     if \<not> jo_generator s \<and> jn_kind opts = JkLeft \<and> \<not> jo_processed s \<and> jn_leftIsBuild opts
     then (out @ map (unmatched_row s) (concat (map snd (filter (\<lambda>(k, _). k \<notin> set (jo_matched s)) (jo_table s)))),
           s\<lparr>jo_processed := True\<rparr>)
     else (out, s))"

definition join_test :: "host \<Rightarrow> fnRegistry \<Rightarrow> exprAST \<Rightarrow> scope \<Rightarrow> row \<Rightarrow> bool res" where
  "join_test h reg e sc m = catchR (mapRes (\<lambda>v. v = JBool True) (evaluate h reg e sc (Some m))) False"

definition join_doNext :: "host \<Rightarrow> fnRegistry \<Rightarrow> joinOptions \<Rightarrow> 'p operator \<Rightarrow> nat \<Rightarrow> (batch, ('b, 'p) joinState) io" where
  "join_doNext h reg opts pop n st = (case jo_ctx (fst st) of
       None \<Rightarrow> Some (Inl (PlainError ''JoinOperator not opened''), st)
     | Some c \<Rightarrow> Option.bind (join_loop opts (join_test h reg (jn_on opts) (ctx_scope c)) pop n [] st) (\<lambda>(r, s, t). case r of
         Inl e \<Rightarrow> Some (Inl e, s, t)
       | Inr out \<Rightarrow> let (out', s') = add_left_unmatched opts (add_right_unmatched opts (out, s))
           in Some (Inr \<lparr>b_rows = out', b_schema = mergeSchemas (jo_buildSchema s') (jo_probeSchema s')\<rparr>, s', t)))"

text \<open>Closing leaves the probe input as it is.\<close>

definition join_doClose :: "(unit, ('b, 'p) joinState) io" where
  "join_doClose = (\<lambda>(s, t). Some (Inr (), s\<lparr>jo_generator := False,
     jo_temp := (if jo_spilled s \<and> jo_tempKey s \<noteq> [] then ts_delete (jo_temp s) (jo_tempKey s) else jo_temp s),
     jo_table := [], jo_matched := [], jo_processed := False\<rparr>, t))"

definition joinOperator :: "host \<Rightarrow> fnRegistry \<Rightarrow> joinOptions \<Rightarrow> 'b operator \<Rightarrow> 'p operator \<Rightarrow> ('b, 'p) joinState phys operator" where
  "joinOperator h reg opts bop pop = base_operator ''Join'' (join_doOpen opts bop pop) (join_doNext h reg opts pop) join_doClose"


section \<open>The hash join is the nested-loop join\<close>

definition table_rows :: "hashTable \<Rightarrow> joinKey \<Rightarrow> row list" where
  "table_rows m k = (case map_of m k of None \<Rightarrow> [] | Some l \<Rightarrow> l)"

definition table_all :: "hashTable \<Rightarrow> row list" where
  "table_all m = concat (map snd m)"

definition equi :: "string option \<Rightarrow> string \<Rightarrow> string option \<Rightarrow> string \<Rightarrow> exprAST" where
  "equi lt fl rt fr = BinaryOp OEq (FieldRef lt fl) (FieldRef rt fr)"

definition field_key :: "string \<Rightarrow> row \<Rightarrow> joinKey" where
  "field_key fld r = KText (js_string (row_get r fld))"

lemma equi_facts [simp]:
  "is_equi (equi lt fl rt fr)"
  "extractEquiJoinKey r (equi lt fl rt fr) b = Inr (field_key (if b then fl else fr) r)"
  by (simp_all add: equi_def is_equi_def field_key_def)

lemma table_rows_set [simp]: "table_rows (al_set k l m) k' = (if k' = k then l else table_rows m k')"
  by (simp add: table_rows_def)

lemma mset_table_all_set:
  "mset (table_all (al_set k (table_rows m k @ [r]) m)) = add_mset r (mset (table_all m))"
  by (induction m) (auto simp: table_all_def table_rows_def)

lemma set_al_set_subset: "set (al_set k v m) \<subseteq> insert (k, v) (set m)"
  by (induction m) (auto split: if_splits)

lemma table_rows_in: "table_rows m k = [] \<or> (k, table_rows m k) \<in> set m"
  by (auto simp: table_rows_def split: option.splits dest: map_of_SomeD)

text \<open>Every entry of the table holds rows of its own key.\<close>

definition keyed :: "(row \<Rightarrow> joinKey) \<Rightarrow> hashTable \<Rightarrow> bool" where
  "keyed key m \<longleftrightarrow> list_all (\<lambda>(k, l). list_all (\<lambda>r. key r = k) l) m"

lemma keyed_set: "keyed key m \<Longrightarrow> key r = k \<Longrightarrow> keyed key (al_set k (table_rows m k @ [r]) m)"
  using set_al_set_subset [of k "table_rows m k @ [r]" m] table_rows_in [of m k]
  by (fastforce simp: keyed_def list_all_iff)

lemma fillTable_equi:
  assumes "keyed (field_key fl) m"
  shows "\<exists>m'. fillTable (equi lt fl rt fr) rs m = Inr m' \<and> keyed (field_key fl) m' \<and>
    (\<forall>k. table_rows m' k = table_rows m k @ filter (\<lambda>r. field_key fl r = k) rs) \<and>
    mset (table_all m') = mset (table_all m) + mset rs"
  using assms
proof (induction rs arbitrary: m)
  case (Cons r rs)
  let ?m = "al_set (field_key fl r) (table_rows m (field_key fl r) @ [r]) m"
  have "fillTable (equi lt fl rt fr) (r # rs) m = fillTable (equi lt fl rt fr) rs ?m"
    by (simp add: table_rows_def)
  with Cons.IH [OF keyed_set [OF Cons.prems refl, of r]] show ?case
    by (auto simp: mset_table_all_set)
qed simp

lemma table_filter:
  "keyed key m \<Longrightarrow> concat (map snd (filter (\<lambda>(k, _). Q k) m)) = filter (\<lambda>r. Q (key r)) (table_all m)"
proof (induction m)
  case (Cons e m)
  then obtain k l where e: "e = (k, l)" "list_all (\<lambda>r. key r = k) l" "keyed key m" by (cases e) (auto simp: keyed_def)
  have "filter (\<lambda>r. Q (key r)) l = (if Q k then l else [])"
    using e(2) by (induction l) auto
  with e Cons show ?case by (simp add: table_all_def)
qed (simp add: table_all_def)

lemma probe_matches_total:
  assumes "\<And>b. b \<in> set bs \<Longrightarrow> test (mergeRows (Some b) (Some p) []) = Inr (P (mergeRows (Some b) (Some p) []))"
  shows "probe_matches test bs p = Inr (filter P (map (\<lambda>b. mergeRows (Some b) (Some p) []) bs))"
  using assms by (induction bs) (auto simp: Let_def)

text \<open>What one probe row contributes, and the keys the probe rows have hit.\<close>

definition row_joins :: "(row \<Rightarrow> bool) \<Rightarrow> row list \<Rightarrow> row \<Rightarrow> row list" where
  "row_joins P bs p = filter P (map (\<lambda>b. mergeRows (Some b) (Some p) []) bs)"

definition hit_keys :: "(row \<Rightarrow> joinKey) \<Rightarrow> hashTable \<Rightarrow> row list \<Rightarrow> joinKey set" where
  "hit_keys key m ps = {key p | p. p \<in> set ps \<and> al_has (key p) m}"

definition same_but_matched :: "('b, 'p) joinState \<Rightarrow> ('b, 'p) joinState \<Rightarrow> bool" where
  "same_but_matched s s' \<longleftrightarrow> s' = s\<lparr>jo_matched := jo_matched s'\<rparr>"

lemma join_rows_equi:
  assumes on: "jn_on opts = equi lt fl rt fr" and mem: "\<not> jo_spilled s"
    and test: "\<And>p b. p \<in> set ps \<Longrightarrow> b \<in> set (table_rows (jo_table s) (field_key fr p)) \<Longrightarrow>
      test (mergeRows (Some b) (Some p) []) = Inr (P (mergeRows (Some b) (Some p) []))"
    and fits: "length (out @ concat (map (\<lambda>p. row_joins P (table_rows (jo_table s) (field_key fr p)) p) ps)) < n"
  shows "\<exists>s'. join_rows opts test n ps out s =
      Inr (out @ concat (map (\<lambda>p. row_joins P (table_rows (jo_table s) (field_key fr p)) p) ps), s') \<and>
    same_but_matched s s' \<and> set (jo_matched s') = set (jo_matched s) \<union> hit_keys (field_key fr) (jo_table s) ps"
  using assms
proof (induction ps arbitrary: out s)
  case Nil
  then show ?case by (simp add: same_but_matched_def hit_keys_def)
next
  case (Cons p ps)
  let ?k = "field_key fr p"
  define mk where "mk = (if al_has ?k (jo_table s) then add_key ?k (jo_matched s) else jo_matched s)"
  define s1 where "s1 = s\<lparr>jo_matched := mk\<rparr>"
  have row: "join_row opts test s p = Inr (row_joins P (table_rows (jo_table s) ?k) p, mk)"
    using Cons.prems(1,2) probe_matches_total [of "table_rows (jo_table s) ?k" test p P] Cons.prems(3) [of p]
    by (auto simp: join_row_def mk_def row_joins_def table_rows_def al_has_iff split: option.splits)
  have s1: "jo_table s1 = jo_table s" "\<not> jo_spilled s1" using Cons.prems(2) by (simp_all add: s1_def)
  have "\<exists>s'. join_rows opts test n ps (out @ row_joins P (table_rows (jo_table s) ?k) p) s1 =
      Inr ((out @ row_joins P (table_rows (jo_table s) ?k) p) @
        concat (map (\<lambda>p. row_joins P (table_rows (jo_table s1) (field_key fr p)) p) ps), s') \<and>
    same_but_matched s1 s' \<and> set (jo_matched s') = set (jo_matched s1) \<union> hit_keys (field_key fr) (jo_table s1) ps"
    by (rule Cons.IH [OF Cons.prems(1) s1(2)]) (use Cons.prems(3,4) s1(1) in auto)
  moreover have "join_rows opts test n (p # ps) out s =
      join_rows opts test n ps (out @ row_joins P (table_rows (jo_table s) ?k) p) s1"
    using Cons.prems(4) by (simp add: row s1_def Let_def)
  ultimately show ?case
    by (auto simp: s1(1) same_but_matched_def s1_def hit_keys_def mk_def add_key_def)
qed

text \<open>
  What the join promises: the pairs in the order of the probe rows, each with its build rows
  in their order; a left join adds the build rows whose key no probe row has.
\<close>

definition nested_loop :: "(row \<Rightarrow> bool) \<Rightarrow> string \<Rightarrow> string \<Rightarrow> row list \<Rightarrow> row list \<Rightarrow> row list" where
  "nested_loop P fl fr bs ps = [mergeRows (Some b) (Some p) []. p \<leftarrow> ps, b \<leftarrow> bs,
     js_string (row_get b fl) = js_string (row_get p fr) \<and> P (mergeRows (Some b) (Some p) [])]"

definition left_only :: "string \<Rightarrow> string \<Rightarrow> row list \<Rightarrow> row list \<Rightarrow> row list" where
  "left_only fl fr bs ps = filter (\<lambda>b. \<not> (\<exists>p \<in> set ps. js_string (row_get b fl) = js_string (row_get p fr))) bs"

lemma row_joins_nested:
  "concat (map (\<lambda>p. row_joins P (filter (\<lambda>b. field_key fl b = field_key fr p) bs) p) ps) = nested_loop P fl fr bs ps"
proof -
  have "row_joins P (filter (\<lambda>b. field_key fl b = field_key fr p) bs) p =
    concat (map (\<lambda>b. if js_string (row_get b fl) = js_string (row_get p fr) \<and> P (mergeRows (Some b) (Some p) [])
      then [mergeRows (Some b) (Some p) []] else []) bs)" for p
    by (induction bs) (auto simp: row_joins_def field_key_def)
  then show ?thesis by (simp add: nested_loop_def)
qed

lemma left_only_hits:
  assumes "keyed (field_key fl) m" "mset (table_all m) = mset bs"
    "\<And>k. table_rows m k = filter (\<lambda>r. field_key fl r = k) bs"
  shows "mset (concat (map snd (filter (\<lambda>(k, _). k \<notin> hit_keys (field_key fr) m ps) m))) = mset (left_only fl fr bs ps)"
proof -
  have hit: "field_key fl b \<in> hit_keys (field_key fr) m ps \<longleftrightarrow>
      (\<exists>p \<in> set ps. js_string (row_get b fl) = js_string (row_get p fr))" if "b \<in> set bs" for b
  proof -
    have "b \<in> set (table_rows m (field_key fl b))" using that by (simp add: assms(3))
    then have "al_has (field_key fl b) m"
      by (cases "map_of m (field_key fl b)") (auto simp: table_rows_def al_has_iff)
    then show ?thesis by (auto simp: hit_keys_def field_key_def)
  qed
  have "mset (concat (map snd (filter (\<lambda>(k, _). k \<notin> hit_keys (field_key fr) m ps) m))) =
      filter_mset (\<lambda>r. field_key fl r \<notin> hit_keys (field_key fr) m ps) (mset bs)"
    by (simp only: table_filter [OF assms(1), of "\<lambda>k. k \<notin> hit_keys (field_key fr) m ps"] mset_filter assms(2))
  also have "\<dots> = mset (left_only fl fr bs ps)"
    unfolding left_only_def mset_filter by (rule filter_mset_cong) (simp_all add: hit)
  finally show ?thesis .
qed

lemma collectAll_one_batch:
  assumes "op_open op c (p, t) = Some (Inr (), p0, t0)" "op_state op p0 = SOpen"
    and n1: "\<exists>b p1 t1. op_next op n (p0, t0) = Some (Inr b, p1, t1) \<and> b_rows b = out \<and> (out = [] \<or> op_state op p1 = SOpen \<and>
      (\<exists>b2 p2 t2. op_next op n (p1, t1) = Some (Inr b2, p2, t2) \<and> b_rows b2 = []))"
    and close: "\<And>p t. \<exists>q t'. op_close op (p, t) = Some (Inr (), q, t')"
    and small: "int (length out) \<le> maxRowsPerNode (budget c) \<or> out = []"
  shows "\<exists>sc q t'. collectAll op c n (p, t) = Some (Inr \<lparr>b_rows = out, b_schema = sc\<rparr>, q, t')"
proof -
  obtain b p1 t1 where b: "op_next op n (p0, t0) = Some (Inr b, p1, t1)" "b_rows b = out"
    "out = [] \<or> op_state op p1 = SOpen \<and> (\<exists>b2 p2 t2. op_next op n (p1, t1) = Some (Inr b2, p2, t2) \<and> b_rows b2 = [])"
    using n1 by blast
  show ?thesis
  proof (cases "out = []")
    case True
    obtain q t6 where "op_close op (p1, t1) = Some (Inr (), q, t6)" using close by blast
    with b assms(1,2) True show ?thesis
      by (simp add: collectAll_def Let_def collect_loop.simps [of op] cong: bind_weak_cong)
  next
    case False
    then obtain b2 p2 t2 where "op_next op n (p1, t1) = Some (Inr b2, p2, t2)" "b_rows b2 = []" "op_state op p1 = SOpen"
      using b(3) by blast
    moreover obtain q t6 where "op_close op (p2, t2) = Some (Inr (), q, t6)" using close by blast
    ultimately show ?thesis using b(1,2) assms(1,2) False small
      by (simp add: collectAll_def Let_def collect_loop.simps [of op] cong: bind_weak_cong)
  qed
qed

context row_source
begin

lemma join_loop_equi:
  assumes on: "jn_on opts = equi lt fl rt fr" and size: "0 < jn_batchSize opts"
    and s: "\<not> jo_spilled s" "jo_generator s" "valid (jo_probe s)" "op_state op (jo_probe s) = SOpen"
    and test: "\<And>p b. p \<in> set (rows (jo_probe s)) \<Longrightarrow> b \<in> set (table_rows (jo_table s) (field_key fr p)) \<Longrightarrow>
      test (mergeRows (Some b) (Some p) []) = Inr (P (mergeRows (Some b) (Some p) []))"
    and fits: "length (out @ concat (map (\<lambda>p. row_joins P (table_rows (jo_table s) (field_key fr p)) p) (rows (jo_probe s)))) < n"
  shows "\<exists>s' t'. join_loop opts test op n out (s, t) =
      Some (Inr (out @ concat (map (\<lambda>p. row_joins P (table_rows (jo_table s) (field_key fr p)) p) (rows (jo_probe s)))), s', t') \<and>
    \<not> jo_generator s' \<and> jo_table s' = jo_table s \<and> jo_ctx s' = jo_ctx s \<and> jo_processed s' = jo_processed s \<and>
    set (jo_matched s') = set (jo_matched s) \<union> hit_keys (field_key fr) (jo_table s) (rows (jo_probe s))"
  using assms(3-)
proof (induction "length (rows (jo_probe s))" arbitrary: s t out rule: less_induct)
  case less
  let ?J = "\<lambda>p. row_joins P (table_rows (jo_table s) (field_key fr p)) p"
  obtain b i t1 where nb: "op_next op (jn_batchSize opts) (jo_probe s, t) = Some (Inr b, i, t1)" "valid i"
    "rows (jo_probe s) = b_rows b @ rows i"
    "if b_rows b = [] then op_state op i \<noteq> SOpen \<and> rows i = [] else op_state op i = SOpen"
    using next_batch [OF less.prems(3,4) size] by blast
  show ?case
  proof (cases "b_rows b = []")
    case True
    with nb less.prems show ?thesis
      by (subst join_loop.simps) (auto simp: zoom_def hit_keys_def)
  next
    case False
    define s0 where "s0 = (if jo_probeSchema s = [] then s\<lparr>jo_probe := i, jo_probeSchema := b_schema b\<rparr> else s\<lparr>jo_probe := i\<rparr>)"
    have s0: "jo_table s0 = jo_table s" "\<not> jo_spilled s0" "jo_probe s0 = i" "jo_matched s0 = jo_matched s"
      "jo_generator s0" "jo_ctx s0 = jo_ctx s" "jo_processed s0 = jo_processed s"
      using less.prems by (simp_all add: s0_def)
    have "\<exists>s1. join_rows opts test n (b_rows b) out s0 = Inr (out @ concat (map (\<lambda>p. row_joins P
        (table_rows (jo_table s0) (field_key fr p)) p) (b_rows b)), s1) \<and> same_but_matched s0 s1 \<and>
      set (jo_matched s1) = set (jo_matched s0) \<union> hit_keys (field_key fr) (jo_table s0) (b_rows b)"
      by (rule join_rows_equi [OF on s0(2)]) (use less.prems(5,6) nb(3) in \<open>auto simp: s0(1)\<close>)
    then obtain s1 where jr: "join_rows opts test n (b_rows b) out s0 = Inr (out @ concat (map ?J (b_rows b)), s1)"
      "s1 = s0\<lparr>jo_matched := jo_matched s1\<rparr>"
      "set (jo_matched s1) = set (jo_matched s) \<union> hit_keys (field_key fr) (jo_table s) (b_rows b)"
      by (auto simp: s0 same_but_matched_def)
    have s1: "jo_table s1 = jo_table s" "\<not> jo_spilled s1" "jo_probe s1 = i" "jo_generator s1" "jo_ctx s1 = jo_ctx s"
      "jo_processed s1 = jo_processed s" by (subst jr(2); simp add: s0)+
    have step: "join_loop opts test op n out (s, t) = join_loop opts test op n (out @ concat (map ?J (b_rows b))) (s1, t1)"
      using nb(1) False less.prems(2,6) jr(1)
      by (subst join_loop.simps) (simp add: zoom_def s0_def split: if_splits)
    have "\<exists>s' t'. join_loop opts test op n (out @ concat (map ?J (b_rows b))) (s1, t1) =
      Some (Inr ((out @ concat (map ?J (b_rows b))) @ concat (map (\<lambda>p. row_joins P
        (table_rows (jo_table s1) (field_key fr p)) p) (rows (jo_probe s1)))), s', t') \<and>
      \<not> jo_generator s' \<and> jo_table s' = jo_table s1 \<and> jo_ctx s' = jo_ctx s1 \<and> jo_processed s' = jo_processed s1 \<and>
      set (jo_matched s') = set (jo_matched s1) \<union> hit_keys (field_key fr) (jo_table s1) (rows (jo_probe s1))"
      by (rule less.hyps) (use less.prems nb False s1 in auto)
    then show ?thesis unfolding step s1 jr(3) nb(3)
      by (auto simp: hit_keys_def)
  qed
qed

lemma join_collects:
  assumes on: "jn_on opts = equi lt fl rt fr" and size: "0 < jn_batchSize opts"
    and kind: "jn_kind opts = JkInner \<or> jn_kind opts = JkLeft \<and> jn_leftIsBuild opts"
    and probe: "opens_to op valid rows i c ps"
    and build: "\<And>t. \<exists>sc b' t'. collectAll bop c (nat (min (int (jn_batchSize opts)) (maxRowsPerNode (budget c)))) (b, t) =
      Some (Inr \<lparr>b_rows = bs, b_schema = sc\<rparr>, b', t')"
    and mem: "2 * int (length bs) \<le> maxRowsPerNode (budget c)"
    and modelled: "modelled_on h reg (equi lt fl rt fr) c (nested_loop (\<lambda>_. True) fl fr bs ps)"
    and batch: "length (nested_loop (passes h reg (equi lt fl rt fr) c) fl fr bs ps) < n"
    and budget: "int (length (nested_loop (passes h reg (equi lt fl rt fr) c) fl fr bs ps)) +
      (if jn_kind opts = JkLeft then int (length (left_only fl fr bs ps)) else 0) \<le> maxRowsPerNode (budget c)"
  shows "\<exists>sc sch us q t'. collectAll (joinOperator h reg opts bop op) c n (new_join b i ts, t) =
      Some (Inr \<lparr>b_rows = nested_loop (passes h reg (equi lt fl rt fr) c) fl fr bs ps @
        map (\<lambda>u. mergeRows (Some u) None sch) us, b_schema = sc\<rparr>, q, t') \<and>
    mset us = (if jn_kind opts = JkLeft then mset (left_only fl fr bs ps) else {#})"
proof -
  let ?P = "passes h reg (equi lt fl rt fr) c" and ?op = "joinOperator h reg opts bop op"
  let ?R = "nested_loop ?P fl fr bs ps"
  obtain sc b1 t1 where b1: "collectAll bop c (nat (min (int (jn_batchSize opts)) (maxRowsPerNode (budget c)))) (b, t) =
      Some (Inr \<lparr>b_rows = bs, b_schema = sc\<rparr>, b1, t1)" using build by blast
  obtain i2 t2 where i2: "op_open op c (i, t1) = Some (Inr (), i2, t2)" "valid i2" "op_state op i2 = SOpen" "rows i2 = ps"
    using probe unfolding opens_to_def by blast
  obtain m where m: "fillTable (equi lt fl rt fr) bs [] = Inr m" "keyed (field_key fl) m"
    "\<And>k. table_rows m k = filter (\<lambda>r. field_key fl r = k) bs" "mset (table_all m) = mset bs"
    using fillTable_equi [of fl "[]" lt rt fr bs] by (auto simp: keyed_def table_rows_def table_all_def)
  define s where "s = (ph_self (new_join b i ts))\<lparr>jo_ctx := Some c, jo_build := b1, jo_probe := i2, jo_buildSchema := sc,
    jo_probeSchema := [], jo_table := m, jo_generator := True\<rparr>"
  have s: "\<not> jo_spilled s" "jo_generator s" "jo_probe s = i2" "jo_table s = m" "jo_ctx s = Some c"
    "\<not> jo_processed s" "jo_matched s = []"
    by (simp_all add: s_def new_join_def new_phys_def)
  obtain t3 where open_: "op_open ?op c (new_join b i ts, t) = Some (Inr (), \<lparr>ph_state = SOpen, ph_ctx = Some c, ph_self = s\<rparr>, t3)"
    using b1 i2(1) m(1) mem on
    by (simp add: joinOperator_def base_operator_def base_open_def join_doOpen_def zoom_def buildHashTable_def
        new_join_def new_phys_def s_def)
  let ?test = "join_test h reg (equi lt fl rt fr) (ctx_scope c)"
  have test: "?test (mergeRows (Some b) (Some p) []) = Inr (?P (mergeRows (Some b) (Some p) []))"
    if "p \<in> set ps" "b \<in> set (table_rows m (field_key fr p))" for p b
  proof -
    have "mergeRows (Some b) (Some p) [] \<in> set (nested_loop (\<lambda>_. True) fl fr bs ps)"
      using that m(3) by (auto simp: nested_loop_def field_key_def)
    with modelled have "\<not> unmodelled (evaluate h reg (equi lt fl rt fr) (ctx_scope c) (Some (mergeRows (Some b) (Some p) [])))"
      by (simp add: modelled_on_def list_all_iff)
    from filter_test_passes [OF this] show ?thesis by (simp add: join_test_def filter_test_def)
  qed
  have J: "concat (map (\<lambda>p. row_joins ?P (table_rows m (field_key fr p)) p) ps) = ?R"
    unfolding m(3) by (rule row_joins_nested)
  have "\<exists>s' t'. join_loop opts ?test op n [] (s, t3) =
      Some (Inr ([] @ concat (map (\<lambda>p. row_joins ?P (table_rows (jo_table s) (field_key fr p)) p) (rows (jo_probe s)))), s', t') \<and>
    \<not> jo_generator s' \<and> jo_table s' = jo_table s \<and> jo_ctx s' = jo_ctx s \<and> jo_processed s' = jo_processed s \<and>
    set (jo_matched s') = set (jo_matched s) \<union> hit_keys (field_key fr) (jo_table s) (rows (jo_probe s))"
    by (rule join_loop_equi [OF on size]) (use s i2 test J batch in simp_all)
  then obtain s1 t4 where l: "join_loop opts ?test op n [] (s, t3) = Some (Inr ?R, s1, t4)"
    "\<not> jo_generator s1" "jo_table s1 = m" "jo_ctx s1 = Some c" "\<not> jo_processed s1"
    "set (jo_matched s1) = hit_keys (field_key fr) m ps"
    unfolding s i2(4) J append_Nil by (auto simp: s)
  define us where "us = (if jn_kind opts = JkLeft
    then concat (map snd (filter (\<lambda>(k, _). k \<notin> set (jo_matched s1)) m)) else [])"
  define s2 where "s2 = (if jn_kind opts = JkLeft then s1\<lparr>jo_processed := True\<rparr> else s1)"
  have us: "mset us = (if jn_kind opts = JkLeft then mset (left_only fl fr bs ps) else {#})"
    using left_only_hits [OF m(2,4,3)] by (simp add: us_def l(6))
  then have len: "int (length us) = (if jn_kind opts = JkLeft then int (length (left_only fl fr bs ps)) else 0)"
    by (metis (full_types) of_nat_0 size_empty size_mset)
  have next1: "join_doNext h reg opts op n (s, t3) = Some (Inr \<lparr>b_rows = ?R @ map (unmatched_row s1) us,
      b_schema = mergeSchemas (jo_buildSchema s2) (jo_probeSchema s2)\<rparr>, s2, t4)"
    using kind l by (auto simp: join_doNext_def s(5) on add_right_unmatched_def add_left_unmatched_def us_def s2_def)
  have next2: "join_doNext h reg opts op n (s2, t') = Some (Inr \<lparr>b_rows = [],
      b_schema = mergeSchemas (jo_buildSchema s2) (jo_probeSchema s2)\<rparr>, s2, t')" for t'
    using kind l by (subst join_doNext_def; subst join_loop.simps)
      (auto simp: s2_def on add_right_unmatched_def add_left_unmatched_def)
  define out where "out = ?R @ map (unmatched_row s1) us"
  have small: "\<not> maxRowsPerNode (budget c) < int (length out)"
    using budget len by (simp add: out_def split: if_splits)
  have "\<exists>sc q t'. collectAll ?op c n (new_join b i ts, t) = Some (Inr \<lparr>b_rows = out, b_schema = sc\<rparr>, q, t')"
    by (rule collectAll_one_batch [OF open_]) (use next1 [folded out_def] next2 small in
      \<open>auto simp: joinOperator_def base_operator_def base_next_def base_close_def join_doClose_def\<close>)
  with us show ?thesis unfolding out_def unmatched_row_def by blast
qed

end

section \<open>Correctness of the join\<close>

lemma collect_scan:
  assumes "so_schema opts \<noteq> []" "so_backend opts (scan_request opts) = stream_of bs" "nonempty_batches bs"
    and "int (length (scanned_rows opts bs)) \<le> maxRowsPerNode (budget c)" "0 < n"
  shows "\<exists>sc p t'. collectAll (scanOperator opts) c n (new_phys None, t)
    = Some (Inr \<lparr>b_rows = scanned_rows opts bs, b_schema = sc\<rparr>, p, t')"
  using scan.collectAll_delivers [OF scan_opens [OF assms(1-3)] assms(5), of c t] assms(4) by fastforce


definition join_opts :: "joinKind \<Rightarrow> exprAST \<Rightarrow> joinOptions" where
  "join_opts k e = \<lparr>jn_on = e, jn_kind = k, jn_batchSize = 10, jn_leftIsBuild = True, jn_now = 0\<rparr>"

definition sample_equi :: exprAST where
  "sample_equi = equi (Some ''left'') ''a'' (Some ''right'') ''b''"

definition text_scan :: "string \<Rightarrow> row list \<Rightarrow> scanOptions" where
  "text_scan a rs = \<lparr>so_table = a, so_alias = a, so_schema = [Column ''id'' TString False], so_predicate = None,
     so_columns = None, so_batchSize = 2, so_backend = \<lambda>_. stream_of [\<lparr>b_rows = rs, b_schema = []\<rparr>]\<rparr>"

definition left_scan :: scanOptions where
  "left_scan = text_scan ''l'' [[(''a'', JStr ''x'')], [(''a'', JStr ''y'')]]"

definition right_scan :: scanOptions where
  "right_scan = text_scan ''r'' [[(''b'', JStr ''x'')], [(''b'', JStr ''x'')]]"

lemma join_scan_facts:
  "so_schema left_scan \<noteq> []" "so_schema right_scan \<noteq> []"
  "so_backend left_scan q = stream_of [\<lparr>b_rows = [[(''a'', JStr ''x'')], [(''a'', JStr ''y'')]], b_schema = []\<rparr>]"
  "so_backend right_scan q = stream_of [\<lparr>b_rows = [[(''b'', JStr ''x'')], [(''b'', JStr ''x'')]], b_schema = []\<rparr>]"
  by (simp_all add: left_scan_def right_scan_def text_scan_def)

definition left_rows :: "row list" where
  "left_rows = [[(''l.a'', JStr ''x''), (''a'', JStr ''x'')], [(''l.a'', JStr ''y''), (''a'', JStr ''y'')]]"

definition right_rows :: "row list" where
  "right_rows = [[(''r.b'', JStr ''x''), (''b'', JStr ''x'')], [(''r.b'', JStr ''x''), (''b'', JStr ''x'')]]"

lemma sample_scanned:
  "scanned_rows left_scan [\<lparr>b_rows = [[(''a'', JStr ''x'')], [(''a'', JStr ''y'')]], b_schema = []\<rparr>] = left_rows"
  "scanned_rows right_scan [\<lparr>b_rows = [[(''b'', JStr ''x'')], [(''b'', JStr ''x'')]], b_schema = []\<rparr>] = right_rows"
  by code_simp+

definition sample_pair :: row where
  "sample_pair = mergeRows (Some (hd left_rows)) (Some (hd right_rows)) []"

lemma sample_nested: "nested_loop (\<lambda>_. True) ''a'' ''b'' left_rows right_rows = [sample_pair, sample_pair]"
  by code_simp

lemma sample_left_only: "left_only ''a'' ''b'' left_rows right_rows = [[(''l.a'', JStr ''y''), (''a'', JStr ''y'')]]"
  by code_simp

lemma sample_equi_eval: "evaluate no_host [] sample_equi (ctx_scope sample_ctx) (Some sample_pair) = Inr (JBool True)"
  by code_simp

lemma nested_loop_filter: "nested_loop P fl fr bs ps = filter P (nested_loop (\<lambda>_. True) fl fr bs ps)"
proof -
  have "concat (map (\<lambda>b. if Q b \<and> P (f b) then [f b] else []) bs) =
      filter P (concat (map (\<lambda>b. if Q b then [f b] else []) bs))" for f and Q :: "row \<Rightarrow> bool"
    by (induction bs) auto
  then show ?thesis by (simp add: nested_loop_def filter_concat comp_def)
qed

lemma sample_nested_passes:
  "nested_loop (passes no_host [] sample_equi sample_ctx) ''a'' ''b'' left_rows right_rows = [sample_pair, sample_pair]"
  by (subst nested_loop_filter) (simp add: sample_nested passes_def sample_equi_eval)

lemma sample_join_modelled:
  "modelled_on no_host [] sample_equi sample_ctx (nested_loop (\<lambda>_. True) ''a'' ''b'' left_rows right_rows)"
  by (simp add: sample_nested modelled_on_def sample_equi_eval)

lemma length_left_rows: "length left_rows = 2"
  by (simp add: left_rows_def)


text \<open>
  a left join of the same shape delivers the pairs of the nested-loop join and then, with
  the right columns null, exactly the left rows whose key no right row has, each as often as
  it occurs.
\<close>

theorem left_join_adds_unmatched:
  assumes "jn_on opts = equi lt fl rt fr" "jn_kind opts = JkLeft" "jn_leftIsBuild opts" "0 < jn_batchSize opts"
    and "so_schema lo \<noteq> []" "so_backend lo (scan_request lo) = stream_of lb" "nonempty_batches lb"
    and "so_schema ro \<noteq> []" "so_backend ro (scan_request ro) = stream_of rb" "nonempty_batches rb"
    and "2 * int (length (scanned_rows lo lb)) \<le> maxRowsPerNode (budget c)" "0 < maxRowsPerNode (budget c)"
    and "modelled_on h reg (equi lt fl rt fr) c (nested_loop (\<lambda>_. True) fl fr (scanned_rows lo lb) (scanned_rows ro rb))"
    and "length (nested_loop (passes h reg (equi lt fl rt fr) c) fl fr (scanned_rows lo lb) (scanned_rows ro rb)) < n"
    and "2 * int n \<le> maxRowsPerNode (budget c)"
  shows "\<exists>sc sch us q t'. collectAll (joinOperator h reg opts (scanOperator lo) (scanOperator ro)) c n
      (new_join (new_phys None) (new_phys None) ts, t) =
    Some (Inr \<lparr>b_rows = nested_loop (passes h reg (equi lt fl rt fr) c) fl fr (scanned_rows lo lb) (scanned_rows ro rb) @
      map (\<lambda>u. mergeRows (Some u) None sch) us, b_schema = sc\<rparr>, q, t') \<and>
    mset us = mset (left_only fl fr (scanned_rows lo lb) (scanned_rows ro rb))"
proof -
  have build: "\<exists>sc p t'. collectAll (scanOperator lo) c (nat (min (int (jn_batchSize opts)) (maxRowsPerNode (budget c))))
      (new_phys None, t) = Some (Inr \<lparr>b_rows = scanned_rows lo lb, b_schema = sc\<rparr>, p, t')" for t
    by (rule collect_scan) (use assms in auto)
  have "length (left_only fl fr (scanned_rows lo lb) (scanned_rows ro rb)) \<le> length (scanned_rows lo lb)"
    by (simp add: left_only_def)
  then show ?thesis
    using scan.join_collects [OF assms(1,4) _ scan_opens [OF assms(8-10)] build assms(11,13,14)] assms(2,3,11,14,15)
    by fastforce
qed

theorem left_join_adds_unmatched_witness:
  "\<exists>sc sch us q t'. collectAll (joinOperator no_host [] (join_opts JkLeft sample_equi) (scanOperator left_scan) (scanOperator right_scan))
      sample_ctx 3 (new_join (new_phys None) (new_phys None) [], []) =
    Some (Inr \<lparr>b_rows = [sample_pair, sample_pair] @ map (\<lambda>u. mergeRows (Some u) None sch) us, b_schema = sc\<rparr>, q, t') \<and>
    mset us = {# [(''l.a'', JStr ''y''), (''a'', JStr ''y'')] #}"
  using left_join_adds_unmatched [of "join_opts JkLeft sample_equi" "Some ''left''" "''a''" "Some ''right''" "''b''"
      left_scan _ right_scan _ sample_ctx no_host "[]" 3 "[]" "[]",
      OF _ _ _ _ join_scan_facts(1,3) _ join_scan_facts(2,4)]
    sample_join_modelled sample_nested_passes
  by (simp add: join_opts_def sample_equi_def [symmetric] nonempty_batches_def sample_scanned sample_scan_facts(4)
      length_left_rows sample_left_only)

definition and_true :: exprAST where
  "and_true = BinaryOp OAnd sample_equi (Literal (JBool True) TBoolean)"

definition right_opts :: joinOptions where
  "right_opts = (join_opts JkRight (equi (Some ''r'') ''b'' (Some ''l'') ''a''))\<lparr>jn_leftIsBuild := False\<rparr>"

definition joined_rows :: "joinOptions \<Rightarrow> scanOptions \<Rightarrow> scanOptions \<Rightarrow> row list res option" where
  "joined_rows opts b p = map_option (\<lambda>(r, _). mapRes b_rows r)
     (collectAll (joinOperator no_host [] opts (scanOperator b) (scanOperator p)) sample_ctx 10
       (new_join (new_phys None) (new_phys None) [], []))"


lemma scan_opts: 
  "so_schema right_scan = [Column ''id'' TString False]"
  "so_schema left_scan = [Column ''id'' TString False]"
  "so_alias right_scan = ''r''"
  "so_alias left_scan = ''l''"
  by (simp_all add: left_scan_def right_scan_def text_scan_def)

lemma alias_rows: "alias_row ''l'' [(''a'', JStr ''x'')] = [(''l.a'', JStr ''x''), (''a'', JStr ''x'')]"
  "alias_row ''l'' [(''a'', JStr ''y'')] = [(''l.a'', JStr ''y''), (''a'', JStr ''y'')]"
  "alias_row ''r'' [(''b'', JStr ''x'')] = [(''r.b'', JStr ''x''), (''b'', JStr ''x'')]"
  by code_simp+

lemmas scan_eval = scanOperator_def base_operator_def base_open_def scan_doOpen_def join_scan_facts scan_opts alias_rows
  stream_of_def collect_loop.simps Let_def base_next_def scan_doNext_def base_close_def scan_doClose_def collectAll_def
  sample_scan_facts(4) new_phys_def zoom_def

lemma right_test: "join_test no_host [] (equi (Some ''r'') ''b'' (Some ''l'') ''a'') (ctx_scope sample_ctx)
  (mergeRows (Some [(''r.b'', JStr ''x''), (''b'', JStr ''x'')]) (Some [(''l.a'', JStr ''x''), (''a'', JStr ''x'')]) []) = Inr True"
  by code_simp

lemmas join_eval = scan_eval joined_rows_def joinOperator_def join_doOpen_def new_join_def buildHashTable_def
  join_doNext_def join_loop.simps join_row_def add_right_unmatched_def add_left_unmatched_def join_doClose_def

text \<open>
  what the hash join gets wrong.  Under a condition that is a conjunction the build rows
  are filed under one fixed key, but looked up under the key of the first equality: the join
  of the same scans under the same equality, and a condition that is always true, is empty.
  A right join whose build side is the right input adds every right row as unmatched, the
  matched ones too.
\<close>

theorem join_edge_cases:
  "joined_rows (join_opts JkInner and_true) left_scan right_scan = Some (Inr []) \<and>
   evaluate no_host [] and_true (ctx_scope sample_ctx) (Some sample_pair) = Inr (JBool True) \<and>
   joined_rows right_opts right_scan left_scan = Some (Inr
     (map (\<lambda>r. mergeRows (Some r) (Some (hd left_rows)) []) right_rows @
      map (\<lambda>r. mergeRows (Some r) None []) right_rows))"
proof (intro conjI)
  show "joined_rows (join_opts JkInner and_true) left_scan right_scan = Some (Inr [])"
    by (simp add: join_eval join_opts_def and_true_def is_equi_def sample_equi_def equi_def cong: bind_weak_cong)
  show "evaluate no_host [] and_true (ctx_scope sample_ctx) (Some sample_pair) = Inr (JBool True)"
    by code_simp
  show "joined_rows right_opts right_scan left_scan = Some (Inr
     (map (\<lambda>r. mergeRows (Some r) (Some (hd left_rows)) []) right_rows @
      map (\<lambda>r. mergeRows (Some r) None []) right_rows))"
    by (simp add: join_eval right_opts_def join_opts_def field_key_def right_test left_rows_def right_rows_def
        unmatched_row_def add_key_def cong: bind_weak_cong)
qed

end
