(* ===== verification/QueryPlans.thy ===== *)
theory QueryPlans
  imports QueryAst Joins
begin

text \<open>
  From query syntax trees to operator trees: \<open>src/src/compiler/query-ast/query-planner.ts\<close> and
  \<open>src/src/compiler/query/operator-tree-builder.ts\<close>.

  A plan is a map from ids to nodes in the order of insertion.  Ids are the first eight characters
  of random UUIDs; \<open>fresh k\<close> is the \<open>k\<close>-th one, and the planner's state counts how many it
  has used.  The code updates parents in place and replaces scans and joins by copies; as ids are
  the keys of the map, both are updates of the map here.
\<close>

section \<open>The graph of a query\<close>

datatype dagNode =
    DagScan scanNode
  | DagFilter exprAST string
  | DagJoin joinNode string string
  | DagAgg "exprAST list" "aggSpec list" string
  | DagProject "projectionSpec list" string
  | DagSort "orderByNode list" string
  | DagLimit int int string

type_synonym dag = "(string \<times> dagNode) list"

type_synonym ids = "nat \<Rightarrow> string"

text \<open>The nodes, the current root and the number of ids used.\<close>

type_synonym planning = "dag \<times> string \<times> nat"

definition max_safe_integer :: int where
  "max_safe_integer = 9007199254740991"

definition add_node :: "ids \<Rightarrow> (string \<Rightarrow> dagNode) \<Rightarrow> planning \<Rightarrow> planning" where
  "add_node fresh node = (\<lambda>(m, root, k). (al_set (fresh k) (node root) m, fresh k, Suc k))"

definition joined_scan :: "joinNode \<Rightarrow> scanNode" where
  "joined_scan j = \<lparr>sn_table = jd_table j, sn_alias = (if jd_alias j = [] then jd_table j else jd_alias j),
     sn_schema = jd_schema j, sn_predicate = None\<rparr>"

definition add_join :: "ids \<Rightarrow> joinNode \<Rightarrow> planning \<Rightarrow> planning" where
  "add_join fresh j = (\<lambda>(m, root, k). let joinId = fresh k; scanId = fresh (Suc k) in
     (al_set joinId (DagJoin j root scanId) (al_set scanId (DagScan (joined_scan j)) m), joinId, Suc (Suc k)))"

text \<open>\<^verbatim>\<open>n || d\<close> on numbers: zero counts as absent.\<close>

definition int_or :: "int option \<Rightarrow> int \<Rightarrow> int" where
  "int_or n d = (case n of None \<Rightarrow> d | Some i \<Rightarrow> if i = 0 then d else i)"

definition all_projections :: "queryAST \<Rightarrow> projectionSpec list" where
  "all_projections q = qa_columns q @
     map (\<lambda>a. \<lparr>ps_expr = FieldRef None (ag_alias a), ps_alias = ag_alias a\<rparr>) (opt_list (qa_aggregations q))"

text \<open>The nodes above the joins, from the bottom up.\<close>

definition layers :: "queryAST \<Rightarrow> (string \<Rightarrow> dagNode) list" where
  "layers q =
     (case qa_where q of None \<Rightarrow> [] | Some p \<Rightarrow> [DagFilter p]) @
     (if qa_groupBy q \<noteq> None \<or> qa_aggregations q \<noteq> None
      then [DagAgg (opt_list (qa_groupBy q)) (opt_list (qa_aggregations q))] else []) @
     (case qa_having q of None \<Rightarrow> [] | Some p \<Rightarrow> [DagFilter p]) @
     (if opt_list (qa_orderBy q) \<noteq> [] then [DagSort (opt_list (qa_orderBy q))] else []) @
     [DagProject (all_projections q)] @
     (if qa_limit q \<noteq> None \<or> qa_offset q \<noteq> None
      then [DagLimit (int_or (qa_limit q) max_safe_integer) (int_or (qa_offset q) 0)] else [])"

definition buildDAG :: "ids \<Rightarrow> queryAST \<Rightarrow> planning" where
  "buildDAG fresh q = fold (add_node fresh) (layers q) (fold (add_join fresh) (qa_joins q)
     ([(fresh 0, DagScan (qa_from q))], fresh 0, 1))"

section \<open>Predicate pushdown\<close>

fun redirect :: "string \<Rightarrow> string \<Rightarrow> dagNode \<Rightarrow> dagNode" where
  "redirect old new (DagScan s) = DagScan s"
| "redirect old new (DagFilter p i) = DagFilter p (if i = old then new else i)"
| "redirect old new (DagJoin j l r) = DagJoin j (if l = old then new else l) (if r = old then new else r)"
| "redirect old new (DagAgg ks as i) = DagAgg ks as (if i = old then new else i)"
| "redirect old new (DagProject cs i) = DagProject cs (if i = old then new else i)"
| "redirect old new (DagSort ks i) = DagSort ks (if i = old then new else i)"
| "redirect old new (DagLimit n off i) = DagLimit n off (if i = old then new else i)"

definition updateParentReferences :: "string \<Rightarrow> string \<Rightarrow> dag \<Rightarrow> dag" where
  "updateParentReferences old new m = map (\<lambda>(k, n). (k, redirect old new n)) m"

fun collect_tables :: "exprAST \<Rightarrow> string list" where
  "collect_tables (FieldRef (Some t) f) = (if t = [] then [] else [t])"
| "collect_tables (BinaryOp op a b) = collect_tables a @ collect_tables b"
| "collect_tables _ = []"

definition predicateReferencesOtherTables :: "exprAST \<Rightarrow> string \<Rightarrow> bool" where
  "predicateReferencesOtherTables p table = list_ex (\<lambda>t. t \<noteq> table) (collect_tables p)"

text \<open>The code collects a set; only membership is asked.\<close>

fun extractReferencedTables :: "exprAST \<Rightarrow> string list" where
  "extractReferencedTables (FieldRef t f) = (case t of None \<Rightarrow> [] | Some t \<Rightarrow> if t = [] then [] else [t])"
| "extractReferencedTables (BinaryOp op a b) = extractReferencedTables a @ extractReferencedTables b"
| "extractReferencedTables (UnaryOp op a) = extractReferencedTables a"
| "extractReferencedTables (FunctionCall f as) = concat (map extractReferencedTables as)"
| "extractReferencedTables (Conditional a b c) =
     extractReferencedTables a @ extractReferencedTables b @ extractReferencedTables c"
| "extractReferencedTables (Cast a ty) = extractReferencedTables a"
| "extractReferencedTables (IsNull a) = extractReferencedTables a"
| "extractReferencedTables (In a vs) = extractReferencedTables a @ concat (map extractReferencedTables vs)"
| "extractReferencedTables (Between a l h) =
     extractReferencedTables a @ extractReferencedTables l @ extractReferencedTables h"
| "extractReferencedTables _ = []"

text \<open>A filter over a scan moves into the scan, in place of any predicate the scan already has.\<close>

definition push_to_scan :: "string \<Rightarrow> dag \<times> bool \<Rightarrow> dag \<times> bool" where
  "push_to_scan nid = (\<lambda>(m, applied). case map_of m nid of
     Some (DagFilter p i) \<Rightarrow> (case map_of m i of
         Some (DagScan s) \<Rightarrow> if predicateReferencesOtherTables p (sn_table s) then (m, applied)
           else (updateParentReferences nid i (al_del nid (al_set i (DagScan (s\<lparr>sn_predicate := Some p\<rparr>)) m)), True)
       | _ \<Rightarrow> (m, applied))
   | _ \<Rightarrow> (m, applied))"

definition scan_table :: "dag \<Rightarrow> string \<Rightarrow> string option" where
  "scan_table m nid = (case map_of m nid of Some (DagScan s) \<Rightarrow> Some (sn_table s) | _ \<Rightarrow> None)"

text \<open>
  A filter over a join of two scans moves to the side it mentions.  On the left the parents are sent
  to the moved filter, on the right to the join.
\<close>

definition push_below_join :: "ids \<Rightarrow> string \<Rightarrow> dag \<times> nat \<times> bool \<Rightarrow> dag \<times> nat \<times> bool" where
  "push_below_join fresh nid = (\<lambda>(m, k, applied). case map_of m nid of
     Some (DagFilter p i) \<Rightarrow> (case map_of m i of
         Some (DagJoin j l r) \<Rightarrow> (case (scan_table m l, scan_table m r) of
             (Some lt, Some rt) \<Rightarrow> let ts = extractReferencedTables p; below = fresh k in
               if lt \<in> set ts \<and> rt \<notin> set ts
               then (updateParentReferences nid below (al_del nid
                 (al_set i (DagJoin j below r) (al_set below (DagFilter p l) m))), Suc k, True)
               else if rt \<in> set ts \<and> lt \<notin> set ts
               then (updateParentReferences nid i (al_del nid
                 (al_set i (DagJoin j l below) (al_set below (DagFilter p r) m))), Suc k, True)
               else (m, k, applied)
           | _ \<Rightarrow> (m, k, applied))
       | _ \<Rightarrow> (m, k, applied))
   | _ \<Rightarrow> (m, k, applied))"

definition predicatePushdown :: "ids \<Rightarrow> dag \<Rightarrow> nat \<Rightarrow> dag \<times> nat \<times> bool" where
  "predicatePushdown fresh m k = (let (m1, applied) = fold push_to_scan (map fst m) (m, False)
     in fold (push_below_join fresh) (map fst m1) (m1, k, applied))"

record queryPlan =
  qn_nodes :: dag
  qn_root :: string
  qn_optimizations :: "string list"

text \<open>The other optimisation, projection pushdown, is disabled in the code and never applies.\<close>

definition plan :: "ids \<Rightarrow> queryAST \<Rightarrow> queryPlan" where
  "plan fresh q = (let (m, root, k) = buildDAG fresh q; (m', k', applied) = predicatePushdown fresh m k
     in if applied then \<lparr>qn_nodes = m', qn_root = root, qn_optimizations = [''predicate_pushdown'']\<rparr>
        else \<lparr>qn_nodes = m, qn_root = root, qn_optimizations = []\<rparr>)"

section \<open>Operator trees\<close>

text \<open>The operators a builder creates, each with the options it passes.\<close>

datatype physTree =
    PhScan scanOptions
  | PhFilter exprAST physTree
  | PhJoin exprAST joinKind nat physTree physTree
  | PhAgg "exprAST list" "aggSpec list" nat physTree
  | PhProject "projectionSpec list" physTree
  | PhSort "sortKey list" nat physTree
  | PhLimit int int physTree

record treeBuilder =
  tb_backend :: backend
  tb_batchSize :: nat

definition scan_options :: "treeBuilder \<Rightarrow> scanNode \<Rightarrow> scanOptions" where
  "scan_options b s = \<lparr>so_table = sn_table s, so_alias = sn_alias s, so_schema = sn_schema s,
     so_predicate = sn_predicate s, so_columns = None, so_batchSize = tb_batchSize b, so_backend = tb_backend b\<rparr>"

definition join_kind :: "intentJoinKind \<Rightarrow> joinKind" where
  "join_kind k = (case k of IjInner \<Rightarrow> JkInner | IjLeft \<Rightarrow> JkLeft | IjRight \<Rightarrow> JkRight | IjFull \<Rightarrow> JkFull)"

definition sort_key :: "orderByNode \<Rightarrow> sortKey" where
  "sort_key k = \<lparr>sk_expr = ob_expr k, sk_asc = (ob_direction k = Asc), sk_nullsFirst = (ob_nulls k = NullsFirst)\<rparr>"

definition memoryLimitRows :: nat where
  "memoryLimitRows = 10000"

lemma unvisited_less:
  assumes "nid \<notin> set visited" "map_of m nid = Some n"
  shows "card (set (map fst m) - insert nid (set visited)) < card (set (map fst m) - set visited)"
proof (rule psubset_card_mono)
  have "nid \<in> set (map fst m)" using assms(2) by (metis map_of_eq_None_iff list.set_map option.distinct(1))
  then show "set (map fst m) - insert nid (set visited) \<subset> set (map fst m) - set visited"
    using assms(1) by blast
qed simp

function buildNode :: "treeBuilder \<Rightarrow> dag \<Rightarrow> string list \<Rightarrow> string \<Rightarrow> physTree res" where
  "buildNode b m visited nid =
     (if nid \<in> set visited then Inl (PlainError (''Cycle detected in QueryDAG at node '' @ nid))
      else case map_of m nid of
        None \<Rightarrow> Inl (PlainError (''Node '' @ nid @ '' not found in query plan''))
      | Some (DagScan s) \<Rightarrow> Inr (PhScan (scan_options b s))
      | Some (DagFilter p i) \<Rightarrow> mapRes (PhFilter p) (buildNode b m (nid # visited) i)
      | Some (DagJoin j l r) \<Rightarrow> bindR (buildNode b m (nid # visited) l) (\<lambda>tl.
          mapRes (PhJoin (jd_on j) (join_kind (jd_kind j)) (tb_batchSize b) tl) (buildNode b m (nid # visited) r))
      | Some (DagAgg ks as i) \<Rightarrow> mapRes (PhAgg ks as (tb_batchSize b)) (buildNode b m (nid # visited) i)
      | Some (DagProject cs i) \<Rightarrow> mapRes (PhProject cs) (buildNode b m (nid # visited) i)
      | Some (DagSort ks i) \<Rightarrow> mapRes (PhSort (map sort_key ks) memoryLimitRows) (buildNode b m (nid # visited) i)
      | Some (DagLimit n off i) \<Rightarrow> mapRes (PhLimit n off) (buildNode b m (nid # visited) i))"
  by pat_completeness auto

termination
  by (relation "measure (\<lambda>(b, m, visited, nid). card (set (map fst m) - set visited))")
    (auto simp del: set_map intro!: unvisited_less)

declare buildNode.simps [simp del]

definition buildTree :: "treeBuilder \<Rightarrow> queryPlan \<Rightarrow> physTree res" where
  "buildTree b p = buildNode b (qn_nodes p) [] (qn_root p)"

end
