(* ===== verification/PlanTrees.thy ===== *)
theory PlanTrees
  imports QueryPlans
begin

text \<open>
  What a plan builds.  The reference definition \<open>plan_tree\<close> gives the operator tree of a query
  without ids, graphs or updates; the planner and the tree builder together compute it.
\<close>

section \<open>The reference tree\<close>

text \<open>Where pushdown leaves a filter over a tree.  The left case loses the join.\<close>

fun place :: "exprAST \<Rightarrow> physTree \<Rightarrow> physTree" where
  "place p (PhScan s) = (if predicateReferencesOtherTables p (so_table s) then PhFilter p (PhScan s)
     else PhScan (s\<lparr>so_predicate := Some p\<rparr>))"
| "place p (PhJoin on k n (PhScan l) (PhScan r)) = (let ts = extractReferencedTables p in
     if so_table l \<in> set ts \<and> so_table r \<notin> set ts then PhFilter p (PhScan l)
     else if so_table r \<in> set ts \<and> so_table l \<notin> set ts then PhJoin on k n (PhScan l) (PhFilter p (PhScan r))
     else PhFilter p (PhJoin on k n (PhScan l) (PhScan r)))"
| "place p t = PhFilter p t"

definition join_tree :: "treeBuilder \<Rightarrow> queryAST \<Rightarrow> physTree" where
  "join_tree b q = fold (\<lambda>j t. PhJoin (jd_on j) (join_kind (jd_kind j)) (tb_batchSize b) t
     (PhScan (scan_options b (joined_scan j)))) (qa_joins q) (PhScan (scan_options b (qa_from q)))"

definition place_opt :: "exprAST option \<Rightarrow> physTree \<Rightarrow> physTree" where
  "place_opt p t = (case p of None \<Rightarrow> t | Some p \<Rightarrow> place p t)"

definition group_tree :: "treeBuilder \<Rightarrow> queryAST \<Rightarrow> physTree \<Rightarrow> physTree" where
  "group_tree b q t = (if qa_groupBy q \<noteq> None \<or> qa_aggregations q \<noteq> None
     then PhAgg (opt_list (qa_groupBy q)) (opt_list (qa_aggregations q)) (tb_batchSize b) t else t)"

definition sort_tree :: "queryAST \<Rightarrow> physTree \<Rightarrow> physTree" where
  "sort_tree q t = (if opt_list (qa_orderBy q) \<noteq> []
     then PhSort (map sort_key (opt_list (qa_orderBy q))) memoryLimitRows t else t)"

definition limit_tree :: "queryAST \<Rightarrow> physTree \<Rightarrow> physTree" where
  "limit_tree q t = (if qa_limit q \<noteq> None \<or> qa_offset q \<noteq> None
     then PhLimit (int_or (qa_limit q) max_safe_integer) (int_or (qa_offset q) 0) t else t)"

definition plan_tree :: "treeBuilder \<Rightarrow> queryAST \<Rightarrow> physTree" where
  "plan_tree b q = limit_tree q (PhProject (all_projections q) (sort_tree q (place_opt (qa_having q)
     (group_tree b q (place_opt (qa_where q) (join_tree b q))))))"

section \<open>Reading a tree off a graph\<close>

fun input_of :: "dagNode \<Rightarrow> string option" where
  "input_of (DagFilter p i) = Some i"
| "input_of (DagAgg ks as i) = Some i"
| "input_of (DagProject cs i) = Some i"
| "input_of (DagSort ks i) = Some i"
| "input_of (DagLimit n off i) = Some i"
| "input_of _ = None"

fun wrap :: "treeBuilder \<Rightarrow> dagNode \<Rightarrow> physTree \<Rightarrow> physTree" where
  "wrap b (DagFilter p i) t = PhFilter p t"
| "wrap b (DagAgg ks as i) t = PhAgg ks as (tb_batchSize b) t"
| "wrap b (DagProject cs i) t = PhProject cs t"
| "wrap b (DagSort ks i) t = PhSort (map sort_key ks) memoryLimitRows t"
| "wrap b (DagLimit n off i) t = PhLimit n off t"
| "wrap b _ t = t"

definition settle :: "treeBuilder \<Rightarrow> dagNode \<Rightarrow> physTree \<Rightarrow> physTree" where
  "settle b n t = (case n of DagFilter p i \<Rightarrow> place p t | _ \<Rightarrow> wrap b n t)"

fun filter_node :: "dagNode \<Rightarrow> bool" where
  "filter_node (DagFilter p i) = True"
| "filter_node _ = False"

lemma redirect_facts [simp]:
  "input_of (redirect x y n) = map_option (\<lambda>i. if i = x then y else i) (input_of n)"
  "wrap b (redirect x y n) = wrap b n" "settle b (redirect x y n) = settle b n" "filter_node (redirect x y n) = filter_node n"
  by (cases n; auto simp: settle_def fun_eq_iff)+

lemma filter_input: "filter_node n \<Longrightarrow> input_of n \<noteq> None"
  by (cases n) simp_all

lemma wrap_unary: "input_of n \<noteq> None \<Longrightarrow> place p (wrap b n t) = PhFilter p (wrap b n t)"
  by (cases n) simp_all

text \<open>\<open>renders b M A x t\<close>: the ids reachable from \<open>x\<close> are \<open>A\<close>, and they spell the tree \<open>t\<close>.\<close>

inductive renders :: "treeBuilder \<Rightarrow> (string \<rightharpoonup> dagNode) \<Rightarrow> string set \<Rightarrow> string \<Rightarrow> physTree \<Rightarrow> bool"
  for b M where
  scan: "M x = Some (DagScan s) \<Longrightarrow> renders b M {x} x (PhScan (scan_options b s))"
| unary: "M x = Some n \<Longrightarrow> input_of n = Some i \<Longrightarrow> renders b M A i t \<Longrightarrow> x \<notin> A \<Longrightarrow>
    renders b M (insert x A) x (wrap b n t)"
| join: "M x = Some (DagJoin j l r) \<Longrightarrow> renders b M A l tL \<Longrightarrow> renders b M B r tR \<Longrightarrow> x \<notin> A \<union> B \<Longrightarrow>
    renders b M (insert x (A \<union> B)) x (PhJoin (jd_on j) (join_kind (jd_kind j)) (tb_batchSize b) tL tR)"

lemma renders_cong: "renders b M A x t \<Longrightarrow> (\<And>y. y \<in> A \<Longrightarrow> M' y = M y) \<Longrightarrow> renders b M' A x t"
  by (induction rule: renders.induct) (auto intro: renders.intros)

lemma renders_dom: "renders b M A x t \<Longrightarrow> x \<in> A \<and> A \<subseteq> dom M"
  by (induction rule: renders.induct) auto

lemma buildNode_renders:
  "renders b (map_of m) A x t \<Longrightarrow> set visited \<inter> A = {} \<Longrightarrow> buildNode b m visited x = Inr t"
proof (induction arbitrary: visited rule: renders.induct)
  case (unary x n i A t)
  then have "buildNode b m (x # visited) i = Inr t" by auto
  with unary show ?case by (subst buildNode.simps) (auto split: dagNode.splits)
next
  case (join x j l r A tL B tR)
  from join.prems have "set (x # visited) \<inter> A = {}" "set (x # visited) \<inter> B = {}" using join.hyps(4) by auto
  then have "buildNode b m (x # visited) l = Inr tL" "buildNode b m (x # visited) r = Inr tR"
    using join.IH by blast+
  with join show ?case by (subst buildNode.simps) auto
qed (subst buildNode.simps, auto)

text \<open>A chain of nodes with one input each, from \<open>rid\<close> down to \<open>f\<close>.\<close>

fun spine :: "(string \<rightharpoonup> dagNode) \<Rightarrow> string \<Rightarrow> (string \<times> dagNode) list \<Rightarrow> string \<Rightarrow> bool" where
  "spine M rid [] f = (rid = f)"
| "spine M rid ((x, n) # us) f = (rid = x \<and> M x = Some n \<and> (\<exists>i. input_of n = Some i \<and> spine M i us f))"

definition wraps :: "treeBuilder \<Rightarrow> (string \<times> dagNode) list \<Rightarrow> physTree \<Rightarrow> physTree" where
  "wraps b us t = foldr (\<lambda>(x, n). wrap b n) us t"

definition settles :: "treeBuilder \<Rightarrow> (string \<times> dagNode) list \<Rightarrow> physTree \<Rightarrow> physTree" where
  "settles b us t = foldr (\<lambda>(x, n). settle b n) us t"

lemma wraps_simps [simp]:
  "wraps b [] t = t" "wraps b ((x, n) # us) t = wrap b n (wraps b us t)" "wraps b (us @ vs) t = wraps b us (wraps b vs t)"
  "settles b [] t = t" "settles b ((x, n) # us) t = settle b n (settles b us t)"
  "settles b (us @ vs) t = settles b us (settles b vs t)"
  by (simp_all add: wraps_def settles_def)

definition redirects :: "string \<Rightarrow> string \<Rightarrow> (string \<times> dagNode) list \<Rightarrow> (string \<times> dagNode) list" where
  "redirects x y us = map (\<lambda>(z, n). (z, redirect x y n)) us"

lemma redirects_facts [simp]:
  "redirects x y [] = []" "redirects x y ((z, n) # us) = (z, redirect x y n) # redirects x y us"
  "wraps b (redirects x y us) = wraps b us" "settles b (redirects x y us) = settles b us"
  "map fst (redirects x y us) = map fst us" "length (redirects x y us) = length us"
  "fst ` set (redirects x y us) = fst ` set us"
  by (auto simp: redirects_def wraps_def settles_def fun_eq_iff foldr_map comp_def case_prod_unfold image_image)

lemma spine_append: "spine M rid (us @ vs) f \<longleftrightarrow> (\<exists>g. spine M rid us g \<and> spine M g vs f)"
  by (induction us arbitrary: rid) (auto 0 4)

lemma spine_cong: "spine M rid us f \<Longrightarrow> (\<And>x. x \<in> fst ` set us \<Longrightarrow> M' x = M x) \<Longrightarrow> spine M' rid us f"
  by (induction us arbitrary: rid) auto

lemma spine_dom: "spine M rid us f \<Longrightarrow> fst ` set us \<subseteq> dom M"
proof (induction us arbitrary: rid)
  case (Cons u us)
  then obtain i where "M (fst u) = Some (snd u)" "spine M i us f" by (cases u) auto
  with Cons.IH show ?case by auto
qed simp

lemma spine_redirects:
  "spine M rid us x \<Longrightarrow> us \<noteq> [] \<Longrightarrow> x \<notin> fst ` set us \<Longrightarrow>
   (\<And>z n. (z, n) \<in> set us \<Longrightarrow> M' z = Some (redirect x y n)) \<Longrightarrow> spine M' rid (redirects x y us) y"
proof (induction us arbitrary: rid)
  case (Cons u us)
  obtain z n where u: "u = (z, n)" by (cases u)
  from Cons.prems u obtain i where i: "rid = z" "input_of n = Some i" "spine M i us x" by auto
  show ?case
  proof (cases us)
    case Nil
    with Cons.prems i u show ?thesis by auto
  next
    case (Cons v vs)
    with i(3) Cons.prems(3) have "i \<noteq> x" by (cases v) auto
    moreover have "spine M' i (redirects x y us) y"
      by (rule Cons.IH) (use i Cons Cons.prems in auto)
    ultimately show ?thesis using i u Cons.prems by auto
  qed
qed simp

definition planned :: "treeBuilder \<Rightarrow> dag \<Rightarrow> string \<Rightarrow> (string \<times> dagNode) list \<Rightarrow> string \<Rightarrow> string set \<Rightarrow> physTree \<Rightarrow> bool" where
  "planned b m rid us f A t \<longleftrightarrow> spine (map_of m) rid us f \<and> renders b (map_of m) A f t \<and>
     distinct (map fst us) \<and> fst ` set us \<inter> A = {}"

lemma planned_builds: "planned b m rid us f A t \<Longrightarrow> buildNode b m [] rid = Inr (wraps b us t)"
proof -
  have "renders b M (fst ` set us \<union> A) rid (wraps b us t)"
    if "spine M rid us f" "renders b M A f t" "distinct (map fst us)" "fst ` set us \<inter> A = {}" for M
    using that
  proof (induction us arbitrary: rid)
    case (Cons u us)
    obtain x n where u: "u = (x, n)" by (cases u)
    with Cons.prems obtain i where i: "rid = x" "M x = Some n" "input_of n = Some i" "spine M i us f" by auto
    from Cons.IH [OF i(4)] Cons.prems u have "renders b M (fst ` set us \<union> A) i (wraps b us t)" by auto
    from renders.unary [OF i(2,3) this] Cons.prems u i(1) show ?case by auto
  qed simp
  then have "renders b (map_of m) (fst ` set us \<union> A) rid (wraps b us t)" if "planned b m rid us f A t"
    using that unfolding planned_def by blast
  then show "planned b m rid us f A t \<Longrightarrow> buildNode b m [] rid = Inr (wraps b us t)"
    by (simp add: buildNode_renders)
qed

section \<open>The loops of pushdown\<close>

text \<open>
  Both loops visit the filters from the bottom up.  The contract: a filter directly over the base of
  the chain either stays, and \<open>place\<close> says so, or is absorbed into a new base; a filter over a node
  with one input stays; other nodes are left alone.
\<close>

definition filter_at :: "dag \<Rightarrow> string \<Rightarrow> bool" where
  "filter_at m x = (case map_of m x of Some n \<Rightarrow> filter_node n | None \<Rightarrow> False)"

definition filter_ids :: "(string \<times> dagNode) list \<Rightarrow> string list" where
  "filter_ids us = map fst (filter (\<lambda>(x, n). filter_node n) us)"

lemma filter_ids_simps [simp]:
  "filter_ids [] = []" "filter_ids ((x, n) # us) = (if filter_node n then x # filter_ids us else filter_ids us)"
  "filter_ids (us @ vs) = filter_ids us @ filter_ids vs" "filter_ids (rev (redirects x y us)) = filter_ids (rev us)"
  by (auto simp: filter_ids_def redirects_def rev_map filter_map comp_def case_prod_unfold)

locale pushdown =
  fixes b :: treeBuilder and step :: "string \<Rightarrow> 's \<Rightarrow> 's" and nodes :: "'s \<Rightarrow> dag"
    and ready :: "'s \<Rightarrow> bool" and base :: "physTree \<Rightarrow> bool"
  assumes push: "planned b (nodes s) rid (us @ [(x, DagFilter p f)]) f A t \<Longrightarrow> us \<noteq> [] \<Longrightarrow> base t \<Longrightarrow> ready s \<Longrightarrow>
      nodes (step x s) = nodes s \<and> place p t = PhFilter p t \<or>
      base (place p t) \<and> (\<exists>f' A'. planned b (nodes (step x s)) rid (redirects x f' us) f' A' (place p t))"
    and stays: "map_of (nodes s) x = Some (DagFilter p i) \<Longrightarrow> map_of (nodes s) i = Some n \<Longrightarrow> input_of n \<noteq> None \<Longrightarrow>
      step x s = s"
    and other: "\<not> filter_at (nodes s) x \<Longrightarrow> step x s = s"
    and ready_step: "ready s \<Longrightarrow> ready (step x s)"
    and keeps: "ready s \<Longrightarrow> y \<noteq> x \<Longrightarrow> y \<in> fst ` set (nodes s) \<Longrightarrow>
      y \<in> fst ` set (nodes (step x s)) \<and> filter_at (nodes (step x s)) y = filter_at (nodes s) y"
begin

lemma loop_chain:
  assumes "planned b (nodes s) rid (up @ low) f A t" "up \<noteq> []" "\<not> filter_node (snd (hd up))" "low = [] \<Longrightarrow> base t" "ready s"
  shows "\<exists>us' f' A' t'. planned b (nodes (fold step (filter_ids (rev up)) s)) rid us' f' A' t' \<and>
    wraps b us' t' = settles b up (wraps b low t)"
  using assms
proof (induction "length up" arbitrary: up low s f A t)
  case (Suc l)
  then obtain ups x n where up: "up = ups @ [(x, n)]" by (metis append_butlast_last_id surj_pair)
  show ?case
  proof (cases "filter_node n")
    case False
    show ?thesis
    proof (cases "ups = []")
      case True
      from False have "settle b n = wrap b n" by (cases n) (simp_all add: settle_def fun_eq_iff)
      with Suc.prems(1) False up True have "planned b (nodes (fold step (filter_ids (rev up)) s)) rid (up @ low) f A t \<and>
        wraps b (up @ low) t = settles b up (wraps b low t)" by simp
      then show ?thesis by blast
    next
      case ne: False
      from False have "settle b n = wrap b n" by (cases n) (simp_all add: settle_def fun_eq_iff)
      with Suc.hyps(1) [of ups s "(x, n) # low" f A t] Suc.hyps(2) Suc.prems up ne False show ?thesis by simp
    qed
  next
    case True
    then obtain p i where n: "n = DagFilter p i" by (cases n) auto
    with Suc.prems(3) up have ne: "ups \<noteq> []" by (cases ups) auto
    with Suc.prems(3) up have top: "\<not> filter_node (snd (hd ups))" by simp
    have sp: "spine (map_of (nodes s)) rid (ups @ (x, n) # low) f" using Suc.prems(1) up by (simp add: planned_def)
    show ?thesis
    proof (cases low)
      case (Cons u vs)
      obtain y k where u: "u = (y, k)" by (cases u)
      from sp n Cons u have "map_of (nodes s) x = Some (DagFilter p i)" "map_of (nodes s) i = Some k" "input_of k \<noteq> None"
        by (auto simp: spine_append)
      from stays [OF this] have "step x s = s" .
      moreover have "settle b n (wraps b low t) = wraps b ((x, n) # low) t"
        using wrap_unary [OF \<open>input_of k \<noteq> None\<close>] Cons u n by (simp add: settle_def)
      ultimately show ?thesis
        using Suc.hyps(1) [of ups s "(x, n) # low" f A t] Suc.hyps(2) Suc.prems up ne top True Cons by simp
    next
      case Nil
      from sp n Nil have "i = f" by (auto simp: spine_append)
      with Suc.prems(1) up n Nil have pl: "planned b (nodes s) rid (ups @ [(x, DagFilter p f)]) f A t" by simp
      from push [OF this ne] Suc.prems(4,5) Nil have "nodes (step x s) = nodes s \<and> place p t = PhFilter p t \<or>
        base (place p t) \<and> (\<exists>f' A'. planned b (nodes (step x s)) rid (redirects x f' ups) f' A' (place p t))" by auto
      then show ?thesis
      proof (elim disjE exE conjE)
        assume "nodes (step x s) = nodes s" "place p t = PhFilter p t"
        with Suc.hyps(1) [of ups "step x s" "[(x, n)]" f A t] Suc.hyps(2) Suc.prems up ne top n Nil pl \<open>i = f\<close>
          ready_step show ?thesis by (simp add: settle_def)
      next
        fix f' A'
        assume "base (place p t)"
        assume "planned b (nodes (step x s)) rid (redirects x f' ups) f' A' (place p t)"
        moreover have "redirects x f' ups \<noteq> []" "\<not> filter_node (snd (hd (redirects x f' ups)))"
          using ne top by (auto simp: redirects_def hd_map case_prod_unfold)
        ultimately show ?thesis
          using Suc.hyps(1) [of "redirects x f' ups" "step x s" "[]" f' A' "place p t"] Suc.hyps(2) Suc.prems(5) up
            \<open>base (place p t)\<close> ready_step n Nil by (simp add: settle_def)
      qed
    qed
  qed
qed simp

lemma loop_filters:
  "distinct xs \<Longrightarrow> set xs \<subseteq> fst ` set (nodes s) \<Longrightarrow> ready s \<Longrightarrow> fold step xs s = fold step (filter (filter_at (nodes s)) xs) s"
proof (induction xs arbitrary: s)
  case (Cons x xs)
  show ?case
  proof (cases "filter_at (nodes s) x")
    case True
    have same: "y \<in> fst ` set (nodes (step x s)) \<and> filter_at (nodes (step x s)) y = filter_at (nodes s) y" if "y \<in> set xs" for y
      using keeps [OF Cons.prems(3), of y x] that Cons.prems(1,2) by auto
    then have "filter (filter_at (nodes (step x s))) xs = filter (filter_at (nodes s)) xs" by (auto intro: filter_cong)
    with Cons.IH [of "step x s"] Cons.prems same True ready_step [OF Cons.prems(3)] show ?thesis by auto
  qed (use Cons other in simp)
qed simp

end

inductive_cases renders_scanE: "renders b M A x (PhScan s)"
inductive_cases renders_joinE: "renders b M A x (PhJoin on k n l r)"

lemma renders_scan:
  assumes "renders b M A x (PhScan so)"
  obtains s where "A = {x}" "M x = Some (DagScan s)" "so = scan_options b s"
  using assms
proof (cases rule: renders.cases)
  case (unary n i A t)
  then show ?thesis by (cases n) auto
qed (use that in auto)

lemma renders_join:
  assumes "renders b M A x (PhJoin on k n tL tR)"
  obtains j l r B C where "A = insert x (B \<union> C)" "M x = Some (DagJoin j l r)" "renders b M B l tL" "renders b M C r tR"
    "x \<notin> B \<union> C" "on = jd_on j" "k = join_kind (jd_kind j)" "n = tb_batchSize b"
  using assms
proof (cases rule: renders.cases)
  case (unary n i A t)
  then show ?thesis by (cases n) auto
qed (use that in auto)

lemma renders_no_input: "renders b M A x t \<Longrightarrow> M x = Some n \<Longrightarrow> input_of n = None \<Longrightarrow>
    (\<exists>s. t = PhScan s) \<or> (\<exists>on k c l r. t = PhJoin on k c l r)"
  by (cases rule: renders.cases) auto

lemma map_of_update [simp]:
  "map_of (updateParentReferences x y m) z = map_option (redirect x y) (map_of m z)"
  by (induction m) (auto simp: updateParentReferences_def)

lemma keys_update [simp]: "fst ` set (updateParentReferences x y m) = fst ` set m"
  by (force simp: updateParentReferences_def image_iff)

lemma keys_del [simp]: "fst ` set (al_del x m) = fst ` set m - {x}"
  by (auto simp: set_al_del)

lemma filter_at_update [simp]: "filter_at (updateParentReferences x y m) z = filter_at m z"
  by (simp add: filter_at_def split: option.split)

lemma planned_parts:
  assumes "planned b m rid (us @ [(x, DagFilter p f)]) f A t"
  shows "spine (map_of m) rid us x" "map_of m x = Some (DagFilter p f)" "renders b (map_of m) A f t" "x \<notin> A" "f \<in> A"
    "distinct (map fst us)" "x \<notin> fst ` set us" "fst ` set us \<inter> A = {}"
    "\<And>z n. (z, n) \<in> set us \<Longrightarrow> map_of m z = Some n \<and> z \<noteq> x \<and> z \<notin> A"
proof -
  have sp: "(z, n) \<in> set us \<Longrightarrow> spine M rid us g \<Longrightarrow> M z = Some n" for M z n g rid
    by (induction us arbitrary: rid) auto
  show "spine (map_of m) rid us x" "map_of m x = Some (DagFilter p f)" "renders b (map_of m) A f t" "x \<notin> A" "f \<in> A"
    "distinct (map fst us)" "x \<notin> fst ` set us" "fst ` set us \<inter> A = {}"
    using assms renders_dom by (auto simp: planned_def spine_append)
  then show "\<And>z n. (z, n) \<in> set us \<Longrightarrow> map_of m z = Some n \<and> z \<noteq> x \<and> z \<notin> A"
    using sp by force
qed

lemma push_scan:
  assumes pl: "planned b m rid (us @ [(x, DagFilter p f)]) f A (PhScan so)" and "us \<noteq> []"
  shows "push_to_scan x (m, a) = (m, a) \<and> place p (PhScan so) = PhFilter p (PhScan so) \<or>
    (\<exists>so'. place p (PhScan so) = PhScan so') \<and>
    (\<exists>f' A'. planned b (fst (push_to_scan x (m, a))) rid (redirects x f' us) f' A' (place p (PhScan so)))"
proof -
  note parts = planned_parts [OF pl]
  obtain s where s: "A = {f}" "map_of m f = Some (DagScan s)" "so = scan_options b s"
    using renders_scan [OF parts(3)] by blast
  then have t: "so_table so = sn_table s" by (simp add: scan_options_def)
  show ?thesis
  proof (cases "predicateReferencesOtherTables p (sn_table s)")
    case False
    let ?m = "updateParentReferences x f (al_del x (al_set f (DagScan (s\<lparr>sn_predicate := Some p\<rparr>)) m))"
    have step: "push_to_scan x (m, a) = (?m, True)" using parts(2) s(2) False by (simp add: push_to_scan_def)
    have "f \<noteq> x" using parts(4) s(1) by auto
    then have "renders b (map_of ?m) {f} f (PhScan (scan_options b (s\<lparr>sn_predicate := Some p\<rparr>)))"
      by (intro renders.scan) simp
    moreover have "scan_options b (s\<lparr>sn_predicate := Some p\<rparr>) = so\<lparr>so_predicate := Some p\<rparr>"
      using s(3) by (simp add: scan_options_def)
    moreover have "spine (map_of ?m) rid (redirects x f us) f"
      by (rule spine_redirects [OF parts(1) assms(2) parts(7)]) (use parts(9) s(1) in auto)
    ultimately have "planned b ?m rid (redirects x f us) f {f} (place p (PhScan so))"
      using parts(6,8) s(1) False t by (simp add: planned_def)
    with step False t show ?thesis by auto
  qed (use parts(2) s t in \<open>simp add: push_to_scan_def\<close>)
qed

interpretation scans: pushdown b push_to_scan fst "\<lambda>_. True" "\<lambda>t. \<exists>s. t = PhScan s" for b
proof (unfold_locales, goal_cases)
  case (1 s rid us x p f A t)
  then obtain so where "t = PhScan so" by blast
  with push_scan [of b "fst s" rid us x p f A so "snd s"] 1(1,2) show ?case unfolding prod.collapse by metis
next
  case (2 s x p i n)
  then show ?case by (cases s; cases n) (auto simp: push_to_scan_def)
next
  case (3 s x)
  then show ?case
    by (cases s) (auto simp: push_to_scan_def filter_at_def split: option.splits dagNode.splits)
next
  case (5 s y x)
  then show ?case
    by (cases s) (auto simp: push_to_scan_def filter_at_def split: option.splits dagNode.splits if_splits)
qed simp

definition spare :: "ids \<Rightarrow> dag \<times> nat \<times> bool \<Rightarrow> bool" where
  "spare fresh = (\<lambda>(m, k, applied). inj fresh \<and> (\<forall>j \<ge> k. map_of m (fresh j) = None))"

lemma scan_table_renders:
  "renders b (map_of m) A x t \<Longrightarrow> scan_table m x = (case t of PhScan s \<Rightarrow> Some (so_table s) | _ \<Rightarrow> None)"
proof (cases rule: renders.cases, assumption)
  fix n i A t' assume "t = wrap b n t'" "map_of m x = Some n" "input_of n = Some i"
  then show ?thesis by (cases n) (auto simp: scan_table_def)
qed (auto simp: scan_table_def scan_options_def)

lemma push_scans_join:
  assumes pl: "planned b m rid (us @ [(x, DagFilter p f)]) f A (PhJoin on kd n (PhScan oL) (PhScan oR))"
    and "us \<noteq> []" and "spare fresh (m, k, a)"
  defines "t \<equiv> PhJoin on kd n (PhScan oL) (PhScan oR)"
  shows "push_below_join fresh x (m, k, a) = (m, k, a) \<and> place p t = PhFilter p t \<or>
    (\<exists>f' A'. planned b (fst (push_below_join fresh x (m, k, a))) rid (redirects x f' us) f' A' (place p t))"
proof -
  note parts = planned_parts [OF pl]
  obtain j l r B C where j: "A = insert f (B \<union> C)" "map_of m f = Some (DagJoin j l r)" "renders b (map_of m) B l (PhScan oL)"
    "renders b (map_of m) C r (PhScan oR)" "f \<notin> B \<union> C" "on = jd_on j" "kd = join_kind (jd_kind j)" "n = tb_batchSize b"
    using renders_join [OF parts(3)] by metis
  obtain sl where l: "B = {l}" "map_of m l = Some (DagScan sl)" "oL = scan_options b sl" using renders_scan [OF j(3)] by blast
  obtain sr where r: "C = {r}" "map_of m r = Some (DagScan sr)" "oR = scan_options b sr" using renders_scan [OF j(4)] by blast
  note opts = scan_options_def
  let ?below = "fresh k"
  have "?below \<notin> dom (map_of m)" using assms(3) by (simp add: spare_def domIff)
  then have below: "?below \<noteq> x" "?below \<notin> A" "?below \<noteq> l" "?below \<noteq> r" "?below \<noteq> f"
    "\<And>z y. (z, y) \<in> set us \<Longrightarrow> z \<noteq> ?below" "?below \<notin> fst ` set us"
    using parts(2,9) l r j by (auto simp: domIff)
  have apart: "f \<noteq> x" "l \<noteq> x" "r \<noteq> x" "l \<noteq> f" "r \<noteq> f" using parts(4) j(1,5) l(1) r(1) by auto
  consider (left) "sn_table sl \<in> set (extractReferencedTables p)" "sn_table sr \<notin> set (extractReferencedTables p)"
    | (right) "sn_table sr \<in> set (extractReferencedTables p)" "sn_table sl \<notin> set (extractReferencedTables p)"
    | (none) "sn_table sl \<in> set (extractReferencedTables p) \<longleftrightarrow> sn_table sr \<in> set (extractReferencedTables p)" by blast
  then show ?thesis
  proof cases
    case left
    let ?m = "updateParentReferences x ?below (al_del x (al_set f (DagJoin j ?below r) (al_set ?below (DagFilter p l) m)))"
    have step: "push_below_join fresh x (m, k, a) = (?m, Suc k, True)"
      using left parts(2) j(2) l(2) r(2) by (simp add: push_below_join_def scan_table_def Let_def)
    have "renders b (map_of ?m) {?below, l} ?below (wrap b (DagFilter p l) (PhScan oL))"
      unfolding l(3)
      by (rule renders.unary [of _ _ _ l]) (use below apart l(2) in \<open>auto intro!: renders.scan\<close>)
    moreover have "spine (map_of ?m) rid (redirects x ?below us) ?below"
      by (rule spine_redirects [OF parts(1) assms(2) parts(7)]) (use parts(9) below j(1) in auto)
    ultimately have "planned b ?m rid (redirects x ?below us) ?below {?below, l} (place p t)"
      using parts(6,8) below(7) j(1) left l(1,3) r(3) by (simp add: planned_def t_def opts)
    with step show ?thesis by auto
  next
    case right
    let ?m = "updateParentReferences x f (al_del x (al_set f (DagJoin j l ?below) (al_set ?below (DagFilter p r) m)))"
    have step: "push_below_join fresh x (m, k, a) = (?m, Suc k, True)"
      using right parts(2) j(2) l(2) r(2) by (simp add: push_below_join_def scan_table_def Let_def)
    have "renders b (map_of ?m) {l} l (PhScan oL)" "renders b (map_of ?m) {?below, r} ?below (wrap b (DagFilter p r) (PhScan oR))"
      unfolding l(3) r(3)
      by (rule renders.scan renders.unary [of _ _ _ r]; use below apart l(2) r(2) in \<open>auto intro!: renders.scan\<close>)+
    from renders.join [of "map_of ?m" f j l ?below, OF _ this]
    have "renders b (map_of ?m) (insert f ({l} \<union> {?below, r})) f (PhJoin on kd n (PhScan oL) (PhFilter p (PhScan oR)))"
      using below apart j(6-8) by auto
    moreover have "spine (map_of ?m) rid (redirects x f us) f"
      by (rule spine_redirects [OF parts(1) assms(2) parts(7)]) (use parts(9) below j(1) in auto)
    moreover have "place p t = PhJoin on kd n (PhScan oL) (PhFilter p (PhScan oR))"
      using right l(3) r(3) by (simp add: t_def opts)
    ultimately have "planned b ?m rid (redirects x f us) f (insert f ({l} \<union> {?below, r})) (place p t)"
      using parts(6,8) below(7) j(1) l(1) r(1) by (simp add: planned_def)
    with step show ?thesis by auto
  next
    case none
    then show ?thesis using parts(2) j(2) l r by (auto simp: push_below_join_def scan_table_def t_def opts)
  qed
qed

lemma push_other:
  assumes "map_of m x = Some (DagFilter p f)" "renders b (map_of m) A f t" "\<nexists>s. t = PhScan s"
    and "\<nexists>on k n l r. t = PhJoin on k n (PhScan l) (PhScan r)"
  shows "push_below_join fresh x (m, k, a) = (m, k, a)" and "place p t = PhFilter p t"
proof -
  from assms(2) have "push_below_join fresh x (m, k, a) = (m, k, a) \<and> place p t = PhFilter p t"
  proof (cases rule: renders.cases)
    case (unary n i B t')
    with assms(1) show ?thesis by (cases n) (auto simp: push_below_join_def)
  next
    case (join j l r B tL C tR)
    then show ?thesis
      using assms(1,4) scan_table_renders [OF join(4)] scan_table_renders [OF join(5)]
      by (cases tL; cases tR) (auto simp: push_below_join_def)
  qed (use assms(3) in blast)
  then show "push_below_join fresh x (m, k, a) = (m, k, a)" "place p t = PhFilter p t" by auto
qed

lemma place_not_scan: "\<nexists>s. t = PhScan s \<Longrightarrow> \<nexists>s. place p t = PhScan s"
  by (cases "(p, t)" rule: place.cases) (auto simp: Let_def)

lemma spare_step: "spare fresh s \<Longrightarrow> spare fresh (push_below_join fresh x s)"
  by (cases s) (auto simp: spare_def push_below_join_def Let_def inj_eq
      split: option.splits dagNode.splits)

interpretation joins: pushdown b "push_below_join fresh" fst "spare fresh" "\<lambda>t. \<nexists>s. t = PhScan s" for b fresh
proof (unfold_locales, goal_cases)
  case (1 s rid us x p f A t)
  note parts = planned_parts [OF 1(1)]
  obtain m k a where s: "s = (m, k, a)" by (cases s)
  show ?case
  proof (cases "\<exists>on kd n l r. t = PhJoin on kd n (PhScan l) (PhScan r)")
    case True
    then obtain on kd n l r where t: "t = PhJoin on kd n (PhScan l) (PhScan r)" by blast
    from push_scans_join [OF 1(1,2) [unfolded s fst_conv t] 1(4) [unfolded s]]
    show ?thesis unfolding s fst_conv t using place_not_scan [of "PhJoin on kd n (PhScan l) (PhScan r)" p] by auto
  next
    case False
    with push_other [OF parts(2,3) 1(3)] s show ?thesis by simp
  qed
next
  case (2 s x p i n)
  then show ?case by (cases s; cases n) (auto simp: push_below_join_def)
next
  case (3 s x)
  then show ?case by (cases s) (auto simp: push_below_join_def filter_at_def split: option.splits dagNode.splits)
next
  case (5 s y x)
  obtain m k a where s: "s = (m, k, a)" by (cases s)
  from 5(1) have "map_of m (fresh k) = None" by (simp add: spare_def s)
  with 5(3) s have "y \<noteq> fresh k" by (metis map_of_eq_None_iff fst_conv)
  then show ?case using 5(2,3)
    by (auto simp: push_below_join_def filter_at_def Let_def s split: option.splits dagNode.splits if_splits)
qed (rule spare_step)

section \<open>The graph of a query spells its tree\<close>

text \<open>
  Every step of \<open>buildDAG\<close> uses new ids, so the graph grows at its end; the nodes above the joins form
  a chain.
\<close>

definition issued :: "ids \<Rightarrow> planning \<Rightarrow> bool" where
  "issued fresh = (\<lambda>(m, r, k). fst ` set m \<subseteq> fresh ` {..<k} \<and> distinct (map fst m))"

lemma issued_new: "inj fresh \<Longrightarrow> issued fresh (m, r, k) \<Longrightarrow> k \<le> j \<Longrightarrow> fresh j \<notin> fst ` set m"
  unfolding issued_def by (auto dest!: subsetD simp: inj_eq)

fun chain :: "ids \<Rightarrow> (string \<Rightarrow> dagNode) list \<Rightarrow> string \<Rightarrow> nat \<Rightarrow> (string \<times> dagNode) list" where
  "chain fresh [] r k = []"
| "chain fresh (l # ls) r k = (fresh k, l r) # chain fresh ls (fresh k) (Suc k)"

definition chain_root :: "ids \<Rightarrow> (string \<Rightarrow> dagNode) list \<Rightarrow> string \<Rightarrow> nat \<Rightarrow> string" where
  "chain_root fresh ls r k = (if ls = [] then r else fresh (k + length ls - 1))"

lemma set_chain: "fst ` set (chain fresh ls r k) = fresh ` {k..<k + length ls}"
proof (induction ls arbitrary: r k)
  case (Cons l ls)
  have "{k..<k + Suc (length ls)} = insert k {Suc k..<Suc k + length ls}" by auto
  with Cons show ?case by simp
qed simp

lemma chain_snoc: "chain fresh (ls @ [l]) r k = chain fresh ls r k @ [(fresh (k + length ls), l (chain_root fresh ls r k))]"
  by (induction ls arbitrary: r k) (simp_all add: chain_root_def)

lemma fold_nodes:
  assumes "inj fresh" "issued fresh (m, r, k)"
  shows "fold (add_node fresh) ls (m, r, k) = (m @ chain fresh ls r k, chain_root fresh ls r k, k + length ls) \<and>
    issued fresh (m @ chain fresh ls r k, chain_root fresh ls r k, k + length ls)"
proof (induction ls rule: rev_induct)
  case (snoc l ls)
  then have new: "fresh (k + length ls) \<notin> fst ` set (m @ chain fresh ls r k)"
    using issued_new [OF assms(1), of "m @ chain fresh ls r k"] by blast
  then have "(fresh (k + length ls), x) \<notin> set m" "(fresh (k + length ls), x) \<notin> set (chain fresh ls r k)" for x by force+
  with snoc show ?case
    by (auto simp: add_node_def al_set_new [OF new] chain_snoc chain_root_def issued_def lessThan_Suc)
qed (use assms(2) in \<open>simp add: chain_root_def\<close>)

lemma spine_chain:
  assumes "\<And>l x. l \<in> set ls \<Longrightarrow> input_of (l x) = Some x" "\<And>x n. (x, n) \<in> set (chain fresh ls r k) \<Longrightarrow> M x = Some n"
  shows "spine M (chain_root fresh ls r k) (rev (chain fresh ls r k)) r"
  using assms
proof (induction ls rule: rev_induct)
  case (snoc l ls)
  then have "spine M (chain_root fresh ls r k) (rev (chain fresh ls r k)) r" by (simp add: chain_snoc)
  with snoc.prems show ?case by (simp add: chain_snoc chain_root_def [of fresh "ls @ [l]"])
qed (simp add: chain_root_def)

definition base_graph :: "treeBuilder \<Rightarrow> ids \<Rightarrow> planning \<Rightarrow> physTree \<Rightarrow> bool" where
  "base_graph b fresh = (\<lambda>(m, r, k) t. issued fresh (m, r, k) \<and> (\<exists>A. renders b (map_of m) A r t) \<and>
     (\<forall>n \<in> snd ` set m. input_of n = None))"

lemma base_join:
  assumes "inj fresh" "base_graph b fresh st t"
  shows "base_graph b fresh (add_join fresh j st)
    (PhJoin (jd_on j) (join_kind (jd_kind j)) (tb_batchSize b) t (PhScan (scan_options b (joined_scan j))))"
proof -
  obtain m r k where st: "st = (m, r, k)" by (cases st)
  with assms(2) obtain A where A: "issued fresh (m, r, k)" "renders b (map_of m) A r t" "\<forall>n \<in> snd ` set m. input_of n = None"
    by (auto simp: base_graph_def)
  have new: "fresh k \<notin> fst ` set m" "fresh (Suc k) \<notin> fst ` set m" "fresh k \<noteq> fresh (Suc k)"
    using issued_new [OF assms(1) A(1)] assms(1) by (auto simp: inj_eq)
  have sub: "A \<subseteq> fst ` set m" using renders_dom [OF A(2)] by (simp add: dom_map_of_conv_image_fst)
  let ?m = "m @ [(fresh (Suc k), DagScan (joined_scan j)), (fresh k, DagJoin j r (fresh (Suc k)))]"
  have add: "add_join fresh j st = (?m, fresh k, Suc (Suc k))"
    using new by (simp add: st add_join_def al_set_new Let_def)
  have at: "map_of ?m (fresh (Suc k)) = Some (DagScan (joined_scan j))" "map_of ?m (fresh k) = Some (DagJoin j r (fresh (Suc k)))"
    using new(3) new(1,2) [folded map_of_eq_None_iff] by (simp_all add: map_add_def)
  have "renders b (map_of ?m) A r t"
    by (rule renders_cong [OF A(2)]) (use renders_dom [OF A(2)] in \<open>auto simp: map_add_def subset_iff domIff split: option.split\<close>)
  from renders.join [OF at(2) this renders.scan [of "map_of ?m", OF at(1)]] sub new
  have "\<exists>B. renders b (map_of ?m) B (fresh k)
    (PhJoin (jd_on j) (join_kind (jd_kind j)) (tb_batchSize b) t (PhScan (scan_options b (joined_scan j))))" by blast
  moreover have "issued fresh (?m, fresh k, Suc (Suc k))"
    using A(1) new by (auto simp: issued_def lessThan_Suc)
  ultimately show ?thesis using A(3) unfolding add base_graph_def by auto
qed

lemma base_joins:
  "inj fresh \<Longrightarrow> base_graph b fresh (fold (add_join fresh) (qa_joins q) ([(fresh 0, DagScan (qa_from q))], fresh 0, 1)) (join_tree b q)"
proof -
  assume inj: "inj fresh"
  have "base_graph b fresh st t \<Longrightarrow> base_graph b fresh (fold (add_join fresh) js st) (fold (\<lambda>j t. PhJoin (jd_on j)
      (join_kind (jd_kind j)) (tb_batchSize b) t (PhScan (scan_options b (joined_scan j)))) js t)" for js st t
    by (induction js arbitrary: st t) (simp_all add: base_join [OF inj])
  moreover have "base_graph b fresh ([(fresh 0, DagScan (qa_from q))], fresh 0, 1) (PhScan (scan_options b (qa_from q)))"
    using renders.scan [of "[fresh 0 \<mapsto> DagScan (qa_from q)]" "fresh 0"] by (auto simp: base_graph_def issued_def)
  ultimately show ?thesis by (simp add: join_tree_def)
qed

lemma layers_inputs: "l \<in> set (layers q) \<Longrightarrow> input_of (l x) = Some x"
  by (auto simp: layers_def split: if_splits option.splits)

lemma settles_layers:
  "settles b (rev (chain fresh (layers q) r k)) t = limit_tree q (PhProject (all_projections q) (sort_tree q
     (place_opt (qa_having q) (group_tree b q (place_opt (qa_where q) t)))))"
  by (simp add: layers_def limit_tree_def sort_tree_def place_opt_def group_tree_def settle_def split: option.split)

lemma last_layer: "layers q \<noteq> []" "\<not> filter_node (last (layers q) x)"
  by (simp_all add: layers_def)

lemma top_layer: "chain fresh (layers q) r k \<noteq> []" "\<not> filter_node (snd (hd (rev (chain fresh (layers q) r k))))"
proof -
  have "chain fresh (layers q) r k = chain fresh (butlast (layers q)) r k @
      [(fresh (k + length (butlast (layers q))), last (layers q) (chain_root fresh (butlast (layers q)) r k))]"
    by (metis chain_snoc append_butlast_last_id last_layer(1))
  then show "chain fresh (layers q) r k \<noteq> []" "\<not> filter_node (snd (hd (rev (chain fresh (layers q) r k))))"
    using last_layer(2) by simp_all
qed

definition no_joins :: "dag \<Rightarrow> bool" where
  "no_joins m \<longleftrightarrow> (\<forall>x j l r. (x, DagJoin j l r) \<notin> set m)"

lemma chain_nodes: "(x, n) \<in> set (chain fresh ls r k) \<Longrightarrow> \<exists>l y. l \<in> set ls \<and> n = l y"
  by (induction ls arbitrary: r k) (simp, fastforce)

lemma planned_graph:
  assumes "inj fresh"
  obtains m k j r A us where "buildDAG fresh q = (m, chain_root fresh (layers q) r j, k)" "us = rev (chain fresh (layers q) r j)"
    "planned b m (chain_root fresh (layers q) r j) us r A (join_tree b q)" "distinct (map fst m)"
    "filter (filter_at m) (map fst m) = filter_ids (rev us)" "\<And>i. i \<ge> k \<Longrightarrow> map_of m (fresh i) = None"
    "qa_joins q = [] \<Longrightarrow> no_joins m"
proof -
  obtain m0 r j where st: "fold (add_join fresh) (qa_joins q) ([(fresh 0, DagScan (qa_from q))], fresh 0, 1) = (m0, r, j)"
    by (metis surj_pair)
  from base_joins [OF assms, of b q] st obtain A where A: "issued fresh (m0, r, j)"
    "renders b (map_of m0) A r (join_tree b q)" "\<forall>n \<in> snd ` set m0. input_of n = None" by (auto simp: base_graph_def)
  let ?c = "chain fresh (layers q) r j" and ?top = "chain_root fresh (layers q) r j"
  have dag: "buildDAG fresh q = (m0 @ ?c, ?top, j + length (layers q))" "issued fresh (m0 @ ?c, ?top, j + length (layers q))"
    using fold_nodes [OF assms A(1), of "layers q"] unfolding buildDAG_def st by blast+
  then have dist: "distinct (map fst (m0 @ ?c))" by (simp add: issued_def)
  have at: "(x, n) \<in> set (m0 @ ?c) \<Longrightarrow> map_of (m0 @ ?c) x = Some n" for x n using dist by (rule map_of_is_SomeI)
  have sub: "A \<subseteq> fst ` set m0" using renders_dom [OF A(2)] by (simp add: dom_map_of_conv_image_fst)
  have old: "map_of (m0 @ ?c) x = map_of m0 x" if "x \<in> A" for x
    using that sub dist by (force simp: map_add_def map_of_eq_None_iff split: option.split dest: map_of_SomeD)
  have "planned b (m0 @ ?c) ?top (rev ?c) r A (join_tree b q)"
    unfolding planned_def
  proof (intro conjI)
    show "spine (map_of (m0 @ ?c)) ?top (rev ?c) r" by (rule spine_chain) (use layers_inputs at in auto)
    show "renders b (map_of (m0 @ ?c)) A r (join_tree b q)" by (rule renders_cong [OF A(2) old])
  qed (use dist sub in \<open>auto simp: rev_map [symmetric]\<close>)
  moreover have "filter (filter_at (m0 @ ?c)) (map fst (m0 @ ?c)) = filter_ids ?c"
  proof -
    have "filter_at (m0 @ ?c) (fst e) = (case e of (x, n) \<Rightarrow> filter_node n)" if "e \<in> set (m0 @ ?c)" for e
      using at [of "fst e" "snd e"] that by (simp add: filter_at_def case_prod_unfold)
    then have "filter (\<lambda>e. filter_at (m0 @ ?c) (fst e)) (m0 @ ?c) = filter (\<lambda>(x, n). filter_node n) (m0 @ ?c)"
      by (intro filter_cong refl)
    then have "filter (filter_at (m0 @ ?c)) (map fst (m0 @ ?c)) = filter_ids (m0 @ ?c)"
      unfolding filter_map filter_ids_def comp_def by simp
    moreover have "filter_ids m0 = []" using A(3) filter_input by (fastforce simp: filter_ids_def filter_empty_conv)
    ultimately show ?thesis by simp
  qed
  moreover have "map_of (m0 @ ?c) (fresh i) = None" if "i \<ge> j + length (layers q)" for i
    using issued_new [OF assms dag(2) that] by (simp only: map_of_eq_None_iff not_False_eq_True)
  moreover have "no_joins (m0 @ ?c)" if "qa_joins q = []"
  proof -
    have "input_of n \<noteq> None" if "(x, n) \<in> set ?c" for x n
      using that layers_inputs [of _ q] chain_nodes [of x n fresh "layers q" r j] by fastforce
    moreover have "m0 = [(fresh 0, DagScan (qa_from q))]" using st that by auto
    ultimately show ?thesis by (force simp: no_joins_def)
  qed
  ultimately show ?thesis using that [OF dag(1) refl _ dist] by simp
qed

section \<open>Planning and building compute the reference tree\<close>

lemma fold_unchanged:
  assumes "\<And>x s. \<not> P (f x s) \<Longrightarrow> f x s = s"
  shows "\<not> P (fold f xs s) \<Longrightarrow> fold f xs s = s"
  by (induction xs rule: rev_induct) (use assms in force)+

lemma not_applied:
  "\<not> snd (push_to_scan x s) \<Longrightarrow> push_to_scan x s = s"
  "\<not> snd (snd (push_below_join fresh x s')) \<Longrightarrow> push_below_join fresh x s' = s'"
  by (cases s; cases s'; auto simp: push_to_scan_def push_below_join_def Let_def
      split: option.splits dagNode.splits if_splits)+

lemma no_joins_update:
  assumes "no_joins m"
  shows "no_joins (updateParentReferences y i (al_del y (al_set i (DagScan sc) m)))"
  unfolding no_joins_def
proof (intro allI notI)
  fix x j l r assume "(x, DagJoin j l r) \<in> set (updateParentReferences y i (al_del y (al_set i (DagScan sc) m)))"
  then obtain n where n: "(x, n) \<in> set (al_set i (DagScan sc) m)" "redirect y i n = DagJoin j l r"
    by (auto simp: updateParentReferences_def set_al_del)
  then have "(x, n) \<in> set m" using set_al_set_subset [of i "DagScan sc" m] by (cases n) auto
  with n(2) assms show False by (cases n) (auto simp: no_joins_def)
qed

lemma no_joins_push: "no_joins (fst s) \<Longrightarrow> no_joins (fst (push_to_scan x s))"
  by (cases s) (auto simp: push_to_scan_def intro: no_joins_update split: option.split dagNode.split)

lemma no_joins_below: "no_joins m \<Longrightarrow> fold (push_below_join fresh) xs (m, k, a) = (m, k, a)"
proof (induction xs)
  case (Cons x xs)
  then have "map_of m i \<noteq> Some (DagJoin j l r)" for i j l r by (auto simp: no_joins_def dest: map_of_SomeD)
  then have "push_below_join fresh x (m, k, a) = (m, k, a)"
    by (auto simp: push_below_join_def split: option.split dagNode.split)
  with Cons show ?case by simp
qed simp

lemma no_scans_below:
  assumes "planned b m rid us f A t" "\<nexists>s. t = PhScan s" "filter (filter_at m) xs = filter_ids (rev us)"
  shows "fold push_to_scan xs (m, a) = (m, a)"
proof -
  have "push_to_scan x (m, a) = (m, a)" if "x \<in> set xs" for x
  proof (cases "filter_at m x")
    case True
    with that have "x \<in> set (filter (filter_at m) xs)" by simp
    with assms(3) have "x \<in> set (filter_ids (rev us))" by simp
    then obtain n where "(x, n) \<in> set us" by (auto simp: filter_ids_def)
    then obtain vs ws where us: "us = vs @ (x, n) # ws" by (meson split_list)
    with assms(1) obtain i where i: "map_of m x = Some n" "input_of n = Some i" "spine (map_of m) i ws f"
      by (auto simp: planned_def spine_append)
    have "\<nexists>s. map_of m i = Some (DagScan s)"
    proof (cases ws)
      case Nil
      with i assms(1,2) scan_table_renders [of b m A f t] show ?thesis
        by (auto simp: planned_def scan_table_def split: physTree.splits)
    qed (use i in auto)
    with i(1,2) show ?thesis by (cases n) (auto simp: push_to_scan_def split: option.split dagNode.split)
  qed (use scans.other [of "(m, a)"] in simp)
  then show ?thesis by (induction xs) simp_all
qed

lemma join_tree_scan: "(\<exists>s. join_tree b q = PhScan s) \<longleftrightarrow> qa_joins q = []"
  by (cases "qa_joins q" rule: rev_cases) (simp_all add: join_tree_def)

lemma planned_tree:
  assumes "inj fresh"
  shows "buildTree b (plan fresh q) = Inr (plan_tree b q)"
proof -
  obtain m k j r A us where g: "buildDAG fresh q = (m, chain_root fresh (layers q) r j, k)" "us = rev (chain fresh (layers q) r j)"
    "planned b m (chain_root fresh (layers q) r j) us r A (join_tree b q)" "distinct (map fst m)"
    "filter (filter_at m) (map fst m) = filter_ids (rev us)" "\<And>i. i \<ge> k \<Longrightarrow> map_of m (fresh i) = None"
    "qa_joins q = [] \<Longrightarrow> no_joins m" using planned_graph [OF assms] by metis
  let ?top = "chain_root fresh (layers q) r j"
  obtain m1 a1 where l1: "fold push_to_scan (map fst m) (m, False) = (m1, a1)" by (cases "fold push_to_scan (map fst m) (m, False)")
  obtain m2 k2 a2 where l2: "fold (push_below_join fresh) (map fst m1) (m1, k, a1) = (m2, k2, a2)"
    by (cases "fold (push_below_join fresh) (map fst m1) (m1, k, a1)")
  have up: "us \<noteq> []" "\<not> filter_node (snd (hd us))" using top_layer g(2) by simp_all
  have "\<exists>us' f' A' t'. planned b m2 ?top us' f' A' t' \<and> wraps b us' t' = settles b us (join_tree b q)"
  proof (cases "qa_joins q = []")
    case True
    then have "\<exists>s. join_tree b q = PhScan s" by (simp add: join_tree_scan)
    moreover have "fold push_to_scan (filter_ids (rev us)) (m, False) = (m1, a1)"
      using scans.loop_filters [of "map fst m" "(m, False)"] g(4,5) l1 by simp
    ultimately have "\<exists>us' f' A' t'. planned b m1 ?top us' f' A' t' \<and> wraps b us' t' = settles b us (join_tree b q)"
      using scans.loop_chain [of b "(m, False)" ?top us "[]" r A "join_tree b q"] g(3) up by simp
    moreover have "no_joins (fst (fold push_to_scan xs s))" if "no_joins (fst s)" for xs s
      using that by (induction xs arbitrary: s) (simp_all add: no_joins_push)
    from this [of "(m, False)" "map fst m"] g(7) True l1 l2 have "m2 = m1" by (simp add: no_joins_below)
    ultimately show ?thesis by simp
  next
    case False
    then have base: "\<nexists>s. join_tree b q = PhScan s" by (simp add: join_tree_scan)
    have same: "m1 = m" "a1 = False" using no_scans_below [OF g(3) base g(5), of False] l1 by simp_all
    have "spare fresh (m, k, False)" using assms g(6) by (simp add: spare_def)
    moreover from this have "fold (push_below_join fresh) (filter_ids (rev us)) (m, k, False) = (m2, k2, a2)"
      using joins.loop_filters [of "map fst m" "(m, k, False)" fresh] g(4,5) l2 same by simp
    ultimately show ?thesis
      using joins.loop_chain [of b "(m, k, False)" ?top us "[]" r A "join_tree b q" fresh] g(3) up base by simp
  qed
  then have "buildNode b m2 [] ?top = Inr (settles b us (join_tree b q))" using planned_builds by metis
  moreover have "m2 = m" if "\<not> a2"
  proof -
    have "(m2, k2, a2) = (m1, k, a1)"
      using fold_unchanged [of "\<lambda>s. snd (snd s)" "push_below_join fresh" "map fst m1" "(m1, k, a1)"] not_applied(2) that l2 by simp
    with that show ?thesis
      using fold_unchanged [of snd push_to_scan "map fst m" "(m, False)"] not_applied(1) l1 by simp
  qed
  ultimately show ?thesis
    using g(1,2) l1 l2 by (cases a2) (simp_all add: buildTree_def plan_def predicatePushdown_def settles_layers plan_tree_def)
qed

end
