(* ===== verification/QueryExec.thy ===== *)
theory QueryExec
  imports QuerySql PlanTrees
begin

text \<open>
  Running queries: the class \<open>QueryExecutor\<close> of \<open>src/src/executors/query-executor.ts\<close>.

  The backend, its connection pool, the registry of data sources and the Calcite service are fields
  of \<open>queryServices\<close>.  An execution yields its result, the intent as the code leaves it (references to
  upstream nodes are resolved in place), the trace, and the statements sent, in order.
\<close>

section \<open>Services and results\<close>

record sqlBackend =
  sb_scan :: backend
  sb_rawQuery :: "string \<Rightarrow> jsval list \<Rightarrow> row list res"
  sb_pool :: "(string \<Rightarrow> jsval list \<Rightarrow> (string list \<times> row list) res) option"

record compiledSelect =
  cp_sql :: string
  cp_params :: "jsval list"
  cp_optimizations :: "string list"

record queryServices =
  qv_schema :: schemaConfig
  qv_backend :: sqlBackend
  qv_registry :: "string \<Rightarrow> sqlBackend option"
  qv_calcite :: "(queryIntent \<Rightarrow> compiledSelect res) option"
  qv_ids :: ids
  qv_host :: host
  qv_functions :: fnRegistry
  qv_temp :: tempStore
  qv_batchSize :: nat
  qv_executionId :: string

record queryResult =
  qr_rows :: "row list"
  qr_schema :: rowSchema
  qr_rowCount :: nat
  qr_optimizations :: "string list"

datatype statement = Raw string "jsval list" | Pooled string "jsval list" | Scanned scanRequest

section \<open>References to upstream nodes\<close>

definition get_member :: "string \<Rightarrow> jsval \<Rightarrow> jsval res" where
  "get_member k v = (case v of
       JObj r \<Rightarrow> Inr (row_get r k)
     | JUndef \<Rightarrow> Inl (TypeError (''Cannot read properties of undefined (reading '' @ quoted k @ '')''))
     | JNull \<Rightarrow> Inl (TypeError (''Cannot read properties of null (reading '' @ quoted k @ '')''))
     | JBool b \<Rightarrow> Inr JUndef
     | JNum n \<Rightarrow> Inr JUndef
     | _ \<Rightarrow> Inl (Unmodelled ''member of an exotic object''))"

definition upstream_ref :: "string \<Rightarrow> string \<times> string" where
  "upstream_ref ref = (let parts = split_on CHR ''.'' (remove1 CHR ''$'' ref) in
     (hd parts, case parts of _ # f # _ \<Rightarrow> if f = [] then ''id'' else f | _ \<Rightarrow> ''id''))"

definition present :: "jsval \<Rightarrow> bool" where
  "present v \<longleftrightarrow> v \<noteq> JNull \<and> v \<noteq> JUndef"

definition resolve_filter :: "execContext \<Rightarrow> queryIntentFilter \<Rightarrow> queryIntentFilter res" where
  "resolve_filter c f = (if \<not> truthy_text (if_valueRef f) then Inr f
     else let ref = the (if_valueRef f); (node, field) = upstream_ref ref in
       case map_of (nodeOutputs c) node of
         Some (JArr rows) \<Rightarrow> bindR (mapR (get_member field) rows) (\<lambda>vs. let values = filter present vs in
           if values = [] then Inl (PlainError (''Could not resolve FK reference '' @ dq ref @
             '': no matching rows returned from lookup node '' @ dq node))
           else if length values > 1 then Inl (PlainError (''Ambiguous FK resolution '' @ dq ref @ '': '' @
             int_string (int (length values)) @ '' rows returned from lookup node '' @ dq node))
           else Inr (f\<lparr>if_operator := FoIn, if_value := Some (JArr values), if_valueRef := None\<rparr>))
       | _ \<Rightarrow> Inr f)"

text \<open>The filters as the loop leaves them, and its error, if any.\<close>

fun resolve_filters :: "execContext \<Rightarrow> queryIntentFilter list \<Rightarrow> queryIntentFilter list \<times> unit res" where
  "resolve_filters c [] = ([], Inr ())"
| "resolve_filters c (f # fs) = (case resolve_filter c f of
       Inl e \<Rightarrow> (f # fs, Inl e)
     | Inr f' \<Rightarrow> (let (fs', r) = resolve_filters c fs in (f' # fs', r)))"

definition resolve_intent :: "execContext \<Rightarrow> queryIntent \<Rightarrow> queryIntent \<times> unit res" where
  "resolve_intent c q = (case qi_filters q of None \<Rightarrow> (q, Inr ())
     | Some fs \<Rightarrow> let (fs', r) = resolve_filters c fs in (q\<lparr>qi_filters := Some fs'\<rparr>, r))"

section \<open>Running an operator tree\<close>

text \<open>
  The types of operator states follow the shape of the tree, so a tree is run from its scan outwards,
  each function wrapping the operator it is given and handing it on.
\<close>

type_synonym 'a run = "trace \<Rightarrow> ('a res \<times> trace) option"

definition run_collect :: "'s operator \<Rightarrow> 's \<Rightarrow> execContext \<Rightarrow> batch run" where
  "run_collect op s c t = map_option (\<lambda>(r, s', t'). (r, t')) (collectAll op c (nat (maxRowsPerNode (budget c))) (s, t))"

definition run_limit :: "(int \<times> int) option \<Rightarrow> 's operator \<Rightarrow> 's \<Rightarrow> execContext \<Rightarrow> batch run" where
  "run_limit page op s = (case page of None \<Rightarrow> run_collect op s
     | Some (n, off) \<Rightarrow> run_collect (limitOperator op n off) (new_limit s))"

definition run_project :: "queryServices \<Rightarrow> projectionSpec list \<Rightarrow> (int \<times> int) option \<Rightarrow> 's operator \<Rightarrow> 's \<Rightarrow> execContext \<Rightarrow> batch run" where
  "run_project v cols page op s = run_limit page (projectOperator (qv_host v) (qv_functions v) op cols) (new_project s)"

definition run_sort :: "queryServices \<Rightarrow> (sortKey list \<times> nat) option \<Rightarrow> projectionSpec list \<Rightarrow> (int \<times> int) option \<Rightarrow>
    's operator \<Rightarrow> 's \<Rightarrow> execContext \<Rightarrow> batch run" where
  "run_sort v keys cols page op s = (case keys of None \<Rightarrow> run_project v cols page op s
     | Some (ks, limit) \<Rightarrow> run_project v cols page (sortOperator (qv_host v) (qv_functions v) op ks limit) (new_build s (qv_temp v)))"

definition run_having :: "queryServices \<Rightarrow> exprAST option \<Rightarrow> (sortKey list \<times> nat) option \<Rightarrow> projectionSpec list \<Rightarrow>
    (int \<times> int) option \<Rightarrow> 's operator \<Rightarrow> 's \<Rightarrow> execContext \<Rightarrow> batch run" where
  "run_having v hv keys cols page op s = (case hv of None \<Rightarrow> run_sort v keys cols page op s
     | Some p \<Rightarrow> run_sort v keys cols page (filterOperator (qv_host v) (qv_functions v) op p) (new_filter s))"

definition run_agg :: "queryServices \<Rightarrow> (exprAST list \<times> aggSpec list \<times> nat) option \<Rightarrow> exprAST option \<Rightarrow> (sortKey list \<times> nat) option \<Rightarrow>
    projectionSpec list \<Rightarrow> (int \<times> int) option \<Rightarrow> 's operator \<Rightarrow> 's \<Rightarrow> execContext \<Rightarrow> batch run" where
  "run_agg v agg hv keys cols page op s = (case agg of None \<Rightarrow> run_having v hv keys cols page op s
     | Some (gs, as, n) \<Rightarrow> run_having v hv keys cols page
         (aggOperator (qv_host v) (qv_functions v) op gs as n) (new_build s (qv_temp v)))"

definition run_where :: "queryServices \<Rightarrow> exprAST option \<Rightarrow> (exprAST list \<times> aggSpec list \<times> nat) option \<Rightarrow> exprAST option \<Rightarrow>
    (sortKey list \<times> nat) option \<Rightarrow> projectionSpec list \<Rightarrow> (int \<times> int) option \<Rightarrow> 's operator \<Rightarrow> 's \<Rightarrow> execContext \<Rightarrow> batch run" where
  "run_where v wh agg hv keys cols page op s = (case wh of None \<Rightarrow> run_agg v agg hv keys cols page op s
     | Some p \<Rightarrow> run_agg v agg hv keys cols page (filterOperator (qv_host v) (qv_functions v) op p) (new_filter s))"

fun peel_limit :: "physTree \<Rightarrow> (int \<times> int) option \<times> physTree" where
  "peel_limit (PhLimit n off t) = (Some (n, off), t)"
| "peel_limit t = (None, t)"

fun peel_project :: "physTree \<Rightarrow> projectionSpec list option \<times> physTree" where
  "peel_project (PhProject cs t) = (Some cs, t)"
| "peel_project t = (None, t)"

fun peel_sort :: "physTree \<Rightarrow> (sortKey list \<times> nat) option \<times> physTree" where
  "peel_sort (PhSort ks n t) = (Some (ks, n), t)"
| "peel_sort t = (None, t)"

fun peel_filter :: "physTree \<Rightarrow> exprAST option \<times> physTree" where
  "peel_filter (PhFilter p t) = (Some p, t)"
| "peel_filter t = (None, t)"

fun peel_agg :: "physTree \<Rightarrow> (exprAST list \<times> aggSpec list \<times> nat) option \<times> physTree" where
  "peel_agg (PhAgg gs as n t) = (Some (gs, as, n), t)"
| "peel_agg t = (None, t)"

text \<open>
  The executor runs a tree only for queries without joins, whose trees are chains in the planner's order;
  either of the two filters may be absent.
\<close>

definition run_tree :: "queryServices \<Rightarrow> physTree \<Rightarrow> execContext \<Rightarrow> batch run" where
  "run_tree v tree c t = (let (page, t1) = peel_limit tree; (cols, t2) = peel_project t1; (keys, t3) = peel_sort t2;
       (hv, t4) = peel_filter t3; (agg, t5) = peel_agg t4; (wh, t6) = peel_filter t5
     in case (cols, t6) of
         (Some cs, PhScan so) \<Rightarrow> run_where v wh agg hv keys cs page (scanOperator so) (new_phys None) c t
       | _ \<Rightarrow> Some (Inl (Unmodelled ''join tree''), t))"

text \<open>A scan without a schema fails before it asks the backend.\<close>

fun requests :: "physTree \<Rightarrow> scanRequest list" where
  "requests (PhScan so) = (if so_schema so = [] then [] else [scan_request so])"
| "requests (PhFilter p t) = requests t"
| "requests (PhJoin on k n l r) = requests l @ requests r"
| "requests (PhAgg gs as n t) = requests t"
| "requests (PhProject cs t) = requests t"
| "requests (PhSort ks n t) = requests t"
| "requests (PhLimit n off t) = requests t"

section \<open>The executor\<close>

definition raw_result :: "string \<Rightarrow> row list \<Rightarrow> queryResult" where
  "raw_result how rows = \<lparr>qr_rows = rows, qr_schema = (case rows of [] \<Rightarrow> [] | r # _ \<Rightarrow> map (\<lambda>(k, v). Column k TAny True) r),
     qr_rowCount = length rows, qr_optimizations = [how]\<rparr>"

definition run_raw :: "queryServices \<Rightarrow> string \<Rightarrow> string \<Rightarrow> sqlBackend option \<Rightarrow> queryIntent \<Rightarrow> queryResult res \<times> statement list" where
  "run_raw v how missing b q = (case buildRawSQL (qv_schema v) q of
       Inl e \<Rightarrow> (Inl e, [])
     | Inr (sql, ps) \<Rightarrow> (case b of
         None \<Rightarrow> (Inl (PlainError missing), [])
       | Some b \<Rightarrow> (mapRes (raw_result how) (sb_rawQuery b sql ps), [Raw sql ps])))"

definition calcite_failed :: "queryServices \<Rightarrow> queryIntent \<Rightarrow> js_error \<Rightarrow> trace \<Rightarrow> trace" where
  "calcite_failed v q e t = (let msg = ''Query execution failed: '' @ error_message e in
     traceEvent t ((mk_event (qv_executionId v) TkError)\<lparr>te_error := Some msg,
       te_errorDetails := Some \<lparr>be_message = msg, be_category = ''execution'', be_severity = ''error'',
         be_nodeId = Some (if qi_table q = [] then ''unknown'' else qi_table q)\<rparr>\<rparr>))"

text \<open>\<open>Inl\<close> is the exception that the \<open>catch\<close> turns into the fallback; the pool of an absent backend is a type error.\<close>

definition try_calcite :: "queryServices \<Rightarrow> (queryIntent \<Rightarrow> compiledSelect res) \<Rightarrow> sqlBackend option \<Rightarrow> queryIntent \<Rightarrow>
    queryResult res \<times> statement list" where
  "try_calcite v compile b q = (case compile q of
       Inl e \<Rightarrow> (Inl e, [])
     | Inr cs \<Rightarrow> (case b of
         None \<Rightarrow> (Inl (TypeError ''Cannot read properties of undefined (reading 'pool')''), [])
       | Some b \<Rightarrow> (case sb_pool b of
           None \<Rightarrow> (Inl (TypeError ''Cannot read properties of undefined (reading 'query')''), [])
         | Some run \<Rightarrow> (mapRes (\<lambda>(fields, rows). \<lparr>qr_rows = rows, qr_schema = map (\<lambda>f. Column f TAny True) fields,
               qr_rowCount = length rows, qr_optimizations = cp_optimizations cs\<rparr>) (run (cp_sql cs) (cp_params cs)),
             [Pooled (cp_sql cs) (cp_params cs)]))))"

definition run_calcite :: "queryServices \<Rightarrow> sqlBackend option \<Rightarrow> queryIntent \<Rightarrow> trace \<Rightarrow> queryResult res \<times> trace \<times> statement list" where
  "run_calcite v b q t = (let fallback = run_raw v ''raw_sql_fallback'' ''[QueryExecutor] No backend available for query execution'' b q in
     case qv_calcite v of
       None \<Rightarrow> (fst fallback, t, snd fallback)
     | Some compile \<Rightarrow> (case try_calcite v compile b q of
         (Inr res, sent) \<Rightarrow> (Inr res, traceEvent t ((mk_event (qv_executionId v) TkComplete)\<lparr>te_rowsOut := Some (qr_rowCount res)\<rparr>), sent)
       | (Inl e, sent) \<Rightarrow> (fst fallback, calcite_failed v q e t, sent @ snd fallback)))"

definition local_result :: "batch \<Rightarrow> queryResult" where
  "local_result b = \<lparr>qr_rows = b_rows b, qr_schema = b_schema b, qr_rowCount = length (b_rows b), qr_optimizations = []\<rparr>"

definition local_tree :: "queryServices \<Rightarrow> queryAST \<Rightarrow> physTree res" where
  "local_tree v ast = buildTree \<lparr>tb_backend = sb_scan (qv_backend v), tb_batchSize = qv_batchSize v\<rparr> (plan (qv_ids v) ast)"

definition run_local :: "queryServices \<Rightarrow> extraFields \<Rightarrow> queryIntent \<Rightarrow> execContext \<Rightarrow> trace \<Rightarrow>
    (queryResult res \<times> trace \<times> statement list) option" where
  "run_local v ef q c t = (case build (qv_schema v) q ef of
       Inl e \<Rightarrow> Some (Inl e, t, [])
     | Inr (InvalidIntent errors) \<Rightarrow> Some (Inl (PlainError (''Query validation failed:'' @ [CHR 0x0A] @
           join_str [CHR 0x0A] (map (\<lambda>e. ''  - '' @ e) errors))), t, [])
     | Inr (BuiltAST ast) \<Rightarrow> (case local_tree v ast of
         Inl e \<Rightarrow> Some (Inl e, t, [])
       | Inr tree \<Rightarrow> map_option (\<lambda>(r, t'). (mapRes local_result r, t', map Scanned (requests tree))) (run_tree v tree c t)))"

record execution =
  en_result :: "queryResult res"
  en_intent :: queryIntent
  en_trace :: trace
  en_sent :: "statement list"

definition execute :: "queryServices \<Rightarrow> queryIntent \<Rightarrow> execContext \<Rightarrow> extraFields \<Rightarrow> string option \<Rightarrow> trace \<Rightarrow> execution option" where
  "execute v q0 c ef ds t = (let (q, resolved) = resolve_intent c q0;
       finish = (\<lambda>(r, t', sent). \<lparr>en_result = r, en_intent = q, en_trace = t', en_sent = sent\<rparr>);
       b = (if truthy_text ds then qv_registry v (the ds) else Some (qv_backend v))
     in case resolved of
         Inl e \<Rightarrow> Some (finish (Inl e, t, []))
       | Inr _ \<Rightarrow>
         if truthy_text ds \<and> the ds \<noteq> ''default''
         then (let (r, sent) = run_raw v ''datasource_raw_sql'' (''[QueryExecutor] No backend for datasource: '' @ the ds) b q
               in Some (finish (r, t, sent)))
         else if needsCalcite q then Some (finish (run_calcite v b q t))
         else map_option finish (run_local v ef q c t))"

end
