(* ===== verification/WriteSql.thy ===== *)
theory WriteSql
  imports Session QueryExec
begin

text \<open>
  The statements that write: \<open>src/src/nodes/definitions/write-predicate-builder.ts\<close> and the helpers of
  \<open>write-node.ts\<close> that build and run INSERT, UPDATE, upsert and DELETE.

  The database is a record of functions on a world \<open>'w\<close>: \<open>sq_query\<close> for \<^verbatim>\<open>rawQuery\<close>, and the connection of a
  transaction of \<open>storage/postgres-backend.ts\<close>.  An action takes the world and the statements sent so far
  and gives a result and both back.  Batch sizes that are not positive integers are outside the model.
\<close>

section \<open>Predicates\<close>

definition entry_predicate :: "string \<times> jsval \<Rightarrow> writePredicate option" where
  "entry_predicate = (\<lambda>(c, v). case v of
       JArr [] \<Rightarrow> None
     | JArr [x] \<Rightarrow> Some (WpEq c x)
     | JArr vs \<Rightarrow> Some (WpAny c vs)
     | JNull \<Rightarrow> Some (WpIsNull c)
     | _ \<Rightarrow> Some (WpEq c v))"

definition buildWritePredicate :: "row \<Rightarrow> writePredicate option" where
  "buildWritePredicate w = (case List.map_filter entry_predicate w of
       [] \<Rightarrow> None
     | p # ps \<Rightarrow> Some (foldl WpAnd p ps))"

record sqlText =
  sq_sql :: string
  sq_params :: "jsval list"
  sq_next :: int

fun predicateToSQL :: "writePredicate \<Rightarrow> int \<Rightarrow> sqlText" where
  "predicateToSQL (WpEq c v) i = \<lparr>sq_sql = Session.dq c @ '' = '' @ placeholder i, sq_params = [v], sq_next = i + 1\<rparr>"
| "predicateToSQL (WpAny c vs) i = \<lparr>sq_sql = Session.dq c @ '' = ANY('' @ placeholder i @ '')'', sq_params = [JArr vs], sq_next = i + 1\<rparr>"
| "predicateToSQL (WpIn c vs) i = \<lparr>sq_sql = in_list (Session.dq c) ''IN'' i vs, sq_params = vs, sq_next = i + int (length vs)\<rparr>"
| "predicateToSQL (WpRange c lo hi) i = \<lparr>sq_sql = Session.dq c @ '' BETWEEN '' @ placeholder i @ '' AND '' @ placeholder (i + 1),
     sq_params = [lo, hi], sq_next = i + 2\<rparr>"
| "predicateToSQL (WpIsNull c) i = \<lparr>sq_sql = Session.dq c @ '' IS NULL'', sq_params = [], sq_next = i\<rparr>"
| "predicateToSQL (WpNotNull c) i = \<lparr>sq_sql = Session.dq c @ '' IS NOT NULL'', sq_params = [], sq_next = i\<rparr>"
| "predicateToSQL (WpAnd p q) i = (let l = predicateToSQL p i; r = predicateToSQL q (sq_next l)
     in \<lparr>sq_sql = ''('' @ sq_sql l @ '' AND '' @ sq_sql r @ '')'', sq_params = sq_params l @ sq_params r, sq_next = sq_next r\<rparr>)"
| "predicateToSQL (WpOr p q) i = (let l = predicateToSQL p i; r = predicateToSQL q (sq_next l)
     in \<lparr>sq_sql = ''('' @ sq_sql l @ '' OR '' @ sq_sql r @ '')'', sq_params = sq_params l @ sq_params r, sq_next = sq_next r\<rparr>)"
| "predicateToSQL (WpRaw s ps) i = \<lparr>sq_sql = s, sq_params = ps, sq_next = i + int (length ps)\<rparr>"

section \<open>The database\<close>

record queryReply =
  rp_rows :: "row list"
  rp_rowCount :: int

record 'w sqlDatabase =
  sd_query :: "string \<Rightarrow> jsval list \<Rightarrow> 'w \<Rightarrow> queryReply res \<times> 'w"
  sd_connect :: "'w \<Rightarrow> unit res \<times> 'w"
  sd_client :: "string \<Rightarrow> 'w \<Rightarrow> unit res \<times> 'w"
  sd_release :: "'w \<Rightarrow> 'w"

type_synonym sentLog = "(string \<times> jsval list) list"

type_synonym ('w, 'a) action = "'w \<times> sentLog \<Rightarrow> 'a res \<times> 'w \<times> sentLog"

definition fail_with :: "js_error \<Rightarrow> ('w, 'a) action" where
  "fail_with e s = (Inl e, s)"

definition rawQuery :: "'w sqlDatabase \<Rightarrow> string \<Rightarrow> jsval list \<Rightarrow> ('w, queryReply) action" where
  "rawQuery db sql ps = (\<lambda>(w, sent). let (r, w') = sd_query db sql ps w in (r, w', sent @ [(sql, ps)]))"

fun run_statements :: "'w sqlDatabase \<Rightarrow> (string \<times> jsval list) list \<Rightarrow> ('w, unit) action" where
  "run_statements db [] s = (Inr (), s)"
| "run_statements db ((sql, ps) # qs) s = (case rawQuery db sql ps s of
       (Inl e, s') \<Rightarrow> (Inl e, s')
     | (Inr r, s') \<Rightarrow> run_statements db qs s')"

text \<open>\<^verbatim>\<open>transaction\<close>: the begin and the end go to a connection of their own, the statements in between to the pool.\<close>

definition rollback :: "'w sqlDatabase \<Rightarrow> js_error \<Rightarrow> ('w, 'a) action" where
  "rollback db e = (\<lambda>(w, sent). case sd_client db ''ROLLBACK'' w of
       (Inl e', w') \<Rightarrow> (Inl e', sd_release db w', sent)
     | (Inr _, w') \<Rightarrow> (Inl e, sd_release db w', sent))"

definition transaction :: "'w sqlDatabase \<Rightarrow> ('w, 'a) action \<Rightarrow> ('w, 'a) action" where
  "transaction db act = (\<lambda>(w, sent). case sd_connect db w of
       (Inl e, w1) \<Rightarrow> (Inl e, w1, sent)
     | (Inr _, w1) \<Rightarrow> (case sd_client db ''BEGIN'' w1 of
         (Inl e, w2) \<Rightarrow> rollback db e (w2, sent)
       | (Inr _, w2) \<Rightarrow> (case act (w2, sent) of
           (Inl e, s3) \<Rightarrow> rollback db e s3
         | (Inr v, w3, sent3) \<Rightarrow> (case sd_client db ''COMMIT'' w3 of
             (Inl e, w4) \<Rightarrow> rollback db e (w4, sent3)
           | (Inr _, w4) \<Rightarrow> (Inr v, sd_release db w4, sent3)))))"

section \<open>Identifiers and placeholders\<close>

definition qi :: "string \<Rightarrow> string" where
  "qi s = Session.dq (concat (map (\<lambda>c. if c = CHR 0x22 then [c, c] else [c]) s))"

definition placeholders :: "nat \<Rightarrow> nat \<Rightarrow> string" where
  "placeholders n offset = join_str '', '' (map (\<lambda>k. placeholder (int offset + 1 + int k)) [0..<n])"

definition column_list :: "string list \<Rightarrow> string" where
  "column_list cs = join_str '', '' (map qi cs)"

definition returning_clause :: "string list option \<Rightarrow> string" where
  "returning_clause r = (if opt_list r = [] then [] else '' RETURNING '' @ column_list (opt_list r))"

section \<open>Insert\<close>

definition all_columns :: "string list \<Rightarrow> row option \<Rightarrow> string list" where
  "all_columns cs static = (case static of None \<Rightarrow> cs
     | Some sv \<Rightarrow> foldl (\<lambda>acc c. set_add c acc) [] (cs @ map fst sv))"

definition insert_value :: "row option \<Rightarrow> row \<Rightarrow> string \<Rightarrow> jsval" where
  "insert_value static r c = (case static of
       Some sv \<Rightarrow> if al_has c sv then row_get sv c else row_get r c
     | None \<Rightarrow> row_get r c)"

definition insert_statement :: "string \<Rightarrow> string list \<Rightarrow> bool \<Rightarrow> string list option \<Rightarrow> row option \<Rightarrow> row list \<Rightarrow> string \<times> jsval list" where
  "insert_statement t cs ignore returning static batch = (let n = length cs in
     (''INSERT INTO '' @ qi t @ '' ('' @ column_list cs @ '') VALUES '' @
        join_str '', '' (map (\<lambda>k. ''('' @ placeholders n (k * n) @ '')'') [0..<length batch]) @
        (if ignore then '' ON CONFLICT DO NOTHING'' else []) @ returning_clause returning,
      concat (map (\<lambda>r. map (insert_value static r) cs) batch)))"

definition size_of :: "jsnum \<Rightarrow> nat option" where
  "size_of n = (case n of Fin q \<Rightarrow> if 0 < q \<and> q = of_int \<lfloor>q\<rfloor> then Some (nat \<lfloor>q\<rfloor>) else None | _ \<Rightarrow> None)"

definition runInsert :: "'w sqlDatabase \<Rightarrow> string \<Rightarrow> string list \<Rightarrow> row list \<Rightarrow> bool \<Rightarrow> jsnum \<Rightarrow> string list option \<Rightarrow> row option \<Rightarrow> ('w, unit) action" where
  "runInsert db t cs rows ignore batchSize returning static = transaction db (case size_of batchSize of
       None \<Rightarrow> if rows = [] then run_statements db [] else fail_with (Unmodelled ''batch size'')
     | Some n \<Rightarrow> run_statements db
         (map (insert_statement t (all_columns cs static) ignore returning static) (chunks n rows)))"

section \<open>Update\<close>

definition missing_where :: "string \<Rightarrow> string \<Rightarrow> string list \<Rightarrow> row list \<Rightarrow> js_error option" where
  "missing_where op t ws rows = (case rows of
       [] \<Rightarrow> if ws = [] then None else Some (TypeError ''Cannot use 'in' operator to search in undefined'')
     | r # _ \<Rightarrow> (let missing = filter (\<lambda>c. \<not> al_has c r) ws in if missing = [] then None
         else Some (PlainError (''WriteNode '' @ op @ '' ['' @ t @ '']: whereColumns not in input rows: '' @ join_str '', '' missing @
           ''. Available: '' @ join_str '', '' (map fst r)))))"

definition set_list :: "string list \<Rightarrow> int \<Rightarrow> string" where
  "set_list cs i = join_str '', '' (map (\<lambda>k. qi (cs ! k) @ '' = '' @ placeholder (i + int k)) [0..<length cs])"

definition where_list :: "string list \<Rightarrow> int \<Rightarrow> string" where
  "where_list cs i = join_str '' AND '' (map (\<lambda>k. qi (cs ! k) @ '' = '' @ placeholder (i + int k)) [0..<length cs])"

definition update_statement :: "string \<Rightarrow> string list \<Rightarrow> writePredicate option \<Rightarrow> string list \<Rightarrow> string list option \<Rightarrow> row \<Rightarrow> string \<times> jsval list" where
  "update_statement t cs p ws returning r =
     (let n = int (length cs);
          (wh, ps) = (case p of
              Some q \<Rightarrow> (sq_sql (predicateToSQL q (n + 1)), sq_params (predicateToSQL q (n + 1)))
            | None \<Rightarrow> (where_list ws (n + 1), map (row_get r) ws))
      in (''UPDATE '' @ qi t @ '' SET '' @ set_list cs 1 @ '' WHERE '' @ wh @ returning_clause returning, map (row_get r) cs @ ps))"

definition update_refused :: "string \<Rightarrow> js_error" where
  "update_refused t = PlainError (''UPDATE on '' @ t @ '' refused -- no WHERE clause'')"

definition where_predicate :: "writePayload \<Rightarrow> writePredicate option" where
  "where_predicate p = (case wp_wherePredicate p of Some q \<Rightarrow> Some q | None \<Rightarrow> buildWritePredicate (opt_list (wp_staticWhere p)))"

definition runUpdate :: "'w sqlDatabase \<Rightarrow> string \<Rightarrow> string list \<Rightarrow> row list \<Rightarrow> string list option \<Rightarrow> string list option \<Rightarrow> writePayload \<Rightarrow> ('w, unit) action" where
  "runUpdate db t setColumns rows whereColumns returning payload = transaction db (case whereColumns of
       None \<Rightarrow> fail_with (TypeError ''Cannot read properties of undefined (reading 'filter')'')
     | Some ws \<Rightarrow> (case missing_where ''UPDATE'' t ws rows of
         Some e \<Rightarrow> fail_with e
       | None \<Rightarrow> (let cs = filter (\<lambda>c. c \<notin> set ws) setColumns; p = where_predicate payload in
           if cs = [] then fail_with (PlainError (''WriteNode UPDATE ['' @ t @
             '']: all columns are whereColumns -- nothing to SET. Add non-where columns to the columns list.''))
           else if p = None \<and> ws = [] \<and> (wp_mode payload = WUpdate \<or> rows \<noteq> []) then fail_with (update_refused t)
           else run_statements db (map (update_statement t cs p ws returning) rows))))"

section \<open>Upsert\<close>

definition index_in :: "string list \<Rightarrow> string \<Rightarrow> int" where
  "index_in cs c = (if c \<in> set cs then int (length (takeWhile (\<lambda>x. x \<noteq> c) cs)) else -1)"

definition upsert_statement :: "string \<Rightarrow> string list \<Rightarrow> string list \<Rightarrow> string list \<Rightarrow> string list option \<Rightarrow> row \<Rightarrow> string \<times> jsval list" where
  "upsert_statement t cs conflict sets returning r =
     (''INSERT INTO '' @ qi t @ '' ('' @ column_list cs @ '') VALUES ('' @ placeholders (length cs) 0 @ '') ON CONFLICT ('' @
        column_list conflict @ '') DO UPDATE SET '' @
        join_str '', '' (map (\<lambda>c. qi c @ '' = '' @ placeholder (index_in cs c + 1)) sets) @ returning_clause returning,
      map (row_get r) cs)"

definition runUpsert :: "'w sqlDatabase \<Rightarrow> string \<Rightarrow> string list \<Rightarrow> row list \<Rightarrow> string list option \<Rightarrow> string list option \<Rightarrow> string list option \<Rightarrow> ('w, unit) action" where
  "runUpsert db t cs rows conflict updates returning = transaction db (case (updates, conflict) of
       (None, None) \<Rightarrow> if cs = [] then runInsert db t cs rows True (Fin 100) returning None
         else fail_with (TypeError ''Cannot read properties of undefined (reading 'includes')'')
     | (us, cf) \<Rightarrow> (let sets = (case us of Some xs \<Rightarrow> xs | None \<Rightarrow> filter (\<lambda>c. c \<notin> set (opt_list cf)) cs) in
         if sets = [] then runInsert db t cs rows True (Fin 100) returning None
         else if cf = None then fail_with (TypeError ''Cannot read properties of undefined (reading 'map')'')
         else run_statements db (map (upsert_statement t cs (opt_list cf) sets returning) rows)))"

section \<open>Delete\<close>

fun delete_terms :: "row \<Rightarrow> string list \<Rightarrow> int \<Rightarrow> string list" where
  "delete_terms r [] i = []"
| "delete_terms r (c # cs) i = (if present (row_get r c) then (qi c @ '' = '' @ placeholder i) # delete_terms r cs (i + 1)
     else (qi c @ '' IS NULL'') # delete_terms r cs i)"

definition delete_statement :: "string \<Rightarrow> string list \<Rightarrow> string list option \<Rightarrow> row \<Rightarrow> string \<times> jsval list" where
  "delete_statement t ws returning r =
     (''DELETE FROM '' @ qi t @ '' WHERE '' @ join_str '' AND '' (delete_terms r ws 1) @ returning_clause returning,
      filter present (map (row_get r) ws))"

definition runDelete :: "'w sqlDatabase \<Rightarrow> string \<Rightarrow> row list \<Rightarrow> string list option \<Rightarrow> string list option \<Rightarrow> ('w, unit) action" where
  "runDelete db t rows whereColumns returning = transaction db (case whereColumns of
       None \<Rightarrow> fail_with (TypeError ''Cannot read properties of undefined (reading 'length')'')
     | Some ws \<Rightarrow> if ws = [] then fail_with (PlainError (''WriteNode DELETE ['' @ t @
           '']: whereColumns is empty. Refusing to delete all rows without a WHERE clause.''))
         else (case missing_where ''DELETE'' t ws rows of
           Some e \<Rightarrow> fail_with e
         | None \<Rightarrow> run_statements db (map (delete_statement t ws returning) rows)))"


section \<open>What a predicate means\<close>

text \<open>
  The meaning of a predicate in SQL, for a comparison \<open>eq\<close>, an order \<open>le\<close> and a meaning \<open>raw\<close> of literal text:
  \<open>sql_true\<close> says when the condition is true (not false and not unknown) on a row of the table.
\<close>

definition sql_equal :: "(jsval \<Rightarrow> jsval \<Rightarrow> bool) \<Rightarrow> jsval \<Rightarrow> jsval \<Rightarrow> bool" where
  "sql_equal eq x v \<longleftrightarrow> present x \<and> present v \<and> eq x v"

fun sql_true :: "(jsval \<Rightarrow> jsval \<Rightarrow> bool) \<Rightarrow> (jsval \<Rightarrow> jsval \<Rightarrow> bool) \<Rightarrow> (string \<Rightarrow> jsval list \<Rightarrow> row \<Rightarrow> bool) \<Rightarrow> row \<Rightarrow> writePredicate \<Rightarrow> bool" where
  "sql_true eq le raw r (WpEq c v) \<longleftrightarrow> sql_equal eq (row_get r c) v"
| "sql_true eq le raw r (WpAny c vs) \<longleftrightarrow> list_ex (sql_equal eq (row_get r c)) vs"
| "sql_true eq le raw r (WpIn c vs) \<longleftrightarrow> list_ex (sql_equal eq (row_get r c)) vs"
| "sql_true eq le raw r (WpRange c lo hi) \<longleftrightarrow>
     present (row_get r c) \<and> present lo \<and> present hi \<and> le lo (row_get r c) \<and> le (row_get r c) hi"
| "sql_true eq le raw r (WpIsNull c) \<longleftrightarrow> \<not> present (row_get r c)"
| "sql_true eq le raw r (WpNotNull c) \<longleftrightarrow> present (row_get r c)"
| "sql_true eq le raw r (WpAnd p q) \<longleftrightarrow> sql_true eq le raw r p \<and> sql_true eq le raw r q"
| "sql_true eq le raw r (WpOr p q) \<longleftrightarrow> sql_true eq le raw r p \<or> sql_true eq le raw r q"
| "sql_true eq le raw r (WpRaw s ps) \<longleftrightarrow> raw s ps r"

text \<open>What an entry of a static condition asks of a row: a list asks for one of its values, \<^verbatim>\<open>null\<close> for a missing value.\<close>

definition entry_holds :: "(jsval \<Rightarrow> jsval \<Rightarrow> bool) \<Rightarrow> row \<Rightarrow> string \<times> jsval \<Rightarrow> bool" where
  "entry_holds eq r = (\<lambda>(c, v). case v of
       JArr vs \<Rightarrow> list_ex (sql_equal eq (row_get r c)) vs
     | JNull \<Rightarrow> \<not> present (row_get r c)
     | _ \<Rightarrow> sql_equal eq (row_get r c) v)"

lemma entry_predicate_None: "entry_predicate e = None \<longleftrightarrow> snd e = JArr []"
  by (auto simp: entry_predicate_def split: prod.splits jsval.splits list.splits)

lemma entry_predicate_empty [simp]: "entry_predicate (c, JArr []) = None"
  by (simp add: entry_predicate_def)

lemma entry_predicate_true: "entry_predicate e = Some p \<Longrightarrow> sql_true eq le raw r p \<longleftrightarrow> entry_holds eq r e"
  by (auto simp: entry_predicate_def entry_holds_def split: prod.splits jsval.splits list.splits)

lemma foldl_and_true: "sql_true eq le raw r (foldl WpAnd p ps) \<longleftrightarrow> sql_true eq le raw r p \<and> (\<forall>q \<in> set ps. sql_true eq le raw r q)"
  by (induction ps arbitrary: p) auto

lemma built_predicates_true:
  "(\<forall>q \<in> set (List.map_filter entry_predicate w). sql_true eq le raw r q) \<longleftrightarrow>
   (\<forall>e \<in> set (filter (\<lambda>e. snd e \<noteq> JArr []) w). entry_holds eq r e)"
  by (induction w) (auto simp: map_filter_simps entry_predicate_None entry_predicate_true split: option.splits)

lemma map_filter_entries_Nil: "List.map_filter entry_predicate w = [] \<longleftrightarrow> filter (\<lambda>e. snd e \<noteq> JArr []) w = []"
  by (induction w) (auto simp: map_filter_simps entry_predicate_None split: option.splits)

text \<open>
  C28: the predicate built from a static condition is the conjunction of its entries, whatever the comparison of the
  database is: a row satisfies it exactly when it has one of the values of every entry (a missing value for an entry
  \<^verbatim>\<open>null\<close>).  Entries with an empty list are not among them: they drop out, and a condition all of whose lists are empty
  gives no predicate at all, although no row has one of no values.
\<close>

theorem static_where_meaning:
  "(buildWritePredicate w = None \<longleftrightarrow> filter (\<lambda>e. snd e \<noteq> JArr []) w = []) \<and>
   (\<forall>p. buildWritePredicate w = Some p \<longrightarrow>
     (\<forall>eq le raw r. sql_true eq le raw r p \<longleftrightarrow> (\<forall>e \<in> set (filter (\<lambda>e. snd e \<noteq> JArr []) w). entry_holds eq r e)))"
proof (intro conjI allI impI)
  show "buildWritePredicate w = None \<longleftrightarrow> filter (\<lambda>e. snd e \<noteq> JArr []) w = []"
    unfolding buildWritePredicate_def map_filter_entries_Nil [symmetric] by (simp split: list.splits)
next
  fix p eq le raw r
  assume "buildWritePredicate w = Some p"
  then obtain q qs where qs: "List.map_filter entry_predicate w = q # qs" "p = foldl WpAnd q qs"
    by (auto simp: buildWritePredicate_def split: list.splits)
  with built_predicates_true [of w eq le raw r]
  show "sql_true eq le raw r p \<longleftrightarrow> (\<forall>e \<in> set (filter (\<lambda>e. snd e \<noteq> JArr []) w). entry_holds eq r e)"
    by (simp add: foldl_and_true)
qed

lemma static_where_meaning_witness:
  "buildWritePredicate [(''status'', JArr []), (''owner'', JNum (Fin 1))] = Some (WpEq ''owner'' (JNum (Fin 1))) \<and>
   sql_true (=) (=) (\<lambda>_ _ _. True) [(''owner'', JNum (Fin 1))] (WpEq ''owner'' (JNum (Fin 1)))"
proof -
  have b: "buildWritePredicate [(''status'', JArr []), (''owner'', JNum (Fin 1))] = Some (WpEq ''owner'' (JNum (Fin 1)))"
    by (simp add: buildWritePredicate_def entry_predicate_def map_filter_simps)
  show ?thesis
    using b static_where_meaning [of "[(''status'', JArr []), (''owner'', JNum (Fin 1))]"]
    by (simp add: entry_holds_def sql_equal_def present_def)
qed

section \<open>The numbering of the parameters\<close>

fun raw_free :: "writePredicate \<Rightarrow> bool" where
  "raw_free (WpAnd p q) \<longleftrightarrow> raw_free p \<and> raw_free q"
| "raw_free (WpOr p q) \<longleftrightarrow> raw_free p \<and> raw_free q"
| "raw_free (WpRaw s ps) \<longleftrightarrow> False"
| "raw_free p \<longleftrightarrow> True"

lemma predicate_next: "sq_next (predicateToSQL p i) = i + int (length (sq_params (predicateToSQL p i)))"
  by (induction p arbitrary: i) (simp_all add: Let_def)

lemma woven_between: "woven c i n \<Longrightarrow> woven (s @ c @ s') i n"
  by (rule woven_prefix, rule woven_suffix)

lemma woven_pair: "woven c i n \<Longrightarrow> woven d (i + int n) m \<Longrightarrow> woven (s @ c @ t @ d @ u) i (n + m)"
  by (rule woven_prefix, rule woven_append, assumption, rule woven_between)

lemma predicate_woven: "raw_free p \<Longrightarrow> woven (sq_sql (predicateToSQL p i)) i (length (sq_params (predicateToSQL p i)))"
proof (induction p arbitrary: i)
  case (WpEq c v)
  show ?case using woven_one [of "Session.dq c @ '' = ''" i "[]"] by simp
next
  case (WpIn c vs)
  show ?case by (simp add: woven_in_list)
next
  case (WpAny c vs)
  show ?case using woven_one [of "Session.dq c @ '' = ANY(''" i "'')''"] by simp
next
  case (WpRange c lo hi)
  show ?case using woven_two [of "Session.dq c @ '' BETWEEN ''" i "'' AND ''"] by (simp add: numeral_2_eq_2)
next
  case (WpAnd p q)
  from WpAnd.prems have p: "raw_free p" and q: "raw_free q" by simp_all
  show ?case
    using woven_pair [OF WpAnd.IH(1) [OF p, of i] WpAnd.IH(2) [OF q], where s = "''(''" and t = "'' AND ''" and u = "'')''"]
    by (simp add: Let_def predicate_next)
next
  case (WpOr p q)
  from WpOr.prems have p: "raw_free p" and q: "raw_free q" by simp_all
  show ?case
    using woven_pair [OF WpOr.IH(1) [OF p, of i] WpOr.IH(2) [OF q], where s = "''(''" and t = "'' OR ''" and u = "'')''"]
    by (simp add: Let_def predicate_next)
qed (simp_all add: woven_text)

lemma foldl_and_raw_free: "raw_free (foldl WpAnd p ps) \<longleftrightarrow> raw_free p \<and> (\<forall>q \<in> set ps. raw_free q)"
  by (induction ps arbitrary: p) auto

lemma entry_raw_free: "entry_predicate e = Some p \<Longrightarrow> raw_free p"
  by (auto simp: entry_predicate_def split: prod.splits jsval.splits list.splits)

lemma built_raw_free: "buildWritePredicate w = Some p \<Longrightarrow> raw_free p"
proof -
  assume "buildWritePredicate w = Some p"
  then obtain q qs where qs: "List.map_filter entry_predicate w = q # qs" "p = foldl WpAnd q qs"
    by (auto simp: buildWritePredicate_def split: list.splits)
  have "\<forall>x \<in> set (List.map_filter entry_predicate w). raw_free x"
    using entry_raw_free by (fastforce simp: List.map_filter_def)
  with qs show ?thesis by (simp add: foldl_and_raw_free)
qed

lemma woven_join:
  assumes "\<And>k. k < n \<Longrightarrow> woven (f k) (i + int k * int m) m"
  shows "woven (join_str sep (map f [0..<n])) i (n * m)"
  using assms
proof (induction n)
  case (Suc n)
  have IH: "woven (join_str sep (map f [0..<n])) i (n * m)" by (rule Suc.IH) (simp add: Suc.prems)
  show ?case
  proof (cases "n = 0")
    case True
    with Suc.prems [of 0] show ?thesis by simp
  next
    case False
    have "woven (join_str sep (map f [0..<n]) @ sep @ f n) i (n * m + m)"
      by (rule woven_append [OF IH], rule woven_prefix) (simp add: Suc.prems)
    with False show ?thesis by (simp add: join_str_snoc add.commute)
  qed
qed (simp add: woven_text)

lemma woven_assign: "woven (join_str sep (map (\<lambda>k. qi (cs ! k) @ '' = '' @ placeholder (i + int k)) [0..<n])) i n"
proof -
  have "woven (qi (cs ! k) @ '' = '' @ placeholder (i + int k)) (i + int k * int 1) 1" for k
    using woven_one [of "qi (cs ! k) @ '' = ''" "i + int k" "[]"] by simp
  then show ?thesis using woven_join [of n "\<lambda>k. qi (cs ! k) @ '' = '' @ placeholder (i + int k)" i 1 sep] by simp
qed

lemma woven_set_list: "woven (set_list cs i) i (length cs)"
  unfolding set_list_def by (rule woven_assign)

lemma woven_where_list: "woven (where_list cs i) i (length cs)"
  unfolding where_list_def by (rule woven_assign)

lemma woven_placeholders: "woven (placeholders n off) (int off + 1) n"
  unfolding placeholders_def by (rule woven_list)

lemma woven_tuples:
  "woven (join_str '', '' (map (\<lambda>k. ''('' @ placeholders n (k * n) @ '')'') [0..<b])) 1 (b * n)"
proof (rule woven_join)
  fix k
  assume "k < b"
  have "woven (placeholders n (k * n)) (1 + int k * int n) n" using woven_placeholders [of n "k * n"] by (simp add: add.commute)
  then show "woven (''('' @ placeholders n (k * n) @ '')'') (1 + int k * int n) n" by (rule woven_between)
qed

end
