(* ===== verification/WriteRuns.thy ===== *)
theory WriteRuns
  imports WriteSql
begin

text \<open>
  What the statements of \<open>WriteSql\<close> look like and what reaches the database: the numbering of their
  parameters, the rows they carry, and the effect of a transaction that fails.
\<close>

section \<open>Statements\<close>

lemma join_str_Cons: "join_str s (x # xs) = (if xs = [] then x else x @ s @ join_str s xs)"
  by (cases xs) simp_all

lemma woven_delete_terms:
  "woven (join_str sep (delete_terms r cs i)) i (length (filter present (map (row_get r) cs)))"
proof (induction cs arbitrary: i)
  case (Cons c cs)
  show ?case
  proof (cases "present (row_get r c)")
    case True
    have one: "woven (qi c @ '' = '' @ placeholder i) i 1" using woven_one [of "qi c @ '' = ''" i "[]"] by simp
    have "woven (sep @ join_str sep (delete_terms r cs (i + 1))) (i + int 1) (length (filter present (map (row_get r) cs)))"
      using Cons.IH [of "i + 1"] by (intro woven_prefix) simp
    from woven_append [OF one this] Cons.IH [of "i + 1"] True one show ?thesis
      by (cases cs) (simp_all add: join_str_Cons)
  next
    case False
    with woven_prefix [OF Cons.IH, of "qi c @ '' IS NULL'' @ sep" i] show ?thesis
      by (cases cs) (simp_all add: join_str_Cons woven_text)
  qed
qed (simp add: woven_text)

lemma insert_params: "snd (insert_statement t cs ig ret static batch) = concat (map (\<lambda>r. map (insert_value static r) cs) batch)"
  by (simp add: insert_statement_def Let_def)

lemma length_tuples: "length (concat (map (\<lambda>r. map (f r) cs) batch)) = length batch * length cs"
  by (induction batch) simp_all

lemma insert_statement_woven:
  "woven (fst (insert_statement t cs ig ret static batch)) 1 (length (snd (insert_statement t cs ig ret static batch)))"
proof -
  have "woven (fst (insert_statement t cs ig ret static batch)) 1 (length batch * length cs)"
    unfolding insert_statement_def Let_def fst_conv
    by (rule woven_prefix, rule woven_prefix, rule woven_prefix, rule woven_prefix, rule woven_prefix, rule woven_suffix,
      rule woven_tuples)
  then show ?thesis unfolding insert_params length_tuples .
qed

lemma update_statement_woven:
  assumes "\<And>q. p = Some q \<Longrightarrow> raw_free q"
  shows "woven (fst (update_statement t cs p ws ret r)) 1 (length (snd (update_statement t cs p ws ret r)))"
proof (cases p)
  case None
  have "woven (set_list cs 1 @ '' WHERE '' @ where_list ws (1 + int (length cs)) @ returning_clause ret) 1 (length cs + length ws)"
    by (rule woven_append [OF woven_set_list], rule woven_prefix, rule woven_suffix, rule woven_where_list)
  then have "woven (''UPDATE '' @ qi t @ '' SET '' @ set_list cs 1 @ '' WHERE '' @ where_list ws (1 + int (length cs)) @ returning_clause ret)
    1 (length cs + length ws)" by (rule woven_prefix [OF woven_prefix [OF woven_prefix]])
  with None show ?thesis by (simp add: update_statement_def Let_def add.commute)
next
  case (Some q)
  let ?p = "predicateToSQL q (1 + int (length cs))"
  have "woven (set_list cs 1 @ '' WHERE '' @ sq_sql ?p @ returning_clause ret) 1 (length cs + length (sq_params ?p))"
    by (rule woven_append [OF woven_set_list], rule woven_prefix, rule woven_suffix, rule predicate_woven, rule assms, rule Some)
  then have "woven (''UPDATE '' @ qi t @ '' SET '' @ set_list cs 1 @ '' WHERE '' @ sq_sql ?p @ returning_clause ret)
    1 (length cs + length (sq_params ?p))" by (rule woven_prefix [OF woven_prefix [OF woven_prefix]])
  with Some show ?thesis by (simp add: update_statement_def Let_def add.commute)
qed

lemma delete_statement_woven:
  "woven (fst (delete_statement t ws ret r)) 1 (length (snd (delete_statement t ws ret r)))"
  unfolding delete_statement_def fst_conv snd_conv
  by (rule woven_prefix, rule woven_prefix, rule woven_prefix, rule woven_suffix, rule woven_delete_terms)

section \<open>What reaches the database\<close>

text \<open>The statements an action has sent by its end, after those sent before it.\<close>

definition sends :: "('w, 'a) action \<Rightarrow> 'w \<times> sentLog \<Rightarrow> sentLog" where
  "sends act s = drop (length (snd s)) (snd (snd (act s)))"

lemma run_statements_sent:
  "\<exists>n \<le> length qs. snd (snd (run_statements db qs s)) = snd s @ take n qs \<and>
     (fst (run_statements db qs s) = Inr () \<longrightarrow> n = length qs)"
proof (induction db qs s rule: run_statements.induct)
  case (2 db sql ps qs s)
  obtain w sent where s: "s = (w, sent)" by fastforce
  obtain rr w' where r: "sd_query db sql ps w = (rr, w')" by fastforce
  show ?case
  proof (cases rr)
    case (Inl e)
    then show ?thesis by (intro exI [of _ 1]) (simp add: rawQuery_def s r)
  next
    case (Inr rep)
    then have q: "rawQuery db sql ps s = (Inr rep, w', sent @ [(sql, ps)])" by (simp add: rawQuery_def s r)
    from 2 [OF q [symmetric] refl] obtain n where "n \<le> length qs"
      "snd (snd (run_statements db qs (w', sent @ [(sql, ps)]))) = sent @ [(sql, ps)] @ take n qs"
      "fst (run_statements db qs (w', sent @ [(sql, ps)])) = Inr () \<longrightarrow> n = length qs" by auto
    with q s show ?thesis by (intro exI [of _ "Suc n"]) simp
  qed
qed simp

text \<open>A transaction sends what its body sends, or nothing, and returns only when its body does.\<close>

lemma rollback_sent [simp]: "snd (snd (rollback db e s)) = snd s"
  by (cases s) (auto simp: rollback_def split: prod.splits sum.splits)

lemma rollback_fails [simp]: "fst (rollback db e s) \<noteq> Inr x"
  by (cases s) (auto simp: rollback_def split: prod.splits sum.splits)

lemma transaction_cases:
  "(snd (snd (transaction db act (w, sent))) = sent \<and> (\<exists>e. fst (transaction db act (w, sent)) = Inl e)) \<or>
   (\<exists>w1. snd (snd (transaction db act (w, sent))) = snd (snd (act (w1, sent))) \<and>
      (\<forall>v. fst (transaction db act (w, sent)) = Inr v \<longrightarrow> fst (act (w1, sent)) = Inr v))"
proof -
  obtain c w1 where c: "sd_connect db w = (c, w1)" by fastforce
  obtain b w2 where b: "sd_client db ''BEGIN'' w1 = (b, w2)" by fastforce
  obtain v w3 sent3 where v: "act (w2, sent) = (v, w3, sent3)" by (metis prod_cases3)
  obtain d w4 where d: "sd_client db ''COMMIT'' w3 = (d, w4)" by fastforce
  show ?thesis
  proof (cases "c = Inr () \<and> b = Inr ()")
    case True
    then have t: "transaction db act (w, sent) = (case v of Inl e \<Rightarrow> rollback db e (w3, sent3)
        | Inr x \<Rightarrow> (case d of Inl e \<Rightarrow> rollback db e (w4, sent3) | Inr _ \<Rightarrow> (Inr x, sd_release db w4, sent3)))"
      by (simp add: transaction_def c b v d split: sum.splits)
    have "snd (snd (transaction db act (w, sent))) = sent3" unfolding t by (simp split: sum.splits)
    moreover have "v = Inr x" if "fst (transaction db act (w, sent)) = Inr x" for x
      using that unfolding t by (cases v; cases d) auto
    ultimately show ?thesis using v by (intro disjI2 exI [of _ w2]) auto
  next
    case False
    then have "snd (snd (transaction db act (w, sent))) = sent \<and> fst (transaction db act (w, sent)) \<noteq> Inr x" for x
      by (cases c; cases b) (auto simp: transaction_def c b)
    then show ?thesis by (metis sum.exhaust)
  qed
qed

text \<open>So what a transaction over a list of statements sends is a beginning of the list, and all of it when it returns.\<close>

lemma transaction_sends:
  "\<exists>n \<le> length qs. sends (transaction db (run_statements db qs)) s = take n qs \<and>
     (fst (transaction db (run_statements db qs) s) = Inr () \<longrightarrow> n = length qs)"
proof -
  obtain w sent where s: "s = (w, sent)" by fastforce
  from transaction_cases [of db "run_statements db qs" w sent] show ?thesis
  proof (elim disjE exE conjE)
    fix e
    assume "snd (snd (transaction db (run_statements db qs) (w, sent))) = sent"
      and "fst (transaction db (run_statements db qs) (w, sent)) = Inl e"
    then show ?thesis by (intro exI [of _ 0]) (simp add: sends_def s)
  next
    fix w1
    assume w1: "snd (snd (transaction db (run_statements db qs) (w, sent))) = snd (snd (run_statements db qs (w1, sent)))"
      "\<forall>v. fst (transaction db (run_statements db qs) (w, sent)) = Inr v \<longrightarrow> fst (run_statements db qs (w1, sent)) = Inr v"
    from run_statements_sent [of qs db "(w1, sent)"] obtain n where "n \<le> length qs"
      "snd (snd (run_statements db qs (w1, sent))) = sent @ take n qs"
      "fst (run_statements db qs (w1, sent)) = Inr () \<longrightarrow> n = length qs" by auto
    with w1 show ?thesis by (intro exI [of _ n]) (simp add: sends_def s)
  qed
qed

lemma transaction_fails:
  fixes act :: "('w, 'a) action"
  assumes "act = fail_with e"
  shows "sends (transaction db act) s = [] \<and> (\<exists>e'. fst (transaction db act s) = Inl e')"
proof -
  obtain w sent where s: "s = (w, sent)" by fastforce
  from transaction_cases [of db act w sent] assms have
    "snd (snd (transaction db act (w, sent))) = sent" "\<not> (\<exists>v. fst (transaction db act (w, sent)) = Inr v)"
    by (auto simp: fail_with_def)
  then show ?thesis by (cases "fst (transaction db act (w, sent))") (simp_all add: sends_def s)
qed


lemma sends_failed [simp]: "sends (transaction db (fail_with e)) s = []"
  using transaction_fails [OF refl] by blast

section \<open>Inserts\<close>

lemma sends_runInsert:
  assumes "size_of b = Some n"
  shows "\<exists>k \<le> length (chunks n rows). sends (runInsert db t cs rows ig b ret static) s =
      take k (map (insert_statement t (all_columns cs static) ig ret static) (chunks n rows)) \<and>
     (fst (runInsert db t cs rows ig b ret static s) = Inr () \<longrightarrow> k = length (chunks n rows))"
  using transaction_sends [of "map (insert_statement t (all_columns cs static) ig ret static) (chunks n rows)" db s] assms
  by (simp add: runInsert_def)

lemma size_of_pos: "size_of b = Some n \<Longrightarrow> 0 < n"
  by (cases b) (auto simp: size_of_def split: if_splits)

lemma chunks_size: "c \<in> set (chunks n xs) \<Longrightarrow> length c \<le> n"
proof (induction n xs rule: chunks.induct)
  case (1 n xs)
  then show ?case by (subst (asm) (2) chunks.simps) (auto split: if_splits)
qed

text \<open>
  C26: an insert writes every row exactly once and in order.  Whatever the batch size, a run that returns has sent
  statements whose parameters, one after the other, are the values of the columns of all the rows in the order of the
  rows; no statement carries more rows than the batch size; and in each the placeholders \<^verbatim>\<open>$1\<close>, \<^verbatim>\<open>$2\<close>, ... stand in
  the order of the parameters, as many as there are.
\<close>

theorem insert_writes_each_row_once:
  assumes "size_of b = Some n"
  shows "(fst (runInsert db t cs rows ig b ret static s) = Inr () \<longrightarrow>
      concat (map snd (sends (runInsert db t cs rows ig b ret static) s)) =
        concat (map (\<lambda>r. map (insert_value static r) (all_columns cs static)) rows)) \<and>
    (\<forall>q \<in> set (sends (runInsert db t cs rows ig b ret static) s).
      length (snd q) \<le> n * length (all_columns cs static) \<and> woven (fst q) 1 (length (snd q)))"
proof -
  let ?st = "insert_statement t (all_columns cs static) ig ret static"
  from sends_runInsert [OF assms] obtain k where k:
    "sends (runInsert db t cs rows ig b ret static) s = take k (map ?st (chunks n rows))"
    "fst (runInsert db t cs rows ig b ret static s) = Inr () \<longrightarrow> k = length (chunks n rows)" by blast
  have all: "concat (map snd (map ?st bs)) = concat (map (\<lambda>r. map (insert_value static r) (all_columns cs static)) (concat bs))" for bs
    by (induction bs) (simp_all add: insert_params)
  have each: "length (snd q) \<le> n * length (all_columns cs static) \<and> woven (fst q) 1 (length (snd q))"
    if "q \<in> set (map ?st (chunks n rows))" for q
  proof -
    from that obtain c where c: "c \<in> set (chunks n rows)" "q = ?st c" by auto
    from chunks_size [OF c(1)] insert_statement_woven show ?thesis
      unfolding c(2) insert_params length_tuples [of _ "all_columns cs static" c] by (simp add: insert_params length_tuples)
  qed
  show ?thesis
    using k all [of "chunks n rows"] concat_chunks [OF size_of_pos [OF assms], of rows] each
    by (auto dest: in_set_takeD)
qed

definition quiet_db :: "unit sqlDatabase" where
  "quiet_db = \<lparr>sd_query = (\<lambda>sql ps w. (Inr \<lparr>rp_rows = [], rp_rowCount = 0\<rparr>, w)), sd_connect = (\<lambda>w. (Inr (), w)),
     sd_client = (\<lambda>sql w. (Inr (), w)), sd_release = (\<lambda>w. w)\<rparr>"

lemma quiet_db_runs: "run_statements quiet_db qs s = (Inr (), (), snd s @ qs)"
proof (induction qs arbitrary: s)
  case (Cons q qs)
  then show ?case by (cases q; cases s) (simp add: rawQuery_def quiet_db_def)
qed (simp add: prod_eq_iff)

lemma quiet_db_control [simp]: "sd_connect quiet_db w = (Inr (), w)" "sd_client quiet_db sql w = (Inr (), w)" "sd_release quiet_db w = w"
  by (simp_all add: quiet_db_def)

lemma insert_writes_each_row_once_witness:
  "fst (runInsert quiet_db ''t'' [''a''] [[(''a'', JStr ''x'')], [(''a'', JStr ''y'')]] False (Fin 1) None None ((), [])) = Inr () \<and>
   concat (map snd (sends (runInsert quiet_db ''t'' [''a''] [[(''a'', JStr ''x'')], [(''a'', JStr ''y'')]] False (Fin 1) None None) ((), []))) =
     [JStr ''x'', JStr ''y'']"
proof -
  have s: "size_of (Fin 1) = Some 1" by (simp add: size_of_def)
  have r: "fst (runInsert quiet_db ''t'' [''a''] [[(''a'', JStr ''x'')], [(''a'', JStr ''y'')]] False (Fin 1) None None ((), [])) = Inr ()"
    by (simp add: runInsert_def s transaction_def quiet_db_runs)
  with insert_writes_each_row_once [OF s, of quiet_db "''t''" "[''a'']" "[[(''a'', JStr ''x'')], [(''a'', JStr ''y'')]]" False None None "((), [])"]
  show ?thesis by (simp add: insert_value_def all_columns_def row_get_def)
qed

section \<open>Updates and deletes\<close>

lemma take_map_in: "q \<in> set (take n (map f xs)) \<Longrightarrow> \<exists>x \<in> set xs. q = f x"
  using set_take_subset [of n "map f xs"] by (force simp del: set_take_subset)

lemma sends_runUpdate:
  assumes "q \<in> set (sends (runUpdate db t cols rows ws ret pl) s)"
  obtains r vs where "ws = Some vs" and "r \<in> set rows"
    and "q = update_statement t (filter (\<lambda>c. c \<notin> set vs) cols) (where_predicate pl) vs ret r"
    and "filter (\<lambda>c. c \<notin> set vs) cols \<noteq> []" and "where_predicate pl = None \<longrightarrow> vs \<noteq> []"
proof (cases ws)
  case None
  then have "sends (runUpdate db t cols rows ws ret pl) s = []"
    unfolding runUpdate_def by simp
  with assms show ?thesis by simp
next
  case (Some vs)
  let ?cs = "filter (\<lambda>c. c \<notin> set vs) cols"
  show ?thesis
  proof (cases "missing_where ''UPDATE'' t vs rows = None \<and> ?cs \<noteq> [] \<and> \<not> (where_predicate pl = None \<and> vs = [] \<and> (wp_mode pl = WUpdate \<or> rows \<noteq> []))")
    case False
    then have "\<exists>e. runUpdate db t cols rows ws ret pl = transaction db (fail_with e)"
      by (auto simp: runUpdate_def Some Let_def split: option.splits)
    with assms show ?thesis by auto
  next
    case True
    then have g: "missing_where ''UPDATE'' t vs rows = None" "(?cs = []) = False"
      "(where_predicate pl = None \<and> vs = [] \<and> (wp_mode pl = WUpdate \<or> rows \<noteq> [])) = False" by blast+
    have u: "runUpdate db t cols rows ws ret pl =
        transaction db (run_statements db (map (update_statement t ?cs (where_predicate pl) vs ret) rows))"
      by (simp only: runUpdate_def Some option.case g Let_def if_False)
    obtain n where n: "sends (runUpdate db t cols rows ws ret pl) s = take n (map (update_statement t ?cs (where_predicate pl) vs ret) rows)"
      using transaction_sends [of "map (update_statement t ?cs (where_predicate pl) vs ret) rows" db s] unfolding u by blast
    from take_map_in [OF assms [unfolded n]] obtain r where r: "r \<in> set rows" "q = update_statement t ?cs (where_predicate pl) vs ret r" by blast
    from r(1) have "rows \<noteq> []" by auto
    with that [OF Some r] True show ?thesis by blast
  qed
qed

lemma sends_runDelete:
  assumes "q \<in> set (sends (runDelete db t rows ws ret) s)"
  obtains r vs where "ws = Some vs" and "vs \<noteq> []" and "r \<in> set rows" and "q = delete_statement t vs ret r"
proof (cases "\<exists>vs. ws = Some vs \<and> vs \<noteq> [] \<and> missing_where ''DELETE'' t vs rows = None")
  case False
  then have "\<exists>e. runDelete db t rows ws ret = transaction db (fail_with e)"
    by (auto simp: runDelete_def Let_def split: option.splits)
  with assms show ?thesis by auto
next
  case True
  then obtain vs where vs: "ws = Some vs" "vs \<noteq> []" "missing_where ''DELETE'' t vs rows = None" by blast
  then have u: "runDelete db t rows ws ret = transaction db (run_statements db (map (delete_statement t vs ret) rows))"
    by (simp add: runDelete_def)
  obtain n where n: "sends (runDelete db t rows ws ret) s = take n (map (delete_statement t vs ret) rows)"
    using transaction_sends [of "map (delete_statement t vs ret) rows" db s] unfolding u by blast
  from take_map_in [OF assms [unfolded n]] obtain r where "r \<in> set rows" "q = delete_statement t vs ret r" by blast
  with that vs show ?thesis by blast
qed

lemma delete_terms_Nil: "delete_terms r cs i = [] \<longleftrightarrow> cs = []"
  by (cases cs) simp_all

text \<open>
  no statement changes a table as a whole.  Every UPDATE that is sent assigns at least one column, and its WHERE is
  either that of the static condition, with its parameters, or compares at least one WHERE column with the row the
  statement is for; every DELETE names at least one WHERE column.  In each the placeholders stand in the order of the
  parameters, as many as there are (a predicate given as literal text is trusted to number its own).
\<close>

theorem updates_and_deletes_are_restricted:
  "(\<forall>q \<in> set (sends (runUpdate db t cols rows ws ret pl) s). \<exists>r \<in> set rows. \<exists>sets wh ps.
      sets \<noteq> [] \<and> set sets \<subseteq> set cols - set (opt_list ws) \<and>
      q = (''UPDATE '' @ qi t @ '' SET '' @ set_list sets 1 @ '' WHERE '' @ wh @ returning_clause ret, map (row_get r) sets @ ps) \<and>
      (case where_predicate pl of
         Some p \<Rightarrow> wh = sq_sql (predicateToSQL p (int (length sets) + 1)) \<and> ps = sq_params (predicateToSQL p (int (length sets) + 1))
       | None \<Rightarrow> opt_list ws \<noteq> [] \<and> wh = where_list (opt_list ws) (int (length sets) + 1) \<and> ps = map (row_get r) (opt_list ws)) \<and>
      (wp_wherePredicate pl = None \<longrightarrow> woven (fst q) 1 (length (snd q)))) \<and>
   (\<forall>q \<in> set (sends (runDelete db t rows ws ret) s). \<exists>r \<in> set rows. opt_list ws \<noteq> [] \<and> delete_terms r (opt_list ws) 1 \<noteq> [] \<and>
      q = (''DELETE FROM '' @ qi t @ '' WHERE '' @ join_str '' AND '' (delete_terms r (opt_list ws) 1) @ returning_clause ret,
        filter present (map (row_get r) (opt_list ws))) \<and> woven (fst q) 1 (length (snd q)))"
proof (intro conjI ballI)
  fix q
  assume "q \<in> set (sends (runUpdate db t cols rows ws ret pl) s)"
  then obtain r vs where q: "ws = Some vs" "r \<in> set rows" "filter (\<lambda>c. c \<notin> set vs) cols \<noteq> []" "where_predicate pl = None \<longrightarrow> vs \<noteq> []"
      "q = update_statement t (filter (\<lambda>c. c \<notin> set vs) cols) (where_predicate pl) vs ret r" by (rule sends_runUpdate)
  let ?cs = "filter (\<lambda>c. c \<notin> set vs) cols"
  let ?b = "case where_predicate pl of
      Some p \<Rightarrow> (sq_sql (predicateToSQL p (int (length ?cs) + 1)), sq_params (predicateToSQL p (int (length ?cs) + 1)))
    | None \<Rightarrow> (where_list vs (int (length ?cs) + 1), map (row_get r) vs)"
  have form: "q = (''UPDATE '' @ qi t @ '' SET '' @ set_list ?cs 1 @ '' WHERE '' @ fst ?b @ returning_clause ret, map (row_get r) ?cs @ snd ?b)"
    unfolding q(5) update_statement_def Let_def by (simp add: case_prod_beta split: option.splits)
  have w: "woven (fst q) 1 (length (snd q))" if "wp_wherePredicate pl = None"
    unfolding q(5) using that by (intro update_statement_woven) (auto simp: where_predicate_def dest: built_raw_free)
  show "\<exists>r \<in> set rows. \<exists>sets wh ps. sets \<noteq> [] \<and> set sets \<subseteq> set cols - set (opt_list ws) \<and>
      q = (''UPDATE '' @ qi t @ '' SET '' @ set_list sets 1 @ '' WHERE '' @ wh @ returning_clause ret, map (row_get r) sets @ ps) \<and>
      (case where_predicate pl of
         Some p \<Rightarrow> wh = sq_sql (predicateToSQL p (int (length sets) + 1)) \<and> ps = sq_params (predicateToSQL p (int (length sets) + 1))
       | None \<Rightarrow> opt_list ws \<noteq> [] \<and> wh = where_list (opt_list ws) (int (length sets) + 1) \<and> ps = map (row_get r) (opt_list ws)) \<and>
      (wp_wherePredicate pl = None \<longrightarrow> woven (fst q) 1 (length (snd q)))"
    apply (rule bexI [OF _ q(2)], rule exI [of _ ?cs], rule exI [of _ "fst ?b"], rule exI [of _ "snd ?b"])
    apply (intro conjI)
    using form q(3) apply simp_all
    using q(1,4) w by (auto split: option.splits)
next
  fix q
  assume "q \<in> set (sends (runDelete db t rows ws ret) s)"
  then obtain r vs where q: "ws = Some vs" "vs \<noteq> []" "r \<in> set rows" "q = delete_statement t vs ret r" by (rule sends_runDelete)
  with delete_statement_woven [of t vs ret r] delete_terms_Nil [of r vs 1]
  show "\<exists>r \<in> set rows. opt_list ws \<noteq> [] \<and> delete_terms r (opt_list ws) 1 \<noteq> [] \<and>
      q = (''DELETE FROM '' @ qi t @ '' WHERE '' @ join_str '' AND '' (delete_terms r (opt_list ws) 1) @ returning_clause ret,
        filter present (map (row_get r) (opt_list ws))) \<and> woven (fst q) 1 (length (snd q))"
    by (intro bexI [OF _ q(3)]) (simp add: delete_statement_def)
qed

section \<open>Transactions that fail\<close>


text \<open>A table that takes one row and refuses the next.\<close>

definition small_db :: "jsval list sqlDatabase" where
  "small_db = \<lparr>sd_query = (\<lambda>sql ps w. if w = [] then (Inr \<lparr>rp_rows = [], rp_rowCount = 1\<rparr>, ps) else (Inl (PlainError ''full''), w)),
     sd_connect = (\<lambda>w. (Inr (), w)), sd_client = (\<lambda>sql w. (Inr (), w)), sd_release = (\<lambda>w. w)\<rparr>"


end
