(* ===== verification/BuiltSchema.thy ===== *)
theory BuiltSchema
  imports SchemaConfig QueryAst Payloads
begin

text \<open>
  Schemas built from DDL: what \<open>src/src/schema/DDLParser.ts\<close> keeps of a table and its graph of foreign keys,
  the traits \<open>TraitInferencer.ts\<close> gives the columns, their classification for a session in
  \<open>ColumnClassifier.ts\<close>, and the schema over several data sources of \<open>MultiSourceSchemaBuilder.ts\<close>.

  The SQL parser itself is a package; the model starts from the tables it has been turned into.  A \<open>Map\<close> is
  an ordered store.  Values are ASCII where letters change case.
\<close>

section \<open>Tables\<close>

record rawColumn =
  rc_name :: string
  rc_type :: string
  rc_nullable :: bool
  rc_primaryKey :: bool
  rc_unique :: bool
  rc_defaultRaw :: "string option"
  rc_checkRaw :: "string option"

record rawForeignKey =
  rf_column :: string
  rf_refTable :: string
  rf_refColumn :: string
  rf_onDelete :: string

record rawTable =
  rt_columns :: "(string \<times> rawColumn) list"
  rt_foreignKeys :: "rawForeignKey list"
  rt_uniqueConstraints :: "string list list"

datatype checkKind = CkEnum "string list" | CkRange int int | CkBoolean | CkRaw string

record fkEdge =
  ge_fromTable :: string
  ge_fromColumn :: string
  ge_toTable :: string
  ge_toColumn :: string
  ge_onDelete :: string

record fkGraph =
  fg_outbound :: "(string \<times> fkEdge list) list"
  fg_inbound :: "(string \<times> fkEdge list) list"

record parsedSchema =
  pd_tables :: "(string \<times> rawTable) list"
  pd_constraints :: "(string \<times> checkKind) list"
  pd_fkGraph :: fkGraph

section \<open>Check constraints\<close>

text \<open>The regular expressions, tried at every place of the text.\<close>

fun first_match :: "(string \<Rightarrow> 'a option) \<Rightarrow> string \<Rightarrow> 'a option" where
  "first_match m [] = m []"
| "first_match m (c # cs) = (case m (c # cs) of Some r \<Rightarrow> Some r | None \<Rightarrow> first_match m cs)"

definition after_word :: "string \<Rightarrow> string \<Rightarrow> string option" where
  "after_word w s = (if map ascii_upper (take (length w) s) = w then Some (drop (length w) s) else None)"

definition skip_spaces :: "string \<Rightarrow> string" where
  "skip_spaces s = dropWhile is_space s"

definition after_spaces :: "string \<Rightarrow> string option" where
  "after_spaces s = (case s of c # _ \<Rightarrow> if is_space c then Some (skip_spaces s) else None | [] \<Rightarrow> None)"

definition leading_number :: "string \<Rightarrow> (int \<times> string) option" where
  "leading_number s = (let ds = takeWhile is_digit s in if ds = [] then None else Some (digits_val ds, dropWhile is_digit s))"

definition match_in :: "string \<Rightarrow> string option" where
  "match_in s = (case after_word ''IN'' s of None \<Rightarrow> None
     | Some r \<Rightarrow> (case skip_spaces r of
         c # cs \<Rightarrow> if c = CHR ''('' \<and> takeWhile (\<lambda>x. x \<noteq> CHR '')'') cs \<noteq> [] \<and> CHR '')'' \<in> set cs
           then Some (takeWhile (\<lambda>x. x \<noteq> CHR '')'') cs) else None
       | [] \<Rightarrow> None))"

definition match_between :: "string \<Rightarrow> (int \<times> int) option" where
  "match_between s = Option.bind (after_word ''BETWEEN'' s) (\<lambda>a. Option.bind (after_spaces a) (\<lambda>b.
     Option.bind (leading_number b) (\<lambda>(lo, c). Option.bind (after_spaces c) (\<lambda>d. Option.bind (after_word ''AND'' d) (\<lambda>e.
     Option.bind (after_spaces e) (\<lambda>f. map_option (\<lambda>(hi, _). (lo, hi)) (leading_number f)))))))"

definition is_quote :: "char \<Rightarrow> bool" where
  "is_quote c \<longleftrightarrow> c = CHR 0x27 \<or> c = CHR 0x22"

definition strip_quotes :: "string \<Rightarrow> string" where
  "strip_quotes s = (let t = (case s of c # cs \<Rightarrow> if is_quote c then cs else s | [] \<Rightarrow> []) in
     if t \<noteq> [] \<and> is_quote (List.last t) then butlast t else t)"

definition match_boolean :: "string \<Rightarrow> unit option" where
  "match_boolean s = (case match_in s of
     Some inner \<Rightarrow> if map trim (split_on CHR '','' inner) \<in> {[''0'', ''1''], [''1'', ''0'']} then Some () else None
   | None \<Rightarrow> None)"

definition classifyCheckConstraint :: "string \<Rightarrow> checkKind" where
  "classifyCheckConstraint raw = (case first_match match_in raw of
     Some inner \<Rightarrow> (let values = map (\<lambda>v. strip_quotes (trim v)) (split_on CHR '','' inner) in
       if values = [''0'', ''1''] \<or> values = [''1'', ''0''] then CkBoolean else CkEnum values)
   | None \<Rightarrow> (case first_match match_between raw of
       Some (lo, hi) \<Rightarrow> CkRange lo hi
     | None \<Rightarrow> if first_match match_boolean raw \<noteq> None then CkBoolean else CkRaw raw))"

definition column_key :: "string \<Rightarrow> string \<Rightarrow> string" where
  "column_key t c = t @ ''.'' @ c"

definition build_constraints :: "(string \<times> rawTable) list \<Rightarrow> (string \<times> checkKind) list" where
  "build_constraints ts = foldl (\<lambda>m (k, v). al_set k v m) []
     (concat (map (\<lambda>(t, d). concat (map (\<lambda>(c, col). case rc_checkRaw col of None \<Rightarrow> []
        | Some raw \<Rightarrow> [(column_key t c, classifyCheckConstraint raw)]) (rt_columns d))) ts))"

section \<open>The graph of foreign keys\<close>

definition edge_of :: "string \<Rightarrow> rawForeignKey \<Rightarrow> fkEdge" where
  "edge_of t fk = \<lparr>ge_fromTable = t, ge_fromColumn = rf_column fk, ge_toTable = lower_ascii (rf_refTable fk),
     ge_toColumn = rf_refColumn fk, ge_onDelete = rf_onDelete fk\<rparr>"

definition edges_get :: "(string \<times> fkEdge list) list \<Rightarrow> string \<Rightarrow> fkEdge list" where
  "edges_get m t = (case map_of m t of None \<Rightarrow> [] | Some es \<Rightarrow> es)"

definition edges_push :: "string \<Rightarrow> fkEdge \<Rightarrow> (string \<times> fkEdge list) list \<Rightarrow> (string \<times> fkEdge list) list" where
  "edges_push t e m = al_set t (edges_get m t @ [e]) m"

definition add_edge :: "fkGraph \<Rightarrow> fkEdge \<Rightarrow> fkGraph" where
  "add_edge g e = \<lparr>fg_outbound = edges_push (ge_fromTable e) e (fg_outbound g),
     fg_inbound = edges_push (ge_toTable e) e (fg_inbound g)\<rparr>"

definition build_graph :: "(string \<times> rawTable) list \<Rightarrow> fkGraph" where
  "build_graph ts = foldl add_edge \<lparr>fg_outbound = [], fg_inbound = []\<rparr>
     (concat (map (\<lambda>(t, d). map (edge_of t) (rt_foreignKeys d)) ts))"

definition getOutbound :: "fkGraph \<Rightarrow> string \<Rightarrow> fkEdge list" where
  "getOutbound g t = edges_get (fg_outbound g) t"

definition getInbound :: "fkGraph \<Rightarrow> string \<Rightarrow> fkEdge list" where
  "getInbound g t = edges_get (fg_inbound g) t"

definition getReferencedBy :: "fkGraph \<Rightarrow> string \<Rightarrow> string list" where
  "getReferencedBy g t = map ge_fromTable (edges_get (fg_inbound g) t)"

definition getReferences :: "fkGraph \<Rightarrow> string \<Rightarrow> string list" where
  "getReferences g t = map ge_toTable (edges_get (fg_outbound g) t)"

text \<open>Steps 4 and 5 of \<^verbatim>\<open>parseSchema\<close>.\<close>

definition finish_schema :: "(string \<times> rawTable) list \<Rightarrow> parsedSchema" where
  "finish_schema ts = \<lparr>pd_tables = ts, pd_constraints = build_constraints ts, pd_fkGraph = build_graph ts\<rparr>"

definition aggregate_names :: "string list" where
  "aggregate_names = [''subtotal'', ''tax_total'', ''discount_total'', ''grand_total'', ''line_total'', ''total_amount'',
     ''total_price'', ''total_rows'', ''success_rows'', ''failed_rows'']"

definition isChildAggregateColumn :: "string \<Rightarrow> string \<Rightarrow> fkGraph \<Rightarrow> bool" where
  "isChildAggregateColumn t c g \<longleftrightarrow> c \<in> set aggregate_names \<and> getInbound g t \<noteq> []"

definition getEnumValues :: "string \<Rightarrow> string \<Rightarrow> (string \<times> checkKind) list \<Rightarrow> string list option" where
  "getEnumValues t c cs = (case map_of cs (column_key t c) of Some (CkEnum vs) \<Rightarrow> Some vs | _ \<Rightarrow> None)"

definition getConditionalDependency ::
    "string \<Rightarrow> string \<Rightarrow> (string \<times> rawTable) list \<Rightarrow> (string \<times> checkKind) list \<Rightarrow> (string \<times> string) option" where
  "getConditionalDependency t c ts cs = (case map_of ts t of None \<Rightarrow> None
     | Some d \<Rightarrow> if \<not> al_has ''status'' (rt_columns d) then None else (case getEnumValues t ''status'' cs of None \<Rightarrow> None
       | Some vs \<Rightarrow>
           if prefix ''resolved_'' c \<and> ''resolved'' \<in> set vs then Some (''status'', ''resolved'')
           else if prefix ''closed_'' c \<and> ''closed'' \<in> set vs then Some (''status'', ''closed'')
           else if c = ''actual_close_date'' \<and> ''won'' \<in> set vs then Some (''status'', ''won'')
           else if c = ''loss_reason'' \<and> ''lost'' \<in> set vs then Some (''status'', ''lost'')
           else if c = ''converted_at'' \<and> list_ex (\<lambda>(n, col). prefix ''converted_'' n \<and> rc_type col = ''INT'') (rt_columns d)
             then Some (''status'', ''converted'')
           else None))"

section \<open>Traits\<close>

datatype columnTrait = ServerGenerated | SessionScoped | SystemAudited | SoftDeleteMarker | ImmutableAfterInsert
  | ConditionalRequired | ComputedFromChildren | UserSupplied

record colTraits =
  tr_trait :: "columnTrait option"
  tr_resolvedValue :: jsval
  tr_immutable :: "bool option"
  tr_confidence :: "string option"
  tr_anchor :: "string option"
  tr_condition :: "(string \<times> string) option"
  tr_enumValues :: "string list option"
  tr_range :: "(int \<times> int) option"
  tr_foreignKey :: "(string \<times> string \<times> string) option"
  tr_unique :: bool
  tr_default :: "string option"

definition no_traits :: colTraits where
  "no_traits = \<lparr>tr_trait = None, tr_resolvedValue = JUndef, tr_immutable = None, tr_confidence = None, tr_anchor = None,
     tr_condition = None, tr_enumValues = None, tr_range = None, tr_foreignKey = None, tr_unique = False, tr_default = None\<rparr>"

definition sql_functions :: "string list" where
  "sql_functions = [''NOW()'', ''CURRENT_TIMESTAMP'', ''CURRENT_DATE'', ''CURRENT_USER'', ''GEN_RANDOM_UUID()'']"

definition isSqlExpression :: "string \<Rightarrow> bool" where
  "isSqlExpression raw \<longleftrightarrow> (let s = map ascii_upper (trim raw) in
     list_ex (\<lambda>f. prefix f s) sql_functions \<or> contains ''NEXTVAL('' s)"

definition sql_default :: "rawColumn \<Rightarrow> bool" where
  "sql_default col \<longleftrightarrow> (case rc_defaultRaw col of None \<Rightarrow> False | Some d \<Rightarrow> d \<noteq> [] \<and> isSqlExpression d)"

definition db_owned :: "rawColumn \<Rightarrow> bool" where
  "db_owned col \<longleftrightarrow> rc_primaryKey col \<or> rc_type col = ''SERIAL''"

definition marker_names :: "string list" where
  "marker_names = [''deleted_at'', ''archived_at'', ''deactivated_at'', ''removed_at'']"

text \<open>The exclusive rules after those of the database: the trait and the fields a rule sets with it.\<close>

definition rule_traits :: "parsedSchema \<Rightarrow> string list \<Rightarrow> string \<Rightarrow> string \<Rightarrow> rawColumn \<Rightarrow> rawForeignKey option \<Rightarrow> colTraits \<Rightarrow> colTraits" where
  "rule_traits p anchors t c col fk tr = (let ref = map_option (\<lambda>f. lower_ascii (rf_refTable f)) fk in
     if ref \<noteq> None \<and> the ref \<in> set anchors then tr\<lparr>tr_trait := Some SessionScoped, tr_anchor := ref\<rparr>
     else if ref = Some ''users'' \<and> c \<in> {''created_by_user_id'', ''updated_by_user_id''} then tr\<lparr>tr_trait := Some SystemAudited\<rparr>
     else if c \<in> set marker_names \<and> rc_nullable col \<and> rc_type col = ''TIMESTAMPTZ''
       then tr\<lparr>tr_trait := Some SoftDeleteMarker, tr_resolvedValue := JNull\<rparr>
     else if isChildAggregateColumn t c (pd_fkGraph p) then tr\<lparr>tr_trait := Some ComputedFromChildren\<rparr>
     else (case getConditionalDependency t c (pd_tables p) (pd_constraints p) of
         None \<Rightarrow> tr | Some cd \<Rightarrow> tr\<lparr>tr_trait := Some ConditionalRequired, tr_condition := Some cd\<rparr>))"

definition default_trait :: "rawColumn \<Rightarrow> bool \<Rightarrow> colTraits \<Rightarrow> colTraits" where
  "default_trait col keyed tr = (if tr_trait tr = None
     then tr\<lparr>tr_trait := Some UserSupplied,
       tr_confidence := Some (if \<not> rc_nullable col \<and> rc_defaultRaw col = None \<and> \<not> keyed then ''low'' else ''high'')\<rparr>
     else tr\<lparr>tr_confidence := Some ''high''\<rparr>)"

definition column_metadata :: "parsedSchema \<Rightarrow> string \<Rightarrow> string \<Rightarrow> rawColumn \<Rightarrow> rawForeignKey option \<Rightarrow> colTraits \<Rightarrow> colTraits" where
  "column_metadata p t c col fk tr = (let ck = map_of (pd_constraints p) (column_key t c) in
     tr\<lparr>tr_enumValues := (case ck of Some (CkEnum vs) \<Rightarrow> Some vs | _ \<Rightarrow> None),
        tr_range := (case ck of Some (CkRange lo hi) \<Rightarrow> Some (lo, hi) | _ \<Rightarrow> None),
        tr_foreignKey := map_option (\<lambda>f. (rf_refTable f, rf_refColumn f, rf_onDelete f)) fk,
        tr_unique := rc_unique col, tr_default := rc_defaultRaw col\<rparr>)"

definition column_traits :: "parsedSchema \<Rightarrow> string list \<Rightarrow> string \<Rightarrow> rawTable \<Rightarrow> string \<Rightarrow> rawColumn \<Rightarrow> colTraits" where
  "column_traits p anchors t d c col =
     (if db_owned col then no_traits\<lparr>tr_trait := Some ServerGenerated\<rparr>
      else if sql_default col then no_traits\<lparr>tr_trait := Some ServerGenerated, tr_resolvedValue := JStr (the (rc_defaultRaw col)),
        tr_immutable := (if c \<in> {''created_at'', ''updated_at''} then Some True else None)\<rparr>
      else (let fk = find (\<lambda>f. rf_column f = c) (rt_foreignKeys d);
          created = (if prefix ''created_'' c then no_traits\<lparr>tr_trait := Some ImmutableAfterInsert, tr_immutable := Some True\<rparr> else no_traits)
        in column_metadata p t c col fk (default_trait col (fk \<noteq> None) (rule_traits p anchors t c col fk created))))"

type_synonym traitMap = "(string \<times> (string \<times> colTraits) list) list"

definition inferTraits :: "parsedSchema \<Rightarrow> string list \<Rightarrow> traitMap" where
  "inferTraits p anchors = map (\<lambda>(t, d). (t, map (\<lambda>(c, col). (c, column_traits p anchors t d c col)) (rt_columns d))) (pd_tables p)"

record builtSchema =
  bt_parsed :: parsedSchema
  bt_traits :: traitMap

definition build_schema :: "(string \<times> rawTable) list \<Rightarrow> string list \<Rightarrow> builtSchema" where
  "build_schema ts anchors = (let p = finish_schema ts in \<lparr>bt_parsed = p, bt_traits = inferTraits p anchors\<rparr>)"

section \<open>Classification\<close>

record classification =
  cf_trait :: columnTrait
  cf_resolvedValue :: jsval
  cf_immutable :: bool
  cf_confidence :: string
  cf_enumValues :: "string list option"
  cf_range :: "(int \<times> int) option"
  cf_foreignKey :: "(string \<times> string \<times> string) option"
  cf_condition :: "(string \<times> string) option"

record sessionIds =
  sx_userId :: jsval
  sx_anchorIds :: row

datatype classifyMode = ForInsert | ForUpdate

definition resolved_value :: "sessionIds \<Rightarrow> colTraits \<Rightarrow> jsval" where
  "resolved_value s raw = (if tr_trait raw = Some SessionScoped \<and> tr_anchor raw \<noteq> None \<and> the (tr_anchor raw) \<noteq> []
       then row_get (sx_anchorIds s) (the (tr_anchor raw))
     else if tr_trait raw = Some SystemAudited then sx_userId s
     else tr_resolvedValue raw)"

definition column_type :: "parsedSchema \<Rightarrow> string \<Rightarrow> string \<Rightarrow> string option" where
  "column_type p t c = (case map_of (pd_tables p) t of None \<Rightarrow> None
     | Some d \<Rightarrow> (case map_of (rt_columns d) c of None \<Rightarrow> None
       | Some col \<Rightarrow> Some (if rc_type col = [] then ''TEXT'' else map ascii_upper (rc_type col))))"

definition as_column :: "parsedSchema \<Rightarrow> string \<Rightarrow> string \<Rightarrow> jsval \<Rightarrow> jsval" where
  "as_column p t c v = (case v of
       JNum n \<Rightarrow> if column_type p t c \<in> {Some ''TEXT'', Some ''VARCHAR'', Some ''CHARACTER VARYING''} then JStr (js_string v) else v
     | _ \<Rightarrow> v)"

definition classify_traits :: "builtSchema \<Rightarrow> sessionIds \<Rightarrow> classifyMode \<Rightarrow> string \<Rightarrow> string \<Rightarrow> colTraits \<Rightarrow> classification" where
  "classify_traits b s m t c raw = (let imm = (tr_immutable raw = Some True) in
     \<lparr>cf_trait = (if m = ForUpdate \<and> imm then ImmutableAfterInsert
        else case tr_trait raw of None \<Rightarrow> UserSupplied | Some k \<Rightarrow> k),
      cf_resolvedValue = as_column (bt_parsed b) t c (resolved_value s raw),
      cf_immutable = imm, cf_confidence = (case tr_confidence raw of None \<Rightarrow> ''high'' | Some k \<Rightarrow> k),
      cf_enumValues = tr_enumValues raw, cf_range = tr_range raw, cf_foreignKey = tr_foreignKey raw, cf_condition = tr_condition raw\<rparr>)"

definition classifyColumn :: "string \<Rightarrow> string \<Rightarrow> builtSchema \<Rightarrow> sessionIds \<Rightarrow> classifyMode \<Rightarrow> classification option" where
  "classifyColumn t c b s m = (case map_of (bt_traits b) t of None \<Rightarrow> None
     | Some ts \<Rightarrow> map_option (classify_traits b s m t c) (map_of ts c))"

definition classifyAllColumns :: "string \<Rightarrow> builtSchema \<Rightarrow> sessionIds \<Rightarrow> classifyMode \<Rightarrow> (string \<times> classification) list" where
  "classifyAllColumns t b s m = (case map_of (bt_traits b) t of None \<Rightarrow> []
     | Some ts \<Rightarrow> foldl (\<lambda>acc (c, _). case classifyColumn t c b s m of None \<Rightarrow> acc | Some k \<Rightarrow> al_set c k acc) [] ts)"

definition injected :: "string \<times> classification \<Rightarrow> bool" where
  "injected = (\<lambda>(_, k). cf_trait k \<notin> {UserSupplied, SoftDeleteMarker, ComputedFromChildren} \<and>
     cf_resolvedValue k \<noteq> JUndef \<and> cf_resolvedValue k \<noteq> JNum NaN)"

definition getAutoResolvedValues :: "(string \<times> classification) list \<Rightarrow> row" where
  "getAutoResolvedValues cs = foldl (\<lambda>r (c, k). row_set c (cf_resolvedValue k) r) [] (filter injected cs)"

definition getUserSuppliedRequired :: "(string \<times> classification) list \<Rightarrow> row \<Rightarrow> string list option \<Rightarrow> (string \<times> classification) list" where
  "getUserSuppliedRequired cs given resolved =
     filter (\<lambda>(c, k). cf_trait k = UserSupplied \<and> row_get given c = JUndef \<and> c \<notin> set (opt_list resolved)) cs"

definition getBlockedOnUpdate :: "(string \<times> classification) list \<Rightarrow> string list" where
  "getBlockedOnUpdate cs = map fst (filter (\<lambda>(c, k). cf_immutable k) cs)"

definition buildIntentExclusionList :: "(string \<times> classification) list \<Rightarrow> string list" where
  "buildIntentExclusionList cs = map fst (filter (\<lambda>(c, k). cf_trait k \<noteq> UserSupplied) cs)"

section \<open>Several data sources\<close>

record ('b, 'q) dataSource =
  dx_name :: string
  dx_displayName :: string
  dx_backend :: "'b option"
  dx_pool :: "'q option"
  dx_schema :: "builtSchema option"

record crossKey =
  ck_fromTable :: string
  ck_fromColumn :: string
  ck_toDatasource :: string
  ck_toTable :: string
  ck_toColumn :: string

record ('b, 'q) sourceRegistry =
  sr_sources :: "(string \<times> ('b, 'q) dataSource) list"
  sr_crossKeys :: "(string \<times> crossKey) list"

definition register_source :: "('b, 'q) sourceRegistry \<Rightarrow> ('b, 'q) dataSource \<Rightarrow> ('b, 'q) sourceRegistry res" where
  "register_source r d = (if al_has (dx_name d) (sr_sources r)
     then Inl (PlainError (''DataSourceRegistry: datasource '' @ dx_name d @ '' already registered''))
     else Inr (r\<lparr>sr_sources := al_set (dx_name d) d (sr_sources r)\<rparr>))"

definition get_source :: "('b, 'q) sourceRegistry \<Rightarrow> string \<Rightarrow> ('b, 'q) dataSource option" where
  "get_source r n = map_of (sr_sources r) n"

definition getBackend :: "('b, 'q) sourceRegistry \<Rightarrow> string \<Rightarrow> 'b option" where
  "getBackend r n = Option.bind (get_source r n) dx_backend"

definition getPool :: "('b, 'q) sourceRegistry \<Rightarrow> string \<Rightarrow> 'q option" where
  "getPool r n = Option.bind (get_source r n) dx_pool"

definition declareCrossDatasourceFKs :: "('b, 'q) sourceRegistry \<Rightarrow> crossKey list \<Rightarrow> ('b, 'q) sourceRegistry" where
  "declareCrossDatasourceFKs r ks = r\<lparr>sr_crossKeys :=
     foldl (\<lambda>m k. al_set (column_key (ck_fromTable k) (ck_fromColumn k)) k m) (sr_crossKeys r) ks\<rparr>"

definition resolveCrossDatasourceFK :: "('b, 'q) sourceRegistry \<Rightarrow> string \<Rightarrow> string \<Rightarrow> crossKey option" where
  "resolveCrossDatasourceFK r t c = map_of (sr_crossKeys r) (column_key t c)"

definition getCrossDatasourceFKsForTable :: "('b, 'q) sourceRegistry \<Rightarrow> string \<Rightarrow> crossKey list" where
  "getCrossDatasourceFKsForTable r t = filter (\<lambda>k. ck_fromTable k = t) (map snd (sr_crossKeys r))"

record multiSchema =
  mx_schemas :: "(string \<times> builtSchema) list"
  mx_routing :: "(string \<times> string) list"

definition add_source :: "multiSchema \<Rightarrow> ('b, 'q) dataSource \<Rightarrow> multiSchema" where
  "add_source m d = (case dx_schema d of None \<Rightarrow> m
     | Some b \<Rightarrow> \<lparr>mx_schemas = al_set (dx_name d) b (mx_schemas m),
         mx_routing = foldl (\<lambda>r t. al_set t (dx_name d) r) (mx_routing m) (map fst (pd_tables (bt_parsed b)))\<rparr>)"

definition buildMultiSourceSchema :: "('b, 'q) dataSource list \<Rightarrow> multiSchema" where
  "buildMultiSourceSchema ds = foldl add_source \<lparr>mx_schemas = [], mx_routing = []\<rparr> ds"

definition routeTable :: "string \<Rightarrow> multiSchema \<Rightarrow> string" where
  "routeTable t m = (case map_of (mx_routing m) t of None \<Rightarrow> ''default'' | Some s \<Rightarrow> if s = [] then ''default'' else s)"

text \<open>
  The column types of the combined schema are objects \<^verbatim>\<open>{ kind: 'TEXT' }\<close> that no type of the engine matches; \<open>ty\<close>
  stands for the unchecked cast.
\<close>

definition combined_column :: "(string \<Rightarrow> engineType) \<Rightarrow> string \<times> rawColumn \<Rightarrow> columnConfig" where
  "combined_column ty = (\<lambda>(c, col). \<lparr>cc_name = c, cc_type = ty (rc_type col), cc_nullable = rc_nullable col, cc_hasDefault = None,
     cc_isGenerated = None, cc_defaultValue = None, cc_primaryKey = Some (rc_primaryKey col), cc_description = None, cc_examples = None\<rparr>)"

definition combined_table :: "(string \<Rightarrow> engineType) \<Rightarrow> ('b, 'q) sourceRegistry \<Rightarrow> string \<Rightarrow> string \<Rightarrow> rawTable \<Rightarrow> tableConfig" where
  "combined_table ty reg ds t d = \<lparr>tc_name = t, tc_alias = None, tc_description = None,
     tc_columns = map (combined_column ty) (rt_columns d),
     tc_primaryKey = map fst (filter (\<lambda>(c, col). rc_primaryKey col) (rt_columns d)),
     tc_datasource = Some ds, tc_displayName = Some (case get_source reg ds of None \<Rightarrow> ds | Some x \<Rightarrow> dx_displayName x)\<rparr>"

definition cross_keys :: "foreignKey list" where
  "cross_keys = map (\<lambda>(c, t). \<lparr>fk_fromTable = ''projects'', fk_fromColumn = c, fk_toTable = t, fk_toColumn = ''id'', fk_description = None\<rparr>)
     [(''crm_account_id'', ''accounts''), (''crm_opportunity_id'', ''opportunities''), (''crm_contact_id'', ''contacts'')]"

text \<open>A parsed schema has no property \<^verbatim>\<open>foreignKeys\<close>, so the loop over it adds nothing.\<close>

definition parsed_foreignKeys :: "parsedSchema \<Rightarrow> foreignKey list option" where
  "parsed_foreignKeys p = None"

definition buildCombinedSchemaConfig :: "(string \<Rightarrow> engineType) \<Rightarrow> multiSchema \<Rightarrow> ('b, 'q) sourceRegistry \<Rightarrow> schemaConfig" where
  "buildCombinedSchemaConfig ty m reg =
     (let tables = foldl (\<lambda>acc (ds, b). foldl (\<lambda>acc (t, d). al_set t (combined_table ty reg ds t d) acc) acc (pd_tables (bt_parsed b)))
            [] (mx_schemas m);
          own = concat (map (\<lambda>(_, b). opt_list (parsed_foreignKeys (bt_parsed b))) (mx_schemas m))
      in \<lparr>sc_tables = tables,
          sc_foreignKeys = own @ filter (\<lambda>fk. al_has (fk_fromTable fk) tables \<and> al_has (fk_toTable fk) tables) cross_keys,
          sc_version = ''1.0'', sc_description = Some (''Combined: '' @ join_str '', '' (map fst (mx_schemas m)))\<rparr>)"

end
