(* ===== verification/ForeignKeys.thy ===== *)
theory ForeignKeys
  imports WriteRuns BuiltSchema
begin

text \<open>
  \<open>src/src/write/FKValidator.ts\<close>: the check, before a write, that the values of its foreign keys exist; and
  \<open>coerceColumnValue.ts\<close>, the conversion of a literal to the type of its column.

  A pool is a database of \<open>WriteSql\<close> of which only the query is used.  A query that fails is logged and skipped
  by the code, as it is here.
\<close>

section \<open>The check of foreign keys\<close>

record fkRef =
  fr_column :: string
  fr_value :: jsval
  fr_refColumn :: string

record fkViolation =
  fv_column :: string
  fv_value :: jsval
  fv_refTable :: string
  fv_refColumn :: string
  fv_message :: string

definition violation :: "string \<Rightarrow> fkRef \<Rightarrow> fkViolation" where
  "violation t r = \<lparr>fv_column = fr_column r, fv_value = fr_value r, fv_refTable = t, fv_refColumn = fr_refColumn r,
     fv_message = fr_column r @ '': '' @ t @ '' with '' @ fr_refColumn r @ '' = '' @ js_string (fr_value r) @ '' does not exist''\<rparr>"

definition unchecked_traits :: "columnTrait option list" where
  "unchecked_traits = [Some SessionScoped, Some ServerGenerated, Some SystemAudited]"

definition checked_ref :: "string \<Rightarrow> (string \<times> colTraits) list \<Rightarrow> string \<times> jsval \<Rightarrow> (string \<times> fkRef) option" where
  "checked_ref t ts = (\<lambda>(c, v).
     if \<not> present v \<or> v = JStr ''NOW()'' \<or> v = JStr ''CURRENT_TIMESTAMP'' then None
     else (case map_of ts c of None \<Rightarrow> None
       | Some tr \<Rightarrow> (case tr_foreignKey tr of None \<Rightarrow> None
         | Some (refTable, refCol, _) \<Rightarrow> if refTable = t \<or> tr_trait tr \<in> set unchecked_traits then None
             else Some (refTable, \<lparr>fr_column = c, fr_value = v, fr_refColumn = refCol\<rparr>))))"

definition group_ref :: "(string \<times> fkRef list) list \<Rightarrow> string \<times> fkRef \<Rightarrow> (string \<times> fkRef list) list" where
  "group_ref m = (\<lambda>(t, r). al_set t ((case map_of m t of None \<Rightarrow> [] | Some rs \<Rightarrow> rs) @ [r]) m)"

definition group_refs :: "(string \<times> fkRef) list \<Rightarrow> (string \<times> fkRef list) list" where
  "group_refs rs = foldl group_ref [] rs"

definition batch_sql :: "string \<Rightarrow> string \<Rightarrow> string" where
  "batch_sql t c = ''SELECT '' @ Session.dq c @ '' FROM '' @ Session.dq t @ '' '' @ CHR 0x0A # ''           WHERE '' @ Session.dq c @ '' = ANY($1)''"

definition single_sql :: "string \<Rightarrow> string \<Rightarrow> string" where
  "single_sql t c = ''SELECT 1 FROM '' @ Session.dq t @ '' WHERE '' @ Session.dq c @ '' = $1 LIMIT 1''"

definition check_batch :: "'w sqlDatabase \<Rightarrow> string \<Rightarrow> string \<Rightarrow> fkRef list \<Rightarrow> 'w \<times> sentLog \<Rightarrow> fkViolation list \<times> 'w \<times> sentLog" where
  "check_batch db t c refs s = (case rawQuery db (batch_sql t c) [JArr (map fr_value refs)] s of
       (Inl _, s') \<Rightarrow> ([], s')
     | (Inr rep, s') \<Rightarrow> (let found = map (\<lambda>r. js_string (row_get r c)) (rp_rows rep)
         in (map (violation t) (filter (\<lambda>r. js_string (fr_value r) \<notin> set found) refs), s')))"

fun check_singles :: "'w sqlDatabase \<Rightarrow> string \<Rightarrow> fkRef list \<Rightarrow> 'w \<times> sentLog \<Rightarrow> fkViolation list \<times> 'w \<times> sentLog" where
  "check_singles db t [] s = ([], s)"
| "check_singles db t (r # rs) s = (case rawQuery db (single_sql t (fr_refColumn r)) [fr_value r] s of
       (Inl _, s') \<Rightarrow> check_singles db t rs s'
     | (Inr rep, s') \<Rightarrow> (let (vs, s'') = check_singles db t rs s'
         in ((if rp_rowCount rep = 0 then [violation t r] else []) @ vs, s'')))"

definition check_table :: "'w sqlDatabase \<Rightarrow> string \<Rightarrow> fkRef list \<Rightarrow> 'w \<times> sentLog \<Rightarrow> fkViolation list \<times> 'w \<times> sentLog" where
  "check_table db t refs s = (let c = fr_refColumn (hd refs) in
     if list_all (\<lambda>r. fr_refColumn r = c) refs \<and> length refs > 1 then check_batch db t c refs s else check_singles db t refs s)"

fun check_tables :: "'w sqlDatabase \<Rightarrow> (string \<times> fkRef list) list \<Rightarrow> 'w \<times> sentLog \<Rightarrow> fkViolation list \<times> 'w \<times> sentLog" where
  "check_tables db [] s = ([], s)"
| "check_tables db ((t, refs) # ts) s = (let (vs, s') = check_table db t refs s; (ws, s'') = check_tables db ts s' in (vs @ ws, s''))"

definition validateForeignKeys ::
    "('b, 'w sqlDatabase) sourceRegistry \<Rightarrow> writePayload \<Rightarrow> builtSchema \<Rightarrow> 'w sqlDatabase \<Rightarrow> ('w, fkViolation list) action" where
  "validateForeignKeys reg p b pool s = (if wp_mode p = WDelete then (Inr [], s)
     else (case (if wp_datasource p \<noteq> [] then getPool reg (wp_datasource p) else Some pool) of
         None \<Rightarrow> (Inl (PlainError (''[FKValidator] No pool found for datasource: '' @ wp_datasource p)), s)
       | Some db \<Rightarrow> (case map_of (bt_traits b) (wp_table p) of None \<Rightarrow> (Inr [], s)
         | Some ts \<Rightarrow> (let (vs, s') = check_tables db
               (group_refs (List.map_filter (checked_ref (wp_table p) ts) (opt_list (wp_staticValues p)))) s
             in (Inr vs, s')))))"

section \<open>Coercion to a column type\<close>

text \<open>
  \<open>host_date\<close> stands for \<^verbatim>\<open>Date.parse\<close>: whether the engine takes the text for a date.  \<open>coerce_text\<close> is the
  case of a string, \<open>coerceColumnValue\<close> the function.
\<close>

definition number_types :: "string list" where
  "number_types = [''INT'', ''INTEGER'', ''SERIAL'', ''BIGINT'', ''REAL'']"

definition coerce_enum :: "string list \<Rightarrow> string \<Rightarrow> jsval res" where
  "coerce_enum vs raw = (case find (\<lambda>v. lower_ascii v = lower_ascii raw) vs of
       Some v \<Rightarrow> if v = [] then Inl (PlainError (''Invalid value '' @ Session.dq raw @ '' for enum column. Valid values: '' @
           join_str '', '' (map quoted vs))) else Inr (JStr v)
     | None \<Rightarrow> Inl (PlainError (''Invalid value '' @ Session.dq raw @ '' for enum column. Valid values: '' @ join_str '', '' (map quoted vs))))"

definition coerce_text :: "(string \<Rightarrow> bool) \<Rightarrow> string \<Rightarrow> string \<Rightarrow> string list \<Rightarrow> jsval res" where
  "coerce_text host_date s columnType enumValues = (let raw = str_trim s; t = map ascii_upper columnType in
     if t \<in> set number_types \<or> prefix ''NUMERIC'' t then
       (if js_number (JStr raw) = NaN then Inl (PlainError (''Expected number for type '' @ columnType @ '', got: '' @ Session.dq raw))
        else Inr (JNum (js_number (JStr raw))))
     else if t = ''BOOLEAN'' then
       (if lower_ascii raw \<in> {''true'', ''1'', ''yes''} then Inr (JBool True)
        else if lower_ascii raw \<in> {''false'', ''0'', ''no''} then Inr (JBool False)
        else Inl (PlainError (''Expected boolean, got: '' @ Session.dq raw)))
     else if t = ''TIMESTAMPTZ'' \<or> t = ''DATE'' then
       (if raw = ''NOW()'' \<or> raw = ''CURRENT_TIMESTAMP'' \<or> host_date raw then Inr (JStr raw)
        else Inl (PlainError (''Expected date/timestamp, got: '' @ Session.dq raw)))
     else if enumValues \<noteq> [] then coerce_enum enumValues raw
     else Inr (JStr raw))"

definition coerceColumnValue :: "(string \<Rightarrow> bool) \<Rightarrow> jsval \<Rightarrow> string \<Rightarrow> string list option \<Rightarrow> jsval res" where
  "coerceColumnValue host_date v columnType enumValues = (case v of
       JStr s \<Rightarrow> coerce_text host_date s columnType (opt_list enumValues)
     | JNum n \<Rightarrow> Inr v
     | JBool b \<Rightarrow> Inr v
     | _ \<Rightarrow> Inl (Unmodelled ''coerceColumnValue of another type''))"

section \<open>What the check finds\<close>

text \<open>
  A database that answers from a fixed store: \<open>stored t c\<close> are the values of column \<open>c\<close> of table \<open>t\<close>.
  The batch query gives the rows whose value is asked for, the single query at most one row.
\<close>

definition answers_from :: "'w sqlDatabase \<Rightarrow> (string \<Rightarrow> string \<Rightarrow> jsval list) \<Rightarrow> bool" where
  "answers_from db stored \<longleftrightarrow>
     (\<forall>t c vs w. \<exists>n. sd_query db (batch_sql t c) [JArr vs] w =
        (Inr \<lparr>rp_rows = map (\<lambda>v. [(c, v)]) (filter (\<lambda>v. js_string v \<in> js_string ` set vs) (stored t c)), rp_rowCount = n\<rparr>, w)) \<and>
     (\<forall>t c v w. \<exists>rs. sd_query db (single_sql t c) [v] w =
        (Inr \<lparr>rp_rows = rs, rp_rowCount = (if js_string v \<in> js_string ` set (stored t c) then 1 else 0)\<rparr>, w))"

definition dangling :: "(string \<Rightarrow> string \<Rightarrow> jsval list) \<Rightarrow> string \<times> fkRef \<Rightarrow> bool" where
  "dangling stored = (\<lambda>(t, r). js_string (fr_value r) \<notin> js_string ` set (stored t (fr_refColumn r)))"

lemma check_batch_finds:
  assumes "answers_from db stored" and "\<forall>r \<in> set refs. fr_refColumn r = c"
  shows "fst (check_batch db t c refs s) = map (violation t) (filter (\<lambda>r. dangling stored (t, r)) refs)"
proof -
  obtain w sent where s: "s = (w, sent)" by fastforce
  obtain n where q: "sd_query db (batch_sql t c) [JArr (map fr_value refs)] w = (Inr \<lparr>rp_rows =
      map (\<lambda>v. [(c, v)]) (filter (\<lambda>v. js_string v \<in> js_string ` set (map fr_value refs)) (stored t c)), rp_rowCount = n\<rparr>, w)"
    using assms(1) unfolding answers_from_def by blast
  have "js_string (fr_value r) \<in> js_string ` {v \<in> set (stored t c). js_string v \<in> js_string ` fr_value ` set refs} \<longleftrightarrow>
      js_string (fr_value r) \<in> js_string ` set (stored t c)" if "r \<in> set refs" for r
    using that by (auto simp: image_iff) metis
  then have "filter (\<lambda>r. js_string (fr_value r) \<notin> js_string ` {v \<in> set (stored t c). js_string v \<in> js_string ` fr_value ` set refs}) refs =
      filter (\<lambda>r. dangling stored (t, r)) refs"
    using assms(2) by (intro filter_cong [OF refl]) (simp add: dangling_def)
  then show ?thesis by (simp add: check_batch_def rawQuery_def s q Let_def image_image del: filter_filter)
qed

lemma check_singles_finds:
  assumes "answers_from db stored"
  shows "fst (check_singles db t refs s) = map (violation t) (filter (\<lambda>r. dangling stored (t, r)) refs)"
proof (induction refs arbitrary: s)
  case (Cons r refs)
  obtain w sent where s: "s = (w, sent)" by fastforce
  obtain rs where q: "sd_query db (single_sql t (fr_refColumn r)) [fr_value r] w = (Inr \<lparr>rp_rows = rs, rp_rowCount =
      (if js_string (fr_value r) \<in> js_string ` set (stored t (fr_refColumn r)) then 1 else 0)\<rparr>, w)"
    using assms unfolding answers_from_def by blast
  let ?n = "if js_string (fr_value r) \<in> js_string ` set (stored t (fr_refColumn r)) then 1 else 0 :: int"
  have raw: "rawQuery db (single_sql t (fr_refColumn r)) [fr_value r] s =
      (Inr \<lparr>rp_rows = rs, rp_rowCount = ?n\<rparr>, w, sent @ [(single_sql t (fr_refColumn r), [fr_value r])])"
    by (simp add: rawQuery_def s q)
  obtain vs s' where c: "check_singles db t refs (w, sent @ [(single_sql t (fr_refColumn r), [fr_value r])]) = (vs, s')"
    by (rule prod.exhaust)
  from Cons.IH [of "(w, sent @ [(single_sql t (fr_refColumn r), [fr_value r])])"] show ?case by (simp add: raw c dangling_def)
qed simp

lemma check_table_finds:
  assumes "answers_from db stored"
  shows "fst (check_table db t refs s) = map (violation t) (filter (\<lambda>r. dangling stored (t, r)) refs)"
  using check_batch_finds [OF assms, of refs "fr_refColumn (hd refs)"] check_singles_finds [OF assms]
  by (auto simp: check_table_def Let_def list_all_iff)

lemma check_tables_finds:
  assumes "answers_from db stored"
  shows "fst (check_tables db gs s) = concat (map (\<lambda>(t, refs). map (violation t) (filter (\<lambda>r. dangling stored (t, r)) refs)) gs)"
proof (induction gs arbitrary: s)
  case (Cons g gs)
  obtain t refs where g: "g = (t, refs)" by fastforce
  obtain vs s' where a: "check_table db t refs s = (vs, s')" by (rule prod.exhaust)
  obtain ws s'' where b: "check_tables db gs s' = (ws, s'')" by (rule prod.exhaust)
  from check_table_finds [OF assms, of t refs s] Cons.IH [of s'] show ?case by (simp add: g a b)
qed simp

text \<open>Grouping keeps every reference, under its table.\<close>

definition grouped :: "(string \<times> fkRef list) list \<Rightarrow> (string \<times> fkRef) set" where
  "grouped gs = {(t, r). \<exists>rs. (t, rs) \<in> set gs \<and> r \<in> set rs}"

lemma distinct_group_ref: "distinct (map fst m) \<Longrightarrow> distinct (map fst (group_ref m x))"
  by (cases x) (simp add: group_ref_def)

lemma in_store_iff: "distinct (map fst m) \<Longrightarrow> (k, v) \<in> set m \<longleftrightarrow> map_of m k = Some v"
  by (auto simp: map_of_eq_Some_iff)

lemma grouped_add:
  assumes "distinct (map fst m)"
  shows "grouped (group_ref m (t, r)) = insert (t, r) (grouped m)"
proof -
  have d: "distinct (map fst (group_ref m (t, r)))" by (rule distinct_group_ref [OF assms])
  show ?thesis
    unfolding grouped_def in_store_iff [OF assms] in_store_iff [OF d]
    by (auto simp: group_ref_def split: option.splits if_splits)
qed

lemma grouped_fold: "distinct (map fst m) \<Longrightarrow> grouped (foldl group_ref m rs) = grouped m \<union> set rs"
proof (induction rs arbitrary: m)
  case (Cons x rs)
  then show ?case using grouped_add [of m] distinct_group_ref [of m x] by (cases x) auto
qed simp

lemma grouped_refs: "grouped (group_refs rs) = set rs"
  unfolding group_refs_def by (simp add: grouped_fold) (simp add: grouped_def)

text \<open>
  C32: on a database that answers from a store, the check reports exactly the dangling references among the static values
  it looks at: a violation for a value of a foreign-key column that no row of the referenced table has in the
  referenced column, and none for any other -- in particular none for columns that are only filled from rows, for a
  table that refers to itself, and for the columns of the session.
\<close>

theorem fk_violations_exact:
  assumes "answers_from db stored" and "wp_mode p \<noteq> WDelete" and "wp_datasource p = []"
    and "map_of (bt_traits b) (wp_table p) = Some ts"
  shows "\<exists>vs. fst (validateForeignKeys reg p b db s) = Inr vs \<and>
    set vs = {violation t r | t r e. e \<in> set (opt_list (wp_staticValues p)) \<and>
      checked_ref (wp_table p) ts e = Some (t, r) \<and> dangling stored (t, r)}"
proof -
  let ?gs = "group_refs (List.map_filter (checked_ref (wp_table p) ts) (opt_list (wp_staticValues p)))"
  have "set (fst (check_tables db ?gs s)) = {violation t r | t r. (t, r) \<in> grouped ?gs \<and> dangling stored (t, r)}"
    unfolding check_tables_finds [OF assms(1)] grouped_def by fastforce
  also have "\<dots> = {violation t r | t r e. e \<in> set (opt_list (wp_staticValues p)) \<and>
      checked_ref (wp_table p) ts e = Some (t, r) \<and> dangling stored (t, r)}"
    unfolding grouped_refs by (force simp: List.map_filter_def)
  finally have found: "set (fst (check_tables db ?gs s)) = {violation t r | t r e. e \<in> set (opt_list (wp_staticValues p)) \<and>
      checked_ref (wp_table p) ts e = Some (t, r) \<and> dangling stored (t, r)}" .
  have "fst (validateForeignKeys reg p b db s) = Inr (fst (check_tables db ?gs s))"
    using assms(2-4) by (simp add: validateForeignKeys_def case_prod_beta Let_def)
  with found show ?thesis by blast
qed

text \<open>A database without rows, and a ticket assigned to a user.\<close>

definition empty_db :: "unit sqlDatabase" where
  "empty_db = quiet_db"

definition assigned :: colTraits where
  "assigned = no_traits\<lparr>tr_trait := Some UserSupplied, tr_foreignKey := Some (''users'', ''id'', ''NO ACTION'')\<rparr>"

definition assignment :: writePayload where
  "assignment = \<lparr>wp_table = ''tickets'', wp_mode = WInsert, wp_columns = [''user_id''], wp_staticValues = Some [(''user_id'', JStr ''u3'')],
     wp_staticWhere = None, wp_wherePredicate = None, wp_conflictColumns = None, wp_updateColumns = None, wp_whereColumns = None,
     wp_returning = None, wp_batchSize = None, wp_datasource = [], wp_upstreamTables = None, wp_columnAliases = None\<rparr>"

lemma fk_violations_exact_witness:
  "\<exists>vs. fst (validateForeignKeys (\<lparr>sr_sources = [], sr_crossKeys = []\<rparr> :: (unit, unit sqlDatabase) sourceRegistry) assignment
      \<lparr>bt_parsed = finish_schema [], bt_traits = [(''tickets'', [(''user_id'', assigned)])]\<rparr> empty_db ((), [])) = Inr vs \<and>
    set vs = {violation ''users'' \<lparr>fr_column = ''user_id'', fr_value = JStr ''u3'', fr_refColumn = ''id''\<rparr>}"
proof -
  have a: "answers_from empty_db (\<lambda>_ _. [])" by (simp add: answers_from_def empty_db_def quiet_db_def)
  have c: "checked_ref ''tickets'' [(''user_id'', assigned)] (''user_id'', JStr ''u3'') =
      Some (''users'', \<lparr>fr_column = ''user_id'', fr_value = JStr ''u3'', fr_refColumn = ''id''\<rparr>)"
    by (simp add: checked_ref_def present_def assigned_def no_traits_def unchecked_traits_def)
  show ?thesis
    using fk_violations_exact [OF a, of assignment "\<lparr>bt_parsed = finish_schema [], bt_traits = [(''tickets'', [(''user_id'', assigned)])]\<rparr>"
        "[(''user_id'', assigned)]" "\<lparr>sr_sources = [], sr_crossKeys = []\<rparr>" "((), [])"] c
    by (simp add: assignment_def dangling_def)
qed

end
