(* ===== verification/WriteNode.thy ===== *)
theory WriteNode
  imports ForeignKeys
begin

text \<open>
  The write node, \<open>src/src/nodes/definitions/write-node.ts\<close>: from the payload and the rows that reach the node
  to the statements of \<open>WriteSql\<close>.

  The node changes its payload in place (upstream references, blocked columns, soft deletion), so the payload is
  part of the result, as is the session cursor.  The clock is read as one value by a write except by the
  cursor, whose two reads are two values.  Characters outside the model's alphabet in messages are written
  \<^verbatim>\<open>--\<close> (a dash) and \<^verbatim>\<open>*\<close> (a bullet).
\<close>

section \<open>Validation\<close>

definition write_mode_name :: "writeMode \<Rightarrow> string" where
  "write_mode_name m = (case m of WInsert \<Rightarrow> ''insert'' | WUpdate \<Rightarrow> ''update'' | WUpsert \<Rightarrow> ''upsert''
     | WInsertIgnore \<Rightarrow> ''insert_ignore'' | WDelete \<Rightarrow> ''delete'')"

text \<open>The errors, each its code and its message; none of them when the payload is accepted.\<close>

definition validateWrite :: "writePayload \<Rightarrow> (string \<times> string) list" where
  "validateWrite p =
     (if wp_table p = [] then [(''MISSING_TABLE'', ''WriteNode requires table'')] else []) @
     (if wp_columns p = [] \<and> wp_mode p \<noteq> WDelete
        then [(''MISSING_COLUMNS'', ''WriteNode requires columns (except for delete mode)'')] else []) @
     (if wp_mode p \<in> {WUpdate, WDelete} \<and> opt_list (wp_whereColumns p) = []
        then [(''MISSING_WHERE_COLUMNS'', ''WriteNode mode '' @ quoted (write_mode_name (wp_mode p)) @
          '' requires whereColumns to identify which rows to affect'')] else []) @
     (if wp_mode p = WUpsert \<and> opt_list (wp_conflictColumns p) = []
        then [(''MISSING_CONFLICT_COLUMNS'', ''WriteNode mode '' @ quoted ''upsert'' @ '' requires conflictColumns for ON CONFLICT clause'')] else [])"

section \<open>Rows\<close>

definition all_digits :: "string \<Rightarrow> bool" where
  "all_digits k \<longleftrightarrow> k \<noteq> [] \<and> list_all is_digit k"

definition named_fields :: "row \<Rightarrow> row" where
  "named_fields r = filter (\<lambda>(k, _). \<not> all_digits k) r"

fun extractRows :: "dataValue \<Rightarrow> row list" where
  "extractRows (DTabular rs sch) = map named_fields (rs_rows rs)"
| "extractRows (DRecord r sch) = [named_fields r]"
| "extractRows (DCollection items k) = concat (map extractRows items)"
| "extractRows _ = []"

definition input_rows :: "dataValue option \<Rightarrow> row list" where
  "input_rows v = (case v of None \<Rightarrow> [] | Some d \<Rightarrow> extractRows d)"

definition alias_field :: "writePayload \<Rightarrow> string \<Rightarrow> string option" where
  "alias_field p c = (case map_of (opt_list (wp_columnAliases p)) c of Some a \<Rightarrow> if a = [] then None else Some a | None \<Rightarrow> None)"

text \<open>\<^verbatim>\<open>getColumnValue\<close> as it is called, with \<^verbatim>\<open>isDynamicColumn\<close> true: the row, the alias, the static value.\<close>

definition getColumnValue :: "string \<Rightarrow> row \<Rightarrow> writePayload \<Rightarrow> jsval" where
  "getColumnValue c r p = (if al_has c r then row_get r c
     else case alias_field p c of
       Some a \<Rightarrow> if al_has a r then row_get r a else row_get (opt_list (wp_staticValues p)) c
     | None \<Rightarrow> row_get (opt_list (wp_staticValues p)) c)"

definition resolveColumnValue :: "writePayload \<Rightarrow> row \<Rightarrow> string \<Rightarrow> jsval" where
  "resolveColumnValue p r c = (if al_has c r then row_get r c
     else case alias_field p c of Some a \<Rightarrow> if al_has a r then row_get r a else JNull | None \<Rightarrow> JNull)"

definition resolve_now :: "string \<Rightarrow> jsval \<Rightarrow> jsval" where
  "resolve_now stamp v = (if v = JStr ''NOW()'' \<or> v = JStr ''now()'' then JStr stamp else v)"

definition merged_row :: "string \<Rightarrow> writePayload \<Rightarrow> string list \<Rightarrow> row \<Rightarrow> row" where
  "merged_row stamp p cs r = foldl (\<lambda>acc c. let v = getColumnValue c r p in
     if v = JUndef then acc else row_set c (resolve_now stamp v) acc) [] cs"

definition effective_column :: "writePayload \<Rightarrow> row \<Rightarrow> string \<Rightarrow> bool" where
  "effective_column p r c \<longleftrightarrow> (case alias_field p c of Some a \<Rightarrow> present (row_get r a) | None \<Rightarrow> False) \<or> getColumnValue c r p \<noteq> JUndef"

record preparedRows =
  pr_dataRows :: "row list"
  pr_effective :: "string list"
  pr_dynamic :: "string list"

definition prepareRows :: "string \<Rightarrow> row list \<Rightarrow> writePayload \<Rightarrow> preparedRows" where
  "prepareRows stamp rows p = (if wp_mode p = WDelete then \<lparr>pr_dataRows = rows, pr_effective = [], pr_dynamic = []\<rparr>
     else let cs = filter (\<lambda>c. \<not> all_digits c) (wp_columns p);
         data = map (merged_row stamp p cs) rows
       in \<lparr>pr_dataRows = data, pr_effective = filter (effective_column p (hd rows)) cs,
           pr_dynamic = filter (\<lambda>c. \<not> al_has c (opt_list (wp_staticValues p)) \<and> list_ex (\<lambda>r. row_get r c \<noteq> JUndef) data) cs\<rparr>)"

definition enum_value :: "builtSchema \<Rightarrow> string \<Rightarrow> string \<times> jsval \<Rightarrow> string \<times> jsval" where
  "enum_value b t = (\<lambda>(c, v). case (v, map_of (pd_constraints (bt_parsed b)) (column_key t c)) of
       (JStr s, Some (CkEnum vs)) \<Rightarrow> if lower_ascii s \<in> set vs then (c, JStr (lower_ascii s)) else (c, v)
     | _ \<Rightarrow> (c, v))"

definition normalizeEnumValues :: "builtSchema \<Rightarrow> writePayload \<Rightarrow> writePayload" where
  "normalizeEnumValues b p = p\<lparr>wp_staticValues := Some (map (enum_value b (wp_table p)) (opt_list (wp_staticValues p)))\<rparr>"

section \<open>The summary of a write\<close>

definition json_char :: "char \<Rightarrow> string" where
  "json_char c = (let n = (of_char c :: nat); hex = ''0123456789abcdef'' in
     if n = 34 \<or> n = 92 then [CHR 0x5C, c]
     else if n = 8 then CHR 0x5C # ''b'' else if n = 9 then CHR 0x5C # ''t'' else if n = 10 then CHR 0x5C # ''n''
     else if n = 12 then CHR 0x5C # ''f'' else if n = 13 then CHR 0x5C # ''r''
     else if n < 32 then CHR 0x5C # ''u00'' @ [hex ! (n div 16), hex ! (n mod 16)] else [c])"

definition json_string :: "string \<Rightarrow> string" where
  "json_string s = Session.dq (concat (map json_char s))"

fun json_text :: "jsval \<Rightarrow> string res" where
  "json_text JUndef = Inr ''null''"
| "json_text JNull = Inr ''null''"
| "json_text (JBool b) = Inr (if b then ''true'' else ''false'')"
| "json_text (JNum n) = Inr (case n of Fin q \<Rightarrow> js_string (JNum (Fin q)) | NegZero \<Rightarrow> ''0'' | _ \<Rightarrow> ''null'')"
| "json_text (JStr s) = Inr (json_string s)"
| "json_text (JArr vs) = mapRes (\<lambda>ts. ''['' @ join_str '','' ts @ '']'') (mapR json_text vs)"
| "json_text (JObj fs) = mapRes (\<lambda>ts. ''{'' @ join_str '','' ts @ ''}'')
     (mapR (\<lambda>(k, v). mapRes (\<lambda>t. json_string k @ '':'' @ t) (json_text v)) (filter (\<lambda>(k, v). v \<noteq> JUndef) fs))"
| "json_text _ = Inl (Unmodelled ''JSON.stringify'')"

definition summary_columns :: "column list" where
  "summary_columns = [Column ''table'' TAny False, Column ''operation'' TAny False, Column ''rows_affected'' TAny False,
     Column ''where'' TAny True, Column ''set'' TAny True]"

definition createWriteSummaryResult :: "string \<Rightarrow> writeMode \<Rightarrow> int \<Rightarrow> row option \<Rightarrow> row option \<Rightarrow> dataValue res" where
  "createWriteSummaryResult t m n wh st = bindR (json_text (JObj (opt_list wh))) (\<lambda>w. bindR (json_text (JObj (opt_list st))) (\<lambda>v.
     Inr (DTabular (RowSet summary_columns [[(''table'', JStr t), (''operation'', JStr (write_mode_name m)),
       (''rows_affected'', JNum (num_of_int n)), (''where'', JStr w), (''set'', JStr v)]]) summary_columns)))"

section \<open>The payload before the write\<close>

record 'w calciteClient =
  ca_insert :: "writePayload \<Rightarrow> 'w \<Rightarrow> (string \<times> string list \<times> jsval list) res \<times> 'w"
  ca_update :: "writePayload \<Rightarrow> 'w \<Rightarrow> (string \<times> string list \<times> jsval list) res \<times> 'w"
  ca_delete :: "writePayload \<Rightarrow> 'w \<Rightarrow> (string \<times> string list \<times> jsval list) res \<times> 'w"

record 'w writeEnv =
  we_backend :: "'w sqlDatabase"
  we_registry :: "('w sqlDatabase, 'w sqlDatabase) sourceRegistry"
  we_crmSchema :: builtSchema
  we_calcite :: "'w calciteClient option"
  we_context :: execContext
  we_fields :: "row option"
  we_iso :: string
  we_now :: int
  we_later :: int

text \<open>The loop over the static values; a value that is replaced stays replaced when a later one fails.\<close>

definition static_ref :: "execContext \<Rightarrow> string \<Rightarrow> jsval option res" where
  "static_ref c ref = (let (node, field) = upstream_ref ref in
     case map_of (nodeOutputs c) node of
       Some (JArr rows) \<Rightarrow> bindR (mapR (get_member field) rows) (\<lambda>vs. case filter present vs of
           [] \<Rightarrow> Inl (PlainError (''Could not resolve FK reference '' @ Session.dq ref @ '': no matching rows returned from lookup node '' @
             Session.dq node))
         | [v] \<Rightarrow> Inr (Some v)
         | values \<Rightarrow> Inl (PlainError (''Ambiguous FK resolution '' @ Session.dq ref @ '': '' @ int_string (int (length values)) @
             '' rows returned from lookup node '' @ Session.dq node)))
     | _ \<Rightarrow> Inr None)"

fun resolve_static :: "execContext \<Rightarrow> row \<Rightarrow> row \<times> unit res" where
  "resolve_static c [] = ([], Inr ())"
| "resolve_static c ((k, v) # r) = (case (case v of JStr s \<Rightarrow> if prefix ''$'' s then static_ref c s else Inr None | _ \<Rightarrow> Inr None) of
       Inl e \<Rightarrow> ((k, v) # r, Inl e)
     | Inr w \<Rightarrow> (let (r', res) = resolve_static c r in ((k, case w of None \<Rightarrow> v | Some x \<Rightarrow> x) # r', res)))"

definition resolve_references :: "execContext \<Rightarrow> writePayload \<Rightarrow> writePayload \<times> unit res" where
  "resolve_references c p = (case wp_staticValues p of None \<Rightarrow> (p, Inr ())
     | Some sv \<Rightarrow> let (sv', r) = resolve_static c sv in (p\<lparr>wp_staticValues := Some sv'\<rparr>, r))"

definition parse_int :: "string \<Rightarrow> jsnum" where
  "parse_int s = (let t = dropWhile is_space s; neg = (prefix ''-'' t); u = (if neg \<or> prefix ''+'' t then drop 1 t else t);
       ds = takeWhile is_digit u
     in if ds = [] then NaN else if neg \<and> digits_val ds = 0 then NegZero
        else num_of_int (if neg then - digits_val ds else digits_val ds))"

definition session_ids :: "execContext \<Rightarrow> sessionIds" where
  "session_ids c = \<lparr>sx_userId = (case userId c of Some u \<Rightarrow> if u = [] then JNum (Fin 1) else JNum (parse_int u) | None \<Rightarrow> JNum (Fin 1)),
     sx_anchorIds = [(''workspaces'', JNum (Fin 1))]\<rparr>"

definition strip_blocked :: "execContext \<Rightarrow> builtSchema \<Rightarrow> writePayload \<Rightarrow> writePayload" where
  "strip_blocked c b p = (if wp_mode p = WUpdate \<and> wp_table p \<noteq> [] \<and> al_has (wp_table p) (pd_tables (bt_parsed b))
     then p\<lparr>wp_staticValues := map_option (\<lambda>sv. foldl (\<lambda>r k. al_del k r) sv
         (getBlockedOnUpdate (classifyAllColumns (wp_table p) b (session_ids c) ForUpdate))) (wp_staticValues p)\<rparr>
     else p)"

definition soft_delete :: "builtSchema \<Rightarrow> writePayload \<Rightarrow> writePayload" where
  "soft_delete b p = (if wp_mode p = WDelete \<and> wp_table p \<noteq> [] then
       (case map_of (pd_tables (bt_parsed b)) (wp_table p) of None \<Rightarrow> p
        | Some d \<Rightarrow> if al_has ''deleted_at'' (rt_columns d)
          then (let sv = row_set ''deleted_at'' (JStr ''NOW()'') (opt_list (wp_staticValues p)) in
            p\<lparr>wp_mode := WUpdate, wp_staticValues := Some
              (if al_has ''updated_at'' (rt_columns d) then row_set ''updated_at'' (JStr ''NOW()'') sv else sv)\<rparr>)
          else p)
     else p)"

definition resolved_backend :: "'w writeEnv \<Rightarrow> writePayload \<Rightarrow> 'w sqlDatabase option" where
  "resolved_backend env p = (if wp_datasource p = [] then Some (we_backend env) else getBackend (we_registry env) (wp_datasource p))"

definition target_schema :: "'w writeEnv \<Rightarrow> writePayload \<Rightarrow> builtSchema" where
  "target_schema env p = (case Option.bind (get_source (we_registry env) (wp_datasource p)) dx_schema of
       Some b \<Rightarrow> b | None \<Rightarrow> we_crmSchema env)"

section \<open>Paths of a write\<close>

text \<open>Actions in sequence; \<open>then_return\<close> ends a write with a value.\<close>

definition bindA :: "('w, 'a) action \<Rightarrow> ('a \<Rightarrow> ('w, 'b) action) \<Rightarrow> ('w, 'b) action" where
  "bindA act f s = (case act s of (Inl e, s') \<Rightarrow> (Inl e, s') | (Inr v, s') \<Rightarrow> f v s')"

definition returnA :: "'a res \<Rightarrow> ('w, 'a) action" where
  "returnA r s = (r, s)"

definition static_keys :: "row option \<Rightarrow> string list" where
  "static_keys r = map fst (opt_list r)"

subsection \<open>By the session cursor\<close>

definition cursor_update :: "'w sqlDatabase \<Rightarrow> writePayload \<Rightarrow> sessionCursor \<Rightarrow> whereResult \<Rightarrow> ('w, dataValue option) action" where
  "cursor_update db p cu wh = (let sets = filter (\<lambda>c. c \<notin> set (opt_list (wp_whereColumns p))) (wp_columns p);
       sv = opt_list (wp_staticValues p);
       cols = foldl (\<lambda>acc c. set_add c acc) [] (sets @ map fst sv)
     in if sets = [] \<and> sv = [] then returnA (Inl (PlainError ''WriteNode UPDATE: no columns to SET''))
        else bindA (rawQuery db (''UPDATE '' @ Session.dq (wp_table p) @ '' SET '' @
            join_str '', '' (map (\<lambda>k. Session.dq (cols ! k) @ '' = '' @ placeholder (1 + int k)) [0..<length cols]) @ '' WHERE '' @ wr_clause wh)
            (map (\<lambda>c. if present (row_get sv c) then row_get sv c else JNull) cols @ wr_params wh))
          (\<lambda>_. returnA (mapRes Some (createWriteSummaryResult (wp_table p) (wp_mode p) (int (cu_rowCount cu)) None (Some sv)))))"

definition cursor_delete :: "'w sqlDatabase \<Rightarrow> writePayload \<Rightarrow> sessionCursor \<Rightarrow> whereResult \<Rightarrow> ('w, dataValue option) action" where
  "cursor_delete db p cu wh = bindA (rawQuery db (''DELETE FROM '' @ Session.dq (wp_table p) @ '' WHERE '' @ wr_clause wh) (wr_params wh))
     (\<lambda>_. returnA (mapRes Some (createWriteSummaryResult (wp_table p) (wp_mode p) (int (cu_rowCount cu)) None None)))"

text \<open>The cursor is cleared once the statement has run; the summary after it cannot fail in the code.\<close>

definition cursor_write :: "'w writeEnv \<Rightarrow> 'w sqlDatabase \<Rightarrow> writePayload \<Rightarrow> cursorStore option \<Rightarrow> 'w \<times> sentLog \<Rightarrow>
    (dataValue option res \<times> 'w \<times> sentLog) \<times> cursorStore option" where
  "cursor_write env db p store s = (let (found, st) = (case store of None \<Rightarrow> (None, None)
         | Some c \<Rightarrow> (let (f, c') = store_get (we_now env) c in (f, Some c')))
     in case found of
       None \<Rightarrow> ((Inl (PlainError (''WriteNode: no input rows and no session cursor available. '' @
           ''Cannot determine WHERE target for update.'')), s), st)
     | Some cu \<Rightarrow> if store_isExpired (we_later env) (the st)
         then ((Inl (PlainError ''[WriteNode] Session cursor expired -- please re-run your query to refresh context''), s), st)
         else (case buildWhereFromCursor cu 1 of
             Inl e \<Rightarrow> ((Inl e, s), st)
           | Inr wh \<Rightarrow> if wp_mode p = WUpdate \<or> wp_mode p = WDelete
               then (let (r, s') = (if wp_mode p = WUpdate then cursor_update db p cu wh s else cursor_delete db p cu wh s)
                 in ((r, s'), case r of Inr _ \<Rightarrow> Some (store_clear (the st)) | Inl _ \<Rightarrow> st))
               else ((Inl (PlainError (''WriteNode: cursor-driven execution not supported for mode '' @ quoted (write_mode_name (wp_mode p)))), s), st)))"

subsection \<open>Through Calcite\<close>

definition compile_write :: "'w calciteClient \<Rightarrow> writePayload \<Rightarrow> ('w, string \<times> string list \<times> jsval list) action" where
  "compile_write ca p = (\<lambda>(w, sent). let (r, w') = (case wp_mode p of
       WUpdate \<Rightarrow> ca_update ca p w | WDelete \<Rightarrow> ca_delete ca p w | _ \<Rightarrow> ca_insert ca p w) in (r, w', sent))"

fun run_rows :: "'w sqlDatabase \<Rightarrow> string \<Rightarrow> (row \<Rightarrow> jsval list) \<Rightarrow> row list \<Rightarrow> int \<Rightarrow> ('w, int) action" where
  "run_rows db sql f [] n s = (Inr n, s)"
| "run_rows db sql f (r # rs) n s = (case rawQuery db sql (f r) s of
       (Inl e, s') \<Rightarrow> (Inl e, s')
     | (Inr rep, s') \<Rightarrow> run_rows db sql f rs (n + rp_rowCount rep) s')"

definition without_workspace :: "row option \<Rightarrow> row" where
  "without_workspace r = filter (\<lambda>(k, _). k \<noteq> ''workspace_id'') (opt_list r)"

definition only_static_where :: "writePayload \<Rightarrow> bool" where
  "only_static_where p \<longleftrightarrow> opt_list (wp_staticWhere p) \<noteq> [] \<and> opt_list (wp_whereColumns p) = []"

definition once_params :: "writePayload \<Rightarrow> row \<Rightarrow> string list \<Rightarrow> jsval list" where
  "once_params p r cs = map (\<lambda>c. let v = row_get (opt_list (wp_staticValues p)) c; u = resolveColumnValue p r c in
     if present v then v else if present u then u else JNull) cs"

definition calcite_write :: "'w sqlDatabase \<Rightarrow> 'w calciteClient \<Rightarrow> writePayload \<Rightarrow> row list \<Rightarrow> dataValue option \<Rightarrow> ('w, dataValue option) action" where
  "calcite_write pool ca p rows input = bindA (compile_write ca p) (\<lambda>(sql, cs, static).
     if only_static_where p \<and> (wp_mode p = WUpdate \<or> wp_mode p = WDelete)
     then bindA (rawQuery pool sql (once_params p (case rows of r # _ \<Rightarrow> r | [] \<Rightarrow> []) cs @ static)) (\<lambda>rep.
       returnA (mapRes Some (createWriteSummaryResult (wp_table p) (wp_mode p) (rp_rowCount rep) (wp_staticWhere p)
         (Some (without_workspace (wp_staticValues p))))))
     else bindA (run_rows pool sql (\<lambda>r. map (resolveColumnValue p r) cs @ static) rows 0) (\<lambda>n.
       if wp_mode p = WUpdate \<or> wp_mode p = WDelete
       then returnA (mapRes Some (createWriteSummaryResult (wp_table p) (wp_mode p) n (wp_staticWhere p) (wp_staticValues p)))
       else returnA (Inr input)))"


subsection \<open>With the fields of the step\<close>

definition template_value :: "string \<Rightarrow> row \<Rightarrow> jsval \<Rightarrow> jsval" where
  "template_value stamp r v = (case v of
       JStr s \<Rightarrow> if prefix ''{{'' s \<and> suffix ''}}'' s
           then (let x = row_get r (str_trim (take (length s - 4) (drop 2 s))) in if present x then x else JNull)
           else if s = ''NOW()'' then JStr stamp else v
     | _ \<Rightarrow> v)"

definition template_row :: "string \<Rightarrow> row \<Rightarrow> row \<Rightarrow> row" where
  "template_row stamp tpl r = map (\<lambda>(k, v). (k, template_value stamp r v)) tpl"

definition batch_size :: "writePayload \<Rightarrow> jsnum" where
  "batch_size p = (case wp_batchSize p of None \<Rightarrow> Fin 100 | Some n \<Rightarrow> n)"

text \<open>The statements of a mode, for the columns to insert and the columns of the other modes.\<close>

definition run_mode :: "'w sqlDatabase \<Rightarrow> writePayload \<Rightarrow> string list \<Rightarrow> string list \<Rightarrow> row list \<Rightarrow> ('w, unit) action" where
  "run_mode db p insertColumns columns rows = (case wp_mode p of
       WInsert \<Rightarrow> runInsert db (wp_table p) insertColumns rows False (batch_size p) (wp_returning p) (wp_staticValues p)
     | WInsertIgnore \<Rightarrow> runInsert db (wp_table p) insertColumns rows True (batch_size p) (wp_returning p) (wp_staticValues p)
     | WUpdate \<Rightarrow> runUpdate db (wp_table p) columns rows (wp_whereColumns p) (wp_returning p) p
     | WUpsert \<Rightarrow> runUpsert db (wp_table p) columns rows (wp_conflictColumns p) (wp_updateColumns p) (wp_returning p)
     | WDelete \<Rightarrow> runDelete db (wp_table p) rows (wp_whereColumns p) (wp_returning p))"

definition template_write :: "string \<Rightarrow> 'w sqlDatabase \<Rightarrow> builtSchema \<Rightarrow> writePayload \<Rightarrow> row \<Rightarrow> row list \<Rightarrow> dataValue option \<Rightarrow>
    ('w, dataValue option) action" where
  "template_write stamp db b p tpl rows input =
     (let pr = prepareRows stamp (map (template_row stamp tpl) rows) ((normalizeEnumValues b p)\<lparr>wp_columns := map fst tpl\<rparr>)
      in if pr_effective pr = [] \<and> wp_mode p \<noteq> WDelete then returnA (Inr input)
         else bindA (run_mode db p (pr_effective pr) (pr_effective pr) (pr_dataRows pr)) (\<lambda>_.
           returnA (mapRes Some (createWriteSummaryResult (wp_table p) (wp_mode p) 0 (wp_staticWhere p) (wp_staticValues p)))))"

subsection \<open>By the values of the rows\<close>

definition row_expressions :: "string list" where
  "row_expressions = [''NOW()'', ''CURRENT_TIMESTAMP'', ''CURRENT_DATE'']"

definition static_expressions :: "string list" where
  "static_expressions = [''NOW()'', ''CURRENT_TIMESTAMP'', ''CURRENT_DATE'', ''CURRENT_USER'', ''gen_random_uuid()'']"

text \<open>The assignments of static values: SQL expressions go into the text, other values are parameters.\<close>

fun set_static :: "string list \<Rightarrow> int \<Rightarrow> row \<Rightarrow> string list \<times> jsval list" where
  "set_static exprs i [] = ([], [])"
| "set_static exprs i ((c, v) # r) = (case v of
       JStr s \<Rightarrow> if str_trim s \<in> set exprs
         then (let (cs, ps) = set_static exprs i r in ((Session.dq c @ '' = '' @ str_trim s) # cs, ps))
         else (let (cs, ps) = set_static exprs (i + 1) r in ((Session.dq c @ '' = '' @ placeholder i) # cs, v # ps))
     | _ \<Rightarrow> (let (cs, ps) = set_static exprs (i + 1) r in ((Session.dq c @ '' = '' @ placeholder i) # cs, v # ps)))"

definition row_where_column :: "writePayload \<Rightarrow> row list \<Rightarrow> string option" where
  "row_where_column p rows = (case (opt_list (wp_whereColumns p), rows) of
       (c # _, r # _) \<Rightarrow> if c \<noteq> [] \<and> row_get r c \<noteq> JUndef \<and> opt_list (wp_staticWhere p) = [] then Some c else None
     | _ \<Rightarrow> None)"

definition row_driven_write :: "'w sqlDatabase \<Rightarrow> writePayload \<Rightarrow> string \<Rightarrow> row list \<Rightarrow> ('w, dataValue option) action" where
  "row_driven_write db p c rows = (let values = filter present (map (\<lambda>r. row_get r c) rows);
       (sets, ps) = set_static row_expressions 1 (opt_list (wp_staticValues p))
     in if values = [] then returnA (Inl (PlainError (''[WriteNode] Row-driven UPDATE: no values found for whereColumn '' @ Session.dq c @ '' in input rows'')))
        else if sets = [] then returnA (Inl (PlainError ''[WriteNode] Row-driven UPDATE: no SET values in staticValues''))
        else bindA (rawQuery db (''UPDATE '' @ Session.dq (wp_table p) @ '' SET '' @ join_str '', '' sets @ '' WHERE '' @ Session.dq c @
            '' = ANY('' @ placeholder (1 + int (length ps)) @ '')'') (ps @ [JArr values]))
          (\<lambda>rep. returnA (mapRes Some (createWriteSummaryResult (wp_table p) WUpdate (rp_rowCount rep)
            (Some [(c, JStr (int_string (int (length values)) @ '' values''))]) (Some (without_workspace (wp_staticValues p)))))))"

subsection \<open>By a static condition\<close>

fun set_dynamic :: "row \<Rightarrow> int \<Rightarrow> string list \<Rightarrow> string list \<times> jsval list" where
  "set_dynamic r i [] = ([], [])"
| "set_dynamic r i (c # cs) = (if row_get r c = JUndef then set_dynamic r i cs
     else (let (xs, ps) = set_dynamic r (i + 1) cs in ((Session.dq c @ '' = '' @ placeholder i) # xs, row_get r c # ps)))"

definition static_update_statement :: "writePayload \<Rightarrow> writePredicate \<Rightarrow> row \<Rightarrow> string \<times> jsval list" where
  "static_update_statement p q r = (let (ds, dps) = set_dynamic r 1 (wp_columns p);
       (ss, sps) = set_static static_expressions (1 + int (length dps))
         (filter (\<lambda>(c, _). c \<notin> set (wp_columns p) \<and> \<not> al_has c (opt_list (wp_staticWhere p))) (opt_list (wp_staticValues p)));
       wh = predicateToSQL q (1 + int (length (dps @ sps)))
     in (''UPDATE '' @ Session.dq (wp_table p) @ '' SET '' @ join_str '', '' (ds @ ss) @ '' WHERE '' @ sq_sql wh, (dps @ sps) @ sq_params wh))"

definition static_update :: "'w sqlDatabase \<Rightarrow> writePayload \<Rightarrow> row list \<Rightarrow> ('w, int) action" where
  "static_update db p data = (case where_predicate p of
       None \<Rightarrow> returnA (Inl (PlainError (''UPDATE without WHERE clause is not permitted. '' @ ''Provide a filter to identify which rows to update.'')))
     | Some q \<Rightarrow> (let (sql, ps) = static_update_statement p q (case data of r # _ \<Rightarrow> r | [] \<Rightarrow> [])
         in bindA (rawQuery db sql ps) (\<lambda>rep. returnA (Inr (rp_rowCount rep)))))"

subsection \<open>The rest\<close>

definition nothing_to_write :: "writePayload \<Rightarrow> preparedRows \<Rightarrow> bool" where
  "nothing_to_write p pr \<longleftrightarrow> (if wp_mode p = WUpdate
     then (opt_list (wp_staticValues p) = [] \<and> pr_dynamic pr = []) \<or> (opt_list (wp_whereColumns p) = [] \<and> opt_list (wp_staticWhere p) = [])
     else pr_effective pr = [] \<and> wp_mode p \<noteq> WDelete \<and> wp_staticValues p = None)"

definition manual_write :: "string \<Rightarrow> 'w sqlDatabase \<Rightarrow> builtSchema \<Rightarrow> writePayload \<Rightarrow> row list \<Rightarrow> dataValue option \<Rightarrow> ('w, dataValue option) action" where
  "manual_write stamp db b p rows input = (let pr = prepareRows stamp rows (normalizeEnumValues b p) in
     case row_where_column p rows of
       Some c \<Rightarrow> row_driven_write db p c rows
     | None \<Rightarrow> if nothing_to_write p pr then returnA (Inr input)
         else bindA (if wp_mode p = WUpdate \<and> pr_dynamic pr = [] \<and> opt_list (wp_staticValues p) \<noteq> []
               then static_update db p (pr_dataRows pr)
               else bindA (run_mode db p (pr_dynamic pr) (pr_effective pr) (pr_dataRows pr)) (\<lambda>_. returnA (Inr 0)))
           (\<lambda>n. if wp_mode p = WUpdate \<or> wp_mode p = WDelete
              then returnA (mapRes Some (createWriteSummaryResult (wp_table p) (wp_mode p) n (wp_staticWhere p) (wp_staticValues p)))
              else returnA (Inr input)))"

text \<open>Without Calcite, or after it has failed: the statements it has already run are not taken back.\<close>

definition sql_write :: "'w writeEnv \<Rightarrow> 'w sqlDatabase \<Rightarrow> builtSchema \<Rightarrow> writePayload \<Rightarrow> row list \<Rightarrow> dataValue option \<Rightarrow> ('w, dataValue option) action" where
  "sql_write env db b p rows input = (case we_fields env of
       Some tpl \<Rightarrow> template_write (we_iso env) db b p tpl rows input
     | None \<Rightarrow> manual_write (we_iso env) db b p rows input)"

definition write_rows :: "'w writeEnv \<Rightarrow> 'w sqlDatabase \<Rightarrow> builtSchema \<Rightarrow> writePayload \<Rightarrow> row list \<Rightarrow> dataValue option \<Rightarrow> ('w, dataValue option) action" where
  "write_rows env db b p rows input s = (case we_calcite env of
       None \<Rightarrow> sql_write env db b p rows input s
     | Some ca \<Rightarrow> (case calcite_write (we_backend env) ca p rows input s of
         (Inl (Unmodelled m), s') \<Rightarrow> (Inl (Unmodelled m), s')
       | (Inl e, s') \<Rightarrow> sql_write env db b p rows input s'
       | (Inr v, s') \<Rightarrow> (Inr v, s')))"

definition violations_error :: "fkViolation list \<Rightarrow> js_error" where
  "violations_error vs = PlainError (''FK validation failed:'' @ [CHR 0x0A] @ join_str [CHR 0x0A] (map (\<lambda>v. ''  * '' @ fv_message v) vs) @
     [CHR 0x0A] @ ''Fix the referenced values before retrying.'')"

definition check_keys :: "'w writeEnv \<Rightarrow> 'w sqlDatabase \<Rightarrow> builtSchema \<Rightarrow> writePayload \<Rightarrow> ('w, unit) action" where
  "check_keys env db b p = (if wp_mode p \<in> {WInsert, WUpdate, WUpsert}
     then bindA (validateForeignKeys (we_registry env) p b db) (\<lambda>vs. returnA (if vs = [] then Inr () else Inl (violations_error vs)))
     else returnA (Inr ()))"

definition rows_or_dummy :: "writePayload \<Rightarrow> row list \<Rightarrow> row list" where
  "rows_or_dummy p rows = (if rows = [] \<and> wp_mode p \<in> {WInsert, WInsertIgnore, WUpsert} then [[]] else rows)"

definition adapted_payload :: "'w writeEnv \<Rightarrow> writePayload \<Rightarrow> writePayload" where
  "adapted_payload env p = soft_delete (target_schema env p) (strip_blocked (we_context env) (target_schema env p) p)"

definition run_adapted :: "'w writeEnv \<Rightarrow> 'w sqlDatabase \<Rightarrow> builtSchema \<Rightarrow> writePayload \<Rightarrow> dataValue option \<Rightarrow> cursorStore option \<Rightarrow>
    'w \<times> sentLog \<Rightarrow> (dataValue option res \<times> 'w \<times> sentLog) \<times> cursorStore option" where
  "run_adapted env db b p input store s = (let rows = input_rows input in
     case check_keys env db b p s of
       (Inl e, s') \<Rightarrow> ((Inl e, s'), store)
     | (Inr _, s') \<Rightarrow>
         if list_all (\<lambda>r. r = []) rows \<and> opt_list (wp_whereColumns p) \<noteq> [] then cursor_write env db p store s'
         else if rows_or_dummy p rows = [] then ((Inr input, s'), store)
         else (write_rows env db b p (rows_or_dummy p rows) input s', store))"

definition execute_write :: "'w writeEnv \<Rightarrow> writePayload \<Rightarrow> dataValue option \<Rightarrow> cursorStore option \<Rightarrow> 'w \<times> sentLog \<Rightarrow>
    ((dataValue option res \<times> 'w \<times> sentLog) \<times> cursorStore option) \<times> writePayload" where
  "execute_write env payload input store s = (let (p1, r) = resolve_references (we_context env) payload in case r of
       Inl e \<Rightarrow> (((Inl e, s), store), p1)
     | Inr _ \<Rightarrow> (case resolved_backend env p1 of
         None \<Rightarrow> (((Inl (PlainError (''[WriteNode] No backend found for datasource: '' @ wp_datasource p1)), s), store), p1)
       | Some db \<Rightarrow> (let p = adapted_payload env p1
           in (run_adapted env db (target_schema env p1) p input store s, p))))"

end
