(* ===== verification/WriteNodeRuns.thy ===== *)
theory WriteNodeRuns
  imports WriteNode
begin

text \<open>
  What a write of \<open>WriteNode\<close> sends to the database: the statements of every path are restricted, a deletion by
  the rows of the input is sent as an update, and the update by the session cursor numbers its parameters twice.
\<close>

section \<open>Logs of actions\<close>

text \<open>Everything the action appends to the log has a property.\<close>

definition logs :: "(string \<times> jsval list \<Rightarrow> bool) \<Rightarrow> ('w \<times> sentLog \<Rightarrow> 'r \<times> 'w \<times> sentLog) \<Rightarrow> bool" where
  "logs P act \<longleftrightarrow> (\<forall>s. \<exists>qs. snd (snd (act s)) = snd s @ qs \<and> (\<forall>q \<in> set qs. P q))"

lemma logsI: "(\<And>s. \<exists>qs. snd (snd (act s)) = snd s @ qs \<and> (\<forall>q \<in> set qs. P q)) \<Longrightarrow> logs P act"
  by (simp add: logs_def)

lemma logs_sends: "logs P act \<Longrightarrow> q \<in> set (sends act s) \<Longrightarrow> P q"
  unfolding logs_def sends_def by (metis append_eq_conv_conj)

lemma logs_returnA: "logs P (returnA r)"
  by (rule logsI) (simp add: returnA_def)

lemma logs_fail_with: "logs P (fail_with e)"
  by (rule logsI) (simp add: fail_with_def)

lemma logs_raw: "P (sql, ps) \<Longrightarrow> logs P (rawQuery db sql ps)"
  by (rule logsI) (auto simp: rawQuery_def split: prod.splits)

lemma logs_bindA:
  fixes act :: "('w, 'a) action"
  assumes "logs P act" and "\<And>v. logs P (f v)"
  shows "logs P (bindA act f)"
proof (rule logsI)
  fix s :: "'w \<times> sentLog"
  obtain qs where q: "snd (snd (act s)) = snd s @ qs" "\<forall>q \<in> set qs. P q" using assms(1) unfolding logs_def by blast
  obtain r s' where a: "act s = (r, s')" by (rule prod.exhaust)
  show "\<exists>qs. snd (snd (bindA act f s)) = snd s @ qs \<and> (\<forall>q \<in> set qs. P q)"
  proof (cases r)
    case (Inl e)
    with q a show ?thesis by (simp add: bindA_def)
  next
    case (Inr v)
    obtain qs' where "snd (snd (f v s')) = snd s' @ qs'" "\<forall>q \<in> set qs'. P q" using assms(2) [of v] unfolding logs_def by blast
    with q a Inr show ?thesis by (intro exI [of _ "qs @ qs'"]) (auto simp: bindA_def)
  qed
qed

lemma logs_run_statements: "(\<And>q. q \<in> set qs \<Longrightarrow> P q) \<Longrightarrow> logs P (run_statements db qs)"
proof (rule logsI)
  fix s
  assume P: "\<And>q. q \<in> set qs \<Longrightarrow> P q"
  from run_statements_sent [of qs db s] obtain n where "snd (snd (run_statements db qs s)) = snd s @ take n qs" by blast
  with P show "\<exists>qs'. snd (snd (run_statements db qs s)) = snd s @ qs' \<and> (\<forall>q \<in> set qs'. P q)"
    by (intro exI [of _ "take n qs"]) (auto dest: in_set_takeD)
qed

lemma logs_transaction:
  fixes act :: "('w, 'a) action"
  assumes "logs P act"
  shows "logs P (transaction db act)"
proof (rule logsI)
  fix s :: "'w \<times> sentLog"
  obtain w sent where s: "s = (w, sent)" by (rule prod.exhaust)
  from transaction_cases [of db act w sent]
  show "\<exists>qs. snd (snd (transaction db act s)) = snd s @ qs \<and> (\<forall>q \<in> set qs. P q)"
  proof (elim disjE exE conjE)
    fix w1
    assume t: "snd (snd (transaction db act (w, sent))) = snd (snd (act (w1, sent)))"
    from assms obtain qs where "snd (snd (act (w1, sent))) = sent @ qs" "\<forall>q \<in> set qs. P q" unfolding logs_def by (metis snd_conv)
    with t s show ?thesis by auto
  qed (simp add: s)
qed

section \<open>Every statement is restricted\<close>

definition selects :: "string \<Rightarrow> bool" where
  "selects sql \<longleftrightarrow> prefix ''SELECT '' sql"

definition restricted :: "string \<times> jsval list \<Rightarrow> bool" where
  "restricted q \<longleftrightarrow> prefix ''INSERT INTO '' (fst q) \<or>
     (\<exists>a b c. fst q = a @ '' WHERE '' @ b @ c \<and> b \<noteq> [] \<and> (prefix ''UPDATE '' a \<or> prefix ''DELETE FROM '' a))"

lemma restricted_insert: "restricted (insert_statement t cs ig ret st batch)"
  by (simp add: restricted_def insert_statement_def Let_def)

lemma restricted_upsert: "restricted (upsert_statement t cs cf sets ret r)"
  by (simp add: restricted_def upsert_statement_def)

lemma restricted_update: "b \<noteq> [] \<Longrightarrow> restricted (''UPDATE '' @ x @ '' WHERE '' @ b @ c, ps)"
  unfolding restricted_def by (intro disjI2 exI [of _ "''UPDATE '' @ x"] exI [of _ b] exI [of _ c]) simp

lemma restricted_delete: "b \<noteq> [] \<Longrightarrow> restricted (''DELETE FROM '' @ x @ '' WHERE '' @ b @ c, ps)"
  unfolding restricted_def by (intro disjI2 exI [of _ "''DELETE FROM '' @ x"] exI [of _ b] exI [of _ c]) simp

lemma predicate_sql_nonempty: "raw_free p \<Longrightarrow> sq_sql (predicateToSQL p i) \<noteq> []"
  by (induction p arbitrary: i) (simp_all add: Session.dq_def in_list_def Let_def)

lemma join_nonempty: "xs \<noteq> [] \<Longrightarrow> hd xs \<noteq> [] \<Longrightarrow> join_str sep xs \<noteq> []"
  by (cases xs) (simp_all add: join_str_Cons)

lemma where_list_nonempty: "ws \<noteq> [] \<Longrightarrow> where_list ws i \<noteq> []"
  unfolding where_list_def by (rule join_nonempty) (simp_all add: hd_map qi_def Session.dq_def)

lemma delete_terms_nonempty: "ws \<noteq> [] \<Longrightarrow> join_str sep (delete_terms r ws i) \<noteq> []"
  by (cases ws) (simp_all add: join_str_Cons qi_def Session.dq_def)

lemma where_predicate_raw_free: "wp_wherePredicate p = None \<Longrightarrow> where_predicate p = Some q \<Longrightarrow> raw_free q"
  by (simp add: where_predicate_def built_raw_free)

lemma restricted_update_statement:
  assumes "\<And>q. p = Some q \<Longrightarrow> raw_free q" and "p = None \<Longrightarrow> ws \<noteq> []"
  shows "restricted (update_statement t cs p ws ret r)"
proof (cases p)
  case None
  with where_list_nonempty [OF assms(2)] show ?thesis
    using restricted_update [of "where_list ws (int (length cs) + 1)" "qi t @ '' SET '' @ set_list cs 1"] by (simp add: update_statement_def Let_def)
next
  case (Some q)
  with predicate_sql_nonempty [OF assms(1)] show ?thesis
    using restricted_update [of "sq_sql (predicateToSQL q (int (length cs) + 1))" "qi t @ '' SET '' @ set_list cs 1"]
    by (simp add: update_statement_def Let_def)
qed

lemma restricted_delete_statement: "ws \<noteq> [] \<Longrightarrow> restricted (delete_statement t ws ret r)"
  using restricted_delete [OF delete_terms_nonempty, of ws "qi t"] by (simp add: delete_statement_def)

lemma logs_runInsert: "logs restricted (runInsert db t cs rows ig b ret st)"
  unfolding runInsert_def
  by (rule logs_transaction) (auto split: option.splits intro!: logs_run_statements logs_fail_with restricted_insert)

lemma logs_runUpsert: "logs restricted (runUpsert db t cs rows cf us ret)"
  unfolding runUpsert_def Let_def
  by (rule logs_transaction)
    (auto split: option.splits prod.splits intro!: logs_run_statements logs_fail_with restricted_upsert logs_runInsert)

lemma logs_runUpdate:
  assumes "wp_wherePredicate p = None"
  shows "logs restricted (runUpdate db t cs rows ws ret p)"
  unfolding runUpdate_def Let_def
  by (rule logs_transaction)
    (auto split: option.splits if_splits intro!: logs_run_statements logs_fail_with restricted_update_statement
      where_predicate_raw_free [OF assms])

lemma logs_runDelete: "logs restricted (runDelete db t rows ws ret)"
  unfolding runDelete_def
  by (rule logs_transaction) (auto split: option.splits intro!: logs_run_statements logs_fail_with restricted_delete_statement)

lemma logs_run_mode: "wp_wherePredicate p = None \<Longrightarrow> logs restricted (run_mode db p ics cs rows)"
  by (cases "wp_mode p") (simp_all add: run_mode_def logs_runInsert logs_runUpsert logs_runUpdate logs_runDelete)

lemma logs_row_driven: "logs restricted (row_driven_write db p c rows)"
proof -
  have "restricted (''UPDATE '' @ t @ '' SET '' @ s @ '' WHERE '' @ Session.dq c @ '' = ANY('' @ h @ '')'', ps)" for t s h ps
    using restricted_update [of "Session.dq c" "t @ '' SET '' @ s" "'' = ANY('' @ h @ '')''" ps] by (simp add: Session.dq_def)
  then show ?thesis unfolding row_driven_write_def Let_def
    by (auto split: prod.splits intro!: logs_bindA logs_returnA logs_raw simp del: append.simps)
qed

lemma logs_static_update:
  assumes "wp_wherePredicate p = None"
  shows "logs restricted (static_update db p data)"
proof (cases "where_predicate p")
  case None
  then show ?thesis by (simp add: static_update_def logs_returnA)
next
  case (Some q)
  have "restricted (static_update_statement p q r)" for r
    using restricted_update [OF predicate_sql_nonempty [OF where_predicate_raw_free [OF assms Some]], where c = "[]"]
    by (simp add: static_update_statement_def Let_def case_prod_beta del: append.simps)
      (metis (no_types, lifting) append.assoc)
  with Some show ?thesis by (auto simp: static_update_def split: prod.splits intro!: logs_bindA logs_returnA logs_raw) (metis)
qed


section \<open>The check of keys only reads\<close>

lemma logs_mono: "logs P act \<Longrightarrow> (\<And>q. P q \<Longrightarrow> Q q) \<Longrightarrow> logs Q act"
  unfolding logs_def by meson

definition harmless :: "string \<times> jsval list \<Rightarrow> bool" where
  "harmless q \<longleftrightarrow> selects (fst q) \<or> restricted q"

lemma restricted_harmless: "logs restricted act \<Longrightarrow> logs harmless act"
  by (erule logs_mono) (simp add: harmless_def)

lemma raw_select: "selects sql \<Longrightarrow> \<exists>qs. snd (snd (rawQuery db sql ps s)) = snd s @ qs \<and> (\<forall>q \<in> set qs. harmless q)"
proof -
  assume "selects sql"
  then have "logs harmless (rawQuery db sql ps)" by (intro logs_raw) (simp add: harmless_def)
  then show ?thesis unfolding logs_def by blast
qed

lemma logs_check_batch: "logs harmless (check_batch db t c refs)"
proof (rule logsI)
  fix s :: "'a \<times> sentLog"
  obtain r s' where r: "rawQuery db (batch_sql t c) [JArr (map fr_value refs)] s = (r, s')" by (rule prod.exhaust)
  with raw_select [of "batch_sql t c" db "[JArr (map fr_value refs)]" s]
  show "\<exists>qs. snd (snd (check_batch db t c refs s)) = snd s @ qs \<and> (\<forall>q \<in> set qs. harmless q)"
    by (cases r) (simp_all add: check_batch_def Let_def batch_sql_def selects_def)
qed

lemma logs_check_singles: "logs harmless (check_singles db t refs)"
proof (induction refs)
  case Nil
  show ?case by (rule logsI) simp
next
  case (Cons x refs)
  show ?case
  proof (rule logsI)
    fix s :: "'a \<times> sentLog"
    obtain r s' where r: "rawQuery db (single_sql t (fr_refColumn x)) [fr_value x] s = (r, s')" by (rule prod.exhaust)
    with raw_select [of "single_sql t (fr_refColumn x)" db "[fr_value x]" s] obtain qs where
      q: "snd s' = snd s @ qs" "\<forall>q \<in> set qs. harmless q" by (auto simp: single_sql_def selects_def)
    obtain vs s'' where v: "check_singles db t refs s' = (vs, s'')" by (rule prod.exhaust)
    with Cons.IH obtain qs' where "snd s'' = snd s' @ qs'" "\<forall>q \<in> set qs'. harmless q" unfolding logs_def by (metis snd_conv)
    with q r v show "\<exists>qs. snd (snd (check_singles db t (x # refs) s)) = snd s @ qs \<and> (\<forall>q \<in> set qs. harmless q)"
      by (intro exI [of _ "qs @ qs'"]) (cases r; auto)
  qed
qed

lemma logs_check_tables: "logs harmless (check_tables db gs)"
proof (induction gs)
  case Nil
  show ?case by (rule logsI) simp
next
  case (Cons g gs)
  obtain t refs where g: "g = (t, refs)" by (rule prod.exhaust)
  have one: "logs harmless (check_table db t refs)"
    using logs_check_batch [of db t "fr_refColumn (hd refs)" refs] logs_check_singles [of db t refs]
    unfolding logs_def by (cases "list_all (\<lambda>r. fr_refColumn r = fr_refColumn (hd refs)) refs \<and> length refs > 1")
      (simp_all add: check_table_def Let_def)
  show ?case
  proof (rule logsI)
    fix s :: "'a \<times> sentLog"
    obtain vs s' where v: "check_table db t refs s = (vs, s')" by (rule prod.exhaust)
    with one obtain qs where q: "snd s' = snd s @ qs" "\<forall>q \<in> set qs. harmless q" unfolding logs_def by (metis snd_conv)
    obtain ws s'' where w: "check_tables db gs s' = (ws, s'')" by (rule prod.exhaust)
    with Cons.IH obtain qs' where "snd s'' = snd s' @ qs'" "\<forall>q \<in> set qs'. harmless q" unfolding logs_def by (metis snd_conv)
    with q v w g show "\<exists>qs. snd (snd (check_tables db (g # gs) s)) = snd s @ qs \<and> (\<forall>q \<in> set qs. harmless q)"
      by (intro exI [of _ "qs @ qs'"]) auto
  qed
qed

lemma logs_validate: "logs harmless (validateForeignKeys reg p b pool)"
proof (rule logsI)
  fix s :: "'a \<times> sentLog"
  have tables: "\<exists>qs. snd (snd (check_tables db gs s)) = snd s @ qs \<and> (\<forall>q \<in> set qs. harmless q)" for db gs
    using logs_check_tables unfolding logs_def by blast
  show "\<exists>qs. snd (snd (validateForeignKeys reg p b pool s)) = snd s @ qs \<and> (\<forall>q \<in> set qs. harmless q)"
    unfolding validateForeignKeys_def Let_def case_prod_beta using tables by (simp split: option.splits)
qed

section \<open>The condition of a cursor\<close>

lemma filter_clause_nonempty: "filter_clause f i = Inr (Some c, ps) \<Longrightarrow> c \<noteq> []"
  by (cases "filter_field f ''operator''"; cases "value_list (filter_field f ''value'')")
    (auto simp: filter_clause_def Let_def Session.dq_def in_list_def split: if_splits)

lemma where_loop_nonempty: "where_loop fs i cs ps = Inr (cs', ps') \<Longrightarrow> [] \<notin> set cs \<Longrightarrow> [] \<notin> set cs'"
proof (induction fs i cs ps rule: where_loop.induct)
  case (2 f fs i cs ps)
  then obtain c qs where f: "filter_clause f i = Inr (c, qs)" by (auto simp: result_simps)
  with filter_clause_nonempty have "c = Some d \<Longrightarrow> d \<noteq> []" for d by auto
  with 2(1) [OF f refl] 2(2,3) f show ?case by (auto split: option.splits)
qed simp

text \<open>The condition numbers its parameters from its start and is not empty, from ids and from filters.\<close>

lemma cursor_condition:
  assumes "buildWhereFromCursor cu i = Inr wh"
  shows "woven (wr_clause wh) i (length (wr_params wh)) \<and> wr_clause wh \<noteq> []"
proof -
  have many: "woven (wr_clause wh) i (length (wr_params wh)) \<and> wr_clause wh \<noteq> []"
    if l: "bindR (where_loop fs i [] []) (\<lambda>(clauses, params). if clauses = [] then Inl e
      else Inr \<lparr>wr_clause = join_str '' AND '' clauses, wr_params = params, wr_isBulk = True\<rparr>) = Inr wh" for fs e
  proof -
    from l obtain cs ps where c: "where_loop fs i [] [] = Inr (cs, ps)" "cs \<noteq> []"
      "wh = \<lparr>wr_clause = join_str '' AND '' cs, wr_params = ps, wr_isBulk = True\<rparr>"
      by (auto simp: result_simps split: if_splits)
    have "[] \<notin> set cs" using where_loop_nonempty [OF c(1)] by simp
    with c(2) have "join_str '' AND '' cs \<noteq> []" by (intro join_nonempty) (metis list.set_sel(1))+
    with where_loop_woven [OF c(1), of i] c(3) show ?thesis by (simp add: woven_text)
  qed
  have ids: "woven (wr_clause wh) i (length (wr_params wh)) \<and> wr_clause wh \<noteq> []" if "cu_ids cu = Some (v # vs)" for v vs
    using assms that woven_one [of "Session.dq (hd (cu_primaryKeys cu)) @ '' = ''" i "[]"]
      woven_one [of "Session.dq (hd (cu_primaryKeys cu)) @ '' = ANY(''" i "'')''"]
    by (cases vs) (auto simp: buildWhereFromCursor_def Session.dq_def)
  show ?thesis
  proof (cases "cu_ids cu")
    case None
    with assms many show ?thesis by (auto simp: buildWhereFromCursor_def split: option.splits)
  next
    case (Some vs)
    with assms many ids show ?thesis by (cases vs) (auto simp: buildWhereFromCursor_def split: option.splits)
  qed
qed

end
