(* ===== verification/BuiltSchemaFacts.thy ===== *)
theory BuiltSchemaFacts
  imports BuiltSchema
begin

text \<open>
  What \<open>BuiltSchema\<close> computes: the graph of foreign keys holds the keys of the tables in both directions,
  the columns an update may not set, and what the combined schema of several sources keeps of them.
\<close>

section \<open>The graph of foreign keys\<close>

definition all_edges :: "(string \<times> rawTable) list \<Rightarrow> fkEdge list" where
  "all_edges ts = concat (map (\<lambda>(t, d). map (edge_of t) (rt_foreignKeys d)) ts)"

lemma edges_get_push: "edges_get (edges_push t e m) t' = (if t' = t then edges_get m t @ [e] else edges_get m t')"
  by (simp add: edges_push_def edges_get_def)

lemma foldl_add_edge:
  "edges_get (fg_outbound (foldl add_edge g es)) t = edges_get (fg_outbound g) t @ filter (\<lambda>e. ge_fromTable e = t) es"
  "edges_get (fg_inbound (foldl add_edge g es)) t = edges_get (fg_inbound g) t @ filter (\<lambda>e. ge_toTable e = t) es"
  by (induction es arbitrary: g) (auto simp: add_edge_def edges_get_push)

lemma build_graph_edges:
  "getOutbound (build_graph ts) t = filter (\<lambda>e. ge_fromTable e = t) (all_edges ts)"
  "getInbound (build_graph ts) t = filter (\<lambda>e. ge_toTable e = t) (all_edges ts)"
  unfolding getOutbound_def getInbound_def build_graph_def all_edges_def [symmetric] foldl_add_edge
  by (simp_all add: edges_get_def)

section \<open>The columns an update may not set\<close>

lemma default_trait_immutable [simp]: "tr_immutable (default_trait col k tr) = tr_immutable tr"
  by (simp add: default_trait_def)

lemma rule_traits_immutable [simp]: "tr_immutable (rule_traits p an t c col fk tr) = tr_immutable tr"
  by (simp add: rule_traits_def Let_def split: option.splits)

lemma column_metadata_immutable [simp]: "tr_immutable (column_metadata p t c col fk tr) = tr_immutable tr"
  by (simp add: column_metadata_def Let_def)

definition update_blocked :: "string \<Rightarrow> rawColumn \<Rightarrow> bool" where
  "update_blocked c col \<longleftrightarrow> \<not> db_owned col \<and>
     (if sql_default col then c \<in> {''created_at'', ''updated_at''} else prefix ''created_'' c)"

lemma column_traits_immutable: "tr_immutable (column_traits p an t d c col) = Some True \<longleftrightarrow> update_blocked c col"
  by (auto simp: column_traits_def update_blocked_def Let_def no_traits_def)

lemma foldl_al_set_new:
  "distinct (map fst xs) \<Longrightarrow> fst ` set xs \<inter> fst ` set m = {} \<Longrightarrow>
    foldl (\<lambda>acc (c, v). al_set c (f c v) acc) m xs = m @ map (\<lambda>(c, v). (c, f c v)) xs"
  by (induction xs arbitrary: m) (auto simp: al_set_new)

lemma map_of_eq_of_distinct: "distinct (map fst xs) \<Longrightarrow> (k, v) \<in> set xs \<Longrightarrow> map_of xs k = Some v"
  by simp

lemma classifyAll_list:
  assumes "map_of (bt_traits b) t = Some ts" and "distinct (map fst ts)"
  shows "classifyAllColumns t b s m = map (\<lambda>(c, raw). (c, classify_traits b s m t c raw)) ts"
proof -
  have "foldl (\<lambda>acc (c, _). case classifyColumn t c b s m of None \<Rightarrow> acc | Some k \<Rightarrow> al_set c k acc) [] ts =
      foldl (\<lambda>acc (c, v). al_set c (classify_traits b s m t c v) acc) [] ts"
  proof (rule foldl_cong)
    fix acc p
    assume "p \<in> set ts"
    with assms show "(\<lambda>(c, _). case classifyColumn t c b s m of None \<Rightarrow> acc | Some k \<Rightarrow> al_set c k acc) p =
        (\<lambda>(c, v). al_set c (classify_traits b s m t c v) acc) p"
      by (cases p) (simp add: classifyColumn_def)
  qed simp_all
  with assms show ?thesis by (simp add: classifyAllColumns_def foldl_al_set_new)
qed

lemma keys_kept: "map fst (map (\<lambda>(c, v). (c, f c v)) xs) = map fst xs"
  by (induction xs) auto

lemma inferred_traits:
  assumes "distinct (map fst ts)" and "(t, d) \<in> set ts"
  shows "map_of (bt_traits (build_schema ts an)) t =
    Some (map (\<lambda>(c, col). (c, column_traits (finish_schema ts) an t d c col)) (rt_columns d))"
proof -
  let ?f = "\<lambda>(t, d). (t, map (\<lambda>(c, col). (c, column_traits (finish_schema ts) an t d c col)) (rt_columns d))"
  have k: "distinct (map fst (map ?f ts))" unfolding keys_kept by (rule assms(1))
  have i: "?f (t, d) \<in> set (map ?f ts)" using assms(2) by force
  have "map_of (map ?f ts) t = Some (map (\<lambda>(c, col). (c, column_traits (finish_schema ts) an t d c col)) (rt_columns d))"
    by (rule map_of_eq_of_distinct [OF k]) (use i in simp)
  then show ?thesis by (simp add: build_schema_def Let_def inferTraits_def finish_schema_def)
qed

lemma blocked_list:
  assumes "distinct (map fst ts)" and "(t, d) \<in> set ts" and "distinct (map fst (rt_columns d))"
  shows "getBlockedOnUpdate (classifyAllColumns t (build_schema ts an) s ForUpdate) =
    map fst (filter (\<lambda>(c, col). update_blocked c col) (rt_columns d))"
proof -
  let ?g = "\<lambda>(c, col). (c, column_traits (finish_schema ts) an t d c col)"
  have k: "distinct (map fst (map ?g (rt_columns d)))" unfolding keys_kept by (rule assms(3))
  have "getBlockedOnUpdate (map (\<lambda>(c, raw). (c, classify_traits b s ForUpdate t c raw)) (map ?g cs)) =
      map fst (filter (\<lambda>(c, col). update_blocked c col) cs)" for b cs
    by (induction cs) (auto simp: getBlockedOnUpdate_def classify_traits_def Let_def column_traits_immutable)
  then show ?thesis unfolding classifyAll_list [OF inferred_traits [OF assms(1,2)] k] .
qed

text \<open>
  C33: the columns of a table whose static values an update drops are exactly, in the order of the table, the columns that
  neither are a key nor a SERIAL and are named \<^verbatim>\<open>created_...\<close> -- unless their default is an SQL expression: of those
  only \<^verbatim>\<open>created_at\<close> and \<^verbatim>\<open>updated_at\<close>.  The primary key is not among them, nor is \<^verbatim>\<open>created_on DEFAULT NOW()\<close>.
\<close>

theorem blocked_columns_exact:
  assumes "distinct (map fst ts)" and "(t, d) \<in> set ts" and "distinct (map fst (rt_columns d))"
  shows "getBlockedOnUpdate (classifyAllColumns t (build_schema ts an) s ForUpdate) =
    map fst (filter (\<lambda>(c, col). update_blocked c col) (rt_columns d))"
  by (rule blocked_list [OF assms])

definition sample_column :: "string \<Rightarrow> string \<Rightarrow> string option \<Rightarrow> bool \<Rightarrow> string \<times> rawColumn" where
  "sample_column n ty df pk = (n, \<lparr>rc_name = n, rc_type = ty, rc_nullable = True, rc_primaryKey = pk, rc_unique = False,
     rc_defaultRaw = df, rc_checkRaw = None\<rparr>)"

definition sample_table :: rawTable where
  "sample_table = \<lparr>rt_columns = [sample_column ''id'' ''INT'' None True, sample_column ''created_by'' ''INT'' None False,
     sample_column ''created_on'' ''TIMESTAMPTZ'' (Some ''now()'') False,
     sample_column ''updated_at'' ''TIMESTAMPTZ'' (Some ''NOW()'') False], rt_foreignKeys = [], rt_uniqueConstraints = []\<rparr>"

lemma sample_sql_defaults [simp]: "isSqlExpression ''now()''" "isSqlExpression ''NOW()''"
  by (code_simp, code_simp)

lemma blocked_columns_exact_witness:
  "getBlockedOnUpdate (classifyAllColumns ''notes'' (build_schema [(''notes'', sample_table)] [])
     \<lparr>sx_userId = JNum (Fin 1), sx_anchorIds = []\<rparr> ForUpdate) = [''created_by'', ''updated_at'']"
  by (subst blocked_columns_exact [of "[(''notes'', sample_table)]" "''notes''" sample_table])
    (simp_all add: sample_table_def sample_column_def update_blocked_def db_owned_def sql_default_def)

section \<open>The combined schema\<close>

lemma combined_foreign_keys: "set (sc_foreignKeys (buildCombinedSchemaConfig ty m reg)) \<subseteq> set cross_keys"
  by (auto simp: buildCombinedSchemaConfig_def Let_def parsed_foreignKeys_def)

definition crossed_tables :: "string set" where
  "crossed_tables = {''projects'', ''accounts'', ''opportunities'', ''contacts''}"

lemma walk_crossed: "walks a p b \<Longrightarrow> set p \<subseteq> set cross_keys \<Longrightarrow> a = b \<or> (a \<in> crossed_tables \<and> b \<in> crossed_tables)"
proof (induction p arbitrary: a)
  case (Cons fk p)
  then have fk: "fk \<in> set cross_keys" "touches fk a" and w: "walks (next_table a fk) p b" "set p \<subseteq> set cross_keys" by auto
  from fk have "a \<in> crossed_tables \<and> next_table a fk \<in> crossed_tables"
    by (auto simp: cross_keys_def touches_def crossed_tables_def next_table_def split: if_splits)
  with Cons.IH [OF w] show ?case by auto
qed simp

text \<open>
  the combined schema forgets the foreign keys of its sources: whatever tables and keys they declare, two different
  tables are connected by a join path only if both are among \<^verbatim>\<open>projects\<close>, \<^verbatim>\<open>accounts\<close>, \<^verbatim>\<open>opportunities\<close> and
  \<^verbatim>\<open>contacts\<close>; for all others the search throws \<open>NoJoinPathError\<close>.
\<close>

theorem combined_schema_has_no_own_keys:
  assumes "a \<noteq> b" and "\<not> {a, b} \<subseteq> crossed_tables"
  shows "findJoinPath (buildCombinedSchemaConfig ty m reg) a b = Inl (NoJoinPathError a b)"
proof (cases "findJoinPath (buildCombinedSchemaConfig ty m reg) a b")
  case (Inl e)
  then show ?thesis using findJoinPath_cases [where s = "buildCombinedSchemaConfig ty m reg" and a = a and b = b] by simp
next
  case (Inr p)
  then have "walks a p b" "set p \<subseteq> set cross_keys"
    using findJoinPath_cases [where s = "buildCombinedSchemaConfig ty m reg" and a = a and b = b] combined_foreign_keys [of ty m reg] by auto
  from walk_crossed [OF this] assms show ?thesis by auto
qed

text \<open>A source in which tickets refer to users.\<close>

definition ticket_tables :: "(string \<times> rawTable) list" where
  "ticket_tables = [(''users'', sample_table), (''tickets'', \<lparr>rt_columns = [sample_column ''user_id'' ''INT'' None False],
     rt_foreignKeys = [\<lparr>rf_column = ''user_id'', rf_refTable = ''users'', rf_refColumn = ''id'', rf_onDelete = ''NO ACTION''\<rparr>],
     rt_uniqueConstraints = []\<rparr>)]"

definition ticket_source :: "(unit, unit) dataSource" where
  "ticket_source = \<lparr>dx_name = ''default'', dx_displayName = ''CRM'', dx_backend = Some (), dx_pool = Some (),
     dx_schema = Some (build_schema ticket_tables [])\<rparr>"

lemma combined_schema_has_no_own_keys_witness:
  "getReferences (pd_fkGraph (bt_parsed (build_schema ticket_tables []))) ''tickets'' = [''users''] \<and>
   findJoinPath (buildCombinedSchemaConfig (\<lambda>_. TAny) (buildMultiSourceSchema [ticket_source])
     \<lparr>sr_sources = [(''default'', ticket_source)], sr_crossKeys = []\<rparr>) ''tickets'' ''users'' = Inl (NoJoinPathError ''tickets'' ''users'')"
proof
  show "getReferences (pd_fkGraph (bt_parsed (build_schema ticket_tables []))) ''tickets'' = [''users'']"
    by (simp add: getReferences_def build_schema_def Let_def finish_schema_def build_graph_def ticket_tables_def sample_table_def
        add_edge_def edges_push_def edges_get_def edge_of_def lower_ascii_def) code_simp
  show "findJoinPath (buildCombinedSchemaConfig (\<lambda>_. TAny) (buildMultiSourceSchema [ticket_source])
     \<lparr>sr_sources = [(''default'', ticket_source)], sr_crossKeys = []\<rparr>) ''tickets'' ''users'' = Inl (NoJoinPathError ''tickets'' ''users'')"
    by (rule combined_schema_has_no_own_keys) (simp_all add: crossed_tables_def)
qed

section \<open>Routing\<close>

definition source_tables :: "('b, 'q) dataSource \<Rightarrow> string list" where
  "source_tables d = (case dx_schema d of None \<Rightarrow> [] | Some b \<Rightarrow> map fst (pd_tables (bt_parsed b)))"

lemma map_of_foldl_al_set_const: "map_of (foldl (\<lambda>r t. al_set t n r) m ts) k = (if k \<in> set ts then Some n else map_of m k)"
  by (induction ts arbitrary: m) auto

lemma map_of_add_source: "map_of (mx_routing (add_source m d)) t = (if t \<in> set (source_tables d) then Some (dx_name d) else map_of (mx_routing m) t)"
  by (cases "dx_schema d") (simp_all add: add_source_def source_tables_def map_of_foldl_al_set_const)

lemma find_snoc: "find P (xs @ [x]) = (case find P xs of Some y \<Rightarrow> Some y | None \<Rightarrow> if P x then Some x else None)"
  by (induction xs) auto

lemma map_of_routing: "map_of (mx_routing (foldl add_source m ds)) t =
   (case find (\<lambda>d. t \<in> set (source_tables d)) (rev ds) of Some d \<Rightarrow> Some (dx_name d) | None \<Rightarrow> map_of (mx_routing m) t)"
  by (induction ds arbitrary: m) (auto simp: map_of_add_source find_snoc split: option.splits)

lemma al_set_fresh_snoc: "n \<notin> fst ` set m \<Longrightarrow> al_set n b m = m @ [(n, b)]"
  by (rule al_set_new)

lemma schemas_of_sources:
  assumes "distinct (map dx_name ds)" and "dx_name ` set ds \<inter> fst ` set (mx_schemas m) = {}"
  shows "mx_schemas (foldl add_source m ds) = mx_schemas m @ map (\<lambda>d. (dx_name d, the (dx_schema d))) (filter (\<lambda>d. dx_schema d \<noteq> None) ds)"
  using assms
proof (induction ds arbitrary: m)
  case (Cons d ds)
  show ?case
  proof (cases "dx_schema d")
    case None
    with Cons.IH [of m] Cons.prems show ?thesis by (simp add: add_source_def)
  next
    case (Some b)
    then have s: "mx_schemas (add_source m d) = mx_schemas m @ [(dx_name d, b)]"
      using Cons.prems by (simp add: add_source_def al_set_new)
    have "dx_name ` set ds \<inter> fst ` set (mx_schemas (add_source m d)) = {}" using Cons.prems by (auto simp: s)
    from Cons.IH [OF _ this] Cons.prems(1) Some s show ?thesis by simp
  qed
qed simp

lemma map_of_combined:
  "map_option tc_datasource (map_of (foldl (\<lambda>acc (ds, b). foldl (\<lambda>acc (t, d). al_set t (combined_table ty reg ds t d) acc) acc
       (pd_tables (bt_parsed b))) acc ms) t) =
   (case find (\<lambda>(ds, b). t \<in> fst ` set (pd_tables (bt_parsed b))) (rev ms) of
      Some (ds, b) \<Rightarrow> Some (Some ds) | None \<Rightarrow> map_option tc_datasource (map_of acc t))"
proof (induction ms arbitrary: acc)
  case (Cons m ms)
  obtain ds b where m: "m = (ds, b)" by fastforce
  have inner: "map_option tc_datasource (map_of (foldl (\<lambda>acc (t, d). al_set t (combined_table ty reg ds t d) acc) acc ts) t) =
      (if t \<in> fst ` set ts then Some (Some ds) else map_option tc_datasource (map_of acc t))" for ts acc
    by (induction ts arbitrary: acc) (auto simp: combined_table_def)
  show ?case using Cons.IH by (auto simp: m inner find_snoc split: option.splits)
qed simp

text \<open>
  C34: routing and the combined schema agree: a table of the combined schema carries the data source the router sends its
  statements to, and it is the last of the sources (registered under different names) that has a table of the name;
  a table no source has is sent to \<^verbatim>\<open>default\<close>.
\<close>

theorem combined_tables_are_routed:
  assumes "distinct (map dx_name ds)" and "'''' \<notin> dx_name ` set ds"
  shows "(case map_of (sc_tables (buildCombinedSchemaConfig ty (buildMultiSourceSchema ds) reg)) t of
      Some tc \<Rightarrow> tc_datasource tc = Some (routeTable t (buildMultiSourceSchema ds)) \<and>
        (\<exists>d. find (\<lambda>d. t \<in> set (source_tables d)) (rev ds) = Some d \<and> dx_name d = routeTable t (buildMultiSourceSchema ds))
    | None \<Rightarrow> (\<forall>d \<in> set ds. t \<notin> set (source_tables d)) \<and> routeTable t (buildMultiSourceSchema ds) = ''default'')"
proof -
  let ?ms = "map (\<lambda>d. (dx_name d, the (dx_schema d))) (filter (\<lambda>d. dx_schema d \<noteq> None) ds)"
  have ms: "mx_schemas (buildMultiSourceSchema ds) = ?ms"
    using schemas_of_sources [OF assms(1), of "\<lparr>mx_schemas = [], mx_routing = []\<rparr>"] by (simp add: buildMultiSourceSchema_def)
  have f: "find (\<lambda>(ds, b). t \<in> fst ` set (pd_tables (bt_parsed b))) (rev (map (\<lambda>d. (dx_name d, the (dx_schema d))) (filter (\<lambda>d. dx_schema d \<noteq> None) xs))) =
      map_option (\<lambda>d. (dx_name d, the (dx_schema d))) (find (\<lambda>d. t \<in> set (source_tables d)) (rev xs))" for xs
    by (induction xs) (auto simp: find_snoc source_tables_def rev_image_eqI split: option.splits)
  have tabs: "map_option tc_datasource (map_of (sc_tables (buildCombinedSchemaConfig ty (buildMultiSourceSchema ds) reg)) t) =
      map_option (\<lambda>d. Some (dx_name d)) (find (\<lambda>d. t \<in> set (source_tables d)) (rev ds))"
    unfolding buildCombinedSchemaConfig_def Let_def ms schemaConfig.simps map_of_combined f by (simp split: option.splits)
  have r: "map_of (mx_routing (buildMultiSourceSchema ds)) t = map_option dx_name (find (\<lambda>d. t \<in> set (source_tables d)) (rev ds))"
    by (simp add: buildMultiSourceSchema_def map_of_routing split: option.splits)
  show ?thesis
  proof (cases "find (\<lambda>d. t \<in> set (source_tables d)) (rev ds)")
    case None
    with tabs have "map_of (sc_tables (buildCombinedSchemaConfig ty (buildMultiSourceSchema ds) reg)) t = None" by simp
    moreover from None have "\<forall>d \<in> set ds. t \<notin> set (source_tables d)" by (auto simp: find_None_iff)
    ultimately show ?thesis using r None by (simp add: routeTable_def)
  next
    case (Some d)
    then have "d \<in> set (rev ds)" unfolding find_Some_iff using nth_mem by blast
    then have "d \<in> set ds" by simp
    with assms(2) have "dx_name d \<noteq> ''''" by (metis image_eqI)
    with r Some have rt: "routeTable t (buildMultiSourceSchema ds) = dx_name d" by (simp add: routeTable_def)
    from tabs Some obtain tc where "map_of (sc_tables (buildCombinedSchemaConfig ty (buildMultiSourceSchema ds) reg)) t = Some tc"
      "tc_datasource tc = Some (dx_name d)" by auto
    with Some rt show ?thesis by simp
  qed
qed

lemma combined_tables_are_routed_witness:
  "routeTable ''tickets'' (buildMultiSourceSchema [ticket_source]) = ''default'' \<and>
   routeTable ''users'' (buildMultiSourceSchema [ticket_source, ticket_source\<lparr>dx_name := ''pm''\<rparr>]) = ''pm''"
proof -
  have f: "find (\<lambda>d. ''users'' \<in> set (source_tables d)) (rev [ticket_source, ticket_source\<lparr>dx_name := ''pm''\<rparr>]) = Some (ticket_source\<lparr>dx_name := ''pm''\<rparr>)"
    by (simp add: source_tables_def ticket_source_def build_schema_def Let_def finish_schema_def ticket_tables_def)
  have g: "''tickets'' \<in> set (source_tables ticket_source)"
    by (simp add: source_tables_def ticket_source_def build_schema_def Let_def finish_schema_def ticket_tables_def)
  show ?thesis
    using combined_tables_are_routed [where ds = "[ticket_source]" and ty = "\<lambda>_. TAny" and reg = "\<lparr>sr_sources = [], sr_crossKeys = []\<rparr>" and t = "''tickets''"]
      combined_tables_are_routed [where ds = "[ticket_source, ticket_source\<lparr>dx_name := ''pm''\<rparr>]" and ty = "\<lambda>_. TAny" and
        reg = "\<lparr>sr_sources = [], sr_crossKeys = []\<rparr>" and t = "''users''"]
      f g by (auto simp: ticket_source_def split: option.splits)
qed

end
