(* ===== verification/WriteNodeSafety.thy ===== *)
theory WriteNodeSafety
  imports WriteNodeRuns BuiltSchemaFacts
begin

text \<open>
  Properties of a whole write: no statement touches a table without a condition, blocked columns leave the static
  values, and two paths that do not do what their mode says: a deletion by rows and an update by the cursor.
\<close>

section \<open>Every statement of a write\<close>

lemma logs_cursor_update:
  assumes "wr_clause wh \<noteq> []"
  shows "logs restricted (cursor_update db p cu wh)"
proof -
  have "restricted (''UPDATE '' @ t @ '' SET '' @ x @ '' WHERE '' @ wr_clause wh, ps)" for t x ps
    using restricted_update [OF assms, of "t @ '' SET '' @ x" "[]" ps] by simp
  then show ?thesis unfolding cursor_update_def Let_def by (auto intro!: logs_bindA logs_returnA logs_raw simp del: append.simps)
qed

lemma logs_cursor_delete: "wr_clause wh \<noteq> [] \<Longrightarrow> logs restricted (cursor_delete db p cu wh)"
  using restricted_delete [of "wr_clause wh" "Session.dq (wp_table p)" "[]"] unfolding cursor_delete_def
  by (intro logs_bindA logs_returnA logs_raw) simp

lemma logs_manual: "wp_wherePredicate p = None \<Longrightarrow> logs restricted (manual_write stamp db b p rows input)"
  unfolding manual_write_def Let_def
  by (auto split: option.splits intro!: logs_bindA logs_returnA logs_row_driven logs_static_update logs_run_mode)

lemma logs_template: "wp_wherePredicate p = None \<Longrightarrow> logs restricted (template_write stamp db b p tpl rows input)"
  unfolding template_write_def Let_def by (auto intro!: logs_bindA logs_returnA logs_run_mode)

lemma logs_sql_write: "wp_wherePredicate p = None \<Longrightarrow> logs restricted (sql_write env db b p rows input)"
  unfolding sql_write_def by (auto split: option.splits intro!: logs_template logs_manual)

lemma logs_check_keys: "logs harmless (check_keys env db b p)"
  unfolding check_keys_def by (auto intro!: logs_bindA logs_returnA logs_validate)

definition extends_by :: "(string \<times> jsval list \<Rightarrow> bool) \<Rightarrow> sentLog \<Rightarrow> sentLog \<Rightarrow> bool" where
  "extends_by P old new \<longleftrightarrow> (\<exists>qs. new = old @ qs \<and> (\<forall>q \<in> set qs. P q))"

lemma log_refl: "extends_by P l l"
  by (simp add: extends_by_def)

lemma log_trans: "extends_by P a b \<Longrightarrow> extends_by P b c \<Longrightarrow> extends_by P a c"
  unfolding extends_by_def by (metis UnE append.assoc set_append)

lemma logs_extends: "logs P act \<Longrightarrow> extends_by P (snd s) (snd (snd (act s)))"
  unfolding logs_def extends_by_def by blast

lemma extends_cursor_write: "extends_by harmless (snd s) (snd (snd (fst (cursor_write env db p store s))))"
proof -
  have u: "extends_by harmless (snd s) (snd (snd (cursor_update db p cu wh s)))"
    and d: "extends_by harmless (snd s) (snd (snd (cursor_delete db p cu wh s)))"
    if "buildWhereFromCursor cu 1 = Inr wh" for cu wh
    using cursor_condition [OF that] by (blast intro: logs_extends restricted_harmless logs_cursor_update logs_cursor_delete)+
  then show ?thesis
    by (auto simp: cursor_write_def Let_def log_refl case_prod_beta split: option.splits sum.splits)
qed

lemma extends_run_adapted:
  assumes "we_calcite env = None" and "wp_wherePredicate p = None"
  shows "extends_by harmless (snd s) (snd (snd (fst (run_adapted env db b p input store s))))"
proof -
  obtain r s' where k: "check_keys env db b p s = (r, s')" by (rule prod.exhaust)
  with logs_extends [OF logs_check_keys, of s env db b p] have e: "extends_by harmless (snd s) (snd s')" by simp
  have w: "extends_by harmless (snd s') (snd (snd (write_rows env db b p rows input s')))" for rows
    using logs_extends [OF restricted_harmless [OF logs_sql_write [OF assms(2)]], of s' env db b rows input] assms(1)
    by (simp add: write_rows_def)
  show ?thesis
    using e log_trans [OF e extends_cursor_write [of s' env db p store]] log_trans [OF e w]
    by (cases r) (simp_all add: run_adapted_def Let_def k)
qed

lemma adapted_predicate [simp]: "wp_wherePredicate (adapted_payload env p) = wp_wherePredicate p"
  by (auto simp: adapted_payload_def soft_delete_def strip_blocked_def Let_def split: option.splits)

lemma references_predicate [simp]: "wp_wherePredicate (fst (resolve_references c p)) = wp_wherePredicate p"
  by (auto simp: resolve_references_def split: option.splits prod.splits)


definition plain_env :: "unit writeEnv" where
  "plain_env = \<lparr>we_backend = quiet_db, we_registry = \<lparr>sr_sources = [], sr_crossKeys = []\<rparr>, we_crmSchema = build_schema [] [],
     we_calcite = None, we_context = createExecutionContext ''p'' ''s'' None [] (defaultBudget 0),
     we_fields = None, we_iso = ''2024-01-01T00:00:00.000Z'', we_now = 0, we_later = 0\<rparr>"

definition status_update :: writePayload where
  "status_update = \<lparr>wp_table = ''tickets'', wp_mode = WUpdate, wp_columns = [''status''], wp_staticValues = Some [(''status'', JStr ''open'')],
     wp_staticWhere = None, wp_wherePredicate = None, wp_conflictColumns = None, wp_updateColumns = None, wp_whereColumns = Some [''id''],
     wp_returning = None, wp_batchSize = None, wp_datasource = [], wp_upstreamTables = None, wp_columnAliases = None\<rparr>"


section \<open>Blocked columns\<close>

lemma map_of_foldl_del: "map_of (foldl (\<lambda>r k. al_del k r) m ks) c = (if c \<in> set ks then None else map_of m c)"
  by (induction ks arbitrary: m) auto

lemma soft_delete_update: "wp_mode p \<noteq> WDelete \<Longrightarrow> soft_delete b p = p"
  by (simp add: soft_delete_def)

text \<open>
  an update of a table of the schema loses the static values of exactly the columns that are blocked; its other
  static values and its list of columns stay as they are -- so a blocked column that is filled from the rows, not
  from a static value, is still among the columns to be set.
\<close>

theorem blocked_static_values_dropped:
  assumes "wp_mode p = WUpdate" and "wp_table p \<noteq> []" and "al_has (wp_table p) (pd_tables (bt_parsed (target_schema env p)))"
  shows "map_of (opt_list (wp_staticValues (adapted_payload env p))) c =
      (if c \<in> set (getBlockedOnUpdate (classifyAllColumns (wp_table p) (target_schema env p) (session_ids (we_context env)) ForUpdate))
       then None else map_of (opt_list (wp_staticValues p)) c) \<and>
    wp_columns (adapted_payload env p) = wp_columns p \<and> wp_mode (adapted_payload env p) = WUpdate"
  using assms
  by (cases "wp_staticValues p") (simp_all add: adapted_payload_def strip_blocked_def soft_delete_update map_of_foldl_del)

definition notes_env :: "unit writeEnv" where
  "notes_env = plain_env\<lparr>we_crmSchema := build_schema [(''notes'', sample_table)] []\<rparr>"

definition note_update :: writePayload where
  "note_update = status_update\<lparr>wp_table := ''notes'', wp_columns := [''created_by''],
     wp_staticValues := Some [(''created_by'', JStr ''me''), (''id'', JStr ''n1'')]\<rparr>"

lemma note_schema: "target_schema notes_env note_update = build_schema [(''notes'', sample_table)] []"
  by (simp add: target_schema_def notes_env_def plain_env_def status_update_def note_update_def get_source_def)

lemma note_blocked: "''created_by'' \<in> set (getBlockedOnUpdate (classifyAllColumns ''notes'' (build_schema [(''notes'', sample_table)] []) s ForUpdate))"
  by (subst blocked_list [of "[(''notes'', sample_table)]" "''notes''" sample_table])
    (simp_all add: sample_table_def sample_column_def update_blocked_def db_owned_def sql_default_def)

lemma blocked_static_values_dropped_witness:
  "map_of (opt_list (wp_staticValues (adapted_payload notes_env note_update))) ''created_by'' = None \<and>
   wp_columns (adapted_payload notes_env note_update) = [''created_by'']"
proof -
  have "al_has ''notes'' (pd_tables (bt_parsed (build_schema [(''notes'', sample_table)] [])))"
    by (simp add: build_schema_def finish_schema_def Let_def)
  then show ?thesis
    using blocked_static_values_dropped [of note_update notes_env "''created_by''"] note_blocked unfolding note_schema
    by (simp add: note_update_def status_update_def)
qed

section \<open>Deletions by rows\<close>

text \<open>
  a deletion whose rows carry its first WHERE column never sends a DELETE.  All it sends are UPDATEs, and with no
  static values to set it fails and sends nothing; rows are deleted only when that column is absent from the first row.
\<close>

theorem delete_by_rows_sends_update:
  assumes "wp_mode p = WDelete" and "row_where_column p rows = Some c"
  shows "(\<forall>q \<in> set (sends (manual_write stamp db b p rows input) s). prefix ''UPDATE '' (fst q)) \<and>
    (opt_list (wp_staticValues p) = [] \<longrightarrow>
      sends (manual_write stamp db b p rows input) s = [] \<and> (\<exists>e. fst (manual_write stamp db b p rows input s) = Inl e))"
proof -
  have m: "manual_write stamp db b p rows input = row_driven_write db p c rows" by (simp add: manual_write_def Let_def assms(2))
  have "logs (\<lambda>q. prefix ''UPDATE '' (fst q)) (row_driven_write db p c rows)" unfolding row_driven_write_def Let_def
    by (auto split: prod.splits intro!: logs_bindA logs_returnA logs_raw)
  then have "\<forall>q \<in> set (sends (row_driven_write db p c rows) s). prefix ''UPDATE '' (fst q)" using logs_sends by fast
  moreover have "\<exists>e. row_driven_write db p c rows s = (Inl e, s)" if "opt_list (wp_staticValues p) = []"
    using that by (simp add: row_driven_write_def Let_def returnA_def)
  ultimately show ?thesis unfolding m sends_def by force
qed

definition row_delete :: writePayload where
  "row_delete = status_update\<lparr>wp_mode := WDelete, wp_staticValues := None\<rparr>"

lemma delete_by_rows_sends_update_witness:
  "\<exists>e. fst (manual_write ''now'' quiet_db (build_schema [] []) row_delete [[(''id'', JStr ''t1'')]] None ((), [])) = Inl e"
  using delete_by_rows_sends_update [of row_delete "[[(''id'', JStr ''t1'')]]" "''id''" "''now''" quiet_db "build_schema [] []" None "((), [])"]
  by (simp add: row_delete_def status_update_def row_where_column_def)

section \<open>Updates by the cursor\<close>

lemma cursor_assigns_woven:
  "woven (join_str '', '' (map (\<lambda>k. Session.dq (cols ! k) @ '' = '' @ placeholder (1 + int k)) [0..<length cols])) 1 (length cols)"
proof -
  have "woven (Session.dq (cols ! k) @ '' = '' @ placeholder (1 + int k)) (1 + int k * int 1) 1" for k
    using woven_one [of "Session.dq (cols ! k) @ '' = ''" "1 + int k" "[]"] by simp
  then have "woven (join_str '', '' (map (\<lambda>k. Session.dq (cols ! k) @ '' = '' @ placeholder (1 + int k)) [0..<length cols])) 1
      (length cols * 1)" by (intro woven_join)
  then show ?thesis by simp
qed

lemma set_foldl_set_add: "set (foldl (\<lambda>acc c. set_add c acc) m xs) = set m \<union> set xs"
  by (induction xs arbitrary: m) auto

lemma cursor_update_form:
  assumes "q \<in> set (sends (cursor_update db p cu wh) s)"
  shows "\<exists>cols ps. cols \<noteq> [] \<and> length ps = length cols \<and>
    q = (''UPDATE '' @ Session.dq (wp_table p) @ '' SET '' @
      join_str '', '' (map (\<lambda>k. Session.dq (cols ! k) @ '' = '' @ placeholder (1 + int k)) [0..<length cols]) @
      '' WHERE '' @ wr_clause wh, ps @ wr_params wh)"
proof (rule logs_sends [OF _ assms])
  let ?sets = "filter (\<lambda>c. c \<notin> set (opt_list (wp_whereColumns p))) (wp_columns p)"
  let ?sv = "opt_list (wp_staticValues p)"
  let ?P = "\<lambda>q. \<exists>cols ps. cols \<noteq> [] \<and> length ps = length cols \<and>
    q = (''UPDATE '' @ Session.dq (wp_table p) @ '' SET '' @
      join_str '', '' (map (\<lambda>k. Session.dq (cols ! k) @ '' = '' @ placeholder (1 + int k)) [0..<length cols]) @
      '' WHERE '' @ wr_clause wh, ps @ wr_params wh)"
  show "logs ?P (cursor_update db p cu wh)"
  proof (cases "?sets = [] \<and> ?sv = []")
    case True
    then show ?thesis by (simp add: cursor_update_def Let_def logs_returnA)
  next
    case False
    then have "?sets @ map fst ?sv \<noteq> []" by (simp only: append_is_Nil_conv map_is_Nil_conv) simp
    then have "set (?sets @ map fst ?sv) \<noteq> {}" by (simp only: set_empty not_False_eq_True)
    then have ne: "foldl (\<lambda>acc c. set_add c acc) [] (?sets @ map fst ?sv) \<noteq> []"
      using set_foldl_set_add [of "[]" "?sets @ map fst ?sv"] by (metis list.set(1) sup_bot_left)
    show ?thesis unfolding cursor_update_def Let_def if_not_P [OF False]
      by (rule logs_bindA [OF logs_raw logs_returnA],
        rule exI [of _ "foldl (\<lambda>acc c. set_add c acc) [] (?sets @ map fst ?sv)"], rule exI, rule conjI [OF ne conjI [OF _ refl]], rule length_map)
  qed
qed

text \<open>
  the update by the session cursor numbers its parameters twice.  The assignments use \<^verbatim>\<open>$1\<close> ... \<^verbatim>\<open>$n\<close>, and so does
  the condition, from \<^verbatim>\<open>$1\<close> on: it compares the key with the first value to be set.  The values of the condition are
  sent behind those of the assignments, so the statement always carries more parameters than its highest number.
\<close>

theorem cursor_update_numbers_twice:
  assumes "buildWhereFromCursor cu 1 = Inr wh" and "q \<in> set (sends (cursor_update db p cu wh) s)"
  shows "\<exists>sets n. 0 < n \<and> fst q = ''UPDATE '' @ Session.dq (wp_table p) @ '' SET '' @ sets @ '' WHERE '' @ wr_clause wh \<and>
    woven sets 1 n \<and> woven (wr_clause wh) 1 (length (wr_params wh)) \<and>
    length (snd q) = n + length (wr_params wh) \<and> drop n (snd q) = wr_params wh"
proof -
  from cursor_update_form [OF assms(2)] obtain cols ps where c: "cols \<noteq> []" "length ps = length cols"
    "q = (''UPDATE '' @ Session.dq (wp_table p) @ '' SET '' @
      join_str '', '' (map (\<lambda>k. Session.dq (cols ! k) @ '' = '' @ placeholder (1 + int k)) [0..<length cols]) @
      '' WHERE '' @ wr_clause wh, ps @ wr_params wh)" by blast
  show ?thesis
    by (rule exI [of _ "join_str '', '' (map (\<lambda>k. Session.dq (cols ! k) @ '' = '' @ placeholder (1 + int k)) [0..<length cols])"],
      rule exI [of _ "length cols"])
      (use c cursor_condition [OF assms(1)] cursor_assigns_woven [of cols] in \<open>simp del: append.simps\<close>)
qed

definition one_ticket :: sessionCursor where
  "one_ticket = \<lparr>cu_table = ''tickets'', cu_primaryKeys = [''id''], cu_ids = Some [JStr ''t1''], cu_sourceFilter = None, cu_rowCount = 1,
     cu_pipelineId = ''p'', cu_description = [], cu_expiresAt = 300\<rparr>"

definition one_condition :: whereResult where
  "one_condition = \<lparr>wr_clause = Session.dq ''id'' @ '' = '' @ placeholder 1, wr_params = [JStr ''t1''], wr_isBulk = False\<rparr>"

definition one_update :: "string \<times> jsval list" where
  "one_update = (''UPDATE '' @ Session.dq ''tickets'' @ '' SET '' @ Session.dq ''status'' @ '' = '' @ placeholder 1 @ '' WHERE '' @
     Session.dq ''id'' @ '' = '' @ placeholder 1, [JStr ''open'', JStr ''t1''])"

lemma one_update_sent: "sends (cursor_update quiet_db status_update one_ticket one_condition) ((), []) = [one_update]"
  by (simp add: cursor_update_def status_update_def one_condition_def one_update_def Let_def sends_def bindA_def rawQuery_def quiet_db_def
      returnA_def set_add_def present_def)

lemma cursor_update_numbers_twice_witness:
  "\<exists>n. 0 < n \<and> length (snd one_update) = n + length (wr_params one_condition)"
proof -
  have "buildWhereFromCursor one_ticket 1 = Inr one_condition" by (simp add: buildWhereFromCursor_def one_ticket_def one_condition_def)
  from cursor_update_numbers_twice [OF this, of one_update quiet_db status_update "((), [])"] show ?thesis unfolding one_update_sent by auto
qed

end
