(* ===== verification/EngineFields.thy ===== *)
theory EngineFields
  imports BuiltSchemaFacts CompiledRuns
begin

text \<open>
  Fields between the steps of a pipeline, from \<open>src/src/pipeline-engine.ts\<close>: the registry of the fields of a write, and
  which fields and tables reach a step from the steps it depends on.

  A \<open>Set\<close> made of an array keeps the first of equal elements.
\<close>

section \<open>The registry of fields\<close>

datatype fieldState = FsResolved | FsPending | FsAutoInjected | FsUserRequired | FsDerived

datatype fieldSource = FrLlm | FrOriginal | FrAutoInjected | FrUpstream | FrDefault | FrSession

record fieldInfo =
  fi_name :: string
  fi_canonicalName :: string
  fi_state :: fieldState
  fi_source :: fieldSource
  fi_resolvedValue :: jsval
  fi_isReadOnly :: "bool option"

record fieldRegistry =
  rg_fields :: "(string \<times> fieldInfo) list"
  rg_names :: "(string \<times> string) list"

definition empty_registry :: fieldRegistry where
  "empty_registry = \<lparr>rg_fields = [], rg_names = []\<rparr>"

definition addField :: "fieldInfo \<Rightarrow> fieldRegistry \<Rightarrow> fieldRegistry" where
  "addField f r = \<lparr>rg_fields = al_set (fi_name f) f (rg_fields r),
     rg_names = al_set (lower_ascii (fi_canonicalName f)) (fi_name f) (rg_names r)\<rparr>"

definition getField :: "string \<Rightarrow> fieldRegistry \<Rightarrow> fieldInfo option" where
  "getField n r = map_of (rg_fields r) n"

definition getFieldsByState :: "fieldState \<Rightarrow> fieldRegistry \<Rightarrow> fieldInfo list" where
  "getFieldsByState st r = filter (\<lambda>f. fi_state f = st) (map snd (rg_fields r))"

fun getPriority :: "fieldSource \<Rightarrow> nat" where
  "getPriority FrAutoInjected = 5"
| "getPriority FrSession = 4"
| "getPriority FrOriginal = 3"
| "getPriority FrUpstream = 2"
| "getPriority FrLlm = 1"
| "getPriority FrDefault = 0"

definition addFieldWithPriority :: "fieldInfo \<Rightarrow> fieldRegistry \<Rightarrow> bool \<times> fieldRegistry" where
  "addFieldWithPriority f r = (let cn = lower_ascii (fi_canonicalName f) in
     case map_of (rg_names r) cn of
       None \<Rightarrow> (True, addField f r)
     | Some old \<Rightarrow> if old = [] then (True, addField f r)
         else (case map_of (rg_fields r) old of
             None \<Rightarrow> (True, addField f (r\<lparr>rg_names := al_del cn (rg_names r)\<rparr>))
           | Some g \<Rightarrow> if getPriority (fi_source g) \<ge> getPriority (fi_source f) then (False, r)
               else (True, addField f (r\<lparr>rg_fields := al_del old (rg_fields r)\<rparr>))))"

section \<open>Steps and their fields\<close>

type_synonym fieldMap = "(string \<times> string list) list"

definition uniq :: "'a list \<Rightarrow> 'a list" where
  "uniq xs = rev (remdups (rev xs))"

lemma set_uniq [simp]: "set (uniq xs) = set xs"
  by (simp add: uniq_def)

lemma distinct_uniq [simp]: "distinct (uniq xs)"
  by (simp add: uniq_def)

definition step_of :: "pipelineIntent \<Rightarrow> string \<Rightarrow> pipelineStepIntent option" where
  "step_of i n = find (\<lambda>s. ps_id s = n) (pi_steps i)"

definition step_deps :: "pipelineIntent \<Rightarrow> string \<Rightarrow> string list" where
  "step_deps i n = (case step_of i n of None \<Rightarrow> [] | Some s \<Rightarrow> opt_list (ps_dependsOn s))"

definition fields_of :: "fieldMap \<Rightarrow> string \<Rightarrow> string list" where
  "fields_of m n = (case map_of m n of None \<Rightarrow> [] | Some fs \<Rightarrow> fs)"

definition getAvailableFields :: "string \<Rightarrow> pipelineIntent \<Rightarrow> fieldMap \<Rightarrow> string list" where
  "getAvailableFields n i m = uniq (concat (map (fields_of m) (step_deps i n)))"

text \<open>Each step with the steps it depends on.\<close>

definition dependency_arrows :: "pipelineIntent \<Rightarrow> (string \<times> string) list" where
  "dependency_arrows i = concat (map (\<lambda>n. map (Pair n) (step_deps i n)) (uniq (map ps_id (pi_steps i))))"

text \<open>The search stops at a step that has fields.\<close>

definition getUpstreamFields :: "string \<Rightarrow> pipelineIntent \<Rightarrow> fieldMap \<Rightarrow> string list" where
  "getUpstreamFields n i m = uniq (concat (map (fields_of m)
     (bfs (\<lambda>_. True) (filter (\<lambda>(a, b). fields_of m a = []) (dependency_arrows i)) (step_deps i n) [])))"

type_synonym pipelineGraph = "compiledPayload payload graph"

definition query_of :: "compiledPayload payload node \<Rightarrow> queryPayload option" where
  "query_of nd = (if n_kind nd = ''query'' then (case n_payload nd of PQuery (CpQuery p) \<Rightarrow> Some p | _ \<Rightarrow> None) else None)"

definition query_tables :: "queryIntent \<Rightarrow> string list" where
  "query_tables q = qi_table q # map ij_table (opt_list (qi_joins q))"

definition node_tables :: "pipelineGraph \<Rightarrow> string \<Rightarrow> string list" where
  "node_tables g n = (case Option.bind (map_of (g_nodes g) n) query_of of None \<Rightarrow> []
     | Some p \<Rightarrow> filter (\<lambda>t. t \<noteq> []) (query_tables (qp_intent p)))"

definition getUpstreamTablesTransitive :: "string \<Rightarrow> pipelineIntent \<Rightarrow> pipelineGraph \<Rightarrow> string list" where
  "getUpstreamTablesTransitive n i g = uniq (concat (map (node_tables g) (bfs (\<lambda>_. True) (dependency_arrows i) [n] [])))"

end
