(* ===== verification/Grants.thy ===== *)
theory Grants
  imports SchemaConfig
begin

text \<open>
  Users, grants and access requests: \<open>src/src/auth/grant-store.ts\<close>, and the entries it
  writes into the log of \<open>src/src/auth/audit-store.ts\<close>.

  A table of the database is a list of its rows; the grant tables are ordered stores under
  their \<open>UNIQUE\<close> key, which \<open>INSERT OR REPLACE\<close> overwrites.  The row ids of grants, which
  nothing reads, are left out.  The clock and the fresh ids of requests and users are
  arguments.  The driver enforces foreign keys: a row for an unknown user is refused.

  The abstract view of the store is its history: what a user may do is a function of the
  operations so far, and the tables implement it.
\<close>

section \<open>The store\<close>

datatype requestStatus = RqPending | RqApproved | RqDenied

record accessRequest =
  ar_id :: string
  ar_userId :: string
  ar_tableName :: string
  ar_columnName :: "string option"
  ar_status :: requestStatus
  ar_requestedAt :: int
  ar_reviewedAt :: "int option"
  ar_reviewedBy :: "string option"

record user =
  us_id :: string
  us_username :: string
  us_passwordHash :: string
  us_role :: string
  us_createdAt :: int
  us_lastLogin :: "int option"

record accessGrant =
  canRead :: bool
  canWrite :: bool

datatype auditAction = ACCESS_REQUESTED | ACCESS_APPROVED | ACCESS_DENIED

record auditEntry =
  ae_userId :: string
  ae_username :: string
  ae_role :: string
  ae_action :: auditAction
  ae_resourceId :: string
  ae_resourceName :: string
  ae_details :: "(string \<times> string option) list"
  ae_timestamp :: int

record grantStore =
  gs_users :: "user list"
  gs_tableGrants :: "((string \<times> string) \<times> accessGrant) list"
  gs_columnGrants :: "((string \<times> string \<times> string) \<times> accessGrant) list"
  gs_requests :: "accessRequest list"
  gs_audit :: "auditEntry list"

definition empty_store :: grantStore where
  "empty_store = \<lparr>gs_users = [], gs_tableGrants = [], gs_columnGrants = [], gs_requests = [], gs_audit = []\<rparr>"

datatype accessMode = Read | Write

definition permits :: "accessMode \<Rightarrow> accessGrant \<Rightarrow> bool" where
  "permits m g = (case m of Read \<Rightarrow> canRead g | Write \<Rightarrow> canWrite g)"

definition both_rights :: accessGrant where
  "both_rights = \<lparr>canRead = True, canWrite = True\<rparr>"

definition getUserById :: "grantStore \<Rightarrow> string \<Rightarrow> user option" where
  "getUserById s u = find (\<lambda>x. us_id x = u) (gs_users s)"

definition getUserByUsername :: "grantStore \<Rightarrow> string \<Rightarrow> user option" where
  "getUserByUsername s n = find (\<lambda>x. us_username x = n) (gs_users s)"

definition foreign_key_failed :: js_error where
  "foreign_key_failed = PlainError ''FOREIGN KEY constraint failed''"

definition unique_failed :: js_error where
  "unique_failed = PlainError ''UNIQUE constraint failed''"

definition not_pending :: js_error where
  "not_pending = PlainError ''Access request not found or already processed''"

section \<open>Reading grants\<close>

definition checkTableAccess :: "grantStore \<Rightarrow> string \<Rightarrow> string \<Rightarrow> accessMode \<Rightarrow> bool" where
  "checkTableAccess s u t m = (case map_of (gs_tableGrants s) (u, t) of
     None \<Rightarrow> False | Some g \<Rightarrow> permits m g)"

definition checkColumnAccess :: "grantStore \<Rightarrow> string \<Rightarrow> string \<Rightarrow> string \<Rightarrow> accessMode \<Rightarrow> bool" where
  "checkColumnAccess s u t c m = (if \<not> checkTableAccess s u t m then False
     else case map_of (gs_columnGrants s) (u, t, c) of None \<Rightarrow> True | Some g \<Rightarrow> permits m g)"

definition readable_tables :: "grantStore \<Rightarrow> string \<Rightarrow> string list" where
  "readable_tables s u = map (\<lambda>g. snd (fst g)) (filter (\<lambda>g. fst (fst g) = u \<and> canRead (snd g)) (gs_tableGrants s))"

definition readable_columns :: "grantStore \<Rightarrow> string \<Rightarrow> string \<Rightarrow> string list" where
  "readable_columns s u t = map (\<lambda>g. snd (snd (fst g)))
     (filter (\<lambda>g. fst (fst g) = u \<and> fst (snd (fst g)) = t \<and> canRead (snd g)) (gs_columnGrants s))"

definition granted_columns :: "grantStore \<Rightarrow> string \<Rightarrow> string \<Rightarrow> columnConfig list \<Rightarrow> columnConfig list" where
  "granted_columns s u t cols = (let names = readable_columns s u t in
     if names \<noteq> [] then filter (\<lambda>c. cc_name c \<in> set names) cols else cols)"

definition granted_tables :: "grantStore \<Rightarrow> string \<Rightarrow> schemaConfig \<Rightarrow> (string \<times> tableConfig) list" where
  "granted_tables s u full =
     map (\<lambda>(n, tc). (n, tc\<lparr>tc_columns := granted_columns s u n (tc_columns tc)\<rparr>))
       (filter (\<lambda>(n, tc). n \<in> set (readable_tables s u)) (sc_tables full))"

definition getGrantedSchema :: "grantStore \<Rightarrow> string \<Rightarrow> schemaConfig \<Rightarrow> schemaConfig" where
  "getGrantedSchema s u full = (let tables = granted_tables s u full in
     \<lparr>sc_tables = tables,
      sc_foreignKeys = filter (\<lambda>fk. al_has (fk_fromTable fk) tables \<and> al_has (fk_toTable fk) tables)
        (sc_foreignKeys full),
      sc_version = sc_version full, sc_description = sc_description full\<rparr>)"

section \<open>Changing grants\<close>

type_synonym 'a db = "grantStore \<Rightarrow> 'a res \<times> grantStore"

definition resource_name :: "string \<Rightarrow> string option \<Rightarrow> string" where
  "resource_name t c = (case c of None \<Rightarrow> t | Some col \<Rightarrow> if col = [] then t else t @ ''.'' @ col)"

text \<open>A known actor leaves an entry in the audit log; the action of an unknown one is not logged.\<close>

definition audited :: "string \<Rightarrow> auditAction \<Rightarrow> string \<Rightarrow> string \<Rightarrow> (string \<times> string option) list \<Rightarrow> int
    \<Rightarrow> grantStore \<Rightarrow> grantStore" where
  "audited actor action rid name details now s = (case getUserById s actor of
     None \<Rightarrow> s
   | Some u \<Rightarrow> s\<lparr>gs_audit := gs_audit s @ [\<lparr>ae_userId = actor, ae_username = us_username u,
       ae_role = us_role u, ae_action = action, ae_resourceId = rid, ae_resourceName = name,
       ae_details = details, ae_timestamp = now\<rparr>]\<rparr>)"

definition requestAccess :: "string \<Rightarrow> int \<Rightarrow> string \<Rightarrow> string \<Rightarrow> string option \<Rightarrow> string db" where
  "requestAccess rid now u t c s =
     (if \<exists>r \<in> set (gs_requests s). ar_id r = rid then (Inl unique_failed, s)
      else if getUserById s u = None then (Inl foreign_key_failed, s)
      else (Inr rid, audited u ACCESS_REQUESTED rid (resource_name t c)
         [(''tableName'', Some t), (''columnName'', c)] now
         (s\<lparr>gs_requests := gs_requests s @ [\<lparr>ar_id = rid, ar_userId = u, ar_tableName = t,
            ar_columnName = (if c = Some [] then None else c), ar_status = RqPending,
            ar_requestedAt = now, ar_reviewedAt = None, ar_reviewedBy = None\<rparr>]\<rparr>)))"

definition pending_request :: "grantStore \<Rightarrow> string \<Rightarrow> accessRequest option" where
  "pending_request s rid = find (\<lambda>r. ar_id r = rid \<and> ar_status r = RqPending) (gs_requests s)"

definition review :: "requestStatus \<Rightarrow> string \<Rightarrow> int \<Rightarrow> string \<Rightarrow> grantStore \<Rightarrow> grantStore" where
  "review st rid now admin s = s\<lparr>gs_requests := map (\<lambda>r. if ar_id r = rid
     then r\<lparr>ar_status := st, ar_reviewedAt := Some now, ar_reviewedBy := Some admin\<rparr> else r) (gs_requests s)\<rparr>"

definition put_table_grant :: "string \<Rightarrow> string \<Rightarrow> accessGrant \<Rightarrow> unit db" where
  "put_table_grant u t g s = (if getUserById s u = None then (Inl foreign_key_failed, s)
     else (Inr (), s\<lparr>gs_tableGrants := al_set (u, t) g (gs_tableGrants s)\<rparr>))"

definition put_column_grant :: "string \<Rightarrow> string \<Rightarrow> string \<Rightarrow> accessGrant \<Rightarrow> unit db" where
  "put_column_grant u t c g s = (if getUserById s u = None then (Inl foreign_key_failed, s)
     else (Inr (), s\<lparr>gs_columnGrants := al_set (u, t, c) g (gs_columnGrants s)\<rparr>))"

definition review_details :: "string \<Rightarrow> accessRequest \<Rightarrow> (string \<times> string option) list" where
  "review_details key r = [(key, Some (ar_userId r)), (''tableName'', Some (ar_tableName r)),
     (''columnName'', ar_columnName r)]"

definition request_name :: "accessRequest \<Rightarrow> string" where
  "request_name r = resource_name (ar_tableName r) (ar_columnName r)"

definition approveAccess :: "string \<Rightarrow> string \<Rightarrow> int \<Rightarrow> unit db" where
  "approveAccess rid admin now s = (case pending_request s rid of
     None \<Rightarrow> (Inl not_pending, s)
   | Some r \<Rightarrow>
      (case (case ar_columnName r of
               None \<Rightarrow> put_table_grant (ar_userId r) (ar_tableName r) both_rights
             | Some c \<Rightarrow> if c = [] then put_table_grant (ar_userId r) (ar_tableName r) both_rights
                 else put_column_grant (ar_userId r) (ar_tableName r) c both_rights)
            (review RqApproved rid now admin s) of
        (Inl e, s') \<Rightarrow> (Inl e, s')
      | (Inr _, s') \<Rightarrow> (Inr (), audited admin ACCESS_APPROVED rid (request_name r)
          (review_details ''grantedTo'' r) now s')))"

definition denyAccess :: "string \<Rightarrow> string \<Rightarrow> int \<Rightarrow> unit db" where
  "denyAccess rid admin now s = (case pending_request s rid of
     None \<Rightarrow> (Inl not_pending, s)
   | Some r \<Rightarrow> (Inr (), audited admin ACCESS_DENIED rid (request_name r)
       (review_details ''deniedTo'' r) now (review RqDenied rid now admin s)))"

definition listPendingRequests :: "grantStore \<Rightarrow> accessRequest list" where
  "listPendingRequests s = sort_key ar_requestedAt (filter (\<lambda>r. ar_status r = RqPending) (gs_requests s))"

definition createUser :: "string \<Rightarrow> int \<Rightarrow> string \<Rightarrow> string \<Rightarrow> string \<Rightarrow> string db" where
  "createUser uid now name hash role s =
     (if \<exists>u \<in> set (gs_users s). us_id u = uid \<or> us_username u = name then (Inl unique_failed, s)
      else (Inr uid, s\<lparr>gs_users := gs_users s @ [\<lparr>us_id = uid, us_username = name, us_passwordHash = hash,
         us_role = role, us_createdAt = now, us_lastLogin = None\<rparr>]\<rparr>))"

definition updateLastLogin :: "string \<Rightarrow> int \<Rightarrow> unit db" where
  "updateLastLogin u now s = (Inr (), s\<lparr>gs_users := map (\<lambda>x. if us_id x = u
     then x\<lparr>us_lastLogin := Some now\<rparr> else x) (gs_users s)\<rparr>)"

definition grantTableAccess :: "string \<Rightarrow> string \<Rightarrow> bool \<Rightarrow> bool \<Rightarrow> unit db" where
  "grantTableAccess u t r w = put_table_grant u t \<lparr>canRead = r, canWrite = w\<rparr>"

definition grantColumnAccess :: "string \<Rightarrow> string \<Rightarrow> string \<Rightarrow> bool \<Rightarrow> bool \<Rightarrow> unit db" where
  "grantColumnAccess u t c r w = put_column_grant u t c \<lparr>canRead = r, canWrite = w\<rparr>"

definition revokeTableAccess :: "string \<Rightarrow> string \<Rightarrow> unit db" where
  "revokeTableAccess u t s = (Inr (), s\<lparr>gs_tableGrants := al_del (u, t) (gs_tableGrants s),
     gs_columnGrants := filter (\<lambda>g. \<not> (fst (fst g) = u \<and> fst (snd (fst g)) = t)) (gs_columnGrants s)\<rparr>)"

definition revokeColumnAccess :: "string \<Rightarrow> string \<Rightarrow> string \<Rightarrow> unit db" where
  "revokeColumnAccess u t c s = (Inr (), s\<lparr>gs_columnGrants := al_del (u, t, c) (gs_columnGrants s)\<rparr>)"

end
