(* ===== verification/WriteEnrichment.thy ===== *)
theory WriteEnrichment
  imports EngineFields Grants
begin

text \<open>
  The payload of a write: \<^verbatim>\<open>enrichWriteNode\<close> of \<open>src/src/pipeline-engine.ts\<close>.

  A language model is asked for the configuration of the write; what it answers is outside the repository, so it is a
  parameter with its own state.  An answer that is no JSON object of the shape asked for is no answer.  The text of
  the prompt is left out, except for what goes into it.  The configuration of a step is an object; its entry
  \<^verbatim>\<open>fields\<close> an object or a list of names.
\<close>

section \<open>Questions and answers\<close>

record writeAnswer =
  wa_table :: "string option"
  wa_mode :: "writeMode option"
  wa_columns :: "string list option"
  wa_staticValues :: "row option"
  wa_staticWhere :: "row option"
  wa_conflictColumns :: "string list option"
  wa_updateColumns :: "string list option"
  wa_whereColumns :: "string list option"

record writeQuestion =
  wq_description :: string
  wq_fields :: jsval
  wq_available :: "string list"
  wq_table :: "string option"
  wq_exclusions :: "string list"
  wq_enumHints :: "(string \<times> string list) list"

record ('b, 'w) enrichEnv =
  ev_registry :: "('b, 'b) sourceRegistry"
  ev_crmSchema :: builtSchema
  ev_grants :: grantStore
  ev_crmUser :: "string \<Rightarrow> 'w \<Rightarrow> jsval option res \<times> 'w"
  ev_ask :: "writeQuestion \<Rightarrow> 'w \<Rightarrow> writeAnswer option res \<times> 'w"

section \<open>The configuration of the step\<close>

definition step_config :: "pipelineStepIntent \<Rightarrow> row" where
  "step_config s = opt_list (ps_config s)"

definition config_text :: "pipelineStepIntent \<Rightarrow> string \<Rightarrow> string option" where
  "config_text s k = (case row_get (step_config s) k of JStr t \<Rightarrow> Some t | _ \<Rightarrow> None)"

definition config_mode :: "pipelineStepIntent \<Rightarrow> writeMode option" where
  "config_mode s = Option.bind (config_text s ''mode'') (map_of [(''insert'', WInsert), (''update'', WUpdate),
     (''upsert'', WUpsert), (''insert_ignore'', WInsertIgnore), (''delete'', WDelete)])"

text \<open>The entries of \<^verbatim>\<open>fields\<close>; those of a list are numbered.\<close>

definition original_entries :: "pipelineStepIntent \<Rightarrow> row" where
  "original_entries s = (case row_get (step_config s) ''fields'' of
       JObj r \<Rightarrow> r
     | JArr vs \<Rightarrow> map (\<lambda>n. (int_string (int n), vs ! n)) [0..<length vs]
     | _ \<Rightarrow> [])"

definition is_list :: "pipelineStepIntent \<Rightarrow> bool" where
  "is_list s \<longleftrightarrow> (case row_get (step_config s) ''fields'' of JArr vs \<Rightarrow> True | _ \<Rightarrow> False)"

definition target_table :: "pipelineStepIntent \<Rightarrow> string option" where
  "target_table s = (if truthy_text (config_text s ''table'') then config_text s ''table'' else None)"

definition updates :: "pipelineStepIntent \<Rightarrow> bool" where
  "updates s \<longleftrightarrow> map_option lower_ascii (config_text s ''operation'') = Some ''update''"

section \<open>The schema of the table\<close>

definition has_table :: "string \<Rightarrow> builtSchema \<Rightarrow> bool" where
  "has_table t b \<longleftrightarrow> al_has t (pd_tables (bt_parsed b))"

definition raw_column :: "builtSchema \<Rightarrow> string \<Rightarrow> string \<Rightarrow> rawColumn option" where
  "raw_column b t c = Option.bind (map_of (pd_tables (bt_parsed b)) t) (\<lambda>d. map_of (rt_columns d) c)"

definition column_names :: "builtSchema \<Rightarrow> string \<Rightarrow> string list" where
  "column_names b t = (case map_of (pd_tables (bt_parsed b)) t of None \<Rightarrow> [] | Some d \<Rightarrow> map fst (rt_columns d))"

definition schema_for :: "('b, 'w) enrichEnv \<Rightarrow> string option \<Rightarrow> builtSchema \<times> string" where
  "schema_for ev t = (case t of None \<Rightarrow> (ev_crmSchema ev, ''default'')
     | Some t \<Rightarrow> (case List.find (\<lambda>(n, d). case dx_schema d of None \<Rightarrow> False | Some b \<Rightarrow> has_table t b) (sr_sources (ev_registry ev)) of
         Some (n, d) \<Rightarrow> (the (dx_schema d), dx_name d)
       | None \<Rightarrow> (ev_crmSchema ev, ''default'')))"

section \<open>Values of the system\<close>

text \<open>
  The id of the user in the data base: read through the name of the user of the request, 1 without one or when the query
  fails.  It goes into the classification only.
\<close>

definition crm_user :: "('b, 'w) enrichEnv \<Rightarrow> string option \<Rightarrow> 'w \<Rightarrow> jsval \<times> 'w" where
  "crm_user ev u w = (let one = JNum (Fin 1) in
     case (if truthy_text u then getUserById (ev_grants ev) (the u) else None) of
       None \<Rightarrow> (one, w)
     | Some x \<Rightarrow> (case ev_crmUser ev (us_username x) w of
         (Inr (Some v), w') \<Rightarrow> (v, w')
       | (_, w') \<Rightarrow> (one, w')))"

definition schema_exclusions :: "('b, 'w) enrichEnv \<Rightarrow> builtSchema \<Rightarrow> pipelineStepIntent \<Rightarrow> string option \<Rightarrow> jsnum option \<Rightarrow>
    'w \<Rightarrow> string list \<times> 'w" where
  "schema_exclusions ev b s u ws w = (case target_table s of None \<Rightarrow> ([], w)
     | Some t \<Rightarrow> if \<not> has_table t b then ([], w)
         else (let (uid, w') = crm_user ev u w in
           (buildIntentExclusionList (classifyAllColumns t b
              \<lparr>sx_userId = uid, sx_anchorIds = [(''workspaces'', JNum (or_else ws (Fin 1)))]\<rparr>
              (if updates s then ForUpdate else ForInsert)), w')))"

definition session_columns :: "jsnum option \<Rightarrow> (string \<times> jsval) list" where
  "session_columns ws = (''workspace_id'', JNum (or_else ws (Fin 1))) #
     map (\<lambda>c. (c, JNum (Fin 1))) [''owner_user_id'', ''created_by_user_id'', ''updated_by_user_id'']"

definition audit_tables :: "string list" where
  "audit_tables = [''assignments_history'', ''audit_logs'', ''opportunity_stage_history'', ''lead_score_events'']"

text \<open>\<^verbatim>\<open>/^(created|updated)([_]?)(at|on)?$/i\<close> and the like.\<close>

definition timestamp_name :: "string list \<Rightarrow> string \<Rightarrow> bool" where
  "timestamp_name stems c \<longleftrightarrow> list_ex (\<lambda>w. list_ex (\<lambda>u. list_ex (\<lambda>e. lower_ascii c = w @ u @ e) ['''', ''at'', ''on''])
     ['''', ''_'']) stems"

definition timestamp_stems :: "pipelineStepIntent \<Rightarrow> string \<Rightarrow> string list" where
  "timestamp_stems s t = (if updates s then [''updated''] else if t \<in> set audit_tables then [''changed''] else [''created'', ''updated''])"

definition audit_action :: "pipelineStepIntent \<Rightarrow> string" where
  "audit_action s = (case map_of [(''insert'', ''create''), (''update'', ''update''), (''delete'', ''delete''), (''upsert'', ''update''),
       (''insert_ignore'', ''create'')] (or_else (map_option lower_ascii (config_text s ''operation'')) ''insert'') of
     Some a \<Rightarrow> a | None \<Rightarrow> ''system'')"

definition auto_entries :: "builtSchema \<Rightarrow> pipelineStepIntent \<Rightarrow> jsnum option \<Rightarrow> (string \<times> jsval) list" where
  "auto_entries b s ws = (case target_table s of None \<Rightarrow> []
     | Some t \<Rightarrow> filter (\<lambda>(c, v). c \<in> set (column_names b t)) (session_columns ws) @
         map (\<lambda>c. (c, JStr ''NOW()'')) (filter (timestamp_name (timestamp_stems s t)) (column_names b t)) @
         (if t = ''audit_logs'' then [(''action'', JStr (audit_action s))] else []))"

definition autoValues :: "builtSchema \<Rightarrow> pipelineStepIntent \<Rightarrow> jsnum option \<Rightarrow> row" where
  "autoValues b s ws = foldl (\<lambda>r (c, v). row_set c v r) [] (auto_entries b s ws)"

definition add_exclusions :: "string list \<Rightarrow> string list \<Rightarrow> string list" where
  "add_exclusions ex cs = foldl (\<lambda>acc c. if c \<in> set acc then acc else acc @ [c]) ex cs"

definition enum_hints :: "builtSchema \<Rightarrow> string option \<Rightarrow> string list \<Rightarrow> (string \<times> string list) list" where
  "enum_hints b t ex = (case Option.bind t (map_of (bt_traits b)) of None \<Rightarrow> []
     | Some ts \<Rightarrow> List.map_filter (\<lambda>(c, tr). if c \<in> set ex \<or> opt_list (tr_enumValues tr) = [] then None
         else Some (c, opt_list (tr_enumValues tr))) ts)"

section \<open>Clean answers\<close>

text \<open>A value equal to its own name.\<close>

definition drop_echoes :: "row \<Rightarrow> row" where
  "drop_echoes r = filter (\<lambda>(k, v). v \<noteq> JStr k) r"

definition declared_type :: "builtSchema \<Rightarrow> string option \<Rightarrow> string \<Rightarrow> string" where
  "declared_type b t c = (case Option.bind t (\<lambda>t. raw_column b t c) of None \<Rightarrow> ''TEXT'' | Some col \<Rightarrow> map ascii_upper (rc_type col))"

text \<open>The type is that of the table the answer names, which may be another than the one of the step, or none.\<close>

definition convert_value :: "builtSchema \<Rightarrow> string option \<Rightarrow> string \<times> jsval \<Rightarrow> string \<times> jsval" where
  "convert_value b t = (\<lambda>(c, v). (c, case v of
       JNum n \<Rightarrow> if declared_type b t c \<in> {''TEXT'', ''VARCHAR'', ''CHARACTER VARYING''} then JStr (js_string v) else v
     | _ \<Rightarrow> v))"

definition convertIfNeeded :: "builtSchema \<Rightarrow> string option \<Rightarrow> row \<Rightarrow> row" where
  "convertIfNeeded b t r = map (convert_value b t) r"

definition apply_autos :: "row \<Rightarrow> row \<Rightarrow> row" where
  "apply_autos autos r = foldl (\<lambda>r (c, v). row_set c v r) r autos"

definition static_answer :: "builtSchema \<Rightarrow> row \<Rightarrow> writeAnswer \<Rightarrow> row" where
  "static_answer b autos a = apply_autos autos
     (case wa_staticValues a of None \<Rightarrow> [] | Some sv \<Rightarrow> convertIfNeeded b (wa_table a) (drop_echoes sv))"

section \<open>Merging\<close>

definition plain_name :: "string \<Rightarrow> bool" where
  "plain_name s \<longleftrightarrow> (case s of [] \<Rightarrow> False | c # cs \<Rightarrow> ident_start c \<and> list_all ident_char cs)"

text \<open>\<^verbatim>\<open>/^([a-z_][a-z0-9_]*)\.([a-z_][a-z0-9_]*)$/i\<close>: the field.\<close>

definition table_field :: "string \<Rightarrow> string option" where
  "table_field s = (case split_on CHR ''.'' s of [t, f] \<Rightarrow> if plain_name t \<and> plain_name f then Some f else None | _ \<Rightarrow> None)"

definition extracted_aliases :: "row \<Rightarrow> (string \<times> string) list" where
  "extracted_aliases r = foldl (\<lambda>m (k, v). case table_field (js_string v) of None \<Rightarrow> m | Some f \<Rightarrow> al_set k f m) [] r"

record mergeState =
  mg_columns :: "string list"
  mg_static :: row
  mg_registry :: fieldRegistry

definition info :: "string \<Rightarrow> fieldState \<Rightarrow> fieldSource \<Rightarrow> jsval \<Rightarrow> fieldInfo" where
  "info n st src v = \<lparr>fi_name = n, fi_canonicalName = n, fi_state = st, fi_source = src, fi_resolvedValue = v, fi_isReadOnly = None\<rparr>"

definition value_state :: "jsval \<Rightarrow> fieldState" where
  "value_state v = (if v = JNull \<or> v = JUndef then FsPending else FsResolved)"

definition register :: "fieldInfo \<Rightarrow> mergeState \<Rightarrow> mergeState" where
  "register f st = st\<lparr>mg_registry := snd (addFieldWithPriority f (mg_registry st))\<rparr>"

definition push_column :: "string \<Rightarrow> mergeState \<Rightarrow> mergeState" where
  "push_column c st = (if c \<in> set (mg_columns st) then st else st\<lparr>mg_columns := mg_columns st @ [c]\<rparr>)"

definition dynamic_column :: "fieldSource \<Rightarrow> mergeState \<Rightarrow> string \<Rightarrow> mergeState" where
  "dynamic_column src st c = push_column c (register (info c FsPending src JUndef) st)"

text \<open>A template, a field of a table and a name that is its own value come from the rows; the rest are literals.\<close>

definition from_rows :: "string \<Rightarrow> jsval \<Rightarrow> bool" where
  "from_rows k v \<longleftrightarrow> contains ''{{'' (js_string v) \<and> contains ''}}'' (js_string v) \<or> table_field (js_string v) \<noteq> None \<or> v = JStr k"

definition merge_original :: "mergeState \<Rightarrow> string \<times> jsval \<Rightarrow> mergeState" where
  "merge_original st = (\<lambda>(k, v). if from_rows k v then dynamic_column FrOriginal st k
     else (register (info k (value_state v) FrOriginal v) st)\<lparr>mg_static := row_set k v (mg_static st)\<rparr>)"

definition track_static :: "mergeState \<Rightarrow> string \<times> jsval \<Rightarrow> mergeState" where
  "track_static st = (\<lambda>(k, v). if map_option fi_source (getField k (mg_registry st)) = Some FrAutoInjected then st
     else register (info k (value_state v) FrLlm v) st)"

definition auto_info :: "string \<times> jsval \<Rightarrow> fieldInfo" where
  "auto_info = (\<lambda>(c, v). (info c FsResolved FrAutoInjected v)\<lparr>fi_isReadOnly := Some True\<rparr>)"

definition merge_answer :: "bool \<Rightarrow> row \<Rightarrow> row \<Rightarrow> row \<Rightarrow> string list option \<Rightarrow> mergeState" where
  "merge_answer listed originals autos static columns =
     (let st0 = foldl (\<lambda>st e. register (auto_info e) st) \<lparr>mg_columns = [], mg_static = static, mg_registry = empty_registry\<rparr> autos;
          st1 = (if listed then foldl (dynamic_column FrOriginal) st0 (map (\<lambda>(k, v). js_string v) originals)
            else foldl merge_original st0 originals);
          st2 = foldl (dynamic_column FrLlm) st1 (opt_list columns)
      in foldl track_static st2 static)"

section \<open>Aliases of foreign keys\<close>

definition covers :: "queryIntent \<Rightarrow> string \<Rightarrow> bool" where
  "covers q t \<longleftrightarrow> t \<in> set (query_tables q)"

definition key_column :: "queryIntent \<Rightarrow> string \<Rightarrow> string \<Rightarrow> queryIntentColumn option" where
  "key_column q t c = List.find (\<lambda>x. ic_field x = c \<and> (ic_table x = Some t \<or> \<not> truthy_text (ic_table x))) (qi_columns q)"

definition added_column :: "string \<Rightarrow> string \<Rightarrow> queryIntentColumn" where
  "added_column t c = \<lparr>ic_field = c, ic_table = Some t, ic_alias = Some c, ic_agg = None, ic_expr = None\<rparr>"

text \<open>The first query that reads the table; a column it lacks is added to it.\<close>

fun key_alias :: "string \<Rightarrow> string \<Rightarrow> (string \<times> compiledPayload payload node) list \<Rightarrow>
    (string \<times> (string \<times> compiledPayload payload node) list) option" where
  "key_alias t c [] = None"
| "key_alias t c ((n, nd) # ns) = (case query_of nd of
       Some p \<Rightarrow> if covers (qp_intent p) t
         then (case key_column (qp_intent p) t c of
             Some x \<Rightarrow> Some (if truthy_text (ic_alias x) then the (ic_alias x) else ic_field x, (n, nd) # ns)
           | None \<Rightarrow> Some (c, (n, nd\<lparr>n_payload := PQuery (CpQuery (p\<lparr>qp_intent := (qp_intent p)\<lparr>qi_columns :=
               qi_columns (qp_intent p) @ [added_column t c]\<rparr>\<rparr>))\<rparr>) # ns))
         else map_option (\<lambda>(a, ns'). (a, (n, nd) # ns')) (key_alias t c ns)
     | None \<Rightarrow> map_option (\<lambda>(a, ns'). (a, (n, nd) # ns')) (key_alias t c ns))"

definition alias_by :: "string \<Rightarrow> string \<Rightarrow> string \<Rightarrow> (string \<times> string) list \<times> pipelineGraph \<Rightarrow> (string \<times> string) list \<times> pipelineGraph" where
  "alias_by col t c = (\<lambda>(m, g). case key_alias t c (g_nodes g) of None \<Rightarrow> (m, g)
     | Some (a, ns) \<Rightarrow> (al_set col a m, g\<lparr>g_nodes := ns\<rparr>))"

fun alias_by_edges :: "string \<Rightarrow> fkEdge list \<Rightarrow> (string \<times> string) list \<times> pipelineGraph \<Rightarrow> (string \<times> string) list \<times> pipelineGraph" where
  "alias_by_edges col [] st = st"
| "alias_by_edges col (e # es) st = (if ge_fromColumn e \<noteq> col then alias_by_edges col es st
     else (let st' = alias_by col (ge_toTable e) (ge_toColumn e) st in
       if truthy_text (map_of (fst st') col) then st' else alias_by_edges col es st'))"

definition source_edges :: "('b, 'w) enrichEnv \<Rightarrow> string \<Rightarrow> string \<Rightarrow> fkEdge list" where
  "source_edges ev ds t = (case Option.bind (get_source (ev_registry ev) ds) dx_schema of None \<Rightarrow> []
     | Some b \<Rightarrow> getOutbound (pd_fkGraph (bt_parsed b)) t)"

text \<open>A built schema has no property \<^verbatim>\<open>foreignKeys\<close>, so the third way to an alias finds nothing.\<close>

definition alias_column :: "('b, 'w) enrichEnv \<Rightarrow> string \<Rightarrow> string \<Rightarrow> row \<Rightarrow> (string \<times> string) list \<times> pipelineGraph \<Rightarrow> string \<Rightarrow>
    (string \<times> string) list \<times> pipelineGraph" where
  "alias_column ev ds t static st c = (if row_get static c \<noteq> JUndef \<or> al_has c (fst st) then st
     else case resolveCrossDatasourceFK (ev_registry ev) t c of
       Some k \<Rightarrow> alias_by c (ck_toTable k) (ck_toColumn k) st
     | None \<Rightarrow> alias_by_edges c (source_edges ev ds t) st)"

section \<open>Checks of the static values\<close>

definition drop_references :: "row \<Rightarrow> row" where
  "drop_references r = filter (\<lambda>(k, v). case v of JStr s \<Rightarrow> \<not> prefix ''$'' s | _ \<Rightarrow> True) r"

definition integer_types :: "string list" where
  "integer_types = [''INT'', ''INTEGER'', ''SERIAL'', ''BIGINT'']"

definition no_integer :: "builtSchema \<Rightarrow> string \<Rightarrow> string \<times> jsval \<Rightarrow> bool" where
  "no_integer b t = (\<lambda>(c, v). case (raw_column b t c, v) of
       (Some col, JStr s) \<Rightarrow> map ascii_upper (rc_type col) \<in> set integer_types \<and> js_number v = NaN
     | _ \<Rightarrow> False)"

definition drop_invalid_integers :: "builtSchema \<Rightarrow> string \<Rightarrow> row \<Rightarrow> row" where
  "drop_invalid_integers b t r = filter (\<lambda>e. \<not> no_integer b t e) r"

text \<open>\<^verbatim>\<open>startsWith(undefined)\<close> looks for the text \<^verbatim>\<open>undefined\<close>.\<close>

definition findClosestEnumValue :: "string \<Rightarrow> string list \<Rightarrow> string" where
  "findClosestEnumValue s vs = (let p = (case lower_ascii s of [] \<Rightarrow> ''undefined'' | c # _ \<Rightarrow> [c]) in
     case List.find (\<lambda>v. prefix p (lower_ascii v)) vs of Some v \<Rightarrow> v | None \<Rightarrow> hd vs)"

text \<open>\<^verbatim>\<open>replace(/^'(.*)'$/, '$1')\<close>; the dot is no line break.\<close>

definition unquoted :: "string \<Rightarrow> string" where
  "unquoted s = (let q = CHR 0x27; m = butlast (drop 1 s) in
     if length s \<ge> 2 \<and> hd s = q \<and> last s = q \<and> CHR 0x0A \<notin> set m \<and> CHR 0x0D \<notin> set m then m else s)"

definition enum_values :: "builtSchema \<Rightarrow> string \<Rightarrow> string \<Rightarrow> string list" where
  "enum_values b t c = (case Option.bind (map_of (bt_traits b) t) (\<lambda>ts. map_of ts c) of None \<Rightarrow> []
     | Some tr \<Rightarrow> opt_list (tr_enumValues tr))"

definition enum_substitute :: "builtSchema \<Rightarrow> string \<Rightarrow> string \<Rightarrow> string \<Rightarrow> string list \<Rightarrow> jsval option" where
  "enum_substitute b t c s vs = (let col = raw_column b t c in
     if truthy_text (Option.bind col rc_defaultRaw) then Some (JStr (unquoted (the (rc_defaultRaw (the col)))))
     else if map_option rc_nullable col = Some True then None
     else Some (JStr (findClosestEnumValue s vs)))"

definition check_enum :: "builtSchema \<Rightarrow> string \<Rightarrow> string \<times> jsval \<Rightarrow> (string \<times> jsval) option" where
  "check_enum b t = (\<lambda>(c, v). let vs = enum_values b t c; s = js_string v in
     if v = JNull \<or> v = JUndef \<or> vs = [] then Some (c, v)
     else case List.find (\<lambda>e. lower_ascii e = lower_ascii s) vs of
         Some e \<Rightarrow> if e = [] then map_option (Pair c) (enum_substitute b t c s vs)
           else if e = s then Some (c, v) else Some (c, JStr e)
       | None \<Rightarrow> map_option (Pair c) (enum_substitute b t c s vs))"

definition check_static :: "builtSchema \<Rightarrow> string \<Rightarrow> row \<Rightarrow> row" where
  "check_static b t r = List.map_filter (check_enum b t) (drop_invalid_integers b t (drop_references r))"

section \<open>The payload\<close>

record enrichedWrite =
  ew_payload :: writePayload
  ew_config :: "row option"
  ew_graph :: pipelineGraph

definition log_table :: "string \<Rightarrow> bool" where
  "log_table t \<longleftrightarrow> contains ''_log'' t \<or> contains ''_audit'' t \<or> contains ''notification'' t"

definition answered_mode :: "pipelineStepIntent \<Rightarrow> string \<Rightarrow> writeAnswer \<Rightarrow> writeMode" where
  "answered_mode s t a = (let m = (case wa_mode a of Some m \<Rightarrow> m | None \<Rightarrow> or_else (config_mode s) WInsert) in
     if log_table t \<and> m = WInsert then WInsertIgnore else m)"

definition answered_table :: "pipelineStepIntent \<Rightarrow> writeAnswer \<Rightarrow> string" where
  "answered_table s a = (case config_text s ''table'' of Some t \<Rightarrow> t | None \<Rightarrow> or_else (wa_table a) ''output'')"

definition log_column :: "string \<Rightarrow> string list \<Rightarrow> string list \<Rightarrow> string list" where
  "log_column t av cs = (if t = ''email_log'' \<and> ''id'' \<in> set av \<and> ''order_id'' \<notin> set cs then cs @ [''order_id''] else cs)"

definition auto_managed :: "string list" where
  "auto_managed = [''id'', ''created_at'', ''updated_at'', ''deleted_at'']"

definition text_array :: "string list \<Rightarrow> jsval" where
  "text_array xs = JArr (map JStr xs)"

definition optional_field :: "builtSchema \<Rightarrow> string \<Rightarrow> string \<times> rawColumn \<Rightarrow> jsval" where
  "optional_field b t = (\<lambda>(c, col). let ev = (case map_of (pd_constraints (bt_parsed b)) (column_key t c) of
         Some (CkEnum vs) \<Rightarrow> Some (map lower_ascii vs) | _ \<Rightarrow> None)
     in JObj [(''column'', JStr c), (''type'', JStr (if ev = None then rc_type col else ''enum'')),
       (''nullable'', JBool (rc_nullable col)), (''enumValues'', case ev of None \<Rightarrow> JUndef | Some vs \<Rightarrow> text_array vs)])"

definition optional_fields :: "builtSchema \<Rightarrow> string \<Rightarrow> string list \<Rightarrow> fieldRegistry \<Rightarrow> jsval list" where
  "optional_fields b t specified reg = (case map_of (pd_tables (bt_parsed b)) t of None \<Rightarrow> []
     | Some d \<Rightarrow> map (optional_field b t) (filter (\<lambda>(c, col). c \<notin> set auto_managed \<and> c \<notin> set specified \<and>
         rc_defaultRaw col = None \<and> c \<notin> set (map fi_name (getFieldsByState FsResolved reg))) (rt_columns d)))"

fun source_name :: "fieldSource \<Rightarrow> string" where
  "source_name FrLlm = ''LLM''"
| "source_name FrOriginal = ''ORIGINAL''"
| "source_name FrAutoInjected = ''AUTO_INJECTED''"
| "source_name FrUpstream = ''UPSTREAM''"
| "source_name FrDefault = ''DEFAULT''"
| "source_name FrSession = ''SESSION''"

definition resolved_field :: "fieldInfo \<Rightarrow> jsval" where
  "resolved_field f = JObj [(''column'', JStr (fi_name f)), (''source'', JStr (source_name (fi_source f))),
     (''value'', fi_resolvedValue f), (''isReadOnly'', case fi_isReadOnly f of None \<Rightarrow> JUndef | Some x \<Rightarrow> JBool x)]"

definition resolved_fields :: "fieldRegistry \<Rightarrow> jsval list" where
  "resolved_fields reg = map resolved_field (filter (\<lambda>f. fi_name f \<notin> set auto_managed) (getFieldsByState FsResolved reg))"

text \<open>The entries of \<^verbatim>\<open>fields\<close> are converted in place.\<close>

definition write_fields :: "pipelineStepIntent \<Rightarrow> row \<Rightarrow> row \<Rightarrow> row" where
  "write_fields s entries r = (case row_get r ''fields'' of
       JObj x \<Rightarrow> row_set ''fields'' (JObj entries) r
     | JArr vs \<Rightarrow> row_set ''fields'' (JArr (map snd entries)) r
     | _ \<Rightarrow> r)"

definition answered_write :: "('b, 'w) enrichEnv \<Rightarrow> builtSchema \<Rightarrow> string \<Rightarrow> pipelineStepIntent \<Rightarrow> string list \<Rightarrow> pipelineIntent \<Rightarrow>
    pipelineGraph \<Rightarrow> jsnum option \<Rightarrow> writeAnswer \<Rightarrow> enrichedWrite" where
  "answered_write ev b ds s av i g ws a =
     (let autos = autoValues b s ws; t = answered_table s a;
          originals = convertIfNeeded b (wa_table a) (original_entries s);
          static = static_answer b autos a;
          st = merge_answer (is_list s) originals autos static (wa_columns a);
          sv0 = convertIfNeeded b (wa_table a) (apply_autos autos (mg_static st));
          cs = log_column t av (mg_columns st);
          upstream = getUpstreamTablesTransitive (ps_id s) i g;
          (aliases, g') = foldl (alias_column ev ds t sv0) (extracted_aliases (original_entries s), g) cs;
          sv = check_static b t sv0
      in \<lparr>ew_payload = \<lparr>wp_table = t, wp_mode = answered_mode s t a, wp_columns = cs, wp_staticValues = Some sv,
            wp_staticWhere = Some (opt_list (wa_staticWhere a)), wp_wherePredicate = None,
            wp_conflictColumns = wa_conflictColumns a, wp_updateColumns = wa_updateColumns a, wp_whereColumns = wa_whereColumns a,
            wp_returning = None, wp_batchSize = None, wp_datasource = ''default'', wp_upstreamTables = Some upstream,
            wp_columnAliases = (if aliases = [] then None else Some aliases)\<rparr>,
          ew_config = map_option (\<lambda>r. row_set ''resolvedFields'' (JArr (resolved_fields (mg_registry st)))
            (row_set ''optionalFields'' (JArr (optional_fields b t (cs @ map fst sv) (mg_registry st)))
              (write_fields s originals r))) (ps_config s),
          ew_graph = g'\<rparr>)"

definition fallback_write :: "pipelineStepIntent \<Rightarrow> string list \<Rightarrow> writePayload" where
  "fallback_write s av = (let templated = (\<lambda>(k, v). contains ''{{'' (js_string v));
       cs = map fst (filter templated (original_entries s))
     in \<lparr>wp_table = or_else (config_text s ''table'') ''output'', wp_mode = or_else (config_mode s) WInsert,
       wp_columns = (if cs = [] then av else cs),
       wp_staticValues = Some (row_assign [] (filter (\<lambda>e. \<not> templated e) (original_entries s))),
       wp_staticWhere = None, wp_wherePredicate = None, wp_conflictColumns = None, wp_updateColumns = None, wp_whereColumns = None,
       wp_returning = None, wp_batchSize = None, wp_datasource = ''default'', wp_upstreamTables = None, wp_columnAliases = None\<rparr>)"

definition write_question :: "builtSchema \<Rightarrow> pipelineStepIntent \<Rightarrow> string list \<Rightarrow> string list \<Rightarrow> writeQuestion" where
  "write_question b s av ex = \<lparr>wq_description = ps_description s, wq_fields = row_get (step_config s) ''fields'',
     wq_available = av, wq_table = config_text s ''table'', wq_exclusions = ex, wq_enumHints = enum_hints b (target_table s) ex\<rparr>"

definition enrichWriteNode :: "('b, 'w) enrichEnv \<Rightarrow> pipelineStepIntent \<Rightarrow> fieldMap \<Rightarrow> pipelineIntent \<Rightarrow> pipelineGraph \<Rightarrow>
    string option \<Rightarrow> jsnum option \<Rightarrow> 'w \<Rightarrow> enrichedWrite res \<times> 'w" where
  "enrichWriteNode ev s m i g u ws w =
     (let av = uniq (concat (map (fields_of m) (opt_list (ps_dependsOn s))));
          (b, ds) = schema_for ev (target_table s);
          (ex, w1) = schema_exclusions ev b s u ws w;
          ex' = add_exclusions ex (map fst (auto_entries b s ws))
      in case ev_ask ev (write_question b s av ex') w1 of
           (Inl e, w2) \<Rightarrow> (Inl e, w2)
         | (Inr None, w2) \<Rightarrow> (Inr \<lparr>ew_payload = fallback_write s av, ew_config = ps_config s, ew_graph = g\<rparr>, w2)
         | (Inr (Some a), w2) \<Rightarrow> (Inr (answered_write ev b ds s av i g ws a), w2))"

end
