(* ===== verification/WriteEnrichmentFacts.thy ===== *)
theory WriteEnrichmentFacts
  imports WriteEnrichment Joins
begin

text \<open>
  What the payload of an enriched write holds: the values of the system, static values that passed the checks, and aliases
  that some query labelled.
\<close>

section \<open>Lookups through the passes\<close>

lemma map_of_apply_autos: "map_of (apply_autos as r) = map_of r ++ map_of (rev as)"
  by (induction as arbitrary: r) (auto simp: apply_autos_def)

lemma map_of_rev_distinct: "distinct (map fst as) \<Longrightarrow> map_of (rev as) = map_of as"
  by (induction as) (auto simp: map_add_def fun_eq_iff image_iff split: option.splits dest: map_of_SomeD)

lemma distinct_apply_autos [simp]: "distinct (map fst r) \<Longrightarrow> distinct (map fst (apply_autos as r))"
  by (induction as arbitrary: r) (auto simp: apply_autos_def)

lemma autoValues_apply: "autoValues b s ws = apply_autos (auto_entries b s ws) []"
  by (simp add: autoValues_def apply_autos_def)

lemma map_of_convert: "map_of (convertIfNeeded b T r) c = map_option (\<lambda>v. snd (convert_value b T (c, v))) (map_of r c)"
proof (induction r)
  case (Cons e r)
  obtain k v where e: "e = (k, v)" by force
  have "fst (convert_value b T (k, v)) = k" by (simp add: convert_value_def)
  then obtain x where "convert_value b T (k, v) = (k, x)" by (metis prod.collapse)
  with Cons e show ?case by (simp add: convertIfNeeded_def)
qed (simp add: convertIfNeeded_def)

lemma map_of_filter_kept: "map_of r c = Some x \<Longrightarrow> P (c, x) \<Longrightarrow> map_of (filter P r) c = Some x"
  by (induction r) (auto split: if_splits)

lemma check_enum_key: "check_enum b t e = Some e' \<Longrightarrow> fst e' = fst e"
  by (auto simp: check_enum_def Let_def split: if_splits option.splits prod.splits)

lemma map_of_map_filter_kept:
  "map_of r c = Some x \<Longrightarrow> check_enum b t (c, x) = Some (c, x) \<Longrightarrow> map_of (List.map_filter (check_enum b t) r) c = Some x"
proof (induction r)
  case (Cons e r)
  obtain k v where e: "e = (k, v)" by force
  with Cons check_enum_key [of b t e] show ?case
    by (cases "check_enum b t e") (auto simp: map_filter_simps split: if_splits)
qed simp

lemma checked_lookup:
  assumes "map_of r c = Some x" "\<not> no_integer b t (c, x)" "enum_values b t c = []"
    and "\<And>s. x = JStr s \<Longrightarrow> \<not> prefix ''$'' s"
  shows "map_of (check_static b t r) c = Some x"
  unfolding check_static_def
proof (rule map_of_map_filter_kept)
  show "map_of (drop_invalid_integers b t (drop_references r)) c = Some x"
    unfolding drop_invalid_integers_def drop_references_def
    by (intro map_of_filter_kept) (use assms in \<open>auto split: jsval.splits\<close>)
  show "check_enum b t (c, x) = Some (c, x)" using assms(3) by (simp add: check_enum_def)
qed

section \<open>The values of the system\<close>

lemma auto_entries_plain: "(c, JStr x) \<in> set (auto_entries b s ws) \<Longrightarrow> \<not> prefix ''$'' x"
proof -
  assume "(c, JStr x) \<in> set (auto_entries b s ws)"
  then have "x = ''NOW()'' \<or> x = audit_action s"
    by (auto simp: auto_entries_def session_columns_def split: option.splits if_splits)
  moreover have "audit_action s \<in> {''create'', ''update'', ''delete'', ''system''}"
    by (auto simp: audit_action_def split: option.splits dest!: map_of_SomeD)
  ultimately show ?thesis by auto
qed

lemma set_apply_autos: "set (apply_autos as r) \<subseteq> set as \<union> set r"
proof (induction as arbitrary: r)
  case (Cons e as)
  have "set (al_set k v r) \<subseteq> insert (k, v) (set r)" "set (row_insert k v r) \<subseteq> insert (k, v) (set r)" for k and v :: jsval and r
    by (induction r) (auto split: if_splits)
  then have set_row_set: "set (row_set k v r) \<subseteq> insert (k, v) (set r)" for k and v :: jsval and r
    by (simp add: row_set_def)
  show ?case
  proof (cases e)
    case (Pair k v)
    with Cons.IH [of "row_set k v r"] set_row_set [of k v r] show ?thesis by (auto simp: apply_autos_def)
  qed
qed (simp add: apply_autos_def)

lemma one_text [simp]: "pos_to_string 1 = ''1''"
  using num_of_int_exact [of 1] num_of_int_exact [of 2]
  by (simp add: pos_to_string_def floor_log10_def pow10_def upt_conv_Cons shortest_candidate_def Let_def
      layout_digits_def int_digits.simps char_of_def)

lemma one_number [simp]: "string_to_number ''1'' = Fin 1"
  using num_of_int_exact [of 1]
  by (simp add: string_to_number_def str_trim_def is_space_def split_sign_def parse_decimal_def is_digit_def
      parse_exponent_def digits_val_def pow10_def apply_sign_def Let_def)

lemma auto_entry_values:
  "(c, v) \<in> set (auto_entries b s (Some (Fin 1))) \<Longrightarrow> v = JNum (Fin 1) \<or> (\<exists>x. v = JStr x)"
  by (auto simp: auto_entries_def session_columns_def or_else_def split: option.splits if_splits)

lemma auto_value:
  assumes "map_of (autoValues b s (Some (Fin 1))) c = Some v"
  shows "v = JNum (Fin 1) \<or> (\<exists>x. v = JStr x \<and> \<not> prefix ''$'' x)"
proof -
  have "(c, v) \<in> set (auto_entries b s (Some (Fin 1)))"
    using assms set_apply_autos [of "auto_entries b s (Some (Fin 1))" "[]"] by (auto simp: autoValues_apply dest: map_of_SomeD)
  with auto_entry_values auto_entries_plain show ?thesis by blast
qed

lemma answered_static:
  "wp_staticValues (ew_payload (answered_write ev b ds s av i g ws a)) = Some (check_static b (answered_table s a)
     (convertIfNeeded b (wa_table a) (apply_autos (autoValues b s ws) (mg_static (merge_answer (is_list s)
       (convertIfNeeded b (wa_table a) (original_entries s)) (autoValues b s ws) (static_answer b (autoValues b s ws) a) (wa_columns a))))))"
  by (simp add: answered_write_def Let_def split: prod.splits)

lemma answered_target: "target_table s = Some t \<Longrightarrow> answered_table s a = t"
  by (auto simp: target_table_def answered_table_def truthy_text_def split: if_splits)

lemma auto_survives:
  assumes "target_table s = Some t" "map_of (autoValues b s (Some (Fin 1))) c = Some v" "enum_values b t c = []"
    and "\<And>x col. v = JStr x \<Longrightarrow> raw_column b t c = Some col \<Longrightarrow> map ascii_upper (rc_type col) \<notin> set integer_types"
  shows "row_get (opt_list (wp_staticValues (ew_payload (answered_write ev b ds s av i g (Some (Fin 1)) a)))) c \<in> {v, JStr (js_string v)}"
proof -
  let ?x = "snd (convert_value b (wa_table a) (c, v))"
  have x: "?x = v \<or> v = JNum (Fin 1) \<and> ?x = JStr ''1''"
    using auto_value [OF assms(2)] by (auto simp: convert_value_def)
  have "distinct (map fst (autoValues b s (Some (Fin 1))))" by (simp add: autoValues_apply)
  then have found: "map_of (convertIfNeeded b (wa_table a) (apply_autos (autoValues b s (Some (Fin 1))) r)) c = Some ?x" for r
    using assms(2) by (simp add: map_of_convert map_of_apply_autos map_of_rev_distinct)
  have "\<not> no_integer b t (c, ?x)" "?x = JStr y \<Longrightarrow> \<not> prefix ''$'' y" for y
    using x auto_value [OF assms(2)] assms(4) by (auto simp: no_integer_def split: option.splits jsval.splits)
  note safe = this
  from checked_lookup [OF found safe(1) assms(3) safe(2)] show ?thesis
    using x by (auto simp: answered_static answered_target [OF assms(1)] row_get_def)
qed

text \<open>Every payload is an answer completed or the fallback.\<close>

lemma enrich_cases:
  assumes "enrichWriteNode ev s m i g u ws w = (Inr e, w')" and "b = fst (schema_for ev (target_table s))"
  obtains (answered) a ds av where "e = answered_write ev b ds s av i g ws a"
  | (unanswered) q w1 where "fst (ev_ask ev q w1) = Inr None" "ew_payload e = fallback_write s (getAvailableFields (ps_id s)
      \<lparr>pi_description = [], pi_steps = [s], pi_params = None, pi_maxLLMCalls = None, pi_maxIterations = None, pi_timeoutMs = None\<rparr> m)"
    "ew_graph e = g"
proof -
  obtain ds where b: "schema_for ev (target_table s) = (b, ds)" using assms(2) by (cases "schema_for ev (target_table s)") auto
  obtain ex w1 where ex: "schema_exclusions ev b s u ws w = (ex, w1)" by force
  let ?av = "uniq (concat (map (fields_of m) (opt_list (ps_dependsOn s))))"
  let ?q = "write_question b s ?av (add_exclusions ex (map fst (auto_entries b s ws)))"
  obtain r w2 where r: "ev_ask ev ?q w1 = (r, w2)" by force
  show thesis
  proof (cases r)
    case (Inl x)
    with assms(1) show thesis by (simp add: enrichWriteNode_def b ex r Let_def)
  next
    case (Inr x)
    show thesis
    proof (cases x)
      case None
      with assms(1) Inr have "e = \<lparr>ew_payload = fallback_write s ?av, ew_config = ps_config s, ew_graph = g\<rparr>"
        by (simp add: enrichWriteNode_def b ex r Let_def)
      then show thesis using unanswered [of ?q w1] None Inr r
        by (simp add: getAvailableFields_def step_deps_def step_of_def)
    next
      case (Some a)
      with assms(1) Inr have "e = answered_write ev b ds s ?av i g ws a"
        by (simp add: enrichWriteNode_def b ex r Let_def)
      then show thesis by (rule answered)
    qed
  qed
qed

definition always_answers :: "('b, 'w) enrichEnv \<Rightarrow> bool" where
  "always_answers ev \<longleftrightarrow> (\<forall>q w. fst (ev_ask ev q w) \<noteq> Inr None)"

lemma answered_payload:
  assumes "always_answers ev" "enrichWriteNode ev s m i g u ws w = (Inr e, w')"
  obtains a ds av where "e = answered_write ev (fst (schema_for ev (target_table s))) ds s av i g ws a"
  using enrich_cases [OF assms(2) refl] assms(1) by (metis always_answers_def)


section \<open>Whose rows they are\<close>

definition owner_columns :: "string list" where
  "owner_columns = [''owner_user_id'', ''created_by_user_id'', ''updated_by_user_id'']"

lemma map_of_last: "(\<And>x. (c, x) \<in> set as \<Longrightarrow> x = v) \<Longrightarrow> c \<in> fst ` set as \<Longrightarrow> map_of (apply_autos as r) c = Some v"
proof -
  assume only: "\<And>x. (c, x) \<in> set as \<Longrightarrow> x = v" and "c \<in> fst ` set as"
  then have "map_of (rev as) c \<noteq> None" by (simp add: map_of_eq_None_iff)
  then obtain x where "map_of (rev as) c = Some x" by blast
  with only [of x] show ?thesis by (simp add: map_of_apply_autos map_add_def) (metis map_of_SomeD set_rev)
qed

lemma owner_value:
  assumes "c \<in> set owner_columns" "target_table s = Some t" "c \<in> set (column_names b t)"
  shows "map_of (autoValues b s ws) c = Some (JNum (Fin 1))"
  unfolding autoValues_apply
proof (rule map_of_last)
  have "\<not> timestamp_name stems c" if "stems \<in> {[''updated''], [''changed''], [''created'', ''updated'']}" for stems
    using that assms(1) by (auto simp: owner_columns_def timestamp_name_def lower_ascii_def ascii_lower_def)
  then have "\<not> timestamp_name (timestamp_stems s t) c" by (simp add: timestamp_stems_def)
  then show "(c, x) \<in> set (auto_entries b s ws) \<Longrightarrow> x = JNum (Fin 1)" for x
    using assms(1,2) by (auto simp: auto_entries_def session_columns_def owner_columns_def split: if_splits)
  show "c \<in> fst ` set (auto_entries b s ws)"
    using assms by (auto simp: auto_entries_def session_columns_def owner_columns_def image_Un)
qed

text \<open>
  C39: a row written through an answered write belongs to user 1, and was created and updated by user 1, whoever makes the
  request.  The id of the user is read from the data base, but only the list of columns to leave out is computed with it.
\<close>

theorem rows_belong_to_user_one:
  assumes "always_answers ev" and "enrichWriteNode ev s m i g u (Some (Fin 1)) w = (Inr e, w')"
    and "target_table s = Some t" and "b = fst (schema_for ev (Some t))"
    and "c \<in> set owner_columns" and "c \<in> set (column_names b t)" and "enum_values b t c = []"
  shows "row_get (opt_list (wp_staticValues (ew_payload e))) c \<in> {JNum (Fin 1), JStr ''1''}"
proof -
  obtain a ds av where e: "e = answered_write ev b ds s av i g (Some (Fin 1)) a"
    using answered_payload [OF assms(1,2)] assms(3,4) by metis
  show ?thesis
    unfolding e using auto_survives [OF assms(3) owner_value [OF assms(5,3,6)] assms(7), of ev ds av i g a] by simp
qed

section \<open>Checked values\<close>

lemma closest_listed: "vs \<noteq> [] \<Longrightarrow> findClosestEnumValue s vs \<in> set vs"
  by (auto simp: findClosestEnumValue_def find_Some_iff split: option.splits)

lemma substitute_cases:
  assumes "enum_substitute b t c s vs = Some x" "vs \<noteq> []"
  shows "js_string x \<in> set vs \<or> (\<exists>col d. raw_column b t c = Some col \<and> rc_defaultRaw col = Some d \<and> x = JStr (unquoted d))"
  using assms closest_listed [OF assms(2), of s]
  by (cases "raw_column b t c") (auto simp: enum_substitute_def truthy_text_def Let_def split: if_splits)

lemma checked_enum:
  assumes "check_enum b t (c, y) = Some (c, x)" "enum_values b t c \<noteq> []"
  shows "x = JNull \<or> x = JUndef \<or> js_string x \<in> set (enum_values b t c) \<or>
     (\<exists>col d. raw_column b t c = Some col \<and> rc_defaultRaw col = Some d \<and> x = JStr (unquoted d))"
proof -
  have listed: "List.find P vs = Some e \<Longrightarrow> e \<in> set vs" for P e and vs :: "string list"
    by (auto simp: find_Some_iff)
  from assms show ?thesis
    by (auto simp: check_enum_def Let_def dest: substitute_cases listed split: if_splits option.splits)
qed

lemma checked_member:
  assumes "(c, x) \<in> set (check_static b t r)"
  shows "\<exists>y. (c, y) \<in> set r \<and> \<not> no_integer b t (c, y) \<and> (\<forall>z. y = JStr z \<longrightarrow> \<not> prefix ''$'' z) \<and>
    check_enum b t (c, y) = Some (c, x)"
proof -
  obtain k y where y: "(k, y) \<in> set r" "\<not> no_integer b t (k, y)" "case y of JStr s \<Rightarrow> \<not> prefix ''$'' s | _ \<Rightarrow> True"
    "check_enum b t (k, y) = Some (c, x)"
    using assms by (auto simp: check_static_def map_filter_def drop_invalid_integers_def drop_references_def)
  with check_enum_key [of b t "(k, y)"] have "k = c" by simp
  moreover have "\<forall>z. y = JStr z \<longrightarrow> \<not> prefix ''$'' z" using y(3) by auto
  ultimately show ?thesis using y by blast
qed


section \<open>Without an answer\<close>

lemma set_row_assign: "set (row_assign r (fs :: row)) \<subseteq> set fs \<union> set r"
  using set_apply_autos [of fs r] by (simp add: apply_autos_def row_assign_def)

text \<open>
  without an answer that can be read, the payload holds nothing but original fields: no value of the system, no alias, and
  references to parameters stay in it as text.
\<close>

theorem unanswered_write_keeps_originals:
  assumes "\<forall>q w. fst (ev_ask ev q w) = Inr None" and "enrichWriteNode ev s m i g u ws w = (Inr e, w')"
  shows "set (opt_list (wp_staticValues (ew_payload e))) \<subseteq> {(k, v) \<in> set (original_entries s). \<not> contains ''{{'' (js_string v)} \<and>
    (\<forall>c. c \<notin> fst ` set (original_entries s) \<longrightarrow> row_get (opt_list (wp_staticValues (ew_payload e))) c = JUndef) \<and>
    wp_columnAliases (ew_payload e) = None"
proof -
  obtain av where e: "ew_payload e = fallback_write s av"
    using assms by (auto simp: enrichWriteNode_def Let_def split: prod.splits sum.splits option.splits) (metis fst_conv option.distinct(1) sum.inject(2))
  let ?sv = "opt_list (wp_staticValues (ew_payload e))"
  have sv: "set ?sv \<subseteq> {(k, v) \<in> set (original_entries s). \<not> contains ''{{'' (js_string v)}"
    using set_row_assign [of "[]"] by (fastforce simp: e fallback_write_def Let_def)
  have "row_get ?sv c = JUndef" if "c \<notin> fst ` set (original_entries s)" for c
  proof -
    have "c \<notin> fst ` set ?sv" using sv that by force
    then have "map_of ?sv c = None" by (simp add: map_of_eq_None_iff)
    then show ?thesis by (simp add: row_get_def)
  qed
  with sv show ?thesis by (simp add: e fallback_write_def Let_def)
qed

section \<open>Aliases\<close>

definition column_label :: "queryIntentColumn \<Rightarrow> string" where
  "column_label x = (if truthy_text (ic_alias x) then the (ic_alias x) else ic_field x)"

definition labelled :: "(string \<times> compiledPayload payload node) list \<Rightarrow> string \<Rightarrow> bool" where
  "labelled ns a \<longleftrightarrow> (\<exists>(n, nd) \<in> set ns. \<exists>p. query_of nd = Some p \<and> a \<in> column_label ` set (qi_columns (qp_intent p)))"

definition nodes_shape :: "(string \<times> compiledPayload payload node) list \<Rightarrow> (string \<times> string \<times> string \<times> errorPolicy) list" where
  "nodes_shape ns = map (\<lambda>(k, nd). (k, n_id nd, n_kind nd, n_errorPolicy nd)) ns"

lemma labelled_Cons: "labelled ((n, nd) # ns) a \<longleftrightarrow>
    (\<exists>p. query_of nd = Some p \<and> a \<in> column_label ` set (qi_columns (qp_intent p))) \<or> labelled ns a"
  by (auto simp: labelled_def)

lemma label_added [simp]: "column_label (added_column t c) = c"
  by (simp add: column_label_def added_column_def)

lemma query_of_payload: "query_of nd = Some p \<Longrightarrow> query_of (nd\<lparr>n_payload := PQuery (CpQuery p')\<rparr>) = Some p'"
  by (auto simp: query_of_def split: if_splits)

lemma key_alias_facts:
  "key_alias t c ns = Some (a, ns') \<Longrightarrow> labelled ns' a \<and> (\<forall>x. labelled ns x \<longrightarrow> labelled ns' x) \<and> nodes_shape ns' = nodes_shape ns"
proof (induction ns arbitrary: ns')
  case (Cons e ns)
  obtain n nd where e: "e = (n, nd)" by force
  show ?case
  proof (cases "\<exists>p. query_of nd = Some p \<and> covers (qp_intent p) t")
    case True
    then obtain p where p: "query_of nd = Some p" "covers (qp_intent p) t" by blast
    show ?thesis
    proof (cases "key_column (qp_intent p) t c")
      case None
      with Cons.prems p have "ns' = (n, nd\<lparr>n_payload := PQuery (CpQuery (p\<lparr>qp_intent := (qp_intent p)\<lparr>qi_columns :=
          qi_columns (qp_intent p) @ [added_column t c]\<rparr>\<rparr>))\<rparr>) # ns" "a = c" by (auto simp: e)
      then show ?thesis
        using query_of_payload [OF p(1)] by (auto simp: e labelled_Cons nodes_shape_def p(1) image_Un)
    next
      case (Some x)
      then have "x \<in> set (qi_columns (qp_intent p))" by (auto simp: key_column_def find_Some_iff)
      with Some Cons.prems p show ?thesis by (auto simp: e labelled_Cons column_label_def)
    qed
  next
    case False
    with Cons.prems obtain ns1 where "key_alias t c ns = Some (a, ns1)" "ns' = (n, nd) # ns1"
      by (auto simp: e split: option.splits if_splits)
    with Cons.IH [of ns1] show ?thesis by (auto simp: e labelled_Cons nodes_shape_def)
  qed
qed simp

text \<open>Aliases and graph go through the columns together.\<close>

definition aliases_ok :: "string set \<Rightarrow> (string \<times> string) list \<times> pipelineGraph \<Rightarrow> bool" where
  "aliases_ok known = (\<lambda>(m, g). \<forall>(c, a) \<in> set m. c \<in> known \<or> labelled (g_nodes g) a)"

definition graph_shape :: "pipelineGraph \<Rightarrow> (string \<times> string \<times> string \<times> errorPolicy) list \<times> pipelineGraph" where
  "graph_shape g = (nodes_shape (g_nodes g), g\<lparr>g_nodes := []\<rparr>)"

definition alias_step :: "string set \<Rightarrow> (string \<times> string) list \<times> pipelineGraph \<Rightarrow> (string \<times> string) list \<times> pipelineGraph \<Rightarrow> bool" where
  "alias_step known st st' \<longleftrightarrow> (aliases_ok known st \<longrightarrow> aliases_ok known st') \<and> graph_shape (snd st') = graph_shape (snd st)"

lemma alias_step_trans: "alias_step known st st1 \<Longrightarrow> alias_step known st1 st2 \<Longrightarrow> alias_step known st st2"
  by (simp add: alias_step_def)

lemma alias_step_refl [simp]: "alias_step known st st"
  by (simp add: alias_step_def)

lemma alias_by_step: "alias_step known st (alias_by col t c st)"
proof (cases "key_alias t c (g_nodes (snd st))")
  case None
  then show ?thesis by (cases st) (simp add: alias_by_def)
next
  case (Some r)
  obtain m g where st: "st = (m, g)" by force
  obtain a ns where r: "r = (a, ns)" by force
  note facts = key_alias_facts [OF Some [unfolded r]]
  have "aliases_ok known st \<longrightarrow> aliases_ok known (al_set col a m, g\<lparr>g_nodes := ns\<rparr>)"
    using facts set_al_set_subset [of col a m] by (fastforce simp: aliases_ok_def st)
  with facts Some show ?thesis by (simp add: alias_step_def alias_by_def graph_shape_def st r)
qed

lemma alias_by_edges_step: "alias_step known st (alias_by_edges col es st)"
proof (induction es arbitrary: st)
  case (Cons e es)
  from alias_step_trans [OF alias_by_step Cons.IH] show ?case by (simp add: Let_def alias_by_step Cons.IH)
qed simp

lemma alias_column_step: "alias_step known st (alias_column ev ds t static st c)"
  by (simp add: alias_column_def alias_by_step alias_by_edges_step split: option.split)

lemma alias_columns_step: "alias_step known st (foldl (alias_column ev ds t static) st cs)"
proof (induction cs arbitrary: st)
  case (Cons c cs)
  from alias_step_trans [OF alias_column_step Cons.IH] show ?case by simp
qed simp

lemma answered_aliases:
  assumes e_def: "e = answered_write ev b ds s av i g ws a"
  shows "aliases_ok (fst ` set (original_entries s)) (opt_list (wp_columnAliases (ew_payload e)), ew_graph e) \<and>
    graph_shape (ew_graph e) = graph_shape g"
proof -
  let ?known = "fst ` set (original_entries s)" and ?m0 = "extracted_aliases (original_entries s)"
  have "set (foldl (\<lambda>m (k, v). case table_field (js_string v) of None \<Rightarrow> m | Some f \<Rightarrow> al_set k f m) m r) \<subseteq>
      set m \<union> fst ` set r \<times> UNIV" for m and r :: row
  proof (induction r arbitrary: m)
    case (Cons e r)
    obtain k v where e: "e = (k, v)" by force
    from Cons.IH [of "case table_field (js_string v) of None \<Rightarrow> m | Some f \<Rightarrow> al_set k f m"]
    show ?case using set_al_set_subset [of k _ m] by (fastforce simp: e split: option.splits)
  qed simp
  from this [of "[]" "original_entries s"] have "aliases_ok ?known (?m0, g)" by (auto simp: aliases_ok_def extracted_aliases_def)
  then have step: "aliases_ok ?known (foldl (alias_column ev ds t sv) (?m0, g) cs) \<and>
      graph_shape (snd (foldl (alias_column ev ds t sv) (?m0, g) cs)) = graph_shape g" for t sv cs
    using alias_columns_step [of ?known "(?m0, g)" ev ds] by (simp add: alias_step_def)
  let ?t = "answered_table s a"
  let ?st = "merge_answer (is_list s) (convertIfNeeded b (wa_table a) (original_entries s)) (autoValues b s ws)
      (static_answer b (autoValues b s ws) a) (wa_columns a)"
  let ?fold = "foldl (alias_column ev ds ?t (convertIfNeeded b (wa_table a) (apply_autos (autoValues b s ws) (mg_static ?st))))
      (?m0, g) (log_column ?t av (mg_columns ?st))"
  obtain m g' where fold: "?fold = (m, g')" by force
  have "opt_list (wp_columnAliases (ew_payload e)) = m" "ew_graph e = g'"
    by (simp_all add: e_def answered_write_def Let_def fold)
  with step [of ?t _ "log_column ?t av (mg_columns ?st)"] fold show ?thesis by (metis fst_conv snd_conv)
qed

lemma enriched_shape:
  assumes "enrichWriteNode ev s m i g u ws w = (Inr e, w')"
  shows "graph_shape (ew_graph e) = graph_shape g"
  by (rule enrich_cases [OF assms refl]) (simp_all add: answered_aliases [OF refl])

text \<open>
  an alias of a column of an answered write, unless an original field gives it, is the name under which some query of the
  graph delivers a column; where no query selects the key, one is changed to select it.  Nothing else of the graph
  changes.
\<close>

theorem aliases_are_delivered:
  assumes "enrichWriteNode ev s m i g u ws w = (Inr e, w')"
  shows "(\<forall>(c, a) \<in> set (opt_list (wp_columnAliases (ew_payload e))). c \<in> fst ` set (original_entries s) \<or>
      labelled (g_nodes (ew_graph e)) a) \<and> graph_shape (ew_graph e) = graph_shape g"
proof (cases rule: enrich_cases [OF assms refl])
  case (1 a ds av)
  with answered_aliases [OF 1] show ?thesis by (auto simp: aliases_ok_def)
next
  case (2 q w1)
  then show ?thesis by (simp add: fallback_write_def Let_def)
qed

section \<open>A write of a task\<close>

definition plain_column :: "string \<Rightarrow> string \<Rightarrow> string \<times> rawColumn" where
  "plain_column n ty = (n, \<lparr>rc_name = n, rc_type = ty, rc_nullable = True, rc_primaryKey = False, rc_unique = False,
     rc_defaultRaw = None, rc_checkRaw = None\<rparr>)"

definition task_schema :: builtSchema where
  "task_schema = build_schema [(''tasks'', \<lparr>rt_columns = [plain_column ''workspace_id'' ''INT'', plain_column ''owner_user_id'' ''INT'',
     plain_column ''title'' ''TEXT''], rt_foreignKeys = [], rt_uniqueConstraints = []\<rparr>)] []"

definition task_step :: pipelineStepIntent where
  "task_step = \<lparr>ps_id = ''w1'', ps_kind = SkWrite, ps_description = ''add a task'', ps_dependsOn = None, ps_condition = None,
     ps_trueBranch = None, ps_falseBranch = None, ps_mergeStep = None, ps_loopMode = None, ps_loopOver = None, ps_loopBody = None,
     ps_maxIterations = None, ps_mergeFrom = None, ps_mergeStrategy = None, ps_parallelBranches = None, ps_maxConcurrency = None,
     ps_outputFields = None, ps_config = Some [(''table'', JStr ''tasks''), (''fields'', JObj [(''owner_user_id'', JNum (Fin 42))])]\<rparr>"

definition task_answer :: writeAnswer where
  "task_answer = \<lparr>wa_table = Some ''tasks'', wa_mode = None, wa_columns = None,
     wa_staticValues = Some [(''title'', JStr ''call''), (''workspace_id'', JNum (Fin 9))], wa_staticWhere = None,
     wa_conflictColumns = None, wa_updateColumns = None, wa_whereColumns = None\<rparr>"

definition task_env :: "writeAnswer option \<Rightarrow> (unit, unit) enrichEnv" where
  "task_env a = \<lparr>ev_registry = \<lparr>sr_sources = [], sr_crossKeys = []\<rparr>, ev_crmSchema = task_schema,
     ev_grants = empty_store,
     ev_crmUser = (\<lambda>_ w. (Inr None, w)), ev_ask = (\<lambda>_ w. (Inr a, w))\<rparr>"

definition task_intent :: pipelineIntent where
  "task_intent = \<lparr>pi_description = [], pi_steps = [task_step], pi_params = None, pi_maxLLMCalls = None, pi_maxIterations = None,
     pi_timeoutMs = None\<rparr>"

definition task_graph :: pipelineGraph where
  "task_graph = \<lparr>g_id = [], g_version = 1, g_nodes = [], g_edges = [], entryNode = ''_input'', exitNodes = [], g_metadata = JNull\<rparr>"

definition enrich_task :: "writeAnswer option \<Rightarrow> string \<Rightarrow> enrichedWrite res \<times> unit" where
  "enrich_task a u = enrichWriteNode (task_env a) task_step [] task_intent task_graph (Some u) (Some (Fin 1)) ()"

lemma task_facts:
  "target_table task_step = Some ''tasks''" "schema_for (task_env a) (Some ''tasks'') = (task_schema, ''default'')"
  "column_names task_schema ''tasks'' = [''workspace_id'', ''owner_user_id'', ''title'']"
  "enum_values task_schema ''tasks'' ''owner_user_id'' = []" "enum_values task_schema ''tasks'' ''workspace_id'' = []"
  "map_of (autoValues task_schema task_step (Some (Fin 1))) ''workspace_id'' = Some (JNum (Fin 1))"
  "always_answers (task_env (Some task_answer))"
  by (simp add: target_table_def config_text_def step_config_def task_step_def truthy_text_def,
      simp add: schema_for_def task_env_def, code_simp, code_simp, code_simp, code_simp, simp add: always_answers_def task_env_def)

lemma task_enriched: "\<exists>e. enrich_task a u = (Inr e, ())"
  by (cases a) (simp_all add: enrich_task_def enrichWriteNode_def task_env_def Let_def split: prod.split)

lemma task_schema_for: "task_schema = fst (schema_for (task_env a) (Some ''tasks''))"
  by (simp add: task_facts(2))


theorem rows_belong_to_user_one_witness:
  "\<exists>e. enrich_task (Some task_answer) ''u7'' = (Inr e, ()) \<and>
     row_get (opt_list (wp_staticValues (ew_payload e))) ''owner_user_id'' \<in> {JNum (Fin 1), JStr ''1''}"
proof -
  obtain e where e: "enrich_task (Some task_answer) ''u7'' = (Inr e, ())" using task_enriched by blast
  have "''owner_user_id'' \<in> set owner_columns" "''owner_user_id'' \<in> set (column_names task_schema ''tasks'')"
    by (simp_all add: owner_columns_def task_facts(3))
  from rows_belong_to_user_one [OF task_facts(7) e [unfolded enrich_task_def] task_facts(1) task_schema_for this task_facts(4)] e
  show ?thesis by blast
qed


theorem unanswered_write_keeps_originals_witness:
  "\<exists>e. enrich_task None ''u7'' = (Inr e, ()) \<and> row_get (opt_list (wp_staticValues (ew_payload e))) ''workspace_id'' = JUndef"
proof -
  obtain e where e: "enrich_task None ''u7'' = (Inr e, ())" using task_enriched by blast
  have "\<forall>q w. fst (ev_ask (task_env None) q w) = Inr None" by (simp add: task_env_def)
  from unanswered_write_keeps_originals [OF this e [unfolded enrich_task_def]] e show ?thesis
    by (auto simp: original_entries_def step_config_def task_step_def)
qed

theorem aliases_are_delivered_witness:
  "\<exists>e. enrich_task (Some task_answer) ''u7'' = (Inr e, ()) \<and> graph_shape (ew_graph e) = graph_shape task_graph"
proof -
  obtain e where e: "enrich_task (Some task_answer) ''u7'' = (Inr e, ())" using task_enriched by blast
  from aliases_are_delivered [OF e [unfolded enrich_task_def]] e show ?thesis by blast
qed

end
