(* ===== verification/QueryPages.thy ===== *)
theory QueryPages
  imports QueryExec
begin

text \<open>
  What running a query delivers.  Chains of operators are taken one at a time: each lemma of the
  locale of row sources assumes the contract of the operator below and proves the run of the rest.
\<close>

section \<open>Chains of operators\<close>

definition page_of :: "(int \<times> int) option \<Rightarrow> 'a list \<Rightarrow> 'a list" where
  "page_of page rs = (case page of None \<Rightarrow> rs | Some (n, off) \<Rightarrow> take (nat n) (drop (nat off) rs))"

lemma length_page_of: "length (page_of page rs) \<le> length rs"
  by (auto simp: page_of_def split: option.split)

definition projected :: "queryServices \<Rightarrow> projectionSpec list \<Rightarrow> execContext \<Rightarrow> row \<Rightarrow> row" where
  "projected v cols c r = projr (project_row (qv_host v) (qv_functions v) cols (ctx_scope c) r)"

definition projects :: "queryServices \<Rightarrow> projectionSpec list \<Rightarrow> execContext \<Rightarrow> row list \<Rightarrow> bool" where
  "projects v cols c rs \<longleftrightarrow> list_all (\<lambda>r. isl (project_row (qv_host v) (qv_functions v) cols (ctx_scope c) r) = False) rs"

definition sorts_to :: "queryServices \<Rightarrow> execContext \<Rightarrow> (sortKey list \<times> nat) option \<Rightarrow> row list \<Rightarrow> row list \<Rightarrow> bool" where
  "sorts_to v c keys rs out \<longleftrightarrow> (case keys of None \<Rightarrow> out = rs
     | Some (ks, limit) \<Rightarrow> sortRows (row_eval (qv_host v) (qv_functions v) c) ks limit rs = Some (Inr out))"

definition groups_to :: "queryServices \<Rightarrow> execContext \<Rightarrow> (exprAST list \<times> aggSpec list \<times> nat) option \<Rightarrow> row list \<Rightarrow> row list \<Rightarrow> bool" where
  "groups_to v c agg rs out \<longleftrightarrow> (case agg of None \<Rightarrow> out = rs
     | Some (gs, as, n) \<Rightarrow> 0 < n \<and> aggregate (row_eval (qv_host v) (qv_functions v) c) gs as rs = Inr out)"

context row_source
begin

lemma run_limit_page:
  assumes "opens_to op valid rows i c rs" "int (length rs) \<le> maxRowsPerNode (budget c)" "0 < maxRowsPerNode (budget c)"
  shows "\<exists>sc t'. run_limit page op i c t = Some (Inr \<lparr>b_rows = page_of page rs, b_schema = sc\<rparr>, t')"
proof -
  have n: "0 < nat (maxRowsPerNode (budget c))" using assms(3) by simp
  show ?thesis
  proof (cases page)
    case None
    from collectAll_delivers [OF assms(1) n, of t] assms(2) None show ?thesis
      by (auto simp: run_limit_def run_collect_def page_of_def)
  next
    case (Some p)
    obtain l off where p: "p = (l, off)" by (cases p)
    have "int (length (take (nat l) (drop (nat off) rs))) \<le> maxRowsPerNode (budget c)" using assms(2) by simp
    with row_source.collectAll_delivers [OF limit_row_source limit_opens [OF assms(1), of l off] n, of t] Some p
    show ?thesis by (auto simp: run_limit_def run_collect_def page_of_def)
  qed
qed

lemma run_project_page:
  assumes "opens_to op valid rows i c rs" "projects v cols c rs"
    and "int (length rs) \<le> maxRowsPerNode (budget c)" "0 < maxRowsPerNode (budget c)"
  shows "\<exists>sc t'. run_project v cols page op i c t =
    Some (Inr \<lparr>b_rows = page_of page (map (projected v cols c) rs), b_schema = sc\<rparr>, t')"
  unfolding run_project_def projected_def
  by (rule row_source.run_limit_page [OF project_row_source project_opens [OF assms(1)]])
    (use assms in \<open>simp_all add: projects_def\<close>)

lemma run_sort_page:
  assumes "opens_to op valid rows i c rs" "\<And>t. \<exists>s' t'. op_close op (i, t) = Some (Inr (), s', t')"
    and "sorts_to v c keys rs out" "projects v cols c out" "length out = length rs"
    and "int (length rs) \<le> maxRowsPerNode (budget c)" "0 < maxRowsPerNode (budget c)"
  shows "\<exists>sc t'. run_sort v keys cols page op i c t =
    Some (Inr \<lparr>b_rows = page_of page (map (projected v cols c) out), b_schema = sc\<rparr>, t')"
proof (cases keys)
  case None
  with run_project_page [of i c rs v cols page t] assms show ?thesis by (simp add: run_sort_def sorts_to_def)
next
  case (Some k)
  obtain ks limit where k: "k = (ks, limit)" by (cases k)
  have b: "builds (sort_build (qv_host v) (qv_functions v) ks limit) c rs out"
    by (rule sort_builds) (use assms(3) Some k in \<open>simp add: sorts_to_def row_eval_def [abs_def]\<close>)
  have "\<exists>sc t'. run_project v cols page (build_operator ''Sort'' ''SortOperator''
      (sort_build (qv_host v) (qv_functions v) ks limit) op) (new_build i (qv_temp v)) c t =
    Some (Inr \<lparr>b_rows = page_of page (map (projected v cols c) out), b_schema = sc\<rparr>, t')"
    by (rule row_source.run_project_page [OF build_row_source [OF assms(1,2) b assms(6,7)] build_opens [OF assms(1)]])
      (use assms in simp_all)
  then show ?thesis using Some k by (simp add: run_sort_def sortOperator_def)
qed

lemma build_close_idle:
  assumes "\<And>t. \<exists>s' t'. op_close op (i, t) = Some (Inr (), s', t')"
  shows "\<exists>s' t'. op_close (build_operator kind name bf op) (new_build i ts, t) = Some (Inr (), s', t')"
proof -
  obtain s' t' where "op_close op (i, t) = Some (Inr (), s', t')" using assms by blast
  then show ?thesis
    by (simp add: build_operator_def base_operator_def base_close_def new_build_def new_phys_def build_doClose_def zoom_def)
qed

lemma run_agg_page:
  assumes "opens_to op valid rows i c rs" "\<And>t. \<exists>s' t'. op_close op (i, t) = Some (Inr (), s', t')"
    and "groups_to v c agg rs mid" "sorts_to v c keys mid out" "projects v cols c out" "length out = length mid"
    and "int (length rs) \<le> maxRowsPerNode (budget c)" "int (length mid) \<le> maxRowsPerNode (budget c)" "0 < maxRowsPerNode (budget c)"
  shows "\<exists>sc t'. run_agg v agg None keys cols page op i c t =
    Some (Inr \<lparr>b_rows = page_of page (map (projected v cols c) out), b_schema = sc\<rparr>, t')"
proof (cases agg)
  case None
  with run_sort_page [of i c rs v keys out cols page t] assms show ?thesis
    by (simp add: run_agg_def run_having_def groups_to_def)
next
  case (Some a)
  obtain gs as n where a: "a = (gs, as, n)" by (cases a)
  have b: "builds (agg_build (qv_host v) (qv_functions v) gs as n) c rs mid"
    by (rule agg_builds) (use assms(3) Some a in \<open>simp_all add: groups_to_def row_eval_def [abs_def]\<close>)
  have "\<exists>sc t'. run_sort v keys cols page (build_operator ''Agg'' ''AggOperator''
      (agg_build (qv_host v) (qv_functions v) gs as n) op) (new_build i (qv_temp v)) c t =
    Some (Inr \<lparr>b_rows = page_of page (map (projected v cols c) out), b_schema = sc\<rparr>, t')"
    by (rule row_source.run_sort_page [OF build_row_source [OF assms(1,2) b assms(7,9)] build_opens [OF assms(1)]
        build_close_idle [OF assms(2)] assms(4)]) (use assms in simp_all)
  then show ?thesis using Some a by (simp add: run_agg_def run_having_def aggOperator_def)
qed

end

section \<open>Local queries\<close>

definition tree_builder :: "queryServices \<Rightarrow> treeBuilder" where
  "tree_builder v = \<lparr>tb_backend = sb_scan (qv_backend v), tb_batchSize = qv_batchSize v\<rparr>"

definition query_scan :: "queryServices \<Rightarrow> queryAST \<Rightarrow> scanOptions" where
  "query_scan v ast = (scan_options (tree_builder v) (qa_from ast))\<lparr>so_predicate := qa_where ast\<rparr>"

definition query_page :: "queryAST \<Rightarrow> (int \<times> int) option" where
  "query_page ast = (if qa_limit ast = None \<and> qa_offset ast = None then None
     else Some (int_or (qa_limit ast) max_safe_integer, int_or (qa_offset ast) 0))"

definition query_keys :: "queryAST \<Rightarrow> sortKey list" where
  "query_keys ast = map sort_key (opt_list (qa_orderBy ast))"

definition query_groups :: "queryServices \<Rightarrow> queryAST \<Rightarrow> (exprAST list \<times> aggSpec list \<times> nat) option" where
  "query_groups v ast = (if qa_groupBy ast = None \<and> qa_aggregations ast = None then None
     else Some (opt_list (qa_groupBy ast), opt_list (qa_aggregations ast), qv_batchSize v))"

definition query_sorting :: "queryAST \<Rightarrow> (sortKey list \<times> nat) option" where
  "query_sorting ast = (if opt_list (qa_orderBy ast) = [] then None else Some (query_keys ast, memoryLimitRows))"

definition where_is_local :: "queryAST \<Rightarrow> bool" where
  "where_is_local ast \<longleftrightarrow> sn_predicate (qa_from ast) = None \<and>
     (case qa_where ast of None \<Rightarrow> True | Some p \<Rightarrow> \<not> predicateReferencesOtherTables p (sn_table (qa_from ast)))"

lemma placed_where:
  "where_is_local ast \<Longrightarrow> place_opt (qa_where ast) (PhScan (scan_options (tree_builder v) (qa_from ast))) = PhScan (query_scan v ast)"
  by (auto simp: where_is_local_def place_opt_def query_scan_def scan_options_def split: option.splits)

lemma local_tree_parts:
  assumes "qa_joins ast = []" "qa_having ast = None" "where_is_local ast"
  shows "run_tree v (plan_tree (tree_builder v) ast) c t = run_agg v (query_groups v ast) None (query_sorting ast)
    (all_projections ast) (query_page ast) (scanOperator (query_scan v ast)) (new_phys None) c t"
    and "requests (plan_tree (tree_builder v) ast) = (if sn_schema (qa_from ast) = [] then [] else [scan_request (query_scan v ast)])"
proof -
  have tree: "plan_tree (tree_builder v) ast = limit_tree ast (PhProject (all_projections ast) (sort_tree ast
      (group_tree (tree_builder v) ast (PhScan (query_scan v ast)))))"
    using assms(1,2) placed_where [OF assms(3)] by (simp add: plan_tree_def join_tree_def) (simp add: place_opt_def)
  show "run_tree v (plan_tree (tree_builder v) ast) c t = run_agg v (query_groups v ast) None (query_sorting ast)
    (all_projections ast) (query_page ast) (scanOperator (query_scan v ast)) (new_phys None) c t"
    unfolding tree by (simp add: run_tree_def limit_tree_def sort_tree_def group_tree_def query_page_def query_keys_def
        query_sorting_def query_groups_def tree_builder_def run_where_def)
  show "requests (plan_tree (tree_builder v) ast) = (if sn_schema (qa_from ast) = [] then [] else [scan_request (query_scan v ast)])"
    unfolding tree by (simp add: limit_tree_def sort_tree_def group_tree_def query_scan_def scan_options_def)
qed

lemma js_sort_no_keys: "js_sort (\<lambda>a b. 0) xs = xs"
proof (induction xs)
  case (Cons x xs)
  then show ?case by (cases xs) (simp_all add: js_sort_def)
qed (simp add: js_sort_def)

lemma sorts_uniform:
  assumes "set rs \<subseteq> uniform_rows (row_eval (qv_host v) (qv_functions v) c) ks" "map fst ks = query_keys ast"
  shows "sorts_to v c (query_sorting ast) rs
    (js_sort (\<lambda>a b. compareRows (row_eval (qv_host v) (qv_functions v) c) a b (query_keys ast)) rs)"
proof (cases "opt_list (qa_orderBy ast) = []")
  case True
  then have "query_keys ast = []" by (simp add: query_keys_def)
  with True show ?thesis by (simp add: sorts_to_def query_sorting_def js_sort_no_keys)
next
  case False
  have "sortRows (row_eval (qv_host v) (qv_functions v) c) (map fst ks) memoryLimitRows rs =
    Some (Inr (js_sort (\<lambda>a b. compareRows (row_eval (qv_host v) (qv_functions v) c) a b (map fst ks)) rs))"
    by (rule sortRows_uniform [OF assms(1)]) (simp add: memoryLimitRows_def)
  with False assms(2) show ?thesis by (simp add: sorts_to_def query_sorting_def)
qed

text \<open>The where-clause that the builder makes of filters without subqueries mentions no table.\<close>

lemma filter_no_tables:
  assumes "\<not> has_subquery f" "buildFilterExpr f = Inr e"
  shows "collect_tables e = []"
proof -
  have b: "collect_tables x = []" if "between_expr f = Inr x" for x
    using that by (auto simp: between_expr_def literal_any_def split: option.splits list.splits)
  have o: "collect_tables x = []" if "binary_filter op f = Inr x" for op x
    using that by (auto simp: binary_filter_def literal_any_def split: if_splits)
  show ?thesis using assms
    by (cases "if_operator f") (auto simp: buildFilterExpr_def has_subquery_def in_expr_def Let_def
        split: option.splits dest!: b o)
qed

lemma foldl_no_tables:
  "collect_tables e = [] \<Longrightarrow> (\<And>x. x \<in> set es \<Longrightarrow> collect_tables x = []) \<Longrightarrow> collect_tables (foldl (BinaryOp op) e es) = []"
  by (induction es arbitrary: e) auto

lemma combine_no_tables:
  "(\<And>x. x \<in> set es \<Longrightarrow> collect_tables x = []) \<Longrightarrow> combine op es = Some e \<Longrightarrow> collect_tables e = []"
  by (cases es) (auto intro!: foldl_no_tables)

definition members :: "filterGroups \<Rightarrow> filterOperator \<times> jsonText \<Rightarrow> queryIntentFilter list" where
  "members groups k = (case map_of groups k of None \<Rightarrow> [] | Some g \<Rightarrow> g)"

lemma members_set: "members (al_set k g groups) k' = (if k' = k then g else members groups k')"
  by (simp add: members_def)

lemma group_filters_spec:
  assumes "group_filters fs groups = Inr out" "distinct (map fst groups)"
  shows "distinct (map fst out)"
    and "set (map fst out) = set (map fst groups) \<union> {k. \<exists>f \<in> set fs. filter_key f = Inr k}"
    and "members out k = members groups k @ filter (\<lambda>f. filter_key f = Inr k) fs"
    and "\<forall>f \<in> set fs. \<exists>k. filter_key f = Inr k"
proof -
  have "distinct (map fst out) \<and> set (map fst out) = set (map fst groups) \<union> {k. \<exists>f \<in> set fs. filter_key f = Inr k} \<and>
    (\<forall>k. members out k = members groups k @ filter (\<lambda>f. filter_key f = Inr k) fs) \<and> (\<forall>f \<in> set fs. \<exists>k. filter_key f = Inr k)"
    using assms
  proof (induction fs arbitrary: groups)
    case (Cons a fs)
    then obtain k where k: "filter_key a = Inr k" by (auto simp: result_simps)
    with Cons.prems(1) have "group_filters fs (al_set k (members groups k @ [a]) groups) = Inr out"
      by (simp add: members_def)
    from Cons.IH [OF this] Cons.prems(2) k show ?case by (auto simp: members_set)
  qed simp
  then show "distinct (map fst out)" "set (map fst out) = set (map fst groups) \<union> {k. \<exists>f \<in> set fs. filter_key f = Inr k}"
    "members out k = members groups k @ filter (\<lambda>f. filter_key f = Inr k) fs" "\<forall>f \<in> set fs. \<exists>k. filter_key f = Inr k"
    by blast+
qed

lemma group_members:
  assumes "group_filters fs [] = Inr out" "(k, g) \<in> set out"
  shows "g = filter (\<lambda>f. filter_key f = Inr k) fs" "g \<noteq> []"
proof -
  note spec = group_filters_spec [OF assms(1), simplified]
  have "members out k = g" using spec(1) assms(2) by (simp add: members_def)
  with spec(3) show g: "g = filter (\<lambda>f. filter_key f = Inr k) fs" by (simp add: members_def)
  have "k \<in> set (map fst out)" using assms(2) by force
  with spec(2) g show "g \<noteq> []" by (auto simp: filter_empty_conv)
qed

lemma group_expr_Inr:
  assumes "group_expr g = Inr e" "g \<noteq> []"
  obtains es where "mapR buildFilterExpr g = Inr es" "combine OOr es = Some e"
proof -
  from assms(1) obtain es where es: "mapR buildFilterExpr g = Inr es" "e = the (combine OOr es)"
    by (auto simp: group_expr_def result_simps)
  with assms(2) have "es \<noteq> []" using mapR_length by fastforce
  with es that show thesis by (cases es) auto
qed

lemma mapR_members: "mapR f xs = Inr ys \<Longrightarrow> y \<in> set ys \<Longrightarrow> \<exists>x \<in> set xs. f x = Inr y"
  by (induction xs arbitrary: ys) (auto simp: result_simps)

lemma where_no_tables:
  assumes "\<And>f. f \<in> set fs \<Longrightarrow> \<not> has_subquery f" "buildWhereExpr fs = Inr (Some e)"
  shows "collect_tables e = []"
proof (cases "length fs \<le> 1")
  case True
  with assms obtain f where "fs = [f]" by (cases fs) (auto simp: buildWhereExpr_def)
  with assms filter_no_tables show ?thesis by (auto simp: buildWhereExpr_def result_simps)
next
  case False
  then have "buildWhereExpr fs = bindR (group_filters fs []) (\<lambda>groups.
      bindR (mapR (\<lambda>g. group_expr (snd g)) groups) (\<lambda>es. Inr (combine OAnd es)))"
    by (cases fs rule: remdups_adj.cases) (auto simp: buildWhereExpr_def)
  with assms(2) obtain groups es where g: "group_filters fs [] = Inr groups" "mapR (\<lambda>g. group_expr (snd g)) groups = Inr es"
    "combine OAnd es = Some e" by (auto simp: result_simps)
  have "collect_tables x = []" if x: "x \<in> set es" for x
  proof -
    obtain k gs where k: "(k, gs) \<in> set groups" "group_expr gs = Inr x" using mapR_members [OF g(2) x] by auto
    obtain xs where xs: "mapR buildFilterExpr gs = Inr xs" "combine OOr xs = Some x"
      using group_expr_Inr [OF k(2) group_members(2) [OF g(1) k(1)]] .
    have "collect_tables y = []" if y: "y \<in> set xs" for y
    proof -
      obtain f where "f \<in> set gs" "buildFilterExpr f = Inr y" using mapR_members [OF xs(1) y] by blast
      with group_members(1) [OF g(1) k(1)] assms(1) show ?thesis by (auto intro: filter_no_tables)
    qed
    from combine_no_tables [OF this xs(2)] show ?thesis .
  qed
  from combine_no_tables [OF this g(3)] show ?thesis .
qed

lemma built_where_local:
  assumes "buildAST s q = Inr ast" "\<not> needsCalcite q"
  shows "where_is_local ast" "qa_joins ast = []"
proof -
  from assms(1) obtain scan js wh hv where p: "buildScanNode s q = Inr scan" "mapR (buildJoinNode s q) (intent_joins q) = Inr js"
    "buildWhereExpr (where_filters q) = Inr wh" "qa_from ast = scan" "qa_joins ast = js" "qa_where ast = wh"
    by (auto simp: buildAST_def result_simps Let_def)
  from assms(2) have no_joins: "intent_joins q = []" and subs: "\<not> has_subquery f" if "f \<in> set (opt_list (qi_filters q))" for f
    using that by (auto simp: needsCalcite_def list_ex_iff)
  have nj: "intent_joins q = []" using assms(2) by (simp add: needsCalcite_def)
  with p(2,5) show "qa_joins ast = []" by simp
  have "\<not> has_subquery f" if "f \<in> set (where_filters q)" for f
    using that subs nj by (auto simp: where_filters_def primary_filters_def)
  then have "collect_tables e = []" if "wh = Some e" for e using where_no_tables p(3) that by blast
  moreover have "sn_predicate scan = None" using p(1) by (auto simp: buildScanNode_def result_simps)
  ultimately show "where_is_local ast"
    using p(4,6) by (simp add: where_is_local_def predicateReferencesOtherTables_def split: option.split)
qed

lemma execute_local:
  assumes "resolve_intent c q0 = (q, Inr ())" "\<not> truthy_text ds \<or> the ds = ''default''" "\<not> needsCalcite q"
    and "build (qv_schema v) q ef = Inr (BuiltAST ast)" "inj (qv_ids v)"
  shows "execute v q0 c ef ds t = map_option (\<lambda>(r, t'). \<lparr>en_result = mapRes local_result r, en_intent = q, en_trace = t',
    en_sent = map Scanned (requests (plan_tree (tree_builder v) ast))\<rparr>) (run_tree v (plan_tree (tree_builder v) ast) c t)"
  using assms planned_tree [OF assms(5), of "tree_builder v" ast]
  by (auto simp: execute_def run_local_def local_tree_def tree_builder_def option.map_comp comp_def case_prod_unfold Let_def)

lemma build_AST: "build s q ef = Inr (BuiltAST ast) \<Longrightarrow> buildAST s q = Inr ast"
  by (auto simp: build_def result_simps split: if_splits)

section \<open>What a local query returns\<close>

definition query_rows :: "queryServices \<Rightarrow> queryAST \<Rightarrow> execContext \<Rightarrow> row list \<Rightarrow> row list" where
  "query_rows v ast c rs = page_of (query_page ast) (map (projected v (all_projections ast) c)
     (js_sort (\<lambda>a b. compareRows (row_eval (qv_host v) (qv_functions v) c) a b (query_keys ast)) rs))"

definition id_column :: columnConfig where
  "id_column = \<lparr>cc_name = ''id'', cc_type = TNumber, cc_nullable = False, cc_hasDefault = None, cc_isGenerated = None,
     cc_defaultValue = None, cc_primaryKey = None, cc_description = None, cc_examples = None\<rparr>"

definition id_table :: "string \<Rightarrow> tableConfig" where
  "id_table n = \<lparr>tc_name = n, tc_alias = None, tc_description = None, tc_columns = [id_column], tc_primaryKey = [''id''],
     tc_datasource = None, tc_displayName = None\<rparr>"

definition id_schema :: schemaConfig where
  "id_schema = \<lparr>sc_tables = [(''t'', id_table ''t''), (''u'', id_table ''u'')], sc_foreignKeys = [], sc_version = ''1'',
     sc_description = None\<rparr>"

definition id_filter :: "filterOperator \<Rightarrow> jsval option \<Rightarrow> queryIntentFilter" where
  "id_filter op v = \<lparr>if_field = ''id'', if_table = None, if_operator = op, if_value = v, if_valueRef = None, if_expr = None,
     if_caseInsensitive = None\<rparr>"

definition id_intent :: "queryIntentFilter list \<Rightarrow> queryIntent" where
  "id_intent fs = \<lparr>qi_table = ''t'', qi_columns = [\<lparr>ic_field = ''id'', ic_table = None, ic_alias = Some ''key'', ic_agg = None,
       ic_expr = None\<rparr>], qi_joins = None, qi_filters = Some fs, qi_groupBy = None, qi_aggregations = None, qi_having = None,
     qi_orderBy = Some [\<lparr>io_field = ''id'', io_table = None, io_direction = Some Desc, io_nulls = None, io_expr = None\<rparr>],
     qi_limit = Some 2, qi_offset = Some 1, qi_distinct = None\<rparr>"

definition counting_ids :: ids where
  "counting_ids n = replicate n CHR ''x''"

lemma counting_ids_inj: "inj counting_ids"
  by (rule injI) (metis counting_ids_def length_replicate)

definition id_services :: queryServices where
  "id_services = \<lparr>qv_schema = id_schema, qv_backend = \<lparr>sb_scan = \<lambda>_. stream_of sample_batches, sb_rawQuery = \<lambda>_ _. Inr [],
       sb_pool = None\<rparr>, qv_registry = \<lambda>_. None, qv_calcite = None, qv_ids = counting_ids, qv_host = no_host,
     qv_functions = [], qv_temp = [], qv_batchSize = 2, qv_executionId = ''e''\<rparr>"

lemma local_query:
  assumes "resolve_intent c q0 = (q, Inr ())" and "\<not> truthy_text ds \<or> the ds = ''default''" and "\<not> needsCalcite q"
    and "build (qv_schema v) q ef = Inr (BuiltAST ast)" and "inj (qv_ids v)" and "qa_having ast = None"
    and "sn_schema (qa_from ast) \<noteq> []"
    and "sb_scan (qv_backend v) (scan_request (query_scan v ast)) = stream_of bs" and "nonempty_batches bs"
    and "rs = scanned_rows (query_scan v ast) bs" and "groups_to v c (query_groups v ast) rs mid"
    and "set mid \<subseteq> uniform_rows (row_eval (qv_host v) (qv_functions v) c) ks" and "map fst ks = query_keys ast"
    and "projects v (all_projections ast) c mid"
    and "int (length rs) \<le> maxRowsPerNode (budget c)" and "int (length mid) \<le> maxRowsPerNode (budget c)"
    and "0 < maxRowsPerNode (budget c)"
  shows "\<exists>sc t'. execute v q0 c ef ds t = Some \<lparr>en_result = Inr \<lparr>qr_rows = query_rows v ast c mid, qr_schema = sc,
      qr_rowCount = length (query_rows v ast c mid), qr_optimizations = []\<rparr>, en_intent = q, en_trace = t',
    en_sent = [Scanned (scan_request (query_scan v ast))]\<rparr>"
proof -
  let ?out = "js_sort (\<lambda>a b. compareRows (row_eval (qv_host v) (qv_functions v) c) a b (query_keys ast)) mid"
  note loc = built_where_local [OF build_AST [OF assms(4)] assms(3)]
  have sch: "so_schema (query_scan v ast) \<noteq> []" "so_backend (query_scan v ast) (scan_request (query_scan v ast)) = stream_of bs"
    using assms(7,8) by (simp_all add: query_scan_def scan_options_def tree_builder_def)
  have "set ?out = set mid" by (metis mset_js_sort mset_eq_setD)
  then have proj: "projects v (all_projections ast) c ?out" using assms(14) by (auto simp: projects_def list_all_iff)
  obtain sc t' where "run_agg v (query_groups v ast) None (query_sorting ast) (all_projections ast) (query_page ast)
      (scanOperator (query_scan v ast)) (new_phys None) c t =
    Some (Inr \<lparr>b_rows = page_of (query_page ast) (map (projected v (all_projections ast) c) ?out), b_schema = sc\<rparr>, t')"
    using scan.run_agg_page [OF scan_opens [OF sch assms(9)] scan_close_idle assms(11) [unfolded assms(10)]
        sorts_uniform [OF assms(12,13)] proj _ assms(15) [unfolded assms(10)] assms(16,17),
        where page = "query_page ast" and t = t] by auto
  then show ?thesis
    unfolding execute_local [OF assms(1-5)] local_tree_parts [OF loc(2) assms(6) loc(1)] using assms(7)
    by (simp add: local_result_def query_rows_def)
qed


definition id_ast :: queryAST where
  "id_ast = (case buildAST id_schema (id_intent [id_filter FoGt (Some (JNum (Fin 0)))]) of Inr a \<Rightarrow> a)"

lemma id_ast_facts:
  "resolve_intent sample_ctx (id_intent [id_filter FoGt (Some (JNum (Fin 0)))]) = (id_intent [id_filter FoGt (Some (JNum (Fin 0)))], Inr ())"
  "\<not> needsCalcite (id_intent [id_filter FoGt (Some (JNum (Fin 0)))])"
  "build id_schema (id_intent [id_filter FoGt (Some (JNum (Fin 0)))]) None = Inr (BuiltAST id_ast)"
  "qa_having id_ast = None" "sn_schema (qa_from id_ast) \<noteq> []" "query_groups id_services id_ast = None"
  "so_alias (query_scan id_services id_ast) = ''t''"
  "query_keys id_ast = [by_id]"
  by code_simp+

lemma id_rows:
  "scanned_rows (query_scan id_services id_ast) sample_batches = map (\<lambda>i. alias_row ''t'' (sample_row i)) [1, 2, 3, 4]"
  by (simp add: scanned_rows_def id_ast_facts sample_batches_def)

lemma id_uniform:
  "set (map (\<lambda>i. alias_row ''t'' (sample_row i)) [1, 2, 3, 4]) \<subseteq> uniform_rows (row_eval no_host [] sample_ctx) [(by_id, DomNumber)]"
  by (auto simp: uniform_rows_def row_eval_def by_id_def evaluateFieldRef_def field_lookups_def
      row_lookups_def alias_row_def sample_row_def row_set_def al_has_def enumerated_before_def is_index_def is_digit_def)

lemma id_result:
  "query_rows id_services id_ast sample_ctx (map (\<lambda>i. alias_row ''t'' (sample_row i)) [1, 2, 3, 4]) =
     [[(''key'', JNum (Fin 3))], [(''key'', JNum (Fin 2))]]"
  "projects id_services (all_projections id_ast) sample_ctx (map (\<lambda>i. alias_row ''t'' (sample_row i)) [1, 2, 3, 4])"
  by code_simp+


lemma aggregate_nothing: "rs \<noteq> [] \<Longrightarrow> aggregate ev [] [] rs = Inr [[]]"
proof -
  have "buildGroups ev [] [] rs [([], \<lparr>gp_key = [], gp_accs = []\<rparr>)] = Inr [([], \<lparr>gp_key = [], gp_accs = []\<rparr>)]" for rs
    by (induction rs) (simp_all add: groupKey_def updateGroup_def)
  then show "rs \<noteq> [] \<Longrightarrow> aggregate ev [] [] rs = Inr [[]]"
    by (cases rs) (simp_all add: aggregate_def groupKey_def newGroup_def updateGroup_def parseGroupKey_def groupRow_def row_assign_def)
qed

text \<open>
  empty lists of groups and aggregations are not the same as absent ones.  They put an aggregation without keys into
  the tree, and a query over any number of rows then returns the projection of one empty row.
\<close>

theorem empty_groups_collapse:
  assumes "resolve_intent c q0 = (q, Inr ())" and "\<not> truthy_text ds \<or> the ds = ''default''" and "\<not> needsCalcite q"
    and "build (qv_schema v) q ef = Inr (BuiltAST ast)" and "inj (qv_ids v)" and "qa_having ast = None"
    and "sn_schema (qa_from ast) \<noteq> []"
    and "sb_scan (qv_backend v) (scan_request (query_scan v ast)) = stream_of bs" and "nonempty_batches bs"
    and "qa_groupBy ast = Some [] \<or> qa_aggregations ast = Some []"
    and "opt_list (qa_groupBy ast) = []" and "opt_list (qa_aggregations ast) = []" and "opt_list (qa_orderBy ast) = []"
    and "projects v (qa_columns ast) c [[]]" and "0 < qv_batchSize v"
    and "scanned_rows (query_scan v ast) bs \<noteq> []"
    and "int (length (scanned_rows (query_scan v ast) bs)) \<le> maxRowsPerNode (budget c)"
  shows "\<exists>sc t'. execute v q0 c ef ds t = Some \<lparr>en_result = Inr \<lparr>qr_rows = page_of (query_page ast) [projected v (qa_columns ast) c []],
      qr_schema = sc, qr_rowCount = length (page_of (query_page ast) [projected v (qa_columns ast) c []]), qr_optimizations = []\<rparr>,
    en_intent = q, en_trace = t', en_sent = [Scanned (scan_request (query_scan v ast))]\<rparr>"
proof -
  have cols: "all_projections ast = qa_columns ast" using assms(12) by (simp add: all_projections_def)
  have keys: "query_keys ast = []" using assms(13) by (simp add: query_keys_def)
  have groups: "groups_to v c (query_groups v ast) (scanned_rows (query_scan v ast) bs) [[]]"
    using assms(10-12,15,16) aggregate_nothing by (auto simp: groups_to_def query_groups_def)
  have budget: "0 < maxRowsPerNode (budget c)" "int (length [[] :: row]) \<le> maxRowsPerNode (budget c)"
    using assms(16,17) by (cases "scanned_rows (query_scan v ast) bs"; simp)+
  have "query_rows v ast c [[]] = page_of (query_page ast) [projected v (qa_columns ast) c []]"
    by (simp add: query_rows_def cols js_sort_def)
  with local_query [OF assms(1-9) refl groups _ _ _ assms(17) budget(2,1), of "[]" t] assms(14) cols keys
  show ?thesis by (simp add: uniform_rows_def)
qed

definition empty_lists_intent :: queryIntent where
  "empty_lists_intent = (id_intent [])\<lparr>qi_aggregations := Some [], qi_orderBy := None, qi_limit := None, qi_offset := None\<rparr>"

definition empty_lists_ast :: queryAST where
  "empty_lists_ast = (case buildAST id_schema empty_lists_intent of Inr a \<Rightarrow> a)"

lemma empty_lists_facts:
  "resolve_intent sample_ctx empty_lists_intent = (empty_lists_intent, Inr ())" "\<not> needsCalcite empty_lists_intent"
  "build id_schema empty_lists_intent None = Inr (BuiltAST empty_lists_ast)"
  "qa_having empty_lists_ast = None" "sn_schema (qa_from empty_lists_ast) \<noteq> []"
  "qa_groupBy empty_lists_ast = Some [] \<or> qa_aggregations empty_lists_ast = Some []"
  "opt_list (qa_groupBy empty_lists_ast) = []" "opt_list (qa_aggregations empty_lists_ast) = []"
  "opt_list (qa_orderBy empty_lists_ast) = []" "projects id_services (qa_columns empty_lists_ast) sample_ctx [[]]"
  "0 < qv_batchSize id_services" "scanned_rows (query_scan id_services empty_lists_ast) sample_batches \<noteq> []"
  "length (scanned_rows (query_scan id_services empty_lists_ast) sample_batches) = 4"
  "page_of (query_page empty_lists_ast) [projected id_services (qa_columns empty_lists_ast) sample_ctx []] = [[(''key'', JNull)]]"
  by code_simp+

theorem empty_groups_collapse_witness:
  "\<exists>sc t'. execute id_services empty_lists_intent sample_ctx None None [] = Some \<lparr>en_result = Inr \<lparr>qr_rows = [[(''key'', JNull)]],
      qr_schema = sc, qr_rowCount = 1, qr_optimizations = []\<rparr>, en_intent = empty_lists_intent, en_trace = t',
    en_sent = [Scanned (scan_request (query_scan id_services empty_lists_ast))]\<rparr>"
proof -
  have v: "qv_schema id_services = id_schema" "qv_ids id_services = counting_ids"
    "sb_scan (qv_backend id_services) r = stream_of sample_batches" for r
    by (simp_all add: id_services_def)
  from empty_groups_collapse [OF empty_lists_facts(1) _ empty_lists_facts(2), of None id_services None empty_lists_ast sample_batches "[]",
      unfolded v, OF _ empty_lists_facts(3) counting_ids_inj empty_lists_facts(4,5) refl sample_scan_facts(3) empty_lists_facts(6-12)]
  show ?thesis unfolding empty_lists_facts(14) by (simp add: empty_lists_facts(13) sample_scan_facts(4) truthy_text_def)
qed

end
