(* ===== verification/QueryProperties.thy ===== *)
theory QueryProperties
  imports QueryPages
begin

text \<open>
  Properties of the parts of query execution: the meaning of a where-clause, the plans of queries with
  joins and having-clauses, references to upstream nodes, the SQL text and the fallback to it.
\<close>

section \<open>The meaning of a where-clause\<close>

definition holds_filter :: "host \<Rightarrow> fnRegistry \<Rightarrow> scope \<Rightarrow> row \<Rightarrow> queryIntentFilter \<Rightarrow> bool" where
  "holds_filter h reg sc r f \<longleftrightarrow> bindR (buildFilterExpr f) (\<lambda>e. evaluate h reg e sc (Some r)) = Inr (JBool True)"

definition boolean_filter :: "host \<Rightarrow> fnRegistry \<Rightarrow> scope \<Rightarrow> row \<Rightarrow> queryIntentFilter \<Rightarrow> bool" where
  "boolean_filter h reg sc r f \<longleftrightarrow> bindR (buildFilterExpr f) (\<lambda>e. evaluate h reg e sc (Some r)) \<in> {Inr (JBool True), Inr (JBool False)}"

lemma eval_foldl:
  assumes "op \<in> {OAnd, OOr}" "evaluate h reg e sc r = Inr (JBool b)" "\<And>x. x \<in> set es \<Longrightarrow> evaluate h reg x sc r = Inr (JBool (p x))"
  shows "evaluate h reg (foldl (BinaryOp op) e es) sc r =
    Inr (JBool (if op = OAnd then b \<and> (\<forall>x \<in> set es. p x) else b \<or> (\<exists>x \<in> set es. p x)))"
  using assms(2,3)
proof (induction es arbitrary: e b)
  case (Cons x es)
  have "evaluate h reg (BinaryOp op e x) sc r = Inr (JBool (if op = OAnd then b \<and> p x else b \<or> p x))"
    using assms(1) Cons.prems by (auto simp: evaluateBinaryOp_def evaluateLogical_def)
  from Cons.IH [OF this] Cons.prems(2) show ?case by (auto split: if_splits)
qed (use assms(1) in auto)

lemma eval_combine:
  assumes "op \<in> {OAnd, OOr}" "combine op es = Some e" "\<And>x. x \<in> set es \<Longrightarrow> evaluate h reg x sc r = Inr (JBool (p x))"
  shows "evaluate h reg e sc r = Inr (JBool (if op = OAnd then \<forall>x \<in> set es. p x else \<exists>x \<in> set es. p x))"
proof -
  obtain y ys where es: "es = y # ys" using assms(2) by (cases es) auto
  with assms(2) have e: "e = foldl (BinaryOp op) y ys" by simp
  show ?thesis unfolding e es by (subst eval_foldl [where p = p and b = "p y"]) (use assms(1,3) es in auto)
qed

lemma eval_where:
  assumes "buildWhereExpr fs = Inr (Some e)" "\<And>f. f \<in> set fs \<Longrightarrow> boolean_filter h reg sc r f"
  shows "evaluate h reg e sc (Some r) =
    Inr (JBool (\<forall>f \<in> set fs. \<exists>g \<in> set fs. filter_key g = filter_key f \<and> holds_filter h reg sc r g))"
proof (cases "length fs \<le> 1")
  case True
  with assms(1) obtain f where "fs = [f]" by (cases fs) (auto simp: buildWhereExpr_def)
  with assms show ?thesis by (auto simp: buildWhereExpr_def result_simps boolean_filter_def holds_filter_def)
next
  case False
  then have "buildWhereExpr fs = bindR (group_filters fs []) (\<lambda>groups.
      bindR (mapR (\<lambda>g. group_expr (snd g)) groups) (\<lambda>es. Inr (combine OAnd es)))"
    by (cases fs rule: remdups_adj.cases) (auto simp: buildWhereExpr_def)
  with assms(1) obtain groups es where g: "group_filters fs [] = Inr groups" "mapR (\<lambda>g. group_expr (snd g)) groups = Inr es"
    "combine OAnd es = Some e" by (auto simp: result_simps)
  let ?ev = "\<lambda>x. evaluate h reg x sc (Some r)"
  have grp: "?ev x = Inr (JBool (\<exists>f \<in> set gs. holds_filter h reg sc r f))" if "(k, gs) \<in> set groups" "group_expr gs = Inr x" for k gs x
  proof -
    note gs = group_members [OF g(1) that(1)] and gx = that(2)
    obtain xs where xs: "mapR buildFilterExpr gs = Inr xs" "combine OOr xs = Some x" using group_expr_Inr [OF gx gs(2)] .
    have "?ev y = Inr (JBool (?ev y = Inr (JBool True)))" if "y \<in> set xs" for y
      using mapR_members [OF xs(1) that] gs(1) assms(2) by (force simp: boolean_filter_def)
    from eval_combine [OF _ xs(2) this] have "?ev x = Inr (JBool (\<exists>y \<in> set xs. ?ev y = Inr (JBool True)))" by simp
    moreover have "(\<exists>y \<in> set xs. ?ev y = Inr (JBool True)) \<longleftrightarrow> (\<exists>f \<in> set gs. holds_filter h reg sc r f)"
      using xs(1) unfolding mapR_Inr_iff holds_filter_def by (induction rule: list_all2_induct) (auto simp: result_simps)
    ultimately show ?thesis by simp
  qed
  have "?ev x = Inr (JBool (?ev x = Inr (JBool True)))" if "x \<in> set es" for x
    using mapR_members [OF g(2) that] grp by force
  from eval_combine [OF _ g(3) this] have all: "?ev e = Inr (JBool (\<forall>x \<in> set es. ?ev x = Inr (JBool True)))" by simp
  have "(\<forall>x \<in> set es. ?ev x = Inr (JBool True)) \<longleftrightarrow> (\<forall>(k, gs) \<in> set groups. \<exists>f \<in> set gs. holds_filter h reg sc r f)"
  proof -
    have "list_all2 (\<lambda>g x. group_expr (snd g) = Inr x) groups es" using g(2) by (simp add: mapR_Inr_iff)
    then have "list_all2 (\<lambda>g x. ?ev x = Inr (JBool True) \<longleftrightarrow> (\<exists>f \<in> set (snd g). holds_filter h reg sc r f)) groups es"
      by (rule list.rel_mono_strong) (use grp in force)
    then show ?thesis by (induction rule: list_all2_induct) auto
  qed
  also have "\<dots> \<longleftrightarrow> (\<forall>f \<in> set fs. \<exists>g \<in> set fs. filter_key g = filter_key f \<and> holds_filter h reg sc r g)"
  proof -
    note spec = group_filters_spec [OF g(1), simplified]
    show ?thesis
    proof (intro iffI ballI)
      fix f assume a: "\<forall>(k, gs) \<in> set groups. \<exists>f \<in> set gs. holds_filter h reg sc r f" and f: "f \<in> set fs"
      obtain k where k: "filter_key f = Inr k" using spec(4) f by force
      then have "k \<in> set (map fst groups)" using spec(2) f by auto
      then obtain gs where gs: "(k, gs) \<in> set groups" by auto
      with a have "\<exists>f \<in> set gs. holds_filter h reg sc r f" by blast
      with group_members(1) [OF g(1) gs] k show "\<exists>g \<in> set fs. filter_key g = filter_key f \<and> holds_filter h reg sc r g" by auto
    next
      fix p assume a: "\<forall>f \<in> set fs. \<exists>g \<in> set fs. filter_key g = filter_key f \<and> holds_filter h reg sc r g" and p: "p \<in> set groups"
      obtain k gs where k: "p = (k, gs)" by (cases p)
      note gs = group_members [OF g(1) p [unfolded k]]
      obtain f where "f \<in> set gs" using gs(2) by (cases gs) auto
      with gs(1) have f: "f \<in> set fs" "filter_key f = Inr k" by auto
      from a f(1) have "\<exists>g \<in> set fs. filter_key g = filter_key f \<and> holds_filter h reg sc r g" by blast
      with gs(1) f(2) k show "case p of (k, gs) \<Rightarrow> \<exists>f \<in> set gs. holds_filter h reg sc r f" by auto
    qed
  qed
  finally show ?thesis using all by simp
qed

text \<open>
  C18: the where-clause of a list of filters groups them by operator and JSON value.  It is true of a row exactly when
  every group has a filter that holds: with pairwise different operators and values it is the conjunction of the filters,
  and otherwise filters of one group are alternatives.
\<close>

theorem where_semantics:
  assumes "buildWhereExpr fs = Inr (Some e)" and "\<And>f. f \<in> set fs \<Longrightarrow> boolean_filter h reg sc r f"
  shows "evaluate h reg e sc (Some r) =
      Inr (JBool (\<forall>f \<in> set fs. \<exists>g \<in> set fs. filter_key g = filter_key f \<and> holds_filter h reg sc r g))"
  by (rule eval_where [OF assms])

lemma distinct_keys_conjunction:
  "inj_on filter_key (set fs) \<Longrightarrow> (\<forall>f \<in> set fs. \<exists>g \<in> set fs. filter_key g = filter_key f \<and> P g) \<longleftrightarrow> (\<forall>f \<in> set fs. P f)"
  by (auto dest: inj_onD)

definition two_fields :: "queryIntentFilter list" where
  "two_fields = [(id_filter FoIsNotNull None)\<lparr>if_field := ''a''\<rparr>, (id_filter FoIsNotNull None)\<lparr>if_field := ''b''\<rparr>]"

definition half_null :: row where
  "half_null = [(''a'', JNum (Fin 1)), (''b'', JNull)]"

lemma half_null_facts:
  "buildWhereExpr two_fields = Inr (Some (BinaryOp OOr (UnaryOp ONot (IsNull (FieldRef None ''a'')))
     (UnaryOp ONot (IsNull (FieldRef None ''b'')))))"
  "list_all (boolean_filter no_host [] [] half_null) two_fields"
  "list_all (\<lambda>f. filter_key f = Inr (FoIsNotNull, None)) two_fields"
  "map (holds_filter no_host [] [] half_null) two_fields = [True, False]"
  by code_simp+

theorem where_semantics_witness:
  "\<exists>e. buildWhereExpr two_fields = Inr (Some e) \<and> evaluate no_host [] e [] (Some half_null) = Inr (JBool True) \<and>
    \<not> list_all (holds_filter no_host [] [] half_null) two_fields"
proof -
  obtain e where e: "buildWhereExpr two_fields = Inr (Some e)" using half_null_facts(1) by blast
  have "f \<in> set two_fields \<Longrightarrow> boolean_filter no_host [] [] half_null f" for f
    using half_null_facts(2) by (simp add: list_all_iff)
  from where_semantics [OF e this] half_null_facts(3,4) e show ?thesis
    by (auto simp: list_all_iff two_fields_def)
qed

lemma where_builds:
  assumes "buildWhereExpr fs = Inr w" "f \<in> set fs"
  shows "\<exists>x. buildFilterExpr f = Inr x"
proof (cases "length fs \<le> 1")
  case True
  with assms show ?thesis by (cases fs) (auto simp: buildWhereExpr_def result_simps)
next
  case False
  then have "buildWhereExpr fs = bindR (group_filters fs []) (\<lambda>groups.
      bindR (mapR (\<lambda>g. group_expr (snd g)) groups) (\<lambda>es. Inr (combine OAnd es)))"
    by (cases fs rule: remdups_adj.cases) (auto simp: buildWhereExpr_def)
  with assms(1) obtain groups es where g: "group_filters fs [] = Inr groups" "mapR (\<lambda>g. group_expr (snd g)) groups = Inr es"
    by (auto simp: result_simps)
  note spec = group_filters_spec [OF g(1), simplified]
  obtain k where k: "filter_key f = Inr k" using spec(4) assms(2) by force
  with spec(2) assms(2) have "k \<in> set (map fst groups)" by auto
  then obtain gs where gs: "(k, gs) \<in> set groups" by auto
  with k assms(2) group_members(1) [OF g(1) gs] have "f \<in> set gs" by simp
  moreover obtain x where "group_expr gs = Inr x"
    using g(2) gs unfolding mapR_Inr_iff by (force simp: list_all2_conv_all_nth in_set_conv_nth)
  then obtain xs where "mapR buildFilterExpr gs = Inr xs" by (auto simp: group_expr_def result_simps)
  ultimately show ?thesis by (auto simp: mapR_Inr_iff list_all2_conv_all_nth in_set_conv_nth)
qed

text \<open>
  a filter \<open>!=\<close> with a single value never works outside SQL text: the case has no return of its own and falls into
  the one of \<open>BETWEEN\<close>, so building the tree throws whatever else the intent holds.
\<close>

theorem scalar_not_equal_fails:
  assumes "f \<in> set (opt_list (qi_filters q))" and "if_operator f = FoNeq" and "array_value f = None" and "\<not> needsCalcite q"
  shows "build s q ef \<noteq> Inr (BuiltAST ast)"
proof
  assume "build s q ef = Inr (BuiltAST ast)"
  then obtain w where "buildWhereExpr (where_filters q) = Inr w"
    by (auto simp: build_def buildAST_def result_simps Let_def split: if_splits)
  moreover have "f \<in> set (where_filters q)"
    using assms(1,4) by (simp add: where_filters_def primary_filters_def filter_join_def needsCalcite_def)
  ultimately have "\<exists>x. buildFilterExpr f = Inr x" by (rule where_builds)
  with assms(2,3) show False by (simp add: buildFilterExpr_def between_expr_def)
qed

lemma scalar_facts:
  "id_filter FoNeq (Some (JNum (Fin 1))) \<in> set (opt_list (qi_filters (id_intent [id_filter FoNeq (Some (JNum (Fin 1)))])))"
  "if_operator (id_filter FoNeq (Some (JNum (Fin 1)))) = FoNeq" "array_value (id_filter FoNeq (Some (JNum (Fin 1)))) = None"
  "\<not> needsCalcite (id_intent [id_filter FoNeq (Some (JNum (Fin 1)))])"
  "validateIntent id_schema None (id_intent [id_filter FoNeq (Some (JNum (Fin 1)))]) = Inr []"
  by code_simp+

theorem scalar_not_equal_fails_witness:
  "validateIntent id_schema None (id_intent [id_filter FoNeq (Some (JNum (Fin 1)))]) = Inr [] \<and>
    build id_schema (id_intent [id_filter FoNeq (Some (JNum (Fin 1)))]) None \<noteq> Inr (BuiltAST id_ast)"
  using scalar_not_equal_fails [OF scalar_facts(1-4)] scalar_facts(5) by blast

section \<open>Plans\<close>

text \<open>
  C17: with distinct ids, planning a syntax tree and building operators from the plan never fails and gives the reference
  tree: no cycle, no dangling id, whatever the pushdown moves.
\<close>

theorem plan_builds_tree:
  assumes "inj fresh"
  shows "buildTree b (plan fresh q) = Inr (plan_tree b q)"
  by (rule planned_tree [OF assms])

theorem plan_builds_tree_witness:
  "buildTree (tree_builder id_services) (plan counting_ids id_ast) = Inr (plan_tree (tree_builder id_services) id_ast)"
  using plan_builds_tree [OF counting_ids_inj] .

text \<open>
  a filter that mentions only the left table of a join of two tables loses the join: its parents are sent to the moved
  filter instead of the join, and the operator tree reads the left table alone.
\<close>

theorem left_filter_drops_join:
  assumes "inj fresh" and "qa_joins q = [j]" and "qa_where q = Some p"
    and "sn_table (qa_from q) \<in> set (extractReferencedTables p)" and "jd_table j \<notin> set (extractReferencedTables p)"
    and "qa_groupBy q = None" and "qa_aggregations q = None" and "qa_having q = None"
  shows "buildTree b (plan fresh q) = Inr (limit_tree q (PhProject (qa_columns q) (sort_tree q
    (PhFilter p (PhScan (scan_options b (qa_from q)))))))"
  unfolding planned_tree [OF assms(1)] using assms(2-8)
  by (simp add: plan_tree_def join_tree_def place_opt_def group_tree_def all_projections_def opt_list_def scan_options_def
      joined_scan_def)

definition join_query :: queryAST where
  "join_query = \<lparr>qa_columns = [], qa_from = \<lparr>sn_table = ''t'', sn_alias = ''t'', sn_schema = sample_schema, sn_predicate = None\<rparr>,
     qa_joins = [\<lparr>jd_kind = IjInner, jd_table = ''u'', jd_alias = ''u'', jd_on = sample_equi, jd_schema = sample_schema\<rparr>],
     qa_where = Some (IsNull (FieldRef (Some ''t'') ''id'')), qa_groupBy = None, qa_aggregations = None, qa_having = None,
     qa_orderBy = None, qa_limit = None, qa_offset = None\<rparr>"

theorem left_filter_drops_join_witness:
  "buildTree (tree_builder id_services) (plan counting_ids join_query) = Inr (limit_tree join_query (PhProject [] (sort_tree join_query
    (PhFilter (IsNull (FieldRef (Some ''t'') ''id'')) (PhScan (scan_options (tree_builder id_services) (qa_from join_query)))))))"
  using left_filter_drops_join [OF counting_ids_inj, of join_query _ "IsNull (FieldRef (Some ''t'') ''id'')" "tree_builder id_services"]
  by (simp add: join_query_def)

text \<open>
  without groups, a having-clause takes the place of the where-clause: both are pushed into the same scan, and the
  second overwrites the first.
\<close>

theorem having_replaces_where:
  assumes "inj fresh" and "qa_joins q = []" and "qa_groupBy q = None" and "qa_aggregations q = None" and "where_is_local q"
    and "qa_having q = Some p" and "\<not> predicateReferencesOtherTables p (sn_table (qa_from q))"
  shows "buildTree b (plan fresh q) = buildTree b (plan fresh (q\<lparr>qa_where := Some p, qa_having := None\<rparr>))"
  unfolding planned_tree [OF assms(1)] using assms(2-7)
  by (cases "qa_where q") (simp_all add: plan_tree_def join_tree_def place_opt_def group_tree_def all_projections_def opt_list_def
      scan_options_def sort_tree_def limit_tree_def where_is_local_def)

definition having_ast :: queryAST where
  "having_ast = id_ast\<lparr>qa_having := Some (IsNull (FieldRef None ''id''))\<rparr>"

theorem having_replaces_where_witness:
  "buildTree (tree_builder id_services) (plan counting_ids having_ast) =
   buildTree (tree_builder id_services) (plan counting_ids (having_ast\<lparr>qa_where := Some (IsNull (FieldRef None ''id'')), qa_having := None\<rparr>))"
proof -
  have "qa_joins having_ast = []" "qa_groupBy having_ast = None" "qa_aggregations having_ast = None" "where_is_local having_ast"
    "qa_having having_ast = Some (IsNull (FieldRef None ''id''))"
    "\<not> predicateReferencesOtherTables (IsNull (FieldRef None ''id'')) (sn_table (qa_from having_ast))"
    by code_simp+
  from having_replaces_where [OF counting_ids_inj this] show ?thesis .
qed

section \<open>References to upstream nodes\<close>

lemma resolve_filter_fixed:
  assumes "resolve_filter c f = Inr f'"
  shows "f' = f \<or> (if_operator f' = FoIn \<and> if_valueRef f' = None \<and> (\<exists>v. if_value f' = Some (JArr [v]) \<and> present v))"
proof (cases "truthy_text (if_valueRef f)")
  case True
  obtain node field where ref: "upstream_ref (the (if_valueRef f)) = (node, field)" by (cases "upstream_ref (the (if_valueRef f))")
  show ?thesis
  proof (cases "\<exists>rows. map_of (nodeOutputs c) node = Some (JArr rows)")
    case True
    then obtain rows where rows: "map_of (nodeOutputs c) node = Some (JArr rows)" by blast
    from assms \<open>truthy_text (if_valueRef f)\<close> ref rows obtain vs where vs: "mapR (get_member field) rows = Inr vs"
      "filter present vs \<noteq> []" "\<not> length (filter present vs) > 1"
      "f' = f\<lparr>if_operator := FoIn, if_value := Some (JArr (filter present vs)), if_valueRef := None\<rparr>"
      by (auto simp: resolve_filter_def result_simps Let_def split: if_splits)
    then obtain v where v: "filter present vs = [v]" by (cases "filter present vs") auto
    then have "v \<in> set (filter present vs)" by simp
    then have "present v" by simp
    with vs(4) v show ?thesis by simp
  next
    case False
    then have "resolve_filter c f = Inr f"
      using \<open>truthy_text (if_valueRef f)\<close> ref
      by (auto simp: resolve_filter_def Let_def split: option.split jsval.split)
    with assms show ?thesis by simp
  qed
qed (use assms in \<open>simp add: resolve_filter_def\<close>)

lemma resolve_filters_all:
  "resolve_filters c fs = (fs', Inr ()) \<longleftrightarrow> mapR (resolve_filter c) fs = Inr fs'"
proof (induction fs arbitrary: fs')
  case (Cons f fs)
  obtain r x where "resolve_filters c fs = (x, r)" by (cases "resolve_filters c fs")
  with Cons show ?case by (cases r) (auto simp: result_simps split: sum.splits)
qed auto

definition answered :: "execContext \<Rightarrow> queryIntentFilter \<Rightarrow> bool" where
  "answered c f \<longleftrightarrow> (truthy_text (if_valueRef f) \<longrightarrow>
     (\<exists>rows. map_of (nodeOutputs c) (fst (upstream_ref (the (if_valueRef f)))) = Some (JArr rows)))"

lemma answered_resolved: "answered c f \<Longrightarrow> resolve_filter c f = Inr f' \<Longrightarrow> \<not> truthy_text (if_valueRef f')"
  by (auto simp: answered_def resolve_filter_def result_simps Let_def truthy_text_def split: if_splits prod.splits)

text \<open>
  references are resolved in place, once.  Each filter that refers to an upstream node with rows becomes an \<open>IN\<close> of the
  single value those rows have; the intent keeps it, so in every later execution, whatever the node then returned (the next
  iteration of a loop, a retry), the filter compares with the first value.
\<close>

theorem reference_sticks:
  assumes "resolve_intent c q = (q', Inr ())" and "list_all (answered c) (opt_list (qi_filters q))"
  shows "list_all2 (\<lambda>f f'. if truthy_text (if_valueRef f) then if_operator f' = FoIn \<and> if_valueRef f' = None \<and>
        (\<exists>v. if_value f' = Some (JArr [v]) \<and> present v) else f' = f) (opt_list (qi_filters q)) (opt_list (qi_filters q')) \<and>
    resolve_intent c2 q' = (q', Inr ())"
proof -
  have one: "(if truthy_text (if_valueRef f) then if_operator f' = FoIn \<and> if_valueRef f' = None \<and>
      (\<exists>v. if_value f' = Some (JArr [v]) \<and> present v) else f' = f) \<and> resolve_filter c2 f' = Inr f'"
    if "answered c f" "resolve_filter c f = Inr f'" for f f'
    using resolve_filter_fixed [OF that(2)] answered_resolved [OF that] that(2) by (auto simp: resolve_filter_def)
  have "list_all2 (\<lambda>f f'. (if truthy_text (if_valueRef f) then if_operator f' = FoIn \<and> if_valueRef f' = None \<and>
      (\<exists>v. if_value f' = Some (JArr [v]) \<and> present v) else f' = f) \<and> resolve_filter c2 f' = Inr f') fs fs'"
    if "resolve_filters c fs = (fs', Inr ())" "list_all (answered c) fs" for fs fs'
    using that unfolding resolve_filters_all mapR_Inr_iff
    by (auto simp: list_all2_conv_all_nth list_all_length one)
  note all = this
  show ?thesis
  proof (cases "qi_filters q")
    case None
    with assms(1) show ?thesis by (auto simp: resolve_intent_def)
  next
    case (Some fs)
    then obtain fs' where fs': "resolve_filters c fs = (fs', Inr ())" "q' = q\<lparr>qi_filters := Some fs'\<rparr>"
      using assms(1) by (auto simp: resolve_intent_def split: prod.splits)
    with assms(2) Some have l: "list_all2 (\<lambda>f f'. (if truthy_text (if_valueRef f) then if_operator f' = FoIn \<and> if_valueRef f' = None \<and>
      (\<exists>v. if_value f' = Some (JArr [v]) \<and> present v) else f' = f) \<and> resolve_filter c2 f' = Inr f') fs fs'" using all by simp
    then have "resolve_filters c2 fs' = (fs', Inr ())"
      unfolding resolve_filters_all mapR_Inr_iff by (auto simp: list_all2_conv_all_nth)
    with fs'(2) Some list_all2_mono [OF l] show ?thesis by (auto simp: resolve_intent_def)
  qed
qed

definition ref_filter :: queryIntentFilter where
  "ref_filter = (id_filter FoEq None)\<lparr>if_valueRef := Some ''$n1.id''\<rparr>"

definition looked_up :: "int \<Rightarrow> execContext" where
  "looked_up i = sample_ctx\<lparr>nodeOutputs := [(''n1'', JArr [JObj [(''id'', JNum (Fin (of_int i)))]])]\<rparr>"

definition resolved_intent :: queryIntent where
  "resolved_intent = id_intent [id_filter FoIn (Some (JArr [JNum (Fin 7)]))]"

lemma ref_facts:
  "resolve_intent (looked_up 7) (id_intent [ref_filter]) = (resolved_intent, Inr ())"
  "map_of (nodeOutputs (looked_up 7)) (fst (upstream_ref (the (if_valueRef ref_filter)))) = Some (JArr [JObj [(''id'', JNum (Fin 7))]])"
  by code_simp+

theorem reference_sticks_witness:
  "resolve_intent (looked_up 7) (id_intent [ref_filter]) = (resolved_intent, Inr ()) \<and>
   resolve_intent (looked_up 8) resolved_intent = (resolved_intent, Inr ())"
proof -
  have "list_all (answered (looked_up 7)) (opt_list (qi_filters (id_intent [ref_filter])))"
    using ref_facts(2) by (simp add: id_intent_def answered_def)
  from reference_sticks [OF ref_facts(1) this, of "looked_up 8"] ref_facts(1) show ?thesis by simp
qed

section \<open>SQL text\<close>

definition visible_to_sql :: "queryIntent \<Rightarrow> queryIntent" where
  "visible_to_sql q = q\<lparr>qi_having := None, qi_aggregations := None, qi_distinct := None,
     qi_columns := map (\<lambda>c. c\<lparr>ic_expr := None\<rparr>) (qi_columns q),
     qi_filters := map_option (map (\<lambda>f. f\<lparr>if_valueRef := None, if_expr := None\<rparr>)) (qi_filters q),
     qi_orderBy := map_option (map (\<lambda>b. b\<lparr>io_nulls := None, io_expr := None\<rparr>)) (qi_orderBy q)\<rparr>"

lemma opt_list_map [simp]: "opt_list (map_option (map f) x) = map f (opt_list x)"
  by (cases x) simp_all

text \<open>
  the SQL text does not depend on the having-clause, the aggregations, \<open>DISTINCT\<close>, the expressions of columns, filters
  and orders, references, or the place of nulls: queries that differ only there are sent as the same statement.
\<close>

theorem raw_sql_ignores: "buildRawSQL s q = buildRawSQL s (visible_to_sql q)"
proof -
  have m: "table_aliases (visible_to_sql q) = table_aliases q" "intent_joins (visible_to_sql q) = intent_joins q"
    by (simp_all add: table_aliases_def intent_joins_def visible_to_sql_def)
  have p: "plain_condition field (f\<lparr>if_valueRef := None, if_expr := None\<rparr>) = plain_condition field f" for field f
    by (cases "if_operator f") (simp_all add: plain_condition_def array_value_def split: option.split)
  have qt: "qi_table (visible_to_sql q) = qi_table q" by (simp add: visible_to_sql_def)
  have n: "not_exists s (visible_to_sql q) t fld = not_exists s q t fld" for t fld
    unfolding not_exists_def qt ..
  have c: "condition_of s (visible_to_sql q) (f\<lparr>if_valueRef := None, if_expr := None\<rparr>) = condition_of s q f" for f
    unfolding condition_of_def m
    by (cases "if_operator f"; cases "subquery (if_value f)") (simp_all add: p n Let_def)
  have mm: "mapR (condition_of s (visible_to_sql q)) (map (\<lambda>f. f\<lparr>if_valueRef := None, if_expr := None\<rparr>) fs) = mapR (condition_of s q) fs" for fs
    by (induction fs) (simp_all add: c)
  have fs: "opt_list (qi_filters (visible_to_sql q)) = map (\<lambda>f. f\<lparr>if_valueRef := None, if_expr := None\<rparr>) (opt_list (qi_filters q))"
    by (simp add: visible_to_sql_def)
  have w: "where_clause s (visible_to_sql q) = where_clause s q"
    unfolding where_clause_def fs mm by simp
  have sel: "map (select_column al) (qi_columns (visible_to_sql q)) = map (select_column al) (qi_columns q)" for al
    by (simp add: visible_to_sql_def select_column_def)
  have ord: "order_clause (visible_to_sql q) = order_clause q"
    unfolding order_clause_def order_term_def [abs_def] m
    by (simp add: visible_to_sql_def comp_def list_ex_iff cong: if_cong)
  show ?thesis
    unfolding buildRawSQL_def m w sel ord by (simp add: visible_to_sql_def group_clause_def table_aliases_def intent_joins_def)
qed

lemma aliases_keys:
  "al_has k (table_aliases q) \<longleftrightarrow> k = qi_table q \<or> (\<exists>j \<in> set (intent_joins q). k = ij_table j \<or> truthy_text (ij_alias j) \<and> k = the (ij_alias j))"
proof -
  have "al_has k (foldl (\<lambda>m j. let m1 = al_set (ij_table j) (join_alias j) m in
       case ij_alias j of Some a \<Rightarrow> if a = [] then m1 else al_set a a m1 | None \<Rightarrow> m1) m js) \<longleftrightarrow>
     al_has k m \<or> (\<exists>j \<in> set js. k = ij_table j \<or> truthy_text (ij_alias j) \<and> k = the (ij_alias j))" for m js
    by (induction js arbitrary: m) (auto simp: Let_def truthy_text_def split: option.split)
  then show ?thesis unfolding table_aliases_def by auto
qed

text \<open>
  writing the SQL text fails only for a filter on a table outside the query: a filter whose table is neither the
  primary one nor joined, under its name or alias, and that is not a subquery filter.
\<close>

theorem raw_sql_fails_iff:
  "(\<exists>e. buildRawSQL s q = Inl e) \<longleftrightarrow> list_ex (\<lambda>f. \<not> has_subquery f \<and> truthy_text (if_table f) \<and> the (if_table f) \<noteq> qi_table q \<and>
     list_all (\<lambda>j. the (if_table f) \<noteq> ij_table j \<and> \<not> (truthy_text (ij_alias j) \<and> the (if_table f) = the (ij_alias j))) (intent_joins q))
     (opt_list (qi_filters q))"
proof -
  have one: "isl (condition_of s q f) \<longleftrightarrow> \<not> has_subquery f \<and> truthy_text (if_table f) \<and> \<not> al_has (the (if_table f)) (table_aliases q)" for f
    by (cases "if_operator f"; cases "subquery (if_value f)") (simp_all add: condition_of_def has_subquery_def Let_def)
  have many: "isl (mapR (condition_of s q) fs) \<longleftrightarrow> (\<exists>f \<in> set fs. isl (condition_of s q f))" for fs
  proof (induction fs)
    case (Cons f fs)
    then show ?case
      by (cases "condition_of s q f"; cases "mapR (condition_of s q) fs") (simp_all add: bindR_def)
  qed simp
  have "(\<exists>e. buildRawSQL s q = Inl e) \<longleftrightarrow> isl (where_clause s q)"
    by (cases "where_clause s q") (simp_all add: buildRawSQL_def)
  also have "\<dots> \<longleftrightarrow> isl (mapR (condition_of s q) (opt_list (qi_filters q)))"
    by (cases "mapR (condition_of s q) (opt_list (qi_filters q))") (auto simp: where_clause_def)
  finally show ?thesis unfolding many one aliases_keys by (auto simp: list_ex_iff list_all_iff)
qed

definition named_t :: queryIntent where
  "named_t = (id_intent [])\<lparr>qi_columns := [], qi_orderBy := None, qi_limit := None, qi_offset := None\<rparr>"

definition where_text :: "queryIntentFilter list \<Rightarrow> string res" where
  "where_text fs = where_clause id_schema (named_t\<lparr>qi_filters := Some fs\<rparr>)"

text \<open>
  the SQL text at its edges.  Values are copied into the text between quotes without escaping, so a value with a quote
  continues the statement; the case-insensitive flag turns any comparison into an equality; the value of \<open>BETWEEN\<close> is
  written as a list; a filter by expression compares with the word \<open>undefined\<close>; limit zero is no limit.
\<close>

theorem raw_sql_edge_cases:
  shows "where_text [id_filter FoEq (Some (JStr (''x'' @ [CHR 0x27] @ '' OR 1=1 --'')))] =
      Inr ('' WHERE '' @ dq ''id'' @ '' = '' @ [CHR 0x27] @ ''x'' @ [CHR 0x27] @ '' OR 1=1 --'' @ [CHR 0x27]) \<and>
    where_text [(id_filter FoGt (Some (JStr ''a'')))\<lparr>if_caseInsensitive := Some True\<rparr>] =
      Inr ('' WHERE LOWER('' @ dq ''id'' @ '') = LOWER('' @ quoted ''a'' @ '')'') \<and>
    where_text [id_filter FoBetween (Some (JArr [JStr ''a'', JStr ''b'']))] = Inr ('' WHERE '' @ dq ''id'' @ '' BETWEEN a,b'') \<and>
    where_text [(id_filter FoEq None)\<lparr>if_expr := Some ''NOW()''\<rparr>] = Inr ('' WHERE '' @ dq ''id'' @ '' = undefined'') \<and>
    buildRawSQL id_schema (named_t\<lparr>qi_limit := Some 0\<rparr>) = buildRawSQL id_schema named_t"
  by code_simp

end
