(* ===== verification/Decomposer.thy ===== *)
theory Decomposer
  imports BuiltSchemaFacts QueryProperties Graphs
begin

text \<open>
  Queries and writes that span data sources: \<open>src/src/compiler/query/cross-db-decomposer.ts\<close>.

  A join with a table of another source becomes a lookup of its own; the primary query keeps the local joins and
  gets, for each lookup, a filter with a reference that the executor resolves (\<open>QueryExec\<close>).  The marks the code
  leaves on the join objects are read only inside the function.
\<close>

section \<open>Queries\<close>

record decomposedStep =
  dd_nodeId :: string
  dd_datasource :: string
  dd_intent :: queryIntent
  dd_dependsOn :: "string list"

record decomposedQuery =
  dc_isCrossDB :: bool
  dc_steps :: "decomposedStep list"

definition source_of :: "multiSchema \<Rightarrow> string \<Rightarrow> string" where
  "source_of m t = (case map_of (mx_routing m) t of None \<Rightarrow> ''default'' | Some s \<Rightarrow> s)"

definition local_join :: "multiSchema \<Rightarrow> queryIntent \<Rightarrow> queryIntentJoin \<Rightarrow> bool" where
  "local_join m q j \<longleftrightarrow> source_of m (ij_table j) = source_of m (qi_table q)"

definition foreign_joins :: "multiSchema \<Rightarrow> queryIntent \<Rightarrow> queryIntentJoin list" where
  "foreign_joins m q = filter (\<lambda>j. \<not> local_join m q j) (opt_list (qi_joins q))"

definition detectCrossDBJoins :: "queryIntent \<Rightarrow> multiSchema \<Rightarrow> bool" where
  "detectCrossDBJoins q m \<longleftrightarrow> list_ex (\<lambda>j. \<not> local_join m q j) (opt_list (qi_joins q))"

definition column_part :: "string \<Rightarrow> string" where
  "column_part s = (if CHR ''.'' \<in> set s then split_on CHR ''.'' s ! 1 else s)"

definition foreign_col :: "queryIntentJoin \<Rightarrow> string" where
  "foreign_col j = column_part (case ij_on j of None \<Rightarrow> [] | Some (l, r) \<Rightarrow> r)"

definition primary_col :: "queryIntentJoin \<Rightarrow> string" where
  "primary_col j = column_part (case ij_on j of None \<Rightarrow> [] | Some (l, r) \<Rightarrow> l)"

definition lookup_name :: "queryIntentJoin \<Rightarrow> string" where
  "lookup_name j = ''lookup_'' @ ij_table j"

definition foreign_filters :: "queryIntent \<Rightarrow> string \<Rightarrow> queryIntentFilter list" where
  "foreign_filters q t = filter (\<lambda>f. if_table f = Some t) (opt_list (qi_filters q))"

definition lookup_intent :: "string \<Rightarrow> string \<Rightarrow> queryIntentFilter list \<Rightarrow> queryIntent" where
  "lookup_intent t c fs = \<lparr>qi_table = t, qi_columns = [\<lparr>ic_field = c, ic_table = Some t, ic_alias = None, ic_agg = None, ic_expr = None\<rparr>],
     qi_joins = Some [], qi_filters = Some fs, qi_groupBy = None, qi_aggregations = None, qi_having = None, qi_orderBy = None,
     qi_limit = None, qi_offset = None, qi_distinct = None\<rparr>"

definition lookup_step :: "multiSchema \<Rightarrow> queryIntent \<Rightarrow> queryIntentJoin \<Rightarrow> decomposedStep" where
  "lookup_step m q j = \<lparr>dd_nodeId = lookup_name j, dd_datasource = source_of m (ij_table j),
     dd_intent = lookup_intent (ij_table j) (foreign_col j) (foreign_filters q (ij_table j)), dd_dependsOn = []\<rparr>"

definition reference_to :: "string \<Rightarrow> string \<Rightarrow> string" where
  "reference_to n c = CHR ''$'' # n @ ''.'' @ c"

definition reference_filter :: "queryIntent \<Rightarrow> queryIntentJoin \<Rightarrow> queryIntentFilter" where
  "reference_filter q j = \<lparr>if_field = primary_col j, if_table = Some (qi_table q), if_operator = FoIn, if_value = None,
     if_valueRef = Some (reference_to (lookup_name j) (foreign_col j)), if_expr = None, if_caseInsensitive = None\<rparr>"

definition local_filter :: "multiSchema \<Rightarrow> queryIntent \<Rightarrow> queryIntentFilter \<Rightarrow> bool" where
  "local_filter m q f \<longleftrightarrow> \<not> truthy_text (if_table f) \<or> source_of m (the (if_table f)) = source_of m (qi_table q)"

definition primary_intent :: "multiSchema \<Rightarrow> queryIntent \<Rightarrow> queryIntent" where
  "primary_intent m q = q\<lparr>qi_joins := Some (filter (local_join m q) (opt_list (qi_joins q))),
     qi_filters := Some (filter (local_filter m q) (opt_list (qi_filters q)) @ map (reference_filter q) (foreign_joins m q))\<rparr>"

definition decomposeCrossDBQuery :: "string \<Rightarrow> queryIntent \<Rightarrow> multiSchema \<Rightarrow> decomposedQuery" where
  "decomposeCrossDBQuery nid q m = (let fj = foreign_joins m q in
     if fj = [] then \<lparr>dc_isCrossDB = False, dc_steps = []\<rparr>
     else \<lparr>dc_isCrossDB = True, dc_steps = map (lookup_step m q) fj @
       [\<lparr>dd_nodeId = nid, dd_datasource = source_of m (qi_table q), dd_intent = primary_intent m q,
         dd_dependsOn = map lookup_name fj\<rparr>]\<rparr>)"

section \<open>Writes\<close>

record crossReference =
  cr_column :: string
  cr_refTable :: string
  cr_refColumn :: string
  cr_refDatasource :: string
  cr_targetDatasource :: string

record decomposedWrite =
  dw_isCrossDB :: bool
  dw_lookupSteps :: "decomposedStep list"
  dw_fkReferences :: "crossReference list"
  dw_modifiedPayload :: writePayload

definition cross_reference :: "multiSchema \<Rightarrow> string \<Rightarrow> string \<times> colTraits \<Rightarrow> crossReference option" where
  "cross_reference m t = (\<lambda>(c, tr). case tr_foreignKey tr of None \<Rightarrow> None
     | Some (rt, rc, _) \<Rightarrow> if source_of m rt \<noteq> source_of m t
         then Some \<lparr>cr_column = c, cr_refTable = rt, cr_refColumn = rc, cr_refDatasource = source_of m rt,
           cr_targetDatasource = source_of m t\<rparr> else None)"

definition detectCrossDBFK :: "writePayload \<Rightarrow> multiSchema \<Rightarrow> builtSchema \<Rightarrow> crossReference list" where
  "detectCrossDBFK p m b = (case map_of (bt_traits b) (wp_table p) of None \<Rightarrow> []
     | Some ts \<Rightarrow> List.map_filter (cross_reference m (wp_table p)) ts)"

text \<open>Traits have no property \<^verbatim>\<open>type\<close>, so the search for a text column with a name finds none.\<close>

definition trait_type :: "colTraits \<Rightarrow> string option" where
  "trait_type tr = None"

definition name_field :: "builtSchema \<Rightarrow> string \<Rightarrow> string" where
  "name_field b t = (case map_of (bt_traits b) t of None \<Rightarrow> ''name''
     | Some ts \<Rightarrow> (case find (\<lambda>(c, tr). trait_type tr = Some ''TEXT'' \<and> (c = ''name'' \<or> contains ''name'' c)) ts of
         Some (c, _) \<Rightarrow> c | None \<Rightarrow> ''name''))"

definition name_filter :: "builtSchema \<Rightarrow> string \<Rightarrow> jsval \<Rightarrow> queryIntentFilter" where
  "name_filter b t v = \<lparr>if_field = name_field b t, if_table = Some t, if_operator = FoEq, if_value = Some v, if_valueRef = None,
     if_expr = None, if_caseInsensitive = None\<rparr>"

definition write_lookup_name :: "crossReference \<Rightarrow> string" where
  "write_lookup_name r = ''lookup_'' @ cr_refTable r @ ''_'' @ cr_column r"

definition write_lookup :: "builtSchema \<Rightarrow> row \<Rightarrow> crossReference \<Rightarrow> decomposedStep option" where
  "write_lookup b given r = (case row_get given (cr_column r) of
       JStr s \<Rightarrow> Some \<lparr>dd_nodeId = write_lookup_name r, dd_datasource = cr_refDatasource r,
         dd_intent = lookup_intent (cr_refTable r) (cr_refColumn r) [name_filter b (cr_refTable r) (JStr s)], dd_dependsOn = []\<rparr>
     | _ \<Rightarrow> None)"

definition write_references :: "builtSchema \<Rightarrow> row \<Rightarrow> crossReference list \<Rightarrow> row" where
  "write_references b given rs = foldl (\<lambda>sv r. if write_lookup b given r = None then sv
     else row_set (cr_column r) (JStr (reference_to (write_lookup_name r) (cr_refColumn r))) sv) given rs"

definition decomposeCrossDBWrite :: "string \<Rightarrow> writePayload \<Rightarrow> crossReference list \<Rightarrow> builtSchema \<Rightarrow> decomposedWrite" where
  "decomposeCrossDBWrite nid p rs b = (let given = opt_list (wp_staticValues p); steps = List.map_filter (write_lookup b given) rs in
     if rs = [] then \<lparr>dw_isCrossDB = False, dw_lookupSteps = [], dw_fkReferences = [], dw_modifiedPayload = p\<rparr>
     else \<lparr>dw_isCrossDB = (steps \<noteq> []), dw_lookupSteps = steps, dw_fkReferences = rs,
       dw_modifiedPayload = p\<lparr>wp_staticValues := Some (write_references b given rs)\<rparr>\<rparr>)"

end
