(* ===== verification/DecomposerFacts.thy ===== *)
theory DecomposerFacts
  imports Decomposer
begin

text \<open>
  What the decomposition of a query does to its joins and filters, and which foreign keys of a write it finds.
\<close>

section \<open>Columns and references\<close>

lemma split_on_parts: "p \<in> set (split_on d s) \<Longrightarrow> d \<notin> set p"
  by (induction s arbitrary: p) (auto split: list.splits if_splits)

lemma split_on_none: "d \<notin> set s \<Longrightarrow> split_on d s = [s]"
  by (induction s) auto

lemma split_on_first: "d \<notin> set s \<Longrightarrow> split_on d (s @ d # r) = s # split_on d r"
  by (induction s) auto

lemma column_part_plain: "CHR ''.'' \<notin> set (column_part s)"
proof (cases "CHR ''.'' \<in> set s")
  case True
  then obtain a r where s: "s = a @ CHR ''.'' # r" "CHR ''.'' \<notin> set a" by (meson split_list_first)
  have "split_on CHR ''.'' r \<noteq> []" by (cases r) (auto split: list.splits)
  then have "split_on CHR ''.'' s ! 1 \<in> set (split_on CHR ''.'' r)" by (simp add: s split_on_first)
  with True show ?thesis by (simp add: column_part_def split_on_parts)
qed (simp add: column_part_def)

lemma foreign_col_plain: "CHR ''.'' \<notin> set (foreign_col j)"
  by (simp add: foreign_col_def column_part_plain)

text \<open>A reference is read back, as long as the name of the table has no dot.\<close>

lemma upstream_reference:
  assumes "CHR ''.'' \<notin> set n" "CHR ''.'' \<notin> set c"
  shows "upstream_ref (reference_to n c) = (n, if c = [] then ''id'' else c)"
  using assms by (simp add: upstream_ref_def reference_to_def split_on_first split_on_none)

lemma lookup_reference:
  "CHR ''.'' \<notin> set (ij_table j) \<Longrightarrow> foreign_col j \<noteq> [] \<Longrightarrow>
   upstream_ref (reference_to (lookup_name j) (foreign_col j)) = (lookup_name j, foreign_col j)"
  by (simp add: upstream_reference foreign_col_plain lookup_name_def)

lemma reference_nonempty [simp]: "reference_to n c \<noteq> []"
  by (simp add: reference_to_def)

section \<open>Resolution of the lookups\<close>

definition found :: "row list \<Rightarrow> queryIntentJoin \<Rightarrow> jsval list" where
  "found rows j = filter present (map (\<lambda>r. row_get r (foreign_col j)) rows)"

definition matched :: "queryIntent \<Rightarrow> queryIntentJoin \<Rightarrow> jsval list \<Rightarrow> queryIntentFilter" where
  "matched q j vs = (reference_filter q j)\<lparr>if_value := Some (JArr vs), if_valueRef := None\<rparr>"

definition looked_up_rows :: "execContext \<Rightarrow> queryIntentJoin \<Rightarrow> row list \<Rightarrow> bool" where
  "looked_up_rows c j rows \<longleftrightarrow> map_of (nodeOutputs c) (lookup_name j) = Some (JArr (map JObj rows)) \<and>
     CHR ''.'' \<notin> set (ij_table j) \<and> foreign_col j \<noteq> []"

lemma members_of_rows: "mapR (get_member k) (map JObj rows) = Inr (map (\<lambda>r. row_get r k) rows)"
  by (induction rows) (simp_all add: get_member_def)

lemma resolve_reference:
  assumes "looked_up_rows c j rows"
  shows "resolve_filter c (reference_filter q j) = Inr f \<longleftrightarrow> length (found rows j) = 1 \<and> f = matched q j (found rows j)"
proof -
  have ref: "upstream_ref (reference_to (lookup_name j) (foreign_col j)) = (lookup_name j, foreign_col j)"
    using assms by (intro lookup_reference) (simp_all add: looked_up_rows_def)
  have "resolve_filter c (reference_filter q j) = (let values = found rows j in
      if values = [] then Inl (PlainError (''Could not resolve FK reference '' @ dq (reference_to (lookup_name j) (foreign_col j)) @
         '': no matching rows returned from lookup node '' @ dq (lookup_name j)))
      else if length values > 1 then Inl (PlainError (''Ambiguous FK resolution '' @ dq (reference_to (lookup_name j) (foreign_col j)) @
         '': '' @ int_string (int (length values)) @ '' rows returned from lookup node '' @ dq (lookup_name j)))
      else Inr (matched q j values))"
    using assms by (simp add: resolve_filter_def reference_filter_def ref truthy_text_def looked_up_rows_def members_of_rows found_def matched_def Let_def)
  then show ?thesis by (cases "found rows j") (auto simp: Let_def)
qed

lemma foreign_joins_iff: "detectCrossDBJoins q m \<longleftrightarrow> foreign_joins m q \<noteq> []"
  by (simp add: detectCrossDBJoins_def foreign_joins_def list_ex_iff filter_empty_conv)

lemma decomposed_steps:
  "detectCrossDBJoins q m \<Longrightarrow> dc_steps (decomposeCrossDBQuery nid q m) = map (lookup_step m q) (foreign_joins m q) @
     [\<lparr>dd_nodeId = nid, dd_datasource = source_of m (qi_table q), dd_intent = primary_intent m q,
       dd_dependsOn = map lookup_name (foreign_joins m q)\<rparr>]"
  by (simp add: decomposeCrossDBQuery_def foreign_joins_iff Let_def)

lemma resolve_unreferenced: "\<not> truthy_text (if_valueRef f) \<Longrightarrow> resolve_filter c f = Inr f"
  by (simp add: resolve_filter_def)

lemma resolve_primary:
  assumes "list_all (\<lambda>f. \<not> truthy_text (if_valueRef f)) fs"
    and "\<forall>j \<in> set js. looked_up_rows c j (rows j)"
  shows "resolve_filters c (fs @ map (reference_filter q) js) = (fs', Inr ()) \<longleftrightarrow>
     (\<forall>j \<in> set js. length (found (rows j) j) = 1) \<and> fs' = fs @ map (\<lambda>j. matched q j (found (rows j) j)) js"
proof -
  have locals: "list_all2 (\<lambda>f f'. resolve_filter c f = Inr f') fs x \<longleftrightarrow> x = fs" for x
    using assms(1) by (induction fs arbitrary: x) (auto simp: list_all2_Cons1 resolve_unreferenced)
  have refs: "list_all2 (\<lambda>j f'. resolve_filter c (reference_filter q j) = Inr f') js y \<longleftrightarrow>
      (\<forall>j \<in> set js. length (found (rows j) j) = 1) \<and> y = map (\<lambda>j. matched q j (found (rows j) j)) js" for y
    using assms(2) by (induction js arbitrary: y) (auto simp: list_all2_Cons1 resolve_reference)
  show ?thesis
    unfolding resolve_filters_all mapR_Inr_iff list_all2_append1 list_all2_map1 locals refs by auto
qed

text \<open>
  C37: the primary step of a query over several sources resolves exactly when every lookup found exactly one row with a value
  in the linked column; then the filter of each foreign join is an \<open>IN\<close> of that single value.  With no or with several
  matching rows (the ordinary case of a join) the query fails.
\<close>

theorem cross_join_needs_one_match:
  assumes "detectCrossDBJoins q m" and "list_all (\<lambda>f. \<not> truthy_text (if_valueRef f)) (opt_list (qi_filters q))"
    and "\<forall>j \<in> set (foreign_joins m q). looked_up_rows c j (rows j)"
  shows "resolve_intent c (dd_intent (last (dc_steps (decomposeCrossDBQuery nid q m)))) = (q', Inr ()) \<longleftrightarrow>
    (\<forall>j \<in> set (foreign_joins m q). length (found (rows j) j) = 1) \<and>
    q' = (primary_intent m q)\<lparr>qi_filters := Some (filter (local_filter m q) (opt_list (qi_filters q)) @
      map (\<lambda>j. matched q j (found (rows j) j)) (foreign_joins m q))\<rparr>"
proof -
  let ?fs = "filter (local_filter m q) (opt_list (qi_filters q))"
  have "list_all (\<lambda>f. \<not> truthy_text (if_valueRef f)) ?fs" using assms(2) by (auto simp: list_all_iff)
  note primary = resolve_primary [OF this assms(3), of q]
  have "resolve_intent c (primary_intent m q) = (q', Inr ()) \<longleftrightarrow> (\<exists>fs'. resolve_filters c (?fs @ map (reference_filter q)
      (foreign_joins m q)) = (fs', Inr ()) \<and> q' = (primary_intent m q)\<lparr>qi_filters := Some fs'\<rparr>)"
    by (auto simp: resolve_intent_def primary_intent_def split: prod.splits)
  then show ?thesis by (auto simp: decomposed_steps [OF assms(1)] primary)
qed

section \<open>Filters\<close>

text \<open>
  C31: a filter of a query over several sources is in one of its steps exactly when it is about a table of the primary source
  (or names none), or names the table of a foreign join.  Every other filter (of a foreign table by its alias, or of
  a table in a third place) is dropped without an error.
\<close>

theorem decomposed_filters_exact:
  assumes "detectCrossDBJoins q m" and "f \<in> set (opt_list (qi_filters q))"
  shows "(\<exists>s \<in> set (dc_steps (decomposeCrossDBQuery nid q m)). f \<in> set (opt_list (qi_filters (dd_intent s)))) \<longleftrightarrow>
    local_filter m q f \<or> (\<exists>j \<in> set (foreign_joins m q). if_table f = Some (ij_table j))"
proof -
  have "local_filter m q (reference_filter q j)" for j by (simp add: local_filter_def reference_filter_def)
  with assms(2) show ?thesis
    unfolding decomposed_steps [OF assms(1)]
    by (auto simp: lookup_step_def lookup_intent_def foreign_filters_def primary_intent_def)
qed

section \<open>A query over two sources\<close>

definition two_sources :: multiSchema where
  "two_sources = \<lparr>mx_schemas = [], mx_routing = [(''projects'', ''pm''), (''accounts'', ''default'')]\<rparr>"

definition account_filter :: "string option \<Rightarrow> queryIntentFilter" where
  "account_filter t = \<lparr>if_field = ''name'', if_table = t, if_operator = FoEq, if_value = Some (JStr ''Acme''), if_valueRef = None,
     if_expr = None, if_caseInsensitive = None\<rparr>"

definition account_join :: queryIntentJoin where
  "account_join = \<lparr>ij_table = ''accounts'', ij_alias = Some ''a'', ij_kind = None,
     ij_on = Some (''projects.crm_account_id'', ''accounts.id'')\<rparr>"

definition project_query :: "string option \<Rightarrow> queryIntent" where
  "project_query t = (lookup_intent ''projects'' ''title'' [account_filter t])\<lparr>qi_joins := Some [account_join]\<rparr>"

definition accounts_found :: "int list \<Rightarrow> row list" where
  "accounts_found ns = map (\<lambda>n. [(''id'', JNum (Fin (of_int n)))]) ns"

definition after_lookup :: "int list \<Rightarrow> execContext" where
  "after_lookup ns = sample_ctx\<lparr>nodeOutputs := [(''lookup_accounts'', JArr (map JObj (accounts_found ns)))]\<rparr>"

lemma project_facts:
  "detectCrossDBJoins (project_query t) two_sources" "foreign_joins two_sources (project_query t) = [account_join]"
  "opt_list (qi_filters (project_query t)) = [account_filter t]" "looked_up_rows (after_lookup ns) account_join (accounts_found ns)"
  "length (found (accounts_found ns) account_join) = length ns"
  by (simp_all add: detectCrossDBJoins_def foreign_joins_def local_join_def source_of_def two_sources_def project_query_def
      lookup_intent_def account_join_def looked_up_rows_def after_lookup_def lookup_name_def foreign_col_def column_part_def
      found_def accounts_found_def o_def present_def)

theorem cross_join_needs_one_match_witness:
  "(\<exists>q'. resolve_intent (after_lookup [7]) (dd_intent (last (dc_steps
     (decomposeCrossDBQuery ''n1'' (project_query (Some ''accounts'')) two_sources)))) = (q', Inr ())) \<and>
   (\<nexists>q'. resolve_intent (after_lookup [7, 8]) (dd_intent (last (dc_steps
     (decomposeCrossDBQuery ''n1'' (project_query (Some ''accounts'')) two_sources)))) = (q', Inr ()))"
proof -
  have "list_all (\<lambda>f. \<not> truthy_text (if_valueRef f)) (opt_list (qi_filters (project_query (Some ''accounts''))))"
    by (simp add: project_facts account_filter_def truthy_text_def)
  note needs = cross_join_needs_one_match [OF project_facts(1) this, where rows = "\<lambda>_. accounts_found _"]
  have "\<forall>j \<in> set (foreign_joins two_sources (project_query (Some ''accounts''))).
      looked_up_rows (after_lookup ns) j (accounts_found ns)" for ns
    by (simp add: project_facts)
  from needs [OF this, where nid = "''n1''"] have "resolve_intent (after_lookup ns) (dd_intent (last (dc_steps
      (decomposeCrossDBQuery ''n1'' (project_query (Some ''accounts'')) two_sources)))) = (q', Inr ()) \<longleftrightarrow>
      length ns = 1 \<and> q' = (primary_intent two_sources (project_query (Some ''accounts'')))\<lparr>qi_filters := Some
        (filter (local_filter two_sources (project_query (Some ''accounts''))) [account_filter (Some ''accounts'')] @
         [matched (project_query (Some ''accounts'')) account_join (found (accounts_found ns) account_join)])\<rparr>" for ns q'
    by (simp add: project_facts)
  then show ?thesis by simp
qed

theorem decomposed_filters_exact_witness:
  "(\<exists>s \<in> set (dc_steps (decomposeCrossDBQuery ''n1'' (project_query (Some ''accounts'')) two_sources)).
     account_filter (Some ''accounts'') \<in> set (opt_list (qi_filters (dd_intent s)))) \<and>
   (\<nexists>s. s \<in> set (dc_steps (decomposeCrossDBQuery ''n1'' (project_query (Some ''a'')) two_sources)) \<and>
     account_filter (Some ''a'') \<in> set (opt_list (qi_filters (dd_intent s))))"
proof -
  have exact: "(\<exists>s \<in> set (dc_steps (decomposeCrossDBQuery ''n1'' (project_query t) two_sources)).
      account_filter t \<in> set (opt_list (qi_filters (dd_intent s)))) \<longleftrightarrow> local_filter two_sources (project_query t) (account_filter t) \<or>
      t = Some ''accounts''" for t
    using decomposed_filters_exact [OF project_facts(1), of "account_filter t" t "''n1''"]
    by (auto simp: project_facts account_filter_def account_join_def)
  have "local_filter two_sources (project_query t) (account_filter t) \<longleftrightarrow> t \<notin> {Some ''accounts'', Some ''a''}"
    if "t \<in> {Some ''accounts'', Some ''a''}" for t
    using that by (auto simp: local_filter_def account_filter_def truthy_text_def source_of_def two_sources_def project_query_def
        lookup_intent_def)
  with exact [of "Some ''accounts''"] exact [of "Some ''a''"] show ?thesis
    by auto
qed

end
