(* ===== verification/Enrichment.thy ===== *)
theory Enrichment
  imports WriteEnrichmentFacts DecomposerFacts
begin

text \<open>
  Filling in the payloads of a compiled graph: \<^verbatim>\<open>enrichNodes\<close> of \<open>src/src/pipeline-engine.ts\<close>, with the checks of
  query columns and of the columns of writes.

  What language models answer (intents of queries, operations, predicates, requests) is a parameter with its own state; for
  a request it also gives the names of the response and whether it is an array.  The loop visits the nodes of the map in
  order, those it adds included.
\<close>

section \<open>Columns of queries\<close>

definition join_aliases :: "queryIntent \<Rightarrow> (string \<times> string) list" where
  "join_aliases q = foldl (\<lambda>m j. if truthy_text (ij_alias j) \<and> ij_table j \<noteq> [] then al_set (the (ij_alias j)) (ij_table j) m else m)
     [] (opt_list (qi_joins q))"

definition resolve_table :: "queryIntent \<Rightarrow> string option \<Rightarrow> string" where
  "resolve_table q t = (let n = (if truthy_text t then the t else qi_table q) in
     if n = [] then qi_table q else case map_of (join_aliases q) n of Some x \<Rightarrow> x | None \<Rightarrow> n)"

definition column_error :: "schemaConfig \<Rightarrow> string \<Rightarrow> string \<Rightarrow> string \<Rightarrow> string option" where
  "column_error sc what c t = (case map_of (sc_tables sc) t of
       None \<Rightarrow> Some (what @ '' '' @ Session.dq c @ '' references unknown table '' @ Session.dq t)
     | Some tc \<Rightarrow> if c \<in> set (map cc_name (tc_columns tc)) then None
         else Some (what @ '' '' @ Session.dq c @ '' does not exist in table '' @ Session.dq t @ ''. Available columns: '' @
           join_str '', '' (map cc_name (tc_columns tc))))"

definition validateQueryIntentColumns :: "queryIntent \<Rightarrow> schemaConfig \<Rightarrow> string list" where
  "validateQueryIntentColumns q sc =
     List.map_filter (\<lambda>c. if ic_field c = ''*'' then None else column_error sc ''Column'' (ic_field c) (resolve_table q (ic_table c))) (qi_columns q) @
     List.map_filter (\<lambda>f. column_error sc ''Filter column'' (if_field f) (resolve_table q (if_table f))) (opt_list (qi_filters q)) @
     List.map_filter (\<lambda>b. column_error sc ''OrderBy column'' (io_field b) (resolve_table q (io_table b))) (opt_list (qi_orderBy q)) @
     List.map_filter (\<lambda>c. column_error sc ''GroupBy column'' c (qi_table q)) (opt_list (qi_groupBy q))"

section \<open>Columns of writes\<close>

definition suggestFix :: "string \<Rightarrow> string \<Rightarrow> string list \<Rightarrow> foreignKey list \<Rightarrow> string" where
  "suggestFix c t up fks = (case List.find (\<lambda>fk. fk_fromTable fk = t \<and> fk_fromColumn fk = c) fks of
       Some fk \<Rightarrow> ''Add '' @ quoted (fk_toColumn fk) @ '' from table '' @ quoted (fk_toTable fk) @ '' to the upstream query '' @
         ''(it will be mapped to '' @ quoted c @ '' via the foreign key relationship)''
     | None \<Rightarrow> ''Add '' @ quoted c @ '' to the upstream query output or staticValues'')"

record writeFieldError =
  we_stepId :: string
  we_table :: string
  we_missing :: "string list"
  we_available :: "string list"
  we_suggestions :: "string list"
  we_message :: string

definition simulated_row :: "string list \<Rightarrow> row" where
  "simulated_row fs = row_assign [] (map (\<lambda>f. (f, JStr ''__present__'')) fs)"

text \<open>
  The sources of a write's columns: a static value that is not its own name, a field, the other end of a foreign key (which
  becomes an alias), an alias.  A query payload has no property \<^verbatim>\<open>table\<close>, so the tables collected from the nodes a
  write depends on are none.
\<close>

definition payload_table :: "queryPayload \<Rightarrow> string option" where
  "payload_table p = None"

definition dependency_tables :: "pipelineGraph \<Rightarrow> pipelineStepIntent \<Rightarrow> string list" where
  "dependency_tables g s = List.map_filter (\<lambda>d. Option.bind (Option.bind (map_of (g_nodes g) d) query_of) payload_table) (opt_list (ps_dependsOn s))"

definition upstream_tables :: "pipelineIntent \<Rightarrow> pipelineGraph \<Rightarrow> string \<Rightarrow> writePayload \<Rightarrow> string list" where
  "upstream_tables i g n p = (let ts = opt_list (wp_upstreamTables p) in
     if ts \<noteq> [] then ts else case step_of i n of None \<Rightarrow> [] | Some s \<Rightarrow> dependency_tables g s)"

definition static_source :: "writePayload \<Rightarrow> string \<Rightarrow> bool" where
  "static_source p c \<longleftrightarrow> al_has c (opt_list (wp_staticValues p)) \<and> row_get (opt_list (wp_staticValues p)) c \<noteq> JStr c"

definition alias_source :: "string list \<Rightarrow> writePayload \<Rightarrow> string \<Rightarrow> bool" where
  "alias_source up p c \<longleftrightarrow> (case map_of (opt_list (wp_columnAliases p)) c of None \<Rightarrow> False | Some a \<Rightarrow> a \<noteq> [] \<and> a \<in> set up)"

definition check_write_column :: "string list \<Rightarrow> string list \<Rightarrow> foreignKey list \<Rightarrow> string list \<times> writePayload \<Rightarrow> string \<Rightarrow> string list \<times> writePayload" where
  "check_write_column up ts fks = (\<lambda>(bad, p) c.
     if static_source p c \<or> js_in c (simulated_row up) then (bad, p)
     else (let src = resolveWriteColumnSource (wp_table p) c ts (Some fks) (simulated_row up) in
       if src \<noteq> c \<and> js_in src (simulated_row up) then (bad, p\<lparr>wp_columnAliases := Some (al_set c src (opt_list (wp_columnAliases p)))\<rparr>)
       else if alias_source up p c then (bad, p) else (bad @ [c], p)))"

definition write_error :: "string \<Rightarrow> writePayload \<Rightarrow> string list \<Rightarrow> string list \<Rightarrow> foreignKey list \<Rightarrow> writeFieldError" where
  "write_error n p up bad fks = (let names = join_str '', '' bad; av = join_str '', '' (up @ map fst (opt_list (wp_staticValues p))) in
     \<lparr>we_stepId = n, we_table = wp_table p, we_missing = bad, we_available = up,
      we_suggestions = map (\<lambda>c. suggestFix c (wp_table p) up fks) bad,
      we_message = ''Write to '' @ quoted (wp_table p) @ '' needs column(s) ['' @ names @ ''] but they are not in the upstream output or staticValues.'' @
        [CHR 0x0A] @ ''Available fields: '' @ (if av = [] then ''none'' else av) @ [CHR 0x0A] @
        ''Fix: ensure the upstream query selects a field that maps to ['' @ names @ ''], or add it to staticValues.''\<rparr>)"

definition write_of :: "compiledPayload payload node \<Rightarrow> writePayload option" where
  "write_of nd = (if n_kind nd = ''write'' then (case n_payload nd of POther (CpWrite p) \<Rightarrow> Some p | _ \<Rightarrow> None) else None)"

definition check_write :: "pipelineIntent \<Rightarrow> fieldMap \<Rightarrow> foreignKey list \<Rightarrow> writeFieldError list \<times> pipelineGraph \<Rightarrow> string \<Rightarrow>
    writeFieldError list \<times> pipelineGraph" where
  "check_write i m fks = (\<lambda>(errs, g) n. case map_of (g_nodes g) n of None \<Rightarrow> (errs, g)
     | Some nd \<Rightarrow> (case write_of nd of None \<Rightarrow> (errs, g)
       | Some p \<Rightarrow> (let up = getUpstreamFields n i m; ts = upstream_tables i g n p;
             p0 = (if wp_upstreamTables p = None \<and> step_of i n \<noteq> None \<and> ps_dependsOn (the (step_of i n)) \<noteq> None
               then p\<lparr>wp_upstreamTables := Some ts\<rparr> else p);
             (bad, p') = foldl (check_write_column up ts fks) ([], p0) (wp_columns p)
           in (if bad = [] then errs else errs @ [write_error n p' up bad fks],
             g\<lparr>g_nodes := al_set n (nd\<lparr>n_payload := POther (CpWrite p')\<rparr>) (g_nodes g)\<rparr>))))"

definition validateWriteFieldResolution :: "pipelineGraph \<Rightarrow> pipelineIntent \<Rightarrow> fieldMap \<Rightarrow> schemaConfig \<Rightarrow> writeFieldError list \<times> pipelineGraph" where
  "validateWriteFieldResolution g i m sc = foldl (check_write i m (sc_foreignKeys sc)) ([], g) (node_ids g)"

section \<open>Payloads\<close>

record ('b, 'w) engine =
  en_write :: "('b, 'w) enrichEnv"
  en_schema :: schemaConfig
  en_multi :: "multiSchema option"
  en_userId :: "string option"
  en_model :: string
  en_query :: "string \<Rightarrow> 'w \<Rightarrow> queryIntent res \<times> 'w"
  en_transform :: "pipelineStepIntent \<Rightarrow> transformOp list \<Rightarrow> string list \<Rightarrow> 'w \<Rightarrow> transformOp list res \<times> 'w"
  en_conditional :: "pipelineStepIntent \<Rightarrow> exprAST \<Rightarrow> string list \<Rightarrow> 'w \<Rightarrow> exprAST res \<times> 'w"
  en_http :: "pipelineStepIntent \<Rightarrow> string list \<Rightarrow> 'w \<Rightarrow> (compiledPayload \<times> string list \<times> bool) res \<times> 'w"

record enrichState =
  nr_graph :: pipelineGraph
  nr_intent :: pipelineIntent
  nr_fields :: fieldMap

definition set_payload :: "string \<Rightarrow> compiledPayload payload \<Rightarrow> pipelineGraph \<Rightarrow> pipelineGraph" where
  "set_payload n p g = (case map_of (g_nodes g) n of None \<Rightarrow> g
     | Some nd \<Rightarrow> g\<lparr>g_nodes := al_set n (nd\<lparr>n_payload := p\<rparr>) (g_nodes g)\<rparr>)"

definition put_fields :: "string \<Rightarrow> string list \<Rightarrow> enrichState \<Rightarrow> enrichState" where
  "put_fields n fs st = st\<lparr>nr_fields := al_set n fs (nr_fields st)\<rparr>"

definition put_payload :: "string \<Rightarrow> compiledPayload payload \<Rightarrow> enrichState \<Rightarrow> enrichState" where
  "put_payload n p st = st\<lparr>nr_graph := set_payload n p (nr_graph st)\<rparr>"

definition query_fields :: "queryIntent \<Rightarrow> string list" where
  "query_fields q = map column_label (qi_columns q)"

definition query_node :: "string \<Rightarrow> queryPayload \<Rightarrow> compiledPayload payload node" where
  "query_node n p = \<lparr>n_id = n, n_kind = ''query'', n_label = None, n_payload = PQuery (CpQuery p), n_errorPolicy = fail_policy\<rparr>"

definition add_lookup :: "string \<Rightarrow> string \<Rightarrow> queryPayload \<Rightarrow> pipelineGraph \<Rightarrow> pipelineGraph" where
  "add_lookup n l p g = g\<lparr>g_nodes := al_set l (query_node l p) (g_nodes g),
     g_edges := put_edges [new_edge (''e__input_'' @ l) ''_input'' l EkData None None,
       new_edge (edge_name l n) l n EkData None None] (g_edges g)\<rparr>"

definition place_step :: "string \<Rightarrow> enrichState \<Rightarrow> decomposedStep \<Rightarrow> enrichState" where
  "place_step n st d = (let p = \<lparr>qp_intent = dd_intent d, qp_datasource = dd_datasource d\<rparr> in
     put_fields (dd_nodeId d) (query_fields (dd_intent d))
       (if dd_nodeId d = n then put_payload n (PQuery (CpQuery p)) st
        else st\<lparr>nr_graph := add_lookup n (dd_nodeId d) p (nr_graph st)\<rparr>))"

definition place_query :: "multiSchema option \<Rightarrow> string \<Rightarrow> queryIntent \<Rightarrow> enrichState \<Rightarrow> enrichState" where
  "place_query m n q st = (let ds = (case m of None \<Rightarrow> ''default'' | Some m \<Rightarrow> source_of m (qi_table q)) in
     case m of
       Some m \<Rightarrow> if detectCrossDBJoins q m then foldl (place_step n) st (dc_steps (decomposeCrossDBQuery n q m))
         else put_fields n (query_fields q) (put_payload n (PQuery (CpQuery \<lparr>qp_intent = q, qp_datasource = ds\<rparr>)) st)
     | None \<Rightarrow> put_fields n (query_fields q) (put_payload n (PQuery (CpQuery \<lparr>qp_intent = q, qp_datasource = ds\<rparr>)) st))"

definition added_names :: "transformOp list \<Rightarrow> string list" where
  "added_names ops = List.map_filter (\<lambda>op. case op of AddField n e \<Rightarrow> Some n | _ \<Rightarrow> None) ops"

definition enrichLLMNode :: "string \<Rightarrow> pipelineStepIntent \<Rightarrow> llmPayload \<Rightarrow> llmPayload" where
  "enrichLLMNode model s p = (let out = or_else (ps_outputFields s) [''result''] in
     p\<lparr>lm_model := model,
       lm_userPrompt := \<lparr>ts_parts = [TLiteral (ps_description s @ [CHR 0x0A, CHR 0x0A] @ ''Respond with JSON only. Fields required: '' @
         join_str '', '' out @ [CHR 0x0A, CHR 0x0A] @ ''Input:'' @ [CHR 0x0A]), TExpr (VarRef ''input'')]\<rparr>,
       lm_outputSchema := map (\<lambda>f. Column f TAny True) out, lm_maxTokens := Fin 500, lm_cacheBy := Some [''id'']\<rparr>)"

definition set_config :: "string \<Rightarrow> row option \<Rightarrow> pipelineIntent \<Rightarrow> pipelineIntent" where
  "set_config n r i = i\<lparr>pi_steps := map (\<lambda>s. if ps_id s = n then s\<lparr>ps_config := r\<rparr> else s) (pi_steps i)\<rparr>"

definition place_write :: "multiSchema option \<Rightarrow> string \<Rightarrow> enrichedWrite \<Rightarrow> enrichState \<Rightarrow> enrichState" where
  "place_write m n e st = (let p = ew_payload e;
       ds = (case m of None \<Rightarrow> ''default'' | Some m \<Rightarrow> source_of m (wp_table p));
       st' = put_payload n (POther (CpWrite (p\<lparr>wp_datasource := ds\<rparr>)))
         (st\<lparr>nr_graph := ew_graph e, nr_intent := set_config n (ew_config e) (nr_intent st)\<rparr>)
     in put_fields n (getAvailableFields n (nr_intent st') (nr_fields st')) st')"

type_synonym ('b, 'w) enriching = "('b, 'w) engine \<Rightarrow> pipelineStepIntent \<Rightarrow> compiledPayload payload node \<Rightarrow> enrichState \<Rightarrow> 'w \<Rightarrow> enrichState res \<times> 'w"

definition enrich_query :: "('b, 'w) enriching" where
  "enrich_query en s nd st w = (case en_query en (ps_description s) w of
       (Inl e, w') \<Rightarrow> (Inl e, w')
     | (Inr q, w') \<Rightarrow> (let errs = validateQueryIntentColumns q (en_schema en) in
         if errs \<noteq> [] then (Inl (PlainError (''Query intent contains invalid columns:'' @ [CHR 0x0A] @ join_str [CHR 0x0A] errs)), w')
         else (Inr (place_query (en_multi en) (ps_id s) q st), w')))"

definition enrich_transform :: "('b, 'w) enriching" where
  "enrich_transform en s nd st w = (if ps_description s = [] then (Inr st, w)
     else (let av = getAvailableFields (ps_id s) (nr_intent st) (nr_fields st);
           ops = (case n_payload nd of POther (CpTransform ops) \<Rightarrow> ops | _ \<Rightarrow> [])
       in case en_transform en s ops av w of
            (Inl e, w') \<Rightarrow> (Inl e, w')
          | (Inr ops', w') \<Rightarrow> (Inr (put_fields (ps_id s) (av @ added_names ops') (put_payload (ps_id s) (POther (CpTransform ops')) st)), w')))"

definition enrich_conditional :: "('b, 'w) enriching" where
  "enrich_conditional en s nd st w = (case (given (ps_condition s), n_payload nd) of
       (Some c, PConditional p) \<Rightarrow> (case en_conditional en s p (getAvailableFields (ps_id s) (nr_intent st) (nr_fields st)) w of
           (Inl e, w') \<Rightarrow> (Inl e, w')
         | (Inr p', w') \<Rightarrow> (Inr (put_payload (ps_id s) (PConditional p') st), w'))
     | _ \<Rightarrow> (Inr st, w))"

definition enrich_llm :: "('b, 'w) enriching" where
  "enrich_llm en s nd st w = (case n_payload nd of
       POther (CpLlm p) \<Rightarrow> (Inr (put_payload (ps_id s) (POther (CpLlm (enrichLLMNode (en_model en) s p))) st), w)
     | _ \<Rightarrow> (Inr st, w))"

definition enrich_http :: "('b, 'w) enriching" where
  "enrich_http en s nd st w = (let av = getAvailableFields (ps_id s) (nr_intent st) (nr_fields st) in
     case en_http en s av w of
       (Inl e, w') \<Rightarrow> (Inl e, w')
     | (Inr (p, names, rows), w') \<Rightarrow>
         (Inr (put_fields (ps_id s) ((if rows then [] else av) @ names @ [''http_status'']) (put_payload (ps_id s) (POther p) st)), w'))"

definition enrich_write :: "('b, 'w) enriching" where
  "enrich_write en s nd st w =
     (case enrichWriteNode (en_write en) s (nr_fields st) (nr_intent st) (nr_graph st) (en_userId en) (Some (Fin 1)) w of
       (Inl e, w') \<Rightarrow> (Inl e, w')
     | (Inr e, w') \<Rightarrow> (Inr (place_write (en_multi en) (ps_id s) e st), w'))"

definition enrich_node :: "('b, 'w) engine \<Rightarrow> string \<Rightarrow> enrichState \<Rightarrow> 'w \<Rightarrow> enrichState res \<times> 'w" where
  "enrich_node en n st w = (case (step_of (nr_intent st) n, map_of (g_nodes (nr_graph st)) n) of
       (Some s, Some nd) \<Rightarrow>
         (if n_kind nd = ''query'' then enrich_query en s nd st w
          else if n_kind nd = ''transform'' then enrich_transform en s nd st w
          else if n_kind nd = ''conditional'' then enrich_conditional en s nd st w
          else if n_kind nd = ''llm'' then enrich_llm en s nd st w
          else if n_kind nd = ''http'' then enrich_http en s nd st w
          else if n_kind nd = ''write'' then enrich_write en s nd st w
          else (Inr st, w))
     | _ \<Rightarrow> (Inr st, w))"

partial_function (option) enrich_from :: "('b, 'w) engine \<Rightarrow> nat \<Rightarrow> enrichState \<Rightarrow> 'w \<Rightarrow> (enrichState res \<times> 'w) option" where
  "enrich_from en k st w = (if length (g_nodes (nr_graph st)) \<le> k then Some (Inr st, w)
     else (case enrich_node en (fst (g_nodes (nr_graph st) ! k)) st w of
         (Inl e, w') \<Rightarrow> Some (Inl e, w')
       | (Inr st', w') \<Rightarrow> enrich_from en (Suc k) st' w'))"

definition enrichNodes :: "('b, 'w) engine \<Rightarrow> pipelineGraph \<Rightarrow> pipelineIntent \<Rightarrow> 'w \<Rightarrow> (enrichState res \<times> 'w) option" where
  "enrichNodes en g i w = enrich_from en 0 \<lparr>nr_graph = g, nr_intent = i, nr_fields = []\<rparr> w"

declare enrich_from.simps [code]

end
