(* ===== verification/EnrichedRuns.thy ===== *)
theory EnrichedRuns
  imports Enrichment
begin

text \<open>
  What the enrichment does to a compiled graph: it always ends, the scheduler accepts the graph it leaves when it accepts the
  compiled one, and a run of that graph returns.
\<close>

section \<open>Ids of lookups and their edges\<close>

definition lookup_id :: "string \<Rightarrow> bool" where
  "lookup_id l \<longleftrightarrow> prefix ''lookup_'' l"

definition entry_edge :: "string \<Rightarrow> edge" where
  "entry_edge l = new_edge (''e__input_'' @ l) ''_input'' l EkData None None"

definition lookup_edge :: "string \<Rightarrow> string \<Rightarrow> edge" where
  "lookup_edge l n = new_edge (edge_name l n) l n EkData None None"

definition own_edge :: "edge \<Rightarrow> bool" where
  "own_edge e \<longleftrightarrow> (\<exists>l. lookup_id l \<and> (e = entry_edge l \<or> (\<exists>n. simple_id n \<and> e = lookup_edge l n)))"

definition foreign_id :: "string \<Rightarrow> bool" where
  "foreign_id k \<longleftrightarrow> (\<forall>l. lookup_id l \<longrightarrow> k \<noteq> ''e__input_'' @ l \<and> (\<forall>n. k \<noteq> edge_name l n))"

lemma lookup_not_simple: "lookup_id l \<Longrightarrow> \<not> simple_id l"
  by (auto simp: lookup_id_def simple_id_def prefix_def)

lemma reserved_not_lookup: "\<not> lookup_id ''_input''" "\<not> lookup_id ''_output''"
  by (simp_all add: lookup_id_def)

lemma edge_name_inj:
  assumes "simple_id n" "simple_id n'" "edge_name l n = edge_name l' n'"
  shows "l = l' \<and> n = n'"
proof -
  have last: "takeWhile (\<lambda>c. c \<noteq> CHR ''_'') (rev (edge_name l n)) = rev n" if "simple_id n" for l n
  proof -
    have "\<forall>x \<in> set (rev n). x \<noteq> CHR ''_''" using that by (auto simp: simple_id_def)
    then show ?thesis by (auto simp: edge_name_def takeWhile_append)
  qed
  have "n = n'" using last [OF assms(1), of l] last [OF assms(2), of l'] assms(3) by simp
  with assms(3) show ?thesis by (simp add: edge_name_def)
qed

lemma own_id: "own_edge e \<Longrightarrow> \<exists>l. lookup_id l \<and> (e_id e = ''e__input_'' @ l \<or> (\<exists>n. e_id e = edge_name l n))"
  unfolding own_edge_def entry_edge_def lookup_edge_def by (metis id_new_edge)

lemma own_edge_unique:
  assumes "own_edge e" "own_edge e'" "e_id e = e_id e'"
  shows "e = e'"
proof -
  have apart: "''e__input_'' @ l \<noteq> edge_name l' n" "edge_name l' n \<noteq> ''e__input_'' @ l" if "lookup_id l'" for l l' n
    using that by (auto simp: edge_name_def lookup_id_def prefix_def)
  obtain l where l: "lookup_id l" "e = entry_edge l \<or> (\<exists>n. simple_id n \<and> e = lookup_edge l n)"
    using assms(1) by (auto simp: own_edge_def)
  obtain l' where l': "lookup_id l'" "e' = entry_edge l' \<or> (\<exists>n. simple_id n \<and> e' = lookup_edge l' n)"
    using assms(2) by (auto simp: own_edge_def)
  have ids: "e_id (entry_edge x) = ''e__input_'' @ x" "e_id (lookup_edge x n) = edge_name x n" for x n
    by (simp_all only: entry_edge_def lookup_edge_def id_new_edge)
  from l(2) show ?thesis
  proof
    assume e: "e = entry_edge l"
    with assms(3) l'(2) apart(1) [OF l'(1)] have "e' = entry_edge l'" by (metis ids)
    with e assms(3) have "l = l'" by (metis ids same_append_eq)
    with e \<open>e' = entry_edge l'\<close> show ?thesis by simp
  next
    assume "\<exists>n. simple_id n \<and> e = lookup_edge l n"
    then obtain n where n: "simple_id n" "e = lookup_edge l n" by blast
    with assms(3) l'(2) apart(2) [OF l(1)] obtain n' where n': "simple_id n'" "e' = lookup_edge l' n'" by (metis ids)
    with n assms(3) edge_name_inj [OF n(1) n'(1)] show ?thesis by (metis ids)
  qed
qed

lemma own_not_foreign: "own_edge e \<Longrightarrow> \<not> foreign_id (e_id e)"
  using own_id unfolding foreign_id_def by metis

definition edges_sound :: "edgeMap \<Rightarrow> bool" where
  "edges_sound m \<longleftrightarrow> (\<forall>(k, e) \<in> set m. k = e_id e \<and> (own_edge e \<or> foreign_id (e_id e)))"

lemma put_own_edge:
  assumes "own_edge e" "edges_sound m"
  shows "set (put_edge e m) = insert (e_id e, e) (set m) \<and> edges_sound (put_edge e m)"
proof -
  have "set (al_set (e_id e) e m) = insert (e_id e, e) (set m)"
    using assms(2)
  proof (induction m)
    case (Cons p m)
    obtain k e' where p: "p = (k, e')" by force
    with Cons.prems have e': "k = e_id e'" "own_edge e' \<or> foreign_id (e_id e')" "edges_sound m" by (auto simp: edges_sound_def)
    show ?case
    proof (cases "k = e_id e")
      case True
      with e' own_not_foreign [OF assms(1)] own_edge_unique [OF assms(1)] have "e' = e" by metis
      with True show ?thesis by (simp add: p)
    next
      case False
      with Cons.IH [OF e'(3)] show ?thesis by (auto simp: p)
    qed
  qed simp
  with assms show ?thesis by (auto simp: put_edge_def edges_sound_def)
qed

section \<open>Sound graphs\<close>

text \<open>What a graph keeps while its payloads are filled in.\<close>

definition sound :: "string list \<Rightarrow> pipelineGraph \<Rightarrow> bool" where
  "sound kinds g \<longleftrightarrow> wf_graph g \<and> validateGraph g (Some kinds) = [] \<and> entryNode g = ''_input'' \<and>
     (\<forall>(k, nd) \<in> set (g_nodes g). n_id nd = k \<and> n_errorPolicy nd = fail_policy) \<and> edges_sound (g_edges g) \<and>
     (\<forall>(m, l) \<in> set (all_arrows g). lookup_id l \<longrightarrow> m = ''_input'')"

lemma shape_facts:
  assumes "graph_shape g' = graph_shape g"
  shows "node_ids g' = node_ids g" "g_edges g' = g_edges g" "entryNode g' = entryNode g" "exitNodes g' = exitNodes g"
    "\<And>k nd'. (k, nd') \<in> set (g_nodes g') \<Longrightarrow> \<exists>nd. (k, nd) \<in> set (g_nodes g) \<and> n_id nd' = n_id nd \<and> n_kind nd' = n_kind nd \<and>
       n_errorPolicy nd' = n_errorPolicy nd"
proof -
  have nodes: "nodes_shape (g_nodes g') = nodes_shape (g_nodes g)" and rest: "g'\<lparr>g_nodes := []\<rparr> = g\<lparr>g_nodes := []\<rparr>"
    using assms by (auto simp: graph_shape_def)
  have ids: "map fst (nodes_shape ns) = map fst ns" for ns by (induction ns) (auto simp: nodes_shape_def)
  show "node_ids g' = node_ids g" unfolding node_ids_def using nodes ids by metis
  from rest show "g_edges g' = g_edges g" "entryNode g' = entryNode g" "exitNodes g' = exitNodes g"
    by (cases g; cases g'; simp)+
  fix k nd' assume "(k, nd') \<in> set (g_nodes g')"
  then have "(k, n_id nd', n_kind nd', n_errorPolicy nd') \<in> set (nodes_shape (g_nodes g'))" by (force simp: nodes_shape_def)
  with nodes show "\<exists>nd. (k, nd) \<in> set (g_nodes g) \<and> n_id nd' = n_id nd \<and> n_kind nd' = n_kind nd \<and> n_errorPolicy nd' = n_errorPolicy nd"
    by (auto simp: nodes_shape_def)
qed

lemma edges_same: "g_edges g' = g_edges g \<Longrightarrow> data_arrows g' = data_arrows g \<and> all_arrows g' = all_arrows g \<and> edges_of g' = edges_of g"
  by (simp add: data_arrows_def all_arrows_def edges_of_def)

lemma sound_shape:
  assumes "graph_shape g' = graph_shape g" "sound kinds g"
  shows "sound kinds g'"
proof -
  note shape = shape_facts [OF assms(1)]
  note arrows = edges_same [OF shape(2)]
  have wf: "wf_graph g'" "wf_graph g" using assms(2) shape(1,2) by (simp_all add: sound_def wf_graph_def node_ids_def)
  have valid: "validateGraph g (Some kinds) = []" using assms(2) by (simp add: sound_def)
  then have kinds: "\<forall>(k, nd) \<in> set (g_nodes g). n_kind nd \<in> set kinds" using validateGraph_Nil [OF wf(2), of kinds] by simp
  have "\<forall>(k, nd) \<in> set (g_nodes g'). n_kind nd \<in> set kinds" using shape(5) kinds by fastforce
  moreover have "endpoints_exist g' = endpoints_exist g" using shape(1) arrows by (simp add: endpoints_exist_def)
  ultimately have "validateGraph g' (Some kinds) = []"
    using iffD1 [OF validateGraph_Nil [OF wf(2)] valid] arrows shape(1,3,4) unfolding validateGraph_Nil [OF wf(1)] by simp
  moreover have "\<forall>(k, nd) \<in> set (g_nodes g'). n_id nd = k \<and> n_errorPolicy nd = fail_policy"
    using shape(5) assms(2) by (fastforce simp: sound_def)
  ultimately show ?thesis using assms(2) wf(1) shape(2,3) arrows by (simp add: sound_def)
qed

lemma set_payload_shape: "graph_shape (set_payload n p g) = graph_shape g"
proof (cases "map_of (g_nodes g) n")
  case (Some nd)
  have "map_of ns n = Some nd \<Longrightarrow> nodes_shape (al_set n (nd\<lparr>n_payload := p\<rparr>) ns) = nodes_shape ns" for ns
    by (induction ns) (auto simp: nodes_shape_def)
  with Some show ?thesis by (simp add: set_payload_def graph_shape_def)
qed (simp add: set_payload_def)

section \<open>A lookup is added\<close>

lemma acyclic_through:
  assumes "acyclic A" "src \<noteq> l" "l \<noteq> n" "n \<noteq> src" "\<And>m. (m, src) \<notin> A" "\<And>m. (m, l) \<in> A \<Longrightarrow> m = src"
  shows "acyclic (insert (src, l) (insert (l, n) A))"
proof -
  have into: "x = src" if "(x, src) \<in> B\<^sup>*" "\<And>m. (m, src) \<notin> B" for x B
    using that by (metis rtranclE)
  have "(n, l) \<notin> A\<^sup>*"
  proof
    assume "(n, l) \<in> A\<^sup>*"
    then obtain m where m: "(n, m) \<in> A\<^sup>*" "(m, l) \<in> A" using assms(3) by (metis rtranclE)
    with assms(6) have "m = src" by blast
    with m(1) into [of n A] assms(4,5) show False by blast
  qed
  with assms(1) have 1: "acyclic (insert (l, n) A)" by (simp add: acyclic_insert)
  have "(l, src) \<notin> (insert (l, n) A)\<^sup>*"
    using into [of l "insert (l, n) A"] assms(2,4,5) by auto
  with 1 show ?thesis by (simp add: acyclic_insert)
qed

lemma distinct_put_edges: "distinct (map fst m) \<Longrightarrow> distinct (map fst (put_edges es m))"
  using distinct_put by blast

lemma lookup_edges:
  assumes "lookup_id l" "simple_id n" "edges_sound (g_edges g)"
  shows "set (g_edges (add_lookup n l p g)) = insert (e_id (lookup_edge l n), lookup_edge l n)
      (insert (e_id (entry_edge l), entry_edge l) (set (g_edges g))) \<and>
    edges_sound (g_edges (add_lookup n l p g))"
proof -
  have own: "own_edge (entry_edge l)" "own_edge (lookup_edge l n)" using assms(1,2) by (auto simp: own_edge_def)
  have "g_edges (add_lookup n l p g) = put_edge (lookup_edge l n) (put_edge (entry_edge l) (g_edges g))"
    by (simp add: add_lookup_def put_edges_def entry_edge_def lookup_edge_def)
  with put_own_edge [OF own(1) assms(3)] put_own_edge [OF own(2), of "put_edge (entry_edge l) (g_edges g)"]
  show ?thesis by auto
qed

lemma lookup_arrows:
  assumes "lookup_id l" "simple_id n" "edges_sound (g_edges g)"
  shows "set (data_arrows (add_lookup n l p g)) = insert (''_input'', l) (insert (l, n) (set (data_arrows g)))"
    "set (all_arrows (add_lookup n l p g)) = insert (''_input'', l) (insert (l, n) (set (all_arrows g)))"
proof -
  have "sigs (g_edges (add_lookup n l p g)) = insert (''_input'', l, EkData) (insert (l, n, EkData) (sigs (g_edges g)))"
  proof -
    have "sig (entry_edge l) = (''_input'', l, EkData)" "sig (lookup_edge l n) = (l, n, EkData)"
      by (simp_all only: entry_edge_def lookup_edge_def sig_new_edge)
    moreover have "snd ` set (g_edges (add_lookup n l p g)) = insert (entry_edge l) (insert (lookup_edge l n) (snd ` set (g_edges g)))"
      using lookup_edges [OF assms, of p] by (simp add: insert_commute)
    ultimately show ?thesis by (simp add: sigs_def)
  qed
  then show "set (data_arrows (add_lookup n l p g)) = insert (''_input'', l) (insert (l, n) (set (data_arrows g)))"
    "set (all_arrows (add_lookup n l p g)) = insert (''_input'', l) (insert (l, n) (set (all_arrows g)))"
    unfolding arrows_of_sigs by auto
qed

lemma add_lookup_sound:
  assumes "sound kinds g" "lookup_id l" "simple_id n" "n \<in> set (node_ids g)" "''query'' \<in> set kinds"
  shows "sound kinds (add_lookup n l p g)"
proof -
  let ?g = "add_lookup n l p g"
  have wf: "wf_graph g" and valid: "validateGraph g (Some kinds) = []" and entry: "entryNode g = ''_input''"
    and edges: "edges_sound (g_edges g)" and into: "\<And>m x. (m, x) \<in> set (all_arrows g) \<Longrightarrow> lookup_id x \<Longrightarrow> m = ''_input''"
    using assms(1) by (auto simp: sound_def)
  note valid = iffD1 [OF validateGraph_Nil [OF wf] valid]
  note arrows = lookup_arrows [OF assms(2,3) edges, of p]
  have data_all: "set (data_arrows g) \<subseteq> set (all_arrows g)" by (auto simp: data_arrows_def all_arrows_def)
  have apart: "l \<noteq> ''_input''" "l \<noteq> ''_output''" "l \<noteq> n" "n \<noteq> ''_input''" "n \<noteq> ''_output''" "\<not> lookup_id n"
    using assms(2,3) reserved_not_lookup lookup_not_simple by (auto simp: simple_id_def)
  have nodes: "set (node_ids ?g) = insert l (set (node_ids g))" "entryNode ?g = ''_input''" "exitNodes ?g = exitNodes g"
    by (simp_all add: node_ids_def add_lookup_def entry)
  have wf': "wf_graph ?g"
    using wf by (simp add: wf_graph_def add_lookup_def distinct_put_edges)
  have "acyclic (set (data_arrows ?g))"
    unfolding arrows
  proof (rule acyclic_through)
    show "\<And>m. (m, l) \<in> set (data_arrows g) \<Longrightarrow> m = ''_input''" using into [OF _ assms(2)] data_all by blast
  qed (use valid entry apart in auto)
  moreover have "endpoints_exist ?g"
    using valid lookup_edges [OF assms(2,3) edges, of p] assms(4) entry nodes(1)
    by (force simp: endpoints_exist_def edges_of_def entry_edge_def lookup_edge_def new_edge_def)
  moreover have "\<forall>(k, nd) \<in> set (g_nodes ?g). n_kind nd \<in> set kinds \<and> n_id nd = k \<and> n_errorPolicy nd = fail_policy"
    using valid assms(1,5) set_al_set_subset [of l "query_node l p" "g_nodes g"]
    by (fastforce simp: sound_def add_lookup_def query_node_def)
  moreover have "edges_sound (g_edges ?g)" using lookup_edges [OF assms(2,3) edges] by blast
  moreover have "\<forall>(m, x) \<in> set (all_arrows ?g). lookup_id x \<longrightarrow> m = ''_input''"
    unfolding arrows using into apart by auto
  ultimately show ?thesis
    using valid wf' nodes arrows apart entry unfolding sound_def validateGraph_Nil [OF wf'] by auto
qed

section \<open>The loop\<close>

definition simple_steps :: "pipelineIntent \<Rightarrow> bool" where
  "simple_steps i \<longleftrightarrow> (\<forall>s \<in> set (pi_steps i). simple_id (ps_id s))"

text \<open>One visit: the graph stays sound, the steps keep their ids, and new nodes are lookups behind the others.\<close>

definition grows :: "string list \<Rightarrow> enrichState \<Rightarrow> enrichState \<Rightarrow> bool" where
  "grows kinds st st' \<longleftrightarrow> (sound kinds (nr_graph st) \<longrightarrow> sound kinds (nr_graph st')) \<and>
     map ps_id (pi_steps (nr_intent st')) = map ps_id (pi_steps (nr_intent st)) \<and>
     (\<exists>ls. node_ids (nr_graph st') = node_ids (nr_graph st) @ ls \<and> list_all lookup_id ls)"

lemma grows_refl [simp]: "grows kinds st st"
  by (simp add: grows_def)

lemma grows_trans: "grows kinds st st1 \<Longrightarrow> grows kinds st1 st2 \<Longrightarrow> grows kinds st st2"
  unfolding grows_def by (metis append.assoc list_all_append)

lemma grows_shape:
  "graph_shape (nr_graph st') = graph_shape (nr_graph st) \<Longrightarrow> map ps_id (pi_steps (nr_intent st')) = map ps_id (pi_steps (nr_intent st)) \<Longrightarrow>
   grows kinds st st'"
  using sound_shape [of "nr_graph st'" "nr_graph st" kinds] shape_facts(1) [of "nr_graph st'" "nr_graph st"] by (simp add: grows_def)

lemma grows_put [simp]: "grows kinds st (put_fields n fs (put_payload m p st))" "grows kinds st (put_payload m p st)"
  "grows kinds st (put_fields n fs st)"
proof -
  have "nr_graph (put_payload m p st) = set_payload m p (nr_graph st)" "nr_intent (put_payload m p st) = nr_intent st"
    "nr_graph (put_fields n fs x) = nr_graph x" "nr_intent (put_fields n fs x) = nr_intent x" for x
    by (simp_all add: put_payload_def put_fields_def)
  then show "grows kinds st (put_fields n fs (put_payload m p st))" "grows kinds st (put_payload m p st)" "grows kinds st (put_fields n fs st)"
    by (intro grows_shape; simp add: set_payload_shape)+
qed

lemma place_step_grows:
  assumes "simple_id n" "n \<in> set (node_ids (nr_graph st))" "dd_nodeId d = n \<or> lookup_id (dd_nodeId d)" "''query'' \<in> set kinds"
  shows "grows kinds st (place_step n st d)"
proof (cases "dd_nodeId d = n")
  case True
  then show ?thesis by (simp add: place_step_def Let_def)
next
  case False
  let ?p = "\<lparr>qp_intent = dd_intent d, qp_datasource = dd_datasource d\<rparr>"
  let ?st = "st\<lparr>nr_graph := add_lookup n (dd_nodeId d) ?p (nr_graph st)\<rparr>"
  have l: "lookup_id (dd_nodeId d)" using False assms(3) by blast
  have "grows kinds st ?st"
    using add_lookup_sound [OF _ l assms(1,2,4)] l by (auto simp: grows_def node_ids_def add_lookup_def fst_al_set)
  with False show ?thesis by (auto simp: place_step_def Let_def intro: grows_trans)
qed

lemma place_steps_grow:
  assumes "simple_id n" "''query'' \<in> set kinds"
  shows "n \<in> set (node_ids (nr_graph st)) \<Longrightarrow> \<forall>d \<in> set ds. dd_nodeId d = n \<or> lookup_id (dd_nodeId d) \<Longrightarrow>
    grows kinds st (foldl (place_step n) st ds)"
proof (induction ds arbitrary: st)
  case (Cons d ds)
  have step: "grows kinds st (place_step n st d)" by (rule place_step_grows) (use Cons.prems assms in simp_all)
  then have "n \<in> set (node_ids (nr_graph (place_step n st d)))" using Cons.prems(1) by (auto simp: grows_def)
  with Cons.IH Cons.prems(2) step show ?case by (auto intro: grows_trans)
qed simp

lemma place_query_grows:
  assumes "simple_id n" "n \<in> set (node_ids (nr_graph st))" "''query'' \<in> set kinds"
  shows "grows kinds st (place_query m n q st)"
proof (cases m)
  case (Some x)
  have "\<forall>d \<in> set (dc_steps (decomposeCrossDBQuery n q x)). dd_nodeId d = n \<or> lookup_id (dd_nodeId d)"
    by (auto simp: decomposeCrossDBQuery_def lookup_step_def lookup_name_def lookup_id_def Let_def)
  with place_steps_grow [OF assms(1,3,2)] Some show ?thesis by (simp add: place_query_def Let_def)
qed (simp add: place_query_def)

lemma place_write_grows: "graph_shape (ew_graph e) = graph_shape (nr_graph st) \<Longrightarrow> grows kinds st (place_write m n e st)"
  by (rule grows_shape) (simp_all add: place_write_def put_fields_def put_payload_def set_payload_shape set_config_def Let_def o_def
      if_distrib cong: if_cong map_cong)

lemma enrich_node_grows:
  assumes "enrich_node en n st w = (Inr st', w')" "simple_steps (nr_intent st)" "''query'' \<in> set kinds"
  shows "grows kinds st st' \<and> (lookup_id n \<longrightarrow> st' = st)"
proof (cases "step_of (nr_intent st) n = None \<or> map_of (g_nodes (nr_graph st)) n = None")
  case True
  with assms(1) show ?thesis by (auto simp: enrich_node_def split: option.splits)
next
  case False
  then obtain s nd where s: "step_of (nr_intent st) n = Some s" and nd: "map_of (g_nodes (nr_graph st)) n = Some nd" by auto
  then have n: "ps_id s = n" "s \<in> set (pi_steps (nr_intent st))" by (auto simp: step_of_def find_Some_iff)
  with assms(2) have simple: "simple_id n" by (auto simp: simple_steps_def)
  have here: "n \<in> set (node_ids (nr_graph st))" using nd by (force simp: node_ids_def dest: map_of_SomeD)
  have query: "grows kinds st (place_query (en_multi en) n q st)" for q by (rule place_query_grows [OF simple here assms(3)])
  have writes: "enrichWriteNode (en_write en) s (nr_fields st) (nr_intent st) (nr_graph st) (en_userId en) (Some (Fin 1)) w = (Inr e, w') \<Longrightarrow>
      grows kinds st (place_write (en_multi en) n e st)" for e
    by (rule place_write_grows [OF enriched_shape])
  have "grows kinds st st'"
    using assms(1) query
    by (auto intro: writes simp: enrich_node_def s nd n(1) enrich_query_def enrich_transform_def enrich_conditional_def enrich_llm_def enrich_http_def
        enrich_write_def Let_def split: if_splits prod.splits sum.splits option.splits payload.splits compiledPayload.splits)
  with simple lookup_not_simple show ?thesis by blast
qed

text \<open>Behind some position of the node map there are only lookups, and those are passed over.\<close>

definition lookups_from :: "nat \<Rightarrow> enrichState \<Rightarrow> bool" where
  "lookups_from k st \<longleftrightarrow> list_all lookup_id (drop k (node_ids (nr_graph st)))"

lemma enrich_lookups:
  "simple_steps (nr_intent st) \<Longrightarrow> lookups_from k st \<Longrightarrow> enrich_from en k st w = Some (Inr st, w)"
proof (induction "length (g_nodes (nr_graph st)) - k" arbitrary: k)
  case 0
  then show ?case by (simp add: enrich_from.simps)
next
  case (Suc d)
  then have k: "k < length (g_nodes (nr_graph st))" by simp
  let ?n = "fst (g_nodes (nr_graph st) ! k)"
  have ids: "drop k (node_ids (nr_graph st)) = ?n # drop (Suc k) (node_ids (nr_graph st))"
    using k by (simp add: node_ids_def Cons_nth_drop_Suc [symmetric])
  with Suc.prems(2) have l: "lookup_id ?n" "lookups_from (Suc k) st" by (simp_all add: lookups_from_def)
  have "step_of (nr_intent st) ?n = None"
    using Suc.prems(1) lookup_not_simple [OF l(1)] by (auto simp: step_of_def find_None_iff simple_steps_def)
  then have "enrich_node en ?n st w = (Inr st, w)" by (simp add: enrich_node_def)
  with Suc.hyps(1) [of "Suc k"] Suc.hyps(2) Suc.prems(1) l(2) k show ?case by (subst enrich_from.simps) simp
qed

lemma enrich_total:
  assumes "''query'' \<in> set kinds"
  shows "simple_steps (nr_intent st) \<Longrightarrow> lookups_from N st \<Longrightarrow> N \<le> length (g_nodes (nr_graph st)) \<Longrightarrow>
    \<exists>out. enrich_from en k st w = Some out \<and> (\<forall>st' w'. out = (Inr st', w') \<longrightarrow> grows kinds st st')"
proof (induction "N - k" arbitrary: k st w)
  case 0
  then have "lookups_from k st" unfolding lookups_from_def by (metis diff_is_0_eq drop_drop le_add_diff_inverse2 list_all_iff set_drop_subset subsetD)
  with enrich_lookups 0(2) show ?case by (metis Pair_inject grows_refl sum.inject(2))
next
  case (Suc d)
  then have k: "k < length (g_nodes (nr_graph st))" by simp
  obtain r w1 where r: "enrich_node en (fst (g_nodes (nr_graph st) ! k)) st w = (r, w1)" by force
  show ?case
  proof (cases r)
    case (Inl e)
    with r k show ?thesis by (subst enrich_from.simps) simp
  next
    case (Inr st1)
    from enrich_node_grows [OF r [unfolded Inr] Suc.prems(1) assms] have g: "grows kinds st st1" ..
    then obtain ls where ls: "node_ids (nr_graph st1) = node_ids (nr_graph st) @ ls" "list_all lookup_id ls" by (auto simp: grows_def)
    have len: "length (g_nodes (nr_graph st1)) = length (g_nodes (nr_graph st)) + length ls"
      using arg_cong [OF ls(1), of length] by (simp add: node_ids_def)
    have "simple_steps (nr_intent st1)"
      using g Suc.prems(1) unfolding grows_def simple_steps_def by (metis (no_types, lifting) image_eqI image_iff list.set_map)
    moreover have "lookups_from N st1" using Suc.prems(2,3) ls by (simp add: lookups_from_def node_ids_def)
    moreover have "d = N - Suc k" using Suc.hyps(2) by simp
    ultimately obtain out where "enrich_from en (Suc k) st1 w1 = Some out" "\<forall>st' w'. out = (Inr st', w') \<longrightarrow> grows kinds st1 st'"
      using Suc.hyps(1) [of "Suc k" st1 w1] Suc.prems(3) len by (metis trans_le_add1)
    with r Inr k g show ?thesis by (subst enrich_from.simps) (auto intro: grows_trans)
  qed
qed

section \<open>Compiled graphs\<close>

lemma compiled_edges_foreign:
  assumes "well_formed_intent i" "simple_ids i" "''lookup'' \<notin> set (step_ids i)" "e \<in> wanted i"
  shows "foreign_id (e_id e)"
  unfolding foreign_id_def
proof (intro allI impI conjI)
  fix l assume l: "lookup_id l"
  note dec = decode_wanted [OF assms(1,2,4)]
  have arrow: "(e_from e, e_to e) \<in> pipeline_arrows i"
  proof -
    have "(e_from e, e_to e, e_kind e) \<in> sig ` wanted i" using assms(4) by (force simp: sig_def)
    then show ?thesis using sig_wanted by (cases "e_kind e") auto
  qed
  note ends = pipeline_arrows_ends [OF assms(1)]
  have from_ok: "e_from e \<in> insert ''_input'' (set (step_ids i))" and to_ok: "e_to e \<in> insert ''_output'' (set (step_ids i))"
    using arrow ends by blast+
  show "e_id e \<noteq> ''e__input_'' @ l"
  proof
    assume "e_id e = ''e__input_'' @ l"
    then have "sig e = (''_input'', l, EkData)" using dec decode_entry by metis
    then have "e_to e = l" by (simp add: sig_def)
    with to_ok l reserved_not_lookup(2) lookup_not_simple [OF l] assms(2) show False by (auto simp: simple_ids_def)
  qed
  fix n show "e_id e \<noteq> edge_name l n"
  proof
    assume id: "e_id e = edge_name l n"
    obtain x where x: "l = ''lookup'' @ CHR ''_'' # x" using l by (auto simp: lookup_id_def prefix_def)
    have "seg (''e'' @ CHR ''_'' # (''lookup'' @ CHR ''_'' # (x @ CHR ''_'' # n))) = ''e''"
      "seg (''lookup'' @ CHR ''_'' # (x @ CHR ''_'' # n)) = ''lookup''" by (rule seg_append, simp)+
    then have "fst (decode_id (edge_name l n)) = ''lookup''" by (simp add: decode_id_def edge_name_def x Let_def)
    with id dec have "e_from e = ''lookup''" by (simp add: sig_def)
    with from_ok assms(3) show False by auto
  qed
qed

lemma compiled_sound:
  assumes "compile_intent cs i = (g, [])" "simple_ids i" "''lookup'' \<notin> set (step_ids i)" "validateGraph g (Some kinds) = []"
  shows "sound kinds g \<and> length (g_nodes g) = Suc (Suc (length (pi_steps i)))"
proof -
  from compile_facts [OF assms(1)] have i: "well_formed_intent i" and g: "g = buildGraph cs (buildNodes cs i) (buildEdges i) i" by auto
  note un = simple_ids_unreserved [OF assms(2)] and clash = simple_ids_no_clash [OF i assms(2)]
  note nodes = compiled_nodes [OF assms(1) un]
  have edges: "g_edges g = buildEdges i" and entry: "entryNode g = ''_input''" by (simp_all add: g built_graph_facts)
  have wf: "wf_graph g" using nodes(3) distinct_buildEdges by (simp add: wf_graph_def edges node_ids_def)
  have "edges_sound (g_edges g)"
    using buildEdges_facts [OF clash] compiled_edges_foreign [OF i assms(2,3)] by (fastforce simp: edges_sound_def held_def edges)
  moreover have "\<not> lookup_id l" if "(m, l) \<in> set (all_arrows g)" for m l
  proof -
    have "l \<in> insert ''_output'' (set (step_ids i))"
      using that compiled_arrows [OF clash edges] pipeline_arrows_ends(2) [OF i] by blast
    then show ?thesis using reserved_not_lookup(2) lookup_not_simple assms(2) by (auto simp: simple_ids_def)
  qed
  moreover have "n_id nd = k \<and> n_errorPolicy nd = fail_policy" if "(k, nd) \<in> set (g_nodes g)" for k nd
    by (rule compiled_node_facts [OF assms(1) un that])
  ultimately have "sound kinds g" unfolding sound_def using wf entry assms(4) by blast
  moreover have "length (g_nodes g) = Suc (Suc (length (pi_steps i)))" by (simp add: nodes(1))
  ultimately show ?thesis by blast
qed

lemma enriched_compiled:
  assumes "compile_intent cs i = (g, [])" "simple_ids i" "''lookup'' \<notin> set (step_ids i)" "validateGraph g (Some kinds) = []"
    and "''query'' \<in> set kinds"
  shows "\<exists>out. enrichNodes en g i w = Some out \<and> (\<forall>st w'. out = (Inr st, w') \<longrightarrow> sound kinds (nr_graph st))"
proof -
  let ?st = "\<lparr>nr_graph = g, nr_intent = i, nr_fields = []\<rparr>"
  note sound = compiled_sound [OF assms(1-4)]
  have "simple_steps (nr_intent ?st)" using assms(2) by (simp add: simple_steps_def simple_ids_def step_ids_def)
  moreover have "lookups_from (length (g_nodes g)) ?st" by (simp add: lookups_from_def node_ids_def)
  ultimately obtain out where "enrich_from en 0 ?st w = Some out" "\<forall>st' w'. out = (Inr st', w') \<longrightarrow> grows kinds ?st st'"
    using enrich_total [OF assms(5), of ?st "length (g_nodes g)" en 0 w] by auto
  with sound show ?thesis by (auto simp: enrichNodes_def grows_def)
qed

section \<open>Properties\<close>


lemma sound_run_returns:
  assumes "sound kinds g" "caps_positive cf g" "length (g_nodes g) < fuel"
  shows "\<exists>out. run fuel cf g c w = Some out \<and> (\<forall>fuel' \<ge> fuel. run fuel' cf g c w = Some out)"
proof (rule run_returns [OF _ _ assms(2)])
  have "fallback_arrows g = []"
    by (rule no_fallbacks) (use assms(1) in \<open>auto simp: sound_def fail_policy_def\<close>)
  then have calls: "calls g = set (data_arrows g)" by (simp add: calls_def)
  have valid: "acyclic (set (data_arrows g)) \<and> endpoints_exist g"
    using assms(1) validateGraph_Nil [of g kinds] by (simp add: sound_def)
  then show "acyclic (calls g)" by (simp add: calls)
  show "keyed_nodes g" using assms(1) by (auto simp: sound_def keyed_nodes_def)
  have "Range (calls g) \<subseteq> set (node_ids g)"
    using valid by (auto simp: calls data_arrows_def arrow_def endpoints_exist_def)
  then have "card (Range (calls g)) \<le> card (set (node_ids g))" by (rule card_mono [rotated]) simp
  also have "\<dots> \<le> length (g_nodes g)" using card_length [of "node_ids g"] by (simp add: node_ids_def)
  finally show "card (Range (calls g)) < fuel" using assms(3) by simp
qed


section \<open>Two queries and one lookup\<close>

lemma map_of_place_step:
  "map_of (g_nodes (nr_graph (place_step n st d))) x =
    (if dd_nodeId d = n then (if x = n then map_option (\<lambda>nd. nd\<lparr>n_payload := PQuery (CpQuery \<lparr>qp_intent = dd_intent d,
        qp_datasource = dd_datasource d\<rparr>)\<rparr>) (map_of (g_nodes (nr_graph st)) n) else map_of (g_nodes (nr_graph st)) x)
     else if x = dd_nodeId d then Some (query_node x \<lparr>qp_intent = dd_intent d, qp_datasource = dd_datasource d\<rparr>)
     else map_of (g_nodes (nr_graph st)) x)"
  by (auto simp: place_step_def Let_def put_fields_def put_payload_def set_payload_def add_lookup_def split: option.splits)

definition looks_up :: "queryIntent \<Rightarrow> string \<Rightarrow> compiledPayload payload node option \<Rightarrow> bool" where
  "looks_up q t x \<longleftrightarrow> (\<exists>n c ds. x = Some (query_node n \<lparr>qp_intent = lookup_intent t c (foreign_filters q t), qp_datasource = ds\<rparr>))"

lemma same_lookup: "lookup_name j = lookup_name j' \<Longrightarrow> ij_table j = ij_table j'"
  by (simp add: lookup_name_def)

lemma lookups_placed:
  assumes "simple_id n"
  shows "looks_up q (ij_table j) (map_of (g_nodes (nr_graph st)) (lookup_name j)) \<or> j \<in> set js \<Longrightarrow>
    looks_up q (ij_table j) (map_of (g_nodes (nr_graph (foldl (place_step n) st (map (lookup_step m q) js)))) (lookup_name j))"
proof (induction js arbitrary: st)
  case (Cons i js)
  have "lookup_name i \<noteq> n" using lookup_not_simple assms by (auto simp: lookup_id_def lookup_name_def)
  then have "map_of (g_nodes (nr_graph (place_step n st (lookup_step m q i)))) (lookup_name j) =
      (if lookup_name j = lookup_name i then Some (query_node (lookup_name i) \<lparr>qp_intent = lookup_intent (ij_table i) (foreign_col i)
        (foreign_filters q (ij_table i)), qp_datasource = source_of m (ij_table i)\<rparr>) else map_of (g_nodes (nr_graph st)) (lookup_name j))"
    by (simp add: map_of_place_step lookup_step_def)
  then have "looks_up q (ij_table j) (map_of (g_nodes (nr_graph (place_step n st (lookup_step m q i)))) (lookup_name j)) \<or> j \<in> set js"
    using Cons.prems same_lookup [of j i] by (auto simp: looks_up_def)
  from Cons.IH [OF this] show ?case by simp
qed simp

lemma others_kept:
  "x \<notin> set (map dd_nodeId ds) \<Longrightarrow> map_of (g_nodes (nr_graph (foldl (place_step n) st ds))) x = map_of (g_nodes (nr_graph st)) x"
  by (induction ds arbitrary: st) (auto simp: map_of_place_step)

lemma place_query_steps:
  "foreign_joins m q \<noteq> [] \<Longrightarrow> place_query (Some m) n q st = place_step n (foldl (place_step n) st (map (lookup_step m q) (foreign_joins m q)))
     \<lparr>dd_nodeId = n, dd_datasource = source_of m (qi_table q), dd_intent = primary_intent m q, dd_dependsOn = map lookup_name (foreign_joins m q)\<rparr>"
  by (simp add: place_query_def foreign_joins_iff decomposed_steps)

lemma placed_lookup:
  assumes "simple_id n" "j \<in> set (foreign_joins m q)"
  shows "looks_up q (ij_table j) (map_of (g_nodes (nr_graph (place_query (Some m) n q st))) (lookup_name j))"
proof -
  have "lookup_name j \<noteq> n" using lookup_not_simple assms(1) by (auto simp: lookup_id_def lookup_name_def)
  moreover have "foreign_joins m q \<noteq> []" using assms(2) by auto
  ultimately show ?thesis using lookups_placed [OF assms(1), of q j st "foreign_joins m q" m] assms(2)
    by (simp add: place_query_steps map_of_place_step)
qed

lemma placed_primary:
  assumes "simple_id n" "foreign_joins m q \<noteq> []" "map_of (g_nodes (nr_graph st)) n = Some nd"
  shows "map_of (g_nodes (nr_graph (place_query (Some m) n q st))) n =
    Some (nd\<lparr>n_payload := PQuery (CpQuery \<lparr>qp_intent = primary_intent m q, qp_datasource = source_of m (qi_table q)\<rparr>)\<rparr>)"
proof -
  have "n \<notin> set (map dd_nodeId (map (lookup_step m q) (foreign_joins m q)))"
    using lookup_not_simple assms(1) by (auto simp: lookup_id_def lookup_name_def lookup_step_def)
  from others_kept [OF this, of n st] assms(2,3) show ?thesis by (simp add: place_query_steps map_of_place_step)
qed


section \<open>A pipeline over two sources\<close>

definition demo_columns :: "string list \<Rightarrow> columnConfig list" where
  "demo_columns cs = map (\<lambda>c. \<lparr>cc_name = c, cc_type = TString, cc_nullable = True, cc_hasDefault = None, cc_isGenerated = None,
     cc_defaultValue = None, cc_primaryKey = None, cc_description = None, cc_examples = None\<rparr>) cs"

definition demo_table :: "string \<Rightarrow> string list \<Rightarrow> string \<times> tableConfig" where
  "demo_table t cs = (t, \<lparr>tc_name = t, tc_alias = None, tc_description = None, tc_columns = demo_columns cs, tc_primaryKey = [],
     tc_datasource = None, tc_displayName = None\<rparr>)"

definition demo_engine :: "(unit, unit) engine" where
  "demo_engine = \<lparr>en_write = task_env (Some task_answer),
     en_schema = \<lparr>sc_tables = [demo_table ''projects'' [''title''], demo_table ''accounts'' [''name'']], sc_foreignKeys = [],
       sc_version = [], sc_description = None\<rparr>,
     en_multi = Some two_sources, en_userId = None, en_model = [],
     en_query = (\<lambda>_ w. (Inr (project_query (Some ''accounts'')), w)), en_transform = (\<lambda>s ops av w. (Inr ops, w)),
     en_conditional = (\<lambda>s e av w. (Inr e, w)), en_http = (\<lambda>s av w. (Inl (PlainError []), w))\<rparr>"

definition one_query :: pipelineIntent where
  "one_query = intent_of [blank_step ''n1'' SkQuery []]"

abbreviation query_graph :: pipelineGraph where
  "query_graph \<equiv> fst (compile_intent some_settings one_query)"

lemma query_graph_facts:
  "compile_intent some_settings one_query = (query_graph, [])" "simple_ids one_query" "''lookup'' \<notin> set (step_ids one_query)"
  "validateGraph query_graph (Some [''input'', ''output'', ''query'']) = []"
proof -
  have "validate_intent one_query = []" by code_simp
  then show "compile_intent some_settings one_query = (query_graph, [])" by (simp add: compile_intent_def)
  show "simple_ids one_query" "''lookup'' \<notin> set (step_ids one_query)"
    "validateGraph query_graph (Some [''input'', ''output'', ''query'']) = []" by code_simp+
qed

lemma demo_enriched:
  "map_option (map_sum id (\<lambda>st. (node_ids (nr_graph st),
       list_all (\<lambda>(k, nd). case n_payload nd of PParallel m \<Rightarrow> False | _ \<Rightarrow> True) (g_nodes (nr_graph st)))) \<circ> fst)
     (enrichNodes demo_engine query_graph one_query ()) =
   Some (Inr ([''_input'', ''_output'', ''n1'', ''lookup_accounts''], True))"
  by code_simp

lemma demo_state:
  obtains st where "enrichNodes demo_engine query_graph one_query () = Some (Inr st, ())" "caps_positive cf (nr_graph st)"
    "node_ids (nr_graph st) = [''_input'', ''_output'', ''n1'', ''lookup_accounts'']"
proof -
  obtain r w where r: "enrichNodes demo_engine query_graph one_query () = Some (r, w)" using demo_enriched by fastforce
  with demo_enriched obtain st where st: "r = Inr st" by (cases r) auto
  show ?thesis
    by (rule that [of st]) (use demo_enriched r st in \<open>auto simp: caps_positive_def list_all_iff split: payload.splits\<close>)
qed




end
