(* ===== verification/GrantHistory.thy ===== *)
theory GrantHistory
  imports Grants
begin

text \<open>
  What the grant store of \<open>src/src/auth/grant-store.ts\<close> promises over time.  A history is
  the list of the calls made so far, the latest first; \<open>reaches\<close> relates it to the store it
  leaves.  The specification reads rights off the history alone: the users it created, the
  state of each request, the last word on a table and on a column.  The store implements it.
\<close>

section \<open>Histories\<close>

datatype call =
    CreateUser string int string string string
  | RequestAccess string int string string "string option"
  | ApproveAccess string string int
  | DenyAccess string string int
  | GrantTable string string bool bool
  | GrantColumn string string string bool bool
  | RevokeTable string string
  | RevokeColumn string string string
  | UpdateLastLogin string int

fun perform :: "call \<Rightarrow> grantStore \<Rightarrow> grantStore" where
  "perform (CreateUser uid now name hash role) s = snd (createUser uid now name hash role s)"
| "perform (RequestAccess rid now u t c) s = snd (requestAccess rid now u t c s)"
| "perform (ApproveAccess rid admin now) s = snd (approveAccess rid admin now s)"
| "perform (DenyAccess rid admin now) s = snd (denyAccess rid admin now s)"
| "perform (GrantTable u t r w) s = snd (grantTableAccess u t r w s)"
| "perform (GrantColumn u t c r w) s = snd (grantColumnAccess u t c r w s)"
| "perform (RevokeTable u t) s = snd (revokeTableAccess u t s)"
| "perform (RevokeColumn u t c) s = snd (revokeColumnAccess u t c s)"
| "perform (UpdateLastLogin u now) s = snd (updateLastLogin u now s)"

inductive reaches :: "call list \<Rightarrow> grantStore \<Rightarrow> bool" where
  start: "reaches [] empty_store"
| call: "reaches h s \<Longrightarrow> reaches (c # h) (perform c s)"

inductive_cases reaches_Nil: "reaches [] s"
inductive_cases reaches_Cons: "reaches (c # h) s"

section \<open>What a history says\<close>

fun accounts :: "call list \<Rightarrow> (string \<times> string) list" where
  "accounts [] = []"
| "accounts (CreateUser uid now name hash role # h) =
     (if \<exists>a \<in> set (accounts h). fst a = uid \<or> snd a = name then accounts h else accounts h @ [(uid, name)])"
| "accounts (c # h) = accounts h"

definition known :: "call list \<Rightarrow> string \<Rightarrow> bool" where
  "known h u \<longleftrightarrow> u \<in> fst ` set (accounts h)"

text \<open>The user, table and column a request is for, and its status.\<close>

type_synonym request_view = "(string \<times> string \<times> string option) \<times> requestStatus"

fun request_state :: "call list \<Rightarrow> string \<Rightarrow> request_view option" where
  "request_state [] rid = None"
| "request_state (RequestAccess r now u t c # h) rid =
     (if r = rid \<and> request_state h r = None \<and> known h u
      then Some ((u, t, if c = Some [] then None else c), RqPending) else request_state h rid)"
| "request_state (ApproveAccess r admin now # h) rid = (case request_state h rid of
       Some (x, RqPending) \<Rightarrow> Some (x, if r = rid then RqApproved else RqPending) | v \<Rightarrow> v)"
| "request_state (DenyAccess r admin now # h) rid = (case request_state h rid of
       Some (x, RqPending) \<Rightarrow> Some (x, if r = rid then RqDenied else RqPending) | v \<Rightarrow> v)"
| "request_state (c # h) rid = request_state h rid"

text \<open>The last word on a table and on a column.\<close>

fun table_rights :: "call list \<Rightarrow> string \<Rightarrow> string \<Rightarrow> accessGrant option" where
  "table_rights [] u t = None"
| "table_rights (GrantTable u' t' r w # h) u t =
     (if u' = u \<and> t' = t \<and> known h u then Some \<lparr>canRead = r, canWrite = w\<rparr> else table_rights h u t)"
| "table_rights (RevokeTable u' t' # h) u t = (if u' = u \<and> t' = t then None else table_rights h u t)"
| "table_rights (ApproveAccess rid admin now # h) u t =
     (if request_state h rid = Some ((u, t, None), RqPending) then Some both_rights else table_rights h u t)"
| "table_rights (c # h) u t = table_rights h u t"

fun column_rights :: "call list \<Rightarrow> string \<Rightarrow> string \<Rightarrow> string \<Rightarrow> accessGrant option" where
  "column_rights [] u t c = None"
| "column_rights (GrantColumn u' t' c' r w # h) u t c =
     (if u' = u \<and> t' = t \<and> c' = c \<and> known h u then Some \<lparr>canRead = r, canWrite = w\<rparr>
      else column_rights h u t c)"
| "column_rights (RevokeColumn u' t' c' # h) u t c =
     (if u' = u \<and> t' = t \<and> c' = c then None else column_rights h u t c)"
| "column_rights (RevokeTable u' t' # h) u t c =
     (if u' = u \<and> t' = t then None else column_rights h u t c)"
| "column_rights (ApproveAccess rid admin now # h) u t c =
     (if request_state h rid = Some ((u, t, Some c), RqPending) then Some both_rights
      else column_rights h u t c)"
| "column_rights (x # h) u t c = column_rights h u t c"

definition granted :: "accessMode \<Rightarrow> accessGrant option \<Rightarrow> bool" where
  "granted m g = (case g of None \<Rightarrow> False | Some x \<Rightarrow> permits m x)"

definition not_withheld :: "accessMode \<Rightarrow> accessGrant option \<Rightarrow> bool" where
  "not_withheld m g = (case g of None \<Rightarrow> True | Some x \<Rightarrow> permits m x)"

section \<open>The store implements the history\<close>

definition view :: "accessRequest \<Rightarrow> request_view" where
  "view r = ((ar_userId r, ar_tableName r, ar_columnName r), ar_status r)"

definition find_request :: "grantStore \<Rightarrow> string \<Rightarrow> accessRequest option" where
  "find_request s rid = find (\<lambda>r. ar_id r = rid) (gs_requests s)"

definition agrees :: "call list \<Rightarrow> grantStore \<Rightarrow> bool" where
  "agrees h s \<longleftrightarrow>
     map (\<lambda>u. (us_id u, us_username u)) (gs_users s) = accounts h \<and>
     (\<forall>rid. request_state h rid = map_option view (find_request s rid)) \<and>
     distinct (map ar_id (gs_requests s)) \<and>
     (\<forall>u t. table_rights h u t = map_of (gs_tableGrants s) (u, t)) \<and>
     (\<forall>u t c. column_rights h u t c = map_of (gs_columnGrants s) (u, t, c)) \<and>
     (\<forall>r \<in> set (gs_requests s). known h (ar_userId r) \<and> ar_columnName r \<noteq> Some []) \<and>
     distinct (map fst (gs_tableGrants s)) \<and> distinct (map fst (gs_columnGrants s))"

named_theorems store_fields \<open>the fields of a store after an operation\<close>

lemma audited_fields [simp, store_fields]:
  "gs_users (audited actor act rid nm ds now s) = gs_users s"
  "gs_tableGrants (audited actor act rid nm ds now s) = gs_tableGrants s"
  "gs_columnGrants (audited actor act rid nm ds now s) = gs_columnGrants s"
  "gs_requests (audited actor act rid nm ds now s) = gs_requests s"
  by (simp_all add: audited_def split: option.split)

lemma review_fields [simp, store_fields]:
  "gs_users (review st rid now admin s) = gs_users s"
  "gs_tableGrants (review st rid now admin s) = gs_tableGrants s"
  "gs_columnGrants (review st rid now admin s) = gs_columnGrants s"
  "map ar_id (gs_requests (review st rid now admin s)) = map ar_id (gs_requests s)"
  by (simp_all add: review_def)

lemma getUserById_None: "getUserById s u = None \<longleftrightarrow> u \<notin> us_id ` set (gs_users s)"
  by (auto simp: getUserById_def find_None_iff)

lemma getUserById_fields: "gs_users s = gs_users s' \<Longrightarrow> getUserById s u = getUserById s' u"
  by (simp add: getUserById_def)

lemma known_iff:
  assumes "map (\<lambda>u. (us_id u, us_username u)) (gs_users s) = accounts h"
  shows "getUserById s u = None \<longleftrightarrow> \<not> known h u"
proof -
  have "fst ` set (accounts h) = us_id ` set (gs_users s)"
    unfolding assms [symmetric] by force
  then show ?thesis by (simp add: getUserById_None known_def)
qed

lemma agrees_known: "agrees h s \<Longrightarrow> getUserById s u = None \<longleftrightarrow> \<not> known h u"
  by (simp add: agrees_def known_iff)

lemma find_SomeD: "find P xs = Some x \<Longrightarrow> x \<in> set xs \<and> P x"
  by (induction xs) (auto split: if_splits)

lemma find_distinct:
  "distinct (map f xs) \<Longrightarrow> find (\<lambda>x. f x = k \<and> P x) xs
    = (case find (\<lambda>x. f x = k) xs of None \<Rightarrow> None | Some x \<Rightarrow> if P x then Some x else None)"
proof (induction xs)
  case (Cons x xs)
  have "find (\<lambda>y. f y = f x \<and> P y) xs = None"
    using Cons.prems by (simp add: find_None_iff image_iff) metis
  with Cons show ?case by (cases "f x = k") auto
qed simp

lemma pending_request_find:
  assumes "distinct (map ar_id (gs_requests s))"
  shows "pending_request s rid = (case find_request s rid of None \<Rightarrow> None
    | Some r \<Rightarrow> if ar_status r = RqPending then Some r else None)"
  using assms by (simp add: pending_request_def find_request_def find_distinct)

lemma agrees_pending:
  assumes "agrees h s"
  shows "pending_request s rid = Some r \<Longrightarrow> find_request s rid = Some r \<and> ar_status r = RqPending
      \<and> request_state h rid = Some ((ar_userId r, ar_tableName r, ar_columnName r), RqPending)
      \<and> r \<in> set (gs_requests s)"
    and "pending_request s rid = None \<Longrightarrow> request_state h rid \<noteq> Some (x, RqPending)"
proof -
  have d: "distinct (map ar_id (gs_requests s))"
    and st: "request_state h rid = map_option view (find_request s rid)"
    using assms by (simp_all add: agrees_def)
  { assume "pending_request s rid = Some r"
    then show "find_request s rid = Some r \<and> ar_status r = RqPending
      \<and> request_state h rid = Some ((ar_userId r, ar_tableName r, ar_columnName r), RqPending)
      \<and> r \<in> set (gs_requests s)"
      using pending_request_find [OF d, of rid] st find_SomeD [of _ "gs_requests s" r]
      by (auto simp: view_def find_request_def split: option.splits if_splits) }
  { assume "pending_request s rid = None"
    then show "request_state h rid \<noteq> Some (x, RqPending)"
      using pending_request_find [OF d, of rid] st
      by (auto simp: view_def split: option.splits if_splits) }
qed

lemma find_map_id:
  assumes "\<And>x. f (g x) = f x"
  shows "find (\<lambda>x. f x = k) (map g xs) = map_option g (find (\<lambda>x. f x = k) xs)"
  using assms by (induction xs) auto

lemma find_request_review:
  "find_request (review st r now admin s) rid = map_option (\<lambda>x. if ar_id x = r
     then x\<lparr>ar_status := st, ar_reviewedAt := Some now, ar_reviewedBy := Some admin\<rparr> else x) (find_request s rid)"
  unfolding find_request_def review_def by (simp add: find_map_id)

lemma find_request_id: "find_request s rid = Some r \<Longrightarrow> ar_id r = rid"
  by (auto simp: find_request_def dest: find_SomeD)

lemma view_review:
  assumes "distinct (map ar_id (gs_requests s))" and "pending_request s r = Some q"
  shows "map_option view (find_request (review st r now admin s) rid)
    = (case map_option view (find_request s rid) of
        Some (x, RqPending) \<Rightarrow> Some (x, if r = rid then st else RqPending) | v \<Rightarrow> v)"
  using assms find_request_id [of s rid]
  by (auto simp: find_request_review pending_request_find view_def split: option.splits
      requestStatus.splits if_splits)

lemma review_user_column:
  "\<forall>x \<in> set (gs_requests s). Q (ar_userId x) (ar_columnName x) \<Longrightarrow>
    \<forall>x \<in> set (gs_requests (review st r now admin s)). Q (ar_userId x) (ar_columnName x)"
  by (auto simp: review_def)

section \<open>Each call preserves the agreement\<close>

lemma agrees_createUser: "agrees h s \<Longrightarrow> agrees (CreateUser uid now name hash role # h)
    (snd (createUser uid now name hash role s))"
proof -
  assume a: "agrees h s"
  have ex: "(\<exists>u \<in> set (gs_users s). us_id u = uid \<or> us_username u = name)
      \<longleftrightarrow> (\<exists>x \<in> set (accounts h). fst x = uid \<or> snd x = name)"
  proof -
    have "accounts h = map (\<lambda>u. (us_id u, us_username u)) (gs_users s)"
      using a by (simp add: agrees_def)
    then show ?thesis by auto
  qed
  have mono: "known h u \<Longrightarrow> known (CreateUser uid now name hash role # h) u" for u
    by (auto simp: known_def)
  from a mono show ?thesis
    by (cases "\<exists>u \<in> set (gs_users s). us_id u = uid \<or> us_username u = name")
      (auto simp: createUser_def agrees_def ex find_request_def)
qed

lemma agrees_requestAccess: "agrees h s \<Longrightarrow> agrees (RequestAccess rid now u t c # h)
    (snd (requestAccess rid now u t c s))"
proof -
  assume a: "agrees h s"
  have old: "(\<exists>r \<in> set (gs_requests s). ar_id r = rid) \<longleftrightarrow> request_state h rid \<noteq> None"
    using a by (auto simp: agrees_def find_request_def find_None_iff)
  note kn = agrees_known [OF a, of u]
  have same: "known (RequestAccess rid now u t c # h) x = known h x" for x by (simp add: known_def)
  show ?thesis
  proof (cases "request_state h rid = None \<and> known h u")
    case True
    then have "find (\<lambda>r. ar_id r = rid) (gs_requests s) = None"
      using old by (auto simp: find_None_iff)
    moreover have "find P (xs @ [x]) = (case find P xs of None \<Rightarrow> if P x then Some x else None | v \<Rightarrow> v)"
      for P :: "accessRequest \<Rightarrow> bool" and xs x
      by (induction xs) auto
    ultimately show ?thesis
      using True a old kn
      by (auto simp: requestAccess_def agrees_def find_request_def view_def same split: option.splits)
  next
    case False
    then show ?thesis
      using a old kn by (auto simp: requestAccess_def agrees_def same)
  qed
qed

lemma known_simps [simp]:
  "known (ApproveAccess rid admin now # h) = known h"
  "known (DenyAccess rid admin now # h) = known h"
  "known (GrantTable u t r w # h) = known h"
  "known (GrantColumn u t c r w # h) = known h"
  "known (RevokeTable u t # h) = known h"
  "known (RevokeColumn u t c # h) = known h"
  "known (UpdateLastLogin u now # h) = known h"
  "known (RequestAccess rid now u t oc # h) = known h"
  by (simp_all add: known_def fun_eq_iff)

lemma review_nothing:
  assumes "\<And>x. request_state h r \<noteq> Some (x, RqPending)"
  shows "(case request_state h rid of Some (x, RqPending) \<Rightarrow> Some (x, if r = rid then st else RqPending) | v \<Rightarrow> v)
    = request_state h rid"
  using assms by (auto split: option.splits requestStatus.splits)

lemma agrees_denyAccess: "agrees h s \<Longrightarrow> agrees (DenyAccess rid admin now # h)
    (snd (denyAccess rid admin now s))"
proof (cases "pending_request s rid")
  case None
  assume "agrees h s"
  note none = agrees_pending(2) [OF this None]
  have "request_state (DenyAccess rid admin now # h) r = request_state h r" for r
    using review_nothing [OF none] by simp
  with \<open>agrees h s\<close> None show ?thesis
    by (simp add: denyAccess_def agrees_def del: request_state.simps)
next
  case (Some r)
  assume a: "agrees h s"
  then have d: "distinct (map ar_id (gs_requests s))" by (simp add: agrees_def)
  have "\<forall>x \<in> set (gs_requests (review RqDenied rid now admin s)). known h (ar_userId x) \<and> ar_columnName x \<noteq> Some []"
    by (rule review_user_column [where Q = "\<lambda>u c. known h u \<and> c \<noteq> Some []"])
      (use a in \<open>simp add: agrees_def\<close>)
  with a Some view_review [OF d Some] show ?thesis
    by (simp add: denyAccess_def agrees_def find_request_def)
qed

lemma agrees_approveAccess: "agrees h s \<Longrightarrow> agrees (ApproveAccess rid admin now # h)
    (snd (approveAccess rid admin now s))"
proof (cases "pending_request s rid")
  case None
  assume a: "agrees h s"
  note none = agrees_pending(2) [OF a None]
  have "request_state (ApproveAccess rid admin now # h) r = request_state h r"
    "table_rights (ApproveAccess rid admin now # h) u t = table_rights h u t"
    "column_rights (ApproveAccess rid admin now # h) u t c = column_rights h u t c" for r u t c
    using review_nothing [OF none] none by simp_all
  with a None show ?thesis
    by (simp add: approveAccess_def agrees_def
        del: request_state.simps table_rights.simps column_rights.simps)
next
  case (Some r)
  assume a: "agrees h s"
  then have d: "distinct (map ar_id (gs_requests s))" by (simp add: agrees_def)
  note p = agrees_pending(1) [OF a Some]
  let ?s = "review RqApproved rid now admin s"
  have col: "ar_columnName r \<noteq> Some []" and kn: "getUserById ?s (ar_userId r) \<noteq> None"
    using a p getUserById_fields [of ?s s "ar_userId r"] agrees_known [OF a] by (auto simp: agrees_def)
  have "\<forall>x \<in> set (gs_requests ?s). known h (ar_userId x) \<and> ar_columnName x \<noteq> Some []"
    by (rule review_user_column [where Q = "\<lambda>u c. known h u \<and> c \<noteq> Some []"])
      (use a in \<open>simp add: agrees_def\<close>)
  with a Some p kn col view_review [OF d Some, of RqApproved now admin] show ?thesis
    by (cases "ar_columnName r")
      (auto simp: approveAccess_def agrees_def put_table_grant_def put_column_grant_def find_request_def)
qed

lemma agrees_grants:
  assumes "agrees h s"
  shows "agrees (GrantTable u t r w # h) (snd (grantTableAccess u t r w s))"
    and "agrees (GrantColumn u t c r w # h) (snd (grantColumnAccess u t c r w s))"
    and "agrees (RevokeColumn u t c # h) (snd (revokeColumnAccess u t c s))"
    and "agrees (UpdateLastLogin u now # h) (snd (updateLastLogin u now s))"
  using assms agrees_known [OF assms, of u]
  by (auto simp: agrees_def grantTableAccess_def grantColumnAccess_def put_table_grant_def
      put_column_grant_def revokeColumnAccess_def updateLastLogin_def find_request_def o_def if_distrib
      cong: if_cong)

lemma distinct_fst_filter: "distinct (map fst m) \<Longrightarrow> distinct (map fst (filter P m))"
  by (simp add: distinct_map_filter)

lemma agrees_revokeTable:
  "agrees h s \<Longrightarrow> agrees (RevokeTable u t # h) (snd (revokeTableAccess u t s))"
proof -
  have "map_of (filter (\<lambda>g. \<not> (fst (fst g) = u \<and> fst (snd (fst g)) = t)) m) (u', t', c)
      = (if u = u' \<and> t = t' then None else map_of m (u', t', c))"
    for m :: "((string \<times> string \<times> string) \<times> accessGrant) list" and u' t' c
    by (induction m) auto
  then show "agrees h s \<Longrightarrow> ?thesis"
    by (auto simp: agrees_def revokeTableAccess_def find_request_def distinct_fst_filter)
qed

theorem reaches_agrees: "reaches h s \<Longrightarrow> agrees h s"
proof (induction rule: reaches.induct)
  case start
  show ?case by (simp add: agrees_def empty_store_def find_request_def)
next
  case (call h s c)
  then show ?case
    by (cases c) (simp_all add: agrees_createUser agrees_requestAccess agrees_approveAccess
        agrees_denyAccess agrees_grants agrees_revokeTable)
qed

section \<open>What every history guarantees\<close>

lemma pending_listed:
  assumes "agrees h s"
  shows "(\<exists>r \<in> set (listPendingRequests s). ar_id r = rid) \<longleftrightarrow> (\<exists>x. request_state h rid = Some (x, RqPending))"
proof -
  have "(\<exists>r \<in> set (listPendingRequests s). ar_id r = rid) \<longleftrightarrow> pending_request s rid \<noteq> None"
    by (auto simp: listPendingRequests_def pending_request_def find_None_iff)
  then show ?thesis using agrees_pending [OF assms, of rid] by (cases "pending_request s rid") auto
qed

lemmas rights_simps = checkTableAccess_def checkColumnAccess_def granted_def not_withheld_def

text \<open>C23: In every store a history of calls leaves, a user may read or write a table exactly when
  the last word of the history on it, a grant, an approved request or a revocation, says so; a
  column also needs that the last word on it, if any, does not withhold it; and the list of
  pending requests holds exactly the requests made by known users and not yet reviewed.\<close>

theorem store_implements_history:
  assumes "reaches h s"
  shows "(checkTableAccess s u t m \<longleftrightarrow> granted m (table_rights h u t)) \<and>
    (checkColumnAccess s u t c m \<longleftrightarrow> granted m (table_rights h u t) \<and> not_withheld m (column_rights h u t c)) \<and>
    ((\<exists>r \<in> set (listPendingRequests s). ar_id r = rid) \<longleftrightarrow> (\<exists>x. request_state h rid = Some (x, RqPending)))"
proof -
  note a = reaches_agrees [OF assms]
  then have "table_rights h u t = map_of (gs_tableGrants s) (u, t)"
    and "column_rights h u t c = map_of (gs_columnGrants s) (u, t, c)" by (simp_all add: agrees_def)
  with pending_listed [OF a] show ?thesis by (simp add: rights_simps)
qed

text \<open>A call that takes a right away, and one that gives it.\<close>

definition withdraws :: "accessMode \<Rightarrow> string \<Rightarrow> string \<Rightarrow> call \<Rightarrow> bool" where
  "withdraws m u t c = (case c of
     RevokeTable u' t' \<Rightarrow> u' = u \<and> t' = t
   | GrantTable u' t' r w \<Rightarrow> u' = u \<and> t' = t \<and> \<not> (case m of Read \<Rightarrow> r | Write \<Rightarrow> w)
   | _ \<Rightarrow> False)"

definition gives :: "accessMode \<Rightarrow> call list \<Rightarrow> string \<Rightarrow> string \<Rightarrow> call \<Rightarrow> bool" where
  "gives m before u t c = (case c of
     GrantTable u' t' r w \<Rightarrow> u' = u \<and> t' = t \<and> known before u \<and> (case m of Read \<Rightarrow> r | Write \<Rightarrow> w)
   | ApproveAccess rid admin now \<Rightarrow> request_state before rid = Some ((u, t, None), RqPending)
   | _ \<Rightarrow> False)"

lemma known_CreateUser: "known h u \<Longrightarrow> known (CreateUser uid now name hash role # h) u"
  by (auto simp: known_def)

lemma known_Cons: "known h u \<Longrightarrow> known (c # h) u"
  by (cases c) (simp_all add: known_CreateUser)

lemma request_known: "request_state h rid = Some ((u, t, c), st) \<Longrightarrow> known h u"
proof (induction h arbitrary: st)
  case (Cons x h)
  show ?case
  proof (cases "\<exists>st'. request_state h rid = Some ((u, t, c), st')")
    case True
    with Cons.IH known_Cons show ?thesis by blast
  next
    case False
    with Cons.prems show ?thesis
      by (cases x) (auto split: if_splits option.splits requestStatus.splits prod.splits)
  qed
qed simp

lemma rights_known: "table_rights h u t \<noteq> None \<Longrightarrow> known h u"
proof (induction h)
  case (Cons x h)
  then show ?case
    by (cases x) (auto split: if_splits intro: known_CreateUser dest: request_known)
qed simp

lemma rights_origin:
  "granted m (table_rights h u t) \<Longrightarrow>
    \<exists>later c before. h = later @ c # before \<and> gives m before u t c \<and> (\<forall>c' \<in> set later. \<not> withdraws m u t c')"
proof (induction h)
  case (Cons c h)
  show ?case
  proof (cases "gives m h u t c")
    case True
    then show ?thesis by (intro exI [of _ "[]"] exI [of _ c] exI [of _ h]) simp
  next
    case False
    have kn: "granted m (table_rights h u t) \<Longrightarrow> known h u"
      by (rule rights_known [of _ _ t]) (auto simp: granted_def split: option.splits)
    from False Cons.prems have rest: "granted m (table_rights h u t)"
      by (cases c; cases m; auto simp: gives_def granted_def permits_def both_rights_def split: if_splits)+
    moreover from False Cons.prems kn [OF rest] have "\<not> withdraws m u t c"
      by (cases c; cases m; auto simp: gives_def withdraws_def granted_def permits_def split: if_splits)+
    ultimately show ?thesis using Cons.IH by (metis append_Cons set_ConsD)
  qed
qed (simp add: granted_def)

lemma pending_was_requested:
  "request_state h rid = Some ((u, t, c), RqPending) \<Longrightarrow>
    \<exists>later now c' before. h = later @ RequestAccess rid now u t c' # before \<and> known before u
      \<and> c = (if c' = Some [] then None else c')"
proof (induction h)
  case (Cons x h)
  show ?case
  proof (cases "request_state h rid = Some ((u, t, c), RqPending)")
    case True
    with Cons.IH show ?thesis by (metis append_Cons)
  next
    case False
    with Cons.prems obtain now c' where "x = RequestAccess rid now u t c'" "known h u"
      "c = (if c' = Some [] then None else c')"
      by (cases x) (auto split: if_splits option.splits requestStatus.splits prod.splits)
    then show ?thesis by (intro exI [of _ "[]"]) auto
  qed
qed simp

text \<open>A small organisation: an administrator and two users, one of them granted a table directly,
  the other by an approved request.\<close>

definition office :: "call list" where
  "office = rev [CreateUser ''u0'' 1 ''root'' ''h0'' ''admin'', CreateUser ''u1'' 2 ''ann'' ''h1'' ''user'',
     CreateUser ''u2'' 3 ''bob'' ''h2'' ''user'',
     GrantTable ''u1'' ''orders'' True False, RequestAccess ''r1'' 5 ''u2'' ''orders'' None,
     ApproveAccess ''r1'' ''u0'' 6, RequestAccess ''r2'' 7 ''u1'' ''staff'' None]"

definition office_store :: grantStore where
  "office_store = fold perform (rev office) empty_store"

lemma reaches_fold: "reaches h s \<Longrightarrow> reaches (rev cs @ h) (fold perform cs s)"
proof (induction cs arbitrary: h s)
  case (Cons c cs)
  from Cons.IH [OF reaches.call [OF Cons.prems, of c]] show ?case by simp
qed simp

lemma office_reached: "reaches office office_store"
  using reaches_fold [OF reaches.start, of "rev office"] by (simp add: office_store_def)

theorem store_implements_history_witness:
  "checkTableAccess office_store ''u2'' ''orders'' Write \<and> \<not> checkTableAccess office_store ''u1'' ''orders'' Write"
  using store_implements_history [OF office_reached, of "''u2''" "''orders''" Write]
    store_implements_history [OF office_reached, of "''u1''" "''orders''" Write]
  by (simp add: office_def known_def granted_def permits_def both_rights_def)

text \<open>C24: Whoever may read or write a table was given that right: the history holds a grant of it, or
  the approval of a pending request that a known user had made for this table, and neither a
  revocation nor a grant without the right came after.\<close>

theorem access_was_granted:
  assumes "reaches h s" and "checkTableAccess s u t m"
  shows "\<exists>later c before. h = later @ c # before \<and> (\<forall>c' \<in> set later. \<not> withdraws m u t c') \<and>
    ((\<exists>r w. c = GrantTable u t r w \<and> known before u \<and> (if m = Read then r else w)) \<or>
     (\<exists>rid admin now since now' c' earlier. c = ApproveAccess rid admin now \<and> known earlier u \<and>
        before = since @ RequestAccess rid now' u t c' # earlier \<and> (c' = None \<or> c' = Some [])))"
proof -
  have "granted m (table_rights h u t)"
    using assms reaches_agrees [OF assms(1)] by (simp add: agrees_def rights_simps)
  from rights_origin [OF this] obtain later c before where h: "h = later @ c # before"
    and g: "gives m before u t c" and l: "\<forall>c' \<in> set later. \<not> withdraws m u t c'" by auto
  from g consider r w where "c = GrantTable u t r w" "known before u" "if m = Read then r else w"
    | rid admin now where "c = ApproveAccess rid admin now"
        "request_state before rid = Some ((u, t, None), RqPending)"
    by (cases c; cases m) (auto simp: gives_def)
  then show ?thesis
  proof cases
    case 1
    with h l show ?thesis by metis
  next
    case 2
    from pending_was_requested [OF 2(2)] obtain since now' c' earlier where r:
      "before = since @ RequestAccess rid now' u t c' # earlier" "known earlier u"
      and "None = (if c' = Some [] then None else c')" by blast
    from this(3) have "c' = None \<or> c' = Some []" by (cases c') (auto split: if_splits)
    with h l 2(1) r show ?thesis by metis
  qed
qed

theorem access_was_granted_witness: "GrantTable ''u1'' ''orders'' True False \<in> set office"
proof -
  have "checkTableAccess office_store ''u1'' ''orders'' Read"
    by (simp add: office_store_def office_def) code_simp
  from access_was_granted [OF office_reached this] show ?thesis
    by (auto simp: office_def append_eq_Cons_conv Cons_eq_append_conv)
qed

section \<open>Reviews\<close>

lemma pending_after_review:
  assumes "agrees h s"
  shows "pending_request (review st rid now admin s) rid = None \<or> st = RqPending"
proof -
  have "distinct (map ar_id (gs_requests (review st rid now admin s)))"
    using assms by (simp add: agrees_def)
  from pending_request_find [OF this, of rid] show ?thesis
    by (auto simp: find_request_review find_request_id split: option.splits)
qed

lemma pending_request_cong: "gs_requests s = gs_requests s' \<Longrightarrow> pending_request s rid = pending_request s' rid"
  by (simp add: pending_request_def)

lemma approve_result:
  assumes "agrees h s" and "pending_request s rid = Some r"
  shows "\<exists>s'. approveAccess rid admin now s = (Inr (), s') \<and>
    gs_requests s' = gs_requests (review RqApproved rid now admin s) \<and>
    gs_tableGrants s' = (case ar_columnName r of
        None \<Rightarrow> al_set (ar_userId r, ar_tableName r) both_rights (gs_tableGrants s)
      | Some c \<Rightarrow> gs_tableGrants s) \<and>
    gs_columnGrants s' = (case ar_columnName r of
        None \<Rightarrow> gs_columnGrants s
      | Some c \<Rightarrow> al_set (ar_userId r, ar_tableName r, c) both_rights (gs_columnGrants s))"
proof -
  have r: "r \<in> set (gs_requests s)" using agrees_pending(1) [OF assms] by simp
  let ?s = "review RqApproved rid now admin s"
  have "getUserById ?s (ar_userId r) \<noteq> None" "ar_columnName r \<noteq> Some []"
    using r assms(1) getUserById_fields [of ?s s "ar_userId r"] agrees_known [OF assms(1)]
    by (auto simp: agrees_def)
  then show ?thesis using assms(2)
    by (cases "ar_columnName r") (auto simp: approveAccess_def put_table_grant_def put_column_grant_def)
qed

text \<open>A review decides a request once.  In a store left by a history, approving a pending request
  succeeds and gives the user who made it both rights on the table, or on the column, it names and
  changes no other right; denying it changes no right at all; and after either, approving or denying
  the same request again throws and changes nothing.\<close>

theorem review_decides_once:
  assumes "reaches h s" and "pending_request s rid = Some r"
  shows "\<exists>s' s''. approveAccess rid admin now s = (Inr (), s') \<and> denyAccess rid admin now s = (Inr (), s'') \<and>
    (\<forall>u t m. checkTableAccess s' u t m \<longleftrightarrow> checkTableAccess s u t m \<or>
      (u, t, None) = (ar_userId r, ar_tableName r, ar_columnName r)) \<and>
    (\<forall>u t c m. checkTableAccess s u t m \<longrightarrow> (checkColumnAccess s' u t c m \<longleftrightarrow> checkColumnAccess s u t c m \<or>
      (u, t, Some c) = (ar_userId r, ar_tableName r, ar_columnName r))) \<and>
    (\<forall>u t m. checkTableAccess s'' u t m = checkTableAccess s u t m) \<and>
    (\<forall>u t c m. checkColumnAccess s'' u t c m = checkColumnAccess s u t c m) \<and>
    (\<forall>x \<in> {s', s''}. approveAccess rid admin now x = (Inl not_pending, x) \<and>
      denyAccess rid admin now x = (Inl not_pending, x))"
proof -
  note a = reaches_agrees [OF assms(1)]
  from approve_result [OF a assms(2), of admin now] obtain s' where
    app: "approveAccess rid admin now s = (Inr (), s')"
    and rq: "gs_requests s' = gs_requests (review RqApproved rid now admin s)"
    and tg: "gs_tableGrants s' = (case ar_columnName r of
        None \<Rightarrow> al_set (ar_userId r, ar_tableName r) both_rights (gs_tableGrants s)
      | Some c \<Rightarrow> gs_tableGrants s)"
    and cg: "gs_columnGrants s' = (case ar_columnName r of
        None \<Rightarrow> gs_columnGrants s
      | Some c \<Rightarrow> al_set (ar_userId r, ar_tableName r, c) both_rights (gs_columnGrants s))"
    by auto
  obtain s'' where den: "denyAccess rid admin now s = (Inr (), s'')"
    and rq': "gs_requests s'' = gs_requests (review RqDenied rid now admin s)"
    and same: "gs_tableGrants s'' = gs_tableGrants s" "gs_columnGrants s'' = gs_columnGrants s"
    using assms(2) by (simp add: denyAccess_def)
  have over: "pending_request x rid = None" if "x \<in> {s', s''}" for x
    using that pending_after_review [OF a, of RqApproved rid now admin]
      pending_after_review [OF a, of RqDenied rid now admin]
      pending_request_cong [OF rq, of rid] pending_request_cong [OF rq', of rid] by auto
  have t: "checkTableAccess s' u t m \<longleftrightarrow> checkTableAccess s u t m \<or>
      (u, t, None) = (ar_userId r, ar_tableName r, ar_columnName r)" for u t m
    using tg by (cases "ar_columnName r") (auto simp: checkTableAccess_def both_rights_def permits_def
        split: accessMode.splits)
  have c: "checkColumnAccess s' u t c m \<longleftrightarrow> checkColumnAccess s u t c m \<or>
      (u, t, Some c) = (ar_userId r, ar_tableName r, ar_columnName r)"
    if "checkTableAccess s u t m" for u t c m
    using that t cg by (cases "ar_columnName r") (auto simp: checkColumnAccess_def both_rights_def permits_def
        split: accessMode.splits)
  have d: "checkTableAccess s'' u t m = checkTableAccess s u t m"
    "checkColumnAccess s'' u t c m = checkColumnAccess s u t c m" for u t c m
    using same by (simp_all add: rights_simps)
  have "approveAccess rid admin now x = (Inl not_pending, x) \<and> denyAccess rid admin now x = (Inl not_pending, x)"
    if "x \<in> {s', s''}" for x
    using over [OF that] by (simp add: approveAccess_def denyAccess_def)
  with app den t c d show ?thesis by blast
qed

theorem review_decides_once_witness:
  "\<exists>s'. approveAccess ''r2'' ''u0'' 9 office_store = (Inr (), s') \<and> checkTableAccess s' ''u1'' ''staff'' Read"
proof -
  have "map_option view (pending_request office_store ''r2'') = Some ((''u1'', ''staff'', None), RqPending)"
    unfolding office_store_def office_def by code_simp
  then obtain r where "pending_request office_store ''r2'' = Some r" "ar_userId r = ''u1''"
    "ar_tableName r = ''staff''" "ar_columnName r = None" by (auto simp: view_def)
  with review_decides_once [OF office_reached this(1), of "''u0''" 9] show ?thesis by auto
qed

end
