(* ===== verification/GrantedSchema.thy ===== *)
theory GrantedSchema
  imports GrantHistory
begin

text \<open>
  The schema a user gets to see, \<open>getGrantedSchema\<close> of \<open>src/src/auth/grant-store.ts\<close>, against
  the check of single columns, \<open>checkColumnAccess\<close>.  The first treats readable column grants
  as a list of all that may be seen, the second treats unreadable ones as a list of what may
  not; they agree on a table only while its column grants are all readable and cover it, or
  there are none.
\<close>

lemma lookup_in_filter:
  assumes "distinct (map fst m)"
  shows "(\<exists>g. (k, g) \<in> set m \<and> P g) \<longleftrightarrow> (case map_of m k of None \<Rightarrow> False | Some g \<Rightarrow> P g)"
proof -
  have "\<forall>g. map_of m k = Some g \<longleftrightarrow> (k, g) \<in> set m" using map_of_eq_Some_iff [OF assms] by blast
  then show ?thesis by (cases "map_of m k") (simp_all, metis)
qed

lemma permits_simps: "permits Read = canRead" "permits Write = canWrite"
  by (simp_all add: permits_def fun_eq_iff)

lemma readable_tables_iff:
  assumes "distinct (map fst (gs_tableGrants s))"
  shows "t \<in> set (readable_tables s u) \<longleftrightarrow> checkTableAccess s u t Read"
  using lookup_in_filter [OF assms, of "(u, t)" "permits Read"]
  by (auto simp: readable_tables_def checkTableAccess_def permits_simps image_iff Bex_def split_paired_Ex)

lemma readable_columns_iff:
  assumes "distinct (map fst (gs_columnGrants s))"
  shows "c \<in> set (readable_columns s u t) \<longleftrightarrow> granted Read (map_of (gs_columnGrants s) (u, t, c))"
  using lookup_in_filter [OF assms, of "(u, t, c)" "permits Read"]
  by (auto simp: readable_columns_def granted_def permits_simps image_iff Bex_def split_paired_Ex)

definition readable_grant :: "call list \<Rightarrow> string \<Rightarrow> string \<Rightarrow> string \<Rightarrow> bool" where
  "readable_grant h u t c \<longleftrightarrow> granted Read (column_rights h u t c)"

text \<open>The tables and columns a schema lists.\<close>

definition lists_column :: "schemaConfig \<Rightarrow> string \<Rightarrow> columnConfig \<Rightarrow> bool" where
  "lists_column s t col \<longleftrightarrow> (\<exists>tc. (t, tc) \<in> set (sc_tables s) \<and> col \<in> set (tc_columns tc))"

lemma agrees_columns: "agrees h s \<Longrightarrow> c \<in> set (readable_columns s u t) \<longleftrightarrow> readable_grant h u t c"
  by (simp add: agrees_def readable_columns_iff readable_grant_def)

lemma agrees_tables: "agrees h s \<Longrightarrow> t \<in> set (readable_tables s u) \<longleftrightarrow> granted Read (table_rights h u t)"
  by (simp add: agrees_def readable_tables_iff checkTableAccess_def granted_def)

lemma granted_tables_iff:
  "(t, tc') \<in> set (granted_tables s u full) \<longleftrightarrow> (\<exists>tc. (t, tc) \<in> set (sc_tables full)
    \<and> t \<in> set (readable_tables s u) \<and> tc' = tc\<lparr>tc_columns := granted_columns s u t (tc_columns tc)\<rparr>)"
  by (auto simp: granted_tables_def)

lemma granted_columns_iff:
  assumes "agrees h s"
  shows "col \<in> set (granted_columns s u t cols) \<longleftrightarrow>
    col \<in> set cols \<and> ((\<exists>c. readable_grant h u t c) \<longrightarrow> readable_grant h u t (cc_name col))"
proof -
  note c = agrees_columns [OF assms, of _ u t]
  have "readable_columns s u t = [] \<longleftrightarrow> (\<forall>c. \<not> readable_grant h u t c)"
    using c by (metis all_not_in_conv empty_set list.set_intros(1) neq_Nil_conv)
  then show ?thesis using c by (auto simp: granted_columns_def Let_def)
qed

text \<open>The schema a user sees lists a table exactly when the user may read it, keeps a foreign key
  exactly when both its tables are listed, and lists a column of such a table exactly when no column of it was
  granted for reading, or this one was.  Whenever a column grant exists, each listed column may be read.\<close>

theorem granted_schema_exact:
  assumes "reaches h s"
  shows "(\<forall>t. tableExists (getGrantedSchema s u full) t \<longleftrightarrow> tableExists full t \<and> checkTableAccess s u t Read) \<and>
    (\<forall>fk. fk \<in> set (sc_foreignKeys (getGrantedSchema s u full)) \<longleftrightarrow> fk \<in> set (sc_foreignKeys full) \<and>
       tableExists (getGrantedSchema s u full) (fk_fromTable fk) \<and> tableExists (getGrantedSchema s u full) (fk_toTable fk)) \<and>
    (\<forall>t col. lists_column (getGrantedSchema s u full) t col \<longleftrightarrow> lists_column full t col \<and>
       checkTableAccess s u t Read \<and> ((\<exists>c. readable_grant h u t c) \<longrightarrow> readable_grant h u t (cc_name col))) \<and>
    (\<forall>t col c. lists_column (getGrantedSchema s u full) t col \<and> readable_grant h u t c \<longrightarrow>
       checkColumnAccess s u t (cc_name col) Read)"
proof -
  note a = reaches_agrees [OF assms]
  then have "distinct (map fst (gs_tableGrants s))" by (simp add: agrees_def)
  note rt = readable_tables_iff [OF this]
  have keys: "al_has t (granted_tables s u full) \<longleftrightarrow> al_has t (sc_tables full) \<and> t \<in> set (readable_tables s u)" for t
    by (force simp: al_has_def granted_tables_def)
  have cols: "lists_column (getGrantedSchema s u full) t col \<longleftrightarrow> lists_column full t col \<and>
      checkTableAccess s u t Read \<and> ((\<exists>c. readable_grant h u t c) \<longrightarrow> readable_grant h u t (cc_name col))" for t col
    using granted_columns_iff [OF a, of col u t]
    by (auto simp: lists_column_def getGrantedSchema_def Let_def granted_tables_iff rt)
  have ok: "checkColumnAccess s u t (cc_name col) Read"
    if "lists_column (getGrantedSchema s u full) t col" "readable_grant h u t c" for t col c
  proof -
    from that cols have "checkTableAccess s u t Read" "readable_grant h u t (cc_name col)" by blast+
    moreover have "column_rights h u t (cc_name col) = map_of (gs_columnGrants s) (u, t, cc_name col)"
      using a by (simp add: agrees_def)
    ultimately show ?thesis
      by (auto simp: checkColumnAccess_def readable_grant_def granted_def split: option.splits)
  qed
  show ?thesis
    using cols ok by (simp add: tableExists_def getGrantedSchema_def Let_def keys rt) blast
qed

text \<open>A table of pay: its columns, and the column names a user is shown and may read.\<close>

definition plain_column :: "string \<Rightarrow> columnConfig" where
  "plain_column n = \<lparr>cc_name = n, cc_type = TString, cc_nullable = True, cc_hasDefault = None,
     cc_isGenerated = None, cc_defaultValue = None, cc_primaryKey = None, cc_description = None, cc_examples = None\<rparr>"

definition plain_table :: "string \<Rightarrow> string list \<Rightarrow> string \<times> tableConfig" where
  "plain_table n cs = (n, \<lparr>tc_name = n, tc_alias = None, tc_description = None, tc_columns = map plain_column cs,
     tc_primaryKey = [], tc_datasource = None, tc_displayName = None\<rparr>)"

definition pay_schema :: schemaConfig where
  "pay_schema = \<lparr>sc_tables = [plain_table ''staff'' [''name'', ''salary'']], sc_foreignKeys = [],
     sc_version = ''1'', sc_description = None\<rparr>"

definition shown :: "grantStore \<Rightarrow> string \<Rightarrow> string list" where
  "shown s u = concat (map (\<lambda>p. map cc_name (tc_columns (snd p))) (sc_tables (getGrantedSchema s u pay_schema)))"

definition readable_now :: "grantStore \<Rightarrow> string \<Rightarrow> string list" where
  "readable_now s u = filter (\<lambda>c. checkColumnAccess s u ''staff'' c Read) [''name'', ''salary'']"

definition staff_store :: "call list \<Rightarrow> grantStore" where
  "staff_store cs = fold perform (CreateUser ''u1'' 1 ''ann'' ''h1'' ''user''
     # GrantTable ''u1'' ''staff'' True False # cs) empty_store"

theorem granted_schema_exact_witness:
  "lists_column (getGrantedSchema (staff_store []) ''u1'' pay_schema) ''staff'' (plain_column ''salary'')"
proof -
  have r: "reaches (rev (CreateUser ''u1'' 1 ''ann'' ''h1'' ''user'' # [GrantTable ''u1'' ''staff'' True False]))
      (staff_store [])"
    using reaches_fold [OF reaches.start, of "CreateUser ''u1'' 1 ''ann'' ''h1'' ''user''
        # [GrantTable ''u1'' ''staff'' True False]"] by (simp add: staff_store_def)
  have "lists_column pay_schema ''staff'' (plain_column ''salary'')"
    by (simp add: lists_column_def pay_schema_def plain_table_def)
  moreover have "checkTableAccess (staff_store []) ''u1'' ''staff'' Read"
    unfolding staff_store_def by code_simp
  moreover have "\<not> readable_grant (rev (CreateUser ''u1'' 1 ''ann'' ''h1'' ''user''
      # [GrantTable ''u1'' ''staff'' True False])) ''u1'' ''staff'' c" for c
    by (simp add: readable_grant_def granted_def)
  ultimately show ?thesis using granted_schema_exact [OF r, of "''u1''" pay_schema] by blast
qed

text \<open>The two rules for columns disagree.  A column withheld from a user who may read its table is
  still shown to that user; once one column is granted, the others disappear from the schema although
  they may be read; and approving a request for one more column takes all the others out of sight.\<close>

theorem column_rules_disagree:
  "(let s = staff_store [GrantColumn ''u1'' ''staff'' ''salary'' False False]
    in shown s ''u1'' = [''name'', ''salary''] \<and> readable_now s ''u1'' = [''name'']) \<and>
   (let s = staff_store [GrantColumn ''u1'' ''staff'' ''name'' True False]
    in shown s ''u1'' = [''name''] \<and> readable_now s ''u1'' = [''name'', ''salary'']) \<and>
   (let s = staff_store []; s' = staff_store [RequestAccess ''r1'' 2 ''u1'' ''staff'' (Some ''name''),
        ApproveAccess ''r1'' ''u0'' 3]
    in shown s ''u1'' = [''name'', ''salary''] \<and> shown s' ''u1'' = [''name''])"
  unfolding Let_def by (intro conjI; code_simp)

end
