(* ===== verification/Permissions.thy ===== *)
theory Permissions
  imports GrantedSchema Payloads Graphs
begin

text \<open>
  The permission checks of \<open>src/src/auth/permission-checker.ts\<close>: the scan of a request for names
  it mentions, the granted schema, the completeness of joins, the check of a compiled pipeline
  against the grants, and the required columns of a write.  A check reads the grant store of
  \<open>Grants\<close> and changes nothing.
\<close>

section \<open>Mentions in a request\<close>

text \<open>
  The pattern \<^verbatim>\<open>\bname\b\<close> with every special character of the name escaped: the name occurs
  with a word boundary on either side.
\<close>

definition is_word_char :: "char \<Rightarrow> bool" where
  "is_word_char c \<longleftrightarrow> (let n = (of_char c :: nat) in
     48 \<le> n \<and> n \<le> 57 \<or> 65 \<le> n \<and> n \<le> 90 \<or> 97 \<le> n \<and> n \<le> 122 \<or> n = 95)"

definition word_at :: "string \<Rightarrow> nat \<Rightarrow> bool" where
  "word_at s i \<longleftrightarrow> i < length s \<and> is_word_char (s ! i)"

definition boundary :: "string \<Rightarrow> nat \<Rightarrow> bool" where
  "boundary s i \<longleftrightarrow> (0 < i \<and> word_at s (i - 1)) \<noteq> word_at s i"

definition mentions :: "string \<Rightarrow> string \<Rightarrow> bool" where
  "mentions text name \<longleftrightarrow> list_ex (\<lambda>i. take (length name) (drop i text) = name
     \<and> boundary text i \<and> boundary text (i + length name)) [0..<Suc (length text)]"

definition common_words :: "string list" where
  "common_words = [''id'', ''name'', ''email'', ''created'', ''updated'', ''status'', ''type'']"

definition to_lower :: "string \<Rightarrow> string" where
  "to_lower s = map ascii_lower s"

record permissionCheck =
  pc_allowed :: bool
  pc_denied :: "string list"

definition denied_tables :: "grantStore \<Rightarrow> string \<Rightarrow> string \<Rightarrow> schemaConfig \<Rightarrow> string list" where
  "denied_tables s u text schema = map fst (filter (\<lambda>(t, tc). t \<noteq> [] \<and> mentions text (to_lower t)
     \<and> \<not> checkTableAccess s u t Read) (sc_tables schema))"

definition denied_columns :: "grantStore \<Rightarrow> string \<Rightarrow> string \<Rightarrow> schemaConfig \<Rightarrow> string list" where
  "denied_columns s u text schema = concat (map (\<lambda>(t, tc).
     map (\<lambda>c. t @ ''.'' @ cc_name c) (filter (\<lambda>c. cc_name c \<noteq> []
        \<and> to_lower (cc_name c) \<notin> set common_words \<and> mentions text (to_lower (cc_name c))
        \<and> \<not> checkColumnAccess s u t (cc_name c) Read) (tc_columns tc))) (sc_tables schema))"

text \<open>Case mapping is modelled for ASCII: the error marks a request or a name beyond it.\<close>

definition ascii_names :: "schemaConfig \<Rightarrow> bool" where
  "ascii_names schema \<longleftrightarrow> list_all (\<lambda>(t, tc). list_all is_ascii t \<and>
     list_all (\<lambda>c. list_all is_ascii (cc_name c)) (tc_columns tc)) (sc_tables schema)"

definition checkExplicitMentions :: "grantStore \<Rightarrow> string \<Rightarrow> string \<Rightarrow> schemaConfig \<Rightarrow> permissionCheck res" where
  "checkExplicitMentions s input u schema =
     (if \<not> list_all is_ascii input \<or> \<not> ascii_names schema then Inl (Unmodelled ''case mapping beyond ASCII'')
      else let text = to_lower input;
               denied = denied_tables s u text schema @ denied_columns s u text schema
        in Inr \<lparr>pc_allowed = (denied = []), pc_denied = denied\<rparr>)"

section \<open>The granted schema\<close>

definition getUserAccessibleTables :: "string \<Rightarrow> string list" where
  "getUserAccessibleTables u = []"

definition no_tables_message :: "string \<Rightarrow> string" where
  "no_tables_message u = ''Your current access doesn'' @ [CHR 0x27] @ ''t include any tables relevant to this query. You have access to: ''
     @ (let ts = getUserAccessibleTables u in if ts \<noteq> [] then ''['' @ join_str '', '' ts @ '']'' else ''none'')
     @ ''. To request more, say: request access to [table]''"

definition getGrantedSchemaOrError :: "grantStore \<Rightarrow> string \<Rightarrow> schemaConfig \<Rightarrow> (string, schemaConfig) result" where
  "getGrantedSchemaOrError s u full = (let g = getGrantedSchema s u full in
     if sc_tables g = [] then Inl (no_tables_message u) else Inr g)"

section \<open>Bridge tables of joins\<close>

fun pairs :: "'a list \<Rightarrow> ('a \<times> 'a) list" where
  "pairs [] = []"
| "pairs (x # xs) = map (Pair x) xs @ pairs xs"

definition bridge_tables :: "schemaConfig \<Rightarrow> string \<Rightarrow> string \<Rightarrow> string list" where
  "bridge_tables full a b = (case findJoinPath full a b of
     Inl e \<Rightarrow> []
   | Inr path \<Rightarrow> filter (\<lambda>t. t \<noteq> a \<and> t \<noteq> b)
       (foldl (\<lambda>ts fk. set_add (fk_toTable fk) (set_add (fk_fromTable fk) ts)) [] path))"

definition missing_bridges :: "schemaConfig \<Rightarrow> schemaConfig \<Rightarrow> string \<times> string \<Rightarrow> string list" where
  "missing_bridges visible full p = filter (\<lambda>t. \<not> tableExists visible t) (bridge_tables full (fst p) (snd p))"

definition uniq :: "'a list \<Rightarrow> 'a list" where
  "uniq xs = foldl (\<lambda>acc x. set_add x acc) [] xs"

text \<open>Per table, the first later table that needs a missing bridge; the inner loop ends there.\<close>

fun blocked_pairs :: "schemaConfig \<Rightarrow> string list \<Rightarrow> string list \<Rightarrow> string list" where
  "blocked_pairs full missing [] = []"
| "blocked_pairs full missing (a # rest) =
     (case find (\<lambda>b. list_ex (\<lambda>t. t \<in> set missing) (bridge_tables full a b)) rest of
        None \<Rightarrow> blocked_pairs full missing rest
      | Some b \<Rightarrow> (a @ '' and '' @ b) # blocked_pairs full missing rest)"

datatype joinCompleteness = JoinsComplete | TablesMissing (missing_tables: "string list") (join_message: string)

definition checkJoinCompleteness :: "string list \<Rightarrow> schemaConfig \<Rightarrow> schemaConfig \<Rightarrow> joinCompleteness" where
  "checkJoinCompleteness selected visible full =
     (let missing = concat (map (missing_bridges visible full) (pairs selected)) in
      if missing = [] then JoinsComplete
      else let names = join_str '', '' (uniq missing) in
        TablesMissing (uniq missing) (''To join '' @ join_str '', '' (blocked_pairs full missing selected)
          @ '', access to '' @ names @ '' is also needed. Request access with: request access to '' @ names))"

section \<open>Compiled pipelines\<close>

record violation =
  vi_step :: string
  vi_table :: string
  vi_column :: "string option"

datatype validation = Valid | Invalid (violations: "violation list") (validation_message: string)

definition table_violation :: "string \<Rightarrow> string \<Rightarrow> violation" where
  "table_violation step t = \<lparr>vi_step = step, vi_table = t, vi_column = None\<rparr>"

definition column_violation :: "string \<Rightarrow> string \<Rightarrow> string \<Rightarrow> violation" where
  "column_violation step t c = \<lparr>vi_step = step, vi_table = t, vi_column = Some c\<rparr>"

definition or_table :: "string option \<Rightarrow> string \<Rightarrow> string" where
  "or_table t d = (case t of None \<Rightarrow> d | Some x \<Rightarrow> if x = [] then d else x)"

definition ref_violations :: "grantStore \<Rightarrow> string \<Rightarrow> string \<Rightarrow> string option \<Rightarrow> string \<Rightarrow> violation list" where
  "ref_violations s u step t f = (case t of
     None \<Rightarrow> []
   | Some tb \<Rightarrow> if tb = [] then []
       else if \<not> checkTableAccess s u tb Read then [table_violation step tb]
       else if \<not> checkColumnAccess s u tb f Read then [column_violation step tb f] else [])"

fun expr_violations :: "grantStore \<Rightarrow> string \<Rightarrow> string \<Rightarrow> exprAST \<Rightarrow> violation list" where
  "expr_violations s u st (FieldRef t f) = ref_violations s u st t f"
| "expr_violations s u st (BinaryOp op l r) = expr_violations s u st l @ expr_violations s u st r"
| "expr_violations s u st (UnaryOp op e) = expr_violations s u st e"
| "expr_violations s u st (FunctionCall f args) = concat (map (expr_violations s u st) args)"
| "expr_violations s u st (Conditional c t e) =
     expr_violations s u st c @ expr_violations s u st t @ expr_violations s u st e"
| "expr_violations s u st (Cast e t) = expr_violations s u st e"
| "expr_violations s u st (IsNull e) = expr_violations s u st e"
| "expr_violations s u st (In e vs) = expr_violations s u st e @ concat (map (expr_violations s u st) vs)"
| "expr_violations s u st (Between e l h) =
     expr_violations s u st e @ expr_violations s u st l @ expr_violations s u st h"
| "expr_violations s u st (WindowExpr f e p ob) = expr_violations s u st e @
     (case p of None \<Rightarrow> [] | Some es \<Rightarrow> concat (map (expr_violations s u st) es)) @
     (case ob of None \<Rightarrow> [] | Some es \<Rightarrow> concat (map (expr_violations s u st) es))"
| "expr_violations s u st (Literal v t) = []"
| "expr_violations s u st (VarRef n) = []"
| "expr_violations s u st (SqlExpr q) = []"
| "expr_violations s u st Wildcard = []"

text \<open>An operation has an \<open>expr\<close>, a \<open>predicate\<close> or sort \<open>keys\<close>, according to its kind.\<close>

fun op_violations :: "grantStore \<Rightarrow> string \<Rightarrow> string \<Rightarrow> transformOp \<Rightarrow> violation list" where
  "op_violations s u st (AddField n e) = expr_violations s u st e"
| "op_violations s u st (FilterRows p) = expr_violations s u st p"
| "op_violations s u st (SortRows keys) = concat (map (\<lambda>k. expr_violations s u st (fst k)) keys)"
| "op_violations s u st _ = []"

fun part_violations :: "grantStore \<Rightarrow> string \<Rightarrow> string \<Rightarrow> templatePart \<Rightarrow> violation list" where
  "part_violations s u st (TExpr e) = expr_violations s u st e"
| "part_violations s u st (TLiteral t) = []"

definition prompt_violations :: "grantStore \<Rightarrow> string \<Rightarrow> string \<Rightarrow> llmPayload \<Rightarrow> violation list" where
  "prompt_violations s u st p =
     (case lm_systemPrompt p of None \<Rightarrow> [] | Some t \<Rightarrow> concat (map (part_violations s u st) (ts_parts t))) @
     concat (map (part_violations s u st) (ts_parts (lm_userPrompt p)))"

text \<open>The columns a query intent reads, with the primary table where none is named.\<close>

definition intent_columns :: "queryIntent \<Rightarrow> (string \<times> string) list" where
  "intent_columns q =
     map (\<lambda>c. (or_table (ic_table c) (qi_table q), ic_field c)) (qi_columns q) @
     map (\<lambda>f. (or_table (if_table f) (qi_table q), if_field f)) (opt_list (qi_filters q)) @
     map (\<lambda>f. (or_table (if_table f) (qi_table q), if_field f)) (opt_list (qi_having q)) @
     map (\<lambda>b. (or_table (io_table b) (qi_table q), io_field b)) (opt_list (qi_orderBy q))"

definition checkQueryIntentColumns :: "grantStore \<Rightarrow> string \<Rightarrow> string \<Rightarrow> queryIntent \<Rightarrow> violation list" where
  "checkQueryIntentColumns s u st q = map (\<lambda>(t, c). column_violation st t c)
     (filter (\<lambda>(t, c). \<not> checkColumnAccess s u t c Read) (intent_columns q))"

definition query_violations :: "grantStore \<Rightarrow> string \<Rightarrow> schemaConfig \<Rightarrow> string \<Rightarrow> queryIntent \<Rightarrow> violation list" where
  "query_violations s u visible st q =
     map (table_violation st) (filter (\<lambda>t. \<not> tableExists visible t)
       (qi_table q # map ij_table (opt_list (qi_joins q)))) @
     checkQueryIntentColumns s u st q"

definition write_violations :: "grantStore \<Rightarrow> string \<Rightarrow> string \<Rightarrow> writePayload \<Rightarrow> violation list" where
  "write_violations s u st w =
     (if checkTableAccess s u (wp_table w) Write then [] else [table_violation st (wp_table w)]) @
     map (column_violation st (wp_table w))
       (filter (\<lambda>c. \<not> checkColumnAccess s u (wp_table w) c Write) (wp_columns w))"

fun node_violations :: "grantStore \<Rightarrow> string \<Rightarrow> schemaConfig \<Rightarrow> string \<Rightarrow> nodePayload \<Rightarrow> violation list" where
  "node_violations s u visible st (QueryNode q) = query_violations s u visible st (qp_intent q)"
| "node_violations s u visible st (WriteNode w) = write_violations s u st w"
| "node_violations s u visible st (TransformNode ops) = concat (map (op_violations s u st) ops)"
| "node_violations s u visible st (LLMNode p) = prompt_violations s u st p"
| "node_violations s u visible st (OtherNode k) = []"

definition refusal :: "violation list \<Rightarrow> string" where
  "refusal vs = (let ts = join_str '', '' (uniq (map vi_table vs)) in
     ''The generated plan references tables/columns you don'' @ [CHR 0x27] @ ''t have access to: '' @ ts
     @ ''. This may mean the query needs a table you haven'' @ [CHR 0x27]
     @ ''t been granted. Request access with: request access to '' @ ts)"

definition validateEnrichedPipeline ::
    "pipelineIntent \<Rightarrow> string \<Rightarrow> schemaConfig \<Rightarrow> nodePayload graph \<Rightarrow> grantStore \<Rightarrow> validation" where
  "validateEnrichedPipeline intent u visible g s =
     (let vs = concat (map (\<lambda>step. case map_of (g_nodes g) (ps_id step) of
            None \<Rightarrow> []
          | Some n \<Rightarrow> node_violations s u visible (ps_id step) (n_payload n)) (pi_steps intent))
      in if vs = [] then Valid else Invalid vs (refusal vs))"

section \<open>Required columns of a write\<close>

definition getRequiredColumns :: "string \<Rightarrow> schemaConfig \<Rightarrow> string list res" where
  "getRequiredColumns t schema = (case map_of (sc_tables schema) t of
     None \<Rightarrow> Inl (PlainError (''Table '' @ t @ '' not found in schema''))
   | Some tc \<Rightarrow> Inr (map cc_name (filter (\<lambda>c. \<not> cc_nullable c \<and> \<not> cc_hasDefault c = Some True
       \<and> \<not> cc_isGenerated c = Some True) (tc_columns tc))))"

record missingColumn =
  mc_column :: string
  mc_nullable :: bool
  mc_description :: string

definition static_columns :: "writePayload \<Rightarrow> string list" where
  "static_columns w = (case wp_staticValues w of None \<Rightarrow> []
     | Some r \<Rightarrow> map fst (filter (\<lambda>(k, v). v \<noteq> JStr [] \<and> v \<noteq> JNull \<and> v \<noteq> JUndef) r))"

definition describe_missing :: "tableConfig \<Rightarrow> string \<Rightarrow> missingColumn" where
  "describe_missing tc n = (case find (\<lambda>c. cc_name c = n) (tc_columns tc) of
     None \<Rightarrow> \<lparr>mc_column = n, mc_nullable = False, mc_description = n @ '' column''\<rparr>
   | Some c \<Rightarrow> \<lparr>mc_column = n, mc_nullable = cc_nullable c,
       mc_description = (case cc_description c of None \<Rightarrow> n @ '' column'' | Some d \<Rightarrow> d)\<rparr>)"

text \<open>The empty list stands for \<^verbatim>\<open>{ complete: true }\<close>.\<close>

definition getMissingColumns ::
    "string \<Rightarrow> schemaConfig \<Rightarrow> writePayload \<Rightarrow> string list \<Rightarrow> missingColumn list res" where
  "getMissingColumns t schema w upstream = (case map_of (sc_tables schema) t of
     None \<Rightarrow> Inl (PlainError (''Table '' @ t @ '' not found in schema''))
   | Some tc \<Rightarrow>
      if wp_mode w \<notin> {WInsert, WInsertIgnore, WUpsert} then
        Inr (if wp_mode w = WUpdate \<and> wp_columns w = [] \<and> opt_list (wp_staticValues w) = []
          then [\<lparr>mc_column = ''(SET clause)'', mc_nullable = False,
            mc_description = ''UPDATE requires at least one column to set''\<rparr>] else [])
      else bindR (getRequiredColumns t schema) (\<lambda>required.
        let available = wp_columns w @ static_columns w @ upstream in
        Inr (map (describe_missing tc) (filter (\<lambda>c. c \<notin> set available) required))))"

end
