(* ===== verification/PermissionRules.thy ===== *)
theory PermissionRules
  imports Permissions
begin

text \<open>
  What the checks of \<open>src/src/auth/permission-checker.ts\<close> guarantee, and what they do not look at.
  Validation is characterised by the tables a pipeline scans, the columns it reads and those it
  writes; the join check by the schema the user sees; the scan of a request by the words in it.
\<close>

section \<open>References in expressions\<close>

lemma expr_violations_children:
  "(\<And>t f. e \<noteq> FieldRef t f) \<Longrightarrow>
    expr_violations s u st e = concat (map (expr_violations s u st) (children e))"
  by (cases e) (auto simp: opt_list_def split: option.split)

lemma column_needs_table: "checkColumnAccess s u t c m \<Longrightarrow> checkTableAccess s u t m"
  by (simp add: checkColumnAccess_def split: if_splits)

lemma ref_violations_none:
  "ref_violations s u st t f = [] \<longleftrightarrow> (\<forall>tb. t = Some tb \<and> tb \<noteq> [] \<longrightarrow> checkColumnAccess s u tb f Read)"
  by (auto simp: ref_violations_def dest: column_needs_table split: option.splits)

lemma expr_violations_none:
  "expr_violations s u st e = [] \<longleftrightarrow>
    (\<forall>t f. occurs (FieldRef (Some t) f) e \<and> t \<noteq> [] \<longrightarrow> checkColumnAccess s u t f Read)"
proof (induction e rule: expr_children_induct)
  case (expr e)
  show ?case
  proof (cases "\<exists>t f. e = FieldRef t f")
    case True
    then show ?thesis by (auto simp: ref_violations_none)
  next
    case False
    then have "expr_violations s u st e = [] \<longleftrightarrow> (\<forall>c \<in> set (children e). expr_violations s u st c = [])"
      using expr_violations_children [of e s u st] by auto
    also have "\<dots> \<longleftrightarrow> (\<forall>t f. (\<exists>c \<in> set (children e). occurs (FieldRef (Some t) f) c) \<and> t \<noteq> []
        \<longrightarrow> checkColumnAccess s u t f Read)"
      using expr by blast
    also have "\<dots> \<longleftrightarrow> (\<forall>t f. occurs (FieldRef (Some t) f) e \<and> t \<noteq> [] \<longrightarrow> checkColumnAccess s u t f Read)"
      using False by (subst (2) occurs_iff) metis
    finally show ?thesis .
  qed
qed

section \<open>What a node touches\<close>

fun op_exprs :: "transformOp \<Rightarrow> exprAST list" where
  "op_exprs (AddField n e) = [e]"
| "op_exprs (FilterRows p) = [p]"
| "op_exprs (SortRows keys) = map fst keys"
| "op_exprs _ = []"

definition template_exprs :: "templateString \<Rightarrow> exprAST list" where
  "template_exprs t = concat (map (\<lambda>p. case p of TExpr e \<Rightarrow> [e] | TLiteral _ \<Rightarrow> []) (ts_parts t))"

fun payload_exprs :: "nodePayload \<Rightarrow> exprAST list" where
  "payload_exprs (TransformNode ops) = concat (map op_exprs ops)"
| "payload_exprs (LLMNode p) = (case lm_systemPrompt p of None \<Rightarrow> [] | Some t \<Rightarrow> template_exprs t)
     @ template_exprs (lm_userPrompt p)"
| "payload_exprs _ = []"

fun scanned_tables :: "nodePayload \<Rightarrow> string set" where
  "scanned_tables (QueryNode q) = insert (qi_table (qp_intent q)) (ij_table ` set (opt_list (qi_joins (qp_intent q))))"
| "scanned_tables _ = {}"

definition reads_column :: "nodePayload \<Rightarrow> string \<Rightarrow> string \<Rightarrow> bool" where
  "reads_column p t c \<longleftrightarrow> (\<exists>q. p = QueryNode q \<and> (t, c) \<in> set (intent_columns (qp_intent q))) \<or>
     (t \<noteq> [] \<and> (\<exists>e \<in> set (payload_exprs p). occurs (FieldRef (Some t) c) e))"

definition may_write :: "grantStore \<Rightarrow> string \<Rightarrow> nodePayload \<Rightarrow> bool" where
  "may_write s u p \<longleftrightarrow> (case p of
     WriteNode w \<Rightarrow> checkTableAccess s u (wp_table w) Write
       \<and> (\<forall>c \<in> set (wp_columns w). checkColumnAccess s u (wp_table w) c Write)
   | _ \<Rightarrow> True)"

lemma op_violations_exprs: "op_violations s u st op = concat (map (expr_violations s u st) (op_exprs op))"
  by (cases op) (auto simp: o_def)

lemma template_violations:
  "concat (map (part_violations s u st) (ts_parts t)) = concat (map (expr_violations s u st) (template_exprs t))"
proof -
  have "concat (map (part_violations s u st) ps) = concat (map (expr_violations s u st)
      (concat (map (\<lambda>p. case p of TExpr e \<Rightarrow> [e] | TLiteral _ \<Rightarrow> []) ps)))" for ps
    by (induction ps) (auto split: templatePart.splits)
  then show ?thesis by (simp add: template_exprs_def)
qed

lemma expr_node_violations:
  "(case p of TransformNode _ \<Rightarrow> True | LLMNode _ \<Rightarrow> True | _ \<Rightarrow> False) \<Longrightarrow>
    node_violations s u visible st p = concat (map (expr_violations s u st) (payload_exprs p))"
proof (cases p)
  case (TransformNode ops)
  have "concat (map (op_violations s u st) ops) = concat (map (expr_violations s u st) (concat (map op_exprs ops)))"
    by (induction ops) (simp_all add: op_violations_exprs)
  with TransformNode show ?thesis by simp
next
  case (LLMNode x)
  then show ?thesis
    by (simp add: prompt_violations_def template_violations split: option.splits)
qed auto

lemma query_violations_none:
  "query_violations s u visible st q = [] \<longleftrightarrow>
    (\<forall>t \<in> insert (qi_table q) (ij_table ` set (opt_list (qi_joins q))). tableExists visible t) \<and>
    (\<forall>t c. (t, c) \<in> set (intent_columns q) \<longrightarrow> checkColumnAccess s u t c Read)"
  by (auto simp: query_violations_def checkQueryIntentColumns_def filter_empty_conv)

lemma write_violations_none:
  "write_violations s u st w = [] \<longleftrightarrow> checkTableAccess s u (wp_table w) Write \<and>
    (\<forall>c \<in> set (wp_columns w). checkColumnAccess s u (wp_table w) c Write)"
  by (auto simp: write_violations_def filter_empty_conv)

lemma node_violations_none:
  "node_violations s u visible st p = [] \<longleftrightarrow>
    (\<forall>t \<in> scanned_tables p. tableExists visible t) \<and>
    (\<forall>t c. reads_column p t c \<longrightarrow> checkColumnAccess s u t c Read) \<and> may_write s u p"
proof -
  have exprs: "concat (map (expr_violations s u st) es) = [] \<longleftrightarrow>
      (\<forall>t c. t \<noteq> [] \<and> (\<exists>e \<in> set es. occurs (FieldRef (Some t) c) e) \<longrightarrow> checkColumnAccess s u t c Read)" for es
    by (simp add: expr_violations_none) blast
  show ?thesis
  proof (cases p)
    case (TransformNode ops)
    with exprs [of "payload_exprs p"] show ?thesis
      by (subst expr_node_violations) (simp_all add: reads_column_def may_write_def)
  next
    case (LLMNode x)
    with exprs [of "payload_exprs p"] show ?thesis
      by (subst expr_node_violations) (simp_all add: reads_column_def may_write_def)
  qed (auto simp: query_violations_none write_violations_none reads_column_def may_write_def)
qed

lemma validate_valid_iff:
  "validateEnrichedPipeline intent u visible g s = Valid \<longleftrightarrow>
    (\<forall>step \<in> set (pi_steps intent). \<forall>n. map_of (g_nodes g) (ps_id step) = Some n \<longrightarrow>
      node_violations s u visible (ps_id step) (n_payload n) = [])"
  by (auto simp: validateEnrichedPipeline_def Let_def split: option.splits)

lemma granted_schema_tables:
  assumes "agrees h s"
  shows "tableExists (getGrantedSchema s u full) t \<longleftrightarrow> tableExists full t \<and> checkTableAccess s u t Read"
proof -
  from assms have "distinct (map fst (gs_tableGrants s))" by (simp add: agrees_def)
  from readable_tables_iff [OF this] show ?thesis
    by (force simp: tableExists_def getGrantedSchema_def Let_def al_has_def granted_tables_def)
qed

text \<open>C15: A compiled pipeline passes validation against the schema its user sees exactly when every node
  of its steps scans only tables of the full schema the user may read, reads only columns the user may
  read (in the columns, filters, having and order of a query, and in every qualified field reference
  anywhere in the expressions of a transformation or a prompt), and writes only a table and columns
  the user may write.\<close>

theorem validated_pipeline_permitted:
  assumes "reaches h s"
  shows "validateEnrichedPipeline intent u (getGrantedSchema s u full) g s = Valid \<longleftrightarrow>
    (\<forall>step \<in> set (pi_steps intent). \<forall>n. map_of (g_nodes g) (ps_id step) = Some n \<longrightarrow>
      (\<forall>t \<in> scanned_tables (n_payload n). tableExists full t \<and> checkTableAccess s u t Read) \<and>
      (\<forall>t c. reads_column (n_payload n) t c \<longrightarrow> checkColumnAccess s u t c Read) \<and>
      may_write s u (n_payload n))"
  using granted_schema_tables [OF reaches_agrees [OF assms]]
  by (simp add: validate_valid_iff node_violations_none)

text \<open>A pipeline of one query that reads two columns of a table.\<close>

definition bare_column :: "string \<Rightarrow> queryIntentColumn" where
  "bare_column c = \<lparr>ic_field = c, ic_table = None, ic_alias = None, ic_agg = None, ic_expr = None\<rparr>"

definition plain_query :: "string \<Rightarrow> string list \<Rightarrow> queryIntent" where
  "plain_query t cs = \<lparr>qi_table = t, qi_columns = map bare_column cs, qi_joins = None, qi_filters = None,
     qi_groupBy = None, qi_aggregations = None, qi_having = None, qi_orderBy = None, qi_limit = None,
     qi_offset = None, qi_distinct = None\<rparr>"

definition one_step :: "pipelineStepKind \<Rightarrow> pipelineIntent" where
  "one_step k = \<lparr>pi_description = ''one step'', pi_steps = [\<lparr>ps_id = ''s1'', ps_kind = k, ps_description = [],
     ps_dependsOn = None, ps_condition = None, ps_trueBranch = None, ps_falseBranch = None, ps_mergeStep = None,
     ps_loopMode = None, ps_loopOver = None, ps_loopBody = None, ps_maxIterations = None, ps_mergeFrom = None,
     ps_mergeStrategy = None, ps_parallelBranches = None, ps_maxConcurrency = None, ps_outputFields = None,
     ps_config = None\<rparr>], pi_params = None, pi_maxLLMCalls = None, pi_maxIterations = None, pi_timeoutMs = None\<rparr>"

definition one_node :: "string \<Rightarrow> nodePayload \<Rightarrow> nodePayload graph" where
  "one_node k p = \<lparr>g_id = ''g'', g_version = 1, g_nodes = [(''s1'', \<lparr>n_id = ''s1'', n_kind = k, n_label = None,
     n_payload = p, n_errorPolicy = \<lparr>onError = OnFail, maxRetries = None, retryDelayMs = None, fallbackNodeId = None\<rparr>\<rparr>)],
     g_edges = [], entryNode = ''s1'', exitNodes = [''s1''], g_metadata = JObj []\<rparr>"

definition query_graph :: "queryIntent \<Rightarrow> nodePayload graph" where
  "query_graph q = one_node ''query'' (QueryNode \<lparr>qp_intent = q, qp_datasource = ''main''\<rparr>)"

definition order_schema :: schemaConfig where
  "order_schema = \<lparr>sc_tables = [plain_table ''orders'' [''id'', ''total'']], sc_foreignKeys = [],
     sc_version = ''1'', sc_description = None\<rparr>"

theorem validated_pipeline_permitted_witness:
  "validateEnrichedPipeline (one_step SkQuery) ''u1'' (getGrantedSchema office_store ''u1'' order_schema)
     (query_graph (plain_query ''orders'' [''id'', ''total''])) office_store = Valid"
proof -
  have "tableExists order_schema ''orders''" by code_simp
  moreover have "checkTableAccess office_store ''u1'' ''orders'' Read"
    "checkColumnAccess office_store ''u1'' ''orders'' ''id'' Read"
    "checkColumnAccess office_store ''u1'' ''orders'' ''total'' Read"
    unfolding office_store_def office_def by code_simp+
  ultimately show ?thesis
    unfolding validated_pipeline_permitted [OF office_reached]
    by (auto simp: one_step_def query_graph_def one_node_def plain_query_def bare_column_def reads_column_def
        may_write_def intent_columns_def or_table_def)
qed

section \<open>What validation does not look at\<close>

text \<open>
  A query keeps its tables and the names of the columns it lists; grouping, aggregations, join
  conditions, computed columns and the right-hand sides of filters are blanked.  Of a write
  the predicates, static values and key columns are, and of a transformation all operations
  without an expression.
\<close>

definition blank_column :: "queryIntentColumn \<Rightarrow> queryIntentColumn" where
  "blank_column c = c\<lparr>ic_alias := None, ic_agg := None, ic_expr := None\<rparr>"

definition blank_filter :: "queryIntentFilter \<Rightarrow> queryIntentFilter" where
  "blank_filter f = f\<lparr>if_value := None, if_valueRef := None, if_expr := None\<rparr>"

definition blank_query :: "queryIntent \<Rightarrow> queryIntent" where
  "blank_query q = q\<lparr>qi_columns := map blank_column (qi_columns q),
     qi_joins := map_option (map (\<lambda>j. j\<lparr>ij_on := None\<rparr>)) (qi_joins q),
     qi_filters := map_option (map blank_filter) (qi_filters q),
     qi_groupBy := None, qi_aggregations := None,
     qi_having := map_option (map blank_filter) (qi_having q),
     qi_orderBy := map_option (map (\<lambda>b. b\<lparr>io_expr := None\<rparr>)) (qi_orderBy q)\<rparr>"

definition blank_write :: "writePayload \<Rightarrow> writePayload" where
  "blank_write w = w\<lparr>wp_staticValues := None, wp_staticWhere := None, wp_wherePredicate := None,
     wp_conflictColumns := None, wp_updateColumns := None, wp_whereColumns := None, wp_returning := None\<rparr>"

fun blank :: "nodePayload \<Rightarrow> nodePayload" where
  "blank (QueryNode q) = QueryNode (q\<lparr>qp_intent := blank_query (qp_intent q)\<rparr>)"
| "blank (WriteNode w) = WriteNode (blank_write w)"
| "blank (TransformNode ops) = TransformNode (filter (\<lambda>op. op_exprs op \<noteq> []) ops)"
| "blank p = p"

definition blank_pipeline :: "nodePayload graph \<Rightarrow> nodePayload graph" where
  "blank_pipeline g = g\<lparr>g_nodes := map (\<lambda>(k, n). (k, n\<lparr>n_payload := blank (n_payload n)\<rparr>)) (g_nodes g)\<rparr>"

lemma opt_list_map_option [simp]: "opt_list (map_option (map f) x) = map f (opt_list x)"
  by (cases x) simp_all

lemma blank_query_columns: "intent_columns (blank_query q) = intent_columns q"
  by (simp add: intent_columns_def blank_query_def blank_column_def blank_filter_def o_def)

lemma blank_violations: "node_violations s u visible st (blank p) = node_violations s u visible st p"
proof (cases p)
  case (QueryNode q)
  have "map ij_table (opt_list (qi_joins (blank_query i))) = map ij_table (opt_list (qi_joins i))"
    "qi_table (blank_query i) = qi_table i" for i
    by (simp_all add: blank_query_def o_def)
  with QueryNode show ?thesis
    by (simp add: query_violations_def checkQueryIntentColumns_def blank_query_columns)
next
  case (WriteNode w)
  then show ?thesis by (simp add: write_violations_def blank_write_def)
next
  case (TransformNode ops)
  have "concat (map (op_violations s u st) (filter (\<lambda>op. op_exprs op \<noteq> []) ops))
      = concat (map (op_violations s u st) ops)"
    by (induction ops) (auto simp: op_violations_exprs)
  with TransformNode show ?thesis by simp
qed simp_all

lemma map_of_map_snd: "map_of (map (\<lambda>(k, v). (k, f v)) m) k = map_option f (map_of m k)"
  by (induction m) auto

text \<open>Validation gives a pipeline and its blanked form the same verdict: it does not depend on the
  grouping, aggregations, join conditions, computed columns and filter values of a query, the
  predicates, static values and key columns of a write, and the operations of a transformation
  that name columns without an expression.  So a user from whom a column is withheld may still sum
  it up, group by it and join on it.\<close>

theorem validation_blind_spots:
  "(\<forall>intent u visible g s. validateEnrichedPipeline intent u visible (blank_pipeline g) s
      = validateEnrichedPipeline intent u visible g s) \<and>
   (let s = staff_store [GrantColumn ''u1'' ''staff'' ''salary'' False False];
        leak = (plain_query ''staff'' [''name''])\<lparr>qi_groupBy := Some [''salary''],
          qi_aggregations := Some [\<lparr>ia_fn = FSum, ia_expr = ''salary'', ia_alias = ''pay''\<rparr>]\<rparr>
    in \<not> checkColumnAccess s ''u1'' ''staff'' ''salary'' Read \<and>
       validateEnrichedPipeline (one_step SkQuery) ''u1'' (getGrantedSchema s ''u1'' pay_schema)
         (query_graph leak) s = Valid)"
proof -
  have "validateEnrichedPipeline intent u visible (blank_pipeline g) s = validateEnrichedPipeline intent u visible g s"
    for intent u visible g s
  proof -
    have "(case map_of (g_nodes (blank_pipeline g)) k of None \<Rightarrow> [] | Some n \<Rightarrow> node_violations s u visible k (n_payload n))
        = (case map_of (g_nodes g) k of None \<Rightarrow> [] | Some n \<Rightarrow> node_violations s u visible k (n_payload n))" for k
      by (simp add: blank_pipeline_def map_of_map_snd blank_violations split: option.split)
    then show ?thesis by (simp add: validateEnrichedPipeline_def)
  qed
  moreover have "\<not> checkColumnAccess (staff_store [GrantColumn ''u1'' ''staff'' ''salary'' False False])
      ''u1'' ''staff'' ''salary'' Read"
    by code_simp
  moreover have "validateEnrichedPipeline (one_step SkQuery) ''u1''
      (getGrantedSchema (staff_store [GrantColumn ''u1'' ''staff'' ''salary'' False False]) ''u1'' pay_schema)
      (query_graph ((plain_query ''staff'' [''name''])\<lparr>qi_groupBy := Some [''salary''],
         qi_aggregations := Some [\<lparr>ia_fn = FSum, ia_expr = ''salary'', ia_alias = ''pay''\<rparr>]\<rparr>))
      (staff_store [GrantColumn ''u1'' ''staff'' ''salary'' False False]) = Valid"
    by code_simp
  ultimately show ?thesis by (simp add: Let_def)
qed

section \<open>Joins in the granted schema\<close>

definition fk_tables :: "foreignKey list \<Rightarrow> string set" where
  "fk_tables p = (\<Union>fk \<in> set p. {fk_fromTable fk, fk_toTable fk})"

lemma set_bridge_tables:
  assumes "findJoinPath full a b = Inr p"
  shows "set (bridge_tables full a b) = fk_tables p - {a, b}"
proof -
  have "set (foldl (\<lambda>ts fk. set_add (fk_toTable fk) (set_add (fk_fromTable fk) ts)) ts p) = set ts \<union> fk_tables p"
    for ts
    by (induction p arbitrary: ts) (auto simp: fk_tables_def)
  then show ?thesis using assms by (auto simp: bridge_tables_def)
qed

lemma no_missing_bridges:
  "missing_bridges visible full (a, b) = [] \<longleftrightarrow> (\<forall>p. findJoinPath full a b = Inr p \<longrightarrow>
      (\<forall>t \<in> fk_tables p. t = a \<or> t = b \<or> tableExists visible t))"
proof (cases "findJoinPath full a b")
  case (Inl e)
  then show ?thesis by (simp add: missing_bridges_def bridge_tables_def)
next
  case (Inr p)
  then show ?thesis
    by (simp add: missing_bridges_def filter_empty_conv set_bridge_tables) blast
qed

lemma joins_complete_iff:
  "checkJoinCompleteness selected visible full = JoinsComplete \<longleftrightarrow>
    (\<forall>(a, b) \<in> set (pairs selected). missing_bridges visible full (a, b) = [])"
  by (simp add: checkJoinCompleteness_def Let_def split_def)

lemma granted_foreign_keys:
  "fk \<in> set (sc_foreignKeys (getGrantedSchema s u full)) \<longleftrightarrow> fk \<in> set (sc_foreignKeys full) \<and>
    tableExists (getGrantedSchema s u full) (fk_fromTable fk) \<and> tableExists (getGrantedSchema s u full) (fk_toTable fk)"
  by (auto simp: getGrantedSchema_def tableExists_def Let_def)

text \<open>When the join check passes, every two selected tables that the user may read and that can be
  joined in the full schema can be joined in the schema the user sees, by a path as short.\<close>

theorem joins_survive_granting:
  assumes "checkJoinCompleteness selected (getGrantedSchema s u full) full = JoinsComplete"
    and "(a, b) \<in> set (pairs selected)"
    and "tableExists (getGrantedSchema s u full) a" "tableExists (getGrantedSchema s u full) b"
    and "findJoinPath full a b = Inr p"
  shows "\<exists>q. findJoinPath (getGrantedSchema s u full) a b = Inr q \<and> length q = length p"
proof -
  let ?g = "getGrantedSchema s u full"
  have sub: "set (sc_foreignKeys ?g) \<subseteq> set (sc_foreignKeys full)" using granted_foreign_keys by blast
  from findJoinPath_cases [where s = full and a = a and b = b] assms(5)
  have p: "walks a p b" "set p \<subseteq> set (sc_foreignKeys full)"
    "\<forall>q. walks a q b \<and> set q \<subseteq> set (sc_foreignKeys full) \<longrightarrow> length p \<le> length q" by auto
  have "missing_bridges ?g full (a, b) = []"
    using assms(1,2) unfolding joins_complete_iff by auto
  with assms(5) have "\<forall>t \<in> fk_tables p. t = a \<or> t = b \<or> tableExists ?g t"
    by (simp add: no_missing_bridges)
  with assms(3,4) have vis: "\<And>t. t \<in> fk_tables p \<Longrightarrow> tableExists ?g t" by metis
  have "set p \<subseteq> set (sc_foreignKeys ?g)"
  proof
    fix fk assume "fk \<in> set p"
    then have "fk_fromTable fk \<in> fk_tables p" "fk_toTable fk \<in> fk_tables p" "fk \<in> set (sc_foreignKeys full)"
      using p(2) by (auto simp: fk_tables_def)
    with vis show "fk \<in> set (sc_foreignKeys ?g)" by (simp only: granted_foreign_keys)
  qed
  with p(1) findJoinPath_cases [where s = ?g and a = a and b = b] obtain q where
    q: "findJoinPath ?g a b = Inr q" "walks a q b" "set q \<subseteq> set (sc_foreignKeys ?g)" "length q \<le> length p"
    by (cases "findJoinPath ?g a b") auto
  with p(3) sub have "length p \<le> length q" by auto
  with q show ?thesis by auto
qed

definition plain_key :: "string \<Rightarrow> string \<Rightarrow> string \<Rightarrow> string \<Rightarrow> foreignKey" where
  "plain_key a c b d = \<lparr>fk_fromTable = a, fk_fromColumn = c, fk_toTable = b, fk_toColumn = d, fk_description = None\<rparr>"

definition shop_schema :: schemaConfig where
  "shop_schema = \<lparr>sc_tables = [plain_table ''orders'' [''id'', ''customer''], plain_table ''lines'' [''order'', ''item''],
     plain_table ''items'' [''id'']], sc_foreignKeys = [plain_key ''lines'' ''order'' ''orders'' ''id'',
     plain_key ''lines'' ''item'' ''items'' ''id''], sc_version = ''1'', sc_description = None\<rparr>"

definition shop_store :: grantStore where
  "shop_store = fold perform [CreateUser ''u1'' 1 ''ann'' ''h1'' ''user'', GrantTable ''u1'' ''orders'' True False,
     GrantTable ''u1'' ''lines'' True False, GrantTable ''u1'' ''items'' True False] empty_store"

lemma shop_path: "findJoinPath shop_schema ''orders'' ''items''
    = Inr [plain_key ''lines'' ''order'' ''orders'' ''id'', plain_key ''lines'' ''item'' ''items'' ''id'']"
  by code_simp

theorem joins_survive_granting_witness:
  "\<exists>q. findJoinPath (getGrantedSchema shop_store ''u1'' shop_schema) ''orders'' ''items'' = Inr q \<and> length q = 2"
proof -
  have "checkJoinCompleteness [''orders'', ''items''] (getGrantedSchema shop_store ''u1'' shop_schema) shop_schema
      = JoinsComplete" by code_simp
  moreover have "tableExists (getGrantedSchema shop_store ''u1'' shop_schema) ''orders''"
    "tableExists (getGrantedSchema shop_store ''u1'' shop_schema) ''items''" by code_simp+
  ultimately show ?thesis
    using joins_survive_granting [of "[''orders'', ''items'']" shop_store "''u1''" shop_schema, OF _ _ _ _ shop_path]
    by (simp add: numeral_2_eq_2)
qed

text \<open>The check looks at one shortest path only: a longer path over granted tables does not help.\<close>

lemma longer_path_not_considered:
  "let detour = shop_schema\<lparr>sc_tables := sc_tables shop_schema @ [plain_table ''stock'' [''order''],
         plain_table ''shelf'' [''item'']],
       sc_foreignKeys := sc_foreignKeys shop_schema @ [plain_key ''stock'' ''order'' ''orders'' ''id'',
         plain_key ''shelf'' ''item'' ''items'' ''id'', plain_key ''stock'' ''shelf'' ''shelf'' ''id'']\<rparr>;
       s = fold perform [CreateUser ''u1'' 1 ''ann'' ''h1'' ''user'', GrantTable ''u1'' ''orders'' True False,
         GrantTable ''u1'' ''stock'' True False, GrantTable ''u1'' ''shelf'' True False,
         GrantTable ''u1'' ''items'' True False] empty_store;
       g = getGrantedSchema s ''u1'' detour
   in checkJoinCompleteness [''orders'', ''items''] g detour \<noteq> JoinsComplete
      \<and> (case findJoinPath g ''orders'' ''items'' of Inr q \<Rightarrow> length q = 3 | Inl _ \<Rightarrow> False)"
  by code_simp

section \<open>Mentions\<close>

lemma mentions_iff: "mentions text name \<longleftrightarrow>
    (\<exists>before after. text = before @ name @ after \<and> boundary text (length before)
      \<and> boundary text (length before + length name))"
proof
  assume "mentions text name"
  then obtain i where i: "take (length name) (drop i text) = name"
      "boundary text i" "boundary text (i + length name)" and "i \<in> set [0..<Suc (length text)]"
    unfolding mentions_def list_ex_iff by blast
  from this(4) have "i \<le> length text" by auto
  have "text = take i text @ name @ drop (length name) (drop i text)"
    using i(1) by (metis append_take_drop_id)
  with i \<open>i \<le> length text\<close> show "\<exists>before after. text = before @ name @ after \<and> boundary text (length before)
      \<and> boundary text (length before + length name)"
    by (intro exI [of _ "take i text"] exI [of _ "drop (length name) (drop i text)"]) simp
next
  assume "\<exists>before after. text = before @ name @ after \<and> boundary text (length before)
      \<and> boundary text (length before + length name)"
  then obtain before after where t: "text = before @ name @ after" and b: "boundary text (length before)"
      "boundary text (length before + length name)" by auto
  then have "take (length name) (drop (length before) text) = name" "length before < Suc (length text)" by simp_all
  with b show "mentions text name" unfolding mentions_def list_ex_iff set_upt by fastforce
qed

definition mentioned :: "string \<Rightarrow> string \<Rightarrow> bool" where
  "mentioned input name \<longleftrightarrow> name \<noteq> [] \<and> mentions (to_lower input) (to_lower name)"

lemma denied_tables_none: "denied_tables s u (to_lower input) schema = [] \<longleftrightarrow>
    (\<forall>(t, tc) \<in> set (sc_tables schema). mentioned input t \<longrightarrow> checkTableAccess s u t Read)"
  by (auto simp: denied_tables_def filter_empty_conv mentioned_def)

lemma denied_columns_none: "denied_columns s u (to_lower input) schema = [] \<longleftrightarrow>
    (\<forall>(t, tc) \<in> set (sc_tables schema). \<forall>c \<in> set (tc_columns tc).
      mentioned input (cc_name c) \<and> to_lower (cc_name c) \<notin> set common_words \<longrightarrow>
      checkColumnAccess s u t (cc_name c) Read)"
  unfolding denied_columns_def mentioned_def concat_eq_Nil_conv split_def
  by (simp add: filter_empty_conv) blast

text \<open>The scan of a request allows it exactly when the user may read every table of the schema whose
  name occurs in it between word boundaries, whatever the case, and every column so mentioned in
  every table that has one of that name, but for seven common names; a user who may read a column
  is refused when another table has a column of the same name.\<close>

theorem checkExplicitMentions_exact:
  "(list_all is_ascii input \<and> ascii_names schema \<longrightarrow>
     (\<exists>denied. checkExplicitMentions s input u schema = Inr \<lparr>pc_allowed = (denied = []), pc_denied = denied\<rparr> \<and>
       (denied = [] \<longleftrightarrow> (\<forall>(t, tc) \<in> set (sc_tables schema).
          (mentioned input t \<longrightarrow> checkTableAccess s u t Read) \<and>
          (\<forall>c \<in> set (tc_columns tc). mentioned input (cc_name c) \<and> to_lower (cc_name c) \<notin> set common_words \<longrightarrow>
             checkColumnAccess s u t (cc_name c) Read))))) \<and>
   (let two = order_schema\<lparr>sc_tables := [plain_table ''orders'' [''total''], plain_table ''refunds'' [''total'']]\<rparr>
    in checkColumnAccess office_store ''u1'' ''orders'' ''total'' Read \<and>
       checkExplicitMentions office_store ''Total of Orders'' ''u1'' two
         = Inr \<lparr>pc_allowed = False, pc_denied = [''refunds.total'']\<rparr>)"
proof (intro conjI)
  have "denied_tables s u (to_lower input) schema @ denied_columns s u (to_lower input) schema = [] \<longleftrightarrow>
      (\<forall>(t, tc) \<in> set (sc_tables schema).
          (mentioned input t \<longrightarrow> checkTableAccess s u t Read) \<and>
          (\<forall>c \<in> set (tc_columns tc). mentioned input (cc_name c) \<and> to_lower (cc_name c) \<notin> set common_words \<longrightarrow>
             checkColumnAccess s u t (cc_name c) Read))"
    unfolding append_is_Nil_conv denied_tables_none denied_columns_none by blast
  then show "list_all is_ascii input \<and> ascii_names schema \<longrightarrow>
     (\<exists>denied. checkExplicitMentions s input u schema = Inr \<lparr>pc_allowed = (denied = []), pc_denied = denied\<rparr> \<and>
       (denied = [] \<longleftrightarrow> (\<forall>(t, tc) \<in> set (sc_tables schema).
          (mentioned input t \<longrightarrow> checkTableAccess s u t Read) \<and>
          (\<forall>c \<in> set (tc_columns tc). mentioned input (cc_name c) \<and> to_lower (cc_name c) \<notin> set common_words \<longrightarrow>
             checkColumnAccess s u t (cc_name c) Read))))"
    by (auto simp: checkExplicitMentions_def Let_def)
  show "let two = order_schema\<lparr>sc_tables := [plain_table ''orders'' [''total''], plain_table ''refunds'' [''total'']]\<rparr>
    in checkColumnAccess office_store ''u1'' ''orders'' ''total'' Read \<and>
       checkExplicitMentions office_store ''Total of Orders'' ''u1'' two
         = Inr \<lparr>pc_allowed = False, pc_denied = [''refunds.total'']\<rparr>"
    by code_simp
qed

theorem checkExplicitMentions_exact_witness:
  "\<exists>denied. checkExplicitMentions office_store ''count orders'' ''u1'' order_schema
     = Inr \<lparr>pc_allowed = (denied = []), pc_denied = denied\<rparr>"
proof -
  have "list_all is_ascii ''count orders'' \<and> ascii_names order_schema" by code_simp
  with checkExplicitMentions_exact [of "''count orders''" order_schema office_store "''u1''"] show ?thesis by blast
qed

end
