(* ===== verification/Spec2Isabelle.thy ===== *)
theory Spec2Isabelle
  imports SchedulerSteps CompiledRuns DataNodes WriteNodeSafety EnrichedRuns Sorting Aggregation Joins Session PermissionRules QueryProperties
begin

text \<open>
  A verification development for the execution core of the JIT program synthesis engine, the
  TypeScript program under \<open>src/src\<close>.

  \<^bold>\<open>The program.\<close>  A request in natural language becomes a pipeline: a graph of nodes (queries,
  transformations, LLM and HTTP calls, conditionals, loops, merges, writes) joined by data and
  control edges.  The scheduler runs the graph in topological order; query nodes are planned
  into trees of physical operators that pull batches of rows from storage; expressions are
  evaluated over rows and lexical scopes.

  \<^bold>\<open>The theories,\<close> in the order of their dependencies, and the code they model:

  \<^item> \<open>Prelude\<close>: results that may fail, association lists as insertion-ordered maps, breadth-first
    search with its termination measure; the collections \<open>result_simps\<close> and \<open>store_simps\<close>.
  \<^item> \<open>JsNumber\<close>: JavaScript numbers (binary64 with rounding, NaN, infinities, negative zero),
    their arithmetic, parsing and printing.
  \<^item> \<open>Values\<close>: \<open>core/types/\<close>: engine types, rows, values, data values, JavaScript conversions.
  \<^item> \<open>DataValues\<close>: \<open>core/types/data-value.ts\<close>: coercions, edge compatibility, wrapping.
  \<^item> \<open>Scopes\<close>: \<open>core/scope/scope.ts\<close>, \<open>core/context/\<close>: scope chains, budgets, traces, contexts.
  \<^item> \<open>Evaluator\<close>: \<open>core/ast/expr-ast.ts\<close>, \<open>executors/expr-evaluator.ts\<close>,
    \<open>core/registry/function-registry.ts\<close>, \<open>functions/builtin.ts\<close>,
    \<open>compiler/pipeline/expr-sanitizer.ts\<close>.
  \<^item> \<open>Graphs\<close>: \<open>core/graph/\<close>, \<open>scheduler/graph-utils.ts\<close>: graphs, Kahn's sort, control paths,
    inactive branches, node inputs, validation.
  \<^item> \<open>Operators\<close>: \<open>executors/physical-operator.ts\<close> and the scan, limit, project and filter
    operators; \<open>Blocking\<close>: the temporary store and the operators that build their result on the
    first call; \<open>Sorting\<close>, \<open>Aggregation\<close>, \<open>Joins\<close>: \<open>sort-operator.ts\<close>, \<open>agg-operator.ts\<close>,
    \<open>join-operator.ts\<close>.
  \<^item> \<open>Session\<close>: \<open>session/SessionCursor.ts\<close>.
  \<^item> \<open>LoopHelpers\<close>, \<open>Scheduler\<close>: \<open>scheduler/loop-helpers.ts\<close>, \<open>scheduler/scheduler.ts\<close>: the run of
    a graph with budgets, retries, timeouts, error policies, conditionals, loops and merges.
  \<^item> \<open>SchedulerSafety\<close>, \<open>SchedulerTermination\<close>, \<open>SchedulerRuns\<close>, \<open>SchedulerSteps\<close>: what every run
    guarantees, that it returns, and what single steps do.
  \<^item> \<open>Payloads\<close>: intents and node payloads; \<open>SchemaConfig\<close>: \<open>compiler/schema/schema-config.ts\<close>.
  \<^item> \<open>Grants\<close>, \<open>GrantHistory\<close>, \<open>GrantedSchema\<close>: \<open>auth/grant-store.ts\<close>, as tables and as histories of
    calls; \<open>Permissions\<close>, \<open>PermissionRules\<close>: \<open>auth/permission-checker.ts\<close>.
  \<^item> \<open>QueryAst\<close>: \<open>compiler/query-ast/query-ast-builder.ts\<close>, intents to syntax trees; \<open>QueryPlans\<close>:
    \<open>query-planner.ts\<close> and \<open>compiler/query/operator-tree-builder.ts\<close>, syntax trees to plans and operator
    trees; \<open>PlanTrees\<close>: the tree of a query without ids and updates, and the proof that plans build it.
  \<^item> \<open>QuerySql\<close>, \<open>QueryExec\<close>: \<open>executors/query-executor.ts\<close>; \<open>QueryPages\<close>, \<open>QueryProperties\<close>: what
    queries return, and where their parts deviate.
  \<^item> \<open>DataNodes\<close>: \<open>nodes/definitions/transform-node.ts\<close> and \<open>merge-node.ts\<close>.
  \<^item> \<open>Compiler\<close>: \<open>compiler/pipeline/pipeline-compiler.ts\<close>; \<open>CompilerChecks\<close>: what its checks establish, with
    the depth-first search for cycles; \<open>CompiledGraphs\<close>, \<open>CompiledRuns\<close>: the arrows of compiled graphs, when the
    scheduler accepts them, and that their runs return.
  \<^item> \<open>BuiltSchema\<close>, \<open>BuiltSchemaFacts\<close>: \<open>schema/DDLParser.ts\<close> from its parsed tables on, \<open>TraitInferencer.ts\<close>,
    \<open>ColumnClassifier.ts\<close>, \<open>MultiSourceSchemaBuilder.ts\<close>, \<open>storage/DataSourceRegistry.ts\<close>.
  \<^item> \<open>WriteSql\<close>, \<open>WriteRuns\<close>: \<open>nodes/definitions/write-predicate-builder.ts\<close> and the statements of
    \<open>write-node.ts\<close>; \<open>ForeignKeys\<close>: \<open>write/FKValidator.ts\<close>, \<open>coerceColumnValue.ts\<close>; \<open>WriteNode\<close>,
    \<open>WriteNodeRuns\<close>, \<open>WriteNodeSafety\<close>: the whole write node and what it sends.
  \<^item> \<open>Decomposer\<close>, \<open>DecomposerFacts\<close>: \<open>compiler/query/cross-db-decomposer.ts\<close>, queries and writes that span data
    sources, and which of their filters and joins survive.
  \<^item> From \<open>pipeline-engine.ts\<close>: \<open>EngineFields\<close>, the field registry and the fields and tables upstream of a step;
    \<open>WriteEnrichment\<close>, \<open>WriteEnrichmentFacts\<close>: \<open>enrichWriteNode\<close>, the payload of a write; \<open>Enrichment\<close>:
    \<open>validateQueryIntentColumns\<close>, \<open>validateWriteFieldResolution\<close> and \<open>enrichNodes\<close>; \<open>EnrichedRuns\<close>: that the
    enriched graph is accepted and its runs return.

  \<^bold>\<open>How the model corresponds to the code.\<close>  A class or object type is a record, a tagged union a
  datatype, a JavaScript \<open>Map\<close> an association list in insertion order, a plain object an
  association list in the order \<open>Object.entries\<close> gives.  A throw is the left summand of a
  result.  An operator is a record of its methods over its private state; the state of its
  input is part of it.  The scheduler's state is the execution state of \<open>scheduler/types.ts\<close>, an
  abstract world that node implementations and the query executor act on, and the events
  emitted so far.  What the host engine decides (regular expressions, dates, square roots, the
  clock) and what other services do (storage, node implementations, queries) are arguments.
  The error \<open>Unmodelled\<close> marks the edge of the model; no theorem treats it as a result of the
  program.

  \<^bold>\<open>What is shown.\<close>  Scopes: iterations are isolated; the trace summaries are exact.  Data values:
  edges that pass the compatibility test deliver readable values.  Evaluator: inference is
  sound.  Graphs: the sort and validation are characterised exactly, skipped branches and
  control paths too, and graphs survive their JSON form.  Operators: trees of scan, limit,
  project, filter, sort, aggregate and join deliver what the list functions they implement
  deliver, for all batch sizes, and \<open>collectAll\<close> terminates on them; where the code deviates,
  a theorem gives the rows that show it.  Scheduler: budgets hold in every run, a run that
  returns has decided every node, runs return when data edges and fallbacks have no cycle, and retries,
  conditionals and loops do what they promise.  Access control: the grant tables implement the history
  of grants, and validated pipelines read and write only what was granted, as far as validation looks.
  Queries: plans build a reference tree whatever pushdown moves; a local query returns the page that its
  intent describes; the where-clause means what its groups of filters say.
  Compiler: its checks accept exactly the well-formed intents, the scheduler accepts exactly the compiled graphs
  without cycles and orphans, and their runs return.  Nodes: transforms keep rows and schema in step, and the join
  of a merge is a nested-loop join.  Writes: every statement is restricted, inserts write each row once, conditions
  mean what their entries say, and the check of keys finds the dangling ones; schemas: blocked columns and routing
  are characterised, and theorems give paths of a write that do not do what their mode says.
  Enrichment: it ends although it adds nodes to the map it walks, the graph it leaves is accepted when the compiled one
  is, and runs of that graph return; values of the system survive whatever a model answers, static values are checked,
  and three theorems show what queries over several sources lose.

  \<^bold>\<open>Bounds.\<close>  Loops over operators are partial functions into options, and the theorems prove that
  they return.  \<open>executeNode\<close> takes fuel, because a fallback may fall back on itself; fuel 0 is
  \<open>None\<close>, never a result.  One unit of fuel per nested node execution is consumed.  The tree
  builder recurses on the ids it has not visited.  \<open>enrichNodes\<close> is a partial function too: it returns because ids of
  lookups start with \<open>lookup_\<close> and are no steps.

  \<^bold>\<open>Not modelled.\<close>  Interleaving of parallel branches (a cap above one with several branches);
  identity of objects; characters beyond 255; the components listed as not modelled in the
  manifest: the HTTP, LLM and query node definitions, LLM generators, the walk over the syntax tree of the SQL
  parser, SQL backends but for their transactions, caches, configuration data, the command line and the HTTP API.
\<close>

end
